(* ===== verification/Prelude.thy ===== *)
theory Prelude
  imports Main "HOL-Library.AList" "HOL-Library.Multiset"
begin

text \<open>
  The shared ground of the development.

  \<^item> A Rust \<open>HashMap\<close> is an association list with distinct keys: \<open>map_of m k\<close> reads,
    \<open>AList.update\<close> inserts or replaces, \<open>AList.delete\<close> removes. The order of the list is the
    order in which the map is iterated. Rust leaves that order open; the lemmas of the
    development quantify over every list, so they hold whatever order a map presents, and the
    step relations contain a step that reorders the maps.
  \<^item> \<open>get_or d m k\<close> is \<open>m.get(&k).copied().unwrap_or(d)\<close>.
  \<^item> \<open>i64_sum\<close> is the wrapping sum of a release build (no overflow checks).
  \<^item> The named collection \<open>alist_simps\<close> holds the rewriting rules for map reads after map
    writes.
\<close>

named_theorems alist_simps

type_synonym uuid = string
type_synonym instant = nat
type_synonym duration = nat
type_synonym ('k, 'v) hmap = "('k \<times> 'v) list"

section \<open>Maps\<close>

definition get_or :: "'v \<Rightarrow> ('k, 'v) hmap \<Rightarrow> 'k \<Rightarrow> 'v" where
  "get_or d m k = (case map_of m k of None \<Rightarrow> d | Some v \<Rightarrow> v)"

definition contains_key :: "('k, 'v) hmap \<Rightarrow> 'k \<Rightarrow> bool" where
  "contains_key m k = (map_of m k \<noteq> None)"

definition hkeys :: "('k, 'v) hmap \<Rightarrow> 'k list" where
  "hkeys m = map fst m"

definition hvals :: "('k, 'v) hmap \<Rightarrow> 'v list" where
  "hvals m = map snd m"

definition hmap_ok :: "('k, 'v) hmap \<Rightarrow> bool" where
  "hmap_ok m = distinct (map fst m)"

text \<open>Every value of the map has a property.\<close>

definition vals_ok :: "('v \<Rightarrow> bool) \<Rightarrow> ('k, 'v) hmap \<Rightarrow> bool" where
  "vals_ok P m = (\<forall>k v. map_of m k = Some v \<longrightarrow> P v)"

definition msum :: "('v \<Rightarrow> nat) \<Rightarrow> ('k, 'v) hmap \<Rightarrow> nat" where
  "msum f m = sum_list (map (f \<circ> snd) m)"

lemma map_of_update [simp, alist_simps]:
  "map_of (AList.update k v m) i = (if i = k then Some v else map_of m i)"
  by (simp add: update_conv')

lemma map_of_delete [simp, alist_simps]:
  "map_of (AList.delete k m) i = (if i = k then None else map_of m i)"
  by (simp add: delete_conv')

lemma get_or_update [simp, alist_simps]:
  "get_or d (AList.update k v m) i = (if i = k then v else get_or d m i)"
  by (simp add: get_or_def)

lemma get_or_delete [simp, alist_simps]:
  "get_or d (AList.delete k m) i = (if i = k then d else get_or d m i)"
  by (simp add: get_or_def)

lemma get_or_Nil [simp]: "get_or d [] k = d"
  by (simp add: get_or_def)

lemma get_or_Some: "map_of m k = Some v \<Longrightarrow> get_or d m k = v"
  by (simp add: get_or_def)

lemma get_or_None: "map_of m k = None \<Longrightarrow> get_or d m k = d"
  by (simp add: get_or_def)

lemma hmap_ok_Nil [simp, intro]: "hmap_ok []"
  by (simp add: hmap_ok_def)

lemma hmap_ok_update [simp, intro]: "hmap_ok m \<Longrightarrow> hmap_ok (AList.update k v m)"
  by (simp add: hmap_ok_def distinct_update)

lemma hmap_ok_delete [simp, intro]: "hmap_ok m \<Longrightarrow> hmap_ok (AList.delete k m)"
  by (simp add: hmap_ok_def distinct_delete)

lemma hmap_ok_filter [simp, intro]: "hmap_ok m \<Longrightarrow> hmap_ok (filter P m)"
  by (simp add: hmap_ok_def distinct_map_filter)

lemma hmap_ok_map_value [simp]: "hmap_ok (map (\<lambda>(k, v). (k, f k v)) m) = hmap_ok m"
  by (simp add: hmap_ok_def comp_def case_prod_beta')

lemma hmap_entry: "hmap_ok m \<Longrightarrow> (k, v) \<in> set m \<longleftrightarrow> map_of m k = Some v"
  by (simp add: hmap_ok_def)

lemma vals_ok_Nil [simp, intro]: "vals_ok P []"
  by (simp add: vals_ok_def)

lemma vals_okD: "vals_ok P m \<Longrightarrow> map_of m k = Some v \<Longrightarrow> P v"
  by (auto simp: vals_ok_def)

lemma vals_ok_update [intro]: "vals_ok P m \<Longrightarrow> P v \<Longrightarrow> vals_ok P (AList.update k v m)"
  by (auto simp: vals_ok_def)

lemma vals_ok_delete [intro]: "vals_ok P m \<Longrightarrow> vals_ok P (AList.delete k m)"
  by (auto simp: vals_ok_def)

lemma map_of_filter_ok: "hmap_ok m \<Longrightarrow> map_of (filter P m) k = Some v \<Longrightarrow> map_of m k = Some v"
  by (metis hmap_entry hmap_ok_filter filter_is_subset subsetD)

lemma vals_ok_filter [intro]: "hmap_ok m \<Longrightarrow> vals_ok P m \<Longrightarrow> vals_ok P (filter Q m)"
  by (auto simp: vals_ok_def dest: map_of_filter_ok)

lemma msum_Nil [simp]: "msum f [] = 0"
  by (simp add: msum_def)

lemma msum_Cons [simp]: "msum f (e # m) = f (snd e) + msum f m"
  by (simp add: msum_def)

lemma msum_delete_notin: "k \<notin> fst ` set m \<Longrightarrow> msum f (AList.delete k m) = msum f m"
  by (simp add: delete_id)

lemma msum_update:
  "hmap_ok m \<Longrightarrow>
   msum f (AList.update k v m) + (case map_of m k of None \<Rightarrow> 0 | Some u \<Rightarrow> f u) = msum f m + f v"
  by (induction m) (auto simp: hmap_ok_def split: option.splits dest: map_of_SomeD intro: rev_image_eqI)

lemma msum_delete:
  "hmap_ok m \<Longrightarrow>
   msum f (AList.delete k m) + (case map_of m k of None \<Rightarrow> 0 | Some u \<Rightarrow> f u) = msum f m"
  by (induction m) (auto simp: hmap_ok_def delete_id split: option.splits)

lemma msum_get_update:
  "hmap_ok m \<Longrightarrow> f d = 0 \<Longrightarrow> msum f (AList.update k v m) + f (get_or d m k) = msum f m + f v"
  using msum_update [of m f k v] by (auto simp: get_or_def split: option.splits)

lemma msum_get_delete:
  "hmap_ok m \<Longrightarrow> f d = 0 \<Longrightarrow> msum f (AList.delete k m) + f (get_or d m k) = msum f m"
  using msum_delete [of m f k] by (auto simp: get_or_def split: option.splits)

lemma msum_member_le: "map_of m k = Some v \<Longrightarrow> f v \<le> msum f m"
  by (induction m) (auto split: if_splits)

lemma msum_eq_0: "msum f m = 0 \<longleftrightarrow> (\<forall>v \<in> snd ` set m. f v = 0)"
  by (induction m) auto

lemma update_fresh: "k \<notin> fst ` set m \<Longrightarrow> AList.update k v m = m @ [(k, v)]"
  by (induction m) auto

lemma fold_update_fresh:
  "distinct (map key xs) \<Longrightarrow> key ` set xs \<inter> fst ` set m = {} \<Longrightarrow>
   fold (\<lambda>x. AList.update (key x) (val x)) xs m = m @ map (\<lambda>x. (key x, val x)) xs"
proof (induction xs arbitrary: m)
  case (Cons x xs)
  have "AList.update (key x) (val x) m = m @ [(key x, val x)]"
    using Cons.prems by (intro update_fresh) auto
  then show ?case using Cons.IH [of "m @ [(key x, val x)]"] Cons.prems by auto
qed simp

section \<open>Integers of the source\<close>

text \<open>Two's complement reading of an integer at 64 bits, and a wrapping \<open>i64\<close> sum.\<close>

definition i64 :: "int \<Rightarrow> int" where
  "i64 x = (x + 2 ^ 63) mod 2 ^ 64 - 2 ^ 63"

definition i64_sum :: "int list \<Rightarrow> int" where
  "i64_sum xs = i64 (sum_list xs)"

definition div_ceil :: "nat \<Rightarrow> nat \<Rightarrow> nat" where
  "div_ceil a b = (if a mod b = 0 then a div b else a div b + 1)"

lemma i64_id: "- (2 ^ 63) \<le> x \<Longrightarrow> x < 2 ^ 63 \<Longrightarrow> i64 x = x"
  by (simp add: i64_def)

lemma div_ceil_lower: "0 < b \<Longrightarrow> a \<le> div_ceil a b * b"
proof -
  assume b: "0 < b"
  define q r where "q = a div b" and "r = a mod b"
  have "a = q * b + r" and "r < b" using b by (simp_all add: q_def r_def)
  moreover have "div_ceil a b = (if r = 0 then q else q + 1)"
    by (simp add: div_ceil_def q_def r_def)
  ultimately show ?thesis by (simp add: algebra_simps)
qed

lemma div_ceil_upper: "0 < b \<Longrightarrow> div_ceil a b * b < a + b"
proof -
  assume b: "0 < b"
  define q r where "q = a div b" and "r = a mod b"
  have "a = q * b + r" and "r < b" using b by (simp_all add: q_def r_def)
  moreover have "div_ceil a b = (if r = 0 then q else q + 1)"
    by (simp add: div_ceil_def q_def r_def)
  ultimately show ?thesis using b by (simp add: algebra_simps)
qed

section \<open>Lists\<close>

lemma int_sum_list: "int (sum_list xs) = sum_list (map int xs)"
  by (induction xs) auto

text \<open>
  \<open>min_by\<close> scans a list keeping the first entry with the least score, as the loops of the form
  \<open>match best { Some((_, b)) if score >= b => {}, _ => best = ... }\<close> do. \<open>max_by_last\<close> is
  \<open>Iterator::max_by\<close>: of several equally large entries the last one wins. \<open>position\<close> is
  \<open>Iterator::position\<close>.
\<close>

fun min_by_from :: "('a \<Rightarrow> 'b::linorder) \<Rightarrow> 'a option \<Rightarrow> 'a list \<Rightarrow> 'a option" where
  "min_by_from f best [] = best"
| "min_by_from f best (x # xs) =
     min_by_from f (case best of None \<Rightarrow> Some x | Some b \<Rightarrow> if f b \<le> f x then best else Some x) xs"

definition min_by :: "('a \<Rightarrow> 'b::linorder) \<Rightarrow> 'a list \<Rightarrow> 'a option" where
  "min_by f xs = min_by_from f None xs"

fun max_by_last :: "('a \<Rightarrow> 'a \<Rightarrow> bool) \<Rightarrow> 'a list \<Rightarrow> 'a option" where
  "max_by_last le [] = None"
| "max_by_last le (x # xs) =
     (case max_by_last le xs of None \<Rightarrow> Some x | Some y \<Rightarrow> if le x y then Some y else Some x)"

fun position :: "('a \<Rightarrow> bool) \<Rightarrow> 'a list \<Rightarrow> nat option" where
  "position P [] = None"
| "position P (x # xs) = (if P x then Some 0 else map_option Suc (position P xs))"

text \<open>\<open>Iterator::find_map\<close>, and a \<open>HashSet\<close> insertion on a list without duplicates.\<close>

fun find_map :: "('a \<Rightarrow> 'b option) \<Rightarrow> 'a list \<Rightarrow> 'b option" where
  "find_map f [] = None"
| "find_map f (x # xs) = (case f x of None \<Rightarrow> find_map f xs | Some y \<Rightarrow> Some y)"

definition set_insert :: "'a \<Rightarrow> 'a list \<Rightarrow> 'a list" where
  "set_insert x xs = (if x \<in> set xs then xs else xs @ [x])"

definition remove_nth :: "nat \<Rightarrow> 'a list \<Rightarrow> 'a list" where
  "remove_nth i xs = take i xs @ drop (Suc i) xs"

definition list_min :: "'a::linorder list \<Rightarrow> 'a option" where
  "list_min xs = (case xs of [] \<Rightarrow> None | y # ys \<Rightarrow> Some (fold min ys y))"

lemma min_by_from_Some:
  "min_by_from f best xs = Some y \<Longrightarrow>
   (y \<in> set xs \<or> best = Some y) \<and> (\<forall>x \<in> set xs. f y \<le> f x) \<and> (\<forall>b. best = Some b \<longrightarrow> f y \<le> f b)"
proof (induction xs arbitrary: best)
  case (Cons x xs)
  show ?case
    using Cons.IH [OF Cons.prems [unfolded min_by_from.simps]]
    by (auto split: option.splits if_splits)
qed auto

lemma min_by_from_None: "min_by_from f best xs = None \<longleftrightarrow> best = None \<and> xs = []"
  by (induction xs arbitrary: best) (auto split: option.splits)

lemma min_by_Some: "min_by f xs = Some y \<Longrightarrow> y \<in> set xs \<and> (\<forall>x \<in> set xs. f y \<le> f x)"
  using min_by_from_Some [of f None xs y] by (auto simp: min_by_def)

lemma min_by_None [simp]: "min_by f xs = None \<longleftrightarrow> xs = []"
  by (simp add: min_by_def min_by_from_None)

lemma max_by_last_None [simp]: "max_by_last le xs = None \<longleftrightarrow> xs = []"
  by (cases xs) (auto split: option.splits)

lemma max_by_last_in: "max_by_last le xs = Some y \<Longrightarrow> y \<in> set xs"
  by (induction xs arbitrary: y) (auto split: option.splits if_splits)

lemma position_Some:
  "position P xs = Some i \<Longrightarrow> i < length xs \<and> P (xs ! i) \<and> (\<forall>j < i. \<not> P (xs ! j))"
proof (induction xs arbitrary: i)
  case (Cons x xs)
  then show ?case by (cases i) (auto split: if_splits simp: less_Suc_eq_0_disj)
qed auto

lemma position_None: "position P xs = None \<longleftrightarrow> (\<forall>x \<in> set xs. \<not> P x)"
  by (induction xs) auto

lemma find_map_Some: "find_map f xs = Some y \<Longrightarrow> \<exists>x \<in> set xs. f x = Some y"
  by (induction xs) (auto split: option.splits)

lemma find_map_None: "find_map f xs = None \<longleftrightarrow> (\<forall>x \<in> set xs. f x = None)"
  by (induction xs) (auto split: option.splits)

lemma set_insert_set [simp]: "set (set_insert x xs) = insert x (set xs)"
  by (auto simp: set_insert_def)

lemma length_remove_nth: "i < length xs \<Longrightarrow> length (remove_nth i xs) = length xs - 1"
  by (simp add: remove_nth_def)

lemma mset_remove_nth: "i < length xs \<Longrightarrow> add_mset (xs ! i) (mset (remove_nth i xs)) = mset xs"
proof -
  assume "i < length xs"
  then have "xs = take i xs @ xs ! i # drop (Suc i) xs" by (rule id_take_nth_drop)
  then have "mset xs = mset (take i xs @ xs ! i # drop (Suc i) xs)" by simp
  then show ?thesis by (simp add: remove_nth_def)
qed

lemma fold_min_le: "fold min ys y \<le> y \<and> (\<forall>x \<in> set ys. fold min ys y \<le> x)"
  for y :: "'a::linorder"
proof (induction ys arbitrary: y)
  case (Cons a ys)
  from Cons [of "min a y"] show ?case by auto
qed auto

lemma fold_min_in: "fold min ys y \<in> set (y # ys)"
  for y :: "'a::linorder"
proof (induction ys arbitrary: y)
  case (Cons a ys)
  from Cons [of "min a y"] show ?case by (auto simp: min_def split: if_splits)
qed auto

lemma list_min_Some: "list_min xs = Some y \<Longrightarrow> y \<in> set xs \<and> (\<forall>x \<in> set xs. y \<le> x)"
proof (cases xs)
  case (Cons a as)
  assume "list_min xs = Some y"
  then show ?thesis
    using fold_min_le [of as a] fold_min_in [of as a] by (auto simp: list_min_def Cons)
qed (simp add: list_min_def)

lemma list_min_None [simp]: "list_min xs = None \<longleftrightarrow> xs = []"
  by (simp add: list_min_def split: list.splits)

end
