(* ===== verification/Replicas.thy ===== *)
theory Replicas
  imports Prelude
begin

text \<open>
  Replica counting and the split (\<open>obleth-fairshare/src/replicas.rs\<close>): the share of a
  cluster-wide limit one replica enforces, and the tracker that follows the live replica count
  read from Redis heartbeats. A successful reading is \<open>Inr n\<close>, a failed one \<open>Inl e\<close>.
\<close>

definition replica_share :: "nat \<Rightarrow> nat \<Rightarrow> nat" where
  "replica_share tot replicas = max (div_ceil tot (max replicas 1)) 1"

record replica_tracker =
  rt_count :: nat
  rt_known :: bool
  rt_failing :: bool

definition replica_tracker_new :: replica_tracker where
  "replica_tracker_new = \<lparr>rt_count = 1, rt_known = False, rt_failing = False\<rparr>"

definition observe :: "replica_tracker \<Rightarrow> 'e + nat \<Rightarrow> replica_tracker \<times> nat option" where
  "observe t result =
     (case result of
        Inr n \<Rightarrow>
          (let live = max n 1;
               t = t\<lparr>rt_failing := False, rt_known := True\<rparr>
           in if live = rt_count t then (t, None)
              else (t\<lparr>rt_count := live\<rparr>, Some live))
      | Inl e \<Rightarrow> (if rt_failing t then (t, None) else (t\<lparr>rt_failing := True\<rparr>, None)))"

text \<open>A run of heartbeat readings, with the counts reported on the way.\<close>

fun observe_all :: "replica_tracker \<Rightarrow> ('e + nat) list \<Rightarrow> replica_tracker \<times> nat list" where
  "observe_all t [] = (t, [])"
| "observe_all t (r # rs) =
     (let (t', c) = observe t r; (t'', cs) = observe_all t' rs
      in (t'', (case c of None \<Rightarrow> cs | Some n \<Rightarrow> n # cs)))"

lemma replica_share_pos [simp]: "1 \<le> replica_share tot replicas"
  by (simp add: replica_share_def)

lemma replica_share_one [simp]: "1 \<le> tot \<Longrightarrow> replica_share tot 1 = tot"
  by (simp add: replica_share_def div_ceil_def)

lemma replica_share_le: "1 \<le> tot \<Longrightarrow> replica_share tot n \<le> tot"
proof -
  assume t: "1 \<le> tot"
  let ?b = "max n 1"
  have "div_ceil tot ?b \<le> tot"
  proof (cases "?b = 1")
    case True
    then show ?thesis by (simp add: div_ceil_def)
  next
    case False
    then have b: "2 \<le> ?b" by simp
    have "tot div ?b \<le> tot div 2" using b by (intro div_le_mono2) auto
    then show ?thesis using t by (auto simp: div_ceil_def)
  qed
  then show ?thesis using t by (simp add: replica_share_def)
qed

lemma replica_share_covers: "1 \<le> n \<Longrightarrow> tot \<le> replica_share tot n * n"
proof -
  assume n: "1 \<le> n"
  have "tot \<le> div_ceil tot n * n" using n by (intro div_ceil_lower) simp
  also have "\<dots> \<le> replica_share tot n * n"
    using n by (intro mult_right_mono) (auto simp: replica_share_def max_def)
  finally show ?thesis .
qed

lemma replica_share_over: "1 \<le> n \<Longrightarrow> 1 \<le> tot \<Longrightarrow> replica_share tot n * n < tot + n"
  using div_ceil_upper [of n tot] by (auto simp: replica_share_def max_def)

text \<open>The successful readings of a run, in order.\<close>

fun readings :: "('e + nat) list \<Rightarrow> nat list" where
  "readings [] = []"
| "readings (Inl e # rs) = readings rs"
| "readings (Inr n # rs) = n # readings rs"

lemma observe_count:
  "rt_count (fst (observe t r)) = (case r of Inl e \<Rightarrow> rt_count t | Inr n \<Rightarrow> max n 1)"
  by (auto simp: observe_def Let_def split: sum.splits)

lemma observe_report:
  "snd (observe t r) =
     (if rt_count (fst (observe t r)) = rt_count t then None
      else Some (rt_count (fst (observe t r))))"
  by (auto simp: observe_def Let_def split: sum.splits)

lemma observe_all_Cons:
  "observe_all t (r # rs) =
     (let t' = fst (observe t r); (t'', cs) = observe_all t' rs
      in (t'', (if rt_count t' = rt_count t then cs else rt_count t' # cs)))"
  by (simp add: Let_def case_prod_beta' observe_report del: observe_all.simps(1))

declare observe_all.simps(2) [simp del]

lemma observe_all_count:
  "rt_count (fst (observe_all t rs)) =
     (if readings rs = [] then rt_count t else max (last (readings rs)) 1)"
proof (induction rs arbitrary: t)
  case (Cons r rs)
  show ?case
    by (cases r) (simp_all add: observe_all_Cons case_prod_beta' Let_def Cons.IH observe_count)
qed simp

lemma observe_all_reports:
  "distinct_adj (rt_count t # snd (observe_all t rs)) \<and>
   last (rt_count t # snd (observe_all t rs)) = rt_count (fst (observe_all t rs))"
proof (induction rs arbitrary: t)
  case (Cons r rs)
  let ?t = "fst (observe t r)"
  have "distinct_adj (rt_count ?t # snd (observe_all ?t rs))"
    "last (rt_count ?t # snd (observe_all ?t rs)) = rt_count (fst (observe_all ?t rs))"
    using Cons.IH by blast+
  then show ?case
    by (auto simp: observe_all_Cons case_prod_beta' Let_def distinct_adj_Cons)
qed simp

section \<open>Properties\<close>

text \<open>
  C38: The replica split. Each of \<open>n\<close> replicas enforces at least one slot and never more than the
  whole limit; together the replicas cover the limit and exceed it by fewer than \<open>n\<close> slots.
\<close>

theorem replica_split_covers:
  assumes "1 \<le> n" and "1 \<le> tot"
  shows "1 \<le> replica_share tot n \<and> replica_share tot n \<le> tot \<and>
    tot \<le> replica_share tot n * n \<and> replica_share tot n * n < tot + n"
  using assms replica_share_pos [of tot n]
  by (intro conjI replica_share_le replica_share_covers replica_share_over)

theorem replica_split_covers_witness:
  "replica_share 10 4 = 3 \<and> 10 \<le> replica_share 10 4 * 4 \<and> replica_share 10 4 * 4 < 14"
  using replica_split_covers [of 4 10] by (simp add: replica_share_def div_ceil_def)

text \<open>
  The replica tracker. Over any run of heartbeat readings and read failures the tracked count
  ends as the last successful reading (at least 1), failures leave it alone, and the reported
  changes are real: no report repeats the count before it, and the last one is the final count.
\<close>

theorem tracker_follows_readings:
  "rt_count (fst (observe_all replica_tracker_new rs)) =
     (if readings rs = [] then 1 else max (last (readings rs)) 1) \<and>
   distinct_adj (1 # snd (observe_all replica_tracker_new rs)) \<and>
   last (1 # snd (observe_all replica_tracker_new rs)) =
     rt_count (fst (observe_all replica_tracker_new rs))"
  using observe_all_count [of replica_tracker_new rs] observe_all_reports [of replica_tracker_new rs]
  by (simp add: replica_tracker_new_def)

end
