(* ===== verification/F64.thy ===== *)
theory F64
  imports Prelude Complex_Main "HOL-Library.Log_Nat"
begin

text \<open>
  Rust's \<open>f64\<close>. A finite binary64 value is a rational number; every arithmetic operation of the
  source is the exact operation on rationals followed by \<open>fl\<close>, rounding to nearest with ties to
  even at 53 significant bits and exponents down to \<open>- 1074\<close> (so subnormals round as the
  hardware rounds them). Overflow to infinity is left out: every number the modelled code builds
  is far below \<open>2 ^ 1024\<close>. The source's \<open>f64::INFINITY\<close> appears only as the start value of a
  minimum and is modelled by \<open>None\<close>.

  The lemmas about rounding that the components use are the laws of the locale \<open>rounding\<close>
  (monotone, exact on small integers, relative error \<open>2 powi -53\<close>); the consequences the
  scheduler needs are proved in the locale and hold for \<open>fl\<close> by interpretation.
\<close>

type_synonym f64 = rat

definition ilog2 :: "rat \<Rightarrow> int" where
  "ilog2 x = (let (p, q) = quotient_of x; l = bitlen p - bitlen q
              in if 2 powi l \<le> x then l else l - 1)"

definition rne :: "rat \<Rightarrow> int" where
  "rne x = (let n = \<lfloor>x\<rfloor>; d = x - of_int n
            in if d < 1 / 2 then n else if 1 / 2 < d then n + 1
               else if even n then n else n + 1)"

definition ulp_exp :: "rat \<Rightarrow> int" where
  "ulp_exp x = max (- 1074) (ilog2 \<bar>x\<bar> - 52)"

definition fl :: "rat \<Rightarrow> f64" where
  "fl x = (if x = 0 then 0
           else of_int (rne (x / 2 powi ulp_exp x)) * 2 powi ulp_exp x)"



lemma powi_bitlen:
  assumes "0 < p"
  shows "(2::rat) powi (bitlen p - 1) \<le> of_int p" and "of_int p < (2::rat) powi bitlen p"
proof -
  have b: "1 \<le> bitlen p"
    using assms by (simp add: bitlen_def floorlog_def)
  have "2 ^ nat (bitlen p - 1) \<le> p" "p < 2 ^ nat (bitlen p)"
    using bitlen_bounds [OF assms] by auto
  then have "of_int (2 ^ nat (bitlen p - 1)) \<le> (of_int p :: rat)"
    and "(of_int p :: rat) < of_int (2 ^ nat (bitlen p))"
    by (simp_all only: of_int_le_iff of_int_less_iff)
  then show "(2::rat) powi (bitlen p - 1) \<le> of_int p" and "of_int p < (2::rat) powi bitlen p"
    using b by (simp_all add: power_int_def)
qed

lemma ilog2_bounds:
  assumes "0 < x"
  shows "2 powi ilog2 x \<le> x" and "x < 2 powi (ilog2 x + 1)"
proof -
  obtain p q where pq: "quotient_of x = (p, q)" by fastforce
  have q: "0 < q" using quotient_of_denom_pos [OF pq] .
  have x: "x = of_int p / of_int q" using quotient_of_div [OF pq] .
  have p: "0 < p" using assms q x by (simp add: zero_less_divide_iff)
  define l where "l = bitlen p - bitlen q"
  note pb = powi_bitlen [OF p] and qb = powi_bitlen [OF q]
  have "(2::rat) powi (l - 1) * of_int q \<le> 2 powi (l - 1) * 2 powi bitlen q"
    using qb(2) by (intro mult_left_mono) auto
  also have "\<dots> = 2 powi (bitlen p - 1)"
    unfolding l_def by (simp flip: power_int_add)
  finally have lo: "2 powi (l - 1) \<le> x" using pb(1) q x by (simp add: pos_le_divide_eq)
  have "of_int p < (2::rat) powi bitlen p" by (fact pb(2))
  also have "\<dots> = 2 powi (l + 1) * 2 powi (bitlen q - 1)"
    unfolding l_def by (simp flip: power_int_add)
  also have "\<dots> \<le> 2 powi (l + 1) * of_int q"
    using qb(1) by (intro mult_left_mono) auto
  finally have hi: "x < 2 powi (l + 1)" using q x by (simp add: pos_divide_less_eq)
  have il: "ilog2 x = (if 2 powi l \<le> x then l else l - 1)"
    by (simp add: ilog2_def pq l_def Let_def)
  show "2 powi ilog2 x \<le> x" using il lo by simp
  show "x < 2 powi (ilog2 x + 1)" using il hi by (simp add: not_le)
qed

lemma powi2_mono: "i \<le> j \<Longrightarrow> (2::rat) powi i \<le> 2 powi j"
  by (rule power_int_increasing) auto

lemma powi2_less_iff: "(2::rat) powi i < 2 powi j \<longleftrightarrow> i < j"
  by (metis linorder_not_less powi2_mono power_int_strict_increasing one_less_numeral_iff
      semiring_norm(76))

lemma ilog2_unique:
  assumes "2 powi k \<le> x" and "x < 2 powi (k + 1)"
  shows "ilog2 x = k"
proof -
  have "0 < (2::rat) powi k" by simp
  then have "0 < x" using assms(1) by (rule less_le_trans)
  note b = ilog2_bounds [OF this]
  have "(2::rat) powi k < 2 powi (ilog2 x + 1)" and "(2::rat) powi ilog2 x < 2 powi (k + 1)"
    using assms b by (auto intro: le_less_trans)
  then have "k < ilog2 x + 1" and "ilog2 x < k + 1"
    by (simp_all only: powi2_less_iff)
  then show ?thesis by simp
qed

lemma ilog2_mono: "0 < x \<Longrightarrow> x \<le> y \<Longrightarrow> ilog2 x \<le> ilog2 y"
proof -
  assume x: "0 < x" and xy: "x \<le> y"
  have "2 powi ilog2 x \<le> x" by (rule ilog2_bounds(1) [OF x])
  also have "x \<le> y" by (fact xy)
  also have "y < 2 powi (ilog2 y + 1)" using x xy by (intro ilog2_bounds(2)) simp
  finally show ?thesis by (simp only: powi2_less_iff zless_add1_eq le_less)
qed

lemma rne_of_int [simp]: "rne (of_int n) = n"
  by (simp add: rne_def)

lemma rne_mono: "x \<le> y \<Longrightarrow> rne x \<le> rne y"
proof -
  assume xy: "x \<le> y"
  then have f: "\<lfloor>x\<rfloor> \<le> \<lfloor>y\<rfloor>" by (rule floor_mono)
  show ?thesis
  proof (cases "\<lfloor>x\<rfloor> = \<lfloor>y\<rfloor>")
    case True
    then show ?thesis using xy by (auto simp: rne_def Let_def)
  next
    case False
    then have "\<lfloor>x\<rfloor> + 1 \<le> \<lfloor>y\<rfloor>" using f by simp
    moreover have "rne x \<le> \<lfloor>x\<rfloor> + 1" "\<lfloor>y\<rfloor> \<le> rne y" by (auto simp: rne_def Let_def)
    ultimately show ?thesis by simp
  qed
qed

lemma rne_err: "\<bar>of_int (rne x) - x\<bar> \<le> 1 / 2"
proof -
  have "of_int \<lfloor>x\<rfloor> \<le> x" "x < of_int \<lfloor>x\<rfloor> + 1" by linarith+
  then show ?thesis by (auto simp: rne_def Let_def abs_le_iff split: if_splits)
qed

lemma rne_neg: "rne (- x) = - rne x"
proof (cases "of_int \<lfloor>x\<rfloor> = x")
  case True
  then show ?thesis by (metis of_int_minus rne_of_int)
next
  case False
  have l: "of_int \<lfloor>x\<rfloor> \<le> x" "x < of_int \<lfloor>x\<rfloor> + 1" by linarith+
  have "\<lfloor>- x\<rfloor> = - \<lfloor>x\<rfloor> - 1"
    using False l by (intro floor_unique) (auto simp: less_le)
  then show ?thesis by (auto simp: rne_def Let_def)
qed


lemma ulp_exp_minus [simp]: "ulp_exp (- x) = ulp_exp x"
  by (simp add: ulp_exp_def)

lemma fl_0 [simp]: "fl 0 = 0"
  by (simp add: fl_def)

lemma fl_minus: "fl (- x) = - fl x"
  by (simp add: fl_def rne_neg flip: minus_divide_left)

lemma fl_nonneg: "0 \<le> x \<Longrightarrow> 0 \<le> fl x"
  using rne_mono [of 0 "x / 2 powi ulp_exp x"] rne_of_int [of 0] by (simp add: fl_def)

lemma fl_upper:
  assumes "0 < x" shows "fl x \<le> 2 powi (ulp_exp x + 53)"
proof -
  let ?e = "ulp_exp x"
  have "x < 2 powi (ilog2 x + 1)" by (rule ilog2_bounds(2) [OF assms])
  also have "\<dots> \<le> 2 powi (?e + 53)"
    using assms by (intro powi2_mono) (simp add: ulp_exp_def)
  finally have "x / 2 powi ?e \<le> of_int (2 ^ 53)"
    by (simp add: pos_divide_le_eq power_int_add mult.commute)
  then have "rne (x / 2 powi ?e) \<le> 2 ^ 53"
    by (metis rne_mono rne_of_int)
  then have "(of_int (rne (x / 2 powi ?e)) :: rat) \<le> of_int (2 ^ 53)"
    by (simp only: of_int_le_iff)
  then have "of_int (rne (x / 2 powi ?e)) * (2::rat) powi ?e \<le> of_int (2 ^ 53) * 2 powi ?e"
    by (rule mult_right_mono) simp
  then show ?thesis using assms by (simp add: fl_def power_int_add mult.commute)
qed

lemma fl_lower:
  assumes "0 < x" and "- 1074 < ulp_exp x" shows "2 powi (ulp_exp x + 52) \<le> fl x"
proof -
  let ?e = "ulp_exp x"
  have e: "?e + 52 = ilog2 x" using assms by (simp add: ulp_exp_def max_def split: if_splits)
  have "2 powi (?e + 52) \<le> x" unfolding e by (rule ilog2_bounds(1) [OF assms(1)])
  then have "of_int (2 ^ 52) \<le> x / 2 powi ?e"
    by (simp add: pos_le_divide_eq power_int_add mult.commute)
  then have "2 ^ 52 \<le> rne (x / 2 powi ?e)"
    by (metis rne_mono rne_of_int)
  then have "(of_int (2 ^ 52) :: rat) \<le> of_int (rne (x / 2 powi ?e))"
    by (simp only: of_int_le_iff)
  then have "of_int (2 ^ 52) * 2 powi ?e \<le> of_int (rne (x / 2 powi ?e)) * (2::rat) powi ?e"
    by (rule mult_right_mono) simp
  then show ?thesis using assms by (simp add: fl_def power_int_add mult.commute)
qed

lemma fl_mono_pos:
  assumes "0 < x" and "x \<le> y" shows "fl x \<le> fl y"
proof (cases "ulp_exp x = ulp_exp y")
  case True
  have "x / 2 powi ulp_exp y \<le> y / 2 powi ulp_exp y"
    using assms by (intro divide_right_mono) auto
  then show ?thesis
    using True assms by (auto simp: fl_def intro!: mult_right_mono rne_mono)
next
  case False
  have "ulp_exp x \<le> ulp_exp y"
    using ilog2_mono [OF assms] assms by (auto simp: ulp_exp_def)
  with False have e: "ulp_exp x < ulp_exp y" by simp
  then have "- 1074 < ulp_exp y" by (simp add: ulp_exp_def)
  then have "2 powi (ulp_exp y + 52) \<le> fl y" using assms by (intro fl_lower) auto
  moreover have "(2::rat) powi (ulp_exp x + 53) \<le> 2 powi (ulp_exp y + 52)"
    using e by (intro powi2_mono) simp
  ultimately show ?thesis using fl_upper [OF assms(1)] by linarith
qed

lemma fl_mono: "x \<le> y \<Longrightarrow> fl x \<le> fl y"
proof (cases "0 < x")
  case True
  then show "x \<le> y \<Longrightarrow> fl x \<le> fl y" by (rule fl_mono_pos)
next
  case x: False
  assume xy: "x \<le> y"
  show ?thesis
  proof (cases "0 \<le> y")
    case True
    have "fl x \<le> 0" using fl_nonneg [of "- x"] x by (simp add: fl_minus)
    also have "0 \<le> fl y" using True by (rule fl_nonneg)
    finally show ?thesis .
  next
    case False
    then have "fl (- y) \<le> fl (- x)" using xy by (intro fl_mono_pos) auto
    then show ?thesis by (simp add: fl_minus)
  qed
qed

lemma fl_exact_pos:
  assumes "0 < m" and "m < 2 ^ 53" and "- 1074 \<le> e"
  shows "fl (of_int m * 2 powi e) = of_int m * 2 powi e"
proof -
  let ?x = "of_int m * (2::rat) powi e"
  have x: "0 < ?x" using assms by simp
  have "of_int m < (of_int (2 ^ 53) :: rat)" using assms(2) by (simp only: of_int_less_iff)
  then have "?x < 2 powi (e + 53)" by (simp add: power_int_add mult.commute)
  with ilog2_bounds(1) [OF x] have "(2::rat) powi ilog2 ?x < 2 powi (e + 53)" by (rule le_less_trans)
  then have "ilog2 ?x < e + 53" by (simp only: powi2_less_iff)
  then have u: "ulp_exp ?x \<le> e" using x assms(3) by (simp add: ulp_exp_def)
  let ?u = "ulp_exp ?x"
  have "?x / 2 powi ?u = of_int m * 2 powi (e - ?u)" by (simp add: power_int_diff)
  also have "\<dots> = of_int (m * 2 ^ nat (e - ?u))" using u by (simp add: power_int_def)
  finally have "?x / 2 powi ?u = of_int (m * 2 ^ nat (e - ?u))" .
  then have "of_int (rne (?x / 2 powi ?u)) = ?x / 2 powi ?u" by (metis rne_of_int)
  then show ?thesis using assms(1) by (simp add: fl_def)
qed

lemma fl_exact:
  assumes "\<bar>m\<bar> < 2 ^ 53" and "- 1074 \<le> e"
  shows "fl (of_int m * 2 powi e) = of_int m * 2 powi e"
proof -
  consider "m = 0" | "0 < m" | "0 < - m" by linarith
  then show ?thesis
  proof cases
    case 3
    then have "fl (of_int (- m) * 2 powi e) = of_int (- m) * 2 powi e"
      using assms by (intro fl_exact_pos) auto
    then show ?thesis by (simp add: fl_minus)
  qed (use assms in \<open>auto intro: fl_exact_pos\<close>)
qed

lemma fl_of_int: "\<bar>n\<bar> < 2 ^ 53 \<Longrightarrow> fl (of_int n) = of_int n"
  using fl_exact [of n 0] by simp

lemma fl_of_nat: "n < 2 ^ 53 \<Longrightarrow> fl (of_nat n) = of_nat n"
  using fl_of_int [of "int n"] by simp

lemma fl_1 [simp]: "fl 1 = 1"
  using fl_of_int [of 1] by simp

lemma fl_err:
  assumes "2 powi (- 1022) \<le> x"
  shows "\<bar>fl x - x\<bar> \<le> x * 2 powi (- 53)"
proof -
  let ?e = "ulp_exp x"
  have "(0::rat) < 2 powi (- 1022)" by simp
  then have x: "0 < x" using assms by (rule less_le_trans)
  have "(2::rat) powi (- 1022) < 2 powi (ilog2 x + 1)"
    using assms ilog2_bounds(2) [OF x] by (rule le_less_trans)
  then have "- 1022 \<le> ilog2 x" by (simp only: powi2_less_iff)
  then have e: "?e = ilog2 x - 52" using x by (simp add: ulp_exp_def)
  have "fl x - x = (of_int (rne (x / 2 powi ?e)) - x / 2 powi ?e) * 2 powi ?e"
    using x by (simp add: fl_def left_diff_distrib)
  then have "\<bar>fl x - x\<bar> \<le> 1 / 2 * 2 powi ?e"
    using rne_err [of "x / 2 powi ?e"] by (simp add: abs_mult)
  also have "\<dots> = 2 powi ilog2 x * 2 powi (- 53)"
    unfolding e by (simp add: power_int_diff power_int_minus)
  also have "\<dots> \<le> x * 2 powi (- 53)"
    by (intro mult_right_mono ilog2_bounds(1) x) simp
  finally show ?thesis .
qed

section \<open>The rounding contract\<close>

locale rounding =
  fixes rnd :: "rat \<Rightarrow> rat"
  assumes rnd_mono: "x \<le> y \<Longrightarrow> rnd x \<le> rnd y"
    and rnd_int: "\<bar>n\<bar> < 2 ^ 53 \<Longrightarrow> rnd (of_int n) = of_int n"
    and rnd_err: "2 powi (- 1022) \<le> x \<Longrightarrow> \<bar>rnd x - x\<bar> \<le> x * 2 powi (- 53)"
begin

lemma rnd_0: "rnd 0 = 0"
  using rnd_int [of 0] by simp

lemma rnd_1: "rnd 1 = 1"
  using rnd_int [of 1] by simp

lemma rnd_nat: "n < 2 ^ 53 \<Longrightarrow> rnd (of_nat n) = of_nat n"
  using rnd_int [of "int n"] by simp

lemma rnd_nonneg: "0 \<le> x \<Longrightarrow> 0 \<le> rnd x"
  using rnd_mono [of 0 x] by (simp add: rnd_0)

lemma rnd_ge_1: "1 \<le> x \<Longrightarrow> 1 \<le> rnd x"
  using rnd_mono [of 1 x] by (simp add: rnd_1)

lemma rnd_unit: "0 \<le> x \<Longrightarrow> x \<le> 1 \<Longrightarrow> 0 \<le> rnd x \<and> rnd x \<le> 1"
  using rnd_mono [of x 1] rnd_nonneg by (simp add: rnd_1)

text \<open>A quotient of two rounded positive numbers keeps the order of numerator and denominator.\<close>

lemma rnd_ratio_unit:
  assumes "0 \<le> x" and "x \<le> y" and "1 \<le> y"
  shows "0 \<le> rnd (rnd x / rnd y) \<and> rnd (rnd x / rnd y) \<le> 1"
proof -
  have y: "1 \<le> rnd y" using assms(3) by (rule rnd_ge_1)
  have x: "0 \<le> rnd x" "rnd x \<le> rnd y" using assms rnd_mono rnd_nonneg by auto
  have "0 \<le> rnd x / rnd y" "rnd x / rnd y \<le> 1" using x y by (simp_all add: divide_le_eq)
  then show ?thesis by (rule rnd_unit)
qed

end

interpretation f64_round: rounding fl
  by unfold_locales (rule fl_mono fl_of_int fl_err; assumption)+

end
