(* ===== verification/Caps.thy ===== *)
theory Caps
  imports F64
begin

text \<open>
  Slot apportionment and share reporting (\<open>obleth-fairshare/src/algorithm.rs\<close>):
  \<open>weighted_caps\<close> splits a pool's slots across weighted items by largest remainder, with at
  least one slot each when there is room; \<open>pool_shares\<close> is the share split dashboards report.

  Weights are \<open>i64\<close> and their sums wrap; quotas are \<open>f64\<close> and every operation rounds. The main
  lemma \<open>weighted_caps_sum\<close> shows that no slot is lost to rounding as long as the pool size times
  the sum of the weights stays below \<open>2 ^ 50\<close>.
\<close>

datatype fairshare_algorithm = Weighted | Hierarchical

section \<open>Largest remainder\<close>

text \<open>One item while slots are being apportioned: its key, its slots and its remainder.\<close>

type_synonym 'k alloc = "'k \<times> nat \<times> f64"

abbreviation al_cap :: "'k alloc \<Rightarrow> nat" where
  "al_cap a \<equiv> fst (snd a)"

abbreviation al_rem :: "'k alloc \<Rightarrow> f64" where
  "al_rem a \<equiv> snd (snd a)"

definition as_usize :: "f64 \<Rightarrow> nat" where
  "as_usize x = nat (min \<lfloor>x\<rfloor> (2 ^ 64 - 1))"

definition initial_alloc :: "nat \<Rightarrow> int \<Rightarrow> ('k \<times> int) list \<Rightarrow> 'k alloc list" where
  "initial_alloc mx total_weight items =
     map (\<lambda>(key, weight).
            let exact = fl (fl (fl (of_nat mx) * fl (of_int (max weight 1))) / fl (of_int total_weight))
            in (key, as_usize exact, fl (exact - of_int \<lfloor>exact\<rfloor>))) items"

definition raise_zero :: "'k alloc list \<Rightarrow> 'k alloc list" where
  "raise_zero alloc = map (\<lambda>(key, cap, r). (key, if cap = 0 then 1 else cap, r)) alloc"

definition add_at :: "nat \<Rightarrow> (nat \<Rightarrow> nat) \<Rightarrow> 'k alloc list \<Rightarrow> 'k alloc list" where
  "add_at i f alloc = alloc[i := (let (key, cap, r) = alloc ! i in (key, f cap, r))]"

definition trim_pick :: "'k alloc list \<Rightarrow> nat option" where
  "trim_pick alloc =
     max_by_last
       (\<lambda>a b. al_cap (alloc ! a) < al_cap (alloc ! b) \<or>
              al_cap (alloc ! a) = al_cap (alloc ! b) \<and> al_rem (alloc ! b) \<le> al_rem (alloc ! a))
       (filter (\<lambda>i. 1 < al_cap (alloc ! i)) [0..<length alloc])"

text \<open>The loop \<open>while used > max\<close>; \<open>over\<close> is \<open>used - max\<close>.\<close>

fun trim :: "nat \<Rightarrow> 'k alloc list \<Rightarrow> 'k alloc list" where
  "trim 0 alloc = alloc"
| "trim (Suc over) alloc =
     (case trim_pick alloc of
        None \<Rightarrow> alloc
      | Some idx \<Rightarrow> trim over (add_at idx (\<lambda>c. c - 1) alloc))"

fun give_each :: "nat \<Rightarrow> nat list \<Rightarrow> 'k alloc list \<Rightarrow> 'k alloc list" where
  "give_each remaining [] alloc = alloc"
| "give_each remaining (idx # rest) alloc =
     (if remaining = 0 then alloc
      else give_each (remaining - 1) rest (add_at idx (\<lambda>c. c + 1) alloc))"

definition hand_out :: "nat \<Rightarrow> 'k alloc list \<Rightarrow> 'k alloc list" where
  "hand_out remaining alloc =
     give_each remaining (sort_key (\<lambda>i. - al_rem (alloc ! i)) [0..<length alloc]) alloc"

definition alloc_used :: "'k alloc list \<Rightarrow> nat" where
  "alloc_used alloc = sum_list (map al_cap alloc)"

definition settle_alloc :: "nat \<Rightarrow> 'k alloc list \<Rightarrow> 'k alloc list" where
  "settle_alloc mx alloc =
     (let alloc = (if length alloc \<le> mx then raise_zero alloc else alloc);
          used = alloc_used alloc
      in if mx < used then trim (used - mx) alloc
         else if used < mx then hand_out (mx - used) alloc
         else alloc)"

definition total_weight :: "('k \<times> int) list \<Rightarrow> int" where
  "total_weight items = i64_sum (map (\<lambda>(_, w). max w 1) items)"

definition weighted_caps :: "nat \<Rightarrow> ('k \<times> int) list \<Rightarrow> ('k, nat) hmap" where
  "weighted_caps mx items =
     (if mx = 0 \<or> items = [] then []
      else if total_weight items \<le> 0 then []
      else fold (\<lambda>(key, cap, _) caps. AList.update key cap caps)
             (settle_alloc mx (initial_alloc mx (total_weight items) items)) [])"

definition group_slot_caps :: "nat \<Rightarrow> (string \<times> int) list \<Rightarrow> (string, nat) hmap" where
  "group_slot_caps mx groups = weighted_caps mx groups"

section \<open>Share split\<close>

record share_tenant =
  st_id :: uuid
  st_group :: string
  st_weight :: int
  st_active :: bool

record share_key =
  sk_id :: uuid
  sk_tenant :: uuid
  sk_weight :: int
  sk_active :: bool

record share_split =
  ps_groups :: "(string, f64) hmap"
  ps_tenants :: "(uuid, f64) hmap"
  ps_keys :: "(uuid, f64) hmap"

definition ps_group :: "share_split \<Rightarrow> string \<Rightarrow> f64" where
  "ps_group s name = get_or 0 (ps_groups s) name"

definition ps_tenant :: "share_split \<Rightarrow> uuid \<Rightarrow> f64" where
  "ps_tenant s t = get_or 0 (ps_tenants s) t"

definition ps_key :: "share_split \<Rightarrow> uuid \<Rightarrow> f64" where
  "ps_key s k = get_or 0 (ps_keys s) k"

text \<open>\<open>*m.entry(k).or_insert(0) += n\<close> on \<open>i64\<close> values.\<close>

definition add_i64 :: "'k \<Rightarrow> int \<Rightarrow> ('k, int) hmap \<Rightarrow> ('k, int) hmap" where
  "add_i64 k n m = AList.update k (i64 (get_or 0 m k + n)) m"

definition group_weight_of :: "(string, int) hmap \<Rightarrow> string \<Rightarrow> int" where
  "group_weight_of group_weights g = max (get_or 100 group_weights g) 1"

definition active_share_groups :: "(string, int) hmap \<Rightarrow> share_tenant list \<Rightarrow> (string, int) hmap" where
  "active_share_groups group_weights act =
     fold (\<lambda>t m. if contains_key m (st_group t) then m
                 else AList.update (st_group t) (group_weight_of group_weights (st_group t)) m) act []"

definition active_in_group :: "share_tenant list \<Rightarrow> (string, int) hmap" where
  "active_in_group act = fold (\<lambda>t. add_i64 (st_group t) (max (st_weight t) 1)) act []"

definition active_total :: "share_tenant list \<Rightarrow> int" where
  "active_total act = i64_sum (map (\<lambda>t. max (st_weight t) 1) act)"

definition group_shares :: "(string, int) hmap \<Rightarrow> (string, f64) hmap" where
  "group_shares groups =
     map (\<lambda>(name, w). (name, fl (fl (of_int w) / fl (of_int (i64_sum (hvals groups)))))) groups"

definition tenant_share ::
  "fairshare_algorithm \<Rightarrow> (string, f64) hmap \<Rightarrow> share_tenant list \<Rightarrow> share_tenant \<Rightarrow> f64" where
  "tenant_share algorithm groups act t =
     (let w = fl (of_int (max (st_weight t) 1))
      in case algorithm of
           Weighted \<Rightarrow> fl (w / fl (of_int (active_total act)))
         | Hierarchical \<Rightarrow>
             (let in_group = max (get_or 1 (active_in_group act) (st_group t)) 1
              in fl (fl (get_or 0 groups (st_group t) * w) / fl (of_int in_group))))"

definition key_share :: "(uuid, f64) hmap \<Rightarrow> (uuid, int) hmap \<Rightarrow> share_key \<Rightarrow> f64" where
  "key_share tenants active_key_weight k =
     (let tot = max (get_or 1 active_key_weight (sk_tenant k)) 1
      in fl (fl (get_or 0 tenants (sk_tenant k) * fl (of_int (max (sk_weight k) 1))) / fl (of_int tot)))"

definition pool_shares ::
  "fairshare_algorithm \<Rightarrow> (string, int) hmap \<Rightarrow> share_tenant list \<Rightarrow> share_key list \<Rightarrow> share_split" where
  "pool_shares algorithm group_weights tenants ks =
     (let act = filter st_active tenants;
          groups = group_shares (active_share_groups group_weights act);
          tens = fold (\<lambda>t. AList.update (st_id t) (tenant_share algorithm groups act t)) act [];
          akeys = filter sk_active ks;
          akw = fold (\<lambda>k. add_i64 (sk_tenant k) (max (sk_weight k) 1)) akeys [];
          kshares = fold (\<lambda>k. AList.update (sk_id k) (key_share tens akw k)) akeys []
      in \<lparr>ps_groups = groups, ps_tenants = tens, ps_keys = kshares\<rparr>)"

section \<open>The apportionment keeps every slot\<close>

lemma add_at_cap:
  "i < length alloc \<Longrightarrow>
   map al_cap (add_at i f alloc) = (map al_cap alloc)[i := f (al_cap (alloc ! i))]"
  by (auto simp: add_at_def map_update case_prod_beta' Let_def)

lemma add_at_keys [simp]: "map fst (add_at i f alloc) = map fst alloc"
proof (cases "i < length alloc")
  case True
  then show ?thesis
    using list_update_id [of "map fst alloc" i]
    by (simp add: add_at_def map_update case_prod_beta' Let_def)
qed (simp add: add_at_def list_update_beyond not_less)

lemma length_add_at [simp]: "length (add_at i f alloc) = length alloc"
  by (simp add: add_at_def)

lemma alloc_used_update:
  "i < length alloc \<Longrightarrow>
   alloc_used (add_at i f alloc) + al_cap (alloc ! i) = alloc_used alloc + f (al_cap (alloc ! i))"
proof -
  assume i: "i < length alloc"
  let ?c = "map al_cap alloc"
  have "?c ! i \<le> sum_list ?c" using i by (intro elem_le_sum_list) simp
  then show ?thesis
    using i by (simp add: alloc_used_def add_at_cap sum_list_update)
qed

lemma keys_raise_zero [simp]: "map fst (raise_zero alloc) = map fst alloc"
  by (simp add: raise_zero_def case_prod_beta' comp_def)

lemma keys_trim [simp]: "map fst (trim over alloc) = map fst alloc"
  by (induction over alloc rule: trim.induct) (auto split: option.splits)

lemma keys_give_each [simp]: "map fst (give_each n idxs alloc) = map fst alloc"
  by (induction n idxs alloc rule: give_each.induct) auto

lemma keys_settle [simp]: "map fst (settle_alloc mx alloc) = map fst alloc"
  by (simp add: settle_alloc_def hand_out_def Let_def)

lemma length_raise_zero [simp]: "length (raise_zero alloc) = length alloc"
  by (simp add: raise_zero_def)

lemma trim_pick_Some:
  "trim_pick alloc = Some i \<Longrightarrow> i < length alloc \<and> 1 < al_cap (alloc ! i)"
  by (auto simp: trim_pick_def dest!: max_by_last_in)

lemma trim_pick_None:
  "trim_pick alloc = None \<Longrightarrow> a \<in> set alloc \<Longrightarrow> al_cap a \<le> 1"
  by (auto simp: trim_pick_def filter_empty_conv in_set_conv_nth Ball_def not_less)

lemma trim_pick_exists: "length alloc < alloc_used alloc \<Longrightarrow> \<exists>i. trim_pick alloc = Some i"
proof (rule ccontr)
  assume l: "length alloc < alloc_used alloc" and "\<not> (\<exists>i. trim_pick alloc = Some i)"
  then have "\<forall>a \<in> set alloc. al_cap a \<le> 1" using trim_pick_None by (cases "trim_pick alloc") auto
  then have "sum_list (map al_cap alloc) \<le> sum_list (map (\<lambda>_. 1) alloc)"
    by (intro sum_list_mono) auto
  with l show False by (simp add: alloc_used_def sum_list_triv)
qed

lemma all_caps_iff: "(\<forall>a \<in> set alloc. P (al_cap a)) \<longleftrightarrow> (\<forall>c \<in> set (map al_cap alloc). P c)"
  by simp

lemma trim_correct:
  "length alloc + over \<le> alloc_used alloc \<Longrightarrow>
   alloc_used (trim over alloc) + over = alloc_used alloc \<and>
   ((\<forall>a \<in> set alloc. 1 \<le> al_cap a) \<longrightarrow> (\<forall>a \<in> set (trim over alloc). 1 \<le> al_cap a))"
proof (induction over alloc rule: trim.induct)
  case (2 over alloc)
  then have "length alloc < alloc_used alloc" by simp
  then obtain i where i: "trim_pick alloc = Some i" using trim_pick_exists by blast
  let ?a = "add_at i (\<lambda>c. c - 1) alloc"
  have il: "i < length alloc" and ic: "1 < al_cap (alloc ! i)" using trim_pick_Some [OF i] by auto
  have u: "alloc_used ?a + 1 = alloc_used alloc"
    using alloc_used_update [OF il, of "\<lambda>c. c - 1"] ic by simp
  have m: "(\<forall>a \<in> set alloc. 1 \<le> al_cap a) \<longrightarrow> (\<forall>a \<in> set ?a. 1 \<le> al_cap a)"
    using ic il unfolding all_caps_iff add_at_cap [OF il]
    by (auto dest!: set_update_subset_insert [THEN subsetD])
  have "alloc_used (trim over ?a) + over = alloc_used ?a \<and>
    ((\<forall>a \<in> set ?a. 1 \<le> al_cap a) \<longrightarrow> (\<forall>a \<in> set (trim over ?a). 1 \<le> al_cap a))"
    using u "2.prems" by (intro "2.IH" [OF i]) simp
  then have "alloc_used (trim over ?a) + Suc over = alloc_used alloc"
    and "(\<forall>a \<in> set alloc. 1 \<le> al_cap a) \<longrightarrow> (\<forall>a \<in> set (trim over ?a). 1 \<le> al_cap a)"
    using u m by (linarith, blast)
  with i show ?case by simp
qed simp

lemma give_each_used:
  "distinct idxs \<Longrightarrow> set idxs \<subseteq> {..<length alloc} \<Longrightarrow> n \<le> length idxs \<Longrightarrow>
   alloc_used (give_each n idxs alloc) = alloc_used alloc + n"
proof (induction n idxs alloc rule: give_each.induct)
  case (2 n i idxs alloc)
  show ?case
  proof (cases n)
    case (Suc m)
    have "alloc_used (add_at i (\<lambda>c. c + 1) alloc) = alloc_used alloc + 1"
      using alloc_used_update [of i alloc "\<lambda>c. c + 1"] "2.prems" by simp
    then show ?thesis using 2 Suc by simp
  qed simp
qed simp

lemma give_each_ge:
  "(\<forall>a \<in> set alloc. 1 \<le> al_cap a) \<Longrightarrow> set idxs \<subseteq> {..<length alloc} \<Longrightarrow>
   \<forall>a \<in> set (give_each n idxs alloc). 1 \<le> al_cap a"
proof (induction n idxs alloc rule: give_each.induct)
  case (2 n i idxs alloc)
  have il: "i < length alloc" using "2.prems" by simp
  have "\<forall>a \<in> set (add_at i (\<lambda>c. c + 1) alloc). 1 \<le> al_cap a"
    using "2.prems"(1) il unfolding all_caps_iff add_at_cap [OF il]
    by (auto dest!: set_update_subset_insert [THEN subsetD])
  then show ?case using 2 by simp
qed simp

lemma hand_out_correct:
  "n \<le> length alloc \<Longrightarrow>
   alloc_used (hand_out n alloc) = alloc_used alloc + n \<and>
   ((\<forall>a \<in> set alloc. 1 \<le> al_cap a) \<longrightarrow> (\<forall>a \<in> set (hand_out n alloc). 1 \<le> al_cap a))"
  unfolding hand_out_def
  using give_each_used [of "sort_key (\<lambda>i. - al_rem (alloc ! i)) [0..<length alloc]" alloc n]
    give_each_ge [of alloc "sort_key (\<lambda>i. - al_rem (alloc ! i)) [0..<length alloc]" n]
  by (simp add: subset_eq)

lemma raise_zero_ge: "a \<in> set (raise_zero alloc) \<Longrightarrow> 1 \<le> al_cap a"
  by (auto simp: raise_zero_def)

lemma raise_zero_used: "alloc_used alloc \<le> alloc_used (raise_zero alloc)"
  unfolding alloc_used_def raise_zero_def map_map
  by (rule sum_list_mono) (auto simp: case_prod_beta')

lemma settle_correct:
  assumes "mx \<le> alloc_used alloc + length alloc"
    and "length alloc \<le> mx \<or> alloc_used alloc \<le> mx"
  shows "alloc_used (settle_alloc mx alloc) = mx"
    and "length alloc \<le> mx \<Longrightarrow> a \<in> set (settle_alloc mx alloc) \<Longrightarrow> 1 \<le> al_cap a"
proof -
  define b where "b = (if length alloc \<le> mx then raise_zero alloc else alloc)"
  have l: "length b = length alloc" by (simp add: b_def)
  have u: "mx \<le> alloc_used b + length alloc"
    using assms(1) raise_zero_used [of alloc] by (auto simp: b_def)
  have m: "length alloc \<le> mx \<Longrightarrow> \<forall>a \<in> set b. 1 \<le> al_cap a"
    using raise_zero_ge by (auto simp: b_def)
  have s: "settle_alloc mx alloc =
    (if mx < alloc_used b then trim (alloc_used b - mx) b
     else if alloc_used b < mx then hand_out (mx - alloc_used b) b else b)"
    by (simp add: settle_alloc_def Let_def b_def)
  consider "mx < alloc_used b" | "alloc_used b < mx" | "alloc_used b = mx" by linarith
  then have "alloc_used (settle_alloc mx alloc) = mx \<and>
    (length alloc \<le> mx \<longrightarrow> (\<forall>a \<in> set (settle_alloc mx alloc). 1 \<le> al_cap a))"
  proof cases
    case 1
    then have "length alloc \<le> mx" using assms(2) by (auto simp: b_def split: if_splits)
    then have "length b + (alloc_used b - mx) \<le> alloc_used b" using 1 l by simp
    note t = trim_correct [OF this]
    then have "alloc_used (trim (alloc_used b - mx) b) = mx" using 1 by linarith
    with t 1 m show ?thesis by (simp add: s)
  next
    case 2
    then have "mx - alloc_used b \<le> length b" using u l by simp
    from hand_out_correct [OF this] 2 m show ?thesis by (simp add: s)
  next
    case 3
    with m show ?thesis by (simp add: s)
  qed
  then show "alloc_used (settle_alloc mx alloc) = mx"
    and "length alloc \<le> mx \<Longrightarrow> a \<in> set (settle_alloc mx alloc) \<Longrightarrow> 1 \<le> al_cap a" by auto
qed


section \<open>Quotas are exact\<close>

context rounding
begin

lemma rnd_floor_quotient:
  assumes "1 \<le> a" and "a < 2 ^ 53" and "1 \<le> w" and "w < 2 ^ 53"
  shows "\<lfloor>rnd (of_int a / of_int w)\<rfloor> = a div w"
proof -
  let ?y = "of_int a / (of_int w :: rat)" and ?q = "a div w"
  have q: "0 \<le> ?q" "?q < 2 ^ 53"
    using assms div_le_dividend [of "nat a" "nat w"] zdiv_mono2 [of a 1 w]
    by (auto simp: pos_imp_zdiv_nonneg_iff)
  have "of_int ?q \<le> ?y" by (metis floor_divide_of_int_eq of_int_floor_le)
  then have lo: "of_int ?q \<le> rnd ?y" using rnd_mono rnd_int [of ?q] q by fastforce
  have "a = ?q * w + a mod w" and "a mod w < w" using assms(3) by simp_all
  then have "a < (?q + 1) * w" unfolding distrib_right by linarith
  then have "a + 1 \<le> (?q + 1) * w" by simp
  then have "(of_int (a + 1) :: rat) \<le> of_int ((?q + 1) * w)" by (simp only: of_int_le_iff)
  then have up: "?y + 1 / of_int w \<le> of_int ?q + 1"
    using assms(3) by (simp add: field_simps)
  have "(2::rat) powi (- 1022) \<le> 1 / of_int (2 ^ 53)"
    by (simp add: power_int_minus field_simps)
  also have "\<dots> \<le> 1 / of_int w"
    using assms(3,4) by (intro divide_left_mono) auto
  also have "\<dots> \<le> ?y" using assms(1,3) by (intro divide_right_mono) auto
  finally have "\<bar>rnd ?y - ?y\<bar> \<le> ?y * 2 powi (- 53)" by (rule rnd_err)
  moreover have "?y * 2 powi (- 53) < 1 / of_int w"
  proof -
    have "(of_int a :: rat) < of_int (2 ^ 53)" using assms(2) by (simp only: of_int_less_iff)
    then show ?thesis using assms(3) by (simp add: power_int_minus field_simps)
  qed
  ultimately have "rnd ?y < of_int ?q + 1" using up by linarith
  with lo show ?thesis by (simp add: floor_eq_iff)
qed

end

lemma sum_quota_bounds:
  fixes m W :: int
  assumes "0 < W"
  shows "(\<Sum>w\<leftarrow>ws. m * w div W) * W \<le> m * sum_list ws"
    and "m * sum_list ws \<le> ((\<Sum>w\<leftarrow>ws. m * w div W) + int (length ws)) * W"
proof (induction ws)
  case (Cons w ws)
  define q r where "q = m * w div W" and "r = m * w mod W"
  have "m * w = q * W + r" and "0 \<le> r" and "r < W" using assms by (simp_all add: q_def r_def)
  with Cons show "(\<Sum>w\<leftarrow>w # ws. m * w div W) * W \<le> m * sum_list (w # ws)"
    and "m * sum_list (w # ws) \<le> ((\<Sum>w\<leftarrow>w # ws. m * w div W) + int (length (w # ws))) * W"
    unfolding q_def [symmetric] by (simp_all add: algebra_simps flip: q_def)
qed simp_all

text \<open>The weights an apportionment counts, at least one each.\<close>

definition weights_of :: "('k \<times> int) list \<Rightarrow> int list" where
  "weights_of items = map (\<lambda>(_, w). max w 1) items"

definition quota :: "nat \<Rightarrow> ('k \<times> int) list \<Rightarrow> int \<Rightarrow> int" where
  "quota mx items w = int mx * max w 1 div sum_list (weights_of items)"

lemma weights_of_pos: "w \<in> set (weights_of items) \<Longrightarrow> 1 \<le> w"
  by (auto simp: weights_of_def)

lemma weights_of_sum: "w \<in> set (weights_of items) \<Longrightarrow> w \<le> sum_list (weights_of items)"
  using weights_of_pos by (intro member_le_sum_list) force+

lemma length_weights_of [simp]: "length (weights_of items) = length items"
  by (simp add: weights_of_def)

lemma weights_of_ge_length: "int (length items) \<le> sum_list (weights_of items)"
  by (induction items) (auto simp: weights_of_def)

lemma total_weight_eq:
  "sum_list (weights_of items) < 2 ^ 63 \<Longrightarrow> total_weight items = sum_list (weights_of items)"
  using weights_of_ge_length [of items]
  by (simp add: total_weight_def i64_sum_def weights_of_def i64_id)

lemma initial_cap:
  assumes "1 \<le> mx" and "int mx * sum_list (weights_of items) \<le> 2 ^ 50" and "(k, w) \<in> set items"
  shows "as_usize (fl (fl (fl (of_nat mx) * fl (of_int (max w 1))) /
           fl (of_int (sum_list (weights_of items))))) = nat (quota mx items w)"
proof -
  let ?W = "sum_list (weights_of items)" and ?w = "max w 1" and ?m = "int mx"
  have w: "1 \<le> ?w" "?w \<le> ?W"
    using assms(3) weights_of_sum [of ?w items] by (force simp: weights_of_def)+
  have mW: "?m \<le> ?m * ?W" "?W \<le> ?m * ?W" "?m * ?w \<le> ?m * ?W"
    using assms(1) w by (simp_all add: mult_left_mono)
  have p: "1 \<le> ?m * ?w" using assms(1) w mult_mono [of 1 ?m 1 ?w] by simp
  have b: "?m \<le> 2 ^ 50" "?W \<le> 2 ^ 50" "?m * ?w \<le> 2 ^ 50" "?w \<le> 2 ^ 50"
    using mW w assms(2) by linarith+
  have "fl (of_int ?m) = of_int ?m" "fl (of_int ?w) = of_int ?w" "fl (of_int ?W) = of_int ?W"
    "fl (of_int (?m * ?w)) = of_int (?m * ?w)"
    using b p w assms(1) by (auto intro!: fl_of_int simp del: of_int_mult of_int_of_nat_eq)
  then have e: "fl (fl (fl (of_nat mx) * fl (of_int ?w)) / fl (of_int ?W)) =
      fl (of_int (?m * ?w) / of_int ?W)" by simp
  have f: "\<lfloor>fl (of_int (?m * ?w) / of_int ?W)\<rfloor> = ?m * ?w div ?W"
    using b p w by (intro f64_round.rnd_floor_quotient) auto
  have "?m * ?w div ?W \<le> ?m * ?w" using p w zdiv_mono2 [of "?m * ?w" 1 ?W] by simp
  then have "?m * ?w div ?W \<le> 2 ^ 64 - 1" using b(3) by simp
  then show ?thesis unfolding e as_usize_def f by (simp add: quota_def)
qed

lemma initial_alloc_used:
  assumes "1 \<le> mx" and "int mx * sum_list (weights_of items) \<le> 2 ^ 50" and "items \<noteq> []"
  shows "alloc_used (initial_alloc mx (sum_list (weights_of items)) items) \<le> mx"
    and "mx \<le> alloc_used (initial_alloc mx (sum_list (weights_of items)) items) + length items"
proof -
  let ?W = "sum_list (weights_of items)"
  have W: "0 < ?W" using weights_of_ge_length [of items] assms(3) by (cases items) auto
  have q: "0 \<le> quota mx items w" for w
    using W by (simp add: quota_def pos_imp_zdiv_nonneg_iff)
  have "map al_cap (initial_alloc mx ?W items) = map (\<lambda>(k, w). nat (quota mx items w)) items"
    using initial_cap [OF assms(1,2)] by (auto simp: initial_alloc_def Let_def)
  then have "int (alloc_used (initial_alloc mx ?W items)) = (\<Sum>(k, w)\<leftarrow>items. int (nat (quota mx items w)))"
    by (simp add: alloc_used_def int_sum_list comp_def case_prod_beta')
  also have "\<dots> = (\<Sum>w\<leftarrow>weights_of items. int mx * w div ?W)"
    using q by (simp add: weights_of_def quota_def comp_def case_prod_beta')
  finally have u: "int (alloc_used (initial_alloc mx ?W items)) = \<dots>" .
  have "int (alloc_used (initial_alloc mx ?W items)) * ?W \<le> int mx * ?W"
    unfolding u by (rule sum_quota_bounds(1) [OF W])
  then show "alloc_used (initial_alloc mx ?W items) \<le> mx" using W by simp
  have "int mx * ?W \<le> (int (alloc_used (initial_alloc mx ?W items)) + int (length items)) * ?W"
    unfolding u using sum_quota_bounds(2) [OF W, of "int mx" "weights_of items"] by simp
  then show "mx \<le> alloc_used (initial_alloc mx ?W items) + length items"
    using W by (simp flip: of_nat_add)
qed

text \<open>The map that is returned has the settled slots as its values.\<close>

lemma keys_initial [simp]: "map fst (initial_alloc mx W items) = map fst items"
  by (simp add: initial_alloc_def Let_def case_prod_beta' comp_def)

lemma length_initial [simp]: "length (initial_alloc mx W items) = length items"
  by (simp add: initial_alloc_def)

lemma weighted_caps_settled:
  assumes "1 \<le> mx" and "items \<noteq> []" and "distinct (map fst items)"
    and "sum_list (weights_of items) < 2 ^ 63"
  shows "weighted_caps mx items =
     map (\<lambda>(k, c, _). (k, c)) (settle_alloc mx (initial_alloc mx (sum_list (weights_of items)) items))"
proof -
  have "0 < sum_list (weights_of items)"
    using weights_of_ge_length [of items] assms(2) by (cases items) auto
  then show ?thesis
    using assms fold_update_fresh
      [of fst "settle_alloc mx (initial_alloc mx (sum_list (weights_of items)) items)" "[]" al_cap]
    by (simp add: weighted_caps_def total_weight_eq case_prod_beta')
qed

lemma weighted_caps_bound: "1 \<le> mx \<Longrightarrow> int mx * W \<le> 2 ^ 50 \<Longrightarrow> 0 \<le> W \<Longrightarrow> W < 2 ^ 63"
  using mult_right_mono [of 1 "int mx" W] by simp

lemma weighted_caps_sum:
  assumes "1 \<le> mx" and "items \<noteq> []" and "distinct (map fst items)"
    and "int mx * sum_list (weights_of items) \<le> 2 ^ 50"
  shows "sum_list (hvals (weighted_caps mx items)) = mx"
    and "hkeys (weighted_caps mx items) = map fst items"
    and "length items \<le> mx \<Longrightarrow> (k, c) \<in> set (weighted_caps mx items) \<Longrightarrow> 1 \<le> c"
proof -
  let ?W = "sum_list (weights_of items)"
  let ?a = "settle_alloc mx (initial_alloc mx ?W items)"
  have "0 \<le> ?W" using weights_of_ge_length [of items] by simp
  with weighted_caps_bound assms have "?W < 2 ^ 63" by blast
  then have e: "weighted_caps mx items = map (\<lambda>(k, c, _). (k, c)) ?a"
    using assms by (intro weighted_caps_settled) auto
  note u = initial_alloc_used [OF assms(1,4,2)]
  have s: "alloc_used ?a = mx" "length items \<le> mx \<Longrightarrow> a \<in> set ?a \<Longrightarrow> 1 \<le> al_cap a" for a
    using settle_correct [of mx "initial_alloc mx ?W items"] u by auto
  show "sum_list (hvals (weighted_caps mx items)) = mx"
    using s(1) by (simp add: e hvals_def alloc_used_def comp_def case_prod_beta')
  show "hkeys (weighted_caps mx items) = map fst items"
    using keys_settle [of mx "initial_alloc mx ?W items"]
    by (simp add: e hkeys_def comp_def case_prod_beta' del: keys_settle)
  show "length items \<le> mx \<Longrightarrow> (k, c) \<in> set (weighted_caps mx items) \<Longrightarrow> 1 \<le> c"
    using s(2) by (auto simp: e)
qed


section \<open>Shares\<close>

lemma fl_ratio_err:
  assumes "1 \<le> w" and "w \<le> W" and "W < 2 ^ 53"
  shows "\<bar>fl (fl (of_int w) / fl (of_int W)) - of_int w / of_int W\<bar> \<le> of_int w / of_int W * 2 powi (- 53)"
proof -
  have "fl (of_int w) = of_int w" "fl (of_int W) = of_int W"
    using assms by (auto intro!: fl_of_int)
  moreover have "2 powi (- 1022) \<le> (of_int w / of_int W :: rat)"
  proof -
    have "(2::rat) powi (- 1022) \<le> 1 / of_int (2 ^ 53)" by (simp add: power_int_minus field_simps)
    also have "\<dots> \<le> 1 / of_int W" using assms by (intro divide_left_mono) auto
    also have "\<dots> \<le> of_int w / of_int W" using assms by (intro divide_right_mono) auto
    finally show ?thesis .
  qed
  ultimately show ?thesis using fl_err [of "of_int w / of_int W"] by simp
qed

lemma abs_sum_list_diff:
  fixes f g :: "'a \<Rightarrow> rat"
  assumes "\<And>x. x \<in> set xs \<Longrightarrow> \<bar>f x - g x\<bar> \<le> g x * e"
  shows "\<bar>sum_list (map f xs) - sum_list (map g xs)\<bar> \<le> sum_list (map g xs) * e"
  using assms
proof (induction xs)
  case (Cons x xs)
  then have "\<bar>sum_list (map f xs) - sum_list (map g xs)\<bar> \<le> sum_list (map g xs) * e"
    and "\<bar>f x - g x\<bar> \<le> g x * e" by simp_all
  then show ?case by (simp add: distrib_right abs_le_iff)
qed simp

text \<open>
  Shares \<open>fl (w / W)\<close> of positive weights \<open>w\<close> that add up to \<open>W\<close> add up to one, to within one
  rounding unit.
\<close>

lemma ratio_shares_sum:
  assumes "xs \<noteq> []" and "\<And>x. x \<in> set xs \<Longrightarrow> (1::int) \<le> w x" and "sum_list (map w xs) < 2 ^ 53"
  shows "\<bar>(\<Sum>x\<leftarrow>xs. fl (fl (of_int (w x)) / fl (of_int (sum_list (map w xs))))) - 1\<bar> \<le> 2 powi (- 53)"
proof -
  let ?W = "sum_list (map w xs)"
  have le: "w x \<le> ?W" if "x \<in> set xs" for x
    using that assms(2) by (intro member_le_sum_list) force+
  have W: "1 \<le> ?W" using assms(1,2) le by (cases xs) force+
  have "(\<Sum>x\<leftarrow>xs. of_int (w x)) = (of_int ?W :: rat)"
    using sum_list_of_int [of "map w xs", where ?'a = rat] by (simp add: comp_def)
  then have "(\<Sum>x\<leftarrow>xs. of_int (w x) / of_int ?W) = (of_int ?W / of_int ?W :: rat)"
    by (simp add: divide_inverse sum_list_mult_const)
  also have "\<dots> = 1" using W by simp
  finally have g: "(\<Sum>x\<leftarrow>xs. of_int (w x) / of_int ?W) = (1 :: rat)" .
  show ?thesis
    using abs_sum_list_diff [of xs "\<lambda>x. fl (fl (of_int (w x)) / fl (of_int ?W))"
        "\<lambda>x. of_int (w x) / of_int ?W" "2 powi (- 53)"] fl_ratio_err assms le
    unfolding g by auto
qed

lemma i64_sum_nonneg: "0 \<le> sum_list xs \<Longrightarrow> sum_list xs < 2 ^ 63 \<Longrightarrow> i64_sum xs = sum_list xs"
  by (simp add: i64_sum_def i64_id)

lemma sum_list_ge_1: "(\<And>x. x \<in> set xs \<Longrightarrow> (1::int) \<le> f x) \<Longrightarrow> 0 \<le> sum_list (map f xs)"
  by (induction xs) force+

text \<open>The tenant shares of the weighted algorithm.\<close>

lemma weighted_tenant_shares:
  assumes "distinct (map st_id (filter st_active ts))"
    and "(\<Sum>t\<leftarrow>filter st_active ts. max (st_weight t) 1) < 2 ^ 53"
  shows "hvals (ps_tenants (pool_shares Weighted gw ts ks)) =
    map (\<lambda>t. fl (fl (of_int (max (st_weight t) 1)) /
           fl (of_int (\<Sum>t\<leftarrow>filter st_active ts. max (st_weight t) 1)))) (filter st_active ts)"
    and "hkeys (ps_tenants (pool_shares Weighted gw ts ks)) = map st_id (filter st_active ts)"
proof -
  have "active_total (filter st_active ts) = (\<Sum>t\<leftarrow>filter st_active ts. max (st_weight t) 1)"
    unfolding active_total_def using assms(2)
    by (intro i64_sum_nonneg sum_list_ge_1) auto
  then show "hvals (ps_tenants (pool_shares Weighted gw ts ks)) =
    map (\<lambda>t. fl (fl (of_int (max (st_weight t) 1)) /
           fl (of_int (\<Sum>t\<leftarrow>filter st_active ts. max (st_weight t) 1)))) (filter st_active ts)"
    and "hkeys (ps_tenants (pool_shares Weighted gw ts ks)) = map st_id (filter st_active ts)"
    using assms(1) by (simp_all add: pool_shares_def Let_def fold_update_fresh hvals_def hkeys_def
        comp_def tenant_share_def)
qed

text \<open>The groups of \<open>active_share_groups\<close>: one entry per group of an active tenant.\<close>

lemma active_share_groups_aux:
  "hmap_ok m \<Longrightarrow>
   hmap_ok (fold (\<lambda>t m. if contains_key m (st_group t) then m
                 else AList.update (st_group t) (group_weight_of gw (st_group t)) m) act m) \<and>
   (\<forall>g. map_of (fold (\<lambda>t m. if contains_key m (st_group t) then m
                 else AList.update (st_group t) (group_weight_of gw (st_group t)) m) act m) g =
      (if map_of m g \<noteq> None then map_of m g
       else if g \<in> st_group ` set act then Some (group_weight_of gw g) else None))"
proof (induction act arbitrary: m)
  case (Cons t act)
  let ?m = "if contains_key m (st_group t) then m
            else AList.update (st_group t) (group_weight_of gw (st_group t)) m"
  have "hmap_ok ?m" using Cons.prems by simp
  note IH = Cons.IH [OF this]
  then show ?case by (auto simp: contains_key_def)
qed auto

lemma active_share_groups:
  shows "hmap_ok (active_share_groups gw act)"
    and "map_of (active_share_groups gw act) g =
      (if g \<in> st_group ` set act then Some (group_weight_of gw g) else None)"
  using active_share_groups_aux [of "[]" gw act] by (simp_all add: active_share_groups_def)

lemma active_share_groups_weight:
  "(g, w) \<in> set (active_share_groups gw act) \<Longrightarrow> 1 \<le> w"
  using active_share_groups(1) [of gw act] active_share_groups(2) [of gw act g]
  by (auto simp: hmap_entry group_weight_of_def split: if_splits)

section \<open>Properties\<close>

text \<open>
  C27: Slot apportionment. For a non-empty list of items with distinct keys whose weights and slots
  stay in the range where the floating-point quotas are exact, \<open>weighted_caps\<close> hands out exactly
  the pool's slots, one entry per item, and every item gets at least one slot when there is one
  for each.
\<close>

theorem weighted_caps_apportion:
  assumes "1 \<le> mx" and "items \<noteq> []" and "distinct (map fst items)"
    and "int mx * (\<Sum>(_, w)\<leftarrow>items. max w 1) \<le> 2 ^ 50"
  shows "hkeys (weighted_caps mx items) = map fst items \<and>
    sum_list (hvals (weighted_caps mx items)) = mx \<and>
    (length items \<le> mx \<longrightarrow> (\<forall>c \<in> set (hvals (weighted_caps mx items)). 1 \<le> c))"
proof -
  have "(\<Sum>(_, w)\<leftarrow>items. max w 1) = sum_list (weights_of items)"
    by (simp add: weights_of_def case_prod_beta')
  with assms have a: "int mx * sum_list (weights_of items) \<le> 2 ^ 50" by simp
  show ?thesis using weighted_caps_sum [OF assms(1-3) a] by (auto simp: hvals_def)
qed

theorem weighted_caps_apportion_witness:
  "sum_list (hvals (weighted_caps 7 [(''gold'', 300), (''free'', 1)])) = 7"
  using weighted_caps_apportion [of 7 "[(''gold'', 300), (''free'', 1)]"] by simp

text \<open>
  Tenant shares. Under the weighted algorithm the reported shares of the active tenants of a
  pool add up to one, to within one rounding unit, and a tenant that is not active has share 0.
\<close>

theorem weighted_shares_sum_to_one:
  assumes "filter st_active ts \<noteq> []" and "distinct (map st_id (filter st_active ts))"
    and "(\<Sum>t\<leftarrow>filter st_active ts. max (st_weight t) 1) < 2 ^ 53"
  shows "\<bar>sum_list (hvals (ps_tenants (pool_shares Weighted gw ts ks))) - 1\<bar> \<le> 2 powi (- 53) \<and>
    (\<forall>t. t \<notin> st_id ` set (filter st_active ts) \<longrightarrow> ps_tenant (pool_shares Weighted gw ts ks) t = 0)"
proof -
  have "map_of (ps_tenants (pool_shares Weighted gw ts ks)) t = None"
    if "t \<notin> st_id ` set (filter st_active ts)" for t
    using that weighted_tenant_shares(2) [OF assms(2,3), of gw ks]
    by (auto simp: hkeys_def map_of_eq_None_iff simp flip: list.set_map)
  moreover have "\<bar>sum_list (hvals (ps_tenants (pool_shares Weighted gw ts ks))) - 1\<bar> \<le> 2 powi (- 53)"
    unfolding weighted_tenant_shares(1) [OF assms(2,3), of gw ks]
    using assms by (intro ratio_shares_sum) auto
  ultimately show ?thesis by (simp add: ps_tenant_def get_or_None)
qed

theorem weighted_shares_sum_to_one_witness:
  "ps_tenant (pool_shares Weighted []
     [\<lparr>st_id = ''a'', st_group = ''g'', st_weight = 3, st_active = True\<rparr>,
      \<lparr>st_id = ''b'', st_group = ''g'', st_weight = 1, st_active = True\<rparr>] []) ''c'' = 0"
  using weighted_shares_sum_to_one [of
     "[\<lparr>st_id = ''a'', st_group = ''g'', st_weight = 3, st_active = True\<rparr>,
      \<lparr>st_id = ''b'', st_group = ''g'', st_weight = 1, st_active = True\<rparr>]" "[]" "[]"]
  by simp

text \<open>
  Group shares. Each group with an active tenant is listed once, and the group shares add up
  to one to within one rounding unit.
\<close>

theorem group_shares_sum_to_one:
  assumes "filter st_active ts \<noteq> []"
    and "sum_list (hvals (active_share_groups gw (filter st_active ts))) < 2 ^ 53"
  shows "distinct (hkeys (ps_groups (pool_shares alg gw ts ks))) \<and>
    set (hkeys (ps_groups (pool_shares alg gw ts ks))) = st_group ` set (filter st_active ts) \<and>
    \<bar>sum_list (hvals (ps_groups (pool_shares alg gw ts ks))) - 1\<bar> \<le> 2 powi (- 53)"
proof -
  let ?act = "filter st_active ts"
  let ?g = "active_share_groups gw ?act"
  have k: "set (map fst ?g) = st_group ` set ?act"
  proof -
    have "fst ` set ?g = dom (map_of ?g)" by (simp add: dom_map_of_conv_image_fst)
    also have "\<dots> = st_group ` set ?act" by (auto simp: dom_def active_share_groups(2) split: if_splits)
    finally show ?thesis by simp
  qed
  have ne: "?g \<noteq> []" using k assms(1) by force
  have w: "1 \<le> snd x" if "x \<in> set ?g" for x
    using that active_share_groups_weight [of "fst x" "snd x" gw ?act] by simp
  have i: "i64_sum (hvals ?g) = sum_list (map snd ?g)"
    using assms(2) w sum_list_ge_1 [of ?g snd] by (simp add: hvals_def i64_sum_nonneg)
  have s: "\<bar>(\<Sum>x\<leftarrow>?g. fl (fl (of_int (snd x)) / fl (of_int (sum_list (map snd ?g))))) - 1\<bar> \<le> 2 powi (- 53)"
    using ne w assms(2) by (intro ratio_shares_sum) (auto simp: hvals_def)
  have e: "ps_groups (pool_shares alg gw ts ks) = group_shares ?g"
    by (simp add: pool_shares_def Let_def)
  show ?thesis
    using s k active_share_groups(1) [of gw ?act]
    by (simp add: e group_shares_def i [unfolded hvals_def] hvals_def hkeys_def hmap_ok_def comp_def
        case_prod_beta')
qed

theorem group_shares_sum_to_one_witness:
  "\<bar>sum_list (hvals (ps_groups (pool_shares Hierarchical [(''g'', 30)]
     [\<lparr>st_id = ''a'', st_group = ''g'', st_weight = 3, st_active = True\<rparr>,
      \<lparr>st_id = ''b'', st_group = ''h'', st_weight = 1, st_active = True\<rparr>] []))) - 1\<bar> \<le> 2 powi (- 53)"
  using group_shares_sum_to_one [of
     "[\<lparr>st_id = ''a'', st_group = ''g'', st_weight = 3, st_active = True\<rparr>,
      \<lparr>st_id = ''b'', st_group = ''h'', st_weight = 1, st_active = True\<rparr>]" "[(''g'', 30)]" Hierarchical "[]"]
  by (simp add: active_share_groups_def contains_key_def group_weight_of_def get_or_def hvals_def)

end
