(* ===== verification/Affinity.thy ===== *)
theory Affinity
  imports Prelude
begin

text \<open>
  Session affinity inside a model pool (\<open>obleth-fairshare/src/affinity.rs\<close>): which sessions are
  warm, which queued request of a key goes next, and the slots held for a session's next step.

  Instants and durations are natural numbers of one clock; \<open>saturating_duration_since\<close> is the
  truncated subtraction of \<open>nat\<close>. A handler of the source reads the clock several times; the
  model passes one reading \<open>now\<close> per handled message. A \<open>uuid\<close> is its canonical text, which is
  what \<open>format!\<close> prints. The running totals of \<open>AffinityStats\<close> are one structure shared by every
  pool; \<open>af_stats\<close> is the part this pool contributed. Log lines are not modelled.
\<close>

record session_affinity_config =
  warm_ttl :: duration
  hold_for :: duration
  max_jumps :: nat
  max_bypass :: duration
  max_held_percent :: nat

definition max_held :: "session_affinity_config \<Rightarrow> nat \<Rightarrow> nat" where
  "max_held cfg cap =
     (if hold_for cfg = 0 then 0 else div_ceil (cap * max_held_percent cfg) 100)"

record affinity_stats =
  as_jumps :: nat
  as_holds :: nat
  as_redeemed :: nat
  as_expired :: nat

record session_state =
  se_in_flight :: nat
  se_arrived :: "instant option"
  se_last_done :: "instant option"
  se_chained :: bool

record finished_step =
  fi_chained :: bool
  fi_arrived :: instant

record hold =
  h_session :: string
  h_tenant :: uuid
  h_key :: uuid
  h_until :: instant

record affinity =
  af_config :: "session_affinity_config option"
  af_sessions :: "(string, session_state) hmap"
  af_holds :: "hold list"
  af_stats :: affinity_stats

definition affinity_default :: affinity where
  "affinity_default =
     \<lparr>af_config = None, af_sessions = [], af_holds = [],
      af_stats = \<lparr>as_jumps = 0, as_holds = 0, as_redeemed = 0, as_expired = 0\<rparr>\<rparr>"

definition session_default :: session_state where
  "session_default = \<lparr>se_in_flight = 0, se_arrived = None, se_last_done = None, se_chained = False\<rparr>"

definition scoped :: "uuid \<Rightarrow> string \<Rightarrow> string" where
  "scoped key session = key @ ''/'' @ session"

definition af_configure :: "session_affinity_config option \<Rightarrow> affinity \<Rightarrow> affinity \<times> hold list" where
  "af_configure config a =
     (let a = a\<lparr>af_config := config\<rparr>
      in if config \<noteq> None then (a, [])
         else (a\<lparr>af_sessions := [], af_holds := []\<rparr>, af_holds a))"

definition af_on :: "affinity \<Rightarrow> bool" where
  "af_on a = (af_config a \<noteq> None)"

definition holds_on :: "affinity \<Rightarrow> bool" where
  "holds_on a = (case af_config a of None \<Rightarrow> False | Some c \<Rightarrow> hold_for c \<noteq> 0)"

definition recently_done :: "session_affinity_config \<Rightarrow> session_state \<Rightarrow> instant \<Rightarrow> bool" where
  "recently_done cfg s now =
     (case se_last_done s of None \<Rightarrow> False | Some t \<Rightarrow> now - t < warm_ttl cfg)"

definition warm :: "affinity \<Rightarrow> session_affinity_config \<Rightarrow> string \<Rightarrow> instant \<Rightarrow> bool" where
  "warm a cfg session now =
     (case map_of (af_sessions a) session of
        None \<Rightarrow> False
      | Some s \<Rightarrow> 0 < se_in_flight s \<or> recently_done cfg s now)"

definition favoured :: "affinity \<Rightarrow> string \<Rightarrow> instant \<Rightarrow> bool" where
  "favoured a session now =
     (case af_config a of None \<Rightarrow> False | Some cfg \<Rightarrow> warm a cfg session now)"

definition passed_out :: "affinity \<Rightarrow> nat \<Rightarrow> bool" where
  "passed_out a passed =
     (case af_config a of None \<Rightarrow> False | Some cfg \<Rightarrow> max_jumps cfg \<le> passed)"

definition aged :: "affinity \<Rightarrow> instant \<Rightarrow> instant \<Rightarrow> bool" where
  "aged a enqueued now =
     (case af_config a of None \<Rightarrow> False | Some cfg \<Rightarrow> max_bypass cfg \<le> now - enqueued)"

definition favoured_opt :: "affinity \<Rightarrow> string option \<Rightarrow> instant \<Rightarrow> bool" where
  "favoured_opt a s now = (case s of None \<Rightarrow> False | Some x \<Rightarrow> favoured a x now)"

text \<open>The place of the request that goes next: session, arrival and times passed of each waiter.\<close>

definition af_pick :: "affinity \<Rightarrow> (string option \<times> instant \<times> nat) list \<Rightarrow> instant \<Rightarrow> nat" where
  "af_pick a waiters now =
     (if af_config a = None then 0
      else case waiters of
             [] \<Rightarrow> 0
           | (session, enqueued, passed) # rest \<Rightarrow>
               if aged a enqueued now \<or> passed_out a passed \<or> favoured_opt a session now then 0
               else case position (\<lambda>(s, _, _). favoured_opt a s now) rest of
                      None \<Rightarrow> 0 | Some i \<Rightarrow> i + 1)"

definition af_granted :: "affinity \<Rightarrow> string option \<Rightarrow> bool \<Rightarrow> instant \<Rightarrow> affinity" where
  "af_granted a session jumped arrived =
     (case (af_config a, session) of
        (Some cfg, Some session) \<Rightarrow>
          (let a = (if jumped then a\<lparr>af_stats := (af_stats a)\<lparr>as_jumps := as_jumps (af_stats a) + 1\<rparr>\<rparr> else a);
               s = get_or session_default (af_sessions a) session;
               s = s\<lparr>se_chained := (case se_last_done s of None \<Rightarrow> False
                                    | Some t \<Rightarrow> arrived - t \<le> hold_for cfg),
                     se_arrived := Some arrived,
                     se_in_flight := se_in_flight s + 1\<rparr>
           in a\<lparr>af_sessions := AList.update session s (af_sessions a)\<rparr>)
      | _ \<Rightarrow> a)"

definition af_finished :: "affinity \<Rightarrow> string option \<Rightarrow> instant \<Rightarrow> affinity \<times> finished_step option" where
  "af_finished a session now =
     (case (af_config a, session) of
        (Some cfg, Some session) \<Rightarrow>
          (case map_of (af_sessions a) session of
             None \<Rightarrow> (a, None)
           | Some s \<Rightarrow>
               (let s = s\<lparr>se_in_flight := se_in_flight s - 1, se_last_done := Some now\<rparr>;
                    a = a\<lparr>af_sessions := AList.update session s (af_sessions a)\<rparr>;
                    step = \<lparr>fi_chained = se_chained s,
                            fi_arrived = (case se_arrived s of None \<Rightarrow> now | Some t \<Rightarrow> t)\<rparr>
                in (a, if se_in_flight s = 0 \<and> hold_for cfg \<noteq> 0 \<and> favoured a session now
                       then Some step else None)))
      | _ \<Rightarrow> (a, None))"

definition can_hold :: "affinity \<Rightarrow> nat \<Rightarrow> bool" where
  "can_hold a cap =
     (case af_config a of None \<Rightarrow> False | Some cfg \<Rightarrow> length (af_holds a) < max_held cfg cap)"

definition af_hold :: "affinity \<Rightarrow> string \<Rightarrow> uuid \<Rightarrow> uuid \<Rightarrow> instant \<Rightarrow> affinity" where
  "af_hold a session tenant key now =
     (case af_config a of
        None \<Rightarrow> a
      | Some cfg \<Rightarrow>
          a\<lparr>af_stats := (af_stats a)\<lparr>as_holds := as_holds (af_stats a) + 1\<rparr>,
            af_holds := af_holds a @ [\<lparr>h_session = session, h_tenant = tenant, h_key = key,
                                       h_until = now + hold_for cfg\<rparr>]\<rparr>)"

definition af_held :: "affinity \<Rightarrow> nat" where
  "af_held a = length (af_holds a)"

text \<open>\<open>Vec::swap_remove\<close>: the last element takes the place of the removed one.\<close>

definition swap_remove :: "nat \<Rightarrow> 'a list \<Rightarrow> 'a list" where
  "swap_remove i xs =
     (if Suc i = length xs then butlast xs else (butlast xs)[i := last xs])"

definition af_redeem :: "affinity \<Rightarrow> string option \<Rightarrow> affinity \<times> hold option" where
  "af_redeem a session =
     (case session of
        None \<Rightarrow> (a, None)
      | Some session \<Rightarrow>
          (case position (\<lambda>h. h_session h = session) (af_holds a) of
             None \<Rightarrow> (a, None)
           | Some i \<Rightarrow>
               (a\<lparr>af_stats := (af_stats a)\<lparr>as_redeemed := as_redeemed (af_stats a) + 1\<rparr>,
                  af_holds := swap_remove i (af_holds a)\<rparr>, Some (af_holds a ! i))))"

definition count_expired :: "hold list \<Rightarrow> affinity \<Rightarrow> affinity" where
  "count_expired gone a =
     a\<lparr>af_stats := (af_stats a)\<lparr>as_expired := as_expired (af_stats a) + length gone\<rparr>\<rparr>"

definition af_expire :: "instant \<Rightarrow> affinity \<Rightarrow> affinity \<times> hold list" where
  "af_expire now a =
     (if \<not> list_ex (\<lambda>h. h_until h \<le> now) (af_holds a) then (a, [])
      else let gone = filter (\<lambda>h. h_until h \<le> now) (af_holds a);
               kept = filter (\<lambda>h. \<not> h_until h \<le> now) (af_holds a)
           in (count_expired gone (a\<lparr>af_holds := kept\<rparr>), gone))"

definition af_give_up :: "affinity \<Rightarrow> affinity \<times> hold list" where
  "af_give_up a = (count_expired (af_holds a) (a\<lparr>af_holds := []\<rparr>), af_holds a)"

definition af_give_up_key :: "uuid \<Rightarrow> affinity \<Rightarrow> affinity \<times> hold list" where
  "af_give_up_key key a =
     (if \<not> list_ex (\<lambda>h. h_key h = key) (af_holds a) then (a, [])
      else let gone = filter (\<lambda>h. h_key h = key) (af_holds a);
               kept = filter (\<lambda>h. h_key h \<noteq> key) (af_holds a)
           in (count_expired gone (a\<lparr>af_holds := kept\<rparr>), gone))"

definition next_expiry :: "affinity \<Rightarrow> instant option" where
  "next_expiry a = list_min (map h_until (af_holds a))"

definition af_prune :: "instant \<Rightarrow> affinity \<Rightarrow> affinity" where
  "af_prune now a =
     (case af_config a of
        None \<Rightarrow> a
      | Some cfg \<Rightarrow>
          a\<lparr>af_sessions :=
             filter (\<lambda>(_, s). 0 < se_in_flight s \<or> recently_done cfg s now) (af_sessions a)\<rparr>)"

section \<open>Handing slots back\<close>

text \<open>
  The contract several operations on the held slots share: whatever leaves the store is handed
  to the caller, once each, and nothing else changes.
\<close>

locale handback =
  fixes contents :: "'s \<Rightarrow> 'a multiset"
    and take_out :: "'p \<Rightarrow> 's \<Rightarrow> 's \<times> 'a list"
  assumes conserve: "contents (fst (take_out p s)) + mset (snd (take_out p s)) = contents s"
begin

lemma taken_subset: "mset (snd (take_out p s)) \<subseteq># contents s"
  by (metis conserve mset_subset_eq_add_right)

lemma kept_subset: "contents (fst (take_out p s)) \<subseteq># contents s"
  by (metis conserve mset_subset_eq_add_left)

lemma kept_size: "size (contents (fst (take_out p s))) + length (snd (take_out p s)) = size (contents s)"
  by (metis conserve size_union size_mset)

text \<open>Several requests in a row, collecting what each hands back.\<close>

fun take_all :: "'p list \<Rightarrow> 's \<Rightarrow> 's \<times> 'a list" where
  "take_all [] s = (s, [])"
| "take_all (p # ps) s =
     (let (s', xs) = take_out p s; (s'', ys) = take_all ps s' in (s'', xs @ ys))"

lemma take_all_conserve: "contents (fst (take_all ps s)) + mset (snd (take_all ps s)) = contents s"
proof (induction ps arbitrary: s)
  case (Cons p ps)
  obtain s' xs where a: "take_out p s = (s', xs)" by fastforce
  obtain s'' ys where b: "take_all ps s' = (s'', ys)" by fastforce
  have "contents s'' + mset ys = contents s'" using Cons.IH [of s'] b by simp
  moreover have "contents s' + mset xs = contents s" using conserve [of p s] a by simp
  ultimately show ?case using a b by (auto simp: ac_simps)
qed simp

end

abbreviation held_slots :: "affinity \<Rightarrow> hold multiset" where
  "held_slots a \<equiv> mset (af_holds a)"

lemma held_filter: "mset (filter (\<lambda>x. \<not> P x) xs) + mset (filter P xs) = mset xs"
  by (induction xs) auto

interpretation expire_back: handback held_slots af_expire
  by unfold_locales (auto simp: af_expire_def count_expired_def Let_def held_filter)

interpretation give_up_back: handback held_slots "\<lambda>_::unit. af_give_up"
  by unfold_locales (simp add: af_give_up_def count_expired_def)

interpretation give_up_key_back: handback held_slots af_give_up_key
  by unfold_locales (auto simp: af_give_up_key_def count_expired_def Let_def held_filter)

interpretation configure_back: handback held_slots af_configure
  by unfold_locales (auto simp: af_configure_def Let_def)

lemma mset_swap_remove: "i < length xs \<Longrightarrow> add_mset (xs ! i) (mset (swap_remove i xs)) = mset xs"
proof (cases "Suc i = length xs")
  case True
  then have ne: "xs \<noteq> []" and i: "i = length xs - 1" by auto
  have "mset (butlast xs @ [last xs]) = mset xs" using ne by simp
  moreover have "xs ! i = last xs" using ne i by (simp add: last_conv_nth)
  ultimately show ?thesis using True by (simp add: swap_remove_def)
next
  case False
  assume i: "i < length xs"
  with False have b: "i < length (butlast xs)" and ne: "xs \<noteq> []" by auto
  have "mset xs = add_mset (last xs) (mset (butlast xs))"
    using append_butlast_last_id [OF ne] by (metis mset_append union_mset_add_mset_right mset.simps add.right_neutral)
  moreover have "xs ! i = butlast xs ! i" using b by (simp add: nth_butlast)
  ultimately show ?thesis using False b by (simp add: swap_remove_def mset_update)
qed

interpretation redeem_back: handback held_slots
  "\<lambda>session a. (fst (af_redeem a session), case snd (af_redeem a session) of None \<Rightarrow> [] | Some h \<Rightarrow> [h])"
  by unfold_locales
    (auto simp: af_redeem_def mset_swap_remove split: option.splits dest!: position_Some)

section \<open>Order within a key\<close>

lemma af_pick_bound: "waiters \<noteq> [] \<Longrightarrow> af_pick a waiters now < length waiters"
  by (auto simp: af_pick_def split: list.splits option.splits dest: position_Some)

lemma af_pick_jump:
  assumes "af_pick a waiters now = Suc i"
  shows "Suc i < length waiters"
    and "\<not> aged a (fst (snd (waiters ! 0))) now" and "\<not> passed_out a (snd (snd (waiters ! 0)))"
    and "favoured_opt a (fst (waiters ! Suc i)) now"
    and "j \<le> i \<Longrightarrow> \<not> favoured_opt a (fst (waiters ! j)) now"
proof -
  obtain s e p rest where w: "waiters = (s, e, p) # rest"
    using assms by (cases waiters) (auto simp: af_pick_def split: if_splits)
  have c: "\<not> aged a e now" "\<not> passed_out a p" "\<not> favoured_opt a s now"
    and pos: "position (\<lambda>(s, _, _). favoured_opt a s now) rest = Some i"
    using assms by (auto simp: af_pick_def w split: if_splits option.splits)
  note P = position_Some [OF pos]
  show "Suc i < length waiters" and "\<not> aged a (fst (snd (waiters ! 0))) now"
    and "\<not> passed_out a (snd (snd (waiters ! 0)))"
    and "favoured_opt a (fst (waiters ! Suc i)) now"
    using P c by (auto simp: w case_prod_beta')
  show "j \<le> i \<Longrightarrow> \<not> favoured_opt a (fst (waiters ! j)) now"
    using P c by (cases j) (auto simp: w case_prod_beta')
qed

section \<open>Bounds on held slots\<close>

lemma max_held_le: "max_held_percent cfg \<le> 100 \<Longrightarrow> max_held cfg cap \<le> cap"
proof -
  assume "max_held_percent cfg \<le> 100"
  then have le: "cap * max_held_percent cfg \<le> cap * 100" by (rule mult_le_mono2)
  have "div_ceil (cap * max_held_percent cfg) 100 * 100 < cap * max_held_percent cfg + 100"
    by (rule div_ceil_upper) simp
  with le have "div_ceil (cap * max_held_percent cfg) 100 * 100 < cap * 100 + 100" by linarith
  then show ?thesis by (simp add: max_held_def)
qed

lemma af_hold_bound:
  "af_config a = Some cfg \<Longrightarrow> can_hold a cap \<Longrightarrow>
   af_held (af_hold a session tenant key now) \<le> max_held cfg cap"
  by (simp add: can_hold_def af_hold_def af_held_def)

lemma scoped_inj:
  "length k = length k' \<Longrightarrow> scoped k s = scoped k' s' \<longleftrightarrow> k = k' \<and> s = s'"
  by (simp add: scoped_def)

lemma af_finished_holds [simp]: "af_holds (fst (af_finished a s now)) = af_holds a"
  by (auto simp: af_finished_def Let_def split: option.splits)

lemma af_finished_config [simp]: "af_config (fst (af_finished a s now)) = af_config a"
  by (auto simp: af_finished_def Let_def split: option.splits)

lemma af_granted_holds [simp]: "af_holds (af_granted a s j t) = af_holds a"
  by (auto simp: af_granted_def Let_def split: option.splits)

lemma af_granted_config [simp]: "af_config (af_granted a s j t) = af_config a"
  by (auto simp: af_granted_def Let_def split: option.splits)

lemma af_prune_holds [simp]: "af_holds (af_prune now a) = af_holds a"
  by (auto simp: af_prune_def split: option.splits)

section \<open>Properties\<close>

text \<open>
  C32: Who goes next within a key. The pick is a waiting request. When it is not the oldest one, the
  oldest has neither waited \<open>max_bypass\<close> nor been passed \<open>max_jumps\<close> times, the pick is a step of a
  warm session, and it is the oldest such step.
\<close>

theorem af_pick_order:
  assumes "waiters \<noteq> []" and "af_config a = Some cfg"
  shows "af_pick a waiters now < length waiters \<and>
    (0 < af_pick a waiters now \<longrightarrow>
       now - fst (snd (waiters ! 0)) < max_bypass cfg \<and> snd (snd (waiters ! 0)) < max_jumps cfg \<and>
       favoured_opt a (fst (waiters ! af_pick a waiters now)) now \<and>
       (\<forall>j < af_pick a waiters now. \<not> favoured_opt a (fst (waiters ! j)) now))"
proof (cases "af_pick a waiters now")
  case 0
  then show ?thesis using assms(1) by simp
next
  case (Suc i)
  note J = af_pick_jump [OF Suc]
  show ?thesis using J assms(2) unfolding Suc by (auto simp: aged_def passed_out_def less_Suc_eq_le)
qed

theorem af_pick_order_witness:
  "let cfg = \<lparr>warm_ttl = 60, hold_for = 2, max_jumps = 4, max_bypass = 10, max_held_percent = 50\<rparr>;
       a = affinity_default\<lparr>af_config := Some cfg,
             af_sessions := [(''k/s'', session_default\<lparr>se_in_flight := 1\<rparr>)]\<rparr>;
       ws = [(None, 5, 1), (Some ''k/t'', 6, 0), (Some ''k/s'', 7, 0)]
   in af_pick a ws 8 = 2 \<and> favoured_opt a (fst (ws ! af_pick a ws 8)) 8"
  using af_pick_order [of "[(None, 5, 1), (Some ''k/t'', 6, 0), (Some ''k/s'', 7, 0)]"
      "affinity_default\<lparr>af_config := Some \<lparr>warm_ttl = 60, hold_for = 2, max_jumps = 4, max_bypass = 10, max_held_percent = 50\<rparr>,
             af_sessions := [(''k/s'', session_default\<lparr>se_in_flight := 1\<rparr>)]\<rparr>"
      "\<lparr>warm_ttl = 60, hold_for = 2, max_jumps = 4, max_bypass = 10, max_held_percent = 50\<rparr>" 8]
  by (simp add: af_pick_def aged_def passed_out_def favoured_opt_def favoured_def warm_def
      affinity_default_def session_default_def recently_done_def Let_def)

text \<open>
  The head is not always the most often passed: a claim that was denied puts its request back in
  front of requests that were passed while it was away. One that has been passed as often as it may
  be is then passed once more.
\<close>

lemma af_pick_over_passed_out:
  "af_config a \<noteq> None \<Longrightarrow> \<not> aged a e0 now \<Longrightarrow> \<not> passed_out a 0 \<Longrightarrow> \<not> favoured_opt a s0 now \<Longrightarrow>
     passed_out a n \<Longrightarrow> \<not> favoured_opt a s1 now \<Longrightarrow> favoured_opt a s2 now \<Longrightarrow>
     af_pick a [(s0, e0, 0), (s1, e1, n), (s2, e2, 0)] now = 2"
  by (auto simp: af_pick_def)


text \<open>
  Session names. The scheduler's session id keeps the sessions of different keys apart: two
  scoped ids are equal only for the same key and the same session (key texts have one length).
\<close>

theorem scoped_separates_keys:
  "length k = length k' \<Longrightarrow> scoped k s = scoped k' s' \<longleftrightarrow> k = k' \<and> s = s'"
  by (rule scoped_inj)

theorem scoped_separates_keys_witness: "scoped ''k1'' ''s'' \<noteq> scoped ''k2'' ''s''"
  using scoped_separates_keys [of "''k1''" "''k2''" "''s''" "''s''"] by simp

end
