(* ===== verification/Admit.thy ===== *)
theory Admit
  imports Affinity
begin

text \<open>
  The values that cross the scheduler's boundary (\<open>obleth-fairshare/src/lib.rs\<close>): pool keys and
  their ids in the shared slot backend, admission requests and their builders, permits and the
  \<open>Admitted\<close> a caller is sent. A \<open>oneshot::Sender\<close> is the number of the call it answers.
  Dropping a \<open>Permit\<close> sends one \<open>Release\<close> message, which the scheduler's model takes as a step
  of its environment.
\<close>

datatype pool_key = Model string | Unrouted

definition UNROUTED_POOL :: string where
  "UNROUTED_POOL = ''(unrouted)''"

definition display_name :: "pool_key \<Rightarrow> string" where
  "display_name k = (case k of Model name \<Rightarrow> name | Unrouted \<Rightarrow> UNROUTED_POOL)"

definition slot_id :: "pool_key \<Rightarrow> string" where
  "slot_id k = (case k of Model name \<Rightarrow> ''m:'' @ name | Unrouted \<Rightarrow> ''u'')"

definition strip_prefix :: "string \<Rightarrow> string \<Rightarrow> string option" where
  "strip_prefix pre s = (if take (length pre) s = pre then Some (drop (length pre) s) else None)"

definition from_slot_id :: "string \<Rightarrow> pool_key option" where
  "from_slot_id i = (if i = ''u'' then Some Unrouted else map_option Model (strip_prefix ''m:'' i))"

record end_user =
  eu_parent_key :: uuid
  eu_name :: string

datatype pool_affinity = Scheduler | ModelAffinity "session_affinity_config option"

record admit_request =
  rq_tenant :: uuid
  rq_key :: uuid
  rq_weight :: int
  rq_key_weight :: int
  rq_group :: string
  rq_group_weight :: int
  rq_model :: string
  rq_model_max_in_flight :: "nat option"
  rq_tenant_max_in_flight :: "nat option"
  rq_key_max_in_flight :: "nat option"
  rq_cost :: nat
  rq_end_user :: "end_user option"
  rq_session :: "string option"
  rq_affinity :: pool_affinity

definition admit_request_new :: "uuid \<Rightarrow> string \<Rightarrow> nat \<Rightarrow> admit_request" where
  "admit_request_new tenant model cost =
     \<lparr>rq_tenant = tenant, rq_key = tenant, rq_weight = 100, rq_key_weight = 100,
      rq_group = ''default'', rq_group_weight = 100, rq_model = model,
      rq_model_max_in_flight = None, rq_tenant_max_in_flight = None, rq_key_max_in_flight = None,
      rq_cost = cost, rq_end_user = None, rq_session = None, rq_affinity = Scheduler\<rparr>"

definition rq_with_weight :: "int \<Rightarrow> admit_request \<Rightarrow> admit_request" where
  "rq_with_weight w r = r\<lparr>rq_weight := w\<rparr>"

definition rq_weighted :: "uuid \<Rightarrow> int \<Rightarrow> nat \<Rightarrow> admit_request" where
  "rq_weighted tenant w cost = rq_with_weight w (admit_request_new tenant ''default'' cost)"

definition rq_with_key :: "uuid \<Rightarrow> int \<Rightarrow> admit_request \<Rightarrow> admit_request" where
  "rq_with_key k w r = r\<lparr>rq_key := k, rq_key_weight := w\<rparr>"

definition rq_with_group :: "string \<Rightarrow> int \<Rightarrow> admit_request \<Rightarrow> admit_request" where
  "rq_with_group name w r = r\<lparr>rq_group := name, rq_group_weight := w\<rparr>"

definition rq_model_cap :: "nat \<Rightarrow> admit_request \<Rightarrow> admit_request" where
  "rq_model_cap cap r = r\<lparr>rq_model_max_in_flight := Some cap\<rparr>"

definition rq_tenant_cap :: "nat \<Rightarrow> admit_request \<Rightarrow> admit_request" where
  "rq_tenant_cap cap r = r\<lparr>rq_tenant_max_in_flight := Some cap\<rparr>"

definition rq_key_cap :: "nat \<Rightarrow> admit_request \<Rightarrow> admit_request" where
  "rq_key_cap cap r = r\<lparr>rq_key_max_in_flight := Some cap\<rparr>"

definition rq_with_end_user :: "uuid \<Rightarrow> string \<Rightarrow> admit_request \<Rightarrow> admit_request" where
  "rq_with_end_user parent name r =
     r\<lparr>rq_end_user := Some \<lparr>eu_parent_key = parent, eu_name = name\<rparr>\<rparr>"

definition rq_with_session :: "string \<Rightarrow> admit_request \<Rightarrow> admit_request" where
  "rq_with_session s r = r\<lparr>rq_session := (if s = [] then None else Some s)\<rparr>"

definition rq_session_affinity :: "session_affinity_config option \<Rightarrow> admit_request \<Rightarrow> admit_request" where
  "rq_session_affinity c r = r\<lparr>rq_affinity := ModelAffinity c\<rparr>"

datatype admission = Fast | Queued | Rejected

definition admission_as_str :: "admission \<Rightarrow> string" where
  "admission_as_str a = (case a of Fast \<Rightarrow> ''fast'' | Queued \<Rightarrow> ''queued'' | Rejected \<Rightarrow> ''rejected'')"

type_synonym respond = nat

record permit =
  pm_tenant :: uuid
  pm_key :: uuid
  pm_pool :: pool_key
  pm_session :: "string option"

record admitted =
  ad_respond :: respond
  ad_permit :: permit
  ad_admission :: admission
  ad_waited :: duration

record grant =
  g_tenant :: uuid
  g_key :: uuid
  g_session :: "string option"
  g_jumped :: bool

definition grant_new :: "uuid \<Rightarrow> uuid \<Rightarrow> string option \<Rightarrow> bool \<Rightarrow> grant" where
  "grant_new tenant key session jumped =
     \<lparr>g_tenant = tenant, g_key = key, g_session = session, g_jumped = jumped\<rparr>"

definition hold_id :: "pool_key \<Rightarrow> string \<Rightarrow> string" where
  "hold_id pool session = slot_id pool @ ''|'' @ session"

section \<open>Properties\<close>

text \<open>
  C39: Pool ids in the shared backend. Every replica reads back the pool an id was made from, two
  pools never share an id (a model named \<open>u\<close> is not the unrouted pool), and an id that no pool
  has is refused.
\<close>

theorem slot_id_round_trip:
  "from_slot_id (slot_id k) = Some k \<and>
   (from_slot_id i = Some k \<longleftrightarrow> i = slot_id k)"
proof (cases k)
  case (Model name)
  have "take 2 i = ''m:'' \<and> drop 2 i = name \<longleftrightarrow> i = ''m:'' @ name"
  proof
    assume "take 2 i = ''m:'' \<and> drop 2 i = name"
    then show "i = ''m:'' @ name" using append_take_drop_id [of 2 i] by metis
  qed simp
  then show ?thesis
    by (auto simp: from_slot_id_def slot_id_def strip_prefix_def Model numeral_2_eq_2)
next
  case Unrouted
  then show ?thesis by (auto simp: from_slot_id_def slot_id_def strip_prefix_def)
qed

end
