(* ===== verification/Tenant_Queue.thy ===== *)
theory Tenant_Queue
  imports Admit
begin

text \<open>
  A tenant's backlog, one queue per key (\<open>Waiter\<close> and \<open>TenantQueue\<close> of
  \<open>obleth-fairshare/src/lib.rs\<close>). \<open>tq_ok\<close> is its invariant: the length field is the number of
  waiters and no key is listed with an empty queue.
\<close>

record waiter =
  w_weight :: int
  w_key_weight :: int
  w_group :: string
  w_group_weight :: int
  w_tenant_max_in_flight :: "nat option"
  w_key_max_in_flight :: "nat option"
  w_cost :: nat
  w_end_user :: "end_user option"
  w_session :: "string option"
  w_jumped :: bool
  w_probed :: bool
  w_passed :: nat
  w_enqueued :: instant
  w_fast :: bool
  w_respond :: respond

record tenant_queue =
  tq_keys :: "(uuid, waiter list) hmap"
  tq_len :: nat

definition tenant_queue_default :: tenant_queue where
  "tenant_queue_default = \<lparr>tq_keys = [], tq_len = 0\<rparr>"

definition tq_is_empty :: "tenant_queue \<Rightarrow> bool" where
  "tq_is_empty q = (tq_len q = 0)"

definition tq_push :: "uuid \<Rightarrow> waiter \<Rightarrow> tenant_queue \<Rightarrow> tenant_queue" where
  "tq_push key w q =
     q\<lparr>tq_keys := AList.update key (get_or [] (tq_keys q) key @ [w]) (tq_keys q),
       tq_len := tq_len q + 1\<rparr>"

definition insert_nth :: "nat \<Rightarrow> 'a \<Rightarrow> 'a list \<Rightarrow> 'a list" where
  "insert_nth i x xs = take i xs @ x # drop i xs"

definition tq_reinsert :: "uuid \<Rightarrow> waiter \<Rightarrow> tenant_queue \<Rightarrow> tenant_queue" where
  "tq_reinsert key w q =
     (let queue = get_or [] (tq_keys q) key;
          at = (case position (\<lambda>v. w_enqueued w < w_enqueued v) queue of
                  None \<Rightarrow> length queue | Some i \<Rightarrow> i)
      in q\<lparr>tq_keys := AList.update key (insert_nth at w queue) (tq_keys q),
           tq_len := tq_len q + 1\<rparr>)"

definition tq_pop_at :: "uuid \<Rightarrow> nat \<Rightarrow> tenant_queue \<Rightarrow> (tenant_queue \<times> waiter) option" where
  "tq_pop_at key at q =
     (case map_of (tq_keys q) key of
        None \<Rightarrow> None
      | Some queue \<Rightarrow>
          if at < length queue then
            (let rest = remove_nth at queue
             in Some (q\<lparr>tq_keys := (if rest = [] then AList.delete key (tq_keys q)
                                     else AList.update key rest (tq_keys q)),
                        tq_len := tq_len q - 1\<rparr>, queue ! at))
          else None)"

definition tq_key_len :: "uuid \<Rightarrow> tenant_queue \<Rightarrow> nat" where
  "tq_key_len key q = (case map_of (tq_keys q) key of None \<Rightarrow> 0 | Some d \<Rightarrow> length d)"

section \<open>Invariant\<close>

definition tq_ok :: "tenant_queue \<Rightarrow> bool" where
  "tq_ok q \<longleftrightarrow> hmap_ok (tq_keys q) \<and> tq_len q = msum length (tq_keys q) \<and>
     vals_ok (\<lambda>d. d \<noteq> []) (tq_keys q)"

definition key_queue :: "tenant_queue \<Rightarrow> uuid \<Rightarrow> waiter list" where
  "key_queue q key = get_or [] (tq_keys q) key"

lemma key_queue_length [simp]: "length (key_queue q key) = tq_key_len key q"
  by (simp add: key_queue_def tq_key_len_def get_or_def split: option.splits)

lemma tq_ok_default [simp]: "tq_ok tenant_queue_default"
  by (simp add: tq_ok_def tenant_queue_default_def)

lemma length_insert_nth [simp]: "length (insert_nth i x xs) = Suc (length xs)"
  by (simp add: insert_nth_def)

lemma mset_insert_nth [simp]: "mset (insert_nth i x xs) = add_mset x (mset xs)"
  by (metis insert_nth_def mset_append union_mset_add_mset_right mset.simps(2) append_take_drop_id)

lemma insert_nth_not_Nil [simp]: "insert_nth i x xs \<noteq> []"
  by (simp add: insert_nth_def)

lemma tq_put_ok:
  assumes "tq_ok q" and "length d = Suc (length (get_or [] (tq_keys q) key))"
  shows "tq_ok (q\<lparr>tq_keys := AList.update key d (tq_keys q), tq_len := tq_len q + 1\<rparr>)"
proof -
  have "d \<noteq> []" using assms(2) by auto
  then show ?thesis
    using assms msum_get_update [of "tq_keys q" length "[]" key d] by (auto simp: tq_ok_def)
qed

lemma tq_push_ok [intro]: "tq_ok q \<Longrightarrow> tq_ok (tq_push key w q)"
  unfolding tq_push_def by (rule tq_put_ok) simp_all

lemma tq_reinsert_ok [intro]: "tq_ok q \<Longrightarrow> tq_ok (tq_reinsert key w q)"
  unfolding tq_reinsert_def Let_def by (rule tq_put_ok) simp_all

lemma tq_pop_ok:
  assumes "tq_ok q" and "tq_pop_at key at q = Some (q', w)"
  shows "tq_ok q'" and "tq_len q = Suc (tq_len q')"
proof -
  obtain d where d: "map_of (tq_keys q) key = Some d" "at < length d" "w = d ! at"
    and q': "q' = q\<lparr>tq_keys := (if remove_nth at d = [] then AList.delete key (tq_keys q)
                 else AList.update key (remove_nth at d) (tq_keys q)), tq_len := tq_len q - 1\<rparr>"
    using assms(2) by (auto simp: tq_pop_at_def Let_def split: option.splits if_splits)
  have h: "hmap_ok (tq_keys q)" and l: "tq_len q = msum length (tq_keys q)"
    and n: "vals_ok (\<lambda>d. d \<noteq> []) (tq_keys q)"
    using assms(1) by (auto simp: tq_ok_def)
  have "length d \<le> msum length (tq_keys q)" using d(1) by (rule msum_member_le)
  then have p: "0 < tq_len q" using d(2) l by simp
  then show "tq_len q = Suc (tq_len q')" by (simp add: q')
  have g: "get_or [] (tq_keys q) key = d" using d(1) by (rule get_or_Some)
  show "tq_ok q'"
  proof (cases "remove_nth at d = []")
    case True
    then have "length d = 1" using length_remove_nth [OF d(2)] d(2) by simp
    then show ?thesis
      using True h l n msum_get_delete [OF h, of length "[]" key] g by (auto simp: q' tq_ok_def)
  next
    case False
    then show ?thesis
      using h l n p length_remove_nth [OF d(2)] d(2) g
        msum_get_update [OF h, of length "[]" key "remove_nth at d"] by (auto simp: q' tq_ok_def)
  qed
qed

lemma tq_pop_Some:
  "at < tq_key_len key q \<Longrightarrow> \<exists>q'. tq_pop_at key at q = Some (q', key_queue q key ! at)"
  by (auto simp: tq_key_len_def tq_pop_at_def key_queue_def Let_def get_or_def split: option.splits)

section \<open>The waiting line of each key\<close>

lemma key_queue_push:
  "key_queue (tq_push key w q) k = (if k = key then key_queue q key @ [w] else key_queue q k)"
  by (simp add: key_queue_def tq_push_def)

lemma key_queue_pop:
  "tq_pop_at key at q = Some (q', w) \<Longrightarrow>
   key_queue q' k = (if k = key then remove_nth at (key_queue q key) else key_queue q k)"
  by (auto simp: key_queue_def tq_pop_at_def Let_def get_or_def split: option.splits if_splits)

lemma key_queue_pop_Some:
  "tq_pop_at key at q = Some (q', w) \<Longrightarrow> at < length (key_queue q key) \<and> w = key_queue q key ! at"
  by (auto simp: tq_pop_at_def key_queue_def Let_def get_or_def tq_key_len_def split: option.splits if_splits)

text \<open>Reinsertion keeps arrival order, and puts a waiter after those that arrived no later.\<close>

lemma insert_before_first_later:
  fixes f :: "'a \<Rightarrow> nat"
  assumes "sorted (map f xs)"
    and "at = (case position (\<lambda>v. f w < f v) xs of None \<Rightarrow> length xs | Some i \<Rightarrow> i)"
  shows "sorted (map f (insert_nth at w xs))"
proof -
  have le: "at \<le> length xs" using assms(2) by (auto split: option.splits dest: position_Some)
  have a: "f x \<le> f w" if x: "x \<in> set (take at xs)" for x
  proof -
    obtain j where j: "j < at" "x = xs ! j" using x le by (auto simp: in_set_conv_nth)
    show ?thesis
    proof (cases "position (\<lambda>v. f w < f v) xs")
      case None
      then show ?thesis using x by (auto simp: position_None not_less dest: in_set_takeD)
    next
      case (Some i)
      then show ?thesis using j assms(2) by (auto simp: not_less dest: position_Some)
    qed
  qed
  have b: "f w \<le> f x" if x: "x \<in> set (drop at xs)" for x
  proof (cases "position (\<lambda>v. f w < f v) xs")
    case None
    then show ?thesis using x assms(2) by simp
  next
    case (Some i)
    then have i: "at = i" "i < length xs" "f w < f (xs ! i)" using assms(2) position_Some by auto
    have "drop i xs = xs ! i # drop (Suc i) xs" using i by (simp add: Cons_nth_drop_Suc)
    moreover have "sorted (map f (drop i xs))" using assms(1) by (metis drop_map sorted_wrt_drop)
    ultimately have "f (xs ! i) \<le> f x" using x i(1) by auto
    then show ?thesis using i(3) by simp
  qed
  have "sorted (map f (take at xs @ drop at xs))" using assms(1) by simp
  then show ?thesis using a b by (auto simp: insert_nth_def sorted_append simp del: append_take_drop_id)
qed

lemma key_queue_reinsert:
  "key_queue (tq_reinsert key w q) k =
     (if k = key then insert_nth (case position (\<lambda>v. w_enqueued w < w_enqueued v) (key_queue q key) of
                        None \<Rightarrow> length (key_queue q key) | Some i \<Rightarrow> i) w (key_queue q key)
      else key_queue q k)"
  unfolding key_queue_def tq_reinsert_def Let_def by simp

lemma remove_nth_sorted: "sorted (map f xs) \<Longrightarrow> sorted (map f (remove_nth i xs))"
  for f :: "'a \<Rightarrow> nat"
proof -
  assume "sorted (map f xs)"
  then have "sorted (map f (take i xs @ drop i xs))" by simp
  then have a: "sorted (map f (take i xs))" "sorted (map f (drop i xs))"
    "\<forall>x \<in> set (take i xs). \<forall>y \<in> set (drop i xs). f x \<le> f y"
    unfolding map_append sorted_append by auto
  have s: "drop (Suc i) xs = tl (drop i xs)" by (simp add: drop_Suc tl_drop)
  have "sorted (map f (tl (drop i xs)))" using a(2) by (cases "drop i xs") auto
  then show ?thesis
    using a by (cases "drop i xs") (auto simp: remove_nth_def sorted_append s)
qed

end
