(* ===== verification/Pool.thy ===== *)
theory Pool
  imports Tenant_Queue Caps Replicas "HOL-Library.Product_Lexorder"
begin

text \<open>
  One model's scheduling pool (\<open>Pool\<close> of \<open>obleth-fairshare/src/lib.rs\<close>): the slots in use, the
  backlog per tenant and key, the service each has received, and every operation the scheduler
  calls on it.

  \<^item> \<open>now\<close> is the clock reading of the message being handled, \<open>dead r\<close> tells whether the caller
    waiting on \<open>r\<close> has gone (\<open>respond.is_closed()\<close>).
  \<^item> A grant is returned as a value of type \<open>admitted\<close>; the source sends it to its caller.
  \<^item> \<open>usize\<close> counters are natural numbers. Where the source subtracts without a check, or calls
    \<open>expect\<close>, the invariants of \<open>Pool_Inv\<close> show that the case does not arise.
  \<^item> Sets built inside one call are iterated in the order of their first elements.
\<close>

section \<open>State\<close>

datatype hold_in = InPool | InBackend | Nowhere

datatype step_end = StepRelease | StepHeld | HoldInBackend string instant

record pending_claim =
  pc_tenant :: uuid
  pc_key :: uuid
  pc_waiter :: waiter

record pool =
  p_key :: pool_key
  p_model :: string
  p_algorithm :: fairshare_algorithm
  p_cap :: nat
  p_configured_cap :: nat
  p_divisor :: nat
  p_in_flight :: nat
  p_queued_total :: nat
  p_tenant_in_flight :: "(uuid, nat) hmap"
  p_tenant_group :: "(uuid, string) hmap"
  p_group_weight :: "(string, int) hmap"
  p_tenant_weight :: "(uuid, int) hmap"
  p_tenant_cap :: "(uuid, nat) hmap"
  p_queues :: "(uuid, tenant_queue) hmap"
  p_served :: "(uuid, f64) hmap"
  p_served_base :: "(uuid, f64) hmap"
  p_key_in_flight :: "(uuid, nat) hmap"
  p_key_served :: "(uuid, f64) hmap"
  p_key_weight :: "(uuid, int) hmap"
  p_key_cap :: "(uuid, nat) hmap"
  p_key_tenant :: "(uuid, uuid) hmap"
  p_key_end_user :: "(uuid, end_user) hmap"
  p_virtual_time :: f64
  p_idle_since :: "instant option"
  p_pending :: "(nat, pending_claim) hmap"
  p_probing :: bool
  p_blocked :: bool
  p_blocked_tenants :: "uuid list"
  p_blocked_keys :: "uuid list"
  p_cluster_in_flight :: "nat option"
  p_affinity :: affinity
  p_affinity_source :: pool_affinity

definition pool_new :: "pool_key \<Rightarrow> fairshare_algorithm \<Rightarrow> nat \<Rightarrow> pool" where
  "pool_new key algorithm cap =
     \<lparr>p_key = key, p_model = display_name key, p_algorithm = algorithm,
      p_cap = max cap 1, p_configured_cap = max cap 1, p_divisor = 1,
      p_in_flight = 0, p_queued_total = 0, p_tenant_in_flight = [], p_tenant_group = [],
      p_group_weight = [], p_tenant_weight = [], p_tenant_cap = [], p_queues = [],
      p_served = [], p_served_base = [], p_key_in_flight = [], p_key_served = [],
      p_key_weight = [], p_key_cap = [], p_key_tenant = [], p_key_end_user = [],
      p_virtual_time = 0, p_idle_since = None, p_pending = [], p_probing = False,
      p_blocked = False, p_blocked_tenants = [], p_blocked_keys = [], p_cluster_in_flight = None,
      p_affinity = affinity_default, p_affinity_source = Scheduler\<rparr>"

section \<open>Limits\<close>

definition set_configured_cap :: "nat \<Rightarrow> pool \<Rightarrow> pool" where
  "set_configured_cap configured p =
     p\<lparr>p_configured_cap := max configured 1, p_cap := replica_share (max configured 1) (p_divisor p)\<rparr>"

definition set_divisor :: "nat \<Rightarrow> pool \<Rightarrow> pool" where
  "set_divisor divisor p =
     p\<lparr>p_divisor := max divisor 1, p_cap := replica_share (p_configured_cap p) (max divisor 1)\<rparr>"

definition tenant_limit :: "pool \<Rightarrow> uuid \<Rightarrow> nat option" where
  "tenant_limit p tenant =
     map_option (\<lambda>cap. replica_share cap (p_divisor p)) (map_of (p_tenant_cap p) tenant)"

definition key_limit :: "pool \<Rightarrow> uuid \<Rightarrow> nat option" where
  "key_limit p key =
     map_option (\<lambda>cap. replica_share cap (p_divisor p)) (map_of (p_key_cap p) key)"

definition unblock :: "pool \<Rightarrow> pool" where
  "unblock p = p\<lparr>p_blocked := False, p_blocked_tenants := [], p_blocked_keys := []\<rparr>"

text \<open>\<open>match value.filter(..) { Some(v) => map.insert(k, v), None => map.remove(k) }\<close>.\<close>

definition set_or_remove :: "'k \<Rightarrow> 'v option \<Rightarrow> ('k, 'v) hmap \<Rightarrow> ('k, 'v) hmap" where
  "set_or_remove k v m = (case v of Some x \<Rightarrow> AList.update k x m | None \<Rightarrow> AList.delete k m)"

definition positive :: "nat option \<Rightarrow> nat option" where
  "positive c = (case c of Some n \<Rightarrow> if 0 < n then Some n else None | None \<Rightarrow> None)"

definition track_meta :: "admit_request \<Rightarrow> pool \<Rightarrow> pool" where
  "track_meta req p =
     p\<lparr>p_tenant_weight := AList.update (rq_tenant req) (max (rq_weight req) 1) (p_tenant_weight p),
       p_tenant_group := AList.update (rq_tenant req) (rq_group req) (p_tenant_group p),
       p_group_weight := AList.update (rq_group req) (max (rq_group_weight req) 1) (p_group_weight p),
       p_key_weight := AList.update (rq_key req) (max (rq_key_weight req) 1) (p_key_weight p),
       p_key_tenant := AList.update (rq_key req) (rq_tenant req) (p_key_tenant p),
       p_key_end_user := set_or_remove (rq_key req) (rq_end_user req) (p_key_end_user p),
       p_tenant_cap := set_or_remove (rq_tenant req) (positive (rq_tenant_max_in_flight req)) (p_tenant_cap p),
       p_key_cap := set_or_remove (rq_key req) (positive (rq_key_max_in_flight req)) (p_key_cap p)\<rparr>"

definition track_waiter_meta :: "uuid \<Rightarrow> uuid \<Rightarrow> waiter \<Rightarrow> pool \<Rightarrow> pool" where
  "track_waiter_meta tenant key w p =
     p\<lparr>p_tenant_weight := AList.update tenant (max (w_weight w) 1) (p_tenant_weight p),
       p_tenant_group := AList.update tenant (w_group w) (p_tenant_group p),
       p_group_weight := AList.update (w_group w) (max (w_group_weight w) 1) (p_group_weight p),
       p_key_weight := AList.update key (max (w_key_weight w) 1) (p_key_weight p),
       p_key_tenant := AList.update key tenant (p_key_tenant p),
       p_key_end_user := set_or_remove key (w_end_user w) (p_key_end_user p),
       p_tenant_cap := set_or_remove tenant (positive (w_tenant_max_in_flight w)) (p_tenant_cap p),
       p_key_cap := set_or_remove key (positive (w_key_max_in_flight w)) (p_key_cap p)\<rparr>"

definition tenant_has_slot :: "pool \<Rightarrow> uuid \<Rightarrow> bool" where
  "tenant_has_slot p tenant =
     (case tenant_limit p tenant of Some cap \<Rightarrow> get_or 0 (p_tenant_in_flight p) tenant < cap
      | None \<Rightarrow> True)"

definition key_has_slot :: "pool \<Rightarrow> uuid \<Rightarrow> bool" where
  "key_has_slot p key =
     (case key_limit p key of Some cap \<Rightarrow> get_or 0 (p_key_in_flight p) key < cap | None \<Rightarrow> True)"

definition key_open :: "pool \<Rightarrow> uuid \<Rightarrow> bool" where
  "key_open p key = (key_has_slot p key \<and> key \<notin> set (p_blocked_keys p))"

definition tenant_is_eligible :: "pool \<Rightarrow> uuid \<Rightarrow> bool" where
  "tenant_is_eligible p tenant =
     (if \<not> tenant_has_slot p tenant \<or> tenant \<in> set (p_blocked_tenants p) then False
      else case map_of (p_queues p) tenant of
             None \<Rightarrow> False
           | Some q \<Rightarrow> list_ex (\<lambda>(k, d). d \<noteq> [] \<and> key_open p k) (tq_keys q))"

definition group_in_flight :: "pool \<Rightarrow> string \<Rightarrow> nat" where
  "group_in_flight p grp =
     sum_list (map snd (filter (\<lambda>(tenant, n). 0 < n \<and> map_of (p_tenant_group p) tenant = Some grp)
       (p_tenant_in_flight p)))"

definition tenant_is_active :: "pool \<Rightarrow> uuid \<Rightarrow> bool" where
  "tenant_is_active p tenant =
     ((case map_of (p_queues p) tenant of None \<Rightarrow> False | Some q \<Rightarrow> \<not> tq_is_empty q) \<or>
      0 < get_or 0 (p_tenant_in_flight p) tenant)"

definition active_tenants_in_group :: "pool \<Rightarrow> string \<Rightarrow> uuid list" where
  "active_tenants_in_group p grp =
     remdups (filter (\<lambda>t. map_of (p_tenant_group p) t = Some grp \<and> tenant_is_active p t)
       (hkeys (p_queues p) @ hkeys (p_tenant_in_flight p)))"

definition tenant_slot_caps :: "pool \<Rightarrow> string \<Rightarrow> nat \<Rightarrow> (uuid, nat) hmap" where
  "tenant_slot_caps p grp group_cap =
     (let tenants = active_tenants_in_group p grp
      in if group_cap = 0 \<or> tenants = [] then []
         else weighted_caps group_cap
                (map (\<lambda>t. (t, max (get_or 1 (p_tenant_weight p) t) 1)) tenants))"

definition active_groups :: "pool \<Rightarrow> (string \<times> int) list" where
  "active_groups p =
     map (\<lambda>name. (name, max (get_or 100 (p_group_weight p) name) 1))
       (remdups (List.map_filter
          (\<lambda>t. case map_of (p_tenant_group p) t of
                  None \<Rightarrow> None | Some g \<Rightarrow> if tenant_is_active p t then Some g else None)
          (hkeys (p_queues p) @ hkeys (p_tenant_in_flight p))))"

definition effective_cap :: "nat \<Rightarrow> pool \<Rightarrow> nat" where
  "effective_cap headroom p = max (min (p_cap p) (p_in_flight p + headroom)) 1"

definition compute_group_caps :: "pool \<Rightarrow> nat \<Rightarrow> (string, nat) hmap" where
  "compute_group_caps p effective = group_slot_caps effective (active_groups p)"

definition can_grant_immediately :: "admit_request \<Rightarrow> nat \<Rightarrow> pool \<Rightarrow> bool" where
  "can_grant_immediately req effective p =
     (if effective \<le> p_in_flight p \<or> 0 < p_queued_total p then False
      else if \<not> tenant_has_slot p (rq_tenant req) \<or> \<not> key_has_slot p (rq_key req) then False
      else case p_algorithm p of
             Weighted \<Rightarrow> True
           | Hierarchical \<Rightarrow>
               group_in_flight p (rq_group req) <
                 get_or effective (compute_group_caps p effective) (rq_group req))"

section \<open>Granting\<close>

definition charge :: "uuid \<Rightarrow> uuid \<Rightarrow> nat \<Rightarrow> pool \<Rightarrow> pool" where
  "charge tenant key cost p =
     (let vt = p_virtual_time p
      in p\<lparr>p_served_base := (if contains_key (p_served p) tenant then p_served_base p
                              else AList.update tenant vt (p_served_base p)),
           p_served := AList.update tenant (fl (get_or vt (p_served p) tenant + fl (of_nat cost))) (p_served p),
           p_key_served := AList.update key (fl (get_or vt (p_key_served p) key + fl (of_nat cost))) (p_key_served p)\<rparr>)"

definition incr :: "'k \<Rightarrow> ('k, nat) hmap \<Rightarrow> ('k, nat) hmap" where
  "incr k m = AList.update k (get_or 0 m k + 1) m"

definition occupy :: "uuid \<Rightarrow> uuid \<Rightarrow> nat \<Rightarrow> pool \<Rightarrow> pool" where
  "occupy tenant key cost p =
     charge tenant key cost
       (p\<lparr>p_in_flight := p_in_flight p + 1,
          p_tenant_in_flight := incr tenant (p_tenant_in_flight p),
          p_key_in_flight := incr key (p_key_in_flight p)\<rparr>)"

definition make_admitted :: "pool \<Rightarrow> respond \<Rightarrow> grant \<Rightarrow> admission \<Rightarrow> duration \<Rightarrow> admitted" where
  "make_admitted p respond g admission waited =
     \<lparr>ad_respond = respond,
      ad_permit = \<lparr>pm_tenant = g_tenant g, pm_key = g_key g, pm_pool = p_key p, pm_session = g_session g\<rparr>,
      ad_admission = admission, ad_waited = waited\<rparr>"

definition u32_max :: nat where
  "u32_max = 2 ^ 32 - 1"

definition pass_over :: "waiter \<Rightarrow> waiter" where
  "pass_over w = w\<lparr>w_passed := min (w_passed w + 1) u32_max\<rparr>"

fun map_while :: "('a \<Rightarrow> bool) \<Rightarrow> ('a \<Rightarrow> 'a) \<Rightarrow> 'a list \<Rightarrow> 'a list" where
  "map_while P f [] = []"
| "map_while P f (x # xs) = (if P x then f x # map_while P f xs else x # xs)"

definition pass_earlier :: "uuid \<Rightarrow> uuid \<Rightarrow> instant \<Rightarrow> pool \<Rightarrow> pool" where
  "pass_earlier tenant key arrived p =
     (if \<not> af_on (p_affinity p) then p
      else case map_of (p_queues p) tenant of
             None \<Rightarrow> p
           | Some q \<Rightarrow>
               (case map_of (tq_keys q) key of
                  None \<Rightarrow> p
                | Some d \<Rightarrow>
                    p\<lparr>p_queues := AList.update tenant
                        (q\<lparr>tq_keys := AList.update key
                           (map_while (\<lambda>w. w_enqueued w < arrived) pass_over d) (tq_keys q)\<rparr>)
                        (p_queues p)\<rparr>))"

definition send_grant :: "instant \<Rightarrow> grant \<Rightarrow> respond \<Rightarrow> admission \<Rightarrow> duration \<Rightarrow> pool \<Rightarrow> pool \<times> admitted" where
  "send_grant now g respond admission waited p =
     (let arrived = (if waited \<le> now then now - waited else now);
          p = p\<lparr>p_affinity := af_granted (p_affinity p) (g_session g) (g_jumped g) arrived\<rparr>;
          p = (if g_jumped g then pass_earlier (g_tenant g) (g_key g) arrived p else p)
      in (p, make_admitted p respond g admission waited))"

definition grant_fast :: "instant \<Rightarrow> admit_request \<Rightarrow> respond \<Rightarrow> pool \<Rightarrow> pool \<times> admitted" where
  "grant_fast now req respond p =
     send_grant now (grant_new (rq_tenant req) (rq_key req) (rq_session req) False) respond Fast 0
       (occupy (rq_tenant req) (rq_key req) (rq_cost req) p)"

definition grant_held :: "instant \<Rightarrow> hold \<Rightarrow> admit_request \<Rightarrow> respond \<Rightarrow> pool \<Rightarrow> pool \<times> admitted" where
  "grant_held now h req respond p =
     (let p = charge (h_tenant h) (h_key h) (rq_cost req) p
      in send_grant now (grant_new (h_tenant h) (h_key h) (rq_session req) (0 < p_queued_total p))
           respond Fast 0 p)"

section \<open>Queueing\<close>

definition place_tenant :: "uuid \<Rightarrow> pool \<Rightarrow> pool" where
  "place_tenant tenant p =
     (let vt = p_virtual_time p
      in case map_of (p_served p) tenant of
           None \<Rightarrow> p\<lparr>p_served := AList.update tenant vt (p_served p),
                     p_served_base := AList.update tenant vt (p_served_base p)\<rparr>
         | Some served \<Rightarrow>
             if served < vt then
               p\<lparr>p_served_base := AList.update tenant
                   (fl (get_or 0 (p_served_base p) tenant + fl (vt - served))) (p_served_base p),
                 p_served := AList.update tenant vt (p_served p)\<rparr>
             else p)"

definition place_key :: "uuid \<Rightarrow> pool \<Rightarrow> pool" where
  "place_key key p =
     p\<lparr>p_key_served := AList.update key
         (let entry = get_or (p_virtual_time p) (p_key_served p) key
          in if entry < p_virtual_time p then p_virtual_time p else entry) (p_key_served p)\<rparr>"

definition waiter_of :: "admit_request \<Rightarrow> respond \<Rightarrow> instant \<Rightarrow> bool \<Rightarrow> waiter" where
  "waiter_of req respond enqueued fast =
     \<lparr>w_weight = rq_weight req, w_key_weight = rq_key_weight req, w_group = rq_group req,
      w_group_weight = rq_group_weight req, w_tenant_max_in_flight = rq_tenant_max_in_flight req,
      w_key_max_in_flight = rq_key_max_in_flight req, w_cost = rq_cost req,
      w_end_user = rq_end_user req, w_session = rq_session req, w_jumped = False, w_probed = False,
      w_passed = 0, w_enqueued = enqueued, w_fast = fast, w_respond = respond\<rparr>"

definition tenant_queue_empty :: "pool \<Rightarrow> uuid \<Rightarrow> bool" where
  "tenant_queue_empty p tenant =
     (case map_of (p_queues p) tenant of None \<Rightarrow> True | Some q \<Rightarrow> tq_is_empty q)"

definition queued_key_len :: "pool \<Rightarrow> uuid \<Rightarrow> uuid \<Rightarrow> nat" where
  "queued_key_len p tenant key =
     (case map_of (p_queues p) tenant of None \<Rightarrow> 0 | Some q \<Rightarrow> tq_key_len key q)"

definition put_queue :: "(tenant_queue \<Rightarrow> tenant_queue) \<Rightarrow> uuid \<Rightarrow> pool \<Rightarrow> pool" where
  "put_queue f tenant p =
     p\<lparr>p_queues := AList.update tenant (f (get_or tenant_queue_default (p_queues p) tenant)) (p_queues p),
       p_queued_total := p_queued_total p + 1\<rparr>"

definition enqueue :: "admit_request \<Rightarrow> respond \<Rightarrow> instant \<Rightarrow> bool \<Rightarrow> pool \<Rightarrow> pool" where
  "enqueue req respond enqueued fast p =
     (let p = (if tenant_queue_empty p (rq_tenant req) then place_tenant (rq_tenant req) p else p);
          p = (if queued_key_len p (rq_tenant req) (rq_key req) = 0 then place_key (rq_key req) p else p)
      in put_queue (tq_push (rq_key req) (waiter_of req respond enqueued fast)) (rq_tenant req) p)"

text \<open>
  Taking the waiter at place \<open>i\<close> of a key's queue: \<open>pop_at\<close>, dropping the tenant's queue when it
  empties, and one waiter fewer. \<open>None\<close> stands for a failed \<open>expect\<close>.
\<close>

definition pop_waiter :: "uuid \<Rightarrow> uuid \<Rightarrow> nat \<Rightarrow> pool \<Rightarrow> (pool \<times> waiter) option" where
  "pop_waiter tenant key i p =
     (case map_of (p_queues p) tenant of
        None \<Rightarrow> None
      | Some q \<Rightarrow>
          (case tq_pop_at key i q of
             None \<Rightarrow> None
           | Some (q', w) \<Rightarrow>
               Some (p\<lparr>p_queues := (if tq_is_empty q' then AList.delete tenant (p_queues p)
                                     else AList.update tenant q' (p_queues p)),
                       p_queued_total := p_queued_total p - 1\<rparr>, w)))"

definition deque :: "pool \<Rightarrow> uuid \<Rightarrow> uuid \<Rightarrow> waiter list" where
  "deque p tenant key =
     (case map_of (p_queues p) tenant of None \<Rightarrow> [] | Some q \<Rightarrow> key_queue q key)"

definition advance_virtual_time :: "pool \<Rightarrow> pool" where
  "advance_virtual_time p =
     (case list_min (List.map_filter (\<lambda>(t, q). if tq_is_empty q then None else map_of (p_served p) t)
                       (p_queues p)) of
        None \<Rightarrow> p
      | Some min_active \<Rightarrow> p\<lparr>p_virtual_time := min_active\<rparr>)"

definition forget_key :: "uuid \<Rightarrow> pool \<Rightarrow> pool" where
  "forget_key key p =
     p\<lparr>p_key_served := AList.delete key (p_key_served p),
       p_key_weight := AList.delete key (p_key_weight p),
       p_key_cap := AList.delete key (p_key_cap p),
       p_key_tenant := AList.delete key (p_key_tenant p),
       p_key_end_user := AList.delete key (p_key_end_user p)\<rparr>"

definition forget_tenant :: "uuid \<Rightarrow> pool \<Rightarrow> pool" where
  "forget_tenant tenant p =
     p\<lparr>p_served := AList.delete tenant (p_served p),
       p_served_base := AList.delete tenant (p_served_base p),
       p_tenant_weight := AList.delete tenant (p_tenant_weight p),
       p_tenant_group := AList.delete tenant (p_tenant_group p),
       p_tenant_cap := AList.delete tenant (p_tenant_cap p),
       p_queues := AList.delete tenant (p_queues p)\<rparr>"

definition forget_if_quiet :: "uuid \<Rightarrow> uuid \<Rightarrow> pool \<Rightarrow> pool" where
  "forget_if_quiet tenant key p =
     (let p = (if queued_key_len p tenant key = 0 \<and> \<not> contains_key (p_key_in_flight p) key \<and>
                  get_or 0 (p_key_served p) key \<le> p_virtual_time p
               then forget_key key p else p);
          tenant_queued = (case map_of (p_queues p) tenant of None \<Rightarrow> 0 | Some q \<Rightarrow> tq_len q)
      in if tenant_queued = 0 \<and> \<not> contains_key (p_tenant_in_flight p) tenant \<and>
            get_or 0 (p_served p) tenant \<le> p_virtual_time p
         then forget_tenant tenant p else p)"

section \<open>Picking\<close>

definition tenant_score :: "pool \<Rightarrow> uuid \<Rightarrow> f64" where
  "tenant_score p tenant =
     fl (get_or 0 (p_served p) tenant / fl (of_int (max (get_or 1 (p_tenant_weight p) tenant) 1)))"

definition pick_candidates :: "pool \<Rightarrow> uuid list" where
  "pick_candidates p =
     map fst (filter (\<lambda>(tenant, q). \<not> tq_is_empty q \<and> tenant_is_eligible p tenant) (p_queues p))"

definition pick_tenant_weighted :: "pool \<Rightarrow> uuid option" where
  "pick_tenant_weighted p = min_by (tenant_score p) (pick_candidates p)"

definition group_service :: "pool \<Rightarrow> (string, f64) hmap" where
  "group_service p =
     fold (\<lambda>(tenant, s) by_group.
        case map_of (p_tenant_group p) tenant of
          None \<Rightarrow> by_group
        | Some g \<Rightarrow>
            AList.update g (fl (get_or 0 by_group g +
              max (fl (s - get_or 0 (p_served_base p) tenant)) 0)) by_group)
       (p_served p) []"

definition in_flight_by_group :: "pool \<Rightarrow> (string, nat) hmap" where
  "in_flight_by_group p =
     fold (\<lambda>(tenant, n) by_group.
        if 0 < n then
          case map_of (p_tenant_group p) tenant of
            None \<Rightarrow> by_group
          | Some g \<Rightarrow> AList.update g (get_or 0 by_group g + n) by_group
        else by_group)
       (p_tenant_in_flight p) []"

definition group_of :: "pool \<Rightarrow> uuid \<Rightarrow> string" where
  "group_of p tenant = get_or ''default'' (p_tenant_group p) tenant"

definition group_score :: "pool \<Rightarrow> uuid \<Rightarrow> f64" where
  "group_score p tenant =
     (let grp = group_of p tenant
      in fl (get_or 0 (group_service p) grp /
             fl (of_int (max (get_or 100 (p_group_weight p) grp) 1))))"

definition within_group_cap :: "pool \<Rightarrow> nat \<Rightarrow> uuid \<Rightarrow> bool" where
  "within_group_cap p effective tenant =
     (let grp = group_of p tenant;
          cap = get_or effective (compute_group_caps p effective) grp;
          tenant_cap = get_or cap (tenant_slot_caps p grp cap) tenant
      in get_or 0 (in_flight_by_group p) grp < cap \<and>
         get_or 0 (p_tenant_in_flight p) tenant < tenant_cap)"

definition f64_epsilon :: f64 where
  "f64_epsilon = 2 powi (- 52)"

definition pick_tenant_hierarchical :: "nat \<Rightarrow> pool \<Rightarrow> uuid option" where
  "pick_tenant_hierarchical effective p =
     (let borrowable = map (\<lambda>t. (t, group_score p t)) (pick_candidates p);
          eligible = filter (\<lambda>(t, _). within_group_cap p effective t) borrowable;
          pool = (if eligible = [] then borrowable else eligible)
      in case list_min (map snd pool) of
           None \<Rightarrow> None
         | Some min_group_score \<Rightarrow>
             map_option fst
               (min_by (\<lambda>(t, _). tenant_score p t)
                  (filter (\<lambda>(_, s). \<not> (f64_epsilon < \<bar>fl (s - min_group_score)\<bar> \<and> min_group_score < s))
                     pool)))"

definition pick_tenant :: "nat \<Rightarrow> pool \<Rightarrow> uuid option" where
  "pick_tenant effective p =
     (case p_algorithm p of
        Weighted \<Rightarrow> pick_tenant_weighted p
      | Hierarchical \<Rightarrow> pick_tenant_hierarchical effective p)"

definition key_score :: "pool \<Rightarrow> uuid \<Rightarrow> f64" where
  "key_score p key =
     fl (get_or 0 (p_key_served p) key / fl (of_int (max (get_or 1 (p_key_weight p) key) 1)))"

definition pick_key :: "pool \<Rightarrow> uuid \<Rightarrow> uuid option" where
  "pick_key p tenant =
     (case map_of (p_queues p) tenant of
        None \<Rightarrow> None
      | Some q \<Rightarrow>
          map_option fst
            (min_by (\<lambda>(key, d). (key_score p key, w_enqueued (hd d)))
               (filter (\<lambda>(key, d). d \<noteq> [] \<and> key_open p key) (tq_keys q))))"

definition pick_waiter :: "pool \<Rightarrow> uuid \<Rightarrow> uuid \<Rightarrow> instant \<Rightarrow> nat" where
  "pick_waiter p tenant key now =
     af_pick (p_affinity p) (map (\<lambda>w. (w_session w, w_enqueued w, w_passed w)) (deque p tenant key)) now"

section \<open>Releasing\<close>

text \<open>\<open>*n = n.saturating_sub(1); if *n == 0 { map.remove(&id) }\<close> on an entry that exists.\<close>

definition decr :: "'k \<Rightarrow> ('k, nat) hmap \<Rightarrow> ('k, nat) hmap" where
  "decr k m =
     (case map_of m k of
        None \<Rightarrow> m
      | Some n \<Rightarrow> if n - 1 = 0 then AList.delete k m else AList.update k (n - 1) m)"

definition vacate :: "uuid \<Rightarrow> uuid \<Rightarrow> pool \<Rightarrow> pool" where
  "vacate tenant key p =
     p\<lparr>p_in_flight := p_in_flight p - 1,
       p_tenant_in_flight := decr tenant (p_tenant_in_flight p),
       p_key_in_flight := decr key (p_key_in_flight p)\<rparr>"

definition release :: "uuid \<Rightarrow> uuid \<Rightarrow> pool \<Rightarrow> pool" where
  "release tenant key p = forget_if_quiet tenant key (vacate tenant key p)"

definition uncharge :: "'k \<Rightarrow> nat \<Rightarrow> ('k, f64) hmap \<Rightarrow> ('k, f64) hmap" where
  "uncharge k cost m =
     (case map_of m k of None \<Rightarrow> m | Some s \<Rightarrow> AList.update k (fl (s - fl (of_nat cost))) m)"

definition requeue :: "pending_claim \<Rightarrow> pool \<Rightarrow> pool" where
  "requeue claim p =
     (let tenant = pc_tenant claim; key = pc_key claim; w = pc_waiter claim;
          p = vacate tenant key p;
          p = p\<lparr>p_served := uncharge tenant (w_cost w) (p_served p),
                p_key_served := uncharge key (w_cost w) (p_key_served p)\<rparr>
      in put_queue (tq_reinsert key (w\<lparr>w_fast := False, w_jumped := False\<rparr>)) tenant p)"

definition key_passed_out :: "(respond \<Rightarrow> bool) \<Rightarrow> pool \<Rightarrow> uuid \<Rightarrow> uuid \<Rightarrow> bool" where
  "key_passed_out dead p tenant key =
     list_ex (\<lambda>w. passed_out (p_affinity p) (w_passed w) \<and> \<not> dead (w_respond w)) (deque p tenant key)"

definition oldest_eligible :: "(respond \<Rightarrow> bool) \<Rightarrow> pool \<Rightarrow> instant option" where
  "oldest_eligible dead p =
     list_min (List.map_filter
       (\<lambda>(_, d). map_option w_enqueued (List.find (\<lambda>w. \<not> dead (w_respond w)) d))
       (filter (\<lambda>(key, _). key_open p key)
          (concat (map (\<lambda>(_, q). tq_keys q)
             (filter (\<lambda>(tenant, _). tenant_has_slot p tenant \<and> tenant \<notin> set (p_blocked_tenants p))
                (p_queues p))))))"

definition oldest_aged :: "(respond \<Rightarrow> bool) \<Rightarrow> instant \<Rightarrow> pool \<Rightarrow> bool" where
  "oldest_aged dead now p =
     (case oldest_eligible dead p of None \<Rightarrow> False | Some t \<Rightarrow> aged (p_affinity p) t now)"

definition finish_step ::
  "(respond \<Rightarrow> bool) \<Rightarrow> instant \<Rightarrow> uuid \<Rightarrow> uuid \<Rightarrow> string option \<Rightarrow> hold_in \<Rightarrow> pool \<Rightarrow> pool \<times> step_end" where
  "finish_step dead now tenant key session hold_in p =
     (let (a, step) = af_finished (p_affinity p) session now;
          p = p\<lparr>p_affinity := a\<rparr>
      in case (step, session) of
           (Some step, Some session) \<Rightarrow>
             if oldest_aged dead now p \<or> key_passed_out dead p tenant key then (p, StepRelease)
             else (case hold_in of
                     InPool \<Rightarrow>
                       if fi_chained step \<and> can_hold (p_affinity p) (p_cap p)
                       then (p\<lparr>p_affinity := af_hold (p_affinity p) session tenant key now\<rparr>, StepHeld)
                       else (p, StepRelease)
                   | InBackend \<Rightarrow> (p, HoldInBackend session (fi_arrived step))
                   | Nowhere \<Rightarrow> (p, StepRelease))
         | _ \<Rightarrow> (p, StepRelease))"

section \<open>Dispatch\<close>

definition grant_slot :: "uuid \<Rightarrow> uuid \<Rightarrow> waiter \<Rightarrow> pool \<Rightarrow> pool" where
  "grant_slot tenant key w p =
     advance_virtual_time (occupy tenant key (w_cost w) (track_waiter_meta tenant key w p))"

lemma queued_total_forget [simp]: "p_queued_total (forget_if_quiet tenant key p) = p_queued_total p"
  by (simp add: forget_if_quiet_def forget_key_def forget_tenant_def Let_def)

lemma queued_total_pop:
  "pop_waiter tenant key i p = Some (p', w) \<Longrightarrow> p_queued_total p' = p_queued_total p - 1"
  by (auto simp: pop_waiter_def split: option.splits)

function take_next ::
  "(respond \<Rightarrow> bool) \<Rightarrow> instant \<Rightarrow> nat \<Rightarrow> pool \<Rightarrow> pool \<times> (uuid \<times> uuid \<times> waiter) option \<times> nat" where
  "take_next dead now effective p =
     (if effective \<le> p_in_flight p \<or> p_queued_total p = 0 then (p, None, 0)
      else case pick_tenant effective p of
             None \<Rightarrow> (p, None, 0)
           | Some tenant \<Rightarrow>
               (case pick_key p tenant of
                  None \<Rightarrow> (p, None, 0)
                | Some key \<Rightarrow>
                    (let i = pick_waiter p tenant key now
                     in case pop_waiter tenant key i p of
                          None \<Rightarrow> (p, None, 0)
                        | Some (p', w) \<Rightarrow>
                            if dead (w_respond w) then
                              (let (p'', r, dropped) = take_next dead now effective (forget_if_quiet tenant key p')
                               in (p'', r, dropped + 1))
                            else (let w = w\<lparr>w_jumped := (0 < i)\<rparr>
                                  in (grant_slot tenant key w p', Some (tenant, key, w), 0)))))"
  by pat_completeness auto
termination
  by (relation "measure (\<lambda>(_, _, _, p). p_queued_total p)") (auto dest: queued_total_pop)

declare take_next.simps [simp del]

definition dispatch_one :: "(respond \<Rightarrow> bool) \<Rightarrow> instant \<Rightarrow> nat \<Rightarrow> pool \<Rightarrow> pool \<times> admitted option \<times> nat" where
  "dispatch_one dead now effective p =
     (let (p, next, dropped) = take_next dead now effective p
      in case next of
           None \<Rightarrow> (p, None, dropped)
         | Some (tenant, key, w) \<Rightarrow>
             (let (p, ad) = send_grant now (grant_new tenant key (w_session w) (w_jumped w))
                              (w_respond w) Queued (now - w_enqueued w) p
              in (p, Some ad, dropped)))"

definition starving :: "(respond \<Rightarrow> bool) \<Rightarrow> instant \<Rightarrow> waiter \<Rightarrow> pool \<Rightarrow> bool" where
  "starving dead now w p = (aged (p_affinity p) (w_enqueued w) now \<or> oldest_aged dead now p)"

definition probe_target :: "(respond \<Rightarrow> bool) \<Rightarrow> pool \<Rightarrow> (uuid \<times> uuid \<times> nat) option" where
  "probe_target dead p =
     find_map (\<lambda>(tenant, q).
       find_map (\<lambda>(key, d).
         case position (\<lambda>w. w_session w \<noteq> None \<and> \<not> w_probed w \<and> \<not> dead (w_respond w)) d of
           None \<Rightarrow> None
         | Some i \<Rightarrow> if key_passed_out dead p tenant key then None else Some (tenant, key, i))
       (tq_keys q)) (p_queues p)"

definition take_probe :: "(respond \<Rightarrow> bool) \<Rightarrow> pool \<Rightarrow> pool \<times> (uuid \<times> uuid \<times> waiter) option" where
  "take_probe dead p =
     (let oldest = oldest_eligible dead p
      in case probe_target dead p of
           None \<Rightarrow> (p, None)
         | Some (tenant, key, i) \<Rightarrow>
             (case pop_waiter tenant key i p of
                None \<Rightarrow> (p, None)
              | Some (p, w) \<Rightarrow>
                  (let w = w\<lparr>w_probed := True,
                            w_jumped := (case oldest of None \<Rightarrow> False | Some t \<Rightarrow> t < w_enqueued w)\<rparr>
                   in (grant_slot tenant key w p, Some (tenant, key, w)))))"

definition prune_queue :: "(respond \<Rightarrow> bool) \<Rightarrow> tenant_queue \<Rightarrow> tenant_queue" where
  "prune_queue dead q =
     (let ks = filter (\<lambda>(_, d). d \<noteq> [])
                 (map (\<lambda>(k, d). (k, filter (\<lambda>w. \<not> dead (w_respond w)) d)) (tq_keys q))
      in q\<lparr>tq_keys := ks, tq_len := sum_list (map (\<lambda>(_, d). length d) ks)\<rparr>)"

definition dead_waiters :: "(respond \<Rightarrow> bool) \<Rightarrow> (uuid, tenant_queue) hmap \<Rightarrow> (uuid \<times> uuid) list" where
  "dead_waiters dead queues =
     concat (map (\<lambda>(tenant, q).
       concat (map (\<lambda>(k, d). replicate (length d - length (filter (\<lambda>w. \<not> dead (w_respond w)) d)) (tenant, k))
         (tq_keys q))) queues)"

definition prune_dead_waiters :: "(respond \<Rightarrow> bool) \<Rightarrow> pool \<Rightarrow> pool \<times> nat" where
  "prune_dead_waiters dead p =
     (let dropped = dead_waiters dead (p_queues p);
          p = p\<lparr>p_queues := map (\<lambda>(t, q). (t, prune_queue dead q)) (p_queues p)\<rparr>
      in if dropped = [] then (p, 0)
         else (let p = p\<lparr>p_queues := filter (\<lambda>(_, q). \<not> tq_is_empty q) (p_queues p),
                         p_queued_total := p_queued_total p - length dropped\<rparr>
               in (fold (\<lambda>(tenant, key). forget_if_quiet tenant key) dropped p, length dropped)))"

section \<open>Held slots\<close>

fun give_up_keys :: "uuid list \<Rightarrow> affinity \<Rightarrow> affinity \<times> hold list" where
  "give_up_keys [] a = (a, [])"
| "give_up_keys (k # ks) a =
     (let (a, gone) = af_give_up_key k a; (a, more) = give_up_keys ks a in (a, gone @ more))"

definition holds_to_give_up :: "(respond \<Rightarrow> bool) \<Rightarrow> instant \<Rightarrow> pool \<Rightarrow> pool \<times> hold list" where
  "holds_to_give_up dead now p =
     (if oldest_aged dead now p then
        (let (a, gone) = af_give_up (p_affinity p) in (p\<lparr>p_affinity := a\<rparr>, gone))
      else
        (let ks = map h_key (filter (\<lambda>h. key_passed_out dead p (h_tenant h) (h_key h))
                               (af_holds (p_affinity p)));
             (a, gone) = give_up_keys ks (p_affinity p)
         in (p\<lparr>p_affinity := a\<rparr>, gone)))"

definition find_session :: "pool \<Rightarrow> uuid \<Rightarrow> uuid \<Rightarrow> string \<Rightarrow> nat option" where
  "find_session p tenant key session =
     position (\<lambda>w. w_session w = Some session) (deque p tenant key)"

lemma deque_pop:
  assumes "pop_waiter tenant key i p = Some (p', w)"
  shows "length (deque p' tenant key) < length (deque p tenant key)"
proof -
  obtain q q' where q: "map_of (p_queues p) tenant = Some q" "tq_pop_at key i q = Some (q', w)"
    and p': "p' = p\<lparr>p_queues := (if tq_is_empty q' then AList.delete tenant (p_queues p)
                 else AList.update tenant q' (p_queues p)), p_queued_total := p_queued_total p - 1\<rparr>"
    using assms by (auto simp: pop_waiter_def split: option.splits)
  have "i < length (key_queue q key)" using key_queue_pop_Some [OF q(2)] by simp
  then show ?thesis
    using key_queue_pop [OF q(2), of key] length_remove_nth [of i "key_queue q key"]
    by (auto simp: deque_def p' q(1))
qed

function redeem_session ::
  "(respond \<Rightarrow> bool) \<Rightarrow> instant \<Rightarrow> string \<Rightarrow> uuid \<Rightarrow> uuid \<Rightarrow> pool \<Rightarrow> pool \<times> admitted option \<times> nat" where
  "redeem_session dead now session tenant key p =
     (case find_session p tenant key session of
        None \<Rightarrow> (p, None, 0)
      | Some i \<Rightarrow>
          (case pop_waiter tenant key i p of
             None \<Rightarrow> (p, None, 0)
           | Some (p', w) \<Rightarrow>
               if dead (w_respond w) then
                 (let (p'', ad, dropped) = redeem_session dead now session tenant key p'
                  in (p'', ad, dropped + 1))
               else
                 (case af_redeem (p_affinity p') (Some session) of
                    (a, None) \<Rightarrow> (p', None, 0)
                  | (a, Some h) \<Rightarrow>
                      (let p' = p'\<lparr>p_affinity := a\<rparr>;
                           jumped = (0 < i \<or> (case oldest_eligible dead p' of None \<Rightarrow> False
                                                | Some t \<Rightarrow> t < w_enqueued w));
                           p' = advance_virtual_time (charge tenant key (w_cost w)
                                  (track_waiter_meta tenant key w p'));
                           (p', ad) = send_grant now (grant_new (h_tenant h) (h_key h) (w_session w) jumped)
                                        (w_respond w) Queued (now - w_enqueued w) p'
                       in (p', Some ad, 0)))))"
  by pat_completeness auto
termination
  by (relation "measure (\<lambda>(_, _, _, tenant, key, p). length (deque p tenant key))")
    (auto dest: deque_pop)

declare redeem_session.simps [simp del]

fun redeem_holds ::
  "(respond \<Rightarrow> bool) \<Rightarrow> instant \<Rightarrow> (string \<times> uuid \<times> uuid) list \<Rightarrow> pool \<Rightarrow> pool \<times> admitted list \<times> nat" where
  "redeem_holds dead now [] p = (p, [], 0)"
| "redeem_holds dead now ((session, tenant, key) # hs) p =
     (if key_passed_out dead p tenant key then redeem_holds dead now hs p
      else (let (p, ad, d) = redeem_session dead now session tenant key p;
                (p, ads, ds) = redeem_holds dead now hs p
            in (p, (case ad of None \<Rightarrow> ads | Some a \<Rightarrow> a # ads), d + ds)))"

definition redeem_queued :: "(respond \<Rightarrow> bool) \<Rightarrow> instant \<Rightarrow> pool \<Rightarrow> pool \<times> admitted list \<times> nat" where
  "redeem_queued dead now p =
     redeem_holds dead now (map (\<lambda>h. (h_session h, h_tenant h, h_key h)) (af_holds (p_affinity p))) p"

section \<open>Idling\<close>

definition is_idle :: "pool \<Rightarrow> bool" where
  "is_idle p = (p_in_flight p = 0 \<and> p_queued_total p = 0)"

definition reset :: "pool \<Rightarrow> pool" where
  "reset p =
     p\<lparr>p_tenant_in_flight := [], p_tenant_group := [], p_group_weight := [], p_tenant_weight := [],
       p_tenant_cap := [], p_queues := [], p_served := [], p_served_base := [],
       p_key_in_flight := [], p_key_served := [], p_key_weight := [], p_key_cap := [],
       p_key_tenant := [], p_key_end_user := [], p_virtual_time := 0\<rparr>"

definition settle_idle :: "instant \<Rightarrow> pool \<Rightarrow> pool" where
  "settle_idle now p =
     (if \<not> is_idle p then p\<lparr>p_idle_since := None\<rparr>
      else if p_idle_since p = None then (reset p)\<lparr>p_idle_since := Some now\<rparr>
      else p)"

end
