(* ===== verification/Pool_Inv.thy ===== *)
theory Pool_Inv
  imports Pool
begin

text \<open>
  The invariant of a pool. \<open>pool_ok S p\<close>, for the slots \<open>S\<close> in use, ties the counters of \<open>Pool\<close> (per tenant, per key, the backlog,
  the round-robin order) to the slots and queues they count, and every operation of the pool keeps it.
\<close>

named_theorems pool_defs
named_theorems pool_frame

section \<open>Counting occupied slots\<close>

definition tallies :: "('k, nat) hmap \<Rightarrow> 'k multiset \<Rightarrow> bool" where
  "tallies m M \<longleftrightarrow> hmap_ok m \<and> vals_ok (\<lambda>n. 0 < n) m \<and> (\<forall>k. get_or 0 m k = count M k)"

lemma tallies_empty [simp]: "tallies [] {#}"
  by (simp add: tallies_def)

lemma tallies_get: "tallies m M \<Longrightarrow> get_or 0 m k = count M k"
  by (simp add: tallies_def)

lemma tallies_contains: "tallies m M \<Longrightarrow> contains_key m k \<longleftrightarrow> k \<in># M"
proof -
  assume "tallies m M"
  then have "get_or 0 m k = count M k" and "\<And>n. map_of m k = Some n \<Longrightarrow> 0 < n"
    by (auto simp: tallies_def dest: vals_okD)
  then show ?thesis
    by (cases "map_of m k") (auto simp: contains_key_def get_or_def simp flip: count_greater_zero_iff)
qed

lemma tallies_incr: "tallies m M \<Longrightarrow> tallies (incr k m) (add_mset k M)"
  by (auto simp: tallies_def incr_def intro!: vals_ok_update)

lemma tallies_decr: "tallies m M \<Longrightarrow> k \<in># M \<Longrightarrow> tallies (decr k m) (M - {#k#})"
proof -
  assume t: "tallies m M" and k: "k \<in># M"
  then obtain n where n: "map_of m k = Some n" "0 < n"
    by (metis tallies_contains contains_key_def not_None_eq tallies_def vals_okD)
  have c: "count M k = n" using t n by (metis tallies_get get_or_Some)
  show ?thesis
    using t n c by (auto simp: tallies_def decr_def get_or_def intro!: vals_ok_update vals_ok_delete)
qed

text \<open>
  The slots of a pool as a multiset of tenant and key: \<open>slots_ok S p\<close> says that the counters of
  \<open>p\<close> count exactly the slots in \<open>S\<close>.
\<close>

type_synonym slot = "uuid \<times> uuid"

definition slots_ok :: "slot multiset \<Rightarrow> pool \<Rightarrow> bool" where
  "slots_ok S p \<longleftrightarrow> p_in_flight p = size S \<and>
     tallies (p_tenant_in_flight p) (image_mset fst S) \<and>
     tallies (p_key_in_flight p) (image_mset snd S)"

definition queues_ok :: "pool \<Rightarrow> bool" where
  "queues_ok p \<longleftrightarrow> hmap_ok (p_queues p) \<and> vals_ok (\<lambda>q. tq_ok q \<and> 0 < tq_len q) (p_queues p) \<and>
     p_queued_total p = msum tq_len (p_queues p)"

definition pool_ok :: "slot multiset \<Rightarrow> pool \<Rightarrow> bool" where
  "pool_ok S p \<longleftrightarrow> slots_ok S p \<and> queues_ok p"

definition same_slots :: "pool \<Rightarrow> pool \<Rightarrow> bool" where
  "same_slots p q \<longleftrightarrow> p_in_flight p = p_in_flight q \<and> p_tenant_in_flight p = p_tenant_in_flight q \<and>
     p_key_in_flight p = p_key_in_flight q"

lemma slots_ok_cong: "same_slots p q \<Longrightarrow> slots_ok S p = slots_ok S q"
  by (simp add: slots_ok_def same_slots_def)

lemma slots_ok_new [simp]: "slots_ok {#} (pool_new key alg cap)"
  by (simp add: slots_ok_def pool_new_def)

lemma queues_ok_new [simp]: "queues_ok (pool_new key alg cap)"
  by (simp add: queues_ok_def pool_new_def)

lemma slots_charge [pool_frame]: "slots_ok S (charge t k c p) = slots_ok S p"
  by (rule slots_ok_cong) (simp add: same_slots_def charge_def Let_def)

lemma slots_track_meta [pool_frame]: "slots_ok S (track_meta r p) = slots_ok S p"
  by (rule slots_ok_cong) (simp add: same_slots_def track_meta_def)

lemma slots_track_waiter_meta [pool_frame]: "slots_ok S (track_waiter_meta t k w p) = slots_ok S p"
  by (rule slots_ok_cong) (simp add: same_slots_def track_waiter_meta_def)

lemma slots_advance [pool_frame]: "slots_ok S (advance_virtual_time p) = slots_ok S p"
  by (rule slots_ok_cong) (simp add: same_slots_def advance_virtual_time_def split: option.splits)

lemma slots_forget [pool_frame]: "slots_ok S (forget_if_quiet t k p) = slots_ok S p"
  by (rule slots_ok_cong) (simp add: same_slots_def forget_if_quiet_def forget_key_def forget_tenant_def Let_def)

lemma slots_pass_earlier [pool_frame]: "slots_ok S (pass_earlier t k a p) = slots_ok S p"
  by (rule slots_ok_cong) (simp add: same_slots_def pass_earlier_def split: option.splits)

lemma slots_affinity [pool_frame]: "slots_ok S (p\<lparr>p_affinity := a\<rparr>) = slots_ok S p"
  by (rule slots_ok_cong) (simp add: same_slots_def)

lemma slots_send [pool_frame]: "slots_ok S (fst (send_grant now g r ad w p)) = slots_ok S p"
  by (simp add: send_grant_def Let_def pool_frame)

lemma slots_enqueue [pool_frame]: "slots_ok S (enqueue req r e f p) = slots_ok S p"
  by (rule slots_ok_cong)
    (simp add: same_slots_def enqueue_def put_queue_def place_key_def place_tenant_def Let_def split: option.splits)

lemma slots_put_queue [pool_frame]: "slots_ok S (put_queue f t p) = slots_ok S p"
  by (rule slots_ok_cong) (simp add: same_slots_def put_queue_def)

lemma slots_pop [pool_frame]: "pop_waiter t k i p = Some (p', w) \<Longrightarrow> slots_ok S p' = slots_ok S p"
  by (rule slots_ok_cong) (auto simp: same_slots_def pop_waiter_def split: option.splits)

lemma slots_occupy: "slots_ok S p \<Longrightarrow> slots_ok (add_mset (t, k) S) (occupy t k c p)"
  by (simp add: occupy_def pool_frame) (simp add: slots_ok_def tallies_incr)

lemma slots_vacate: "slots_ok S p \<Longrightarrow> (t, k) \<in># S \<Longrightarrow> slots_ok (S - {#(t, k)#}) (vacate t k p)"
proof -
  assume s: "slots_ok S p" and m: "(t, k) \<in># S"
  then have "t \<in># image_mset fst S" "k \<in># image_mset snd S" by force+
  then have "tallies (decr t (p_tenant_in_flight p)) (image_mset fst S - {#t#})"
    and "tallies (decr k (p_key_in_flight p)) (image_mset snd S - {#k#})"
    using s by (simp_all add: slots_ok_def tallies_decr del: set_image_mset)
  moreover have "image_mset fst (S - {#(t, k)#}) = image_mset fst S - {#t#}"
    and "image_mset snd (S - {#(t, k)#}) = image_mset snd S - {#k#}"
    using m by (simp_all add: image_mset_Diff)
  ultimately show ?thesis using s m by (simp add: slots_ok_def vacate_def size_Diff_singleton)
qed


section \<open>The backlog\<close>

lemma queues_okD:
  "queues_ok p \<Longrightarrow> map_of (p_queues p) t = Some q \<Longrightarrow> tq_ok q \<and> 0 < tq_len q"
  by (auto simp: queues_ok_def dest: vals_okD)

definition same_queues :: "pool \<Rightarrow> pool \<Rightarrow> bool" where
  "same_queues p q \<longleftrightarrow> p_queues p = p_queues q \<and> p_queued_total p = p_queued_total q"

lemma queues_ok_cong: "same_queues p q \<Longrightarrow> queues_ok p = queues_ok q"
  by (simp add: queues_ok_def same_queues_def)

lemma deque_cong: "same_queues p q \<Longrightarrow> deque p = deque q"
  by (simp add: fun_eq_iff deque_def same_queues_def)

lemma same_queues_charge: "same_queues (charge t k c p) p"
  by (simp add: same_queues_def charge_def Let_def)

lemma same_queues_occupy: "same_queues (occupy t k c p) p"
  by (simp add: same_queues_def occupy_def charge_def Let_def)

lemma same_queues_track_meta: "same_queues (track_meta r p) p"
  by (simp add: same_queues_def track_meta_def)

lemma same_queues_track_waiter_meta: "same_queues (track_waiter_meta t k w p) p"
  by (simp add: same_queues_def track_waiter_meta_def)

lemma same_queues_advance: "same_queues (advance_virtual_time p) p"
  by (simp add: same_queues_def advance_virtual_time_def split: option.splits)

lemma same_queues_affinity: "same_queues (p\<lparr>p_affinity := a\<rparr>) p"
  by (simp add: same_queues_def)

lemma same_queues_vacate: "same_queues (vacate t k p) p"
  by (simp add: same_queues_def vacate_def)

text \<open>Forgetting a quiet tenant never drops a waiter.\<close>

lemma same_queues_forget: "queues_ok p \<Longrightarrow> same_queues (forget_if_quiet t k p) p"
proof -
  assume ok: "queues_ok p"
  have "AList.delete t (p_queues p) = p_queues p"
    if "(case map_of (p_queues p) t of None \<Rightarrow> 0 | Some q \<Rightarrow> tq_len q) = 0"
  proof -
    have "map_of (p_queues p) t = None" using that queues_okD [OF ok, of t] by (cases "map_of (p_queues p) t") auto
    then show ?thesis by (simp add: delete_id map_of_eq_None_iff)
  qed
  then show ?thesis
    by (simp add: same_queues_def forget_if_quiet_def forget_key_def forget_tenant_def Let_def)
qed

lemma same_queues_grant_slot: "same_queues (grant_slot t k w p) p"
  using same_queues_advance same_queues_occupy same_queues_track_waiter_meta
  by (metis grant_slot_def same_queues_def)

lemmas queue_frame =
  same_queues_charge same_queues_occupy same_queues_track_meta same_queues_track_waiter_meta
  same_queues_advance same_queues_affinity same_queues_vacate same_queues_grant_slot

lemmas queue_cong = queue_frame [THEN queues_ok_cong] queue_frame [THEN deque_cong]

lemma queues_ok_put:
  assumes "queues_ok p" and "\<And>q. tq_ok q \<Longrightarrow> tq_ok (f q) \<and> tq_len (f q) = Suc (tq_len q)"
  shows "queues_ok (put_queue f t p)"
proof -
  let ?q = "get_or tenant_queue_default (p_queues p) t"
  have q: "tq_ok ?q" using queues_okD [OF assms(1)] by (auto simp: get_or_def split: option.splits)
  have "msum tq_len (AList.update t (f ?q) (p_queues p)) + tq_len ?q = msum tq_len (p_queues p) + tq_len (f ?q)"
    using assms(1) by (intro msum_get_update) (auto simp: queues_ok_def tenant_queue_default_def)
  then show ?thesis
    using assms(1) assms(2) [OF q] by (auto simp: queues_ok_def put_queue_def intro!: vals_ok_update)
qed

lemma tq_push_len [simp]: "tq_len (tq_push k w q) = Suc (tq_len q)"
  by (simp add: tq_push_def)

lemma tq_reinsert_len [simp]: "tq_len (tq_reinsert k w q) = Suc (tq_len q)"
  by (simp add: tq_reinsert_def Let_def)

lemma queues_ok_pop:
  assumes ok: "queues_ok p" and pop: "pop_waiter t k i p = Some (p', w)"
  shows "queues_ok p'" and "p_queued_total p = Suc (p_queued_total p')"
proof -
  obtain q q' where q: "map_of (p_queues p) t = Some q" "tq_pop_at k i q = Some (q', w)"
    and p': "p' = p\<lparr>p_queues := (if tq_is_empty q' then AList.delete t (p_queues p)
                 else AList.update t q' (p_queues p)), p_queued_total := p_queued_total p - 1\<rparr>"
    using pop by (auto simp: pop_waiter_def split: option.splits)
  have q': "tq_ok q'" "tq_len q = Suc (tq_len q')"
    using tq_pop_ok [OF _ q(2)] queues_okD [OF ok q(1)] by auto
  have h: "hmap_ok (p_queues p)" and tot: "p_queued_total p = msum tq_len (p_queues p)"
    using ok by (auto simp: queues_ok_def)
  have g: "get_or tenant_queue_default (p_queues p) t = q" using q(1) by (rule get_or_Some)
  have d: "tq_len tenant_queue_default = 0" by (simp add: tenant_queue_default_def)
  have "tq_len q \<le> msum tq_len (p_queues p)" using q(1) by (rule msum_member_le)
  then show "p_queued_total p = Suc (p_queued_total p')" using tot q'(2) by (simp add: p')
  show "queues_ok p'"
    using ok q' msum_get_update [where f = tq_len, OF h d, of t q']
      msum_get_delete [where f = tq_len, OF h d, of t] tot
    by (auto simp: queues_ok_def p' g tq_is_empty_def intro!: vals_ok_update vals_ok_delete)
qed

lemma deque_put:
  "deque (put_queue f t p) t' k =
     (if t' = t then key_queue (f (get_or tenant_queue_default (p_queues p) t)) k else deque p t' k)"
  by (simp add: deque_def put_queue_def)

lemma key_queue_default [simp]: "key_queue tenant_queue_default k = []"
  by (simp add: key_queue_def tenant_queue_default_def)

lemma deque_get: "key_queue (get_or tenant_queue_default (p_queues p) t) k = deque p t k"
  by (simp add: deque_def get_or_def split: option.splits)

lemma deque_push:
  "deque (put_queue (tq_push k w) t p) t' k' =
     (if t' = t \<and> k' = k then deque p t k @ [w] else deque p t' k')"
  by (simp add: deque_put key_queue_push deque_get)

lemma key_queue_empty: "tq_ok q \<Longrightarrow> tq_len q = 0 \<Longrightarrow> key_queue q k = []"
proof -
  assume "tq_ok q" "tq_len q = 0"
  then have "msum length (tq_keys q) = 0" by (simp add: tq_ok_def)
  then have "map_of (tq_keys q) k = Some d \<Longrightarrow> d = []" for d
    using msum_member_le [of "tq_keys q" k d length] by simp
  then show ?thesis by (auto simp: key_queue_def get_or_def split: option.splits)
qed

lemma deque_pop_waiter:
  assumes ok: "queues_ok p" and pop: "pop_waiter t k i p = Some (p', w)"
  shows "deque p' t' k' = (if t' = t \<and> k' = k then remove_nth i (deque p t k) else deque p t' k')"
    and "i < length (deque p t k)" and "w = deque p t k ! i"
proof -
  obtain q q' where q: "map_of (p_queues p) t = Some q" "tq_pop_at k i q = Some (q', w)"
    and p': "p' = p\<lparr>p_queues := (if tq_is_empty q' then AList.delete t (p_queues p)
                 else AList.update t q' (p_queues p)), p_queued_total := p_queued_total p - 1\<rparr>"
    using pop by (auto simp: pop_waiter_def split: option.splits)
  have "tq_ok q'" using tq_pop_ok [OF _ q(2)] queues_okD [OF ok q(1)] by auto
  then show "deque p' t' k' = (if t' = t \<and> k' = k then remove_nth i (deque p t k) else deque p t' k')"
    using key_queue_pop [OF q(2), of k'] key_queue_empty [of q' k']
    by (auto simp: deque_def p' q(1) tq_is_empty_def)
  show "i < length (deque p t k)" "w = deque p t k ! i"
    using key_queue_pop_Some [OF q(2)] by (simp_all add: deque_def q(1))
qed

lemma pop_waiter_Some: "i < length (deque p t k) \<Longrightarrow> \<exists>p' w. pop_waiter t k i p = Some (p', w)"
proof -
  assume i: "i < length (deque p t k)"
  then obtain q where q: "map_of (p_queues p) t = Some q" "i < tq_key_len k q"
    by (auto simp: deque_def split: option.splits)
  then show ?thesis using tq_pop_Some [OF q(2)] by (auto simp: pop_waiter_def)
qed

section \<open>Passing\<close>

lemma length_map_while [simp]: "length (map_while P f xs) = length xs"
  by (induction xs) auto

lemma map_map_while: "(\<And>x. g (f x) = g x) \<Longrightarrow> map g (map_while P f xs) = map g xs"
  by (induction xs) auto

lemma pass_over_fields [simp]:
  "w_respond (pass_over w) = w_respond w" "w_enqueued (pass_over w) = w_enqueued w"
  "w_session (pass_over w) = w_session w" "w_cost (pass_over w) = w_cost w"
  by (simp_all add: pass_over_def)

lemma map_while_Nil [simp]: "map_while P f xs = [] \<longleftrightarrow> xs = []"
  by (cases xs) auto

lemma queues_ok_pass_earlier [simp]: "queues_ok p \<Longrightarrow> queues_ok (pass_earlier t k a p)"
proof (cases "af_on (p_affinity p) \<and> (\<exists>q d. map_of (p_queues p) t = Some q \<and> map_of (tq_keys q) k = Some d)")
  case True
  assume ok: "queues_ok p"
  from True obtain q d where q: "af_on (p_affinity p)" "map_of (p_queues p) t = Some q" "map_of (tq_keys q) k = Some d"
    by auto
  let ?d = "map_while (\<lambda>w. w_enqueued w < a) pass_over d"
  let ?q = "q\<lparr>tq_keys := AList.update k ?d (tq_keys q)\<rparr>"
  have e: "pass_earlier t k a p = p\<lparr>p_queues := AList.update t ?q (p_queues p)\<rparr>"
    using q by (simp add: pass_earlier_def)
  have tq: "tq_ok q" "0 < tq_len q" using queues_okD [OF ok q(2)] by auto
  have "d \<noteq> []" using tq(1) q(3) by (auto simp: tq_ok_def dest: vals_okD)
  then have "tq_ok ?q"
    using tq q(3) msum_get_update [where f = length and d = "[]", of "tq_keys q" k ?d]
    by (auto simp: tq_ok_def get_or_Some intro!: vals_ok_update)
  then show ?thesis
    using ok tq(2) q(2) msum_get_update [where f = tq_len and d = tenant_queue_default, of "p_queues p" t ?q]
    by (auto simp: queues_ok_def e get_or_Some tenant_queue_default_def intro!: vals_ok_update)
next
  case False
  then have "pass_earlier t k a p = p" by (auto simp: pass_earlier_def split: option.splits)
  then show "queues_ok p \<Longrightarrow> ?thesis" by simp
qed

lemma deque_pass_earlier:
  "deque (pass_earlier t k a p) t' k' =
     (if af_on (p_affinity p) \<and> t' = t \<and> k' = k
      then map_while (\<lambda>w. w_enqueued w < a) pass_over (deque p t k) else deque p t' k')"
  by (auto simp: pass_earlier_def deque_def key_queue_def get_or_def split: option.splits)

lemma pass_earlier_fields [simp]:
  "p_affinity (pass_earlier t k a p) = p_affinity p" "p_key (pass_earlier t k a p) = p_key p"
  "p_queued_total (pass_earlier t k a p) = p_queued_total p" "p_in_flight (pass_earlier t k a p) = p_in_flight p"
  "p_cap (pass_earlier t k a p) = p_cap p"
  by (simp_all add: pass_earlier_def split: option.splits)

text \<open>The callers waiting behind a key, in order.\<close>

definition waiting :: "pool \<Rightarrow> uuid \<Rightarrow> uuid \<Rightarrow> respond list" where
  "waiting p t k = map w_respond (deque p t k)"

lemma waiting_pass_earlier [simp]: "waiting (pass_earlier t k a p) = waiting p"
  by (auto simp: fun_eq_iff waiting_def deque_pass_earlier map_map_while)

lemma waiting_cong: "same_queues p q \<Longrightarrow> waiting p = waiting q"
  by (simp add: fun_eq_iff waiting_def deque_cong)

lemmas waiting_frame = queue_frame [THEN waiting_cong]

section \<open>Picking always finds a waiter\<close>

lemma pick_candidates_iff:
  "queues_ok p \<Longrightarrow> t \<in> set (pick_candidates p) \<longleftrightarrow> tenant_is_eligible p t"
proof
  assume ok: "queues_ok p" and e: "tenant_is_eligible p t"
  then obtain q where "map_of (p_queues p) t = Some q"
    by (auto simp: tenant_is_eligible_def split: if_splits option.splits)
  moreover then have "0 < tq_len q" using queues_okD [OF ok] by blast
  ultimately show "t \<in> set (pick_candidates p)"
    using e by (force simp: pick_candidates_def tq_is_empty_def dest: map_of_SomeD)
qed (auto simp: pick_candidates_def)

lemma pick_tenant_weighted_Some:
  "pick_tenant_weighted p = Some t \<Longrightarrow>
   t \<in> set (pick_candidates p) \<and> (\<forall>u \<in> set (pick_candidates p). tenant_score p t \<le> tenant_score p u)"
  unfolding pick_tenant_weighted_def by (rule min_by_Some)

lemma pick_tenant_weighted_None: "pick_tenant_weighted p = None \<longleftrightarrow> pick_candidates p = []"
  by (simp add: pick_tenant_weighted_def)

text \<open>The tenants a hierarchical pick chooses from: those within their caps, or everyone.\<close>

definition lend_from :: "nat \<Rightarrow> pool \<Rightarrow> uuid list" where
  "lend_from effective p =
     (let inside = filter (within_group_cap p effective) (pick_candidates p)
      in if inside = [] then pick_candidates p else inside)"

lemma lend_from_scores:
  "(let borrowable = map (\<lambda>t. (t, group_score p t)) (pick_candidates p);
        eligible = filter (\<lambda>(t, _). within_group_cap p effective t) borrowable
    in if eligible = [] then borrowable else eligible) =
   map (\<lambda>t. (t, group_score p t)) (lend_from effective p)"
  by (auto simp: lend_from_def Let_def filter_map comp_def)

definition near_min :: "f64 \<Rightarrow> f64 \<Rightarrow> bool" where
  "near_min m s \<longleftrightarrow> \<not> (f64_epsilon < \<bar>fl (s - m)\<bar> \<and> m < s)"

lemma pick_hierarchical_eq:
  "pick_tenant_hierarchical effective p =
     (case list_min (map (group_score p) (lend_from effective p)) of
        None \<Rightarrow> None
      | Some m \<Rightarrow> map_option fst (min_by (\<lambda>(t, _). tenant_score p t)
          (filter (\<lambda>(_, s). near_min m s) (map (\<lambda>t. (t, group_score p t)) (lend_from effective p)))))"
  unfolding pick_tenant_hierarchical_def near_min_def Let_def lend_from_scores [unfolded Let_def]
  by (simp add: comp_def)

lemma pick_hierarchical_Some:
  assumes "pick_tenant_hierarchical effective p = Some t"
  shows "t \<in> set (lend_from effective p)"
    and "\<exists>m. list_min (map (group_score p) (lend_from effective p)) = Some m \<and> near_min m (group_score p t) \<and>
      (\<forall>u \<in> set (lend_from effective p). near_min m (group_score p u) \<longrightarrow> tenant_score p t \<le> tenant_score p u)"
proof -
  obtain m where m: "list_min (map (group_score p) (lend_from effective p)) = Some m"
    and b: "map_option fst (min_by (\<lambda>(t, _). tenant_score p t)
      (filter (\<lambda>(_, s). near_min m s) (map (\<lambda>t. (t, group_score p t)) (lend_from effective p)))) = Some t"
    using assms by (auto simp: pick_hierarchical_eq split: option.splits)
  then obtain s where "min_by (\<lambda>(t, _). tenant_score p t)
      (filter (\<lambda>(_, s). near_min m s) (map (\<lambda>t. (t, group_score p t)) (lend_from effective p))) = Some (t, s)"
    by auto
  note M = min_by_Some [OF this]
  show "t \<in> set (lend_from effective p)" using M by auto
  show "\<exists>m. list_min (map (group_score p) (lend_from effective p)) = Some m \<and> near_min m (group_score p t) \<and>
      (\<forall>u \<in> set (lend_from effective p). near_min m (group_score p u) \<longrightarrow> tenant_score p t \<le> tenant_score p u)"
    using M m by auto
qed

lemma pick_hierarchical_None: "pick_tenant_hierarchical effective p = None \<longleftrightarrow> pick_candidates p = []"
proof -
  have l: "lend_from effective p = [] \<longleftrightarrow> pick_candidates p = []"
    by (auto simp: lend_from_def Let_def)
  show ?thesis
  proof (cases "list_min (map (group_score p) (lend_from effective p))")
    case None
    moreover then have "lend_from effective p = []" by simp
    ultimately show ?thesis using l by (simp add: pick_hierarchical_eq list_min_def)
  next
    case (Some m)
    then have "m \<in> set (map (group_score p) (lend_from effective p))" using list_min_Some by blast
    then obtain u where "u \<in> set (lend_from effective p)" "m = group_score p u" by auto
    then have "(u, m) \<in> set (filter (\<lambda>(_, s). near_min m s) (map (\<lambda>t. (t, group_score p t)) (lend_from effective p)))"
      by (auto simp: near_min_def)
    then have "filter (\<lambda>(_, s). near_min m s) (map (\<lambda>t. (t, group_score p t)) (lend_from effective p)) \<noteq> []"
      by (metis empty_iff empty_set)
    then show ?thesis using Some l by (auto simp: pick_hierarchical_eq)
  qed
qed

lemma pick_tenant_Some: "pick_tenant effective p = Some t \<Longrightarrow> t \<in> set (pick_candidates p)"
  using pick_hierarchical_Some(1) [of effective p t] pick_tenant_weighted_Some [of p t]
  by (auto simp: pick_tenant_def lend_from_def Let_def split: fairshare_algorithm.splits if_splits)

lemma pick_tenant_None: "pick_tenant effective p = None \<longleftrightarrow> pick_candidates p = []"
  by (simp add: pick_tenant_def pick_hierarchical_None pick_tenant_weighted_None split: fairshare_algorithm.splits)

lemma pick_tenant_None_iff:
  "queues_ok p \<Longrightarrow> pick_tenant effective p = None \<longleftrightarrow> (\<forall>t. \<not> tenant_is_eligible p t)"
  using pick_candidates_iff [of p] by (cases "pick_candidates p") (auto simp: pick_tenant_None)

lemma eligible_pick_key: "tenant_is_eligible p t \<Longrightarrow> \<exists>k. pick_key p t = Some k"
proof -
  assume "tenant_is_eligible p t"
  then obtain q k d where "map_of (p_queues p) t = Some q" "(k, d) \<in> set (tq_keys q)" "d \<noteq> []" "key_open p k"
    by (auto simp: tenant_is_eligible_def list_ex_iff split: if_splits option.splits)
  moreover then have "filter (\<lambda>(key, d). d \<noteq> [] \<and> key_open p key) (tq_keys q) \<noteq> []"
    by (auto simp: filter_empty_conv)
  ultimately show ?thesis
    by (cases "min_by (\<lambda>(key, d). (key_score p key, w_enqueued (hd d)))
         (filter (\<lambda>(key, d). d \<noteq> [] \<and> key_open p key) (tq_keys q))") (auto simp: pick_key_def)
qed

lemma pick_key_Some:
  assumes "queues_ok p" and "pick_key p t = Some k"
  shows "key_open p k" and "deque p t k \<noteq> []"
    and "key_open p k' \<Longrightarrow> deque p t k' \<noteq> [] \<Longrightarrow>
      (key_score p k, w_enqueued (hd (deque p t k))) \<le> (key_score p k', w_enqueued (hd (deque p t k')))"
proof -
  obtain q d where q: "map_of (p_queues p) t = Some q"
    and m: "min_by (\<lambda>(key, d). (key_score p key, w_enqueued (hd d)))
      (filter (\<lambda>(key, d). d \<noteq> [] \<and> key_open p key) (tq_keys q)) = Some (k, d)"
    using assms(2) by (auto simp: pick_key_def split: option.splits)
  have h: "hmap_ok (tq_keys q)" using queues_okD [OF assms(1) q] by (simp add: tq_ok_def)
  note M = min_by_Some [OF m]
  have d: "map_of (tq_keys q) k = Some d" "d \<noteq> []" "key_open p k" using M hmap_entry [OF h] by auto
  have dq: "deque p t k = d" using d(1) by (simp add: deque_def q key_queue_def get_or_Some)
  show "key_open p k" "deque p t k \<noteq> []" using d dq by auto
  assume o: "key_open p k'" and n: "deque p t k' \<noteq> []"
  then have "map_of (tq_keys q) k' = Some (deque p t k')"
    by (auto simp: deque_def q key_queue_def get_or_def split: option.splits)
  then have "(k', deque p t k') \<in> set (filter (\<lambda>(key, d). d \<noteq> [] \<and> key_open p key) (tq_keys q))"
    using o n hmap_entry [OF h] by auto
  then show "(key_score p k, w_enqueued (hd (deque p t k))) \<le> (key_score p k', w_enqueued (hd (deque p t k')))"
    using M dq by fastforce
qed

lemma pick_waiter_bound: "deque p t k \<noteq> [] \<Longrightarrow> pick_waiter p t k now < length (deque p t k)"
  using af_pick_bound [of "map (\<lambda>w. (w_session w, w_enqueued w, w_passed w)) (deque p t k)" "p_affinity p" now]
  by (simp add: pick_waiter_def)

text \<open>None of the \<open>expect\<close> calls of the dispatch loop can fail.\<close>

lemma picks_succeed:
  assumes "queues_ok p" and "pick_tenant effective p = Some t"
  shows "\<exists>k p' w. pick_key p t = Some k \<and> pop_waiter t k (pick_waiter p t k now) p = Some (p', w)"
proof -
  have "tenant_is_eligible p t" using assms pick_tenant_Some pick_candidates_iff by blast
  then obtain k where k: "pick_key p t = Some k" using eligible_pick_key by blast
  then have "deque p t k \<noteq> []" using pick_key_Some [OF assms(1)] by blast
  then show ?thesis using k pop_waiter_Some [OF pick_waiter_bound] by blast
qed

section \<open>The dispatch loop\<close>

text \<open>
  The loop of \<open>take_next\<close> passes through pools that satisfy any property its drops preserve,
  and ends in one where it either has nothing to give or grants the picked waiter.
\<close>

definition stuck :: "nat \<Rightarrow> pool \<Rightarrow> bool" where
  "stuck effective p \<longleftrightarrow> effective \<le> p_in_flight p \<or> p_queued_total p = 0 \<or> pick_tenant effective p = None"

inductive granting :: "(respond \<Rightarrow> bool) \<Rightarrow> instant \<Rightarrow> nat \<Rightarrow> pool \<Rightarrow> pool \<Rightarrow> uuid \<Rightarrow> uuid \<Rightarrow> waiter \<Rightarrow> bool"
  for dead :: "respond \<Rightarrow> bool" and now :: instant and effective :: nat where
  "p_in_flight p < effective \<Longrightarrow> pick_tenant effective p = Some t \<Longrightarrow> pick_key p t = Some k \<Longrightarrow>
   pop_waiter t k (pick_waiter p t k now) p = Some (p', w) \<Longrightarrow> \<not> dead (w_respond w) \<Longrightarrow>
   w' = w\<lparr>w_jumped := (0 < pick_waiter p t k now)\<rparr> \<Longrightarrow>
   granting dead now effective p (grant_slot t k w' p') t k w'"

inductive_cases grantingE: "granting dead now effective p p' t k w"

lemma take_next_rule:
  assumes ok: "queues_ok p" and I: "I p"
    and drop: "\<And>p t k p' w. queues_ok p \<Longrightarrow> I p \<Longrightarrow> pick_tenant effective p = Some t \<Longrightarrow> pick_key p t = Some k \<Longrightarrow>
      pop_waiter t k (pick_waiter p t k now) p = Some (p', w) \<Longrightarrow> dead (w_respond w) \<Longrightarrow>
      I (forget_if_quiet t k p')"
  shows "\<exists>p1 d. queues_ok p1 \<and> I p1 \<and>
    (take_next dead now effective p = (p1, None, d) \<and> stuck effective p1 \<or>
     (\<exists>p2 t k w. take_next dead now effective p = (p2, Some (t, k, w), d) \<and>
        granting dead now effective p1 p2 t k w))"
  using ok I
proof (induction p rule: measure_induct_rule [of p_queued_total])
  case (less p)
  show ?case
  proof (cases "stuck effective p")
    case True
    then have "take_next dead now effective p = (p, None, 0)"
      by (auto simp: take_next.simps [of dead now effective p] stuck_def)
    then show ?thesis using True less.prems by blast
  next
    case False
    then obtain t where t: "pick_tenant effective p = Some t" "p_in_flight p < effective" "0 < p_queued_total p"
      by (auto simp: stuck_def)
    obtain k p' w where k: "pick_key p t = Some k" "pop_waiter t k (pick_waiter p t k now) p = Some (p', w)"
      using picks_succeed [OF less.prems(1) t(1)] by blast
    show ?thesis
    proof (cases "dead (w_respond w)")
      case True
      let ?p = "forget_if_quiet t k p'"
      have q: "queues_ok p'" "p_queued_total p = Suc (p_queued_total p')"
        using queues_ok_pop [OF less.prems(1) k(2)] by auto
      have "queues_ok ?p" using same_queues_forget [OF q(1)] queues_ok_cong q(1) by blast
      moreover have "I ?p" using drop [OF less.prems t(1) k True] .
      moreover have "take_next dead now effective p =
          (let (p'', r, d) = take_next dead now effective ?p in (p'', r, d + 1))"
        using t k True by (simp add: take_next.simps [of dead now effective p] Let_def)
      ultimately show ?thesis using less.IH [of ?p] q(2) by fastforce
    next
      case False
      then have "take_next dead now effective p =
          (grant_slot t k (w\<lparr>w_jumped := (0 < pick_waiter p t k now)\<rparr>) p',
           Some (t, k, w\<lparr>w_jumped := (0 < pick_waiter p t k now)\<rparr>), 0)"
        using t k by (simp add: take_next.simps [of dead now effective p] Let_def)
      then show ?thesis using less.prems granting.intros [where dead = dead and now = now, OF t(2,1) k False refl] by blast
    qed
  qed
qed

lemma slots_grant_slot: "slots_ok S p \<Longrightarrow> slots_ok (add_mset (t, k) S) (grant_slot t k w p)"
  by (simp add: grant_slot_def pool_frame slots_occupy)

definition alive :: "(respond \<Rightarrow> bool) \<Rightarrow> pool \<Rightarrow> uuid \<Rightarrow> uuid \<Rightarrow> respond list" where
  "alive dead p t k = filter (\<lambda>r. \<not> dead r) (waiting p t k)"

lemma alive_cong: "same_queues p q \<Longrightarrow> alive dead p = alive dead q"
  by (simp add: fun_eq_iff alive_def waiting_cong)

lemma filter_remove_nth_not:
  "i < length xs \<Longrightarrow> \<not> P (xs ! i) \<Longrightarrow> filter P (remove_nth i xs) = filter P xs"
proof -
  assume i: "i < length xs" and n: "\<not> P (xs ! i)"
  have "filter P xs = filter P (take i xs @ xs ! i # drop (Suc i) xs)" using id_take_nth_drop [OF i] by simp
  then show ?thesis using n by (simp add: remove_nth_def)
qed

lemma mset_filter_remove_nth:
  "i < length xs \<Longrightarrow> P (xs ! i) \<Longrightarrow> add_mset (xs ! i) (mset (filter P (remove_nth i xs))) = mset (filter P xs)"
proof -
  assume i: "i < length xs" and n: "P (xs ! i)"
  have "filter P xs = filter P (take i xs @ xs ! i # drop (Suc i) xs)" using id_take_nth_drop [OF i] by simp
  then show ?thesis using n by (simp add: remove_nth_def)
qed

lemma map_remove_nth: "map f (remove_nth i xs) = remove_nth i (map f xs)"
  by (simp add: remove_nth_def take_map drop_map)

lemma waiting_pop:
  assumes "queues_ok p" and "pop_waiter t k i p = Some (p', w)"
  shows "waiting p' t' k' = (if t' = t \<and> k' = k then remove_nth i (waiting p t k) else waiting p t' k')"
    and "i < length (waiting p t k)" and "w_respond w = waiting p t k ! i"
  using deque_pop_waiter [OF assms] by (auto simp: waiting_def map_remove_nth)

lemma alive_pop_dead:
  assumes "queues_ok p" and "pop_waiter t k i p = Some (p', w)" and "dead (w_respond w)"
  shows "alive dead p' = alive dead p"
  using waiting_pop [OF assms(1,2)] assms(3) by (auto simp: fun_eq_iff alive_def filter_remove_nth_not)

lemma alive_pop_live:
  assumes "queues_ok p" and "pop_waiter t k i p = Some (p', w)" and "\<not> dead (w_respond w)"
  shows "mset (alive dead p t' k') =
    (if t' = t \<and> k' = k then add_mset (w_respond w) (mset (alive dead p' t k)) else mset (alive dead p' t' k'))"
  using waiting_pop [OF assms(1,2)] assms(3) mset_filter_remove_nth [of i "waiting p t k" "\<lambda>r. \<not> dead r"]
  by (auto simp: alive_def)

text \<open>What one round of the loop does to the backlog, the slots and the limits.\<close>

lemma take_next_outcome:
  assumes "queues_ok p" and "slots_ok S p"
  obtains (none) p1 d where "take_next dead now effective p = (p1, None, d)"
      "queues_ok p1" "slots_ok S p1" "stuck effective p1" "alive dead p1 = alive dead p"
  | (grant) p1 p2 t k w d where "take_next dead now effective p = (p2, Some (t, k, w), d)"
      "queues_ok p1" "slots_ok S p1" "alive dead p1 = alive dead p" "granting dead now effective p1 p2 t k w"
proof -
  let ?I = "\<lambda>q. slots_ok S q \<and> alive dead q = alive dead p"
  have drop: "?I (forget_if_quiet t k p')"
    if "queues_ok q" "?I q" "pop_waiter t k i q = Some (p', w)" "dead (w_respond w)" for q t k i p' w
  proof -
    have "alive dead (forget_if_quiet t k p') = alive dead p'"
      using queues_ok_pop(1) [OF that(1,3)] by (intro alive_cong same_queues_forget)
    then show ?thesis using that slots_pop [OF that(3)] alive_pop_dead [where dead = dead, OF that(1,3,4)] by (simp add: pool_frame)
  qed
  have "\<exists>p1 d. queues_ok p1 \<and> ?I p1 \<and>
    (take_next dead now effective p = (p1, None, d) \<and> stuck effective p1 \<or>
     (\<exists>p2 t k w. take_next dead now effective p = (p2, Some (t, k, w), d) \<and>
        granting dead now effective p1 p2 t k w))"
    using assms by (intro take_next_rule) (auto intro: drop [THEN conjunct1] drop [THEN conjunct2])
  then show thesis using none grant by blast
qed

lemma granting_queues:
  assumes "granting dead now effective p p2 t k w" and "queues_ok p"
  shows "queues_ok p2"
    and "mset (alive dead p t' k') =
      (if t' = t \<and> k' = k then add_mset (w_respond w) (mset (alive dead p2 t k)) else mset (alive dead p2 t' k'))"
proof -
  obtain p' u i where u: "pop_waiter t k i p = Some (p', u)" "\<not> dead (w_respond u)"
    "w_respond w = w_respond u" "p2 = grant_slot t k w p'"
    using assms(1) by (auto elim!: grantingE)
  have s: "same_queues p2 p'" using u(4) same_queues_grant_slot by simp
  show "queues_ok p2" using queues_ok_pop(1) [OF assms(2) u(1)] queues_ok_cong [OF s] by simp
  show "mset (alive dead p t' k') =
      (if t' = t \<and> k' = k then add_mset (w_respond w) (mset (alive dead p2 t k)) else mset (alive dead p2 t' k'))"
    using alive_pop_live [where dead = dead, OF assms(2) u(1,2), of t' k'] alive_cong [OF s] u(3) by simp
qed

lemma granting_slots:
  assumes "granting dead now effective p p2 t k w" and "slots_ok S p"
  shows "slots_ok (add_mset (t, k) S) p2"
  using assms slots_pop by (auto elim!: grantingE intro!: slots_grant_slot)

lemma granting_limits:
  assumes "granting dead now effective p p2 t k w" and "queues_ok p"
  shows "p_in_flight p < effective" and "tenant_has_slot p t" and "key_has_slot p k"
    and "t \<notin> set (p_blocked_tenants p)" and "k \<notin> set (p_blocked_keys p)" and "\<not> dead (w_respond w)"
    and "p_in_flight p2 = Suc (p_in_flight p)"
proof -
  obtain p' u where u: "p_in_flight p < effective" "pick_tenant effective p = Some t" "pick_key p t = Some k"
    "pop_waiter t k (pick_waiter p t k now) p = Some (p', u)" "\<not> dead (w_respond w)" "p2 = grant_slot t k w p'"
    using assms(1) by (auto elim!: grantingE)
  show "p_in_flight p < effective" "\<not> dead (w_respond w)" using u by auto
  have "tenant_is_eligible p t" using u(2) assms(2) pick_tenant_Some pick_candidates_iff by blast
  then show "tenant_has_slot p t" "t \<notin> set (p_blocked_tenants p)"
    by (auto simp: tenant_is_eligible_def split: if_splits)
  show "key_has_slot p k" "k \<notin> set (p_blocked_keys p)"
    using pick_key_Some(1) [OF assms(2) u(3)] by (auto simp: key_open_def)
  have "p_in_flight p' = p_in_flight p" using u(4) by (auto simp: pop_waiter_def split: option.splits)
  then show "p_in_flight p2 = Suc (p_in_flight p)"
    by (simp add: u(6) grant_slot_def advance_virtual_time_def occupy_def charge_def
        track_waiter_meta_def Let_def split: option.splits)
qed

section \<open>Where a pool's slots are\<close>

text \<open>
  A slot is with an outstanding permit, held for a session's next step, or with a claim that is
  waiting for the shared backend. \<open>pool_inv P p\<close> is the pool invariant for outstanding permits
  \<open>P\<close>: the counters count exactly those three kinds of slot, and the backlog counters count the
  backlog.
\<close>

definition hold_slot :: "hold \<Rightarrow> slot" where
  "hold_slot h = (h_tenant h, h_key h)"

definition claim_slot :: "pending_claim \<Rightarrow> slot" where
  "claim_slot c = (pc_tenant c, pc_key c)"

definition held_of :: "pool \<Rightarrow> slot multiset" where
  "held_of p = image_mset hold_slot (mset (af_holds (p_affinity p)))"

definition pending_of :: "pool \<Rightarrow> slot multiset" where
  "pending_of p = image_mset claim_slot (mset (hvals (p_pending p)))"

definition pool_inv :: "slot multiset \<Rightarrow> pool \<Rightarrow> bool" where
  "pool_inv P p \<longleftrightarrow> slots_ok (P + held_of p + pending_of p) p \<and> queues_ok p \<and> hmap_ok (p_pending p)"

definition same_holds :: "pool \<Rightarrow> pool \<Rightarrow> bool" where
  "same_holds p q \<longleftrightarrow> af_holds (p_affinity p) = af_holds (p_affinity q) \<and> p_pending p = p_pending q"

lemma held_cong: "same_holds p q \<Longrightarrow> held_of p = held_of q"
  by (simp add: held_of_def same_holds_def)

lemma pending_cong: "same_holds p q \<Longrightarrow> pending_of p = pending_of q"
  by (simp add: pending_of_def same_holds_def)

lemma same_holds_charge: "same_holds (charge t k c p) p"
  by (simp add: same_holds_def charge_def Let_def)

lemma same_holds_occupy: "same_holds (occupy t k c p) p"
  by (simp add: same_holds_def occupy_def charge_def Let_def)

lemma same_holds_track_meta: "same_holds (track_meta r p) p"
  by (simp add: same_holds_def track_meta_def)

lemma same_holds_grant_slot: "same_holds (grant_slot t k w p) p"
  by (simp add: same_holds_def grant_slot_def advance_virtual_time_def occupy_def charge_def
      track_waiter_meta_def Let_def split: option.splits)

lemma same_holds_redeemed: "same_holds (advance_virtual_time (charge t k c (track_waiter_meta t k w p))) p"
  by (simp add: same_holds_def advance_virtual_time_def charge_def track_waiter_meta_def Let_def split: option.splits)

lemma same_holds_vacate: "same_holds (vacate t k p) p"
  by (simp add: same_holds_def vacate_def)

lemma same_holds_forget: "same_holds (forget_if_quiet t k p) p"
  by (simp add: same_holds_def forget_if_quiet_def forget_key_def forget_tenant_def Let_def)

lemma same_holds_pass_earlier: "same_holds (pass_earlier t k a p) p"
  by (simp add: same_holds_def pass_earlier_def split: option.splits)

lemma same_holds_send: "same_holds (fst (send_grant now g r ad w p)) p"
  by (simp add: same_holds_def send_grant_def Let_def pass_earlier_def split: option.splits)

lemma same_holds_put_queue: "same_holds (put_queue f t p) p"
  by (simp add: same_holds_def put_queue_def)

lemma same_holds_enqueue: "same_holds (enqueue req r e f p) p"
  by (simp add: same_holds_def enqueue_def put_queue_def place_tenant_def place_key_def Let_def split: option.splits)

lemma same_holds_pop: "pop_waiter t k i p = Some (p', w) \<Longrightarrow> same_holds p' p"
  by (auto simp: same_holds_def pop_waiter_def split: option.splits)

lemmas hold_frame =
  same_holds_charge same_holds_occupy same_holds_track_meta same_holds_grant_slot same_holds_redeemed
  same_holds_vacate same_holds_forget same_holds_pass_earlier same_holds_send same_holds_put_queue
  same_holds_enqueue

lemmas hold_cong = hold_frame [THEN held_cong] hold_frame [THEN pending_cong]

lemma same_holds_take_next: "same_holds (fst (take_next dead now effective p)) p"
proof (induction p rule: measure_induct_rule [of p_queued_total])
  case (less p)
  have "same_holds (fst (take_next dead now effective (forget_if_quiet t k p'))) p"
    if "pop_waiter t k i p = Some (p', w)" "0 < p_queued_total p" for t k i p' w
    using less.IH [of "forget_if_quiet t k p'"] queued_total_pop [OF that(1)] that
      same_holds_pop [OF that(1)] same_holds_forget [of t k p'] by (simp add: same_holds_def)
  moreover have "same_holds (grant_slot t k u p') p" if "pop_waiter t k i p = Some (p', w)" for t k i p' w u
    using same_holds_grant_slot [of t k u p'] same_holds_pop [OF that] by (simp add: same_holds_def)
  ultimately show ?case
    by (subst take_next.simps)
      (auto simp: Let_def same_holds_def case_prod_beta' split: option.splits)
qed

lemma queues_ok_send: "queues_ok p \<Longrightarrow> queues_ok (fst (send_grant now g r ad w p))"
  by (simp add: send_grant_def Let_def queue_cong)

lemma waiting_send: "waiting (fst (send_grant now g r ad w p)) = waiting p"
  by (simp add: send_grant_def Let_def waiting_frame)

lemma send_grant_admitted [simp]:
  "snd (send_grant now g r ad w p) =
     \<lparr>ad_respond = r, ad_permit = \<lparr>pm_tenant = g_tenant g, pm_key = g_key g, pm_pool = p_key p, pm_session = g_session g\<rparr>,
      ad_admission = ad, ad_waited = w\<rparr>"
  by (simp add: send_grant_def make_admitted_def Let_def)

lemma pool_inv_new [simp]: "pool_inv {#} (pool_new key alg cap)"
  by (simp add: pool_inv_def held_of_def pending_of_def hvals_def)
    (simp add: pool_new_def affinity_default_def slots_ok_def queues_ok_def)

lemma pool_inv_send: "pool_inv P p \<Longrightarrow> pool_inv P (fst (send_grant now g r ad w p))"
  using same_holds_send [of now g r ad w p]
  by (simp add: pool_inv_def hold_cong pool_frame queues_ok_send same_holds_def)

lemma pool_inv_track_meta: "pool_inv P p \<Longrightarrow> pool_inv P (track_meta r p)"
  using same_holds_track_meta [of r p]
  by (simp add: pool_inv_def hold_cong pool_frame queue_cong same_holds_def)

lemma queues_ok_enqueue: "queues_ok p \<Longrightarrow> queues_ok (enqueue req r e f p)"
proof -
  assume ok: "queues_ok p"
  let ?p = "if tenant_queue_empty p (rq_tenant req) then place_tenant (rq_tenant req) p else p"
  let ?p' = "if queued_key_len ?p (rq_tenant req) (rq_key req) = 0 then place_key (rq_key req) ?p else ?p"
  have "same_queues ?p' p"
    by (simp add: same_queues_def place_tenant_def place_key_def Let_def split: option.splits)
  then have "queues_ok ?p'" using ok queues_ok_cong by blast
  then show ?thesis unfolding enqueue_def Let_def by (intro queues_ok_put) auto
qed

lemma waiting_enqueue:
  "waiting (enqueue req r e f p) t k =
     (if t = rq_tenant req \<and> k = rq_key req then waiting p t k @ [r] else waiting p t k)"
proof -
  let ?p = "if tenant_queue_empty p (rq_tenant req) then place_tenant (rq_tenant req) p else p"
  let ?p' = "if queued_key_len ?p (rq_tenant req) (rq_key req) = 0 then place_key (rq_key req) ?p else ?p"
  have "same_queues ?p' p"
    by (simp add: same_queues_def place_tenant_def place_key_def Let_def split: option.splits)
  then have "deque ?p' = deque p" by (rule deque_cong)
  then show ?thesis
    unfolding enqueue_def Let_def waiting_def deque_push by (simp add: waiter_of_def)
qed

lemma pool_inv_enqueue: "pool_inv P p \<Longrightarrow> pool_inv P (enqueue req r e f p)"
  using same_holds_enqueue [of req r e f p]
  by (simp add: pool_inv_def hold_cong pool_frame queues_ok_enqueue same_holds_def)

lemma pool_inv_occupy: "pool_inv P p \<Longrightarrow> pool_inv (add_mset (t, k) P) (occupy t k c p)"
  using same_holds_occupy [of t k c p] slots_occupy [of "P + held_of p + pending_of p" p t k c]
  by (simp add: pool_inv_def hold_cong queue_cong same_holds_def)

lemma pool_inv_grant_fast:
  "pool_inv P p \<Longrightarrow> pool_inv (add_mset (rq_tenant req, rq_key req) P) (fst (grant_fast now req r p))"
  unfolding grant_fast_def by (intro pool_inv_send pool_inv_occupy)

lemma queues_ok_release: "queues_ok p \<Longrightarrow> queues_ok (release t k p)"
  unfolding release_def
  by (metis queue_frame(7) queues_ok_cong same_queues_forget)

lemma waiting_release: "queues_ok p \<Longrightarrow> waiting (release t k p) = waiting p"
  unfolding release_def
  by (metis queue_frame(7) queues_ok_cong same_queues_forget waiting_cong)

lemma same_holds_release: "same_holds (release t k p) p"
  using same_holds_forget [of t k "vacate t k p"] same_holds_vacate [of t k p]
  by (simp add: release_def same_holds_def)

lemma slots_release: "slots_ok S p \<Longrightarrow> (t, k) \<in># S \<Longrightarrow> slots_ok (S - {#(t, k)#}) (release t k p)"
  by (simp add: release_def pool_frame slots_vacate)

lemma pool_inv_release:
  "pool_inv (add_mset (t, k) P) p \<Longrightarrow> pool_inv P (release t k p)"
  using same_holds_release [of t k p] slots_release [of "add_mset (t, k) P + held_of p + pending_of p" p t k]
  by (simp add: pool_inv_def queues_ok_release held_cong [OF same_holds_release]
      pending_cong [OF same_holds_release] same_holds_def)

text \<open>Taking the next waiter: its slot is the caller's to hand on.\<close>

lemma take_next_inv:
  assumes "pool_inv P p" and "take_next dead now effective p = (p', r, d)"
  shows "case r of None \<Rightarrow> pool_inv P p' | Some (t, k, w) \<Rightarrow> pool_inv (add_mset (t, k) P) p'"
proof -
  have h: "same_holds p' p" using same_holds_take_next [of dead now effective p] assms(2) by simp
  note c = held_cong [OF h] pending_cong [OF h]
  have ok: "queues_ok p" "slots_ok (P + held_of p + pending_of p) p" "hmap_ok (p_pending p')"
    using assms(1) h by (auto simp: pool_inv_def same_holds_def)
  show ?thesis
  proof (cases rule: take_next_outcome [where dead = dead and now = now and effective = effective, OF ok(1,2)])
    case (1 p1 d')
    then show ?thesis using assms(2) ok(3) c by (simp add: pool_inv_def)
  next
    case (2 p1 p2 t k w d')
    then show ?thesis
      using assms(2) ok(3) c granting_queues(1) [OF 2(5,2)] granting_slots [OF 2(5,3)] by (simp add: pool_inv_def)
  qed
qed

lemma dispatch_one_inv:
  assumes "pool_inv P p" and "dispatch_one dead now effective p = (p', ad, d)"
  shows "case ad of None \<Rightarrow> pool_inv P p'
    | Some a \<Rightarrow> pool_inv (add_mset (pm_tenant (ad_permit a), pm_key (ad_permit a)) P) p'"
proof -
  obtain q r where q: "take_next dead now effective p = (q, r, d)"
    using assms(2) by (auto simp: dispatch_one_def Let_def split: prod.splits option.splits)
  show ?thesis
  proof (cases r)
    case None
    then show ?thesis
      using take_next_inv [OF assms(1) q] assms(2) q by (auto simp: dispatch_one_def)
  next
    case (Some x)
    obtain t k w where x: "x = (t, k, w)" by (cases x)
    let ?s = "send_grant now (grant_new t k (w_session w) (w_jumped w)) (w_respond w) Queued (now - w_enqueued w) q"
    have "p' = fst ?s" "ad = Some (snd ?s)"
      using assms(2) by (simp_all add: dispatch_one_def q Some x case_prod_beta' Let_def)
    moreover have "pool_inv (add_mset (t, k) P) q" using take_next_inv [OF assms(1) q] Some x by simp
    ultimately show ?thesis
      using pool_inv_send [of "add_mset (t, k) P" q]
      by (simp add: grant_new_def)
  qed
qed


text \<open>A claim: the waiter's slot goes to the pending claims, and back to the queue on a refusal.\<close>

lemma pool_inv_pending:
  assumes "pool_inv (add_mset (claim_slot c) P) p" and "map_of (p_pending p) i = None"
  shows "pool_inv P (p\<lparr>p_pending := AList.update i c (p_pending p)\<rparr>)"
proof -
  have "AList.update i c (p_pending p) = p_pending p @ [(i, c)]"
    using assms(2) by (intro update_fresh) (simp add: map_of_eq_None_iff)
  then have "pending_of (p\<lparr>p_pending := AList.update i c (p_pending p)\<rparr>) = add_mset (claim_slot c) (pending_of p)"
    by (simp add: pending_of_def hvals_def)
  moreover have "held_of (p\<lparr>p_pending := m\<rparr>) = held_of p" "queues_ok (p\<lparr>p_pending := m\<rparr>) = queues_ok p"
    "slots_ok S (p\<lparr>p_pending := m\<rparr>) = slots_ok S p" for m S
    by (simp_all add: held_of_def queues_ok_def slots_ok_def)
  ultimately show ?thesis using assms(1) by (simp add: pool_inv_def)
qed

lemma mset_delete_hmap:
  "hmap_ok m \<Longrightarrow> map_of m k = Some v \<Longrightarrow> mset (hvals m) = add_mset v (mset (hvals (AList.delete k m)))"
  by (induction m) (auto simp: hmap_ok_def hvals_def delete_id)

lemma pool_inv_unpend:
  assumes "pool_inv P p" and "map_of (p_pending p) i = Some c"
  shows "pool_inv (add_mset (claim_slot c) P) (p\<lparr>p_pending := AList.delete i (p_pending p)\<rparr>)"
proof -
  have "pending_of p = add_mset (claim_slot c) (pending_of (p\<lparr>p_pending := AList.delete i (p_pending p)\<rparr>))"
    using mset_delete_hmap [of "p_pending p" i c] assms by (simp add: pending_of_def pool_inv_def)
  moreover have "held_of (p\<lparr>p_pending := m\<rparr>) = held_of p" "queues_ok (p\<lparr>p_pending := m\<rparr>) = queues_ok p"
    "slots_ok S (p\<lparr>p_pending := m\<rparr>) = slots_ok S p" for m S
    by (simp_all add: held_of_def queues_ok_def slots_ok_def)
  ultimately show ?thesis using assms(1) by (simp add: pool_inv_def)
qed

lemma same_holds_requeue: "same_holds (requeue c p) p"
  by (simp add: same_holds_def requeue_def put_queue_def vacate_def Let_def)

lemma queues_ok_requeue: "queues_ok p \<Longrightarrow> queues_ok (requeue c p)"
  unfolding requeue_def Let_def
  by (intro queues_ok_put) (auto simp: queues_ok_def vacate_def)

lemma pool_inv_requeue:
  "pool_inv (add_mset (claim_slot c) P) p \<Longrightarrow> pool_inv P (requeue c p)"
proof -
  assume i: "pool_inv (add_mset (claim_slot c) P) p"
  let ?S = "add_mset (claim_slot c) P + held_of p + pending_of p"
  have "slots_ok (?S - {#claim_slot c#}) (vacate (pc_tenant c) (pc_key c) p)"
    using i slots_vacate [of ?S p "pc_tenant c" "pc_key c"] by (simp add: pool_inv_def claim_slot_def)
  then have "slots_ok (P + held_of p + pending_of p) (requeue c p)"
    by (simp add: requeue_def Let_def pool_frame) (simp add: slots_ok_def)
  then show ?thesis
    using i same_holds_requeue [of c p]
    by (simp add: pool_inv_def held_cong [OF same_holds_requeue] pending_cong [OF same_holds_requeue]
        queues_ok_requeue same_holds_def)
qed

lemma waiting_requeue:
  "mset (waiting (requeue c p) t k) =
     (if (t, k) = claim_slot c then add_mset (w_respond (pc_waiter c)) (mset (waiting p t k))
      else mset (waiting p t k))"
proof -
  let ?p = "(vacate (pc_tenant c) (pc_key c) p)
    \<lparr>p_served := uncharge (pc_tenant c) (w_cost (pc_waiter c)) (p_served p),
     p_key_served := uncharge (pc_key c) (w_cost (pc_waiter c)) (p_key_served p)\<rparr>"
  have d: "deque ?p = deque p" by (rule deque_cong) (simp add: same_queues_def vacate_def)
  have r: "requeue c p =
      put_queue (tq_reinsert (pc_key c) ((pc_waiter c)\<lparr>w_fast := False, w_jumped := False\<rparr>)) (pc_tenant c) ?p"
    by (simp add: requeue_def Let_def vacate_def)
  show ?thesis
    unfolding waiting_def r deque_put key_queue_reinsert deque_get d
    by (auto simp: claim_slot_def mset_map)
qed

lemma probe_target_Some:
  assumes "queues_ok p" and "probe_target dead p = Some (t, k, i)"
  shows "i < length (deque p t k)" and "\<not> dead (w_respond (deque p t k ! i))"
    and "w_session (deque p t k ! i) \<noteq> None" and "\<not> key_passed_out dead p t k"
proof -
  obtain q d where q: "(t, q) \<in> set (p_queues p)" "(k, d) \<in> set (tq_keys q)"
    and pos: "position (\<lambda>w. w_session w \<noteq> None \<and> \<not> w_probed w \<and> \<not> dead (w_respond w)) d = Some i"
    and n: "\<not> key_passed_out dead p t k"
    using assms(2) unfolding probe_target_def
    by (auto dest!: find_map_Some split: option.splits if_splits)
  have m: "map_of (p_queues p) t = Some q" using q(1) assms(1) hmap_entry [of "p_queues p" t q] by (simp add: queues_ok_def)
  moreover have "map_of (tq_keys q) k = Some d"
    using q(2) hmap_entry [of "tq_keys q" k d] queues_okD [OF assms(1) m] by (simp add: tq_ok_def)
  ultimately have "deque p t k = d" by (simp add: deque_def key_queue_def get_or_Some)
  then show "i < length (deque p t k)" "\<not> dead (w_respond (deque p t k ! i))"
    "w_session (deque p t k ! i) \<noteq> None" "\<not> key_passed_out dead p t k"
    using position_Some [OF pos] n by auto
qed

lemma take_probe_inv:
  assumes "pool_inv P p" and "take_probe dead p = (p', r)"
  shows "case r of None \<Rightarrow> pool_inv P p' | Some (t, k, w) \<Rightarrow> pool_inv (add_mset (t, k) P) p'"
proof (cases "probe_target dead p")
  case None
  then show ?thesis using assms by (auto simp: take_probe_def)
next
  case (Some x)
  obtain t k i where x: "x = (t, k, i)" by (cases x)
  have ok: "queues_ok p" using assms(1) by (simp add: pool_inv_def)
  obtain q w where pop: "pop_waiter t k i p = Some (q, w)"
    using probe_target_Some(1) [OF ok] Some x pop_waiter_Some by blast
  obtain u where r: "r = Some (t, k, u)" "p' = grant_slot t k u q"
    using assms(2) by (auto simp: take_probe_def Some x pop Let_def)
  have h: "same_holds p' p"
    using same_holds_grant_slot [of t k u q] same_holds_pop [OF pop] r by (simp add: same_holds_def)
  have "slots_ok (add_mset (t, k) (P + held_of p + pending_of p)) p'"
    using assms(1) slots_pop [OF pop] unfolding r by (intro slots_grant_slot) (simp add: pool_inv_def)
  moreover have "queues_ok p'" using queues_ok_pop(1) [OF ok pop] by (simp add: r queue_cong)
  ultimately show ?thesis
    using assms(1) h held_cong [OF h] pending_cong [OF h] r by (simp add: pool_inv_def same_holds_def)
qed

section \<open>Dead waiters\<close>

lemma vals_okI: "(\<And>k v. (k, v) \<in> set m \<Longrightarrow> P v) \<Longrightarrow> vals_ok P m"
  by (auto simp: vals_ok_def dest: map_of_SomeD)

definition dead_count :: "(respond \<Rightarrow> bool) \<Rightarrow> tenant_queue \<Rightarrow> nat" where
  "dead_count dead q =
     sum_list (map (\<lambda>(k, d). length d - length (filter (\<lambda>w. \<not> dead (w_respond w)) d)) (tq_keys q))"

lemma prune_lists_len:
  "sum_list (map (\<lambda>(_, d). length d) (filter (\<lambda>(_, d). d \<noteq> []) (map (\<lambda>(k, d). (k, filter P d)) ks))) +
   sum_list (map (\<lambda>(k, d). length d - length (filter P d)) ks) = msum length ks"
proof (induction ks)
  case (Cons e ks)
  obtain k d where e: "e = (k, d)" by (cases e)
  obtain n where n: "length d = length (filter P d) + n"
    using length_filter_le [of P d] le_Suc_ex by blast
  show ?case using Cons by (auto simp: e n)
qed simp

lemma prune_queue_len: "tq_ok q \<Longrightarrow> tq_len (prune_queue dead q) + dead_count dead q = tq_len q"
  using prune_lists_len [of "\<lambda>w. \<not> dead (w_respond w)" "tq_keys q"]
  by (simp add: prune_queue_def dead_count_def tq_ok_def Let_def)

lemma prune_queue_ok: "tq_ok q \<Longrightarrow> tq_ok (prune_queue dead q)"
proof -
  assume "tq_ok q"
  let ?m = "filter (\<lambda>(_, d). d \<noteq> []) (map (\<lambda>(k, d). (k, filter (\<lambda>w. \<not> dead (w_respond w)) d)) (tq_keys q))"
  have "hmap_ok ?m" using \<open>tq_ok q\<close> by (intro hmap_ok_filter) (simp add: tq_ok_def)
  moreover have "vals_ok (\<lambda>d. d \<noteq> []) ?m" by (rule vals_okI) auto
  moreover have "sum_list (map (\<lambda>(_, d). length d) ?m) = msum length ?m"
    unfolding msum_def by (rule arg_cong [where f = sum_list]) (simp add: case_prod_beta')
  ultimately show ?thesis by (simp add: tq_ok_def prune_queue_def Let_def)
qed

lemma map_of_map_value: "map_of (map (\<lambda>(k, v). (k, f v)) m) k = map_option f (map_of m k)"
  by (induction m) auto

lemma map_of_filter_map:
  "hmap_ok m \<Longrightarrow> map_of (filter (\<lambda>(_, d). P d) m) k =
     (case map_of m k of None \<Rightarrow> None | Some d \<Rightarrow> if P d then Some d else None)"
proof (induction m)
  case (Cons e m)
  then have "fst e \<notin> fst ` set m" by (simp add: hmap_ok_def)
  then have "map_of m (fst e) = None" by (simp add: map_of_eq_None_iff)
  then show ?case using Cons by (auto simp: hmap_ok_def split: option.splits)
qed simp

lemma key_queue_prune:
  "tq_ok q \<Longrightarrow> key_queue (prune_queue dead q) k = filter (\<lambda>w. \<not> dead (w_respond w)) (key_queue q k)"
proof -
  assume "tq_ok q"
  let ?m = "map (\<lambda>(k, d). (k, filter (\<lambda>w. \<not> dead (w_respond w)) d)) (tq_keys q)"
  have "hmap_ok ?m" using \<open>tq_ok q\<close> by (simp add: tq_ok_def)
  then have "map_of (filter (\<lambda>(_, d). d \<noteq> []) ?m) k =
      (case map_of ?m k of None \<Rightarrow> None | Some d \<Rightarrow> if d \<noteq> [] then Some d else None)"
    by (rule map_of_filter_map)
  then show ?thesis
    by (auto simp: key_queue_def prune_queue_def Let_def get_or_def map_of_map_value split: option.splits)
qed

lemma length_dead_waiters: "length (dead_waiters dead qs) = sum_list (map (\<lambda>(_, q). dead_count dead q) qs)"
proof -
  have "length (concat (map (\<lambda>(k, d). replicate (f k d) (t, k)) ks)) = sum_list (map (\<lambda>(k, d). f k d) ks)"
    for f :: "uuid \<Rightarrow> waiter list \<Rightarrow> nat" and t :: uuid and ks :: "(uuid, waiter list) hmap"
    by (induction ks) auto
  then show ?thesis
    by (induction qs) (auto simp: dead_waiters_def dead_count_def)
qed

lemma pruned_total:
  "(\<And>t q. (t, q) \<in> set qs \<Longrightarrow> tq_ok q) \<Longrightarrow>
   msum tq_len (filter (\<lambda>(_, q). \<not> tq_is_empty q) (map (\<lambda>(t, q). (t, prune_queue dead q)) qs)) +
   length (dead_waiters dead qs) = msum tq_len qs"
proof (induction qs)
  case (Cons e qs)
  obtain t q where e: "e = (t, q)" by (cases e)
  have "tq_len (prune_queue dead q) + dead_count dead q = tq_len q"
    using Cons.prems e by (intro prune_queue_len) auto
  moreover have "msum tq_len (filter (\<lambda>(_, q). \<not> tq_is_empty q) (map (\<lambda>(t, q). (t, prune_queue dead q)) qs)) +
      length (dead_waiters dead qs) = msum tq_len qs"
    using Cons.prems by (intro Cons.IH) auto
  ultimately show ?case by (auto simp: e length_dead_waiters tq_is_empty_def)
qed (simp add: dead_waiters_def)

lemma fold_forget:
  "queues_ok p \<Longrightarrow> same_queues (fold (\<lambda>(t, k). forget_if_quiet t k) xs p) p"
proof (induction xs arbitrary: p)
  case (Cons x xs)
  obtain t k where x: "x = (t, k)" by (cases x)
  have s: "same_queues (forget_if_quiet t k p) p" using same_queues_forget Cons.prems .
  then have "queues_ok (forget_if_quiet t k p)" using queues_ok_cong Cons.prems by blast
  then show ?case using Cons.IH [of "forget_if_quiet t k p"] s by (simp add: x same_queues_def)
qed (simp add: same_queues_def)

lemma fold_forget_slots: "slots_ok S (fold (\<lambda>(t, k). forget_if_quiet t k) xs p) = slots_ok S p"
  by (induction xs arbitrary: p) (simp_all add: slots_forget case_prod_beta')

lemma fold_forget_holds: "same_holds (fold (\<lambda>(t, k). forget_if_quiet t k) xs p) p"
proof (induction xs arbitrary: p)
  case (Cons x xs)
  then show ?case
    using same_holds_forget [of "fst x" "snd x" p] by (auto simp: same_holds_def case_prod_beta')
qed (simp add: same_holds_def)

definition pruned :: "(respond \<Rightarrow> bool) \<Rightarrow> pool \<Rightarrow> pool" where
  "pruned dead p = p\<lparr>p_queues := filter (\<lambda>(_, q). \<not> tq_is_empty q) (map (\<lambda>(t, q). (t, prune_queue dead q)) (p_queues p)),
     p_queued_total := p_queued_total p - length (dead_waiters dead (p_queues p))\<rparr>"

lemma queue_entries_ok: "queues_ok p \<Longrightarrow> (t, q) \<in> set (p_queues p) \<Longrightarrow> tq_ok q \<and> 0 < tq_len q"
  using hmap_entry [of "p_queues p" t q] queues_okD [of p t q] by (simp add: queues_ok_def)

lemma queues_ok_pruned: "queues_ok p \<Longrightarrow> queues_ok (pruned dead p)"
proof -
  assume ok: "queues_ok p"
  have "msum tq_len (filter (\<lambda>(_, q). \<not> tq_is_empty q) (map (\<lambda>(t, q). (t, prune_queue dead q)) (p_queues p))) +
      length (dead_waiters dead (p_queues p)) = msum tq_len (p_queues p)"
    using queue_entries_ok [OF ok] by (intro pruned_total) blast
  moreover have "hmap_ok (filter (\<lambda>(_, q). \<not> tq_is_empty q) (map (\<lambda>(t, q). (t, prune_queue dead q)) (p_queues p)))"
    using ok by (intro hmap_ok_filter) (simp add: queues_ok_def)
  moreover have "vals_ok (\<lambda>q. tq_ok q \<and> 0 < tq_len q)
      (filter (\<lambda>(_, q). \<not> tq_is_empty q) (map (\<lambda>(t, q). (t, prune_queue dead q)) (p_queues p)))"
    using queue_entries_ok [OF ok] by (auto intro!: vals_okI prune_queue_ok simp: tq_is_empty_def)
  ultimately show ?thesis using ok by (simp add: queues_ok_def pruned_def)
qed

lemma deque_pruned:
  assumes "queues_ok p"
  shows "deque (pruned dead p) t k = filter (\<lambda>w. \<not> dead (w_respond w)) (deque p t k)"
proof -
  have h: "hmap_ok (map (\<lambda>(t, q). (t, prune_queue dead q)) (p_queues p))"
    using assms by (simp add: queues_ok_def)
  show ?thesis
  proof (cases "map_of (p_queues p) t")
    case None
    then show ?thesis
      using map_of_filter_map [OF h, of "\<lambda>q. \<not> tq_is_empty q" t] by (simp add: deque_def pruned_def map_of_map_value)
  next
    case (Some q)
    then have q: "tq_ok q" using queues_okD [OF assms] by blast
    note k = key_queue_prune [OF q, of dead k]
    show ?thesis
      using Some map_of_filter_map [OF h, of "\<lambda>q. \<not> tq_is_empty q" t] k
        key_queue_empty [OF prune_queue_ok [OF q], of dead k]
      by (auto simp: deque_def pruned_def map_of_map_value tq_is_empty_def)
  qed
qed

lemma dead_waiters_Nil:
  assumes "queues_ok p" and "dead_waiters dead (p_queues p) = []"
  shows "map (\<lambda>(t, q). (t, prune_queue dead q)) (p_queues p) =
    filter (\<lambda>(_, q). \<not> tq_is_empty q) (map (\<lambda>(t, q). (t, prune_queue dead q)) (p_queues p))"
proof -
  have "dead_count dead q = 0" if "(t, q) \<in> set (p_queues p)" for t q
    using assms(2) that length_dead_waiters [of dead "p_queues p"]
    by (auto simp: sum_list_eq_0_iff)
  then have "tq_len (prune_queue dead q) = tq_len q" if "(t, q) \<in> set (p_queues p)" for t q
    using that prune_queue_len [of q dead] queue_entries_ok [OF assms(1) that] by force
  then show ?thesis
    using queue_entries_ok [OF assms(1)] by (auto simp: tq_is_empty_def intro!: filter_True [symmetric])
qed

lemma prune_eq:
  assumes "queues_ok p"
  shows "prune_dead_waiters dead p =
    (fold (\<lambda>(t, k). forget_if_quiet t k) (dead_waiters dead (p_queues p)) (pruned dead p),
     length (dead_waiters dead (p_queues p)))"
  using dead_waiters_Nil [OF assms, of dead]
  by (simp add: prune_dead_waiters_def pruned_def Let_def)

lemma prune_correct:
  assumes "queues_ok p" and "prune_dead_waiters dead p = (p', n)"
  shows "queues_ok p'" and "deque p' t k = filter (\<lambda>w. \<not> dead (w_respond w)) (deque p t k)"
    and "p_queued_total p = p_queued_total p' + n" and "same_holds p' p" and "slots_ok S p' = slots_ok S p"
proof -
  let ?d = "dead_waiters dead (p_queues p)"
  have e: "p' = fold (\<lambda>(t, k). forget_if_quiet t k) ?d (pruned dead p)" "n = length ?d"
    using assms(2) by (simp_all add: prune_eq [OF assms(1)])
  have s: "same_queues p' (pruned dead p)" using fold_forget [OF queues_ok_pruned [OF assms(1)]] e by simp
  then show "queues_ok p'" "deque p' t k = filter (\<lambda>w. \<not> dead (w_respond w)) (deque p t k)"
    using queues_ok_pruned [OF assms(1)] deque_pruned [OF assms(1)] queues_ok_cong deque_cong by metis+
  have "length ?d \<le> p_queued_total p"
    using pruned_total [of "p_queues p" dead] queue_entries_ok [OF assms(1)] assms(1) by (force simp: queues_ok_def)
  then show "p_queued_total p = p_queued_total p' + n"
    using s e(2) by (simp add: same_queues_def pruned_def)
  show "same_holds p' p" using fold_forget_holds [of ?d "pruned dead p"] e by (simp add: same_holds_def pruned_def)
  show "slots_ok S p' = slots_ok S p" by (simp add: e(1) fold_forget_slots) (simp add: slots_ok_def pruned_def)
qed

lemma pool_inv_prune: "pool_inv P p \<Longrightarrow> prune_dead_waiters dead p = (p', n) \<Longrightarrow> pool_inv P p'"
  using prune_correct [of p dead p' n] held_cong [of p' p] pending_cong [of p' p]
  by (simp add: pool_inv_def same_holds_def)

section \<open>Held slots keep their place\<close>

text \<open>
  Changing the affinity state hands slots between the held slots and the outstanding ones: what
  leaves the holds becomes the caller's, what enters them stops being so.
\<close>

lemma pool_inv_change_holds:
  assumes "pool_inv (P + K) p"
    and "image_mset hold_slot (mset (af_holds a)) + H = held_of p + K"
  shows "pool_inv (P + H) (p\<lparr>p_affinity := a\<rparr>)"
proof -
  let ?A = "image_mset hold_slot (mset (af_holds a))"
  have "P + H + ?A + pending_of p = P + (?A + H) + pending_of p" by (simp only: ac_simps)
  also have "\<dots> = P + K + held_of p + pending_of p" unfolding assms(2) by (simp only: ac_simps)
  finally have e: "P + H + ?A + pending_of p = P + K + held_of p + pending_of p" .
  have "slots_ok (P + H + ?A + pending_of p) (p\<lparr>p_affinity := a\<rparr>)"
    unfolding e slots_affinity using assms(1) by (simp add: pool_inv_def)
  moreover have "pending_of (p\<lparr>p_affinity := a\<rparr>) = pending_of p" "held_of (p\<lparr>p_affinity := a\<rparr>) = ?A"
    by (simp_all add: pending_of_def held_of_def)
  ultimately show ?thesis using assms(1) by (simp add: pool_inv_def queue_cong)
qed

lemma pool_inv_same_holds_affinity:
  "pool_inv P p \<Longrightarrow> af_holds a = af_holds (p_affinity p) \<Longrightarrow> pool_inv P (p\<lparr>p_affinity := a\<rparr>)"
  using pool_inv_change_holds [of P "{#}" p a "{#}"] by (simp add: held_of_def)

lemma held_back:
  "mset (af_holds a') + mset gone = mset (af_holds a) \<Longrightarrow>
   image_mset hold_slot (mset (af_holds a')) + image_mset hold_slot (mset gone) =
   image_mset hold_slot (mset (af_holds a))"
  by (metis image_mset_union)

text \<open>Whatever an operation of the affinity state hands back is the caller's to release.\<close>

lemma pool_inv_handback:
  assumes "pool_inv P p" and "mset (af_holds a) + mset gone = mset (af_holds (p_affinity p))"
  shows "pool_inv (P + image_mset hold_slot (mset gone)) (p\<lparr>p_affinity := a\<rparr>)"
  using pool_inv_change_holds [of P "{#}" p a] assms(1) held_back [OF assms(2)] by (simp add: held_of_def)

lemma give_up_keys_conserve:
  "mset (af_holds (fst (give_up_keys ks a))) + mset (snd (give_up_keys ks a)) = mset (af_holds a)"
proof (induction ks arbitrary: a)
  case (Cons k ks)
  show ?case
    using give_up_key_back.conserve [of k a] Cons.IH [of "fst (af_give_up_key k a)"]
    by (auto simp: case_prod_beta' Let_def ac_simps)
qed simp

lemma holds_to_give_up_inv:
  assumes "pool_inv P p" and "holds_to_give_up dead now p = (p', gone)"
  shows "pool_inv (P + image_mset hold_slot (mset gone)) p'"
proof (cases "oldest_aged dead now p")
  case True
  then have "p' = p\<lparr>p_affinity := fst (af_give_up (p_affinity p))\<rparr>" "gone = snd (af_give_up (p_affinity p))"
    using assms(2) by (auto simp: holds_to_give_up_def case_prod_beta' Let_def)
  then show ?thesis using pool_inv_handback [OF assms(1)] give_up_back.conserve [of "p_affinity p"] by simp
next
  case False
  then obtain ks where "p' = p\<lparr>p_affinity := fst (give_up_keys ks (p_affinity p))\<rparr>"
    "gone = snd (give_up_keys ks (p_affinity p))"
    using assms(2) by (auto simp: holds_to_give_up_def case_prod_beta' Let_def)
  then show ?thesis using pool_inv_handback [OF assms(1)] give_up_keys_conserve [of ks "p_affinity p"] by simp
qed

text \<open>Releasing a list of handed-back slots.\<close>

definition release_holds :: "hold list \<Rightarrow> pool \<Rightarrow> pool" where
  "release_holds hs p = fold (\<lambda>h. release (h_tenant h) (h_key h)) hs p"

lemma release_holds_inv:
  "pool_inv (P + image_mset hold_slot (mset hs)) p \<Longrightarrow> pool_inv P (release_holds hs p)"
proof (induction hs arbitrary: p)
  case (Cons h hs)
  then have "pool_inv (add_mset (h_tenant h, h_key h) (P + image_mset hold_slot (mset hs))) p"
    by (simp add: hold_slot_def [of h])
  then show ?case using Cons.IH pool_inv_release by (simp add: release_holds_def)
qed (simp add: release_holds_def)

text \<open>A finished step: its slot is released by the caller, or stays taken as a hold.\<close>

lemma finish_step_inv:
  assumes "pool_inv (add_mset (t, k) P) p" and "finish_step dead now t k session hold_in p = (p', e)"
  shows "case e of StepHeld \<Rightarrow> pool_inv P p' | _ \<Rightarrow> pool_inv (add_mset (t, k) P) p'"
proof -
  let ?a = "fst (af_finished (p_affinity p) session now)"
  let ?p = "p\<lparr>p_affinity := ?a\<rparr>"
  have i: "pool_inv (add_mset (t, k) P) ?p" using assms(1) by (rule pool_inv_same_holds_affinity) simp
  show ?thesis
  proof (cases "e = StepHeld")
    case True
    then obtain s where p': "p' = ?p\<lparr>p_affinity := af_hold ?a s t k now\<rparr>" and c: "can_hold ?a (p_cap p)"
      using assms(2)
      by (auto simp: finish_step_def case_prod_beta' Let_def split: option.splits if_splits hold_in.splits)
    have "mset (af_holds (af_hold ?a s t k now)) = add_mset \<lparr>h_session = s, h_tenant = t, h_key = k,
        h_until = now + hold_for (the (af_config ?a))\<rparr> (mset (af_holds ?a))"
      using c by (auto simp: af_hold_def can_hold_def split: option.splits)
    then have "image_mset hold_slot (mset (af_holds (af_hold ?a s t k now))) + {#} = held_of ?p + {#(t, k)#}"
      by (simp add: held_of_def hold_slot_def)
    then show ?thesis
      using pool_inv_change_holds [of P "{#(t, k)#}" ?p "af_hold ?a s t k now" "{#}"] i True p' by simp
  next
    case False
    then have "p' = ?p"
      using assms(2)
      by (auto simp: finish_step_def case_prod_beta' Let_def split: option.splits if_splits hold_in.splits)
    then show ?thesis using False i by (cases e) auto
  qed
qed

section \<open>Redeeming held slots\<close>

lemma pool_inv_grant_held:
  assumes "pool_inv P p" and "af_redeem (p_affinity p) session = (a, Some h)"
  shows "pool_inv (add_mset (hold_slot h) P) (fst (grant_held now h req r (p\<lparr>p_affinity := a\<rparr>)))"
proof -
  have "mset (af_holds a) + mset [h] = mset (af_holds (p_affinity p))"
    using redeem_back.conserve [of "p_affinity p" session] assms(2) by simp
  then have "pool_inv (P + image_mset hold_slot (mset [h])) (p\<lparr>p_affinity := a\<rparr>)"
    by (rule pool_inv_handback [OF assms(1)])
  then have "pool_inv (add_mset (hold_slot h) P) (p\<lparr>p_affinity := a\<rparr>)" by simp
  then have "pool_inv (add_mset (hold_slot h) P) (charge (h_tenant h) (h_key h) (rq_cost req) (p\<lparr>p_affinity := a\<rparr>))"
    using same_holds_charge [of "h_tenant h" "h_key h" "rq_cost req" "p\<lparr>p_affinity := a\<rparr>"]
    by (simp add: pool_inv_def hold_cong pool_frame queue_cong same_holds_def)
  then show ?thesis unfolding grant_held_def Let_def by (intro pool_inv_send)
qed

lemma pool_inv_pop: "pool_inv P p \<Longrightarrow> pop_waiter t k i p = Some (p', w) \<Longrightarrow> pool_inv P p'"
  using same_holds_pop [of t k i p p' w] queues_ok_pop(1) [of p t k i p' w] slots_pop [of t k i p p' w]
    held_cong [of p' p] pending_cong [of p' p]
  by (simp add: pool_inv_def same_holds_def)

lemma pool_inv_rebill:
  "pool_inv P p \<Longrightarrow> pool_inv P (advance_virtual_time (charge t k c (track_waiter_meta t k w p)))"
  using same_holds_redeemed [of t k c w p]
  by (simp add: pool_inv_def hold_cong pool_frame queue_cong same_holds_def)

definition ad_slot :: "admitted \<Rightarrow> slot" where
  "ad_slot a = (pm_tenant (ad_permit a), pm_key (ad_permit a))"

lemma redeem_session_inv:
  "pool_inv P p \<Longrightarrow> redeem_session dead now session t k p = (p', ad, d) \<Longrightarrow>
   case ad of None \<Rightarrow> pool_inv P p' | Some a \<Rightarrow> pool_inv (add_mset (ad_slot a) P) p'"
proof (induction p arbitrary: p' ad d rule: measure_induct_rule [of "\<lambda>p. length (deque p t k)"])
  case (less p)
  show ?case
  proof (cases "find_session p t k session")
    case None
    then show ?thesis using less.prems by (auto simp: redeem_session.simps [of dead now session t k p])
  next
    case (Some i)
    then obtain q w where pop: "pop_waiter t k i p = Some (q, w)"
      using pop_waiter_Some [of i p t k] by (auto simp: find_session_def dest: position_Some)
    have q: "pool_inv P q" using pool_inv_pop [OF less.prems(1) pop] .
    show ?thesis
    proof (cases "dead (w_respond w)")
      case True
      then obtain d' where "redeem_session dead now session t k q = (p', ad, d')"
        using less.prems(2) Some pop
        by (auto simp: redeem_session.simps [of dead now session t k p] case_prod_beta' Let_def prod_eq_iff)
      then show ?thesis using less.IH [OF deque_pop [OF pop] q] by simp
    next
      case False
      obtain a h where r: "af_redeem (p_affinity q) (Some session) = (a, h)" by fastforce
      show ?thesis
      proof (cases h)
        case None
        then show ?thesis
          using less.prems(2) Some pop False r q by (auto simp: redeem_session.simps [of dead now session t k p])
      next
        case (Some h')
        have "mset (af_holds a) + mset [h'] = mset (af_holds (p_affinity q))"
          using redeem_back.conserve [of "p_affinity q" "Some session"] r Some by simp
        then have i: "pool_inv (add_mset (hold_slot h') P) (q\<lparr>p_affinity := a\<rparr>)"
          using pool_inv_handback [OF q, of a "[h']"] by simp
        let ?s = "\<lambda>j. send_grant now (grant_new (h_tenant h') (h_key h') (w_session w) j) (w_respond w) Queued
          (now - w_enqueued w) (advance_virtual_time (charge t k (w_cost w) (track_waiter_meta t k w (q\<lparr>p_affinity := a\<rparr>))))"
        obtain j where "p' = fst (?s j)" "ad = Some (snd (?s j))"
          using less.prems(2) \<open>find_session p t k session = Some i\<close> pop False r Some
          by (auto simp: redeem_session.simps [of dead now session t k p] Let_def case_prod_beta')
        then show ?thesis
          using pool_inv_send [OF pool_inv_rebill [OF i]] by (simp add: ad_slot_def hold_slot_def grant_new_def)
      qed
    qed
  qed
qed

lemma redeem_holds_inv:
  "pool_inv P p \<Longrightarrow> redeem_holds dead now hs p = (p', ads, d) \<Longrightarrow>
   pool_inv (image_mset ad_slot (mset ads) + P) p'"
proof (induction hs arbitrary: P p ads d)
  case (Cons x hs)
  obtain s t k where x: "x = (s, t, k)" by (cases x)
  show ?case
  proof (cases "key_passed_out dead p t k")
    case True
    then show ?thesis using Cons x by simp
  next
    case False
    obtain q ad d1 where q: "redeem_session dead now s t k p = (q, ad, d1)" by (cases "redeem_session dead now s t k p") auto
    obtain ads' d2 where r: "redeem_holds dead now hs q = (p', ads', d2)"
      and ads: "ads = (case ad of None \<Rightarrow> ads' | Some a \<Rightarrow> a # ads')"
      using Cons.prems(2) False x q by (auto split: prod.splits)
    show ?thesis
      using redeem_session_inv [OF Cons.prems(1) q] Cons.IH [OF _ r] ads
      by (cases ad) (auto simp flip: union_mset_add_mset_right)
  qed
qed simp

lemma redeem_queued_inv:
  "pool_inv P p \<Longrightarrow> redeem_queued dead now p = (p', ads, d) \<Longrightarrow>
   pool_inv (image_mset ad_slot (mset ads) + P) p'"
  unfolding redeem_queued_def by (rule redeem_holds_inv)

section \<open>Idle pools\<close>

lemma pool_inv_settle:
  assumes "pool_inv P p"
  shows "pool_inv P (settle_idle now p)"
proof (cases "is_idle p \<and> p_idle_since p = None")
  case True
  let ?S = "P + held_of p + pending_of p"
  have "?S = {#}" using assms True by (simp add: pool_inv_def slots_ok_def is_idle_def)
  then show ?thesis
    using assms True
    by (simp add: settle_idle_def reset_def pool_inv_def slots_ok_def queues_ok_def is_idle_def held_of_def pending_of_def)
next
  case False
  then show ?thesis
    using assms by (auto simp: settle_idle_def pool_inv_def slots_ok_def queues_ok_def held_of_def pending_of_def)
qed

lemma settle_idle_waiting: "queues_ok p \<Longrightarrow> waiting (settle_idle now p) = waiting p"
proof -
  assume ok: "queues_ok p"
  have "p_queues p = []" if "p_queued_total p = 0"
    using that ok queue_entries_ok [OF ok] by (cases "p_queues p") (fastforce simp: queues_ok_def msum_eq_0)+
  then show ?thesis
    by (auto simp: settle_idle_def reset_def is_idle_def waiting_def deque_def fun_eq_iff)
qed

end
