(* ===== verification/View.thy ===== *)
theory View
  imports Admit Caps "HOL-Library.Product_Lexorder" "HOL-Library.List_Lexorder" "HOL-Library.Char_ord"
begin

text \<open>
  What the scheduler reports (\<open>obleth-fairshare/src/view.rs\<close> and the report types of \<open>lib.rs\<close>):
  the per-pool rows of a snapshot, the compact view a replica publishes, and \<open>merge_views\<close>, which
  adds the views of a fleet into pools of the same shape. A \<open>BTreeMap\<close> is an association list kept
  sorted by key; \<open>String\<close> and \<open>Uuid\<close> order is the lexicographic order of their bytes. Ordering by
  a score is total here, as no score is NaN.
\<close>

record group_fairshare =
  gf_name :: string
  gf_weight :: int
  gf_in_flight :: nat
  gf_queued :: nat
  gf_slot_cap :: nat
  gf_borrowed :: nat
  gf_served_tokens :: f64
  gf_share_score :: f64
  gf_weight_share :: f64

record tenant_fairshare =
  tf_tenant_id :: uuid
  tf_fairshare_group :: string
  tf_weight :: int
  tf_max_in_flight :: "nat option"
  tf_in_flight :: nat
  tf_queued :: nat
  tf_served_tokens :: f64
  tf_share_score :: f64
  tf_weight_share :: f64

record key_fairshare =
  kf_key_id :: uuid
  kf_tenant_id :: uuid
  kf_weight :: int
  kf_max_in_flight :: "nat option"
  kf_in_flight :: nat
  kf_queued :: nat
  kf_served_tokens :: f64
  kf_share_score :: f64
  kf_weight_share :: f64
  kf_end_user :: "end_user option"

record model_pool_fairshare =
  mp_model :: string
  mp_cap :: nat
  mp_configured_cap :: nat
  mp_in_flight :: nat
  mp_cluster_in_flight :: "nat option"
  mp_queued :: nat
  mp_borrowed :: nat
  mp_held :: nat
  mp_groups :: "group_fairshare list"
  mp_tenants :: "tenant_fairshare list"
  mp_keys :: "key_fairshare list"

record fairshare_snapshot =
  fs_algorithm :: string
  fs_max_in_flight :: nat
  fs_configured_max_in_flight :: nat
  fs_replicas :: nat
  fs_mode :: string
  fs_shared_slots :: bool
  fs_cluster_in_flight :: "nat option"
  fs_default_model_max_in_flight :: nat
  fs_global_in_flight :: nat
  fs_global_queued :: nat
  fs_global_borrowed :: nat
  fs_pools :: "model_pool_fairshare list"
  fs_model_in_flight :: "(string, nat) hmap"
  fs_model_queued :: "(string, nat) hmap"

section \<open>Replica views\<close>

definition VIEW_VERSION :: nat where "VIEW_VERSION = 1"

definition VIEW_MAX_TENANTS_PER_POOL :: nat where "VIEW_MAX_TENANTS_PER_POOL = 512"

definition VIEW_MAX_KEYS_PER_POOL :: nat where "VIEW_MAX_KEYS_PER_POOL = 128"

definition VIEW_MAX_TENANTS :: nat where "VIEW_MAX_TENANTS = 2048"

definition VIEW_MAX_KEYS :: nat where "VIEW_MAX_KEYS = 512"

record replica_group_view =
  rg_name :: string
  rg_weight :: int
  rg_in_flight :: nat
  rg_queued :: nat
  rg_served :: f64

record replica_tenant_view =
  rtv_id :: uuid
  rtv_group :: string
  rtv_weight :: int
  rtv_cap :: "nat option"
  rtv_in_flight :: nat
  rtv_queued :: nat
  rtv_served :: f64

record replica_key_view =
  rk_id :: uuid
  rk_tenant :: uuid
  rk_weight :: int
  rk_cap :: "nat option"
  rk_in_flight :: nat
  rk_queued :: nat
  rk_served :: f64
  rk_end_user :: "end_user option"

record replica_pool_view =
  rp_pool :: string
  rp_configured_cap :: nat
  rp_in_flight :: nat
  rp_queued :: nat
  rp_groups :: "replica_group_view list"
  rp_tenants :: "replica_tenant_view list"
  rp_keys :: "replica_key_view list"
  rp_omitted_tenants :: nat
  rp_omitted_keys :: nat

record replica_view =
  rv_version :: nat
  rv_pools :: "replica_pool_view list"

record peer_view =
  pv_instance :: string
  pv_view :: replica_view
  pv_age_ms :: nat

record peer_views =
  pvs_live :: nat
  pvs_views :: "peer_view list"

record cluster_snapshot =
  cs_pools :: "model_pool_fairshare list"
  cs_replicas_live :: nat
  cs_replicas_reporting :: nat
  cs_max_age_ms :: nat

record view_budget =
  vb_tenants :: nat
  vb_keys :: nat

definition view_budget_default :: view_budget where
  "view_budget_default = \<lparr>vb_tenants = VIEW_MAX_TENANTS, vb_keys = VIEW_MAX_KEYS\<rparr>"

text \<open>\<open>load\<close> gives the load and the id of an entry: busiest first, then by id. The second result is
  the number of entries dropped.\<close>

definition keep_busiest :: "'a list \<Rightarrow> nat \<Rightarrow> ('a \<Rightarrow> nat \<times> uuid) \<Rightarrow> 'a list \<times> nat" where
  "keep_busiest items limit load =
     (let sorted_items = sort_key (\<lambda>x. (- int (fst (load x)), snd (load x))) items
      in (take limit sorted_items, length items - limit))"

section \<open>Merging\<close>

definition bt_update :: "string \<Rightarrow> 'v \<Rightarrow> (string \<times> 'v) list \<Rightarrow> (string \<times> 'v) list" where
  "bt_update k v m = sort_key fst (AList.update k v m)"

record group_acc =
  ga_weight :: "int option"
  ga_in_flight :: nat
  ga_queued :: nat
  ga_served :: f64

record tenant_acc =
  ta_group :: string
  ta_weight :: int
  ta_cap :: "nat option"
  ta_in_flight :: nat
  ta_queued :: nat
  ta_served :: f64

record key_acc =
  ka_tenant :: uuid
  ka_weight :: int
  ka_cap :: "nat option"
  ka_in_flight :: nat
  ka_queued :: nat
  ka_served :: f64
  ka_end_user :: "end_user option"

record pool_acc =
  pa_configured_cap :: "nat option"
  pa_in_flight :: nat
  pa_queued :: nat
  pa_groups :: "(string \<times> group_acc) list"
  pa_tenants :: "(uuid, tenant_acc) hmap"
  pa_keys :: "(uuid, key_acc) hmap"

definition group_acc_default :: group_acc where
  "group_acc_default = \<lparr>ga_weight = None, ga_in_flight = 0, ga_queued = 0, ga_served = 0\<rparr>"

definition pool_acc_default :: pool_acc where
  "pool_acc_default =
     \<lparr>pa_configured_cap = None, pa_in_flight = 0, pa_queued = 0, pa_groups = [], pa_tenants = [], pa_keys = []\<rparr>"

definition or_else :: "'a option \<Rightarrow> 'a option \<Rightarrow> 'a option" where
  "or_else a b = (case a of None \<Rightarrow> b | Some x \<Rightarrow> Some x)"

definition add_group_view :: "replica_group_view \<Rightarrow> (string \<times> group_acc) list \<Rightarrow> (string \<times> group_acc) list" where
  "add_group_view g m =
     (let e = get_or group_acc_default m (rg_name g)
      in bt_update (rg_name g)
           \<lparr>ga_weight = or_else (ga_weight e) (Some (max (rg_weight g) 1)),
            ga_in_flight = ga_in_flight e + rg_in_flight g,
            ga_queued = ga_queued e + rg_queued g,
            ga_served = fl (ga_served e + rg_served g)\<rparr> m)"

definition add_tenant_view :: "replica_tenant_view \<Rightarrow> (uuid, tenant_acc) hmap \<Rightarrow> (uuid, tenant_acc) hmap" where
  "add_tenant_view t m =
     (let e = get_or \<lparr>ta_group = rtv_group t, ta_weight = max (rtv_weight t) 1, ta_cap = None,
                      ta_in_flight = 0, ta_queued = 0, ta_served = 0\<rparr> m (rtv_id t)
      in AList.update (rtv_id t)
           (e\<lparr>ta_cap := or_else (ta_cap e) (rtv_cap t),
              ta_in_flight := ta_in_flight e + rtv_in_flight t,
              ta_queued := ta_queued e + rtv_queued t,
              ta_served := fl (ta_served e + rtv_served t)\<rparr>) m)"

definition add_key_view :: "replica_key_view \<Rightarrow> (uuid, key_acc) hmap \<Rightarrow> (uuid, key_acc) hmap" where
  "add_key_view k m =
     (let e = get_or \<lparr>ka_tenant = rk_tenant k, ka_weight = max (rk_weight k) 1, ka_cap = None,
                      ka_in_flight = 0, ka_queued = 0, ka_served = 0, ka_end_user = rk_end_user k\<rparr> m (rk_id k)
      in AList.update (rk_id k)
           (e\<lparr>ka_cap := or_else (ka_cap e) (rk_cap k),
              ka_in_flight := ka_in_flight e + rk_in_flight k,
              ka_queued := ka_queued e + rk_queued k,
              ka_served := fl (ka_served e + rk_served k)\<rparr>) m)"

definition add_pool_view :: "replica_pool_view \<Rightarrow> pool_acc \<Rightarrow> pool_acc" where
  "add_pool_view p acc =
     \<lparr>pa_configured_cap = or_else (pa_configured_cap acc) (Some (max (rp_configured_cap p) 1)),
      pa_in_flight = pa_in_flight acc + rp_in_flight p,
      pa_queued = pa_queued acc + rp_queued p,
      pa_groups = fold add_group_view (rp_groups p) (pa_groups acc),
      pa_tenants = fold add_tenant_view (rp_tenants p) (pa_tenants acc),
      pa_keys = fold add_key_view (rp_keys p) (pa_keys acc)\<rparr>"

text \<open>
  The source keeps the pools in a map and their order of first appearance in \<open>order\<close>; an
  association list is both.
\<close>

definition merge_pools :: "replica_view list \<Rightarrow> (string, pool_acc) hmap" where
  "merge_pools views =
     fold (\<lambda>p m. AList.update (rp_pool p) (add_pool_view p (get_or pool_acc_default m (rp_pool p))) m)
       (concat (map rv_pools views)) []"

definition pool_model :: "string \<Rightarrow> string" where
  "pool_model i = (case from_slot_id i of Some key \<Rightarrow> display_name key | None \<Rightarrow> i)"

definition acc_group_weights :: "pool_acc \<Rightarrow> (string, int) hmap" where
  "acc_group_weights acc =
     fold (\<lambda>(_, t) m. if contains_key m (ta_group t) then m else AList.update (ta_group t) 100 m)
       (pa_tenants acc)
       (map (\<lambda>(name, g). (name, max (case ga_weight g of None \<Rightarrow> 100 | Some w \<Rightarrow> w) 1)) (pa_groups acc))"

definition merge_pool :: "fairshare_algorithm \<Rightarrow> string \<Rightarrow> pool_acc \<Rightarrow> nat \<Rightarrow> model_pool_fairshare" where
  "merge_pool algorithm i acc headroom =
     (let cap = max (case pa_configured_cap acc of None \<Rightarrow> 1 | Some c \<Rightarrow> c) 1;
          group_weights = acc_group_weights acc;
          share_tenants = map (\<lambda>(i, t). \<lparr>st_id = i, st_group = ta_group t, st_weight = ta_weight t,
                                          st_active = (0 < ta_in_flight t \<or> 0 < ta_queued t)\<rparr>) (pa_tenants acc);
          share_keys = map (\<lambda>(i, k). \<lparr>sk_id = i, sk_tenant = ka_tenant k, sk_weight = ka_weight k,
                                       sk_active = (0 < ka_in_flight k \<or> 0 < ka_queued k)\<rparr>) (pa_keys acc);
          shares = pool_shares algorithm group_weights share_tenants share_keys;
          effective = max (min cap (pa_in_flight acc + headroom)) 1;
          active_groups = map (\<lambda>name. (name, get_or 100 group_weights name)) (hkeys (ps_groups shares));
          group_caps = group_slot_caps effective active_groups;
          groups = sort_key gf_name (map (\<lambda>(name, g).
             let weight = max (case ga_weight g of None \<Rightarrow> 100 | Some w \<Rightarrow> w) 1;
                 slot_cap = get_or 0 group_caps name
             in \<lparr>gf_name = name, gf_weight = weight, gf_in_flight = ga_in_flight g, gf_queued = ga_queued g,
                 gf_slot_cap = slot_cap, gf_borrowed = ga_in_flight g - slot_cap,
                 gf_served_tokens = ga_served g, gf_share_score = fl (ga_served g / fl (of_int weight)),
                 gf_weight_share = ps_group shares name\<rparr>) (pa_groups acc));
          tenants = sort_key (\<lambda>t. (tf_share_score t, tf_tenant_id t)) (map (\<lambda>(i, t).
             \<lparr>tf_tenant_id = i, tf_fairshare_group = ta_group t, tf_weight = ta_weight t,
              tf_max_in_flight = ta_cap t, tf_in_flight = ta_in_flight t, tf_queued = ta_queued t,
              tf_served_tokens = ta_served t, tf_share_score = fl (ta_served t / fl (of_int (ta_weight t))),
              tf_weight_share = ps_tenant shares i\<rparr>) (pa_tenants acc));
          ks = sort_key (\<lambda>k. (kf_share_score k, kf_key_id k)) (map (\<lambda>(i, k).
             \<lparr>kf_key_id = i, kf_tenant_id = ka_tenant k, kf_weight = ka_weight k, kf_max_in_flight = ka_cap k,
              kf_in_flight = ka_in_flight k, kf_queued = ka_queued k, kf_served_tokens = ka_served k,
              kf_share_score = fl (ka_served k / fl (of_int (ka_weight k))),
              kf_weight_share = ps_key shares i, kf_end_user = ka_end_user k\<rparr>) (pa_keys acc))
      in \<lparr>mp_model = pool_model i, mp_cap = cap, mp_configured_cap = cap, mp_in_flight = pa_in_flight acc,
          mp_cluster_in_flight = None, mp_queued = pa_queued acc,
          mp_borrowed = sum_list (map gf_borrowed groups), mp_held = 0,
          mp_groups = groups, mp_tenants = tenants, mp_keys = ks\<rparr>)"

definition merge_views :: "fairshare_algorithm \<Rightarrow> replica_view list \<Rightarrow> nat \<Rightarrow> model_pool_fairshare list" where
  "merge_views algorithm views ceil =
     (let pools = merge_pools views;
          total_in_flight = sum_list (map (\<lambda>(_, p). pa_in_flight p) pools);
          headroom = ceil - total_in_flight
      in sort_key mp_model (map (\<lambda>(i, acc). merge_pool algorithm i acc headroom) pools))"

section \<open>What a merge keeps\<close>

lemma set_keep_busiest: "fst (keep_busiest items limit load) = take limit (sort_key (\<lambda>x. (- int (fst (load x)), snd (load x))) items)"
  by (simp add: keep_busiest_def Let_def)

lemma sum_list_sort_key: "sum_list (map f (sort_key g xs)) = sum_list (map f xs)"
  for f :: "'a \<Rightarrow> nat"
proof -
  have "mset (map f (sort_key g xs)) = mset (map f xs)" by simp
  then show ?thesis by (metis sum_mset_sum_list)
qed

lemma merge_pools_counts:
  "hmap_ok (merge_pools views) \<and>
   msum pa_in_flight (merge_pools views) = sum_list (map rp_in_flight (concat (map rv_pools views))) \<and>
   msum pa_queued (merge_pools views) = sum_list (map rp_queued (concat (map rv_pools views)))"
proof -
  let ?f = "\<lambda>p m. AList.update (rp_pool p) (add_pool_view p (get_or pool_acc_default m (rp_pool p))) m"
  have "hmap_ok m \<Longrightarrow> hmap_ok (fold ?f ps m) \<and>
      msum pa_in_flight (fold ?f ps m) = msum pa_in_flight m + sum_list (map rp_in_flight ps) \<and>
      msum pa_queued (fold ?f ps m) = msum pa_queued m + sum_list (map rp_queued ps)" for ps m
  proof (induction ps arbitrary: m)
    case (Cons p ps)
    have "msum pa_in_flight (?f p m) = msum pa_in_flight m + rp_in_flight p"
      using msum_get_update [where f = pa_in_flight and d = pool_acc_default, OF Cons.prems, of "rp_pool p"
          "add_pool_view p (get_or pool_acc_default m (rp_pool p))"]
      by (simp add: pool_acc_default_def add_pool_view_def)
    moreover have "msum pa_queued (?f p m) = msum pa_queued m + rp_queued p"
      using msum_get_update [where f = pa_queued and d = pool_acc_default, OF Cons.prems, of "rp_pool p"
          "add_pool_view p (get_or pool_acc_default m (rp_pool p))"]
      by (simp add: pool_acc_default_def add_pool_view_def)
    ultimately show ?case using Cons.IH [of "?f p m"] Cons.prems by simp
  qed simp
  from this [of "[]" "concat (map rv_pools views)"] show ?thesis by (simp add: merge_pools_def)
qed

lemma merge_pool_fields:
  "mp_in_flight (merge_pool alg i acc h) = pa_in_flight acc" "mp_queued (merge_pool alg i acc h) = pa_queued acc"
  "mp_model (merge_pool alg i acc h) = pool_model i"
  by (simp_all add: merge_pool_def Let_def)

text \<open>
  Merging replica views. No request is lost or counted twice: over the merged pools, the
  in-flight and the queued totals are the sums over every pool of every view, whatever ids, caps
  and weights the views carry.
\<close>

theorem merge_views_totals:
  "sum_list (map mp_in_flight (merge_views alg views ceil)) =
     sum_list (map rp_in_flight (concat (map rv_pools views))) \<and>
   sum_list (map mp_queued (merge_views alg views ceil)) =
     sum_list (map rp_queued (concat (map rv_pools views)))"
  using merge_pools_counts [of views]
  by (simp add: merge_views_def Let_def sum_list_sort_key msum_def comp_def case_prod_beta' merge_pool_fields)

end
