(* ===== verification/History.thy ===== *)
theory History
  imports View
begin

text \<open>
  The bounded ring of scheduler samples behind the activity chart
  (\<open>obleth-fairshare/src/history.rs\<close>). Timestamps are \<open>i64\<close> milliseconds, kept as integers.
\<close>

record group_sample =
  gs_name :: string
  gs_in_flight :: nat
  gs_queued :: nat

record pool_sample =
  psm_model :: string
  psm_cap :: nat
  psm_in_flight :: nat
  psm_queued :: nat
  psm_groups :: "group_sample list"

record fairshare_sample =
  sm_ts_ms :: int
  sm_global_in_flight :: nat
  sm_global_queued :: nat
  sm_pools :: "pool_sample list"
  sm_cluster :: bool

definition from_snapshot :: "int \<Rightarrow> fairshare_snapshot \<Rightarrow> fairshare_sample" where
  "from_snapshot ts_ms snap =
     \<lparr>sm_ts_ms = ts_ms, sm_global_in_flight = fs_global_in_flight snap, sm_global_queued = fs_global_queued snap,
      sm_pools = map (\<lambda>p. \<lparr>psm_model = mp_model p, psm_cap = mp_cap p, psm_in_flight = mp_in_flight p,
                           psm_queued = mp_queued p,
                           psm_groups = map (\<lambda>g. \<lparr>gs_name = gf_name g, gs_in_flight = gf_in_flight g,
                                                  gs_queued = gf_queued g\<rparr>) (mp_groups p)\<rparr>) (fs_pools snap),
      sm_cluster = False\<rparr>"

fun add_group_sample :: "replica_group_view \<Rightarrow> group_sample list \<Rightarrow> group_sample list" where
  "add_group_sample g [] = [\<lparr>gs_name = rg_name g, gs_in_flight = rg_in_flight g, gs_queued = rg_queued g\<rparr>]"
| "add_group_sample g (a # as) =
     (if gs_name a = rg_name g
      then a\<lparr>gs_in_flight := gs_in_flight a + rg_in_flight g, gs_queued := gs_queued a + rg_queued g\<rparr> # as
      else a # add_group_sample g as)"

definition add_pool_sample :: "replica_pool_view \<Rightarrow> (string \<times> pool_sample) list \<Rightarrow> (string \<times> pool_sample) list" where
  "add_pool_sample p m =
     (let model = pool_model (rp_pool p);
          acc = get_or \<lparr>psm_model = model, psm_cap = rp_configured_cap p, psm_in_flight = 0,
                        psm_queued = 0, psm_groups = []\<rparr> m model
      in bt_update model
           (acc\<lparr>psm_in_flight := psm_in_flight acc + rp_in_flight p,
                psm_queued := psm_queued acc + rp_queued p,
                psm_groups := fold add_group_sample (rp_groups p) (psm_groups acc)\<rparr>) m)"

definition from_views :: "int \<Rightarrow> replica_view list \<Rightarrow> fairshare_sample" where
  "from_views ts_ms views =
     (let m = fold add_pool_sample (concat (map rv_pools views)) [];
          pools = map (\<lambda>(_, p). p\<lparr>psm_groups := sort_key gs_name (psm_groups p)\<rparr>) m
      in \<lparr>sm_ts_ms = ts_ms, sm_global_in_flight = sum_list (map psm_in_flight pools),
          sm_global_queued = sum_list (map psm_queued pools), sm_pools = pools, sm_cluster = True\<rparr>)"

record history_point =
  hp_ts_ms :: int
  hp_in_flight :: nat
  hp_queued :: nat
  hp_groups :: "(string \<times> nat) list"
  hp_cluster :: bool

record fairshare_history =
  fh_samples :: "fairshare_sample list"
  fh_max_len :: nat

definition history_new :: "nat \<Rightarrow> fairshare_history" where
  "history_new max_len = \<lparr>fh_samples = [], fh_max_len = max_len\<rparr>"

definition history_push :: "fairshare_sample \<Rightarrow> fairshare_history \<Rightarrow> fairshare_history" where
  "history_push s h =
     (if fh_max_len h = 0 then h
      else h\<lparr>fh_samples := drop (length (fh_samples h) - (fh_max_len h - 1)) (fh_samples h) @ [s]\<rparr>)"

definition history_len :: "fairshare_history \<Rightarrow> nat" where
  "history_len h = length (fh_samples h)"

definition oldest_ts_ms :: "fairshare_history \<Rightarrow> int option" where
  "oldest_ts_ms h = (case fh_samples h of [] \<Rightarrow> None | s # _ \<Rightarrow> Some (sm_ts_ms s))"

definition newest_ts_ms :: "fairshare_history \<Rightarrow> int option" where
  "newest_ts_ms h = (if fh_samples h = [] then None else Some (sm_ts_ms (last (fh_samples h))))"

text \<open>One pool's point: the excluded group is taken off the pool's totals.\<close>

definition project_pool :: "string option \<Rightarrow> pool_sample \<Rightarrow> nat \<times> nat \<times> (string \<times> nat) list" where
  "project_pool exclude p =
     fold (\<lambda>g (in_flight, queued, groups).
             if exclude = Some (gs_name g)
             then (in_flight - gs_in_flight g, queued - gs_queued g, groups)
             else (in_flight, queued, bt_update (gs_name g) (gs_in_flight g) groups))
       (psm_groups p) (psm_in_flight p, psm_queued p, [])"

definition project_all :: "string option \<Rightarrow> fairshare_sample \<Rightarrow> (string \<times> nat) list \<times> nat \<times> nat" where
  "project_all exclude s =
     fold (\<lambda>g (groups, ex_in_flight, ex_queued).
             if exclude = Some (gs_name g)
             then (groups, ex_in_flight + gs_in_flight g, ex_queued + gs_queued g)
             else if 0 < gs_in_flight g \<or> 0 < gs_queued g
             then (bt_update (gs_name g) (get_or 0 groups (gs_name g) + gs_in_flight g) groups,
                   ex_in_flight, ex_queued)
             else (groups, ex_in_flight, ex_queued))
       (concat (map psm_groups (sm_pools s))) ([], 0, 0)"

definition project :: "fairshare_sample \<Rightarrow> string option \<Rightarrow> string option \<Rightarrow> history_point" where
  "project s model exclude =
     (case model of
        Some name \<Rightarrow>
          (case List.find (\<lambda>p. psm_model p = name) (sm_pools s) of
             Some p \<Rightarrow>
               (let (in_flight, queued, groups) = project_pool exclude p
                in \<lparr>hp_ts_ms = sm_ts_ms s, hp_in_flight = in_flight, hp_queued = queued,
                    hp_groups = groups, hp_cluster = sm_cluster s\<rparr>)
           | None \<Rightarrow> \<lparr>hp_ts_ms = sm_ts_ms s, hp_in_flight = 0, hp_queued = 0, hp_groups = [],
                      hp_cluster = sm_cluster s\<rparr>)
      | None \<Rightarrow>
          (let (groups, ex_in_flight, ex_queued) = project_all exclude s
           in \<lparr>hp_ts_ms = sm_ts_ms s, hp_in_flight = sm_global_in_flight s - ex_in_flight,
               hp_queued = sm_global_queued s - ex_queued, hp_groups = groups, hp_cluster = sm_cluster s\<rparr>))"

definition history_points :: "int \<Rightarrow> string option \<Rightarrow> string option \<Rightarrow> fairshare_history \<Rightarrow> history_point list" where
  "history_points since_ms model exclude h =
     map (\<lambda>s. project s model exclude) (filter (\<lambda>s. since_ms \<le> sm_ts_ms s) (fh_samples h))"

section \<open>The ring keeps the newest samples\<close>

lemma history_push_samples:
  assumes "0 < fh_max_len h" and "length (fh_samples h) \<le> fh_max_len h"
  shows "fh_samples (history_push s h) =
    drop (Suc (length (fh_samples h)) - fh_max_len h) (fh_samples h @ [s])"
proof -
  have "length (fh_samples h) - (fh_max_len h - 1) = Suc (length (fh_samples h)) - fh_max_len h"
    using assms by simp
  moreover have "Suc (length (fh_samples h)) - fh_max_len h \<le> length (fh_samples h)" using assms(1) by simp
  ultimately show ?thesis using assms(1) by (simp add: history_push_def)
qed

lemma history_push_max_len [simp]: "fh_max_len (history_push s h) = fh_max_len h"
  by (simp add: history_push_def)

lemma history_fold:
  assumes "fh_samples h = drop (length xs - n) xs" and "fh_max_len h = n" and "0 < n"
  shows "fh_samples (fold history_push ys h) = drop (length (xs @ ys) - n) (xs @ ys) \<and>
    fh_max_len (fold history_push ys h) = n"
  using assms
proof (induction ys arbitrary: xs h)
  case (Cons y ys)
  have l: "length (fh_samples h) = min (length xs) n" using Cons.prems(1) by simp
  have "fh_samples (history_push y h) = drop (Suc (length (fh_samples h)) - n) (fh_samples h @ [y])"
    using history_push_samples [of h y, unfolded Cons.prems(2)] Cons.prems(3) l by (metis min.cobounded2)
  also have "\<dots> = drop (length (xs @ [y]) - n) (xs @ [y])"
  proof (cases "length xs < n")
    case True
    then show ?thesis using Cons.prems(1) by simp
  next
    case False
    then have "fh_samples h @ [y] = drop (length xs - n) (xs @ [y])" using Cons.prems(1) by simp
    then have "drop (Suc (length (fh_samples h)) - n) (fh_samples h @ [y]) = drop 1 (drop (length xs - n) (xs @ [y]))"
      using False l by simp
    also have "\<dots> = drop (length (xs @ [y]) - n) (xs @ [y])" using False by (simp add: Suc_diff_le)
    finally show ?thesis .
  qed
  finally show ?case using Cons.IH [of "history_push y h" "xs @ [y]"] Cons.prems by simp
qed simp

section \<open>Summing views\<close>

lemma hmap_ok_bt_update [simp, intro]: "hmap_ok m \<Longrightarrow> hmap_ok (bt_update k v m)"
proof -
  assume "hmap_ok m"
  then have "distinct (map fst (AList.update k v m))" using distinct_update by (simp add: hmap_ok_def)
  moreover have "mset (map fst (sort_key fst (AList.update k v m))) = mset (map fst (AList.update k v m))" by simp
  ultimately show ?thesis unfolding hmap_ok_def bt_update_def by (metis mset_eq_imp_distinct_iff)
qed

lemma msum_bt_update [simp]: "msum f (bt_update k v m) = msum f (AList.update k v m)"
  by (simp add: msum_def bt_update_def sum_list_sort_key)

definition sample_in_flight :: "pool_sample \<Rightarrow> nat" where
  "sample_in_flight p = sum_list (map gs_in_flight (psm_groups p))"

lemma add_group_sample_sum:
  "sum_list (map gs_in_flight (add_group_sample g gs)) = sum_list (map gs_in_flight gs) + rg_in_flight g"
  "sum_list (map gs_queued (add_group_sample g gs)) = sum_list (map gs_queued gs) + rg_queued g"
  by (induction gs) auto

lemma add_group_samples_sum:
  "sum_list (map gs_in_flight (fold add_group_sample vs gs)) =
     sum_list (map gs_in_flight gs) + sum_list (map rg_in_flight vs)"
  by (induction vs arbitrary: gs) (simp_all add: add_group_sample_sum)

lemma from_views_fold:
  "hmap_ok m \<Longrightarrow> hmap_ok (fold add_pool_sample ps m) \<and>
     msum psm_in_flight (fold add_pool_sample ps m) = msum psm_in_flight m + sum_list (map rp_in_flight ps) \<and>
     msum psm_queued (fold add_pool_sample ps m) = msum psm_queued m + sum_list (map rp_queued ps) \<and>
     msum sample_in_flight (fold add_pool_sample ps m) =
       msum sample_in_flight m + sum_list (map (\<lambda>p. sum_list (map rg_in_flight (rp_groups p))) ps)"
proof (induction ps arbitrary: m)
  case (Cons p ps)
  let ?d = "\<lparr>psm_model = pool_model (rp_pool p), psm_cap = rp_configured_cap p, psm_in_flight = 0,
             psm_queued = 0, psm_groups = []\<rparr>"
  let ?acc = "get_or ?d m (pool_model (rp_pool p))"
  let ?v = "?acc\<lparr>psm_in_flight := psm_in_flight ?acc + rp_in_flight p, psm_queued := psm_queued ?acc + rp_queued p,
                 psm_groups := fold add_group_sample (rp_groups p) (psm_groups ?acc)\<rparr>"
  have e: "add_pool_sample p m = bt_update (pool_model (rp_pool p)) ?v m" by (simp add: add_pool_sample_def Let_def)
  note u = msum_get_update [OF Cons.prems, of _ ?d "pool_model (rp_pool p)" ?v]
  have "msum psm_in_flight (add_pool_sample p m) = msum psm_in_flight m + rp_in_flight p"
    using u [of psm_in_flight] by (simp add: e)
  moreover have "msum psm_queued (add_pool_sample p m) = msum psm_queued m + rp_queued p"
    using u [of psm_queued] by (simp add: e)
  moreover have "msum sample_in_flight (add_pool_sample p m) =
      msum sample_in_flight m + sum_list (map rg_in_flight (rp_groups p))"
    using u [of sample_in_flight] by (simp add: e sample_in_flight_def add_group_samples_sum)
  moreover have "hmap_ok (add_pool_sample p m)" using Cons.prems by (simp add: e)
  ultimately show ?case using Cons.IH [of "add_pool_sample p m"] by simp
qed simp

section \<open>Properties\<close>

text \<open>
  The history ring. After any run of pushes it holds exactly the newest \<open>max_len\<close> samples, in
  the order they came; with \<open>max_len = 0\<close> it stays empty.
\<close>

theorem history_keeps_newest:
  "fh_samples (fold history_push ss (history_new n)) = (if n = 0 then [] else drop (length ss - n) ss)"
proof (cases "n = 0")
  case True
  have "fold history_push ss (history_new 0) = history_new 0"
    by (induction ss) (simp_all add: history_push_def history_new_def)
  then show ?thesis using True by (simp add: history_new_def)
next
  case False
  then show ?thesis using history_fold [of "history_new n" "[]" n ss] by (simp add: history_new_def)
qed

text \<open>
  A cluster sample. Its global in-flight and queued figures are the sums over every pool of
  every view, and so are the per-group in-flight figures of its pools.
\<close>

theorem from_views_sums:
  "sm_global_in_flight (from_views ts views) = sum_list (map rp_in_flight (concat (map rv_pools views))) \<and>
   sm_global_queued (from_views ts views) = sum_list (map rp_queued (concat (map rv_pools views))) \<and>
   (\<Sum>p\<leftarrow>sm_pools (from_views ts views). sum_list (map gs_in_flight (psm_groups p))) =
     (\<Sum>p\<leftarrow>concat (map rv_pools views). sum_list (map rg_in_flight (rp_groups p)))"
  using from_views_fold [of "[]" "concat (map rv_pools views)"]
  by (simp add: from_views_def Let_def msum_def comp_def case_prod_beta' sample_in_flight_def sum_list_sort_key)

end
