(* ===== verification/Pool_View.thy ===== *)
theory Pool_View
  imports Pool_Inv History
begin

text \<open>
  What a pool reports of itself (\<open>group_totals\<close>, \<open>shares\<close>, \<open>key_state\<close>, \<open>view\<close> and
  \<open>snapshot\<close> of \<open>Pool\<close> in \<open>obleth-fairshare/src/lib.rs\<close>).
\<close>

definition add_pair :: "'k \<Rightarrow> nat \<Rightarrow> nat \<Rightarrow> ('k, nat \<times> nat) hmap \<Rightarrow> ('k, nat \<times> nat) hmap" where
  "add_pair k a b m = (let (x, y) = get_or (0, 0) m k in AList.update k (x + a, y + b) m)"

definition group_total_map :: "pool \<Rightarrow> (string, nat \<times> nat) hmap" where
  "group_total_map p =
     fold (\<lambda>(tenant, q) m. if tq_len q = 0 then m
             else case map_of (p_tenant_group p) tenant of None \<Rightarrow> m | Some g \<Rightarrow> add_pair g 0 (tq_len q) m)
       (p_queues p)
       (fold (\<lambda>(tenant, n) m. if n = 0 then m
                else case map_of (p_tenant_group p) tenant of None \<Rightarrow> m | Some g \<Rightarrow> add_pair g n 0 m)
          (p_tenant_in_flight p) [])"

definition group_totals :: "pool \<Rightarrow> group_sample list" where
  "group_totals p =
     sort_key gs_name
       (map (\<lambda>(name, in_flight, queued). \<lparr>gs_name = name, gs_in_flight = in_flight, gs_queued = queued\<rparr>)
          (group_total_map p))"

definition key_state :: "pool \<Rightarrow> uuid \<Rightarrow> nat \<times> nat" where
  "key_state p key =
     (get_or 0 (p_key_in_flight p) key,
      case map_of (p_key_tenant p) key of
        None \<Rightarrow> 0
      | Some t \<Rightarrow> (case map_of (p_queues p) t of None \<Rightarrow> 0 | Some q \<Rightarrow> tq_key_len key q))"

definition tenant_queued :: "pool \<Rightarrow> uuid \<Rightarrow> nat" where
  "tenant_queued p tenant = (case map_of (p_queues p) tenant of None \<Rightarrow> 0 | Some q \<Rightarrow> tq_len q)"

definition shares :: "pool \<Rightarrow> uuid list \<Rightarrow> uuid list \<Rightarrow> share_split" where
  "shares p ids key_ids =
     pool_shares (p_algorithm p) (p_group_weight p)
       (map (\<lambda>i. \<lparr>st_id = i, st_group = group_of p i, st_weight = get_or 1 (p_tenant_weight p) i,
                   st_active = tenant_is_active p i\<rparr>) ids)
       (List.map_filter (\<lambda>i. map_option (\<lambda>t.
            \<lparr>sk_id = i, sk_tenant = t, sk_weight = get_or 1 (p_key_weight p) i,
             sk_active = (0 < fst (key_state p i) \<or> 0 < snd (key_state p i))\<rparr>) (map_of (p_key_tenant p) i))
          key_ids)"

definition queued_keys :: "pool \<Rightarrow> uuid list" where
  "queued_keys p = concat (map (\<lambda>(_, q). hkeys (tq_keys q)) (p_queues p))"

definition pool_view :: "view_budget \<Rightarrow> pool \<Rightarrow> view_budget \<times> replica_pool_view" where
  "pool_view budget p =
     (let active = remdups (filter (tenant_is_active p) (hkeys (p_tenant_in_flight p) @ hkeys (p_queues p)));
          tenants = map (\<lambda>i.
             \<lparr>rtv_id = i, rtv_group = group_of p i, rtv_weight = max (get_or 1 (p_tenant_weight p) i) 1,
              rtv_cap = map_of (p_tenant_cap p) i, rtv_in_flight = get_or 0 (p_tenant_in_flight p) i,
              rtv_queued = tenant_queued p i,
              rtv_served = max (fl (get_or 0 (p_served p) i - get_or 0 (p_served_base p) i)) 0\<rparr>) active;
          (tenants, omitted_tenants) = keep_busiest tenants (min VIEW_MAX_TENANTS_PER_POOL (vb_tenants budget))
             (\<lambda>t. (rtv_in_flight t + rtv_queued t, rtv_id t));
          budget = budget\<lparr>vb_tenants := vb_tenants budget - length tenants\<rparr>;
          active_keys = remdups (hkeys (p_key_in_flight p) @ queued_keys p);
          ks = List.map_filter (\<lambda>i.
             let (in_flight, queued) = key_state p i
             in if in_flight = 0 \<and> queued = 0 then None
                else map_option (\<lambda>t.
                  \<lparr>rk_id = i, rk_tenant = t, rk_weight = max (get_or 1 (p_key_weight p) i) 1,
                   rk_cap = map_of (p_key_cap p) i, rk_in_flight = in_flight, rk_queued = queued,
                   rk_served = get_or 0 (p_key_served p) i, rk_end_user = map_of (p_key_end_user p) i\<rparr>)
                  (map_of (p_key_tenant p) i)) active_keys;
          (ks, omitted_keys) = keep_busiest ks (min VIEW_MAX_KEYS_PER_POOL (vb_keys budget))
             (\<lambda>k. (rk_in_flight k + rk_queued k, rk_id k));
          budget = budget\<lparr>vb_keys := vb_keys budget - length ks\<rparr>;
          groups = map (\<lambda>g.
             \<lparr>rg_name = gs_name g, rg_weight = max (get_or 100 (p_group_weight p) (gs_name g)) 1,
              rg_in_flight = gs_in_flight g, rg_queued = gs_queued g,
              rg_served = get_or 0 (group_service p) (gs_name g)\<rparr>) (group_totals p)
      in (budget,
          \<lparr>rp_pool = slot_id (p_key p), rp_configured_cap = p_configured_cap p, rp_in_flight = p_in_flight p,
           rp_queued = p_queued_total p, rp_groups = groups, rp_tenants = tenants, rp_keys = ks,
           rp_omitted_tenants = omitted_tenants, rp_omitted_keys = omitted_keys\<rparr>))"

definition pool_snapshot :: "nat \<Rightarrow> pool \<Rightarrow> model_pool_fairshare" where
  "pool_snapshot headroom p =
     (let ids = remdups (hkeys (p_queues p) @ hkeys (p_tenant_in_flight p) @ hkeys (p_served p));
          key_ids = remdups (hkeys (p_key_tenant p) @ hkeys (p_key_in_flight p) @ queued_keys p);
          shs = shares p ids key_ids;
          group_caps = compute_group_caps p (effective_cap headroom p);
          names = remdups (hkeys (ps_groups shs) @ List.map_filter (map_of (p_tenant_group p)) ids);
          totals = fold (\<lambda>tenant m. case map_of (p_tenant_group p) tenant of None \<Rightarrow> m
                      | Some g \<Rightarrow> add_pair g (get_or 0 (p_tenant_in_flight p) tenant) (tenant_queued p tenant) m)
                     ids [];
          groups = sort_key gf_name (map (\<lambda>name.
             let weight = max (get_or 100 (p_group_weight p) name) 1;
                 (in_flight, queued) = get_or (0, 0) totals name;
                 served = get_or 0 (group_service p) name;
                 slot_cap = get_or 0 group_caps name
             in \<lparr>gf_name = name, gf_weight = weight, gf_in_flight = in_flight, gf_queued = queued,
                 gf_slot_cap = slot_cap, gf_borrowed = in_flight - slot_cap, gf_served_tokens = served,
                 gf_share_score = fl (served / fl (of_int weight)), gf_weight_share = ps_group shs name\<rparr>) names);
          tenants = sort_key tf_share_score (map (\<lambda>i.
             let weight = max (get_or 1 (p_tenant_weight p) i) 1; served = get_or 0 (p_served p) i
             in \<lparr>tf_tenant_id = i, tf_fairshare_group = group_of p i, tf_weight = weight,
                 tf_max_in_flight = tenant_limit p i, tf_in_flight = get_or 0 (p_tenant_in_flight p) i,
                 tf_queued = tenant_queued p i, tf_served_tokens = served,
                 tf_share_score = fl (served / fl (of_int weight)), tf_weight_share = ps_tenant shs i\<rparr>) ids);
          ks = sort_key kf_share_score (List.map_filter (\<lambda>i. map_option (\<lambda>t.
             let weight = max (get_or 1 (p_key_weight p) i) 1; served = get_or 0 (p_key_served p) i
             in \<lparr>kf_key_id = i, kf_tenant_id = t, kf_weight = weight, kf_max_in_flight = key_limit p i,
                 kf_in_flight = fst (key_state p i), kf_queued = snd (key_state p i),
                 kf_served_tokens = served, kf_share_score = fl (served / fl (of_int weight)),
                 kf_weight_share = ps_key shs i, kf_end_user = map_of (p_key_end_user p) i\<rparr>)
             (map_of (p_key_tenant p) i)) key_ids)
      in \<lparr>mp_model = p_model p, mp_cap = p_cap p, mp_configured_cap = p_configured_cap p,
          mp_in_flight = p_in_flight p, mp_cluster_in_flight = p_cluster_in_flight p, mp_queued = p_queued_total p,
          mp_borrowed = sum_list (map gf_borrowed groups), mp_held = af_held (p_affinity p),
          mp_groups = groups, mp_tenants = tenants, mp_keys = ks\<rparr>)"

section \<open>Bounds of a view\<close>

lemma keep_busiest_len: "length (fst (keep_busiest xs n f)) = min (length xs) n"
  and keep_busiest_dropped: "length (fst (keep_busiest xs n f)) + snd (keep_busiest xs n f) = length xs"
  by (auto simp: keep_busiest_def Let_def)

text \<open>
  A pool's view stays within its bounds and what is left of the budget, the budget it leaves is
  exact, and it carries the pool's own totals whatever was cut.
\<close>

theorem pool_view_bounded:
  assumes "pool_view budget p = (budget', v)"
  shows "length (rp_tenants v) \<le> VIEW_MAX_TENANTS_PER_POOL \<and> length (rp_keys v) \<le> VIEW_MAX_KEYS_PER_POOL \<and>
    vb_tenants budget' + length (rp_tenants v) = vb_tenants budget \<and>
    vb_keys budget' + length (rp_keys v) = vb_keys budget \<and>
    rp_in_flight v = p_in_flight p \<and> rp_queued v = p_queued_total p"
proof -
  obtain ts ks ft fk gs where
    v: "v = \<lparr>rp_pool = slot_id (p_key p), rp_configured_cap = p_configured_cap p, rp_in_flight = p_in_flight p,
           rp_queued = p_queued_total p, rp_groups = gs,
           rp_tenants = fst (keep_busiest ts (min VIEW_MAX_TENANTS_PER_POOL (vb_tenants budget)) ft),
           rp_keys = fst (keep_busiest ks (min VIEW_MAX_KEYS_PER_POOL (vb_keys budget)) fk),
           rp_omitted_tenants = snd (keep_busiest ts (min VIEW_MAX_TENANTS_PER_POOL (vb_tenants budget)) ft),
           rp_omitted_keys = snd (keep_busiest ks (min VIEW_MAX_KEYS_PER_POOL (vb_keys budget)) fk)\<rparr>"
    and b: "budget' = budget
      \<lparr>vb_tenants := vb_tenants budget - length (fst (keep_busiest ts (min VIEW_MAX_TENANTS_PER_POOL (vb_tenants budget)) ft)),
       vb_keys := vb_keys budget - length (fst (keep_busiest ks (min VIEW_MAX_KEYS_PER_POOL (vb_keys budget)) fk))\<rparr>"
    using assms unfolding pool_view_def Let_def by (auto simp: case_prod_beta')
  show ?thesis by (simp add: v b keep_busiest_len min_le_iff_disj)
qed

theorem pool_view_bounded_witness:
  "vb_tenants (fst (pool_view view_budget_default (pool_new Unrouted Weighted 4))) = 2048"
  using pool_view_bounded [of view_budget_default "pool_new Unrouted Weighted 4", OF prod.collapse [symmetric]]
  by (simp add: pool_view_def pool_new_def hkeys_def keep_busiest_def Let_def view_budget_default_def
      VIEW_MAX_TENANTS_def queued_keys_def map_filter_simps)

end
