(* ===== verification/Slots.thy ===== *)
theory Slots
  imports View
begin

text \<open>
  Cluster-wide slot accounting (\<open>obleth-fairshare/src/shared.rs\<close>): the messages of the
  \<open>SharedSlots\<close> interface, the slot modes, and the in-process backend \<open>InMemorySlots\<close>, the
  executable statement of what the Redis scripts do: atomic multi-limit claims, holdings per
  replica, slots held for a session's next step, and reconciliation.

  Times are milliseconds of one clock. An operation returns the new state, the pools whose
  subscribers are woken, and its result; \<open>Inl\<close> is a \<open>SlotError\<close>. The call counters are not
  modelled, and the subscribers are whoever receives the woken pools.
\<close>

type_synonym slot_error = string

record slot_claim =
  sc_pool :: string
  sc_tenant :: uuid
  sc_key :: uuid
  sc_pool_cap :: nat
  sc_global_cap :: nat
  sc_tenant_cap :: "nat option"
  sc_key_cap :: "nat option"
  sc_hold :: "string option"
  sc_redeem_only :: bool
  sc_starving :: bool

record slot_hold =
  sh_id :: string
  sh_ttl :: duration
  sh_max_held :: nat
  sh_arrived_ago :: duration
  sh_remember :: duration
  sh_max_run :: nat

record slot_release =
  sr_pool :: string
  sr_tenant :: uuid
  sr_key :: uuid

datatype slot_denial = DenyPool | DenyGlobal | DenyTenant | DenyKey

datatype acquire_outcome = Granted | Redeemed | NotHeld | Denied slot_denial | NotRegistered

record cluster_counts =
  cc_pool :: nat
  cc_global :: nat

record pool_holdings =
  ph_pool :: string
  ph_in_flight :: nat
  ph_tenants :: "(uuid \<times> nat) list"
  ph_keys :: "(uuid \<times> nat) list"

datatype reconcile_outcome = Synced | ReconcileNotRegistered

record shared_slots_config =
  cf_reconcile_interval :: duration
  cf_recovery_interval :: duration
  cf_retry_min :: duration
  cf_retry_max :: duration
  cf_op_timeout :: duration
  cf_max_pending_per_pool :: nat
  cf_split_on_fallback :: bool
  cf_view_interval :: duration

definition view_ttl :: "shared_slots_config \<Rightarrow> duration" where
  "view_ttl c = max (cf_view_interval c) 100 * 3"

definition shared_slots_config_default :: shared_slots_config where
  "shared_slots_config_default =
     \<lparr>cf_reconcile_interval = 5000, cf_recovery_interval = 1000, cf_retry_min = 100, cf_retry_max = 250,
      cf_op_timeout = 1000, cf_max_pending_per_pool = 8, cf_split_on_fallback = True, cf_view_interval = 500\<rparr>"

datatype slot_mode = Local | Split | Shared | Fallback

definition slot_mode_as_str :: "slot_mode \<Rightarrow> string" where
  "slot_mode_as_str m =
     (case m of Local \<Rightarrow> ''local'' | Split \<Rightarrow> ''split'' | Shared \<Rightarrow> ''shared'' | Fallback \<Rightarrow> ''fallback'')"

definition slot_mode_to_u8 :: "slot_mode \<Rightarrow> nat" where
  "slot_mode_to_u8 m = (case m of Local \<Rightarrow> 0 | Split \<Rightarrow> 1 | Shared \<Rightarrow> 2 | Fallback \<Rightarrow> 3)"

definition slot_mode_from_u8 :: "nat \<Rightarrow> slot_mode" where
  "slot_mode_from_u8 v = (if v = 1 then Split else if v = 2 then Shared else if v = 3 then Fallback else Local)"

section \<open>The in-process backend\<close>

definition WAIT_MARK :: duration where
  "WAIT_MARK = 1000"

definition pool_field :: "string \<Rightarrow> string" where
  "pool_field pool = ''p|'' @ pool"

definition tenant_field :: "string \<Rightarrow> uuid \<Rightarrow> string" where
  "tenant_field pool tenant = ''t|'' @ pool @ ''|'' @ tenant"

definition key_field :: "string \<Rightarrow> uuid \<Rightarrow> string" where
  "key_field pool key = ''k|'' @ pool @ ''|'' @ key"

definition held_field :: "string \<Rightarrow> string" where
  "held_field pool = ''h|'' @ pool"

definition GLOBAL_FIELD :: string where
  "GLOBAL_FIELD = ''g''"

definition hold_owner :: "string \<Rightarrow> string" where
  "hold_owner i = ''hold:'' @ i"

record mem_view =
  mv_view :: replica_view
  mv_at :: instant
  mv_ttl :: duration

record mem_state =
  ms_totals :: "(string, nat) hmap"
  ms_held :: "(string, (string, nat) hmap) hmap"
  ms_live :: "string list"
  ms_holds :: "(string, instant) hmap"
  ms_recent :: "(string, instant) hmap"
  ms_chain :: "(string, nat) hmap"
  ms_waiting :: "(string, instant) hmap"
  ms_starving :: "(string, instant) hmap"
  ms_views :: "(string, mem_view) hmap"
  ms_failing :: bool

definition mem_state_default :: mem_state where
  "mem_state_default =
     \<lparr>ms_totals = [], ms_held = [], ms_live = [], ms_holds = [], ms_recent = [], ms_chain = [],
      ms_waiting = [], ms_starving = [], ms_views = [], ms_failing = False\<rparr>"

text \<open>\<open>*n = (*n as isize + d).max(0) as usize\<close> on an entry that is removed at zero.\<close>

definition bump :: "string \<Rightarrow> int \<Rightarrow> (string, nat) hmap \<Rightarrow> (string, nat) hmap" where
  "bump f d m =
     (let n = nat (int (get_or 0 m f) + d)
      in if n = 0 then AList.delete f m else AList.update f n m)"

definition ms_add :: "string \<Rightarrow> string \<Rightarrow> int \<Rightarrow> mem_state \<Rightarrow> mem_state" where
  "ms_add inst f n s =
     s\<lparr>ms_held := AList.update inst (bump f n (get_or [] (ms_held s) inst)) (ms_held s),
       ms_totals := bump f n (ms_totals s)\<rparr>"

definition ms_count :: "mem_state \<Rightarrow> string \<Rightarrow> nat" where
  "ms_count s f = get_or 0 (ms_totals s) f"

definition sub_total :: "string \<Rightarrow> nat \<Rightarrow> (string, nat) hmap \<Rightarrow> (string, nat) hmap" where
  "sub_total f n m =
     (let t = get_or 0 m f - n in if t = 0 then AList.delete f m else AList.update f t m)"

definition reclaim :: "string \<Rightarrow> mem_state \<Rightarrow> mem_state \<times> string list" where
  "reclaim inst s =
     (case map_of (ms_held s) inst of
        None \<Rightarrow> (s, [])
      | Some held \<Rightarrow>
          (s\<lparr>ms_held := AList.delete inst (ms_held s),
             ms_totals := fold (\<lambda>(f, n). sub_total f n) held (ms_totals s)\<rparr>,
           List.map_filter (\<lambda>(f, _). strip_prefix ''p|'' f) held))"

fun free_holds :: "string list \<Rightarrow> mem_state \<Rightarrow> mem_state \<times> string list" where
  "free_holds [] s = (s, [])"
| "free_holds (i # ids) s =
     (let (s, freed) = reclaim (hold_owner i) (s\<lparr>ms_holds := AList.delete i (ms_holds s)\<rparr>);
          (s, more) = free_holds ids s
      in (s, freed @ more))"

definition purge_holds :: "instant \<Rightarrow> mem_state \<Rightarrow> mem_state \<times> string list" where
  "purge_holds now s = free_holds (hkeys (filter (\<lambda>(_, until). until \<le> now) (ms_holds s))) s"

definition starts_with :: "string \<Rightarrow> string \<Rightarrow> bool" where
  "starts_with pre s = (take (length pre) s = pre)"

definition free_pool_holds :: "string \<Rightarrow> string option \<Rightarrow> mem_state \<Rightarrow> mem_state \<times> string list" where
  "free_pool_holds pool keep s =
     free_holds (filter (\<lambda>i. starts_with (pool @ ''|'') i \<and> Some i \<noteq> keep) (hkeys (ms_holds s))) s"

definition take_over :: "string \<Rightarrow> string \<Rightarrow> mem_state \<Rightarrow> mem_state" where
  "take_over src dst s =
     (case map_of (ms_held s) src of
        None \<Rightarrow> s
      | Some held \<Rightarrow>
          (let s = fold (\<lambda>(f, n) s.
                 let s = ms_add src f (- int n) s
                 in if starts_with ''h|'' f then s else ms_add dst f (int n) s) held s
           in s\<lparr>ms_held := AList.delete src (ms_held s)\<rparr>))"

definition mem_kill :: "string \<Rightarrow> mem_state \<Rightarrow> mem_state \<times> string list" where
  "mem_kill inst s = reclaim inst (s\<lparr>ms_live := filter (\<lambda>i. i \<noteq> inst) (ms_live s)\<rparr>)"

definition mem_revive :: "string \<Rightarrow> mem_state \<Rightarrow> mem_state" where
  "mem_revive inst s = s\<lparr>ms_live := set_insert inst (ms_live s)\<rparr>"

definition inject_drift :: "string \<Rightarrow> string \<Rightarrow> nat \<Rightarrow> mem_state \<Rightarrow> mem_state" where
  "inject_drift inst pool n s = ms_add inst GLOBAL_FIELD (int n) (ms_add inst (pool_field pool) (int n) s)"

definition put_view :: "instant \<Rightarrow> string \<Rightarrow> replica_view \<Rightarrow> duration \<Rightarrow> mem_state \<Rightarrow> mem_state" where
  "put_view now inst v ttl s =
     s\<lparr>ms_views := AList.update inst \<lparr>mv_view = v, mv_at = now, mv_ttl = ttl\<rparr> (ms_views s)\<rparr>"

definition claim_fields :: "string \<Rightarrow> uuid \<Rightarrow> uuid \<Rightarrow> string list" where
  "claim_fields pool tenant key =
     [GLOBAL_FIELD, pool_field pool, tenant_field pool tenant, key_field pool key]"

definition counts_of :: "string \<Rightarrow> mem_state \<Rightarrow> cluster_counts" where
  "counts_of pool s = \<lparr>cc_pool = ms_count s (pool_field pool), cc_global = ms_count s GLOBAL_FIELD\<rparr>"

definition backend_unavailable :: slot_error where
  "backend_unavailable = ''backend unavailable''"

text \<open>Deciding a claim of a live replica, once the holds that ran out are gone.\<close>

definition decide_claim :: "string \<Rightarrow> slot_claim \<Rightarrow> mem_state \<Rightarrow> mem_state \<times> acquire_outcome" where
  "decide_claim inst c s =
     (case (case sc_hold c of None \<Rightarrow> None | Some i \<Rightarrow> if contains_key (ms_holds s) i then Some i else None) of
        Some i \<Rightarrow>
          (take_over (hold_owner i) inst (s\<lparr>ms_holds := AList.delete i (ms_holds s)\<rparr>), Redeemed)
      | None \<Rightarrow>
          if sc_redeem_only c then (s, NotHeld)
          else if sc_pool_cap c \<le> ms_count s (pool_field (sc_pool c)) then (s, Denied DenyPool)
          else if sc_global_cap c \<le> ms_count s GLOBAL_FIELD then (s, Denied DenyGlobal)
          else if (case sc_tenant_cap c of None \<Rightarrow> False
                   | Some m \<Rightarrow> m \<le> ms_count s (tenant_field (sc_pool c) (sc_tenant c))) then (s, Denied DenyTenant)
          else if (case sc_key_cap c of None \<Rightarrow> False
                   | Some m \<Rightarrow> m \<le> ms_count s (key_field (sc_pool c) (sc_key c))) then (s, Denied DenyKey)
          else (fold (\<lambda>f. ms_add inst f 1) (claim_fields (sc_pool c) (sc_tenant c) (sc_key c)) s, Granted))"

definition mark_waiting :: "instant \<Rightarrow> slot_claim \<Rightarrow> acquire_outcome \<Rightarrow> mem_state \<Rightarrow> mem_state" where
  "mark_waiting now c out s =
     (case out of
        Denied d \<Rightarrow>
          s\<lparr>ms_waiting := AList.update (if d = DenyGlobal then [] else sc_pool c) (now + WAIT_MARK) (ms_waiting s)\<rparr>
      | _ \<Rightarrow> s)"

definition mem_acquire ::
  "string \<Rightarrow> instant \<Rightarrow> slot_claim \<Rightarrow> mem_state \<Rightarrow> mem_state \<times> string list \<times> (slot_error + acquire_outcome \<times> cluster_counts)" where
  "mem_acquire inst now c s =
     (if ms_failing s then (s, [], Inl backend_unavailable)
      else if inst \<notin> set (ms_live s) then (s, [], Inr (NotRegistered, counts_of (sc_pool c) s))
      else (let (s, freed) = purge_holds now s;
                (s, freed) =
                  (if sc_starving c then
                     (let s = s\<lparr>ms_starving := AList.update (sc_pool c) (now + WAIT_MARK) (ms_starving s)\<rparr>;
                          (s, more) = free_pool_holds (sc_pool c) (sc_hold c) s
                      in (s, freed @ more))
                   else (s, freed));
                (s, out) = decide_claim inst c s;
                s = mark_waiting now c out s
            in (s, freed, Inr (out, counts_of (sc_pool c) s))))"

definition mine :: "string \<Rightarrow> string \<Rightarrow> mem_state \<Rightarrow> nat" where
  "mine inst f s = (case map_of (ms_held s) inst of None \<Rightarrow> 0 | Some h \<Rightarrow> get_or 0 h f)"

definition give_back :: "string \<Rightarrow> string \<Rightarrow> mem_state \<Rightarrow> mem_state" where
  "give_back inst f s = (if 0 < mine inst f s then ms_add inst f (- 1) s else s)"

definition mem_release ::
  "string \<Rightarrow> slot_release \<Rightarrow> mem_state \<Rightarrow> mem_state \<times> string list \<times> (slot_error + cluster_counts)" where
  "mem_release inst r s =
     (if ms_failing s then (s, [], Inl backend_unavailable)
      else (let s = fold (give_back inst) (claim_fields (sr_pool r) (sr_tenant r) (sr_key r)) s
            in (s, [sr_pool r], Inr (counts_of (sr_pool r) s))))"

definition hand_over :: "string \<Rightarrow> string \<Rightarrow> string \<Rightarrow> mem_state \<Rightarrow> mem_state" where
  "hand_over inst owner f s =
     (if 0 < mine inst f s then ms_add owner f 1 (ms_add inst f (- 1) s) else s)"

text \<open>Noting when the session's step finished, and whether it chained onto the one before.\<close>

definition note_step :: "instant \<Rightarrow> slot_hold \<Rightarrow> mem_state \<Rightarrow> mem_state \<times> bool" where
  "note_step now h s =
     (let recent = filter (\<lambda>(_, done). now - done < sh_remember h) (ms_recent s);
          arrived = (if sh_arrived_ago h \<le> now then now - sh_arrived_ago h else now);
          chained = (case map_of recent (sh_id h) of None \<Rightarrow> False | Some done \<Rightarrow> arrived - done \<le> sh_ttl h)
      in (s\<lparr>ms_recent := AList.update (sh_id h) now recent,
            ms_chain := filter (\<lambda>(i, _). contains_key recent i) (ms_chain s)\<rparr>, chained))"

definition pool_waited :: "instant \<Rightarrow> string \<Rightarrow> mem_state \<Rightarrow> bool" where
  "pool_waited now pool s =
     list_ex (\<lambda>p. case map_of (ms_waiting s) p of None \<Rightarrow> False | Some until \<Rightarrow> now < until) [pool, []]"

definition hold_allowed :: "string \<Rightarrow> instant \<Rightarrow> slot_release \<Rightarrow> slot_hold \<Rightarrow> bool \<Rightarrow> mem_state \<Rightarrow> bool" where
  "hold_allowed inst now r h chained s =
     (let run = get_or 0 (ms_chain s) (sh_id h);
          starving = (case map_of (ms_starving s) (sr_pool r) of None \<Rightarrow> False | Some until \<Rightarrow> now < until)
      in chained \<and> \<not> starving \<and> (\<not> pool_waited now (sr_pool r) s \<or> run < sh_max_run h) \<and>
         ms_count s (held_field (sr_pool r)) < sh_max_held h \<and>
         \<not> contains_key (ms_holds s) (sh_id h) \<and> 0 < mine inst (pool_field (sr_pool r)) s)"

definition keep_slot :: "string \<Rightarrow> instant \<Rightarrow> slot_release \<Rightarrow> slot_hold \<Rightarrow> mem_state \<Rightarrow> mem_state" where
  "keep_slot inst now r h s =
     (let owner = hold_owner (sh_id h);
          waited = pool_waited now (sr_pool r) s;
          run = get_or 0 (ms_chain s) (sh_id h);
          s = fold (hand_over inst owner) (claim_fields (sr_pool r) (sr_tenant r) (sr_key r)) s;
          s = ms_add owner (held_field (sr_pool r)) 1 s
      in s\<lparr>ms_chain := (if waited then AList.update (sh_id h) (run + 1) (ms_chain s)
                        else AList.delete (sh_id h) (ms_chain s)),
           ms_holds := AList.update (sh_id h) (now + sh_ttl h) (ms_holds s)\<rparr>)"

definition mem_hold ::
  "string \<Rightarrow> instant \<Rightarrow> slot_release \<Rightarrow> slot_hold \<Rightarrow> mem_state \<Rightarrow> mem_state \<times> string list \<times> (slot_error + bool \<times> cluster_counts)" where
  "mem_hold inst now r h s =
     (let (s, freed) = purge_holds now s;
          (s, chained) = note_step now h s
      in if \<not> hold_allowed inst now r h chained s then
           (let (s, woken, res) = mem_release inst r (s\<lparr>ms_chain := AList.delete (sh_id h) (ms_chain s)\<rparr>)
            in (s, freed @ woken, map_sum id (Pair False) res))
         else (let s = keep_slot inst now r h s in (s, freed, Inr (True, counts_of (sr_pool r) s))))"

definition add_holdings :: "string \<Rightarrow> pool_holdings \<Rightarrow> mem_state \<Rightarrow> mem_state" where
  "add_holdings inst h s =
     fold (\<lambda>(k, n). ms_add inst (key_field (ph_pool h) k) (int n)) (ph_keys h)
       (fold (\<lambda>(t, n). ms_add inst (tenant_field (ph_pool h) t) (int n)) (ph_tenants h)
          (ms_add inst GLOBAL_FIELD (int (ph_in_flight h))
             (ms_add inst (pool_field (ph_pool h)) (int (ph_in_flight h)) s)))"

definition mem_reconcile ::
  "string \<Rightarrow> pool_holdings list \<Rightarrow> mem_state \<Rightarrow> mem_state \<times> string list \<times> (slot_error + reconcile_outcome)" where
  "mem_reconcile inst holdings s =
     (if ms_failing s then (s, [], Inl backend_unavailable)
      else if inst \<notin> set (ms_live s) then (s, [], Inr ReconcileNotRegistered)
      else (let (s, freed) = reclaim inst s in (fold (add_holdings inst) holdings s, freed, Inr Synced)))"

definition mem_totals :: "string list \<Rightarrow> mem_state \<Rightarrow> slot_error + nat \<times> nat list" where
  "mem_totals pools s =
     (if ms_failing s then Inl backend_unavailable
      else Inr (ms_count s GLOBAL_FIELD, map (\<lambda>p. ms_count s (pool_field p)) pools))"

definition mem_publish_view ::
  "string \<Rightarrow> instant \<Rightarrow> replica_view \<Rightarrow> duration \<Rightarrow> mem_state \<Rightarrow> mem_state \<times> (slot_error + unit)" where
  "mem_publish_view inst now v ttl s =
     (if ms_failing s then (s, Inl backend_unavailable) else (put_view now inst v ttl s, Inr ()))"

definition mem_peer_views :: "string \<Rightarrow> instant \<Rightarrow> mem_state \<Rightarrow> slot_error + peer_views" where
  "mem_peer_views inst now s =
     (if ms_failing s then Inl backend_unavailable
      else Inr \<lparr>pvs_live = length (ms_live s),
                pvs_views = sort_key pv_instance (List.map_filter (\<lambda>i.
                  case map_of (ms_views s) i of None \<Rightarrow> None
                  | Some v \<Rightarrow> if now - mv_at v < mv_ttl v
                      then Some \<lparr>pv_instance = i, pv_view = mv_view v, pv_age_ms = now - mv_at v\<rparr> else None)
                  (filter (\<lambda>i. i \<noteq> inst) (ms_live s)))\<rparr>)"

end
