(* ===== verification/Slot_Ledger.thy ===== *)
theory Slot_Ledger
  imports Slots
begin

text \<open>
  Correctness of the in-process slot backend: the cluster totals are the sum of what every replica
  and every held slot is recorded with (\<open>ms_ok\<close>), for each operation; the contract the scheduler
  relies on as the locale \<open>slot_backend\<close>, interpreted on the backend's operations; and what
  follows for any interleaving of calls.
\<close>

section \<open>Counting\<close>

definition ms_ok :: "mem_state \<Rightarrow> bool" where
  "ms_ok s \<longleftrightarrow> hmap_ok (ms_totals s) \<and> vals_ok (\<lambda>n. 0 < n) (ms_totals s) \<and> hmap_ok (ms_held s) \<and>
     vals_ok (\<lambda>h. hmap_ok h \<and> vals_ok (\<lambda>n. 0 < n) h) (ms_held s) \<and>
     (\<forall>f. ms_count s f = msum (\<lambda>h. get_or 0 h f) (ms_held s))"

lemma ms_ok_default [simp]: "ms_ok mem_state_default"
  by (simp add: ms_ok_def mem_state_default_def ms_count_def)

lemma mine_eq: "mine inst f s = get_or 0 (get_or [] (ms_held s) inst) f"
  by (simp add: mine_def get_or_def split: option.splits)

lemma mine_le_count: "ms_ok s \<Longrightarrow> mine inst f s \<le> ms_count s f"
  using msum_member_le [of "ms_held s" inst _ "\<lambda>h. get_or 0 h f"]
  by (auto simp: ms_ok_def mine_def split: option.splits)

lemma get_bump: "get_or 0 (bump f d m) f' = (if f' = f then nat (int (get_or 0 m f) + d) else get_or 0 m f')"
  by (simp add: bump_def Let_def)

lemma bump_ok: "hmap_ok m \<Longrightarrow> vals_ok (\<lambda>n. 0 < n) m \<Longrightarrow> hmap_ok (bump f d m) \<and> vals_ok (\<lambda>n. 0 < n) (bump f d m)"
  by (auto simp: bump_def Let_def intro!: vals_ok_update vals_ok_delete)

lemma count_add: "ms_count (ms_add inst f d s) f' = (if f' = f then nat (int (ms_count s f) + d) else ms_count s f')"
  by (simp add: ms_count_def ms_add_def get_bump)

lemma mine_add:
  "mine i f' (ms_add inst f d s) =
     (if i = inst \<and> f' = f then nat (int (mine inst f s) + d) else mine i f' s)"
  by (simp add: mine_eq ms_add_def get_bump)

lemma held_ok: "ms_ok s \<Longrightarrow> hmap_ok (get_or [] (ms_held s) inst) \<and> vals_ok (\<lambda>n. 0 < n) (get_or [] (ms_held s) inst)"
proof (cases "map_of (ms_held s) inst")
  case (Some h)
  assume "ms_ok s"
  then have "vals_ok (\<lambda>h. hmap_ok h \<and> vals_ok (\<lambda>n. 0 < n) h) (ms_held s)" by (simp add: ms_ok_def)
  from vals_okD [OF this Some] show ?thesis using Some by (simp add: get_or_Some)
qed (simp add: get_or_None)

lemma ms_ok_add:
  assumes "ms_ok s" and "0 \<le> int (mine inst f s) + d"
  shows "ms_ok (ms_add inst f d s)"
proof -
  let ?h = "get_or [] (ms_held s) inst"
  have h: "hmap_ok (bump f d ?h) \<and> vals_ok (\<lambda>n. 0 < n) (bump f d ?h)" using held_ok [OF assms(1)] bump_ok by blast
  have c: "ms_count (ms_add inst f d s) f' = msum (\<lambda>h. get_or 0 h f') (ms_held (ms_add inst f d s))" for f'
  proof -
    have "msum (\<lambda>h. get_or 0 h f') (AList.update inst (bump f d ?h) (ms_held s)) + get_or 0 ?h f' =
        msum (\<lambda>h. get_or 0 h f') (ms_held s) + get_or 0 (bump f d ?h) f'"
      using assms(1) by (intro msum_get_update) (auto simp: ms_ok_def)
    moreover have "ms_count s f' = msum (\<lambda>h. get_or 0 h f') (ms_held s)" using assms(1) by (simp add: ms_ok_def)
    moreover have "mine inst f' s \<le> ms_count s f'" using mine_le_count [OF assms(1)] .
    moreover have "ms_held (ms_add inst f d s) = AList.update inst (bump f d ?h) (ms_held s)"
      by (simp add: ms_add_def)
    ultimately show ?thesis using assms(2) by (auto simp: count_add get_bump mine_eq)
  qed
  show ?thesis
    using assms(1) h c bump_ok [of "ms_totals s" f d]
    by (auto simp: ms_ok_def ms_add_def intro!: vals_ok_update)
qed

lemma ms_ok_cong:
  "ms_totals s = ms_totals s' \<Longrightarrow> ms_held s = ms_held s' \<Longrightarrow> ms_ok s = ms_ok s'"
  by (simp add: ms_ok_def ms_count_def)

lemma count_cong: "ms_totals s = ms_totals s' \<Longrightarrow> ms_count s = ms_count s'"
  by (simp add: ms_count_def fun_eq_iff)

section \<open>Reclaiming\<close>

lemma get_sub_total: "get_or 0 (sub_total f n m) f' = (if f' = f then get_or 0 m f - n else get_or 0 m f')"
  by (simp add: sub_total_def Let_def)

lemma sub_total_ok:
  "hmap_ok m \<Longrightarrow> vals_ok (\<lambda>n. 0 < n) m \<Longrightarrow> hmap_ok (sub_total f n m) \<and> vals_ok (\<lambda>n. 0 < n) (sub_total f n m)"
  by (auto simp: sub_total_def Let_def intro!: vals_ok_update vals_ok_delete)

lemma fold_sub_total_ok:
  "hmap_ok m \<Longrightarrow> vals_ok (\<lambda>n. 0 < n) m \<Longrightarrow>
   hmap_ok (fold (\<lambda>(f, n). sub_total f n) held m) \<and> vals_ok (\<lambda>n. 0 < n) (fold (\<lambda>(f, n). sub_total f n) held m)"
proof (induction held arbitrary: m)
  case (Cons e held)
  then show ?case using sub_total_ok [of m "fst e" "snd e"] by (auto simp: case_prod_beta')
qed simp

lemma get_or_Cons: "get_or d ((g, n) # m) f = (if f = g then n else get_or d m f)"
  by (simp add: get_or_def)

lemma get_fold_sub_total:
  "hmap_ok held \<Longrightarrow> get_or 0 (fold (\<lambda>(f, n). sub_total f n) held m) f = get_or 0 m f - get_or 0 held f"
proof (induction held arbitrary: m)
  case (Cons e held)
  obtain g n where e: "e = (g, n)" by (cases e)
  have "map_of held g = None" using Cons.prems by (simp add: hmap_ok_def e map_of_eq_None_iff)
  then have "get_or 0 held g = 0" by (rule get_or_None)
  then show ?case
    using Cons by (auto simp: hmap_ok_def e get_sub_total get_or_Cons)
qed simp

lemma reclaim_correct:
  assumes "ms_ok s" and "reclaim inst s = (s', freed)"
  shows "ms_ok s'" and "ms_count s' f + mine inst f s = ms_count s f"
    and "mine i f s' = (if i = inst then 0 else mine i f s)"
    and "ms_holds s' = ms_holds s" and "ms_live s' = ms_live s" and "ms_failing s' = ms_failing s"
proof -
  let ?h = "get_or [] (ms_held s) inst"
  have t: "ms_totals s' = fold (\<lambda>(f, n). sub_total f n) ?h (ms_totals s)"
    and hh: "ms_held s' = AList.delete inst (ms_held s)"
    and rest: "ms_holds s' = ms_holds s" "ms_live s' = ms_live s" "ms_failing s' = ms_failing s"
    using assms(2)
    by (cases "map_of (ms_held s) inst";
        auto simp: reclaim_def get_or_Some get_or_None delete_id map_of_eq_None_iff)+
  show "ms_holds s' = ms_holds s" "ms_live s' = ms_live s" "ms_failing s' = ms_failing s" by (fact rest)+
  have c: "ms_count s' f = ms_count s f - mine inst f s" for f
    using held_ok [OF assms(1), of inst] by (simp add: ms_count_def t mine_eq get_fold_sub_total)
  then show "ms_count s' f + mine inst f s = ms_count s f" using mine_le_count [OF assms(1)] by simp
  show "mine i f s' = (if i = inst then 0 else mine i f s)" by (simp add: mine_eq hh)
  have "msum (\<lambda>h. get_or 0 h f) (AList.delete inst (ms_held s)) + mine inst f s = ms_count s f" for f
    using assms(1) msum_get_delete [where f = "\<lambda>h. get_or 0 h f" and d = "[]" and m = "ms_held s" and k = inst]
    by (simp add: ms_ok_def mine_eq)
  then have "ms_count s' f = msum (\<lambda>h. get_or 0 h f) (ms_held s')" for f
    unfolding hh c using diff_add_inverse2 by metis
  then show "ms_ok s'"
    using assms(1) fold_sub_total_ok [of "ms_totals s" ?h]
    by (auto simp: ms_ok_def hh t intro!: vals_ok_delete)
qed

lemma free_holds_correct:
  assumes "ms_ok s" and "free_holds ids s = (s', freed)"
  shows "ms_ok s' \<and> ms_count s' f \<le> ms_count s f \<and> ms_live s' = ms_live s \<and> ms_failing s' = ms_failing s \<and>
    ((\<forall>i. inst \<noteq> hold_owner i) \<longrightarrow> mine inst f s' = mine inst f s)"
  using assms
proof (induction ids arbitrary: s freed)
  case (Cons i ids)
  let ?s = "s\<lparr>ms_holds := AList.delete i (ms_holds s)\<rparr>"
  have ok: "ms_ok ?s" using Cons.prems(1) ms_ok_cong [of ?s s] by simp
  obtain s1 fr where r: "reclaim (hold_owner i) ?s = (s1, fr)" by fastforce
  note R = reclaim_correct [OF ok r]
  obtain fr' where f: "free_holds ids s1 = (s', fr')"
    using Cons.prems(2) r by (auto split: prod.splits)
  have "ms_count s1 f \<le> ms_count s f" using R(2) [of f] by (simp add: ms_count_def)
  moreover have "mine inst f s1 = (if inst = hold_owner i then 0 else mine inst f s)"
    using R(3) [of inst f] by (simp add: mine_def)
  ultimately show ?case using Cons.IH [OF R(1) f] R(5,6) by auto
qed simp


section \<open>Claims\<close>

lemma ms_add_frame [simp]:
  "ms_holds (ms_add i f d s) = ms_holds s" "ms_live (ms_add i f d s) = ms_live s"
  "ms_failing (ms_add i f d s) = ms_failing s"
  by (simp_all add: ms_add_def)

text \<open>Replica ids are not ids of held slots.\<close>

definition replica :: "string \<Rightarrow> bool" where
  "replica inst \<longleftrightarrow> \<not> starts_with ''hold:'' inst"

lemma replica_not_owner: "replica inst \<Longrightarrow> inst \<noteq> hold_owner i"
  by (auto simp: replica_def hold_owner_def starts_with_def)

lemma claim_fields_distinct: "distinct (claim_fields pool tenant key)"
  by (simp add: claim_fields_def GLOBAL_FIELD_def pool_field_def tenant_field_def key_field_def)

lemma fold_add_one:
  "ms_ok s \<Longrightarrow> distinct fs \<Longrightarrow>
   ms_ok (fold (\<lambda>f. ms_add inst f 1) fs s) \<and>
   (\<forall>f. ms_count (fold (\<lambda>f. ms_add inst f 1) fs s) f = ms_count s f + (if f \<in> set fs then 1 else 0)) \<and>
   (\<forall>f. mine inst f (fold (\<lambda>f. ms_add inst f 1) fs s) = mine inst f s + (if f \<in> set fs then 1 else 0))"
proof (induction fs arbitrary: s)
  case (Cons g fs)
  have "ms_ok (ms_add inst g 1 s)" using Cons.prems(1) by (intro ms_ok_add) auto
  then show ?case using Cons.IH [of "ms_add inst g 1 s"] Cons.prems(2) by (auto simp: count_add mine_add nat_add_distrib)
qed simp

lemma fold_give_back:
  "ms_ok s \<Longrightarrow> distinct fs \<Longrightarrow>
   ms_ok (fold (give_back inst) fs s) \<and>
   (\<forall>f. ms_count (fold (give_back inst) fs s) f + (if f \<in> set fs \<and> 0 < mine inst f s then 1 else 0) = ms_count s f) \<and>
   (\<forall>i f. mine i f (fold (give_back inst) fs s) = mine i f s - (if i = inst \<and> f \<in> set fs then 1 else 0)) \<and>
   ms_holds (fold (give_back inst) fs s) = ms_holds s"
proof (induction fs arbitrary: s)
  case (Cons g fs)
  have ok: "ms_ok (give_back inst g s)" using Cons.prems(1) by (auto simp: give_back_def intro!: ms_ok_add)
  have le: "mine inst g s \<le> ms_count s g" using Cons.prems(1) by (rule mine_le_count)
  have c: "ms_count (give_back inst g s) f + (if f = g \<and> 0 < mine inst f s then 1 else 0) = ms_count s f"
    and m: "mine i f (give_back inst g s) = mine i f s - (if i = inst \<and> f = g then 1 else 0)"
    and h: "ms_holds (give_back inst g s) = ms_holds s" for f i
    using le by (auto simp: give_back_def count_add mine_add)
  have g: "g \<notin> set fs" and d: "distinct fs" using Cons.prems(2) by auto
  note IH = Cons.IH [OF ok d]
  show ?case
  proof (intro conjI allI)
    show "ms_ok (fold (give_back inst) (g # fs) s)" using IH by simp
    show "ms_holds (fold (give_back inst) (g # fs) s) = ms_holds s" using IH h by simp
    show "mine i f (fold (give_back inst) (g # fs) s) = mine i f s - (if i = inst \<and> f \<in> set (g # fs) then 1 else 0)" for i f
      using IH m [of i f] g by auto
    have k: "ms_count (fold (give_back inst) fs (give_back inst g s)) f +
        (if f \<in> set fs \<and> 0 < mine inst f (give_back inst g s) then 1 else 0) = ms_count (give_back inst g s) f" for f
      using IH by blast
    show "ms_count (fold (give_back inst) (g # fs) s) f + (if f \<in> set (g # fs) \<and> 0 < mine inst f s then 1 else 0) = ms_count s f" for f
      using k [of f] c [of f] m [of inst f] g by (cases "f = g") (auto split: if_splits)
  qed
qed simp

lemma fold_hand_over:
  "ms_ok s \<Longrightarrow> inst \<noteq> owner \<Longrightarrow>
   ms_ok (fold (hand_over inst owner) fs s) \<and>
   (\<forall>f. ms_count (fold (hand_over inst owner) fs s) f = ms_count s f)"
proof (induction fs arbitrary: s)
  case (Cons g fs)
  have le: "mine inst g s \<le> ms_count s g" using Cons.prems(1) by (rule mine_le_count)
  have "ms_ok (hand_over inst owner g s)"
    using Cons.prems by (auto simp: hand_over_def mine_add intro!: ms_ok_add)
  moreover have "ms_count (hand_over inst owner g s) f = ms_count s f" for f
    using le by (auto simp: hand_over_def count_add)
  ultimately show ?case using Cons.IH [of "hand_over inst owner g s"] Cons.prems(2) by simp
qed simp

definition take_step :: "string \<Rightarrow> string \<Rightarrow> string \<times> nat \<Rightarrow> mem_state \<Rightarrow> mem_state" where
  "take_step src dst = (\<lambda>(f, n) s.
     let s = ms_add src f (- int n) s in if starts_with ''h|'' f then s else ms_add dst f (int n) s)"

lemma take_over_eq:
  "take_over src dst s =
     (case map_of (ms_held s) src of None \<Rightarrow> s
      | Some held \<Rightarrow> let s = fold (take_step src dst) held s in s\<lparr>ms_held := AList.delete src (ms_held s)\<rparr>)"
  by (simp only: take_over_def take_step_def)

lemma fold_take_step:
  assumes "ms_ok s" and "src \<noteq> dst" and "hmap_ok held" and "\<And>f n. map_of held f = Some n \<Longrightarrow> mine src f s = n"
  shows "ms_ok (fold (take_step src dst) held s) \<and>
    (\<forall>f. mine src f (fold (take_step src dst) held s) = (if contains_key held f then 0 else mine src f s)) \<and>
    (\<forall>f. ms_count (fold (take_step src dst) held s) f + (if starts_with ''h|'' f then get_or 0 held f else 0) = ms_count s f)"
  using assms
proof (induction held arbitrary: s)
  case (Cons e held)
  obtain g n where e: "e = (g, n)" by (cases e)
  have g: "map_of held g = None" and hk: "hmap_ok held"
    using Cons.prems(3) by (auto simp: hmap_ok_def e map_of_eq_None_iff)
  have m: "mine src g s = n" using Cons.prems(4) [of g n] by (simp add: e)
  then have le: "n \<le> ms_count s g" using mine_le_count [OF Cons.prems(1), of src g] by simp
  let ?s = "take_step src dst e s"
  have ok: "ms_ok ?s"
    using Cons.prems(1,2) m by (auto simp: take_step_def e Let_def mine_add intro!: ms_ok_add)
  have mine: "mine src f ?s = (if f = g then 0 else mine src f s)" for f
    using Cons.prems(2) m by (auto simp: take_step_def e Let_def mine_add)
  have cnt: "ms_count ?s f + (if f = g \<and> starts_with ''h|'' f then n else 0) = ms_count s f" for f
    using le by (auto simp: take_step_def e Let_def count_add)
  have rest: "mine src f ?s = k" if "map_of held f = Some k" for f k
  proof -
    have "f \<noteq> g" using that g by auto
    then show ?thesis using mine [of f] Cons.prems(4) [of f k] that by (simp add: e)
  qed
  note IH = Cons.IH [OF ok Cons.prems(2) hk rest]
  have g0: "get_or 0 held g = 0" using g by (rule get_or_None)
  show ?case
  proof (intro conjI allI)
    show "ms_ok (fold (take_step src dst) (e # held) s)" using IH by simp
    show "mine src f (fold (take_step src dst) (e # held) s) = (if contains_key (e # held) f then 0 else mine src f s)" for f
      using IH mine [of f] by (auto simp: e contains_key_def)
    have k: "ms_count (fold (take_step src dst) held ?s) f + (if starts_with ''h|'' f then get_or 0 held f else 0) = ms_count ?s f" for f
      using IH by blast
    show "ms_count (fold (take_step src dst) (e # held) s) f +
        (if starts_with ''h|'' f then get_or 0 (e # held) f else 0) = ms_count s f" for f
      using k [of f] cnt [of f] g0 by (cases "f = g") (auto simp: e get_or_Cons split: if_splits)
  qed
qed (simp add: contains_key_def)

lemma take_over_correct:
  assumes "ms_ok s" and "src \<noteq> dst"
  shows "ms_ok (take_over src dst s)"
    and "ms_count (take_over src dst s) f + (if starts_with ''h|'' f then mine src f s else 0) = ms_count s f"
proof -
  have "ms_ok (take_over src dst s) \<and>
    (\<forall>f. ms_count (take_over src dst s) f + (if starts_with ''h|'' f then mine src f s else 0) = ms_count s f)"
  proof (cases "map_of (ms_held s) src")
    case None
    then show ?thesis using assms(1) by (simp add: take_over_eq mine_def)
  next
    case (Some held)
    have hk: "hmap_ok held" using held_ok [OF assms(1), of src] Some by (simp add: get_or_Some)
    have m: "mine src f s = get_or 0 held f" for f using Some by (simp add: mine_def)
    let ?s = "fold (take_step src dst) held s"
    have F: "ms_ok ?s \<and> (\<forall>f. mine src f ?s = (if contains_key held f then 0 else mine src f s)) \<and>
      (\<forall>f. ms_count ?s f + (if starts_with ''h|'' f then get_or 0 held f else 0) = ms_count s f)"
      using m by (intro fold_take_step [OF assms hk]) (simp add: get_or_Some)
    then have ok: "ms_ok ?s" by blast
    have z: "mine src f ?s = 0" for f using F m by (auto simp: get_or_def contains_key_def split: option.splits)
    have cnt: "ms_count ?s f + (if starts_with ''h|'' f then get_or 0 held f else 0) = ms_count s f" for f
      using F by blast
    have "msum (\<lambda>h. get_or 0 h f) (AList.delete src (ms_held ?s)) = msum (\<lambda>h. get_or 0 h f) (ms_held ?s)" for f
      using ok z [of f] msum_get_delete [where f = "\<lambda>h. get_or 0 h f" and d = "[]" and m = "ms_held ?s" and k = src]
      by (simp add: ms_ok_def mine_eq)
    then have "ms_ok (?s\<lparr>ms_held := AList.delete src (ms_held ?s)\<rparr>)"
      using ok by (auto simp: ms_ok_def ms_count_def intro!: vals_ok_delete)
    moreover have "ms_count (take_over src dst s) f = ms_count ?s f" for f
      using Some by (simp add: take_over_eq Let_def ms_count_def)
    ultimately show ?thesis using cnt m Some by (simp only: take_over_eq Let_def option.case) blast
  qed
  then show "ms_ok (take_over src dst s)"
    and "ms_count (take_over src dst s) f + (if starts_with ''h|'' f then mine src f s else 0) = ms_count s f"
    by blast+
qed

section \<open>The operations keep the ledger\<close>

lemma purge_holds_correct:
  assumes "ms_ok s" and "purge_holds now s = (s', freed)"
  shows "ms_ok s'" and "ms_count s' f \<le> ms_count s f" and "ms_live s' = ms_live s" and "ms_failing s' = ms_failing s"
    and "replica inst \<Longrightarrow> mine inst f s' = mine inst f s"
  using free_holds_correct [OF assms(1) assms(2) [unfolded purge_holds_def], of f inst] replica_not_owner [of inst]
  by auto

lemma free_pool_holds_correct:
  assumes "ms_ok s" and "free_pool_holds pool keep s = (s', freed)"
  shows "ms_ok s'" and "ms_count s' f \<le> ms_count s f" and "ms_live s' = ms_live s" and "ms_failing s' = ms_failing s"
  using free_holds_correct [OF assms(1) assms(2) [unfolded free_pool_holds_def], of f] by auto

lemma decide_claim_correct:
  assumes "ms_ok s" and "replica inst" and "decide_claim inst c s = (s', out)"
  shows "ms_ok s'"
    and "out = Granted \<Longrightarrow> ms_count s' (pool_field (sc_pool c)) \<le> sc_pool_cap c \<and> ms_count s' GLOBAL_FIELD \<le> sc_global_cap c \<and>
      (\<forall>m. sc_tenant_cap c = Some m \<longrightarrow> ms_count s' (tenant_field (sc_pool c) (sc_tenant c)) \<le> m) \<and>
      (\<forall>m. sc_key_cap c = Some m \<longrightarrow> ms_count s' (key_field (sc_pool c) (sc_key c)) \<le> m)"
    and "out = Granted \<Longrightarrow> ms_count s' f = ms_count s f + (if f \<in> set (claim_fields (sc_pool c) (sc_tenant c) (sc_key c)) then 1 else 0)"
    and "out \<noteq> Granted \<Longrightarrow> ms_count s' f \<le> ms_count s f"
proof -
  let ?s = "fold (\<lambda>f. ms_add inst f 1) (claim_fields (sc_pool c) (sc_tenant c) (sc_key c)) s"
  note A = fold_add_one [OF assms(1) claim_fields_distinct [of "sc_pool c" "sc_tenant c" "sc_key c"], of inst]
  consider (redeem) i where "s' = take_over (hold_owner i) inst (s\<lparr>ms_holds := AList.delete i (ms_holds s)\<rparr>)" "out = Redeemed"
    | (refuse) "s' = s" "out \<noteq> Granted"
    | (grant) "s' = ?s" "out = Granted" "ms_count s (pool_field (sc_pool c)) < sc_pool_cap c"
        "ms_count s GLOBAL_FIELD < sc_global_cap c"
        "\<And>m. sc_tenant_cap c = Some m \<Longrightarrow> ms_count s (tenant_field (sc_pool c) (sc_tenant c)) < m"
        "\<And>m. sc_key_cap c = Some m \<Longrightarrow> ms_count s (key_field (sc_pool c) (sc_key c)) < m"
    using assms(3) by (auto simp: decide_claim_def not_le split: option.splits if_splits)
  then have "ms_ok s' \<and>
    (out = Granted \<longrightarrow> ms_count s' (pool_field (sc_pool c)) \<le> sc_pool_cap c \<and> ms_count s' GLOBAL_FIELD \<le> sc_global_cap c \<and>
      (\<forall>m. sc_tenant_cap c = Some m \<longrightarrow> ms_count s' (tenant_field (sc_pool c) (sc_tenant c)) \<le> m) \<and>
      (\<forall>m. sc_key_cap c = Some m \<longrightarrow> ms_count s' (key_field (sc_pool c) (sc_key c)) \<le> m) \<and>
      ms_count s' f = ms_count s f + (if f \<in> set (claim_fields (sc_pool c) (sc_tenant c) (sc_key c)) then 1 else 0)) \<and>
    (out \<noteq> Granted \<longrightarrow> ms_count s' f \<le> ms_count s f)"
  proof cases
    case redeem
    let ?r = "s\<lparr>ms_holds := AList.delete i (ms_holds s)\<rparr>"
    have ok: "ms_ok ?r" using assms(1) ms_ok_cong [of ?r s] by simp
    have "ms_count ?r f = ms_count s f" by (simp add: ms_count_def)
    then show ?thesis
      using redeem take_over_correct [OF ok, of "hold_owner i" inst] replica_not_owner [OF assms(2), of i]
      by (auto simp: le_iff_add intro: exI split: if_splits) (metis add.commute)
  next
    case refuse
    then show ?thesis using assms(1) by simp
  next
    case grant
    have m: "pool_field (sc_pool c) \<in> set (claim_fields (sc_pool c) (sc_tenant c) (sc_key c))"
      "GLOBAL_FIELD \<in> set (claim_fields (sc_pool c) (sc_tenant c) (sc_key c))"
      "tenant_field (sc_pool c) (sc_tenant c) \<in> set (claim_fields (sc_pool c) (sc_tenant c) (sc_key c))"
      "key_field (sc_pool c) (sc_key c) \<in> set (claim_fields (sc_pool c) (sc_tenant c) (sc_key c))"
      by (simp_all add: claim_fields_def)
    show ?thesis using A m grant(3-6) unfolding grant(1,2) by (auto simp: Suc_le_eq)
  qed
  then show "ms_ok s'"
    and "out = Granted \<Longrightarrow> ms_count s' (pool_field (sc_pool c)) \<le> sc_pool_cap c \<and> ms_count s' GLOBAL_FIELD \<le> sc_global_cap c \<and>
      (\<forall>m. sc_tenant_cap c = Some m \<longrightarrow> ms_count s' (tenant_field (sc_pool c) (sc_tenant c)) \<le> m) \<and>
      (\<forall>m. sc_key_cap c = Some m \<longrightarrow> ms_count s' (key_field (sc_pool c) (sc_key c)) \<le> m)"
    and "out = Granted \<Longrightarrow> ms_count s' f = ms_count s f + (if f \<in> set (claim_fields (sc_pool c) (sc_tenant c) (sc_key c)) then 1 else 0)"
    and "out \<noteq> Granted \<Longrightarrow> ms_count s' f \<le> ms_count s f" by blast+
qed

lemma mark_waiting_frame [simp]:
  "ms_totals (mark_waiting now c out s) = ms_totals s" "ms_held (mark_waiting now c out s) = ms_held s"
  by (simp_all add: mark_waiting_def split: acquire_outcome.splits)

text \<open>The state a live replica's claim is decided in.\<close>

definition claim_ready :: "instant \<Rightarrow> slot_claim \<Rightarrow> mem_state \<Rightarrow> mem_state \<times> string list" where
  "claim_ready now c s =
     (let (s, freed) = purge_holds now s
      in if sc_starving c then
           (let s = s\<lparr>ms_starving := AList.update (sc_pool c) (now + WAIT_MARK) (ms_starving s)\<rparr>;
                (s, more) = free_pool_holds (sc_pool c) (sc_hold c) s
            in (s, freed @ more))
         else (s, freed))"

lemma mem_acquire_eq:
  "mem_acquire inst now c s =
     (if ms_failing s then (s, [], Inl backend_unavailable)
      else if inst \<notin> set (ms_live s) then (s, [], Inr (NotRegistered, counts_of (sc_pool c) s))
      else (let (s, freed) = claim_ready now c s;
                (s, out) = decide_claim inst c s;
                s = mark_waiting now c out s
            in (s, freed, Inr (out, counts_of (sc_pool c) s))))"
  unfolding mem_acquire_def claim_ready_def Let_def by (simp split: prod.splits)

lemma claim_ready_correct:
  assumes "ms_ok s" and "claim_ready now c s = (s', freed)"
  shows "ms_ok s'" and "ms_count s' f \<le> ms_count s f"
proof -
  obtain s1 fr where p: "purge_holds now s = (s1, fr)" by fastforce
  note P = purge_holds_correct [OF assms(1) p]
  let ?s = "s1\<lparr>ms_starving := AList.update (sc_pool c) (now + WAIT_MARK) (ms_starving s1)\<rparr>"
  have ok: "ms_ok ?s" using P(1) ms_ok_cong [of ?s s1] by simp
  obtain s2 fr2 where q: "free_pool_holds (sc_pool c) (sc_hold c) ?s = (s2, fr2)" by fastforce
  note Q = free_pool_holds_correct [OF ok q]
  have "ms_count ?s f = ms_count s1 f" by (simp add: ms_count_def)
  then have "ms_ok s' \<and> ms_count s' f \<le> ms_count s f"
    using assms(2) p q P(1) P(2) [of f] Q(1) Q(2) [of f] by (auto simp: claim_ready_def Let_def split: if_splits)
  then show "ms_ok s'" "ms_count s' f \<le> ms_count s f" by auto
qed

lemma mem_acquire_correct:
  assumes "ms_ok s" and "replica inst" and "mem_acquire inst now c s = (s', woken, r)"
  shows "ms_ok s'"
    and "r = Inr (Granted, cc) \<Longrightarrow> ms_count s' (pool_field (sc_pool c)) \<le> sc_pool_cap c \<and> ms_count s' GLOBAL_FIELD \<le> sc_global_cap c \<and>
      (\<forall>m. sc_tenant_cap c = Some m \<longrightarrow> ms_count s' (tenant_field (sc_pool c) (sc_tenant c)) \<le> m) \<and>
      (\<forall>m. sc_key_cap c = Some m \<longrightarrow> ms_count s' (key_field (sc_pool c) (sc_key c)) \<le> m)"
    and "f \<notin> set (claim_fields (sc_pool c) (sc_tenant c) (sc_key c)) \<or> (\<forall>cc. r \<noteq> Inr (Granted, cc)) \<Longrightarrow>
      ms_count s' f \<le> ms_count s f"
proof -
  have "ms_ok s' \<and>
    (r = Inr (Granted, cc) \<longrightarrow> ms_count s' (pool_field (sc_pool c)) \<le> sc_pool_cap c \<and> ms_count s' GLOBAL_FIELD \<le> sc_global_cap c \<and>
      (\<forall>m. sc_tenant_cap c = Some m \<longrightarrow> ms_count s' (tenant_field (sc_pool c) (sc_tenant c)) \<le> m) \<and>
      (\<forall>m. sc_key_cap c = Some m \<longrightarrow> ms_count s' (key_field (sc_pool c) (sc_key c)) \<le> m)) \<and>
    (f \<notin> set (claim_fields (sc_pool c) (sc_tenant c) (sc_key c)) \<or> (\<forall>cc. r \<noteq> Inr (Granted, cc)) \<longrightarrow>
      ms_count s' f \<le> ms_count s f)"
  proof (cases "ms_failing s \<or> inst \<notin> set (ms_live s)")
    case True
    then show ?thesis using assms by (auto simp: mem_acquire_eq split: if_splits)
  next
    case False
    obtain s1 fr where p: "claim_ready now c s = (s1, fr)" by fastforce
    note P = claim_ready_correct [OF assms(1) p]
    obtain s2 out where d: "decide_claim inst c s1 = (s2, out)" by fastforce
    note D = decide_claim_correct [OF P(1) assms(2) d]
    have s': "s' = mark_waiting now c out s2" and r: "r = Inr (out, counts_of (sc_pool c) s')"
      using assms(3) False p d by (auto simp: mem_acquire_eq Let_def)
    have "ms_ok s'" using D(1) ms_ok_cong [of s' s2] by (simp add: s')
    moreover have "ms_count s' g = ms_count s2 g" for g by (simp add: s' ms_count_def)
    ultimately show ?thesis using D(2) D(3) [of f] D(4) [of f] P(2) [of f] r by (cases "out = Granted") auto
  qed
  then show "ms_ok s'"
    and "r = Inr (Granted, cc) \<Longrightarrow> ms_count s' (pool_field (sc_pool c)) \<le> sc_pool_cap c \<and> ms_count s' GLOBAL_FIELD \<le> sc_global_cap c \<and>
      (\<forall>m. sc_tenant_cap c = Some m \<longrightarrow> ms_count s' (tenant_field (sc_pool c) (sc_tenant c)) \<le> m) \<and>
      (\<forall>m. sc_key_cap c = Some m \<longrightarrow> ms_count s' (key_field (sc_pool c) (sc_key c)) \<le> m)"
    and "f \<notin> set (claim_fields (sc_pool c) (sc_tenant c) (sc_key c)) \<or> (\<forall>cc. r \<noteq> Inr (Granted, cc)) \<Longrightarrow>
      ms_count s' f \<le> ms_count s f"
    by blast+
qed

lemma mem_release_correct:
  assumes "ms_ok s" and "mem_release inst r s = (s', woken, res)"
  shows "ms_ok s'" and "ms_count s' f \<le> ms_count s f"
    and "i \<noteq> inst \<Longrightarrow> mine i f s' = mine i f s"
proof -
  let ?s = "fold (give_back inst) (claim_fields (sr_pool r) (sr_tenant r) (sr_key r)) s"
  note G = fold_give_back [OF assms(1) claim_fields_distinct [of "sr_pool r" "sr_tenant r" "sr_key r"], of inst]
  have "ms_count ?s f + (if f \<in> set (claim_fields (sr_pool r) (sr_tenant r) (sr_key r)) \<and> 0 < mine inst f s then 1 else 0) = ms_count s f"
    using G by blast
  then have le: "ms_count ?s f \<le> ms_count s f" by linarith
  have m: "i \<noteq> inst \<Longrightarrow> mine i f ?s = mine i f s" using G by auto
  have s': "s' = (if ms_failing s then s else ?s)" using assms(2) by (auto simp: mem_release_def Let_def)
  show "ms_ok s'" "ms_count s' f \<le> ms_count s f" "i \<noteq> inst \<Longrightarrow> mine i f s' = mine i f s"
    using G le m assms(1) by (auto simp: s')
qed

lemma mem_hold_cases:
  assumes "mem_hold inst now r h s = (s', woken, res)"
  obtains s1 freed s2 s3 w rr where "purge_holds now s = (s1, freed)" "ms_totals s2 = ms_totals s1" "ms_held s2 = ms_held s1"
      "mem_release inst r s2 = (s3, w, rr)" "s' = s3" "res = map_sum id (Pair False) rr"
  | s1 freed s2 where "purge_holds now s = (s1, freed)" "ms_totals s2 = ms_totals s1" "ms_held s2 = ms_held s1"
      "ms_count s2 (held_field (sr_pool r)) < sh_max_held h"
      "ms_totals s' = ms_totals (ms_add (hold_owner (sh_id h)) (held_field (sr_pool r)) 1
         (fold (hand_over inst (hold_owner (sh_id h))) (claim_fields (sr_pool r) (sr_tenant r) (sr_key r)) s2))"
      "ms_held s' = ms_held (ms_add (hold_owner (sh_id h)) (held_field (sr_pool r)) 1
         (fold (hand_over inst (hold_owner (sh_id h))) (claim_fields (sr_pool r) (sr_tenant r) (sr_key r)) s2))"
proof -
  obtain s1 freed where p: "purge_holds now s = (s1, freed)" by fastforce
  obtain s2 ch where n: "note_step now h s1 = (s2, ch)" by fastforce
  have f: "ms_totals s2 = ms_totals s1" "ms_held s2 = ms_held s1" using n by (auto simp: note_step_def Let_def)
  let ?s2 = "s2\<lparr>ms_chain := AList.delete (sh_id h) (ms_chain s2)\<rparr>"
  obtain s3 w rr where m: "mem_release inst r ?s2 = (s3, w, rr)" by (cases "mem_release inst r ?s2") auto
  show thesis
  proof (cases "hold_allowed inst now r h ch s2")
    case True
    then show thesis
      using assms that(2) [OF p f]
      by (simp add: mem_hold_def p n Let_def hold_allowed_def) (auto simp: keep_slot_def Let_def)
  next
    case False
    then show thesis
      using assms that(1) [OF p _ _ m] f by (simp add: mem_hold_def p n Let_def m)
  qed
qed

lemma mem_hold_correct:
  assumes "ms_ok s" and "replica inst" and "mem_hold inst now r h s = (s', woken, res)"
  shows "ms_ok s'" and "f \<noteq> held_field (sr_pool r) \<Longrightarrow> ms_count s' f \<le> ms_count s f"
    and "res = Inr (True, cc) \<Longrightarrow> ms_count s' (held_field (sr_pool r)) \<le> sh_max_held h"
proof -
  have "ms_ok s' \<and> (f \<noteq> held_field (sr_pool r) \<longrightarrow> ms_count s' f \<le> ms_count s f) \<and>
    (res = Inr (True, cc) \<longrightarrow> ms_count s' (held_field (sr_pool r)) \<le> sh_max_held h)"
    using assms(3)
  proof (cases rule: mem_hold_cases)
    case (1 s1 freed s2 s3 w rr)
    note P = purge_holds_correct [OF assms(1) 1(1)]
    have "ms_ok s2" using P(1) ms_ok_cong [of s2 s1] 1(2,3) by simp
    note R = mem_release_correct [OF this 1(4)]
    have "ms_count s2 f = ms_count s1 f" using 1(2) by (simp add: ms_count_def)
    then show ?thesis using R(1) R(2) [of f] P(2) [of f] 1(5,6) by (cases rr) auto
  next
    case (2 s1 freed s2)
    note P = purge_holds_correct [OF assms(1) 2(1)]
    have ok: "ms_ok s2" using P(1) ms_ok_cong [of s2 s1] 2(2,3) by simp
    let ?t = "fold (hand_over inst (hold_owner (sh_id h))) (claim_fields (sr_pool r) (sr_tenant r) (sr_key r)) s2"
    let ?u = "ms_add (hold_owner (sh_id h)) (held_field (sr_pool r)) 1 ?t"
    note H = fold_hand_over [OF ok replica_not_owner [OF assms(2)], of "sh_id h" "claim_fields (sr_pool r) (sr_tenant r) (sr_key r)"]
    have "ms_ok ?u" using H by (intro ms_ok_add) auto
    then have "ms_ok s'" using ms_ok_cong [of s' ?u] 2(5,6) by simp
    moreover have "ms_count s' g = ms_count ?u g" for g using 2(5) by (simp add: ms_count_def)
    moreover have "ms_count s2 g = ms_count s1 g" for g using 2(2) by (simp add: ms_count_def)
    ultimately show ?thesis using H P(2) [of f] 2(4) by (auto simp: count_add)
  qed
  then show "ms_ok s'" and "f \<noteq> held_field (sr_pool r) \<Longrightarrow> ms_count s' f \<le> ms_count s f"
    and "res = Inr (True, cc) \<Longrightarrow> ms_count s' (held_field (sr_pool r)) \<le> sh_max_held h" by blast+
qed

section \<open>The contract of a slot backend\<close>

text \<open>
  What the scheduler relies on of a \<open>SharedSlots\<close> backend: a claim is granted only with room under
  each of its caps, nothing else raises an occupancy, and a replica's holdings are part of the
  totals. From it: however the claims, holds and releases of the replicas interleave, a pool that
  every claim sizes at \<open>n\<close> slots never has more than \<open>n\<close> taken.
\<close>

datatype backend_call =
    CallAcquire string instant slot_claim
  | CallRelease string slot_release
  | CallHold string instant slot_release slot_hold

definition call_sizes :: "string \<Rightarrow> nat \<Rightarrow> backend_call \<Rightarrow> bool" where
  "call_sizes pool n call = (case call of CallAcquire _ _ c \<Rightarrow> sc_pool c = pool \<longrightarrow> sc_pool_cap c \<le> n | _ \<Rightarrow> True)"

definition call_ceiling :: "nat \<Rightarrow> backend_call \<Rightarrow> bool" where
  "call_ceiling n call = (case call of CallAcquire _ _ c \<Rightarrow> sc_global_cap c \<le> n | _ \<Rightarrow> True)"

definition caller :: "backend_call \<Rightarrow> string" where
  "caller call = (case call of CallAcquire i _ _ \<Rightarrow> i | CallRelease i _ \<Rightarrow> i | CallHold i _ _ _ \<Rightarrow> i)"

locale slot_backend =
  fixes inv :: "'s \<Rightarrow> bool"
    and count :: "'s \<Rightarrow> string \<Rightarrow> nat"
    and holding :: "string \<Rightarrow> string \<Rightarrow> 's \<Rightarrow> nat"
    and acquire :: "string \<Rightarrow> instant \<Rightarrow> slot_claim \<Rightarrow> 's \<Rightarrow> 's \<times> string list \<times> (slot_error + acquire_outcome \<times> cluster_counts)"
    and release :: "string \<Rightarrow> slot_release \<Rightarrow> 's \<Rightarrow> 's \<times> string list \<times> (slot_error + cluster_counts)"
    and hold_slot :: "string \<Rightarrow> instant \<Rightarrow> slot_release \<Rightarrow> slot_hold \<Rightarrow> 's \<Rightarrow> 's \<times> string list \<times> (slot_error + bool \<times> cluster_counts)"
  assumes holding_le: "inv s \<Longrightarrow> holding i f s \<le> count s f"
    and acquire_inv: "inv s \<Longrightarrow> replica i \<Longrightarrow> inv (fst (acquire i now c s))"
    and acquire_fits: "inv s \<Longrightarrow> replica i \<Longrightarrow> acquire i now c s = (s', w, Inr (Granted, cc)) \<Longrightarrow>
      count s' (pool_field (sc_pool c)) \<le> sc_pool_cap c \<and> count s' GLOBAL_FIELD \<le> sc_global_cap c"
    and acquire_else: "inv s \<Longrightarrow> replica i \<Longrightarrow> acquire i now c s = (s', w, r) \<Longrightarrow>
      f \<notin> set (claim_fields (sc_pool c) (sc_tenant c) (sc_key c)) \<or> (\<forall>cc. r \<noteq> Inr (Granted, cc)) \<Longrightarrow>
      count s' f \<le> count s f"
    and release_inv: "inv s \<Longrightarrow> inv (fst (release i sl s)) \<and> count (fst (release i sl s)) f \<le> count s f"
    and hold_inv: "inv s \<Longrightarrow> replica i \<Longrightarrow> inv (fst (hold_slot i now sl h s)) \<and>
      (f \<noteq> held_field (sr_pool sl) \<longrightarrow> count (fst (hold_slot i now sl h s)) f \<le> count s f)"
begin

fun call_step :: "backend_call \<Rightarrow> 's \<Rightarrow> 's" where
  "call_step (CallAcquire i now c) s = fst (acquire i now c s)"
| "call_step (CallRelease i sl) s = fst (release i sl s)"
| "call_step (CallHold i now sl h) s = fst (hold_slot i now sl h s)"

lemma pool_field_neq:
  "pool_field p \<noteq> held_field q" "pool_field p = pool_field q \<longleftrightarrow> p = q" "pool_field p \<noteq> GLOBAL_FIELD"
  "pool_field p \<noteq> tenant_field q t" "pool_field p \<noteq> key_field q k" "GLOBAL_FIELD \<noteq> held_field q"
  by (simp_all add: pool_field_def held_field_def GLOBAL_FIELD_def tenant_field_def key_field_def)

lemma call_step_inv: "inv s \<Longrightarrow> replica (caller call) \<Longrightarrow> inv (call_step call s)"
  using acquire_inv release_inv hold_inv by (cases call) (auto simp: caller_def)

lemma call_step_pool:
  assumes "inv s" and "replica (caller call)" and "call_sizes pool n call" and "count s (pool_field pool) \<le> n"
  shows "count (call_step call s) (pool_field pool) \<le> n"
proof (cases call)
  case (CallAcquire i now c)
  obtain s' w r where a: "acquire i now c s = (s', w, r)" by (cases "acquire i now c s") auto
  have i: "replica i" using assms(2) CallAcquire by (simp add: caller_def)
  show ?thesis
  proof (cases "(\<exists>cc. r = Inr (Granted, cc)) \<and> sc_pool c = pool")
    case True
    then show ?thesis
      using acquire_fits [OF assms(1) i] a assms(3) CallAcquire by (fastforce simp: call_sizes_def)
  next
    case False
    then have "pool_field pool \<notin> set (claim_fields (sc_pool c) (sc_tenant c) (sc_key c)) \<or> (\<forall>cc. r \<noteq> Inr (Granted, cc))"
      by (auto simp: claim_fields_def pool_field_neq)
    from acquire_else [OF assms(1) i a this] show ?thesis using assms(4) a CallAcquire by simp
  qed
next
  case (CallRelease i sl)
  then show ?thesis using release_inv [OF assms(1), of i sl "pool_field pool"] assms(4) by simp
next
  case (CallHold i now sl h)
  then show ?thesis
    using hold_inv [OF assms(1), of i now sl h "pool_field pool"] assms(2,4) pool_field_neq(1)
    by (fastforce simp: caller_def)
qed

lemma occupancy_bounded:
  assumes "inv s" and "\<forall>call \<in> set calls. replica (caller call) \<and> call_sizes pool n call" and "count s (pool_field pool) \<le> n"
  shows "inv (fold call_step calls s) \<and> count (fold call_step calls s) (pool_field pool) \<le> n"
  using assms
proof (induction calls arbitrary: s)
  case (Cons call calls)
  then show ?case using call_step_inv [of s call] call_step_pool [of s call pool n] by simp
qed simp

end

interpretation mem_backend: slot_backend ms_ok ms_count mine mem_acquire mem_release mem_hold
proof
  fix s s' :: mem_state and i f now c w cc r sl h
  show "ms_ok s \<Longrightarrow> mine i f s \<le> ms_count s f" by (rule mine_le_count)
  show "ms_ok s \<Longrightarrow> replica i \<Longrightarrow> ms_ok (fst (mem_acquire i now c s))"
    using mem_acquire_correct(1) [of s i now c] by (metis prod.collapse)
  show "ms_ok s \<Longrightarrow> replica i \<Longrightarrow> mem_acquire i now c s = (s', w, Inr (Granted, cc)) \<Longrightarrow>
      ms_count s' (pool_field (sc_pool c)) \<le> sc_pool_cap c \<and> ms_count s' GLOBAL_FIELD \<le> sc_global_cap c"
    using mem_acquire_correct(2) by blast
  show "ms_ok s \<Longrightarrow> replica i \<Longrightarrow> mem_acquire i now c s = (s', w, r) \<Longrightarrow>
      f \<notin> set (claim_fields (sc_pool c) (sc_tenant c) (sc_key c)) \<or> (\<forall>cc. r \<noteq> Inr (Granted, cc)) \<Longrightarrow>
      ms_count s' f \<le> ms_count s f"
    using mem_acquire_correct(3) by blast
  show "ms_ok s \<Longrightarrow> ms_ok (fst (mem_release i sl s)) \<and> ms_count (fst (mem_release i sl s)) f \<le> ms_count s f"
    using mem_release_correct(1,2) [of s i sl] by (metis prod.collapse)
  show "ms_ok s \<Longrightarrow> replica i \<Longrightarrow> ms_ok (fst (mem_hold i now sl h s)) \<and>
      (f \<noteq> held_field (sr_pool sl) \<longrightarrow> ms_count (fst (mem_hold i now sl h s)) f \<le> ms_count s f)"
    using mem_hold_correct(1,2) [of s i now sl h] by (metis prod.collapse)
qed

section \<open>Reconciling\<close>

lemma fold_ms_add_nonneg:
  "ms_ok s \<Longrightarrow> ms_ok (fold (\<lambda>(k, n). ms_add inst (g k) (int n)) xs s)"
proof (induction xs arbitrary: s)
  case (Cons x xs)
  have "ms_ok (ms_add inst (g (fst x)) (int (snd x)) s)" using Cons.prems by (intro ms_ok_add) auto
  then show ?case using Cons.IH by (simp add: case_prod_beta')
qed simp

lemma mine_fold_ms_add:
  "mine i f (fold (\<lambda>(k, n). ms_add inst (g k) (int n)) xs s) =
     mine i f s + (if i = inst then sum_list (map snd (filter (\<lambda>(k, _). g k = f) xs)) else 0)"
  by (induction xs arbitrary: s) (auto simp: mine_add nat_add_distrib)

lemma add_holdings_ok: "ms_ok s \<Longrightarrow> ms_ok (add_holdings inst h s)"
  unfolding add_holdings_def by (intro fold_ms_add_nonneg ms_ok_add) auto

lemma field_neqs:
  "pool_field p \<noteq> GLOBAL_FIELD" "GLOBAL_FIELD \<noteq> pool_field p" "tenant_field q t \<noteq> pool_field p" "key_field q k \<noteq> pool_field p"
  "tenant_field q t \<noteq> GLOBAL_FIELD" "key_field q k \<noteq> GLOBAL_FIELD" "pool_field p = pool_field q \<longleftrightarrow> p = q"
  by (simp_all add: pool_field_def GLOBAL_FIELD_def tenant_field_def key_field_def)

text \<open>The slots a replica sends with the holdings of a pool, field by field: pool, total, tenants, keys.\<close>

definition sent :: "pool_holdings \<Rightarrow> (string \<times> nat) list" where
  "sent h =
     [(pool_field (ph_pool h), ph_in_flight h), (GLOBAL_FIELD, ph_in_flight h)] @
     map (\<lambda>(t, n). (tenant_field (ph_pool h) t, n)) (ph_tenants h) @
     map (\<lambda>(k, n). (key_field (ph_pool h) k, n)) (ph_keys h)"

definition sent_to :: "string \<Rightarrow> pool_holdings list \<Rightarrow> nat" where
  "sent_to f hs = sum_list (map snd (filter (\<lambda>(g, _). g = f) (concat (map sent hs))))"

lemma sent_to_simps [simp]:
  "sent_to f [] = 0" "sent_to f (h # hs) = sum_list (map snd (filter (\<lambda>(g, _). g = f) (sent h))) + sent_to f hs"
  by (simp_all add: sent_to_def)

lemma sent_to_totals:
  "sent_to (pool_field p) hs = sum_list (map ph_in_flight (filter (\<lambda>h. ph_pool h = p) hs))"
  "sent_to GLOBAL_FIELD hs = sum_list (map ph_in_flight hs)"
proof -
  have "filter (\<lambda>(g, _). g = pool_field p) (map (\<lambda>(x, n). (u x, n)) xs) = []" if "\<And>x. u x \<noteq> pool_field p" for u and xs :: "(string \<times> nat) list"
    using that by (induction xs) auto
  moreover have "filter (\<lambda>(g, _). g = GLOBAL_FIELD) (map (\<lambda>(x, n). (u x, n)) xs) = []" if "\<And>x. u x \<noteq> GLOBAL_FIELD" for u and xs :: "(string \<times> nat) list"
    using that by (induction xs) auto
  ultimately show "sent_to (pool_field p) hs = sum_list (map ph_in_flight (filter (\<lambda>h. ph_pool h = p) hs))"
    "sent_to GLOBAL_FIELD hs = sum_list (map ph_in_flight hs)"
    by (induction hs) (auto simp: sent_def field_neqs)
qed

lemma field_sum: "map snd (filter (\<lambda>(g, _). g = f) (map (\<lambda>(x, n). (u x, n)) xs)) = map snd (filter (\<lambda>(x, _). u x = f) xs)"
  by (induction xs) auto

lemma mine_add_holdings: "mine i f (add_holdings inst h s) = mine i f s + (if i = inst then sent_to f [h] else 0)"
  unfolding add_holdings_def sent_def sent_to_simps
  by (simp only: filter_append map_append sum_list_append field_sum) (auto simp: mine_fold_ms_add mine_add nat_add_distrib)

lemma fold_add_holdings:
  "ms_ok s \<Longrightarrow> ms_ok (fold (add_holdings inst) hs s) \<and>
   mine i f (fold (add_holdings inst) hs s) = mine i f s + (if i = inst then sent_to f hs else 0)"
proof (induction hs arbitrary: s)
  case (Cons h hs)
  then show ?case using Cons.IH [OF add_holdings_ok [OF Cons.prems, of inst h]] by (auto simp: mine_add_holdings)
qed simp

lemma mem_reconcile_ok: "ms_ok s \<Longrightarrow> mem_reconcile inst hs s = (s', woken, r) \<Longrightarrow> ms_ok s'"
proof -
  assume ok: "ms_ok s" and m: "mem_reconcile inst hs s = (s', woken, r)"
  obtain s1 fr where r: "reclaim inst s = (s1, fr)" by fastforce
  show ?thesis
    using m ok r fold_add_holdings [OF reclaim_correct(1) [OF ok r], of inst hs]
    by (auto simp: mem_reconcile_def split: if_splits)
qed

section \<open>Reachable backends\<close>

text \<open>
  Everything that can happen to the backend: the calls of the interface, a replica expiring or
  coming back, an outage, a lost release, a view. \<open>Rehash\<close> lets the maps present their entries in
  any order.
\<close>

inductive backend_step :: "mem_state \<Rightarrow> mem_state \<Rightarrow> bool" where
  Acquire: "replica i \<Longrightarrow> backend_step s (fst (mem_acquire i now c s))"
| Release: "backend_step s (fst (mem_release i sl s))"
| Hold: "replica i \<Longrightarrow> backend_step s (fst (mem_hold i now sl h s))"
| Reconcile: "backend_step s (fst (mem_reconcile i hs s))"
| Kill: "backend_step s (fst (mem_kill i s))"
| Revive: "backend_step s (mem_revive i s)"
| Purge: "backend_step s (fst (purge_holds now s))"
| Drift: "backend_step s (inject_drift i pool n s)"
| View: "backend_step s (fst (mem_publish_view i now v ttl s))"
| Outage: "backend_step s (s\<lparr>ms_failing := b\<rparr>)"
| Rehash: "mset held = mset (ms_held s) \<Longrightarrow> mset tot = mset (ms_totals s) \<Longrightarrow>
    backend_step s (s\<lparr>ms_held := held, ms_totals := tot\<rparr>)"

inductive_cases backend_stepE: "backend_step s s'"

inductive backend_reachable :: "mem_state \<Rightarrow> bool" where
  Start: "backend_reachable mem_state_default"
| Step: "backend_reachable s \<Longrightarrow> backend_step s s' \<Longrightarrow> backend_reachable s'"

lemma map_of_mset_eq: "mset m = mset m' \<Longrightarrow> hmap_ok m \<Longrightarrow> map_of m' = map_of m \<and> hmap_ok m'"
proof -
  assume m: "mset m = mset m'" and d: "hmap_ok m"
  then have "mset (map fst m) = mset (map fst m')" by (metis mset_map)
  then have "hmap_ok m'" using d by (metis hmap_ok_def mset_eq_imp_distinct_iff)
  moreover then have "map_of m' k = map_of m k" for k
    using d m hmap_entry [of m k] hmap_entry [of m' k] mset_eq_setD [OF m] by (metis option.exhaust)
  ultimately show ?thesis by auto
qed

lemma msum_mset: "mset m = mset m' \<Longrightarrow> msum f m = msum f m'"
  unfolding msum_def by (metis mset_map sum_mset_sum_list)

lemma ms_ok_rehash:
  assumes "ms_ok s" and "mset held = mset (ms_held s)" and "mset tot = mset (ms_totals s)"
  shows "ms_ok (s\<lparr>ms_held := held, ms_totals := tot\<rparr>)"
proof -
  have h: "map_of held = map_of (ms_held s) \<and> hmap_ok held"
    and t: "map_of tot = map_of (ms_totals s) \<and> hmap_ok tot"
    using map_of_mset_eq [of "ms_held s" held] map_of_mset_eq [of "ms_totals s" tot] assms by (simp_all add: ms_ok_def)
  show ?thesis
    using assms(1) h t msum_mset [OF assms(2)]
    by (simp add: ms_ok_def ms_count_def vals_ok_def get_or_def)
qed

lemma ms_ok_step: "backend_step s s' \<Longrightarrow> ms_ok s \<Longrightarrow> ms_ok s'"
proof (induction rule: backend_step.induct)
  case (Acquire i s now c)
  then show ?case by (rule mem_backend.acquire_inv [rotated])
next
  case (Release s i sl)
  then show ?case using mem_backend.release_inv by blast
next
  case (Hold i s now sl h)
  then show ?case using mem_backend.hold_inv by blast
next
  case (Reconcile s i hs)
  then show ?case using mem_reconcile_ok by (metis prod.collapse)
next
  case (Kill s i)
  let ?s = "s\<lparr>ms_live := filter (\<lambda>j. j \<noteq> i) (ms_live s)\<rparr>"
  have "ms_ok ?s" using Kill ms_ok_cong [of ?s s] by simp
  then show ?case using reclaim_correct(1) [of ?s i] unfolding mem_kill_def by (metis prod.collapse)
next
  case (Revive s i)
  then show ?case using ms_ok_cong [of "mem_revive i s" s] by (simp add: mem_revive_def)
next
  case (Purge s now)
  then show ?case using purge_holds_correct(1) by (metis prod.collapse)
next
  case (Drift s i pool n)
  then show ?case unfolding inject_drift_def by (intro ms_ok_add) auto
next
  case (View s i now v ttl)
  then show ?case using ms_ok_cong [of "put_view now i v ttl s" s] by (simp add: mem_publish_view_def put_view_def)
next
  case (Outage s b)
  then show ?case using ms_ok_cong [of "s\<lparr>ms_failing := b\<rparr>" s] by simp
next
  case (Rehash held s tot)
  then show ?case by (intro ms_ok_rehash)
qed

lemma reachable_ok: "backend_reachable s \<Longrightarrow> ms_ok s"
  by (induction rule: backend_reachable.induct) (auto intro: ms_ok_step)

fun mem_call :: "backend_call \<Rightarrow> mem_state \<Rightarrow> mem_state" where
  "mem_call (CallAcquire i now c) s = fst (mem_acquire i now c s)"
| "mem_call (CallRelease i sl) s = fst (mem_release i sl s)"
| "mem_call (CallHold i now sl h) s = fst (mem_hold i now sl h s)"

lemma mem_call_step: "mem_call = mem_backend.call_step"
  by (rule ext, rule ext) (rename_tac call s, case_tac call, simp_all)

lemma live_frame: "ms_ok (s\<lparr>ms_live := l\<rparr>) = ms_ok s" "ms_count (s\<lparr>ms_live := l\<rparr>) = ms_count s"
  using ms_ok_cong [of "s\<lparr>ms_live := l\<rparr>" s] by (simp_all add: ms_count_def fun_eq_iff)

lemma kill_count: "ms_ok s \<Longrightarrow> ms_ok (fst (mem_kill i s)) \<and> ms_count (fst (mem_kill i s)) f \<le> ms_count s f"
proof -
  let ?s = "s\<lparr>ms_live := filter (\<lambda>j. j \<noteq> i) (ms_live s)\<rparr>"
  assume "ms_ok s"
  then have ok: "ms_ok ?s" using ms_ok_cong [of ?s s] by simp
  obtain s' w where r: "reclaim i ?s = (s', w)" by fastforce
  show ?thesis using reclaim_correct(1) [OF ok r] reclaim_correct(2) [OF ok r, of f] by (simp add: mem_kill_def r ms_count_def)
qed

section \<open>Runs with sized claims\<close>

text \<open>
  Everything that can happen to the backend while every claim of a pool is sized at \<open>n\<close>: the calls of the
  replicas, in any order, replicas expiring and coming back, purged holds, views, outages and a new order of the
  maps. A reconcile may send no more slots of the pool than the replica is recorded with: one that expired
  and reports the slots it still uses is not covered, and can take the pool over its size.
\<close>

inductive sized_run :: "string \<Rightarrow> nat \<Rightarrow> mem_state \<Rightarrow> bool" for pool n where
  Start: "sized_run pool n mem_state_default"
| Call: "sized_run pool n s \<Longrightarrow> replica (caller call) \<Longrightarrow> call_sizes pool n call \<Longrightarrow> sized_run pool n (mem_call call s)"
| Reconcile: "sized_run pool n s \<Longrightarrow> sum_list (map ph_in_flight (filter (\<lambda>h. ph_pool h = pool) hs)) \<le> mine i (pool_field pool) s \<Longrightarrow>
    sized_run pool n (fst (mem_reconcile i hs s))"
| Kill: "sized_run pool n s \<Longrightarrow> sized_run pool n (fst (mem_kill i s))"
| Revive: "sized_run pool n s \<Longrightarrow> sized_run pool n (mem_revive i s)"
| Purge: "sized_run pool n s \<Longrightarrow> sized_run pool n (fst (purge_holds now s))"
| View: "sized_run pool n s \<Longrightarrow> sized_run pool n (fst (mem_publish_view i now v ttl s))"
| Outage: "sized_run pool n s \<Longrightarrow> sized_run pool n (s\<lparr>ms_failing := b\<rparr>)"
| Rehash: "sized_run pool n s \<Longrightarrow> mset held = mset (ms_held s) \<Longrightarrow> mset tot = mset (ms_totals s) \<Longrightarrow>
    sized_run pool n (s\<lparr>ms_held := held, ms_totals := tot\<rparr>)"

lemma sized_run_reachable: "sized_run pool n s \<Longrightarrow> backend_reachable s"
proof (induction rule: sized_run.induct)
  case (Call s call)
  then have "backend_step s (mem_call call s)" by (cases call) (auto simp: caller_def intro: backend_step.intros)
  then show ?case using Call.IH by (rule backend_reachable.Step [rotated])
qed (auto intro: backend_reachable.intros backend_step.intros)

lemma count_fold_nonneg:
  "ms_count (fold (\<lambda>(k, n). ms_add inst (g k) (int n)) xs s) f = ms_count s f + sum_list (map snd (filter (\<lambda>(k, _). g k = f) xs))"
  by (induction xs arbitrary: s) (auto simp: count_add nat_add_distrib)

lemma reconcile_count:
  assumes "ms_ok s"
  shows "ms_count (fst (mem_reconcile i hs s)) f \<le> max (ms_count s f) (ms_count s f - mine i f s + sent_to f hs)"
proof -
  obtain s1 fr where r: "reclaim i s = (s1, fr)" by fastforce
  have "ms_count (add_holdings i h s) f = ms_count s f + sent_to f [h]" for h s
    unfolding add_holdings_def sent_def sent_to_simps
    by (simp only: filter_append map_append sum_list_append field_sum) (auto simp: count_fold_nonneg count_add nat_add_distrib)
  then have "ms_count (fold (add_holdings i) hs s) f = ms_count s f + sent_to f hs" for s
    by (induction hs arbitrary: s) auto
  moreover have "ms_count s1 f + mine i f s = ms_count s f" by (rule reclaim_correct(2) [OF assms r])
  ultimately show ?thesis by (auto simp: mem_reconcile_def r)
qed

lemma sized_run_bounded: "sized_run pool n s \<Longrightarrow> ms_count s (pool_field pool) \<le> n"
proof (induction rule: sized_run.induct)
  case Start
  then show ?case by (simp add: mem_state_default_def ms_count_def)
next
  case (Call s call)
  then show ?case using mem_backend.call_step_pool [OF reachable_ok [OF sized_run_reachable]] by (simp add: mem_call_step)
next
  case (Reconcile s hs i)
  note ok = reachable_ok [OF sized_run_reachable [OF Reconcile.hyps(1)]]
  show ?case
    using reconcile_count [OF ok, of i hs "pool_field pool"] mine_le_count [OF ok, of i "pool_field pool"] Reconcile
    by (simp add: sent_to_totals)
next
  case (Kill s i)
  then show ?case using kill_count [OF reachable_ok [OF sized_run_reachable], of pool n s i "pool_field pool"] by simp
next
  case (Purge s now)
  obtain s1 fr where "purge_holds now s = (s1, fr)" by fastforce
  then show ?case using purge_holds_correct(2) [OF reachable_ok [OF sized_run_reachable [OF Purge.hyps]], of now s1 fr "pool_field pool"] Purge by simp
next
  case (Rehash s held tot)
  have "map_of tot = map_of (ms_totals s)"
    using map_of_mset_eq [of "ms_totals s" tot] Rehash reachable_ok [OF sized_run_reachable [OF Rehash.hyps(1)]] by (simp add: ms_ok_def)
  then show ?case using Rehash by (simp add: ms_count_def get_or_def)
qed (simp_all add: mem_revive_def mem_publish_view_def put_view_def ms_count_def)

section \<open>A sample backend\<close>

definition sample_claim :: "nat \<Rightarrow> slot_claim" where
  "sample_claim n =
     \<lparr>sc_pool = ''m'', sc_tenant = ''t'', sc_key = ''k'', sc_pool_cap = n, sc_global_cap = 9,
      sc_tenant_cap = Some 2, sc_key_cap = None, sc_hold = None, sc_redeem_only = False, sc_starving = False\<rparr>"

definition sample_backend :: mem_state where
  "sample_backend = mem_revive ''a'' mem_state_default"

lemma sample_backend_reachable: "backend_reachable sample_backend"
  unfolding sample_backend_def by (rule backend_reachable.Step [OF backend_reachable.Start backend_step.Revive])

lemma sample_replica: "replica ''a''"
  by (simp add: replica_def hold_owner_def starts_with_def)

lemma sample_claim_granted:
  "mem_acquire ''a'' 0 (sample_claim 1) sample_backend =
     (fold (\<lambda>f. ms_add ''a'' f 1) (claim_fields ''m'' ''t'' ''k'') sample_backend, [],
      Inr (Granted, \<lparr>cc_pool = 1, cc_global = 1\<rparr>))"
  by code_simp

section \<open>Properties\<close>

text \<open>
  C24: The cluster totals. In every reachable state of the backend, whatever replicas died, released
  twice or lost a release, each total is exactly the sum of what the replicas and the held slots
  are recorded with, so no replica's holdings exceed it.
\<close>

theorem totals_are_holdings:
  "backend_reachable s \<Longrightarrow>
   ms_count s f = msum (\<lambda>h. get_or 0 h f) (ms_held s) \<and> mine i f s \<le> ms_count s f"
  using reachable_ok [of s] mine_le_count [of s i f] by (simp add: ms_ok_def)

theorem totals_are_holdings_witness:
  "ms_count (inject_drift ''a'' ''m'' 3 sample_backend) ''g'' =
     msum (\<lambda>h. get_or 0 h ''g'') (ms_held (inject_drift ''a'' ''m'' 3 sample_backend))"
  using totals_are_holdings [OF backend_reachable.Step [OF sample_backend_reachable backend_step.Drift]] by blast

text \<open>
  C20: Claims fit. A claim that the backend grants leaves the pool, the global, the tenant and the
  key occupancy within the caps it carried.
\<close>

theorem granted_claim_fits:
  assumes "backend_reachable s" and "replica i" and "mem_acquire i now c s = (s', woken, Inr (Granted, counts))"
  shows "ms_count s' (pool_field (sc_pool c)) \<le> sc_pool_cap c \<and> ms_count s' GLOBAL_FIELD \<le> sc_global_cap c \<and>
    (\<forall>m. sc_tenant_cap c = Some m \<longrightarrow> ms_count s' (tenant_field (sc_pool c) (sc_tenant c)) \<le> m) \<and>
    (\<forall>m. sc_key_cap c = Some m \<longrightarrow> ms_count s' (key_field (sc_pool c) (sc_key c)) \<le> m)"
  using mem_acquire_correct(2) [OF reachable_ok [OF assms(1)] assms(2,3)] by blast

theorem granted_claim_fits_witness:
  "ms_count (fst (mem_acquire ''a'' 0 (sample_claim 1) sample_backend)) (pool_field ''m'') \<le> 1"
  using granted_claim_fits [OF sample_backend_reachable sample_replica sample_claim_granted]
  unfolding sample_claim_granted by (simp add: sample_claim_def)

text \<open>
  C3: The cluster-wide pool size holds. Starting from an empty cluster, in any interleaving of the claims,
  releases, holds and reconciles of any replicas, with replicas expiring and coming back, a pool that every
  claim sizes at \<open>n\<close> never has more than \<open>n\<close> slots taken, provided that no reconcile sends more slots of the
  pool than its replica is recorded with.
\<close>

theorem cluster_cap_never_exceeded:
  assumes "sized_run pool n s"
  shows "ms_count s (pool_field pool) \<le> n"
  by (rule sized_run_bounded [OF assms])

theorem cluster_cap_never_exceeded_witness:
  "ms_count (fst (mem_reconcile ''a'' [\<lparr>ph_pool = ''m'', ph_in_flight = 1, ph_tenants = [], ph_keys = []\<rparr>]
     (mem_call (CallAcquire ''b'' 1 (sample_claim 1)) (mem_call (CallAcquire ''a'' 0 (sample_claim 1)) sample_backend))))
     (pool_field ''m'') \<le> 1"
proof -
  have c: "replica (caller (CallAcquire i now (sample_claim 1)))" "call_sizes ''m'' 1 (CallAcquire i now (sample_claim 1))"
    if "i \<in> {''a'', ''b''}" for i now
    using that by (auto simp: caller_def call_sizes_def sample_claim_def replica_def hold_owner_def starts_with_def)
  have r: "sized_run ''m'' 1 (mem_call (CallAcquire ''b'' 1 (sample_claim 1)) (mem_call (CallAcquire ''a'' 0 (sample_claim 1)) sample_backend))"
    unfolding sample_backend_def by (intro sized_run.Call sized_run.Revive sized_run.Start c) simp_all
  have "mine ''a'' (pool_field ''m'')
      (mem_call (CallAcquire ''b'' 1 (sample_claim 1)) (mem_call (CallAcquire ''a'' 0 (sample_claim 1)) sample_backend)) = 1" by code_simp
  then show ?thesis by (intro cluster_cap_never_exceeded sized_run.Reconcile r) simp
qed

text \<open>
  C33: A reconcile is exact. After it succeeds the replica is recorded with exactly the slots it sent, in
  every field: each pool, the total, each tenant and each key of a pool, and nothing else, whatever was
  recorded before; no other replica's record changes.
\<close>

theorem reconcile_exact:
  assumes "backend_reachable s" and "mem_reconcile i hs s = (s', woken, Inr Synced)"
  shows "mine i f s' = sum_list (map snd (filter (\<lambda>(g, _). g = f) (concat (map sent hs)))) \<and>
    mine i (pool_field p) s' = sum_list (map ph_in_flight (filter (\<lambda>h. ph_pool h = p) hs)) \<and>
    mine i GLOBAL_FIELD s' = sum_list (map ph_in_flight hs) \<and>
    (\<forall>j. j \<noteq> i \<longrightarrow> mine j f s' = mine j f s)"
proof -
  have ok: "ms_ok s" using reachable_ok assms(1) .
  obtain s1 fr where r: "reclaim i s = (s1, fr)" by fastforce
  have "s' = fold (add_holdings i) hs s1" using assms(2) r by (auto simp: mem_reconcile_def split: if_splits)
  then have "mine j f s' = (if j = i then sent_to f hs else mine j f s)" for j f
    using reclaim_correct(3) [OF ok r, of j f] fold_add_holdings [OF reclaim_correct(1) [OF ok r], of i hs j f] by simp
  then show ?thesis by (simp add: sent_to_totals flip: sent_to_def)
qed

theorem reconcile_exact_witness:
  "mine ''a'' (tenant_field ''m'' ''t'')
     (fst (mem_reconcile ''a'' [\<lparr>ph_pool = ''m'', ph_in_flight = 3, ph_tenants = [(''t'', 2)], ph_keys = [(''k'', 1)]\<rparr>] sample_backend)) = 2"
proof -
  let ?hs = "[\<lparr>ph_pool = ''m'', ph_in_flight = 3, ph_tenants = [(''t'', 2)], ph_keys = [(''k'', 1)]\<rparr>]"
  have r: "mem_reconcile ''a'' ?hs sample_backend = (fst (mem_reconcile ''a'' ?hs sample_backend), [], Inr Synced)"
    by code_simp
  have "sum_list (map snd (filter (\<lambda>(g, _). g = tenant_field ''m'' ''t'') (concat (map sent ?hs)))) = 2" by code_simp
  then show ?thesis using reconcile_exact [OF sample_backend_reachable r, of "tenant_field ''m'' ''t''"] by simp
qed

text \<open>
  A release never frees a slot its replica does not hold: other replicas' holdings are
  untouched, and a replica that holds nothing of the slot's pool changes no occupancy there.
\<close>

theorem release_frees_only_own:
  assumes "backend_reachable s" and "mem_release i sl s = (s', woken, res)"
  shows "(\<forall>j f. j \<noteq> i \<longrightarrow> mine j f s' = mine j f s) \<and>
    (mine i (pool_field (sr_pool sl)) s = 0 \<longrightarrow>
       ms_count s' (pool_field (sr_pool sl)) = ms_count s (pool_field (sr_pool sl)))"
proof -
  have ok: "ms_ok s" using reachable_ok assms(1) .
  note G = fold_give_back [OF ok claim_fields_distinct [of "sr_pool sl" "sr_tenant sl" "sr_key sl"], of i]
  have "s' = (if ms_failing s then s else fold (give_back i) (claim_fields (sr_pool sl) (sr_tenant sl) (sr_key sl)) s)"
    using assms(2) by (auto simp: mem_release_def Let_def)
  moreover have "mine j f s' = mine j f s" if "j \<noteq> i" for j f
    using mem_release_correct(3) [OF ok assms(2) that] .
  ultimately show ?thesis using G by (auto dest!: spec [of _ "pool_field (sr_pool sl)"])
qed

theorem release_frees_only_own_witness:
  "ms_count (fst (mem_release ''b'' \<lparr>sr_pool = ''m'', sr_tenant = ''t'', sr_key = ''k''\<rparr>
     (inject_drift ''a'' ''m'' 3 sample_backend))) (pool_field ''m'') = 3"
proof -
  have "backend_reachable (inject_drift ''a'' ''m'' 3 sample_backend)"
    by (rule backend_reachable.Step [OF sample_backend_reachable backend_step.Drift])
  moreover have "mine ''b'' (pool_field ''m'') (inject_drift ''a'' ''m'' 3 sample_backend) = 0"
    "ms_count (inject_drift ''a'' ''m'' 3 sample_backend) (pool_field ''m'') = 3" by code_simp+
  ultimately show ?thesis
    using release_frees_only_own [of "inject_drift ''a'' ''m'' 3 sample_backend" "''b''"
        "\<lparr>sr_pool = ''m'', sr_tenant = ''t'', sr_key = ''k''\<rparr>"]
    by (metis prod.collapse slot_release.select_convs(1))
qed

end
