(* ===== verification/Fair_Scheduler.thy ===== *)
theory Fair_Scheduler
  imports Pool_View Slots "HOL-Library.Word"
begin

text \<open>
  The scheduler (\<open>Scheduler\<close> and \<open>SharedCtl\<close> of \<open>obleth-fairshare/src/lib.rs\<close>): the actor that
  owns every pool, its messages and timers, the dispatch loops, and the protocol with the shared
  slot backend.

  \<^item> \<open>env\<close> is what one turn of the loop reads from outside: the clock, which callers have gone,
    the capacity provider's ceiling and the random number of the retry jitter.
  \<^item> Everything the scheduler sends is appended to \<open>s_out\<close>: grants, replies, and the calls it
    spawns to the backend, whose results come back as messages.
  \<^item> \<open>unrecorded\<close> wraps as the source says; operation ids are natural numbers (the source's
    \<open>u64\<close> would need \<open>2 ^ 64\<close> operations to wrap).
  \<^item> Log lines are not modelled.
\<close>

section \<open>Claims and holdings of a pool\<close>

definition pool_claim :: "(respond \<Rightarrow> bool) \<Rightarrow> instant \<Rightarrow> pool \<Rightarrow> uuid \<Rightarrow> uuid \<Rightarrow> waiter \<Rightarrow> nat \<Rightarrow> bool \<Rightarrow> bool \<Rightarrow> slot_claim" where
  "pool_claim dead now p tenant key w global_cap holds redeem_only =
     \<lparr>sc_pool = slot_id (p_key p), sc_tenant = tenant, sc_key = key, sc_pool_cap = p_configured_cap p,
      sc_global_cap = global_cap, sc_tenant_cap = map_of (p_tenant_cap p) tenant,
      sc_key_cap = map_of (p_key_cap p) key,
      sc_hold = (if holds then map_option (hold_id (p_key p)) (w_session w) else None),
      sc_redeem_only = redeem_only, sc_starving = (holds \<and> starving dead now w p)\<rparr>"

definition holdings :: "pool \<Rightarrow> pool_holdings option" where
  "holdings p =
     (if p_in_flight p = 0 then None
      else Some \<lparr>ph_pool = slot_id (p_key p), ph_in_flight = p_in_flight p,
                 ph_tenants = filter (\<lambda>(_, n). 0 < n) (p_tenant_in_flight p),
                 ph_keys = filter (\<lambda>(_, n). 0 < n) (p_key_in_flight p)\<rparr>)"

section \<open>State and messages\<close>

record env =
  e_now :: instant
  e_dead :: "respond \<Rightarrow> bool"
  e_capacity :: nat
  e_random :: nat

record reconciling =
  rc_quiesced :: bool
  rc_unrecorded_at :: "64 word"

record shared_ctl =
  sh_config :: shared_slots_config
  sh_synced :: bool
  sh_failing :: bool
  sh_ops :: nat
  sh_want_reconcile :: bool
  sh_reconciling :: "reconciling option"
  sh_deferred :: "slot_release list"
  sh_unrecorded :: "64 word"
  sh_global_blocked :: bool
  sh_retry_at :: "instant option"
  sh_next_reconcile :: instant
  sh_cluster_in_flight :: "nat option"
  sh_next_view :: instant
  sh_publishing_view :: bool
  sh_view_failing :: bool

record stats =
  st_in_flight :: nat
  st_queued :: nat
  st_replicas :: nat
  st_mode :: nat
  st_held :: nat
  st_cluster_in_flight :: nat
  st_affinity :: affinity_stats

record local_view =
  lv_view :: replica_view
  lv_pools :: "(string \<times> nat) list"
  lv_algorithm :: fairshare_algorithm
  lv_ceiling :: nat

datatype effect =
    SendGrant admitted
  | SpawnAcquire pool_key nat slot_claim
  | SpawnRelease pool_key slot_release
  | SpawnHold pool_key slot_release slot_hold
  | SpawnReconcile "pool_holdings list"
  | SpawnPublish replica_view duration
  | ReplySnapshot respond fairshare_snapshot
  | ReplySample respond fairshare_sample
  | ReplyView respond local_view

record scheduler =
  s_algorithm :: fairshare_algorithm
  s_default_model_cap :: nat
  s_replicas :: nat
  s_divisor :: nat
  s_mode :: slot_mode
  s_shared :: "shared_ctl option"
  s_next_op_id :: nat
  s_model_caps :: "(string, nat) hmap"
  s_session_affinity :: "session_affinity_config option"
  s_pools :: "(pool_key, pool) hmap"
  s_pool_order :: "pool_key list"
  s_cursor :: nat
  s_in_flight :: nat
  s_queued_total :: nat
  s_idle_pool_ttl :: duration
  s_stats :: stats
  s_model_load :: "(string, nat) hmap"
  s_out :: "effect list"

datatype ctl =
    Admit pool_key admit_request respond instant
  | Release uuid uuid pool_key "string option"
  | Snapshot respond
  | Sample respond int
  | View respond
  | SetReplicas nat
  | SetModelCaps "(string, nat) hmap"
  | SetSessionAffinity "session_affinity_config option"
  | EnableShared shared_slots_config
  | Wake "pool_key option"
  | AcquireDone pool_key nat "slot_error + acquire_outcome \<times> cluster_counts"
  | ReleaseDone pool_key "slot_error + cluster_counts"
  | HoldDone pool_key "slot_error + bool \<times> cluster_counts"
  | ReconcileDone "slot_error + reconcile_outcome"
  | ViewPublished "slot_error + unit"

definition IDLE_POOL_TTL :: duration where
  "IDLE_POOL_TTL = 600 * 1000"

definition housekeeping_interval :: "duration \<Rightarrow> duration" where
  "housekeeping_interval ttl = min (max (ttl div 60) (1 * 1000)) (10 * 1000)"

definition stats_start :: stats where
  "stats_start =
     \<lparr>st_in_flight = 0, st_queued = 0, st_replicas = 1, st_mode = 0, st_held = 0, st_cluster_in_flight = 0,
      st_affinity = \<lparr>as_jumps = 0, as_holds = 0, as_redeemed = 0, as_expired = 0\<rparr>\<rparr>"

definition start_with_idle_pool_ttl :: "fairshare_algorithm \<Rightarrow> nat \<Rightarrow> duration \<Rightarrow> scheduler" where
  "start_with_idle_pool_ttl algorithm default_model_max_in_flight ttl =
     \<lparr>s_algorithm = algorithm, s_default_model_cap = max default_model_max_in_flight 1, s_replicas = 1,
      s_divisor = 1, s_mode = Local, s_shared = None, s_next_op_id = 0, s_model_caps = [],
      s_session_affinity = None, s_pools = [], s_pool_order = [], s_cursor = 0, s_in_flight = 0,
      s_queued_total = 0, s_idle_pool_ttl = ttl, s_stats = stats_start, s_model_load = [], s_out = []\<rparr>"


section \<open>Small steps\<close>

definition emit :: "effect list \<Rightarrow> scheduler \<Rightarrow> scheduler" where
  "emit xs s = s\<lparr>s_out := s_out s @ xs\<rparr>"

definition put_pool :: "pool_key \<Rightarrow> pool \<Rightarrow> scheduler \<Rightarrow> scheduler" where
  "put_pool key p s = s\<lparr>s_pools := AList.update key p (s_pools s)\<rparr>"

definition with_pool :: "pool_key \<Rightarrow> (pool \<Rightarrow> pool) \<Rightarrow> scheduler \<Rightarrow> scheduler" where
  "with_pool key f s = (case map_of (s_pools s) key of None \<Rightarrow> s | Some p \<Rightarrow> put_pool key (f p) s)"

definition each_pool :: "(pool \<Rightarrow> pool) \<Rightarrow> scheduler \<Rightarrow> scheduler" where
  "each_pool f s = s\<lparr>s_pools := map (\<lambda>(k, p). (k, f p)) (s_pools s)\<rparr>"

definition with_shared :: "(shared_ctl \<Rightarrow> shared_ctl) \<Rightarrow> scheduler \<Rightarrow> scheduler" where
  "with_shared f s = s\<lparr>s_shared := map_option f (s_shared s)\<rparr>"

definition ceil_of :: "env \<Rightarrow> scheduler \<Rightarrow> nat" where
  "ceil_of e s = replica_share (e_capacity e) (s_divisor s)"

definition wanted_mode :: "scheduler \<Rightarrow> slot_mode" where
  "wanted_mode s =
     (case s_shared s of
        None \<Rightarrow> if 1 < s_replicas s then Split else Local
      | Some c \<Rightarrow> if s_replicas s \<le> 1 then Local else if sh_synced c then Shared else Fallback)"

definition wanted_divisor :: "scheduler \<Rightarrow> nat" where
  "wanted_divisor s =
     (let split = (case s_shared s of None \<Rightarrow> True | Some c \<Rightarrow> cf_split_on_fallback (sh_config c))
      in case wanted_mode s of
           Shared \<Rightarrow> 1 | Local \<Rightarrow> 1 | Split \<Rightarrow> s_replicas s
         | Fallback \<Rightarrow> if split then s_replicas s else 1)"

definition leave_shared :: "scheduler \<Rightarrow> scheduler" where
  "leave_shared s =
     with_shared (\<lambda>c. c\<lparr>sh_global_blocked := False, sh_retry_at := None, sh_cluster_in_flight := None\<rparr>)
       (each_pool (\<lambda>p. (unblock p)\<lparr>p_probing := False, p_cluster_in_flight := None\<rparr>) s)"

definition apply_mode :: "scheduler \<Rightarrow> scheduler" where
  "apply_mode s =
     (let mode = wanted_mode s; divisor = wanted_divisor s;
          s = (if divisor \<noteq> s_divisor s then each_pool (set_divisor divisor) (s\<lparr>s_divisor := divisor\<rparr>) else s)
      in if mode \<noteq> s_mode s then
           (let s = (if s_mode s = Shared then leave_shared s else s)
            in s\<lparr>s_mode := mode, s_stats := (s_stats s)\<lparr>st_mode := slot_mode_to_u8 mode\<rparr>\<rparr>)
         else s)"

definition quiesced_reconcile_running :: "scheduler \<Rightarrow> bool" where
  "quiesced_reconcile_running s =
     (case s_shared s of None \<Rightarrow> False
      | Some c \<Rightarrow> (case sh_reconciling c of None \<Rightarrow> False | Some r \<Rightarrow> rc_quiesced r))"

definition quiescing :: "scheduler \<Rightarrow> bool" where
  "quiescing s =
     (case s_shared s of None \<Rightarrow> False
      | Some c \<Rightarrow> (sh_want_reconcile c \<and> 1 < s_replicas s \<and> \<not> sh_failing c) \<or> quiesced_reconcile_running s)"

definition note_unrecorded :: "scheduler \<Rightarrow> scheduler" where
  "note_unrecorded s = with_shared (\<lambda>c. c\<lparr>sh_unrecorded := sh_unrecorded c + 1\<rparr>) s"

definition unblock_all :: "scheduler \<Rightarrow> scheduler" where
  "unblock_all s = with_shared (\<lambda>c. c\<lparr>sh_global_blocked := False\<rparr>) (each_pool unblock s)"

definition publish_model_load :: "pool_key \<Rightarrow> scheduler \<Rightarrow> scheduler" where
  "publish_model_load key s =
     (case key of
        Unrouted \<Rightarrow> s
      | Model model \<Rightarrow>
          s\<lparr>s_model_load :=
              (case map_of (s_pools s) key of
                 None \<Rightarrow> AList.delete model (s_model_load s)
               | Some p \<Rightarrow> if 0 < p_in_flight p then AList.update model (p_in_flight p) (s_model_load s)
                            else AList.delete model (s_model_load s))\<rparr>)"

definition publish_stats :: "scheduler \<Rightarrow> scheduler" where
  "publish_stats s =
     s\<lparr>s_stats := (s_stats s)\<lparr>st_in_flight := s_in_flight s, st_queued := s_queued_total s,
         st_replicas := s_replicas s, st_mode := slot_mode_to_u8 (s_mode s),
         st_held := msum (\<lambda>p. af_held (p_affinity p)) (s_pools s),
         st_cluster_in_flight :=
           (case s_shared s of None \<Rightarrow> s_in_flight s
            | Some c \<Rightarrow> (case sh_cluster_in_flight c of None \<Rightarrow> s_in_flight s
                          | Some n \<Rightarrow> if s_mode s = Shared then n else s_in_flight s))\<rparr>\<rparr>"

definition note_redeemed :: "scheduler \<Rightarrow> scheduler" where
  "note_redeemed s =
     (let a = st_affinity (s_stats s)
      in s\<lparr>s_stats := (s_stats s)\<lparr>st_affinity := a\<lparr>as_redeemed := as_redeemed a + 1\<rparr>\<rparr>\<rparr>)"

definition note_held :: "scheduler \<Rightarrow> scheduler" where
  "note_held s =
     (let a = st_affinity (s_stats s)
      in s\<lparr>s_stats := (s_stats s)\<lparr>st_affinity := a\<lparr>as_holds := as_holds a + 1\<rparr>\<rparr>\<rparr>)"

section \<open>Releasing\<close>

definition spawn_release :: "slot_release \<Rightarrow> scheduler \<Rightarrow> scheduler" where
  "spawn_release slot s =
     (if s_shared s = None then s
      else emit [SpawnRelease (case from_slot_id (sr_pool slot) of None \<Rightarrow> Unrouted | Some k \<Rightarrow> k) slot]
             (with_shared (\<lambda>c. c\<lparr>sh_ops := sh_ops c + 1\<rparr>) s))"

definition release_shared :: "slot_release \<Rightarrow> scheduler \<Rightarrow> scheduler" where
  "release_shared slot s =
     (if s_shared s = None then s
      else if quiesced_reconcile_running s
      then with_shared (\<lambda>c. c\<lparr>sh_deferred := sh_deferred c @ [slot]\<rparr>) s
      else spawn_release slot s)"

definition release_slot :: "env \<Rightarrow> pool_key \<Rightarrow> uuid \<Rightarrow> uuid \<Rightarrow> scheduler \<Rightarrow> scheduler" where
  "release_slot e pool tenant key s =
     (let s = s\<lparr>s_in_flight := s_in_flight s - 1\<rparr>;
          s = with_pool pool (\<lambda>p. settle_idle (e_now e) (release tenant key p)) s;
          s = (if s_mode s = Shared \<or> quiesced_reconcile_running s
               then release_shared \<lparr>sr_pool = slot_id pool, sr_tenant = tenant, sr_key = key\<rparr> s
               else note_unrecorded s)
      in publish_model_load pool s)"

definition release_given_up :: "env \<Rightarrow> (pool_key \<times> hold) list \<Rightarrow> scheduler \<Rightarrow> scheduler" where
  "release_given_up e given_up s =
     fold (\<lambda>(k, h). release_slot e k (h_tenant h) (h_key h)) given_up s"

definition slot_hold_of :: "env \<Rightarrow> pool_key \<Rightarrow> string \<Rightarrow> instant \<Rightarrow> session_affinity_config \<Rightarrow> pool \<Rightarrow> slot_hold" where
  "slot_hold_of e pool session arrived cfg p =
     \<lparr>sh_id = hold_id pool session, sh_ttl = hold_for cfg, sh_max_held = max_held cfg (p_configured_cap p),
      sh_arrived_ago = e_now e - arrived, sh_remember = warm_ttl cfg, sh_max_run = max_jumps cfg\<rparr>"

definition hold_in_backend :: "env \<Rightarrow> pool_key \<Rightarrow> uuid \<Rightarrow> uuid \<Rightarrow> string \<Rightarrow> instant \<Rightarrow> scheduler \<Rightarrow> scheduler" where
  "hold_in_backend e pool tenant key session arrived s =
     (case (case map_of (s_pools s) pool of None \<Rightarrow> None
            | Some p \<Rightarrow> map_option (\<lambda>cfg. (cfg, p)) (af_config (p_affinity p))) of
        None \<Rightarrow> release_slot e pool tenant key s
      | Some (cfg, p) \<Rightarrow>
          (let hold = slot_hold_of e pool session arrived cfg p;
               s = put_pool pool (settle_idle (e_now e) (release tenant key p)) s;
               s = s\<lparr>s_in_flight := s_in_flight s - 1\<rparr>;
               s = publish_model_load pool s
           in if s_shared s = None then s
              else emit [SpawnHold pool \<lparr>sr_pool = slot_id pool, sr_tenant = tenant, sr_key = key\<rparr> hold]
                     (with_shared (\<lambda>c. c\<lparr>sh_ops := sh_ops c + 1\<rparr>) s)))"

section \<open>Held slots\<close>

definition next_hold_expiry :: "env \<Rightarrow> scheduler \<Rightarrow> instant option" where
  "next_hold_expiry e s =
     list_min (List.map_filter id (concat (map (\<lambda>p.
       [next_expiry (p_affinity p),
        case (oldest_eligible (e_dead e) p, af_config (p_affinity p)) of
          (Some t, Some cfg) \<Rightarrow> Some (t + max_bypass cfg) | _ \<Rightarrow> None])
       (filter (\<lambda>p. 0 < af_held (p_affinity p)) (hvals (s_pools s))))))"

definition handed_back :: "(pool \<Rightarrow> hold list) \<Rightarrow> scheduler \<Rightarrow> (pool_key \<times> hold) list" where
  "handed_back f s = concat (map (\<lambda>(k, p). map (Pair k) (f p)) (s_pools s))"

definition expire_pool :: "env \<Rightarrow> pool \<Rightarrow> pool" where
  "expire_pool e p = p\<lparr>p_affinity := fst (af_expire (e_now e) (p_affinity p))\<rparr>"

definition expire_holds :: "env \<Rightarrow> scheduler \<Rightarrow> scheduler" where
  "expire_holds e s =
     release_given_up e (handed_back (\<lambda>p. snd (af_expire (e_now e) (p_affinity p))) s)
       (each_pool (expire_pool e) s)"

text \<open>What \<open>serve_holds\<close> does in one pool: the pool, the holds to release, the grants and the
  number of waiters dropped.\<close>

definition serve_pool :: "env \<Rightarrow> bool \<Rightarrow> pool \<Rightarrow> pool \<times> hold list \<times> admitted list \<times> nat" where
  "serve_pool e grant p =
     (if af_held (p_affinity p) = 0 then (p, [], [], 0)
      else (let (p, gone) = holds_to_give_up (e_dead e) (e_now e) p
            in if grant then (let (p, ads, dropped) = redeem_queued (e_dead e) (e_now e) p in (p, gone, ads, dropped))
               else (p, gone, [], 0)))"

definition serve_holds :: "env \<Rightarrow> scheduler \<Rightarrow> scheduler" where
  "serve_holds e s =
     (if \<not> list_ex (\<lambda>p. 0 < af_held (p_affinity p)) (hvals (s_pools s)) then s
      else (let grant = \<not> quiescing s;
                served = map (\<lambda>p. serve_pool e grant p) (hvals (s_pools s));
                given_up = handed_back (\<lambda>p. fst (snd (serve_pool e grant p))) s;
                s = each_pool (\<lambda>p. fst (serve_pool e grant p)) s;
                s = emit (map SendGrant (concat (map (\<lambda>(_, _, ads, _). ads) served))) s;
                s = s\<lparr>s_queued_total := s_queued_total s -
                        sum_list (map (\<lambda>(_, _, ads, dropped). length ads + dropped) served)\<rparr>
            in release_given_up e given_up s))"

section \<open>Dispatch\<close>

definition pool_at :: "scheduler \<Rightarrow> nat \<Rightarrow> pool_key" where
  "pool_at s i = s_pool_order s ! ((s_cursor s + i) mod length (s_pool_order s))"

text \<open>One pool's turn in a pass, outside shared mode: the new state and whether it was granted.\<close>

definition local_visit :: "env \<Rightarrow> nat \<Rightarrow> nat \<Rightarrow> scheduler \<Rightarrow> scheduler \<times> bool" where
  "local_visit e ceil i s =
     (let key = pool_at s i; headroom = ceil - s_in_flight s
      in case map_of (s_pools s) key of
           None \<Rightarrow> (s, False)
         | Some p \<Rightarrow>
             if p_queued_total p = 0 then (s, False)
             else (let (p, ad, dropped) = dispatch_one (e_dead e) (e_now e) (effective_cap headroom p) p;
                       p = (if 0 < dropped then settle_idle (e_now e) p else p);
                       s = put_pool key p s;
                       s = s\<lparr>s_queued_total := s_queued_total s - dropped\<rparr>
                   in case ad of
                        None \<Rightarrow> (s, False)
                      | Some a \<Rightarrow>
                          (let s = emit [SendGrant a] s;
                               s = s\<lparr>s_in_flight := s_in_flight s + 1, s_queued_total := s_queued_total s - 1\<rparr>
                           in (publish_model_load key (note_unrecorded s), True))))"

fun local_pass :: "env \<Rightarrow> nat \<Rightarrow> nat list \<Rightarrow> scheduler \<Rightarrow> scheduler \<times> bool" where
  "local_pass e ceil [] s = (s, False)"
| "local_pass e ceil (i # is) s =
     (if ceil \<le> s_in_flight s then (s, False)
      else (let (s, granted) = local_visit e ceil i s; (s, more) = local_pass e ceil is s
            in (s, granted \<or> more)))"

definition move_cursor :: "scheduler \<Rightarrow> scheduler" where
  "move_cursor s = s\<lparr>s_cursor := (s_cursor s + 1) mod length (s_pool_order s)\<rparr>"

lemma local_visit_queued:
  "local_visit e ceil i s = (s', g) \<Longrightarrow>
   s_queued_total s' \<le> s_queued_total s \<and> (g \<longrightarrow> 0 < s_queued_total s \<longrightarrow> s_queued_total s' < s_queued_total s)"
  by (auto simp: local_visit_def Let_def put_pool_def emit_def note_unrecorded_def with_shared_def
      publish_model_load_def split: option.splits if_splits prod.splits pool_key.splits)

lemma local_pass_queued:
  "local_pass e ceil is s = (s', g) \<Longrightarrow>
   s_queued_total s' \<le> s_queued_total s \<and> (g \<longrightarrow> 0 < s_queued_total s \<longrightarrow> s_queued_total s' < s_queued_total s)"
proof (induction "is" arbitrary: s s' g)
  case (Cons i "is")
  obtain s1 g1 where v: "local_visit e ceil i s = (s1, g1)" by fastforce
  obtain s2 g2 where r: "local_pass e ceil is s1 = (s2, g2)" by fastforce
  show ?case using Cons.prems Cons.IH [OF r] local_visit_queued [OF v] v r by (auto split: if_splits)
qed simp

function local_loop :: "env \<Rightarrow> nat \<Rightarrow> bool \<Rightarrow> scheduler \<Rightarrow> scheduler" where
  "local_loop e ceil progressed s =
     (if progressed \<and> s_in_flight s < ceil \<and> 0 < s_queued_total s then
        (let (s', p) = local_pass e ceil [0..<length (s_pool_order s)] s
         in local_loop e ceil p (move_cursor s'))
      else s)"
  by pat_completeness auto
termination
  by (relation "measure (\<lambda>(_, _, progressed, s). if progressed then Suc (s_queued_total s) else 0)")
    (auto simp: move_cursor_def dest!: local_pass_queued [OF sym])

declare local_loop.simps [simp del]


text \<open>Shared mode: a waiter that was given its local slot claims one from the backend.\<close>

type_synonym sent_claim = "pool_key \<times> nat \<times> slot_claim"

definition start_claim ::
  "env \<Rightarrow> pool_key \<Rightarrow> pool \<Rightarrow> uuid \<Rightarrow> uuid \<Rightarrow> waiter \<Rightarrow> bool \<Rightarrow> bool \<Rightarrow> scheduler \<Rightarrow> scheduler \<times> sent_claim" where
  "start_claim e key p tenant key_id w holds redeem_only s =
     (let i = s_next_op_id s;
          claim = pool_claim (e_dead e) (e_now e) p tenant key_id w (e_capacity e) holds redeem_only;
          p = p\<lparr>p_pending := AList.update i \<lparr>pc_tenant = tenant, pc_key = key_id, pc_waiter = w\<rparr> (p_pending p)\<rparr>
      in ((put_pool key p s)\<lparr>s_next_op_id := i + 1, s_in_flight := s_in_flight s + 1,
            s_queued_total := s_queued_total s - 1\<rparr>, (key, i, claim)))"

definition claim_limit :: "nat \<Rightarrow> pool \<Rightarrow> nat" where
  "claim_limit max_pending p = (if p_probing p then 1 else max_pending)"

definition shared_visit :: "env \<Rightarrow> nat \<Rightarrow> nat \<Rightarrow> nat \<Rightarrow> scheduler \<Rightarrow> scheduler \<times> sent_claim list" where
  "shared_visit e ceil max_pending i s =
     (let key = pool_at s i; headroom = ceil - s_in_flight s
      in case map_of (s_pools s) key of
           None \<Rightarrow> (s, [])
         | Some p \<Rightarrow>
             if p_queued_total p = 0 \<or> p_blocked p \<or> claim_limit max_pending p \<le> length (p_pending p) then (s, [])
             else (let (p, next, dropped) = take_next (e_dead e) (e_now e) (effective_cap headroom p) p;
                       p = (if 0 < dropped then settle_idle (e_now e) p else p);
                       s = s\<lparr>s_queued_total := s_queued_total s - dropped\<rparr>
                   in case next of
                        None \<Rightarrow> (put_pool key p s, [])
                      | Some (tenant, key_id, w) \<Rightarrow>
                          (let (s, c) = start_claim e key p tenant key_id w (holds_on (p_affinity p)) False s
                           in (s, [c]))))"

fun shared_pass :: "env \<Rightarrow> nat \<Rightarrow> nat \<Rightarrow> nat list \<Rightarrow> scheduler \<Rightarrow> scheduler \<times> sent_claim list" where
  "shared_pass e ceil max_pending [] s = (s, [])"
| "shared_pass e ceil max_pending (i # is) s =
     (if ceil \<le> s_in_flight s then (s, [])
      else (let (s, claims) = shared_visit e ceil max_pending i s;
                (s, more) = shared_pass e ceil max_pending is s
            in (s, claims @ more)))"

lemma shared_visit_queued:
  "shared_visit e ceil mp i s = (s', cs) \<Longrightarrow>
   s_queued_total s' \<le> s_queued_total s \<and> (cs \<noteq> [] \<longrightarrow> 0 < s_queued_total s \<longrightarrow> s_queued_total s' < s_queued_total s)"
  by (auto simp: shared_visit_def start_claim_def Let_def put_pool_def split: option.splits if_splits prod.splits)

lemma shared_pass_queued:
  "shared_pass e ceil mp is s = (s', cs) \<Longrightarrow>
   s_queued_total s' \<le> s_queued_total s \<and> (cs \<noteq> [] \<longrightarrow> 0 < s_queued_total s \<longrightarrow> s_queued_total s' < s_queued_total s)"
proof (induction "is" arbitrary: s s' cs)
  case (Cons i "is")
  obtain s1 c1 where v: "shared_visit e ceil mp i s = (s1, c1)" by fastforce
  obtain s2 c2 where r: "shared_pass e ceil mp is s1 = (s2, c2)" by fastforce
  show ?case using Cons.prems Cons.IH [OF r] shared_visit_queued [OF v] v r by (auto split: if_splits)
qed simp

function shared_loop :: "env \<Rightarrow> nat \<Rightarrow> nat \<Rightarrow> bool \<Rightarrow> scheduler \<Rightarrow> scheduler \<times> sent_claim list" where
  "shared_loop e ceil max_pending progressed s =
     (if progressed \<and> s_in_flight s < ceil \<and> 0 < s_queued_total s then
        (let (s', claims) = shared_pass e ceil max_pending [0..<length (s_pool_order s)] s;
             (s'', more) = shared_loop e ceil max_pending (claims \<noteq> []) (move_cursor s')
         in (s'', claims @ more))
      else (s, []))"
  by pat_completeness auto
termination
  by (relation "measure (\<lambda>(_, _, _, progressed, s). if progressed then Suc (s_queued_total s) else 0)")
    (auto simp: move_cursor_def dest!: shared_pass_queued [OF sym])

declare shared_loop.simps [simp del]

text \<open>Claims on held slots alone, out of queue order.\<close>

definition pool_queued :: "scheduler \<Rightarrow> pool_key \<Rightarrow> nat" where
  "pool_queued s key = (case map_of (s_pools s) key of None \<Rightarrow> 0 | Some p \<Rightarrow> p_queued_total p)"

lemma take_probe_queued:
  "take_probe dead p = (p', Some x) \<Longrightarrow> p_queued_total p' = p_queued_total p - 1"
  using same_queues_grant_slot
  by (auto simp: take_probe_def same_queues_def Let_def dest: queued_total_pop split: option.splits prod.splits)

function probe_pool :: "env \<Rightarrow> nat \<Rightarrow> pool_key \<Rightarrow> scheduler \<Rightarrow> scheduler \<times> sent_claim list" where
  "probe_pool e limit key s =
     (case map_of (s_pools s) key of
        None \<Rightarrow> (s, [])
      | Some p \<Rightarrow>
          if p_queued_total p = 0 \<or> limit \<le> length (p_pending p) then (s, [])
          else (case take_probe (e_dead e) p of
                  (p', None) \<Rightarrow> (put_pool key p' s, [])
                | (p', Some (tenant, key_id, w)) \<Rightarrow>
                    (let (s', c) = start_claim e key p' tenant key_id w True True s;
                         (s'', more) = probe_pool e limit key s'
                     in (s'', c # more))))"
  by pat_completeness auto
termination
  by (relation "measure (\<lambda>(_, _, key, s). pool_queued s key)")
    (auto simp: pool_queued_def start_claim_def Let_def put_pool_def dest!: take_probe_queued [OF sym])

declare probe_pool.simps [simp del]

fun probe_pools :: "env \<Rightarrow> nat \<Rightarrow> pool_key list \<Rightarrow> scheduler \<Rightarrow> scheduler \<times> sent_claim list" where
  "probe_pools e max_pending [] s = (s, [])"
| "probe_pools e max_pending (key # ks) s =
     (let (s, claims) =
        (case map_of (s_pools s) key of
           None \<Rightarrow> (s, [])
         | Some p \<Rightarrow> if holds_on (p_affinity p) then probe_pool e (claim_limit max_pending p) key s else (s, []));
          (s, more) = probe_pools e max_pending ks s
      in (s, claims @ more))"

definition spawn_acquire :: "sent_claim \<Rightarrow> scheduler \<Rightarrow> scheduler" where
  "spawn_acquire c s =
     (if s_shared s = None then s
      else emit [SpawnAcquire (fst c) (fst (snd c)) (snd (snd c))] (with_shared (\<lambda>x. x\<lparr>sh_ops := sh_ops x + 1\<rparr>) s))"

definition send_claims :: "sent_claim list \<Rightarrow> scheduler \<Rightarrow> scheduler" where
  "send_claims claims s = fold (\<lambda>c s. spawn_acquire c (publish_model_load (fst c) s)) claims s"

definition dispatch_shared :: "env \<Rightarrow> scheduler \<Rightarrow> scheduler" where
  "dispatch_shared e s =
     (if quiescing s then s
      else case s_shared s of
             None \<Rightarrow> s
           | Some c \<Rightarrow>
               if s_pool_order s = [] then s
               else (let max_pending = max (cf_max_pending_per_pool (sh_config c)) 1;
                         (s, claims) = shared_loop e (ceil_of e s) max_pending (\<not> sh_global_blocked c) s;
                         (s, probes) = probe_pools e max_pending (s_pool_order s) s
                     in send_claims (claims @ probes) s))"

definition dispatch_all :: "env \<Rightarrow> scheduler \<Rightarrow> scheduler" where
  "dispatch_all e s =
     (let s = serve_holds e s
      in if s_mode s = Shared then dispatch_shared e s
         else if quiescing s \<or> s_pool_order s = [] then s
         else local_loop e (ceil_of e s) True s)"

section \<open>The shared backend's answers\<close>

definition schedule_retry :: "env \<Rightarrow> scheduler \<Rightarrow> scheduler" where
  "schedule_retry e s =
     with_shared (\<lambda>c.
       if sh_retry_at c \<noteq> None then c
       else (let lo = cf_retry_min (sh_config c); hi = max (cf_retry_max (sh_config c)) lo; span = hi - lo;
                 jitter = (if span = 0 then 0 else e_random e mod (span + 1))
             in c\<lparr>sh_retry_at := Some (e_now e + lo + jitter)\<rparr>)) s"

definition shared_failed :: "env \<Rightarrow> scheduler \<Rightarrow> scheduler" where
  "shared_failed e s =
     (if s_shared s = None then s
      else apply_mode (with_shared (\<lambda>c. c\<lparr>sh_failing := True, sh_synced := False,
             sh_unrecorded := sh_unrecorded c + of_nat (length (sh_deferred c)), sh_deferred := [],
             sh_next_reconcile := e_now e + cf_recovery_interval (sh_config c)\<rparr>) s))"

definition maybe_start_reconcile :: "scheduler \<Rightarrow> scheduler" where
  "maybe_start_reconcile s =
     (case s_shared s of
        None \<Rightarrow> s
      | Some c \<Rightarrow>
          if \<not> sh_want_reconcile c \<or> sh_reconciling c \<noteq> None \<or> 0 < sh_ops c then s
          else emit [SpawnReconcile (List.map_filter holdings (hvals (s_pools s)))]
                 (with_shared (\<lambda>c. c\<lparr>sh_want_reconcile := False,
                    sh_reconciling := Some \<lparr>rc_quiesced = (1 < s_replicas s \<and> \<not> sh_failing c),
                                            rc_unrecorded_at = sh_unrecorded c\<rparr>\<rparr>) s))"

definition one_op_fewer :: "scheduler \<Rightarrow> scheduler" where
  "one_op_fewer s = with_shared (\<lambda>c. c\<lparr>sh_ops := sh_ops c - 1\<rparr>) s"

definition requeued :: "pool_key \<Rightarrow> pool \<Rightarrow> scheduler \<Rightarrow> scheduler" where
  "requeued key p s =
     (put_pool key p s)\<lparr>s_in_flight := s_in_flight s - 1, s_queued_total := s_queued_total s + 1\<rparr>"

definition block_for :: "slot_denial \<Rightarrow> pending_claim \<Rightarrow> pool \<Rightarrow> pool" where
  "block_for d claim p =
     (case d of
        DenyPool \<Rightarrow> p\<lparr>p_blocked := True\<rparr>
      | DenyTenant \<Rightarrow> p\<lparr>p_blocked_tenants := set_insert (pc_tenant claim) (p_blocked_tenants p)\<rparr>
      | DenyKey \<Rightarrow> p\<lparr>p_blocked_keys := set_insert (pc_key claim) (p_blocked_keys p)\<rparr>
      | DenyGlobal \<Rightarrow> p)"

text \<open>What the answer to a claim does, the claim having been taken out of \<open>pending\<close>.\<close>

definition claim_granted :: "env \<Rightarrow> pool_key \<Rightarrow> pending_claim \<Rightarrow> bool \<Rightarrow> cluster_counts \<Rightarrow> pool \<Rightarrow> scheduler \<Rightarrow> scheduler" where
  "claim_granted e key claim redeemed counts p s =
     (let s = (if redeemed then note_redeemed s else s);
          p = (if redeemed then p else p\<lparr>p_probing := False\<rparr>);
          p = p\<lparr>p_cluster_in_flight := Some (cc_pool counts)\<rparr>;
          w = pc_waiter claim;
          (p, ad) = send_grant (e_now e) (grant_new (pc_tenant claim) (pc_key claim) (w_session w) (w_jumped w))
                      (w_respond w) (if w_fast w then Fast else Queued) (e_now e - w_enqueued w) p;
          s = emit [SendGrant ad] (put_pool key p s);
          s = with_shared (\<lambda>c. c\<lparr>sh_cluster_in_flight := Some (cc_global counts)\<rparr>) s
      in if s_mode s \<noteq> Shared then note_unrecorded s else s)"

definition claim_denied :: "env \<Rightarrow> pool_key \<Rightarrow> pending_claim \<Rightarrow> slot_denial \<Rightarrow> cluster_counts \<Rightarrow> pool \<Rightarrow> scheduler \<Rightarrow> scheduler" where
  "claim_denied e key claim d counts p s =
     (let p = block_for d claim ((requeue claim p)\<lparr>p_probing := True, p_cluster_in_flight := Some (cc_pool counts)\<rparr>);
          s = requeued key p s;
          s = with_shared (\<lambda>c. c\<lparr>sh_cluster_in_flight := Some (cc_global counts),
                 sh_global_blocked := (sh_global_blocked c \<or> d = DenyGlobal)\<rparr>) s
      in schedule_retry e s)"

definition claim_answered ::
  "env \<Rightarrow> pool_key \<Rightarrow> pending_claim \<Rightarrow> (slot_error + acquire_outcome \<times> cluster_counts) \<Rightarrow> pool \<Rightarrow> scheduler \<Rightarrow> scheduler" where
  "claim_answered e key claim result p s =
     (case result of
        Inr (Granted, counts) \<Rightarrow> claim_granted e key claim False counts p s
      | Inr (Redeemed, counts) \<Rightarrow> claim_granted e key claim True counts p s
      | Inr (Denied d, counts) \<Rightarrow> claim_denied e key claim d counts p s
      | Inr (NotHeld, counts) \<Rightarrow>
          requeued key ((requeue claim p)\<lparr>p_cluster_in_flight := Some (cc_pool counts)\<rparr>) s
      | Inr (NotRegistered, _) \<Rightarrow> shared_failed e (requeued key (requeue claim p) s)
      | Inl _ \<Rightarrow> shared_failed e (requeued key (requeue claim p) s))"

definition acquire_done ::
  "env \<Rightarrow> pool_key \<Rightarrow> nat \<Rightarrow> (slot_error + acquire_outcome \<times> cluster_counts) \<Rightarrow> scheduler \<Rightarrow> scheduler" where
  "acquire_done e key i result s =
     (let s = one_op_fewer s
      in case map_of (s_pools s) key of
           None \<Rightarrow> s
         | Some p \<Rightarrow>
             (case map_of (p_pending p) i of
                None \<Rightarrow> s
              | Some claim \<Rightarrow>
                  (let p = p\<lparr>p_pending := AList.delete i (p_pending p)\<rparr>;
                       s = claim_answered e key claim result p s
                   in dispatch_all e (maybe_start_reconcile (publish_model_load key s)))))"

definition release_done :: "env \<Rightarrow> pool_key \<Rightarrow> (slot_error + cluster_counts) \<Rightarrow> scheduler \<Rightarrow> scheduler" where
  "release_done e key result s =
     (let s = one_op_fewer s;
          s = (case result of
                 Inr counts \<Rightarrow>
                   if s_mode s = Shared then
                     with_shared (\<lambda>c. c\<lparr>sh_cluster_in_flight := Some (cc_global counts), sh_global_blocked := False\<rparr>)
                       (with_pool key (\<lambda>p. unblock (p\<lparr>p_cluster_in_flight := Some (cc_pool counts)\<rparr>)) s)
                   else s
               | Inl _ \<Rightarrow> shared_failed e s)
      in dispatch_all e (maybe_start_reconcile s))"

definition hold_done :: "env \<Rightarrow> pool_key \<Rightarrow> cluster_counts \<Rightarrow> scheduler \<Rightarrow> scheduler" where
  "hold_done e key counts s =
     (let s = one_op_fewer s;
          s = (if s_mode s = Shared then
                 with_pool key (\<lambda>p. p\<lparr>p_cluster_in_flight := Some (cc_pool counts)\<rparr>)
                   (with_shared (\<lambda>c. c\<lparr>sh_cluster_in_flight := Some (cc_global counts)\<rparr>) s)
               else s)
      in dispatch_all e (maybe_start_reconcile s))"

definition reconcile_synced :: "env \<Rightarrow> reconciling \<Rightarrow> shared_ctl \<Rightarrow> scheduler \<Rightarrow> scheduler" where
  "reconcile_synced e run c s =
     (let multi = 1 < s_replicas s;
          exact = (rc_quiesced run \<or> rc_unrecorded_at run = sh_unrecorded c);
          c' = c\<lparr>sh_failing := False, sh_synced := (sh_synced c \<or> multi \<and> exact),
                 sh_want_reconcile := (sh_want_reconcile c \<or> multi \<and> \<not> exact),
                 sh_next_reconcile := e_now e + cf_reconcile_interval (sh_config c), sh_deferred := []\<rparr>;
          s = apply_mode (s\<lparr>s_shared := Some c'\<rparr>);
          s = fold (\<lambda>slot. if sh_synced c' \<and> multi then spawn_release slot else note_unrecorded) (sh_deferred c) s
      in unblock_all s)"

definition reconcile_done :: "env \<Rightarrow> (slot_error + reconcile_outcome) \<Rightarrow> scheduler \<Rightarrow> scheduler" where
  "reconcile_done e result s =
     (case s_shared s of
        None \<Rightarrow> s
      | Some c \<Rightarrow>
          (case sh_reconciling c of
             None \<Rightarrow> s
           | Some run \<Rightarrow>
               (let c = c\<lparr>sh_reconciling := None\<rparr>;
                    s = (case result of
                           Inr Synced \<Rightarrow> reconcile_synced e run c (s\<lparr>s_shared := Some c\<rparr>)
                         | _ \<Rightarrow> shared_failed e (s\<lparr>s_shared := Some c\<rparr>))
                in dispatch_all e (maybe_start_reconcile s))))"


section \<open>Reports\<close>

definition reported_pools :: "scheduler \<Rightarrow> pool list" where
  "reported_pools s = filter (\<lambda>p. \<not> is_idle p) (List.map_filter (map_of (s_pools s)) (s_pool_order s))"

definition build_sample :: "int \<Rightarrow> scheduler \<Rightarrow> fairshare_sample" where
  "build_sample ts_ms s =
     \<lparr>sm_ts_ms = ts_ms, sm_global_in_flight = s_in_flight s, sm_global_queued = s_queued_total s,
      sm_pools = map (\<lambda>p. \<lparr>psm_model = p_model p, psm_cap = p_cap p, psm_in_flight = p_in_flight p,
                           psm_queued = p_queued_total p, psm_groups = group_totals p\<rparr>) (reported_pools s),
      sm_cluster = False\<rparr>"

fun view_pools :: "view_budget \<Rightarrow> pool list \<Rightarrow> replica_pool_view list" where
  "view_pools budget [] = []"
| "view_pools budget (p # ps) = (let (budget, v) = pool_view budget p in v # view_pools budget ps)"

definition build_view :: "scheduler \<Rightarrow> replica_view" where
  "build_view s = \<lparr>rv_version = VIEW_VERSION, rv_pools = view_pools view_budget_default (reported_pools s)\<rparr>"

definition shared_cluster_in_flight :: "scheduler \<Rightarrow> nat option" where
  "shared_cluster_in_flight s =
     (case s_shared s of None \<Rightarrow> None
      | Some c \<Rightarrow> if s_mode s = Shared then sh_cluster_in_flight c else None)"

definition build_snapshot :: "env \<Rightarrow> scheduler \<Rightarrow> fairshare_snapshot" where
  "build_snapshot e s =
     (let ceil = ceil_of e s; headroom = ceil - s_in_flight s;
          pools = sort_key mp_model (map (pool_snapshot headroom) (hvals (s_pools s)))
      in \<lparr>fs_algorithm = (case s_algorithm s of Weighted \<Rightarrow> ''weighted'' | Hierarchical \<Rightarrow> ''hierarchical''),
          fs_max_in_flight = ceil, fs_configured_max_in_flight = e_capacity e, fs_replicas = s_replicas s,
          fs_mode = slot_mode_as_str (s_mode s), fs_shared_slots = (s_shared s \<noteq> None),
          fs_cluster_in_flight = shared_cluster_in_flight s,
          fs_default_model_max_in_flight = s_default_model_cap s,
          fs_global_in_flight = s_in_flight s, fs_global_queued = s_queued_total s,
          fs_global_borrowed = sum_list (map mp_borrowed pools), fs_pools = pools,
          fs_model_in_flight = fold (\<lambda>p m. if 0 < mp_in_flight p then AList.update (mp_model p) (mp_in_flight p) m else m) pools [],
          fs_model_queued = fold (\<lambda>p m. if 0 < mp_queued p then AList.update (mp_model p) (mp_queued p) m else m) pools []\<rparr>)"

definition local_view_of :: "env \<Rightarrow> scheduler \<Rightarrow> local_view" where
  "local_view_of e s =
     \<lparr>lv_view = build_view s, lv_pools = map (\<lambda>p. (p_model p, p_configured_cap p)) (hvals (s_pools s)),
      lv_algorithm = s_algorithm s, lv_ceiling = e_capacity e\<rparr>"

definition publish_view :: "env \<Rightarrow> scheduler \<Rightarrow> scheduler" where
  "publish_view e s =
     (case s_shared s of
        None \<Rightarrow> s
      | Some c \<Rightarrow>
          emit [SpawnPublish (build_view s) (view_ttl (sh_config c))]
            (with_shared (\<lambda>c. c\<lparr>sh_publishing_view := True, sh_next_view := e_now e + cf_view_interval (sh_config c)\<rparr>) s))"

definition view_published :: "(slot_error + unit) \<Rightarrow> scheduler \<Rightarrow> scheduler" where
  "view_published result s =
     with_shared (\<lambda>c. c\<lparr>sh_publishing_view := False,
       sh_view_failing := (case result of Inr _ \<Rightarrow> False | Inl _ \<Rightarrow> True)\<rparr>) s"

section \<open>Handling messages\<close>

definition pool_mut :: "pool_key \<Rightarrow> scheduler \<Rightarrow> scheduler" where
  "pool_mut key s =
     (if contains_key (s_pools s) key then s
      else (let p = set_divisor (s_divisor s) (pool_new key (s_algorithm s) (s_default_model_cap s));
                p = p\<lparr>p_affinity := fst (af_configure (s_session_affinity s) (p_affinity p))\<rparr>
            in (put_pool key p s)\<lparr>s_pool_order := s_pool_order s @ [key]\<rparr>))"

definition set_pool_affinity ::
  "env \<Rightarrow> pool_key \<Rightarrow> pool_affinity \<Rightarrow> session_affinity_config option \<Rightarrow> scheduler \<Rightarrow> scheduler" where
  "set_pool_affinity e key src config s =
     (let s = with_pool key (\<lambda>p. p\<lparr>p_affinity_source := src\<rparr>) (pool_mut key s)
      in case map_of (s_pools s) key of
           None \<Rightarrow> s
         | Some p \<Rightarrow>
             if af_config (p_affinity p) = config then s
             else (let (a, given_up) = af_configure config (p_affinity p)
                   in release_given_up e (map (Pair key) given_up) (put_pool key (p\<lparr>p_affinity := a\<rparr>) s)))"

definition admission_cap :: "pool_key \<Rightarrow> admit_request \<Rightarrow> scheduler \<Rightarrow> nat" where
  "admission_cap key req s =
     (case key of
        Unrouted \<Rightarrow> s_default_model_cap s
      | Model name \<Rightarrow>
          (case map_of (s_model_caps s) name of
             Some c \<Rightarrow> c
           | None \<Rightarrow> (case positive (rq_model_max_in_flight req) of Some c \<Rightarrow> c | None \<Rightarrow> s_default_model_cap s)))"

text \<open>The pool an admission is decided in, and the decision.\<close>

definition admit_pool :: "pool_key \<Rightarrow> admit_request \<Rightarrow> scheduler \<Rightarrow> pool \<Rightarrow> pool" where
  "admit_pool key req s p = track_meta req ((set_configured_cap (admission_cap key req s) p)\<lparr>p_idle_since := None\<rparr>)"

definition admit_into :: "env \<Rightarrow> pool_key \<Rightarrow> admit_request \<Rightarrow> respond \<Rightarrow> instant \<Rightarrow> pool \<Rightarrow> scheduler \<Rightarrow> scheduler" where
  "admit_into e key req respond enqueued p s =
     (case (if key_passed_out (e_dead e) p (rq_tenant req) (rq_key req) then (p_affinity p, None)
            else af_redeem (p_affinity p) (rq_session req)) of
        (a, Some h) \<Rightarrow>
          (let (p, ad) = grant_held (e_now e) h req respond (p\<lparr>p_affinity := a\<rparr>)
           in publish_stats (emit [SendGrant ad] (put_pool key p s)))
      | (a, None) \<Rightarrow>
          (let headroom = ceil_of e s - s_in_flight s;
               fast = (0 < headroom \<and> can_grant_immediately req (effective_cap headroom p) p);
               s = (if s_mode s = Shared then
                      dispatch_all e ((put_pool key (enqueue req respond enqueued fast p) s)
                        \<lparr>s_queued_total := s_queued_total s + 1\<rparr>)
                    else if fast \<and> \<not> quiescing s then
                      (let (p, ad) = grant_fast (e_now e) req respond p
                       in note_unrecorded ((emit [SendGrant ad] (put_pool key p s))\<lparr>s_in_flight := s_in_flight s + 1\<rparr>))
                    else
                      dispatch_all e ((put_pool key (enqueue req respond enqueued False p) s)
                        \<lparr>s_queued_total := s_queued_total s + 1\<rparr>))
           in publish_stats (publish_model_load key s)))"

definition request_affinity :: "admit_request \<Rightarrow> scheduler \<Rightarrow> session_affinity_config option" where
  "request_affinity req s =
     (case rq_affinity req of Scheduler \<Rightarrow> s_session_affinity s | ModelAffinity config \<Rightarrow> config)"

definition scope_session :: "session_affinity_config option \<Rightarrow> admit_request \<Rightarrow> admit_request" where
  "scope_session config req =
     req\<lparr>rq_session := (case config of None \<Rightarrow> None | Some _ \<Rightarrow> map_option (scoped (rq_key req)) (rq_session req))\<rparr>"

definition handle_admit :: "env \<Rightarrow> pool_key \<Rightarrow> admit_request \<Rightarrow> respond \<Rightarrow> instant \<Rightarrow> scheduler \<Rightarrow> scheduler" where
  "handle_admit e key req respond enqueued s =
     (let config = request_affinity req s;
          req = scope_session config req;
          s = pool_mut key (set_pool_affinity e key (rq_affinity req) config s)
      in case map_of (s_pools s) key of
           None \<Rightarrow> s
         | Some p \<Rightarrow> admit_into e key req respond enqueued (admit_pool key req s p) s)"

definition handle_release :: "env \<Rightarrow> uuid \<Rightarrow> uuid \<Rightarrow> pool_key \<Rightarrow> string option \<Rightarrow> scheduler \<Rightarrow> scheduler" where
  "handle_release e tenant key pool session s =
     (let hold_in = (if s_mode s = Shared then (if quiesced_reconcile_running s then Nowhere else InBackend)
                     else InPool);
          (s, step) = (case map_of (s_pools s) pool of
                         None \<Rightarrow> (s, StepRelease)
                       | Some p \<Rightarrow>
                           (let (p, step) = finish_step (e_dead e) (e_now e) tenant key session hold_in p
                            in (put_pool pool p s, step)));
          s = (case step of
                 StepHeld \<Rightarrow> s
               | StepRelease \<Rightarrow> release_slot e pool tenant key s
               | HoldInBackend session arrived \<Rightarrow> hold_in_backend e pool tenant key session arrived s)
      in publish_stats (dispatch_all e s))"

definition set_replicas :: "env \<Rightarrow> nat \<Rightarrow> scheduler \<Rightarrow> scheduler" where
  "set_replicas e replicas s =
     (if replicas = s_replicas s then s
      else (let was_multi = 1 < s_replicas s;
                s = s\<lparr>s_replicas := replicas\<rparr>;
                s = with_shared (\<lambda>c.
                      let c = (if was_multi \<noteq> (1 < replicas) then c\<lparr>sh_synced := False\<rparr> else c)
                      in if 1 < replicas \<and> \<not> sh_synced c then c\<lparr>sh_want_reconcile := True\<rparr> else c) s
            in publish_stats (dispatch_all e (maybe_start_reconcile (apply_mode s)))))"

definition set_model_caps :: "env \<Rightarrow> (string, nat) hmap \<Rightarrow> scheduler \<Rightarrow> scheduler" where
  "set_model_caps e caps s =
     (if set caps = set (s_model_caps s) then s
      else (let s = s\<lparr>s_pools := map (\<lambda>(k, p).
                        (k, case k of Unrouted \<Rightarrow> p
                            | Model name \<Rightarrow> (case map_of caps name of None \<Rightarrow> p | Some cap \<Rightarrow> set_configured_cap cap p)))
                      (s_pools s), s_model_caps := caps\<rparr>
            in publish_stats (dispatch_all e s)))"

definition configure_pool :: "session_affinity_config option \<Rightarrow> pool \<Rightarrow> pool \<times> hold list" where
  "configure_pool config p =
     (if p_affinity_source p = Scheduler
      then (let (a, gone) = af_configure config (p_affinity p) in (p\<lparr>p_affinity := a\<rparr>, gone))
      else (p, []))"

definition set_session_affinity :: "env \<Rightarrow> session_affinity_config option \<Rightarrow> scheduler \<Rightarrow> scheduler" where
  "set_session_affinity e config s =
     (let given_up = handed_back (\<lambda>p. snd (configure_pool config p)) s;
          s = each_pool (\<lambda>p. fst (configure_pool config p)) (s\<lparr>s_session_affinity := config\<rparr>)
      in publish_stats (dispatch_all e (release_given_up e given_up s)))"

definition shared_ctl_new :: "env \<Rightarrow> shared_slots_config \<Rightarrow> shared_ctl" where
  "shared_ctl_new e config =
     \<lparr>sh_config = config, sh_synced = False, sh_failing = False, sh_ops = 0, sh_want_reconcile = True,
      sh_reconciling = None, sh_deferred = [], sh_unrecorded = 0, sh_global_blocked = False,
      sh_retry_at = None, sh_next_reconcile = e_now e, sh_cluster_in_flight = None,
      sh_next_view = e_now e, sh_publishing_view = False, sh_view_failing = False\<rparr>"

definition enable_shared :: "env \<Rightarrow> shared_slots_config \<Rightarrow> scheduler \<Rightarrow> scheduler" where
  "enable_shared e config s =
     (if s_shared s \<noteq> None then s
      else publish_stats (dispatch_all e (maybe_start_reconcile
             (apply_mode (s\<lparr>s_shared := Some (shared_ctl_new e config)\<rparr>)))))"

definition wake :: "env \<Rightarrow> pool_key option \<Rightarrow> scheduler \<Rightarrow> scheduler" where
  "wake e pool s =
     (if s_mode s \<noteq> Shared then s
      else (let s = (case pool of Some key \<Rightarrow> with_pool key unblock s | None \<Rightarrow> unblock_all s)
            in publish_stats (dispatch_all e (with_shared (\<lambda>c. c\<lparr>sh_global_blocked := False\<rparr>) s))))"

fun handle :: "env \<Rightarrow> ctl \<Rightarrow> scheduler \<Rightarrow> scheduler" where
  "handle e (Admit pool req respond enqueued) s = handle_admit e pool req respond enqueued s"
| "handle e (Release tenant key pool session) s = handle_release e tenant key pool session s"
| "handle e (Snapshot respond) s = emit [ReplySnapshot respond (build_snapshot e s)] s"
| "handle e (Sample respond ts_ms) s = emit [ReplySample respond (build_sample ts_ms s)] s"
| "handle e (View respond) s = emit [ReplyView respond (local_view_of e s)] s"
| "handle e (SetReplicas replicas) s = set_replicas e replicas s"
| "handle e (SetModelCaps caps) s = set_model_caps e caps s"
| "handle e (SetSessionAffinity config) s = set_session_affinity e config s"
| "handle e (EnableShared config) s = enable_shared e config s"
| "handle e (Wake pool) s = wake e pool s"
| "handle e (AcquireDone pool i result) s = publish_stats (acquire_done e pool i result s)"
| "handle e (ReleaseDone pool result) s = publish_stats (release_done e pool result s)"
| "handle e (HoldDone pool result) s =
     publish_stats
       (case result of
          Inr (True, counts) \<Rightarrow> hold_done e pool counts (note_held s)
        | Inr (False, counts) \<Rightarrow> release_done e pool (Inr counts) s
        | Inl err \<Rightarrow> release_done e pool (Inl err) s)"
| "handle e (ReconcileDone result) s = publish_stats (reconcile_done e result s)"
| "handle e (ViewPublished result) s = view_published result s"

section \<open>Timers and the loop\<close>

definition shared_deadline :: "scheduler \<Rightarrow> instant option" where
  "shared_deadline s =
     (case s_shared s of
        None \<Rightarrow> None
      | Some c \<Rightarrow>
          list_min (List.map_filter id
            [sh_retry_at c,
             if sh_reconciling c = None \<and> \<not> sh_want_reconcile c then Some (sh_next_reconcile c) else None,
             if 1 < s_replicas s \<and> \<not> sh_publishing_view c then Some (sh_next_view c) else None]))"

definition shared_timer :: "env \<Rightarrow> scheduler \<Rightarrow> scheduler" where
  "shared_timer e s =
     (case s_shared s of
        None \<Rightarrow> s
      | Some c \<Rightarrow>
          (let retry = (case sh_retry_at c of None \<Rightarrow> False | Some t \<Rightarrow> t \<le> e_now e);
               c = (if retry then c\<lparr>sh_retry_at := None\<rparr> else c);
               c = (if sh_reconciling c = None \<and> \<not> sh_want_reconcile c \<and> sh_next_reconcile c \<le> e_now e
                    then c\<lparr>sh_want_reconcile := True,
                           sh_next_reconcile := e_now e + cf_reconcile_interval (sh_config c)\<rparr> else c);
               view_due = (1 < s_replicas s \<and> \<not> sh_publishing_view c \<and> sh_next_view c \<le> e_now e);
               s = s\<lparr>s_shared := Some c\<rparr>;
               s = (if retry then unblock_all s else s);
               s = dispatch_all e (maybe_start_reconcile s)
           in publish_stats (if view_due then publish_view e s else s)))"

definition sweep_pool :: "env \<Rightarrow> pool \<Rightarrow> pool \<times> nat" where
  "sweep_pool e p =
     (let (p, dropped) = prune_dead_waiters (e_dead e) p
      in (settle_idle (e_now e) (p\<lparr>p_affinity := af_prune (e_now e) (p_affinity p)\<rparr>), dropped))"

definition idle_expired :: "env \<Rightarrow> scheduler \<Rightarrow> pool_key list" where
  "idle_expired e s =
     hkeys (filter (\<lambda>(_, p). is_idle p \<and>
       (case p_idle_since p of None \<Rightarrow> False | Some t \<Rightarrow> s_idle_pool_ttl s \<le> e_now e - t)) (s_pools s))"

definition drop_pools :: "pool_key list \<Rightarrow> scheduler \<Rightarrow> scheduler" where
  "drop_pools expired s =
     (if expired = [] then s
      else (let s = fold (\<lambda>k s. publish_model_load k (s\<lparr>s_pools := AList.delete k (s_pools s)\<rparr>)) expired s;
                order = filter (contains_key (s_pools s)) (s_pool_order s)
            in s\<lparr>s_pool_order := order, s_cursor := (if order = [] then 0 else s_cursor s mod length order)\<rparr>))"

definition sweep :: "env \<Rightarrow> scheduler \<Rightarrow> scheduler" where
  "sweep e s =
     (let dropped = sum_list (map (\<lambda>p. snd (sweep_pool e p)) (hvals (s_pools s)));
          s = each_pool (\<lambda>p. fst (sweep_pool e p)) s;
          s = s\<lparr>s_queued_total := s_queued_total s - dropped\<rparr>;
          s = (if 0 < dropped then dispatch_all e s else s)
      in drop_pools (idle_expired e s) s)"

datatype event = Message ctl | Housekeeping | SharedTimer | HoldTimer

definition event_ready :: "env \<Rightarrow> event \<Rightarrow> scheduler \<Rightarrow> bool" where
  "event_ready e ev s =
     (case ev of
        SharedTimer \<Rightarrow> (case shared_deadline s of None \<Rightarrow> False | Some t \<Rightarrow> t \<le> e_now e)
      | HoldTimer \<Rightarrow> (case next_hold_expiry e s of None \<Rightarrow> False | Some t \<Rightarrow> t \<le> e_now e)
      | _ \<Rightarrow> True)"

fun turn :: "env \<Rightarrow> event \<Rightarrow> scheduler \<Rightarrow> scheduler" where
  "turn e (Message msg) s = handle e msg s"
| "turn e Housekeeping s = publish_stats (sweep e s)"
| "turn e SharedTimer s = shared_timer e s"
| "turn e HoldTimer s = publish_stats (dispatch_all e (expire_holds e s))"

section \<open>The handle\<close>

text \<open>What the \<open>FairShare\<close> handle sends, and what it makes of the answers.\<close>

definition fs_set_replicas :: "nat \<Rightarrow> ctl" where
  "fs_set_replicas replicas = SetReplicas (max replicas 1)"

definition fs_wake :: "string \<Rightarrow> ctl option" where
  "fs_wake i = map_option (\<lambda>pool. Wake (Some pool)) (from_slot_id i)"

definition fs_set_model_caps :: "(string, nat) hmap \<Rightarrow> ctl" where
  "fs_set_model_caps caps = SetModelCaps (map (\<lambda>(m, c). (m, max c 1)) caps)"

definition fs_admit :: "admit_request \<Rightarrow> respond \<Rightarrow> instant \<Rightarrow> ctl" where
  "fs_admit req respond now = Admit (Model (rq_model req)) req respond now"

definition fs_cluster_in_flight :: "stats \<Rightarrow> (slot_error + nat \<times> nat list) option \<Rightarrow> (nat \<times> nat list) option" where
  "fs_cluster_in_flight st answer =
     (if slot_mode_from_u8 (st_mode st) \<noteq> Shared then None
      else case answer of Some (Inr totals) \<Rightarrow> Some totals | _ \<Rightarrow> None)"

definition idle_row :: "string \<Rightarrow> nat \<Rightarrow> model_pool_fairshare" where
  "idle_row model cap =
     \<lparr>mp_model = model, mp_cap = cap, mp_configured_cap = cap, mp_in_flight = 0, mp_cluster_in_flight = None,
      mp_queued = 0, mp_borrowed = 0, mp_held = 0, mp_groups = [], mp_tenants = [], mp_keys = []\<rparr>"

definition add_idle :: "(string \<times> nat) \<Rightarrow> model_pool_fairshare list \<Rightarrow> model_pool_fairshare list" where
  "add_idle mc pools =
     (if list_ex (\<lambda>p. mp_model p = fst mc) pools then pools else pools @ [idle_row (fst mc) (snd mc)])"

definition fs_cluster_snapshot :: "local_view \<Rightarrow> peer_views \<Rightarrow> cluster_snapshot" where
  "fs_cluster_snapshot l peers =
     (let views = lv_view l # map pv_view (pvs_views peers);
          pools = fold add_idle (lv_pools l) (merge_views (lv_algorithm l) views (lv_ceiling l))
      in \<lparr>cs_pools = sort_key mp_model pools, cs_replicas_live = max (pvs_live peers) (length views),
          cs_replicas_reporting = length views,
          cs_max_age_ms = Max (set (0 # map pv_age_ms (pvs_views peers)))\<rparr>)"

definition fs_cluster_sample :: "stats \<Rightarrow> int \<Rightarrow> local_view \<Rightarrow> (slot_error + peer_views) \<Rightarrow> fairshare_sample option" where
  "fs_cluster_sample st ts_ms l answer =
     (if slot_mode_from_u8 (st_mode st) \<noteq> Shared then None
      else case answer of
             Inl _ \<Rightarrow> None
           | Inr peers \<Rightarrow> Some (from_views ts_ms (lv_view l # map pv_view (pvs_views peers))))"

end
