(* ===== verification/Pool_Frame.thy ===== *)
theory Pool_Frame
  imports Fair_Scheduler
begin

text \<open>
  What each pool operation does to the counters the scheduler reads, and what it leaves alone:
  the named collection \<open>pool_fields\<close>, and the counting lemmas for the dispatch loop, the probes
  and the redeemed holds.
\<close>

section \<open>What the pool operations leave alone\<close>

text \<open>The fields of a pool that only the scheduler changes.\<close>

type_synonym pool_sizes = "pool_key \<times> nat \<times> nat \<times> nat"

definition conf :: "pool \<Rightarrow> pool_sizes \<times> bool \<times> uuid list \<times> uuid list" where
  "conf p = ((p_key p, p_divisor p, p_cap p, p_configured_cap p), p_blocked p, p_blocked_tenants p, p_blocked_keys p)"

named_theorems pool_fields

lemma fields_forget [pool_fields]:
  "conf (forget_if_quiet t k p) = conf p" "p_in_flight (forget_if_quiet t k p) = p_in_flight p"
  "p_queued_total (forget_if_quiet t k p) = p_queued_total p" "p_pending (forget_if_quiet t k p) = p_pending p"
  by (simp_all add: forget_if_quiet_def forget_key_def forget_tenant_def conf_def Let_def)

lemma fields_vacate [pool_fields]:
  "conf (vacate t k p) = conf p" "p_in_flight (vacate t k p) = p_in_flight p - 1"
  "p_queued_total (vacate t k p) = p_queued_total p" "p_pending (vacate t k p) = p_pending p"
  by (simp_all add: vacate_def conf_def)

lemma fields_release [pool_fields]:
  "conf (release t k p) = conf p" "p_in_flight (release t k p) = p_in_flight p - 1"
  "p_queued_total (release t k p) = p_queued_total p" "p_pending (release t k p) = p_pending p"
  by (simp_all add: release_def pool_fields)

lemma fields_settle [pool_fields]:
  "conf (settle_idle now p) = conf p" "p_in_flight (settle_idle now p) = p_in_flight p"
  "p_queued_total (settle_idle now p) = p_queued_total p" "p_pending (settle_idle now p) = p_pending p"
  by (simp_all add: settle_idle_def reset_def conf_def)

lemma fields_charge [pool_fields]:
  "conf (charge t k c p) = conf p" "p_in_flight (charge t k c p) = p_in_flight p"
  "p_queued_total (charge t k c p) = p_queued_total p" "p_pending (charge t k c p) = p_pending p"
  by (simp_all add: charge_def conf_def Let_def)

lemma fields_occupy [pool_fields]:
  "conf (occupy t k c p) = conf p" "p_in_flight (occupy t k c p) = p_in_flight p + 1"
  "p_queued_total (occupy t k c p) = p_queued_total p" "p_pending (occupy t k c p) = p_pending p"
  by (simp_all add: occupy_def pool_fields) (simp add: conf_def)

lemma fields_track_meta [pool_fields]:
  "conf (track_meta r p) = conf p" "p_in_flight (track_meta r p) = p_in_flight p"
  "p_queued_total (track_meta r p) = p_queued_total p" "p_pending (track_meta r p) = p_pending p"
  "p_affinity (track_meta r p) = p_affinity p"
  by (simp_all add: track_meta_def conf_def)

lemma fields_track_waiter [pool_fields]:
  "conf (track_waiter_meta t k w p) = conf p" "p_in_flight (track_waiter_meta t k w p) = p_in_flight p"
  "p_queued_total (track_waiter_meta t k w p) = p_queued_total p" "p_pending (track_waiter_meta t k w p) = p_pending p"
  by (simp_all add: track_waiter_meta_def conf_def)

lemma fields_advance [pool_fields]:
  "conf (advance_virtual_time p) = conf p" "p_in_flight (advance_virtual_time p) = p_in_flight p"
  "p_queued_total (advance_virtual_time p) = p_queued_total p" "p_pending (advance_virtual_time p) = p_pending p"
  by (auto simp: advance_virtual_time_def conf_def split: option.splits)

lemma fields_grant_slot [pool_fields]:
  "conf (grant_slot t k w p) = conf p" "p_in_flight (grant_slot t k w p) = p_in_flight p + 1"
  "p_queued_total (grant_slot t k w p) = p_queued_total p" "p_pending (grant_slot t k w p) = p_pending p"
  by (simp_all add: grant_slot_def pool_fields)

lemma fields_affinity [pool_fields]:
  "conf (p\<lparr>p_affinity := a\<rparr>) = conf p" "conf (p\<lparr>p_probing := b\<rparr>) = conf p" "conf (p\<lparr>p_idle_since := i\<rparr>) = conf p"
  "conf (p\<lparr>p_cluster_in_flight := c\<rparr>) = conf p" "conf (p\<lparr>p_affinity_source := src\<rparr>) = conf p"
  "conf (p\<lparr>p_pending := pe\<rparr>) = conf p"
  by (simp_all add: conf_def)

lemma fields_pass_earlier [pool_fields]:
  "conf (pass_earlier t k a p) = conf p" "p_in_flight (pass_earlier t k a p) = p_in_flight p"
  "p_queued_total (pass_earlier t k a p) = p_queued_total p" "p_pending (pass_earlier t k a p) = p_pending p"
  by (auto simp: pass_earlier_def conf_def split: option.splits)

lemma fields_send [pool_fields]:
  "conf (fst (send_grant now g r ad w p)) = conf p" "p_in_flight (fst (send_grant now g r ad w p)) = p_in_flight p"
  "p_queued_total (fst (send_grant now g r ad w p)) = p_queued_total p" "p_pending (fst (send_grant now g r ad w p)) = p_pending p"
  by (simp_all add: send_grant_def pool_fields Let_def)

lemma fields_put_queue [pool_fields]:
  "conf (put_queue f t p) = conf p" "p_in_flight (put_queue f t p) = p_in_flight p"
  "p_queued_total (put_queue f t p) = p_queued_total p + 1" "p_pending (put_queue f t p) = p_pending p"
  by (simp_all add: put_queue_def conf_def)

lemma fields_place [pool_fields]:
  "conf (place_tenant t p) = conf p" "p_in_flight (place_tenant t p) = p_in_flight p"
  "p_queued_total (place_tenant t p) = p_queued_total p" "p_pending (place_tenant t p) = p_pending p"
  "conf (place_key k p) = conf p" "p_in_flight (place_key k p) = p_in_flight p"
  "p_queued_total (place_key k p) = p_queued_total p" "p_pending (place_key k p) = p_pending p"
  by (auto simp: place_tenant_def place_key_def conf_def Let_def split: option.splits)

lemma fields_enqueue [pool_fields]:
  "conf (enqueue req r e f p) = conf p" "p_in_flight (enqueue req r e f p) = p_in_flight p"
  "p_queued_total (enqueue req r e f p) = p_queued_total p + 1" "p_pending (enqueue req r e f p) = p_pending p"
  by (simp_all add: enqueue_def pool_fields Let_def)

lemma fields_requeue [pool_fields]:
  "conf (requeue c p) = conf p" "p_in_flight (requeue c p) = p_in_flight p - 1"
  "p_queued_total (requeue c p) = p_queued_total p + 1" "p_pending (requeue c p) = p_pending p"
  by (simp_all add: requeue_def pool_fields Let_def) (simp add: conf_def vacate_def)

lemma fields_grant_fast [pool_fields]:
  "conf (fst (grant_fast now req r p)) = conf p" "p_in_flight (fst (grant_fast now req r p)) = p_in_flight p + 1"
  "p_queued_total (fst (grant_fast now req r p)) = p_queued_total p" "p_pending (fst (grant_fast now req r p)) = p_pending p"
  by (simp_all add: grant_fast_def pool_fields)

lemma fields_grant_held [pool_fields]:
  "conf (fst (grant_held now h req r p)) = conf p" "p_in_flight (fst (grant_held now h req r p)) = p_in_flight p"
  "p_queued_total (fst (grant_held now h req r p)) = p_queued_total p" "p_pending (fst (grant_held now h req r p)) = p_pending p"
  by (simp_all add: grant_held_def pool_fields Let_def)

lemma fields_give_up [pool_fields]:
  "conf (fst (holds_to_give_up dead now p)) = conf p" "p_in_flight (fst (holds_to_give_up dead now p)) = p_in_flight p"
  "p_queued_total (fst (holds_to_give_up dead now p)) = p_queued_total p" "p_pending (fst (holds_to_give_up dead now p)) = p_pending p"
  by (simp_all add: holds_to_give_up_def pool_fields Let_def case_prod_beta')

lemma fields_finish [pool_fields]:
  "conf (fst (finish_step dead now t k se h p)) = conf p" "p_in_flight (fst (finish_step dead now t k se h p)) = p_in_flight p"
  "p_queued_total (fst (finish_step dead now t k se h p)) = p_queued_total p" "p_pending (fst (finish_step dead now t k se h p)) = p_pending p"
  by (auto simp: finish_step_def pool_fields Let_def split: prod.splits option.splits hold_in.splits)

lemma fields_unblock [pool_fields]:
  "fst (conf (unblock p)) = fst (conf p)" "p_in_flight (unblock p) = p_in_flight p"
  "p_queued_total (unblock p) = p_queued_total p" "p_pending (unblock p) = p_pending p"
  by (simp_all add: unblock_def conf_def)

lemma fields_pop:
  "pop_waiter t k i p = Some (p', w) \<Longrightarrow>
   conf p' = conf p \<and> p_in_flight p' = p_in_flight p \<and> p_pending p' = p_pending p \<and> p_affinity p' = p_affinity p"
  by (auto simp: pop_waiter_def conf_def split: option.splits)

section \<open>What dispatch does to the counters\<close>

lemma take_next_fields:
  "queues_ok p \<Longrightarrow> take_next dead now eff p = (p', r, d) \<Longrightarrow>
   conf p' = conf p \<and> p_pending p' = p_pending p \<and>
   p_queued_total p = p_queued_total p' + d + (if r = None then 0 else 1) \<and>
   p_in_flight p' = p_in_flight p + (if r = None then 0 else 1)"
proof (induction dead now eff p arbitrary: p' r d rule: take_next.induct)
  case (1 dead now eff p)
  show ?case
  proof (cases "eff \<le> p_in_flight p \<or> p_queued_total p = 0 \<or> pick_tenant eff p = None")
    case True
    then have "take_next dead now eff p = (p, None, 0)" by (subst take_next.simps) auto
    then show ?thesis using 1(3) by simp
  next
    case False
    then obtain t where t: "pick_tenant eff p = Some t" and go: "\<not> (eff \<le> p_in_flight p \<or> p_queued_total p = 0)" by auto
    obtain k p1 w where k: "pick_key p t = Some k" and pop: "pop_waiter t k (pick_waiter p t k now) p = Some (p1, w)"
      using picks_succeed [OF 1(2) t] by blast
    note P = fields_pop [OF pop] queues_ok_pop [OF 1(2) pop]
    show ?thesis
    proof (cases "dead (w_respond w)")
      case False
      then have "take_next dead now eff p = (grant_slot t k (w\<lparr>w_jumped := 0 < pick_waiter p t k now\<rparr>) p1,
          Some (t, k, w\<lparr>w_jumped := 0 < pick_waiter p t k now\<rparr>), 0)"
        using go t k pop by (subst take_next.simps) (simp add: Let_def)
      then show ?thesis using P 1(3) by (auto simp: pool_fields)
    next
      case True
      obtain p2 r2 d2 where r: "take_next dead now eff (forget_if_quiet t k p1) = (p2, r2, d2)"
        by (cases "take_next dead now eff (forget_if_quiet t k p1)") auto
      have eq: "take_next dead now eff p = (p2, r2, d2 + 1)"
        using go t k pop True r by (subst take_next.simps) (simp add: Let_def)
      have "queues_ok (forget_if_quiet t k p1)" using P queues_ok_cong same_queues_forget by blast
      from 1(1) [OF go t k refl pop refl True this r] show ?thesis using P 1(3) eq by (auto simp: pool_fields)
    qed
  qed
qed

lemma dispatch_one_fields:
  assumes "queues_ok p" and "dispatch_one dead now eff p = (p', ad, d)"
  shows "conf p' = conf p" "p_pending p' = p_pending p"
    "p_queued_total p = p_queued_total p' + d + (if ad = None then 0 else 1)"
    "p_in_flight p' = p_in_flight p + (if ad = None then 0 else 1)"
proof -
  obtain p1 r d1 where t: "take_next dead now eff p = (p1, r, d1)" by (cases "take_next dead now eff p") auto
  note T = take_next_fields [OF assms(1) t]
  have "conf p' = conf p \<and> p_pending p' = p_pending p \<and>
    p_queued_total p = p_queued_total p' + d + (if ad = None then 0 else 1) \<and>
    p_in_flight p' = p_in_flight p + (if ad = None then 0 else 1)"
  proof (cases r)
    case None
    then show ?thesis using T assms(2) t by (simp add: dispatch_one_def)
  next
    case (Some x)
    obtain tt k w where x: "x = (tt, k, w)" by (cases x) auto
    let ?sg = "send_grant now (grant_new tt k (w_session w) (w_jumped w)) (w_respond w) Queued (now - w_enqueued w) p1"
    have "p' = fst ?sg" "ad = Some (snd ?sg)" "d = d1"
      using assms(2) by (auto simp: dispatch_one_def t Some x case_prod_beta')
    then show ?thesis using T Some by (simp add: pool_fields)
  qed
  then show "conf p' = conf p" "p_pending p' = p_pending p"
    "p_queued_total p = p_queued_total p' + d + (if ad = None then 0 else 1)"
    "p_in_flight p' = p_in_flight p + (if ad = None then 0 else 1)" by simp_all
qed

lemma dispatch_one_pool:
  "queues_ok p \<Longrightarrow> dispatch_one dead now eff p = (p', Some a, d) \<Longrightarrow> pm_pool (ad_permit a) = p_key p"
proof -
  assume q: "queues_ok p" and d: "dispatch_one dead now eff p = (p', Some a, d)"
  obtain p1 r d1 where t: "take_next dead now eff p = (p1, r, d1)" by (cases "take_next dead now eff p") auto
  have "p_key p1 = p_key p" using take_next_fields [OF q t] by (simp add: conf_def)
  moreover have "pm_pool (ad_permit a) = p_key p1"
  proof (cases r)
    case None
    then show ?thesis using d by (simp add: dispatch_one_def t)
  next
    case (Some x)
    obtain tt k w where x: "x = (tt, k, w)" by (cases x) auto
    have "a = snd (send_grant now (grant_new tt k (w_session w) (w_jumped w)) (w_respond w) Queued (now - w_enqueued w) p1)"
      using d by (auto simp: dispatch_one_def t Some x case_prod_beta' Let_def simp del: send_grant_admitted)
    then show ?thesis by simp
  qed
  ultimately show ?thesis by simp
qed

lemma take_probe_fields:
  assumes "queues_ok p" and "0 < p_queued_total p" and "take_probe dead p = (p', r)"
  shows "conf p' = conf p \<and> p_pending p' = p_pending p \<and>
    p_queued_total p = p_queued_total p' + (if r = None then 0 else 1) \<and>
    p_in_flight p' = p_in_flight p + (if r = None then 0 else 1)"
proof (cases "probe_target dead p")
  case (Some x)
  obtain t k i where x: "x = (t, k, i)" by (cases x) auto
  obtain p1 w where pop: "pop_waiter t k i p = Some (p1, w)"
    using pop_waiter_Some probe_target_Some(1) [OF assms(1)] Some x by blast
  show ?thesis
    using assms(3) fields_pop [OF pop] queues_ok_pop(2) [OF assms(1) pop]
    by (auto simp: take_probe_def Some x pop Let_def pool_fields)
qed (use assms in \<open>auto simp: take_probe_def Let_def\<close>)

lemma af_redeem_present:
  "\<exists>h \<in> set (af_holds a). h_session h = se \<Longrightarrow>
   \<exists>a' h. af_redeem a (Some se) = (a', Some h) \<and> h_session h = se \<and> add_mset h (mset (af_holds a')) = mset (af_holds a)"
proof -
  assume "\<exists>h \<in> set (af_holds a). h_session h = se"
  then obtain i where i: "position (\<lambda>h. h_session h = se) (af_holds a) = Some i"
    by (cases "position (\<lambda>h. h_session h = se) (af_holds a)") (auto simp: position_None)
  from position_Some [OF i] i show ?thesis by (auto simp: af_redeem_def mset_swap_remove)
qed

definition sessions_held :: "pool \<Rightarrow> string multiset" where
  "sessions_held p = image_mset h_session (mset (af_holds (p_affinity p)))"

lemma affinity_rebill: "p_affinity (advance_virtual_time (charge t k c (track_waiter_meta t k w p))) = p_affinity p"
  by (auto simp: advance_virtual_time_def charge_def track_waiter_meta_def Let_def split: option.splits)

lemma alive_send: "alive dead (fst (send_grant now g r ad w p)) = alive dead p"
  by (simp add: alive_def waiting_send fun_eq_iff)

lemma alive_rebill: "alive dead (advance_virtual_time (charge t k c (track_waiter_meta t k w p))) = alive dead p"
  by (intro alive_cong) (simp add: same_queues_def advance_virtual_time_def charge_def track_waiter_meta_def Let_def split: option.splits)

lemma queues_rebill: "queues_ok (advance_virtual_time (charge t k c (track_waiter_meta t k w p))) = queues_ok p"
  by (intro queues_ok_cong) (simp add: same_queues_def advance_virtual_time_def charge_def track_waiter_meta_def Let_def split: option.splits)

lemma sessions_send: "sessions_held (fst (send_grant now g r ad w p)) = sessions_held p"
  using same_holds_send by (simp add: sessions_held_def same_holds_def)

text \<open>
  Redeeming a session's held slot: the hold is there (the \<open>expect\<close> of the source cannot fail),
  and one live waiter of the session leaves the queue with it.
\<close>

definition redeemed :: "(respond \<Rightarrow> bool) \<Rightarrow> pool \<Rightarrow> pool \<Rightarrow> uuid \<Rightarrow> uuid \<Rightarrow> string \<Rightarrow> admitted option \<Rightarrow> nat \<Rightarrow> bool" where
  "redeemed dead p p' t k se ad d \<longleftrightarrow>
     queues_ok p' \<and> conf p' = conf p \<and> p_pending p' = p_pending p \<and> p_in_flight p' = p_in_flight p \<and>
     p_queued_total p = p_queued_total p' + d + (if ad = None then 0 else 1) \<and>
     (case ad of
        None \<Rightarrow> sessions_held p' = sessions_held p \<and> alive dead p' = alive dead p
      | Some a \<Rightarrow> sessions_held p = add_mset se (sessions_held p') \<and> pm_pool (ad_permit a) = p_key p \<and>
          \<not> dead (ad_respond a) \<and>
          (\<forall>t' k'. mset (alive dead p t' k') =
             (if t' = t \<and> k' = k then add_mset (ad_respond a) (mset (alive dead p' t k)) else mset (alive dead p' t' k'))))"

lemma redeem_session_fields:
  "queues_ok p \<Longrightarrow> redeem_session dead now se t k p = (p', ad, d) \<Longrightarrow> se \<in># sessions_held p \<Longrightarrow>
   redeemed dead p p' t k se ad d"
proof (induction p arbitrary: p' ad d rule: measure_induct_rule [of "\<lambda>p. length (deque p t k)"])
  case (less p)
  show ?case
  proof (cases "find_session p t k se")
    case None
    then show ?thesis
      using less.prems by (auto simp: redeem_session.simps [of dead now se t k p] redeemed_def)
  next
    case (Some i)
    then obtain q w where pop: "pop_waiter t k i p = Some (q, w)"
      using pop_waiter_Some [of i p t k] by (auto simp: find_session_def dest: position_Some)
    note Q = fields_pop [OF pop] queues_ok_pop [OF less.prems(1) pop]
    have sess: "sessions_held q = sessions_held p" using Q by (simp add: sessions_held_def)
    show ?thesis
    proof (cases "dead (w_respond w)")
      case True
      then obtain d' where r: "redeem_session dead now se t k q = (p', ad, d')" and d: "d = d' + 1"
        using less.prems(2) Some pop
        by (auto simp: redeem_session.simps [of dead now se t k p] case_prod_beta' Let_def prod_eq_iff)
      have "redeemed dead q p' t k se ad d'"
        using less.IH [OF deque_pop [OF pop] Q(2) r] less.prems(3) sess by simp
      moreover have "p_key q = p_key p" using Q(1) by (simp add: conf_def)
      ultimately show ?thesis
        using Q alive_pop_dead [of p t k i q w dead, OF less.prems(1) pop True] d sess
        by (simp add: redeemed_def split: option.splits)
    next
      case False
      have "\<exists>h \<in> set (af_holds (p_affinity q)). h_session h = se"
        using less.prems(3) Q(1) by (auto simp: sessions_held_def)
      then obtain a h where r: "af_redeem (p_affinity q) (Some se) = (a, Some h)" and h: "h_session h = se"
        and m: "add_mset h (mset (af_holds a)) = mset (af_holds (p_affinity q))"
        using af_redeem_present by blast
      let ?q = "advance_virtual_time (charge t k (w_cost w) (track_waiter_meta t k w (q\<lparr>p_affinity := a\<rparr>)))"
      let ?s = "\<lambda>j. send_grant now (grant_new (h_tenant h) (h_key h) (w_session w) j) (w_respond w) Queued
        (now - w_enqueued w) ?q"
      obtain j where p': "p' = fst (?s j)" and ad: "ad = Some (snd (?s j))" and d: "d = 0"
        using less.prems(2) Some pop False r
        by (auto simp: redeem_session.simps [of dead now se t k p] Let_def case_prod_beta' simp del: send_grant_admitted)
      have c: "conf ?q = conf p" "p_pending ?q = p_pending p" "p_in_flight ?q = p_in_flight p"
        "p_queued_total p = p_queued_total ?q + 1" using Q by (simp_all add: pool_fields)
      have "sessions_held p = add_mset se (sessions_held ?q)"
        using sess h arg_cong [OF m, of "image_mset h_session"] by (simp add: sessions_held_def affinity_rebill)
      moreover have "queues_ok ?q" using Q(2) queues_ok_cong [OF same_queues_affinity [of a q]] by (simp add: queues_rebill)
      moreover have "alive dead ?q = alive dead q" using alive_cong [OF same_queues_affinity [of a q]] by (simp add: alive_rebill)
      moreover have "p_key ?q = p_key p" using c(1) by (simp add: conf_def)
      ultimately show ?thesis
        using c False alive_pop_live [of p t k i q w dead, OF less.prems(1) pop False]
        by (simp add: redeemed_def p' ad d pool_fields queues_ok_send sessions_send alive_send)
    qed
  qed
qed


lemma redeem_holds_fields:
  "queues_ok p \<Longrightarrow> redeem_holds dead now hs p = (p', ads, d) \<Longrightarrow> mset (map fst hs) \<subseteq># sessions_held p \<Longrightarrow>
   queues_ok p' \<and> conf p' = conf p \<and> p_pending p' = p_pending p \<and> p_in_flight p' = p_in_flight p \<and>
   p_queued_total p = p_queued_total p' + d + length ads \<and>
   (\<forall>a \<in> set ads. pm_pool (ad_permit a) = p_key p \<and> \<not> dead (ad_respond a))"
proof (induction hs arbitrary: p p' ads d)
  case (Cons x hs)
  obtain se t k where x: "x = (se, t, k)" by (cases x) auto
  have sub: "mset (map fst hs) \<subseteq># sessions_held p"
    using Cons.prems(3) subset_mset.trans [of "mset (map fst hs)" "mset (map fst (x # hs))"] by simp
  show ?case
  proof (cases "key_passed_out dead p t k")
    case True
    then have "redeem_holds dead now hs p = (p', ads, d)" using Cons.prems(2) x by simp
    then show ?thesis using Cons.IH [OF Cons.prems(1) _ sub] by blast
  next
    case False
    obtain p1 ad d1 where q: "redeem_session dead now se t k p = (p1, ad, d1)" by (cases "redeem_session dead now se t k p") auto
    obtain p2 ads2 d2 where r: "redeem_holds dead now hs p1 = (p2, ads2, d2)" by (cases "redeem_holds dead now hs p1") auto
    have e: "p' = p2" "ads = (case ad of None \<Rightarrow> ads2 | Some a \<Rightarrow> a # ads2)" "d = d1 + d2"
      using Cons.prems(2) False x q r by (auto split: prod.splits)
    have se: "se \<in># sessions_held p" using Cons.prems(3) x by (simp add: insert_subset_eq_iff)
    note R = redeem_session_fields [OF Cons.prems(1) q se]
    have "mset (map fst hs) \<subseteq># sessions_held p1"
      using R Cons.prems(3) sub x by (auto simp: redeemed_def split: option.splits)
    from Cons.IH [OF _ r this] R e show ?thesis by (auto simp: redeemed_def conf_def split: option.splits)
  qed
qed simp

lemma redeem_queued_fields:
  assumes "queues_ok p" and "redeem_queued dead now p = (p', ads, d)"
  shows "conf p' = conf p" "p_pending p' = p_pending p" "p_in_flight p' = p_in_flight p"
    "p_queued_total p = p_queued_total p' + d + length ads"
    "\<And>a. a \<in> set ads \<Longrightarrow> pm_pool (ad_permit a) = p_key p \<and> \<not> dead (ad_respond a)"
  using redeem_holds_fields [OF assms(1) assms(2) [unfolded redeem_queued_def]]
  by (simp_all add: sessions_held_def comp_def image_mset.compositionality)

lemma prune_fields:
  assumes "queues_ok p" and "prune_dead_waiters dead p = (p', n)"
  shows "conf p' = conf p" "p_pending p' = p_pending p" "p_in_flight p' = p_in_flight p"
    "p_queued_total p = p_queued_total p' + n"
proof -
  have f: "conf (fold (\<lambda>(t, k). forget_if_quiet t k) xs q) = conf q \<and>
    p_pending (fold (\<lambda>(t, k). forget_if_quiet t k) xs q) = p_pending q \<and>
    p_in_flight (fold (\<lambda>(t, k). forget_if_quiet t k) xs q) = p_in_flight q" for xs q
    by (induction xs arbitrary: q) (auto simp: pool_fields)
  show "conf p' = conf p" "p_pending p' = p_pending p" "p_in_flight p' = p_in_flight p"
    using assms(2) f by (auto simp: prune_eq [OF assms(1)]) (simp_all add: pruned_def conf_def)
  show "p_queued_total p = p_queued_total p' + n" using prune_correct(3) [OF assms] .
qed

end
