(* ===== verification/Sched_Inv.thy ===== *)
theory Sched_Inv
  imports Pool_Frame
begin

text \<open>
  The scheduler's invariant and that every message and timer preserves it: each pool accounts for
  its outstanding permits, the scheduler's totals are the sums over its pools, and the round-robin
  order lists each pool once.
\<close>

section \<open>The scheduler's accounts\<close>

text \<open>
  A taken slot is a pool with a tenant and a key. \<open>sched_inv P s\<close> is the invariant while a message
  is handled: \<open>P\<close> are the permits that were outstanding before it, and the grants sent since are in
  \<open>s_out\<close>. Each pool accounts for its own part of both, the scheduler's two totals are the sums
  over the pools, and the round-robin order lists every pool once.
\<close>

type_synonym taken = "pool_key \<times> slot"

definition in_pool :: "pool_key \<Rightarrow> taken multiset \<Rightarrow> slot multiset" where
  "in_pool k T = image_mset snd (filter_mset (\<lambda>x. fst x = k) T)"

definition ad_taken :: "admitted \<Rightarrow> taken" where
  "ad_taken a = (pm_pool (ad_permit a), ad_slot a)"

definition grants :: "effect list \<Rightarrow> admitted list" where
  "grants xs = List.map_filter (\<lambda>x. case x of SendGrant a \<Rightarrow> Some a | _ \<Rightarrow> None) xs"

definition sent :: "scheduler \<Rightarrow> taken multiset" where
  "sent s = image_mset ad_taken (mset (grants (s_out s)))"

definition fits :: "nat \<Rightarrow> nat \<Rightarrow> pool_key \<Rightarrow> slot multiset \<Rightarrow> pool \<Rightarrow> bool" where
  "fits d ids k P p \<longleftrightarrow> pool_inv P p \<and> p_key p = k \<and> p_divisor p = max d 1 \<and>
     p_cap p = replica_share (p_configured_cap p) d \<and> (\<forall>i \<in> set (hkeys (p_pending p)). i < ids)"

definition core :: "taken multiset \<Rightarrow> scheduler \<Rightarrow> bool" where
  "core T s \<longleftrightarrow> hmap_ok (s_pools s) \<and> mset (s_pool_order s) = mset (hkeys (s_pools s)) \<and>
     (\<forall>k. case map_of (s_pools s) k of
            None \<Rightarrow> in_pool k T = {#}
          | Some p \<Rightarrow> fits (s_divisor s) (s_next_op_id s) k (in_pool k T) p) \<and>
     s_in_flight s = msum p_in_flight (s_pools s) \<and> s_queued_total s = msum p_queued_total (s_pools s)"

definition sched_inv :: "taken multiset \<Rightarrow> scheduler \<Rightarrow> bool" where
  "sched_inv P s \<longleftrightarrow> core (P + sent s) s"

lemma in_pool_simps [simp]:
  "in_pool k {#} = {#}" "in_pool k (T + U) = in_pool k T + in_pool k U"
  "in_pool k (add_mset x T) = (if fst x = k then add_mset (snd x) (in_pool k T) else in_pool k T)"
  by (simp_all add: in_pool_def)

lemma grants_simps [simp]:
  "grants [] = []" "grants (SendGrant a # xs) = a # grants xs" "grants (xs @ ys) = grants xs @ grants ys"
  "grants (map SendGrant as) = as"
  by (induction as) (auto simp: grants_def List.map_filter_def)

lemma in_pool_each:
  "hmap_ok m \<Longrightarrow> in_pool k (mset (concat (map (\<lambda>(k, p). map (Pair k) (g p)) m))) =
     (case map_of m k of None \<Rightarrow> {#} | Some p \<Rightarrow> mset (g p))"
proof (induction m)
  case (Cons e m)
  obtain j p where e: "e = (j, p)" by (cases e)
  have own: "in_pool i (image_mset (Pair j) X) = (if i = j then X else {#})" for i and X :: "slot multiset"
    by (induction X) auto
  have "map_of m j = None" using Cons.prems e by (simp add: hmap_ok_def map_of_eq_None_iff)
  then show ?case using Cons e by (auto simp: hmap_ok_def own)
qed simp

text \<open>The part of the state the accounts are about.\<close>

definition ess :: "scheduler \<Rightarrow> _" where
  "ess s = (s_pools s, s_pool_order s, s_divisor s, s_next_op_id s, s_in_flight s, s_queued_total s, sent s)"

named_theorems ess_simps

lemma sched_inv_ess: "ess s' = ess s \<Longrightarrow> sched_inv P s' = sched_inv P s"
proof -
  assume "ess s' = ess s"
  then have eqs: "s_pools s' = s_pools s" "s_pool_order s' = s_pool_order s" "s_divisor s' = s_divisor s"
    "s_next_op_id s' = s_next_op_id s" "s_in_flight s' = s_in_flight s" "s_queued_total s' = s_queued_total s"
    "sent s' = sent s" by (simp_all add: ess_def)
  show ?thesis unfolding sched_inv_def core_def eqs by (rule refl)
qed

lemma ess_with_shared [ess_simps]: "ess (with_shared f s) = ess s"
  by (simp add: ess_def with_shared_def sent_def)

lemma ess_shared [ess_simps]: "ess (s\<lparr>s_shared := c\<rparr>) = ess s" "ess (s\<lparr>s_stats := st\<rparr>) = ess s"
  "ess (s\<lparr>s_mode := m\<rparr>) = ess s" "ess (s\<lparr>s_mode := m, s_stats := st\<rparr>) = ess s" "ess (s\<lparr>s_replicas := n\<rparr>) = ess s"
  "ess (s\<lparr>s_session_affinity := c'\<rparr>) = ess s"
  by (simp_all add: ess_def sent_def)

lemma ess_note_unrecorded [ess_simps]: "ess (note_unrecorded s) = ess s"
  by (simp add: note_unrecorded_def ess_simps)

lemma ess_load [ess_simps]: "ess (publish_model_load k s) = ess s"
  by (simp add: publish_model_load_def ess_def sent_def split: pool_key.splits)

lemma ess_stats [ess_simps]: "ess (publish_stats s) = ess s"
  by (simp add: publish_stats_def ess_simps)

lemma ess_note [ess_simps]: "ess (note_redeemed s) = ess s" "ess (note_held s) = ess s"
  by (simp_all add: note_redeemed_def note_held_def ess_simps Let_def)

lemma ess_cursor [ess_simps]: "ess (move_cursor s) = ess s"
  by (simp add: move_cursor_def ess_def sent_def)

definition quiet :: "effect \<Rightarrow> bool" where
  "quiet x = (case x of SendGrant _ \<Rightarrow> False | _ \<Rightarrow> True)"

lemma ess_emit [ess_simps]: "quiet x \<Longrightarrow> ess (emit [x] s) = ess s"
  by (cases x) (simp_all add: quiet_def emit_def ess_def sent_def grants_def List.map_filter_def)

lemma quiet_simps [simp]:
  "quiet (SpawnAcquire a b c)" "quiet (SpawnRelease a r)" "quiet (SpawnHold a r h)" "quiet (SpawnReconcile hs)"
  "quiet (SpawnPublish v d)" "quiet (ReplySnapshot q sn)" "quiet (ReplySample q sa)" "quiet (ReplyView q lv)"
  by (simp_all add: quiet_def)

lemma ess_spawn_release [ess_simps]: "ess (spawn_release sl s) = ess s"
  by (simp add: spawn_release_def ess_simps)

lemma ess_release_shared [ess_simps]: "ess (release_shared sl s) = ess s"
  by (simp add: release_shared_def ess_simps)

lemma ess_retry [ess_simps]: "ess (schedule_retry e s) = ess s"
  by (simp add: schedule_retry_def ess_simps)

lemma ess_reconcile [ess_simps]: "ess (maybe_start_reconcile s) = ess s"
  by (simp add: maybe_start_reconcile_def ess_simps split: option.splits)

lemma ess_one_op [ess_simps]: "ess (one_op_fewer s) = ess s"
  by (simp add: one_op_fewer_def ess_simps)

lemma ess_publish_view [ess_simps]: "ess (publish_view e s) = ess s" "ess (view_published r s) = ess s"
  by (simp_all add: publish_view_def view_published_def ess_simps split: option.splits)

lemma ess_spawn_acquire [ess_simps]: "ess (spawn_acquire c s) = ess s"
  by (simp add: spawn_acquire_def ess_simps)

lemma ess_send_claims [ess_simps]: "ess (send_claims cs s) = ess s"
  unfolding send_claims_def by (induction cs arbitrary: s) (auto simp: ess_simps)

section \<open>Changing one pool\<close>

lemma coreD: "core T s \<Longrightarrow> map_of (s_pools s) k = Some p \<Longrightarrow> fits (s_divisor s) (s_next_op_id s) k (in_pool k T) p"
  by (auto simp: core_def dest: spec [of _ k])

lemma fits_keep:
  "fits d ids k P p \<Longrightarrow> pool_inv P' p' \<Longrightarrow> fst (conf p') = fst (conf p) \<Longrightarrow> p_pending p' = p_pending p \<Longrightarrow> fits d ids k P' p'"
  by (simp add: fits_def conf_def)

lemma core_put:
  assumes "core T s" and "map_of (s_pools s) k = Some p" and "fits (s_divisor s) (s_next_op_id s') k (in_pool k T') p'"
    and "\<And>j. j \<noteq> k \<Longrightarrow> in_pool j T' = in_pool j T"
    and "s_pools s' = AList.update k p' (s_pools s)" "s_pool_order s' = s_pool_order s" "s_divisor s' = s_divisor s"
      "s_next_op_id s \<le> s_next_op_id s'"
    and "s_in_flight s' + p_in_flight p = s_in_flight s + p_in_flight p'"
    and "s_queued_total s' + p_queued_total p = s_queued_total s + p_queued_total p'"
  shows "core T' s'"
proof -
  have ok: "hmap_ok (s_pools s)" using assms(1) by (simp add: core_def)
  have "s_in_flight s' = msum p_in_flight (s_pools s')" "s_queued_total s' = msum p_queued_total (s_pools s')"
    using msum_update [OF ok, of p_in_flight k p'] msum_update [OF ok, of p_queued_total k p'] assms(1,2,5,9,10)
    by (simp_all add: core_def)
  moreover have "hkeys (s_pools s') = hkeys (s_pools s)"
    using assms(2,5) by (simp add: hkeys_def update_keys) (metis domI dom_map_of_conv_image_fst list.set_map)
  moreover have "case map_of (s_pools s') j of None \<Rightarrow> in_pool j T' = {#}
      | Some q \<Rightarrow> fits (s_divisor s') (s_next_op_id s') j (in_pool j T') q" for j
    using assms(1) assms(3-8) by (cases "j = k") (auto simp: core_def fits_def split: option.splits dest!: spec [of _ j] intro: less_le_trans)
  ultimately show ?thesis using assms(1,5,6) ok by (simp add: core_def)
qed

lemma core_each:
  assumes "core T s" and "s_pools s' = map (\<lambda>(k, p). (k, f k p)) (s_pools s)" "s_pool_order s' = s_pool_order s"
    and "\<And>k p. map_of (s_pools s) k = Some p \<Longrightarrow> fits (s_divisor s) (s_next_op_id s) k (in_pool k T) p \<Longrightarrow>
      fits (s_divisor s') (s_next_op_id s') k (in_pool k T') (f k p) \<and> p_in_flight (f k p) = p_in_flight p \<and>
      p_queued_total p = p_queued_total (f k p) + g p"
    and "\<And>k. map_of (s_pools s) k = None \<Longrightarrow> in_pool k T' = {#}"
    and "s_in_flight s' = s_in_flight s" and "s_queued_total s = s_queued_total s' + msum g (s_pools s)"
  shows "core T' s'"
proof -
  have ok: "hmap_ok (s_pools s)" using assms(1) by (simp add: core_def)
  have m: "map_of (s_pools s') k = map_option (f k) (map_of (s_pools s) k)" for k
  proof -
    have "map_of (map (\<lambda>(k, p). (k, f k p)) m) k = map_option (f k) (map_of m k)" for m by (induction m) auto
    then show ?thesis by (simp add: assms(2))
  qed
  have sums: "msum p_in_flight (map (\<lambda>(k, p). (k, f k p)) m) = msum p_in_flight m \<and>
      msum p_queued_total m = msum p_queued_total (map (\<lambda>(k, p). (k, f k p)) m) + msum g m"
    if "\<And>k p. (k, p) \<in> set m \<Longrightarrow> p_in_flight (f k p) = p_in_flight p \<and> p_queued_total p = p_queued_total (f k p) + g p" for m
    using that by (induction m) auto
  have each: "p_in_flight (f k p) = p_in_flight p \<and> p_queued_total p = p_queued_total (f k p) + g p"
    if "(k, p) \<in> set (s_pools s)" for k p
    using assms(4) [of k p] coreD [OF assms(1), of k p] that ok by (simp add: hmap_entry)
  note S = sums [of "s_pools s", OF each]
  have "s_in_flight s' = msum p_in_flight (s_pools s')" "s_queued_total s' = msum p_queued_total (s_pools s')"
    using S assms(1,2,6,7) by (simp_all add: core_def)
  moreover have "hkeys (s_pools s') = hkeys (s_pools s)" by (simp add: assms(2) hkeys_def comp_def case_prod_beta')
  moreover have "case map_of (s_pools s') j of None \<Rightarrow> in_pool j T' = {#}
      | Some q \<Rightarrow> fits (s_divisor s') (s_next_op_id s') j (in_pool j T') q" for j
    using assms(4) [of j] coreD [OF assms(1), of j] assms(5) [of j] by (auto simp: m split: option.splits)
  ultimately show ?thesis using assms(1,2,3) ok by (simp add: core_def)
qed

section \<open>Releasing slots\<close>

lemma pool_inv_counts: "pool_inv P p \<Longrightarrow> p_in_flight p = size P + af_held (p_affinity p) + length (p_pending p)"
  by (simp add: pool_inv_def slots_ok_def held_of_def pending_of_def af_held_def hvals_def)

lemma pool_le_sum: "core T s \<Longrightarrow> map_of (s_pools s) k = Some p \<Longrightarrow> p_in_flight p \<le> s_in_flight s \<and> p_queued_total p \<le> s_queued_total s"
  using msum_delete [of "s_pools s" p_in_flight k] msum_delete [of "s_pools s" p_queued_total k] by (simp add: core_def)

lemma taken_pool: "core T s \<Longrightarrow> (k, sl) \<in># T \<Longrightarrow> \<exists>p. map_of (s_pools s) k = Some p"
proof -
  assume c: "core T s" and "(k, sl) \<in># T"
  then have "sl \<in># in_pool k T" by (force simp: in_pool_def)
  then show ?thesis using c by (cases "map_of (s_pools s) k") (auto simp: core_def dest: spec [of _ k])
qed

text \<open>A pool whose taken slot \<open>(t, key)\<close> is given back.\<close>

lemma sched_inv_vacate:
  assumes inv: "sched_inv (add_mset (k, t, key) P) s" and p: "map_of (s_pools s) k = Some p"
    and s': "ess s' = ess ((put_pool k (settle_idle now (release t key p)) s)\<lparr>s_in_flight := s_in_flight s - 1\<rparr>)"
  shows "sched_inv P s'"
proof -
  have c: "core (add_mset (k, t, key) (P + sent s)) s" using inv by (simp add: sched_inv_def)
  note F = coreD [OF c p]
  have i: "pool_inv (add_mset (t, key) (in_pool k (P + sent s))) p" using F by (simp add: fits_def)
  have pos: "0 < p_in_flight p" using pool_inv_counts [OF i] by simp
  let ?p = "settle_idle now (release t key p)"
  let ?s = "(put_pool k ?p s)\<lparr>s_in_flight := s_in_flight s - 1\<rparr>"
  have "fits (s_divisor s) (s_next_op_id s) k (in_pool k (P + sent s)) ?p"
    using fits_keep [OF F pool_inv_settle [OF pool_inv_release [OF i]]] by (simp add: pool_fields)
  then have "core (P + sent s) ?s"
    using pool_le_sum [OF c p] pos by (intro core_put [OF c p, where p' = ?p]) (auto simp: put_pool_def pool_fields)
  then have "sched_inv P ?s" by (simp add: sched_inv_def sent_def put_pool_def)
  then show ?thesis using sched_inv_ess [OF s'] by simp
qed

lemma release_slot_inv: "sched_inv (add_mset (k, t, key) P) s \<Longrightarrow> sched_inv P (release_slot e k t key s)"
proof -
  assume inv: "sched_inv (add_mset (k, t, key) P) s"
  then obtain p where p: "map_of (s_pools s) k = Some p"
    using taken_pool [of "add_mset (k, t, key) P + sent s" s k "(t, key)"] by (auto simp: sched_inv_def)
  let ?s = "(put_pool k (settle_idle (e_now e) (release t key p)) s)\<lparr>s_in_flight := s_in_flight s - 1\<rparr>"
  have "with_pool k (\<lambda>p. settle_idle (e_now e) (release t key p)) (s\<lparr>s_in_flight := s_in_flight s - 1\<rparr>) = ?s"
    using p by (simp add: with_pool_def put_pool_def)
  then have "ess (release_slot e k t key s) = ess ?s" by (simp add: release_slot_def Let_def ess_simps)
  then show ?thesis using sched_inv_vacate [OF inv p] by simp
qed

definition given :: "(pool_key \<times> hold) list \<Rightarrow> taken multiset" where
  "given gs = image_mset (\<lambda>(k, h). (k, hold_slot h)) (mset gs)"

lemma given_simps [simp]: "given [] = {#}" "given ((k, h) # gs) = add_mset (k, hold_slot h) (given gs)"
  by (simp_all add: given_def)

lemma release_given_up_inv: "sched_inv (P + given gs) s \<Longrightarrow> sched_inv P (release_given_up e gs s)"
  unfolding release_given_up_def
proof (induction gs arbitrary: s)
  case (Cons x gs)
  obtain k h where x: "x = (k, h)" by (cases x)
  have "sched_inv (P + given gs) (release_slot e k (h_tenant h) (h_key h) s)"
    using release_slot_inv [of k "h_tenant h" "h_key h" "P + given gs" s e] Cons.prems x by (simp add: hold_slot_def)
  then show ?case using Cons.IH x by simp
qed simp

lemma in_pool_given:
  "hmap_ok (s_pools s) \<Longrightarrow> in_pool k (given (handed_back g s)) =
     (case map_of (s_pools s) k of None \<Rightarrow> {#} | Some p \<Rightarrow> image_mset hold_slot (mset (g p)))"
proof -
  assume ok: "hmap_ok (s_pools s)"
  have eq: "given (handed_back g s) = mset (concat (map (\<lambda>(k, p). map (Pair k) (map hold_slot (g p))) (s_pools s)))"
  proof -
    have "given (concat (map (\<lambda>(k, p). map (Pair k) (g p)) m)) =
      mset (concat (map (\<lambda>(k, p). map (Pair k) (map hold_slot (g p))) m))" for m
      by (induction m) (auto simp: given_def comp_def image_mset.compositionality)
    then show ?thesis by (simp add: handed_back_def)
  qed
  show ?thesis using in_pool_each [OF ok, of k "\<lambda>p. map hold_slot (g p)"] unfolding eq by (simp split: option.splits)
qed

text \<open>A round over the pools that hands back held slots and changes nothing else.\<close>

lemma each_pool_handback:
  assumes inv: "sched_inv P s"
    and keep: "\<And>p. fst (conf (f p)) = fst (conf p) \<and> p_pending (f p) = p_pending p \<and> p_in_flight (f p) = p_in_flight p \<and>
      p_queued_total (f p) = p_queued_total p"
    and hands: "\<And>X p. pool_inv X p \<Longrightarrow> pool_inv (X + image_mset hold_slot (mset (g p))) (f p)"
  shows "sched_inv (P + given (handed_back g s)) (each_pool f s)"
proof -
  have c: "core (P + sent s) s" using inv by (simp add: sched_inv_def)
  have ok: "hmap_ok (s_pools s)" using c by (simp add: core_def)
  have "core (P + sent s + given (handed_back g s)) (each_pool f s)"
  proof (rule core_each [OF c, where f = "\<lambda>_. f" and g = "\<lambda>_. 0"])
    fix k p assume p: "map_of (s_pools s) k = Some p" and F: "fits (s_divisor s) (s_next_op_id s) k (in_pool k (P + sent s)) p"
    have "pool_inv (in_pool k (P + sent s + given (handed_back g s))) (f p)"
      using hands [of "in_pool k (P + sent s)" p] F p in_pool_given [OF ok, of k g] by (simp add: fits_def)
    then show "fits (s_divisor (each_pool f s)) (s_next_op_id (each_pool f s)) k (in_pool k (P + sent s + given (handed_back g s))) (f p) \<and>
      p_in_flight (f p) = p_in_flight p \<and> p_queued_total p = p_queued_total (f p) + 0"
      using fits_keep [OF F] keep by (simp add: each_pool_def)
  next
    fix k assume n: "map_of (s_pools s) k = None"
    then show "in_pool k (P + sent s + given (handed_back g s)) = {#}"
      using c in_pool_given [OF ok, of k g] by (auto simp: core_def dest!: spec [of _ k])
  qed (simp_all add: each_pool_def msum_def)
  moreover have "sent (each_pool f s) = sent s" by (simp add: sent_def each_pool_def)
  ultimately show ?thesis by (simp add: sched_inv_def ac_simps)
qed

lemma expire_holds_inv: "sched_inv P s \<Longrightarrow> sched_inv P (expire_holds e s)"
proof -
  assume inv: "sched_inv P s"
  have "pool_inv (X + image_mset hold_slot (mset (snd (af_expire (e_now e) (p_affinity p))))) (expire_pool e p)"
    if "pool_inv X p" for X p
    unfolding expire_pool_def using pool_inv_handback [OF that] expire_back.conserve by blast
  then show ?thesis
    unfolding expire_holds_def
    by (intro release_given_up_inv each_pool_handback [OF inv]) (simp_all add: expire_pool_def pool_fields)
qed

lemma each_pool_same:
  assumes "sched_inv P s"
    and "\<And>p. fst (conf (f p)) = fst (conf p) \<and> p_pending (f p) = p_pending p \<and> p_in_flight (f p) = p_in_flight p \<and>
      p_queued_total (f p) = p_queued_total p"
    and "\<And>X p. pool_inv X p \<Longrightarrow> pool_inv X (f p)"
  shows "sched_inv P (each_pool f s)"
proof -
  have "given (handed_back (\<lambda>_. []) s) = {#}" by (simp add: handed_back_def given_def)
  then show ?thesis using each_pool_handback [OF assms(1), of f "\<lambda>_. []"] assms(2,3) by simp
qed

section \<open>Serving held slots\<close>

lemma serve_pool_inv:
  assumes "pool_inv X p" and "serve_pool e g p = (p', gone, ads, d)"
  shows "pool_inv (X + image_mset hold_slot (mset gone) + image_mset ad_slot (mset ads)) p'"
    and "conf p' = conf p" "p_pending p' = p_pending p" "p_in_flight p' = p_in_flight p"
    "p_queued_total p = p_queued_total p' + (length ads + d)"
    "\<And>a. a \<in> set ads \<Longrightarrow> pm_pool (ad_permit a) = p_key p"
proof -
  obtain p1 gone1 where h: "holds_to_give_up (e_dead e) (e_now e) p = (p1, gone1)" by fastforce
  obtain p2 ads2 d2 where r: "redeem_queued (e_dead e) (e_now e) p1 = (p2, ads2, d2)" by (cases "redeem_queued (e_dead e) (e_now e) p1") auto
  note H = holds_to_give_up_inv [OF assms(1) h]
  have c: "conf p1 = conf p" "p_pending p1 = p_pending p" "p_in_flight p1 = p_in_flight p" "p_queued_total p1 = p_queued_total p"
    using fields_give_up [of "e_dead e" "e_now e" p] h by simp_all
  have q: "queues_ok p1" using H by (simp add: pool_inv_def)
  note R = redeem_queued_inv [OF H r] redeem_queued_fields [OF q r]
  have k: "p_key p1 = p_key p" using c(1) by (simp add: conf_def)
  have e: "(p', gone, ads, d) = (if af_held (p_affinity p) = 0 then (p, [], [], 0) else if g then (p2, gone1, ads2, d2) else (p1, gone1, [], 0))"
    using assms(2) h r by (simp add: serve_pool_def split: if_splits)
  show "pool_inv (X + image_mset hold_slot (mset gone) + image_mset ad_slot (mset ads)) p'"
    and "conf p' = conf p" "p_pending p' = p_pending p" "p_in_flight p' = p_in_flight p"
    "p_queued_total p = p_queued_total p' + (length ads + d)"
    "\<And>a. a \<in> set ads \<Longrightarrow> pm_pool (ad_permit a) = p_key p"
    using e R H c k assms(1) by (auto simp: ac_simps split: if_splits)
qed

text \<open>The pools served, their grants sent, and nothing released yet.\<close>

definition serve_each :: "(pool \<Rightarrow> pool) \<Rightarrow> (pool \<Rightarrow> admitted list) \<Rightarrow> (pool \<Rightarrow> nat) \<Rightarrow> scheduler \<Rightarrow> scheduler" where
  "serve_each f ads d s =
     (emit (map SendGrant (concat (map ads (hvals (s_pools s))))) (each_pool f s))
       \<lparr>s_queued_total := s_queued_total s - sum_list (map (\<lambda>p. length (ads p) + d p) (hvals (s_pools s)))\<rparr>"

lemma serve_each_inv:
  assumes inv: "sched_inv P s" and sp: "\<And>p. serve_pool e g p = (f p, gone p, ads p, d p)"
  shows "sched_inv (P + given (handed_back gone s)) (serve_each f ads d s)"
proof -
  have c: "core (P + sent s) s" using inv by (simp add: sched_inv_def)
  have ok: "hmap_ok (s_pools s)" using c by (simp add: core_def)
  let ?all = "concat (map ads (hvals (s_pools s)))"
  let ?s = "serve_each f ads d s"
  let ?T = "P + sent s + given (handed_back gone s) + image_mset ad_taken (mset ?all)"
  have key: "p_key p = k" if "(k, p) \<in> set (s_pools s)" for k p
    using coreD [OF c, of k p] that ok by (simp add: fits_def hmap_entry)
  have pool_of: "ad_taken a = (p_key p, ad_slot a)" if "(k, p) \<in> set (s_pools s)" "a \<in> set (ads p)" for k p a
    using coreD [OF c, of k p] serve_pool_inv(6) [OF _ sp] that ok by (auto simp: fits_def hmap_entry ad_taken_def)
  have all: "image_mset ad_taken (mset ?all) = mset (concat (map (\<lambda>(k, p). map (Pair k) (map ad_slot (ads p))) (s_pools s)))"
  proof -
    have "image_mset ad_taken (mset (concat (map ads (hvals m)))) = mset (concat (map (\<lambda>(k, p). map (Pair k) (map ad_slot (ads p))) m))"
      if "set m \<subseteq> set (s_pools s)" for m
      using that
    proof (induction m)
      case (Cons x m)
      obtain k p where x: "x = (k, p)" by (cases x)
      have "image_mset ad_taken (mset (ads p)) = image_mset (Pair k) (image_mset ad_slot (mset (ads p)))"
        using pool_of [of k p] key [of k p] Cons.prems x by (auto simp: image_mset.compositionality intro!: image_mset_cong)
      then show ?case using Cons x by (simp add: hvals_def image_mset.compositionality)
    qed (simp add: hvals_def)
    then show ?thesis by simp
  qed
  have inp: "in_pool k (image_mset ad_taken (mset ?all)) = (case map_of (s_pools s) k of None \<Rightarrow> {#} | Some p \<Rightarrow> image_mset ad_slot (mset (ads p)))" for k
    using in_pool_each [OF ok, of k "\<lambda>p. map ad_slot (ads p)"] unfolding all by (simp split: option.splits)
  have "core ?T ?s"
  proof (rule core_each [OF c, where f = "\<lambda>_. f" and g = "\<lambda>p. length (ads p) + d p"])
    fix k p assume p: "map_of (s_pools s) k = Some p" and F: "fits (s_divisor s) (s_next_op_id s) k (in_pool k (P + sent s)) p"
    have i: "pool_inv (in_pool k (P + sent s)) p" using F by (simp add: fits_def)
    note S = serve_pool_inv [OF i sp]
    have "pool_inv (in_pool k ?T) (f p)" using S(1) p in_pool_given [OF ok, of k gone] inp [of k] by simp
    then show "fits (s_divisor ?s) (s_next_op_id ?s) k (in_pool k ?T) (f p) \<and> p_in_flight (f p) = p_in_flight p \<and>
        p_queued_total p = p_queued_total (f p) + (length (ads p) + d p)"
      using fits_keep [OF F] S(2-5) by (simp add: serve_each_def each_pool_def emit_def)
  next
    fix k assume "map_of (s_pools s) k = None"
    then show "in_pool k ?T = {#}"
      using c in_pool_given [OF ok, of k gone] inp [of k] by (auto simp: core_def dest!: spec [of _ k])
  next
    have "msum (\<lambda>p. length (ads p) + d p) m \<le> msum p_queued_total m" if "set m \<subseteq> set (s_pools s)" for m
      using that
    proof (induction m)
      case (Cons x m)
      obtain k p where x: "x = (k, p)" by (cases x)
      have "length (ads p) + d p \<le> p_queued_total p"
        using coreD [OF c, of k p] serve_pool_inv(5) [OF _ sp, of "in_pool k (P + sent s)" p] Cons.prems x ok
        by (auto simp: fits_def hmap_entry)
      then show ?case using Cons x by simp
    qed simp
    then have "msum (\<lambda>p. length (ads p) + d p) (s_pools s) \<le> s_queued_total s" using c by (simp add: core_def)
    then show "s_queued_total s = s_queued_total ?s + msum (\<lambda>p. length (ads p) + d p) (s_pools s)"
      by (simp add: serve_each_def msum_def hvals_def comp_def)
  qed (simp_all add: serve_each_def each_pool_def emit_def)
  then show ?thesis by (simp add: serve_each_def sched_inv_def sent_def emit_def each_pool_def ac_simps)
qed

lemma serve_holds_cases:
  obtains (none) "serve_holds e s = s"
  | (served) f gone ads d where "\<And>p. serve_pool e (\<not> quiescing s) p = (f p, gone p, ads p, d p)"
      "serve_holds e s = release_given_up e (handed_back gone s) (serve_each f ads d s)"
proof (cases "list_ex (\<lambda>p. 0 < af_held (p_affinity p)) (hvals (s_pools s))")
  case True
  let ?r = "serve_pool e (\<not> quiescing s)"
  have "serve_holds e s = release_given_up e (handed_back (\<lambda>p. fst (snd (?r p))) s)
      (serve_each (\<lambda>p. fst (?r p)) (\<lambda>p. fst (snd (snd (?r p)))) (\<lambda>p. snd (snd (snd (?r p)))) s)"
    using True unfolding serve_holds_def serve_each_def
    by (simp add: Let_def each_pool_def emit_def comp_def case_prod_beta')
  then show thesis by (intro served) simp_all
next
  case False
  then show thesis using none by (simp add: serve_holds_def)
qed

lemma serve_holds_inv: "sched_inv P s \<Longrightarrow> sched_inv P (serve_holds e s)"
  by (cases rule: serve_holds_cases [of e s]) (use release_given_up_inv serve_each_inv in force)+

section \<open>Dispatch outside shared mode\<close>

lemma sent_emit [simp]: "sent (emit [SendGrant a] s) = add_mset (ad_taken a) (sent s)"
  by (simp add: sent_def emit_def)

lemma sent_fields [simp]:
  "sent (put_pool k p s) = sent s" "sent (s\<lparr>s_queued_total := q\<rparr>) = sent s" "sent (s\<lparr>s_in_flight := n\<rparr>) = sent s"
  "sent (s\<lparr>s_next_op_id := i\<rparr>) = sent s" "sent (s\<lparr>s_pool_order := os\<rparr>) = sent s" "sent (s\<lparr>s_pools := m\<rparr>) = sent s"
  by (simp_all add: sent_def put_pool_def)

lemma sched_inv_put:
  assumes "sched_inv P s" and "map_of (s_pools s) k = Some p" and "fits (s_divisor s) (s_next_op_id s') k (in_pool k (P' + sent s')) p'"
    and "\<And>j. j \<noteq> k \<Longrightarrow> in_pool j (P' + sent s') = in_pool j (P + sent s)"
    and "s_pools s' = AList.update k p' (s_pools s)" "s_pool_order s' = s_pool_order s" "s_divisor s' = s_divisor s"
      "s_next_op_id s \<le> s_next_op_id s'"
    and "s_in_flight s' + p_in_flight p = s_in_flight s + p_in_flight p'"
    and "s_queued_total s' + p_queued_total p = s_queued_total s + p_queued_total p'"
  shows "sched_inv P' s'"
  using core_put [OF assms(1) [unfolded sched_inv_def] assms(2-10)] by (simp add: sched_inv_def)

lemma sched_invD:
  assumes "sched_inv P s" and "map_of (s_pools s) k = Some p"
  shows "fits (s_divisor s) (s_next_op_id s) k (in_pool k (P + sent s)) p" and "pool_inv (in_pool k (P + sent s)) p"
    and "queues_ok p" and "p_key p = k" and "p_in_flight p \<le> s_in_flight s" and "p_queued_total p \<le> s_queued_total s"
  using coreD [OF assms(1) [unfolded sched_inv_def] assms(2)] pool_le_sum [OF assms(1) [unfolded sched_inv_def] assms(2)]
  by (simp_all add: fits_def pool_inv_def)

lemma settle_if: "pool_inv X p \<Longrightarrow> pool_inv X (if b then settle_idle now p else p)"
  by (simp add: pool_inv_settle)

lemma fields_if [pool_fields]:
  "conf (if b then settle_idle now p else p) = conf p"
  "p_pending (if b then settle_idle now p else p) = p_pending p"
  "p_in_flight (if b then settle_idle now p else p) = p_in_flight p"
  "p_queued_total (if b then settle_idle now p else p) = p_queued_total p"
  by (simp_all add: pool_fields)

lemma local_visit_cases:
  obtains (idle) "local_visit e ceil i s = (s, False)"
      "map_of (s_pools s) (pool_at s i) = None \<or> (\<exists>p. map_of (s_pools s) (pool_at s i) = Some p \<and> p_queued_total p = 0)"
  | (none) p p' d where "map_of (s_pools s) (pool_at s i) = Some p" "0 < p_queued_total p"
      "dispatch_one (e_dead e) (e_now e) (effective_cap (ceil - s_in_flight s) p) p = (p', None, d)"
      "local_visit e ceil i s = ((put_pool (pool_at s i) (if 0 < d then settle_idle (e_now e) p' else p') s)\<lparr>s_queued_total := s_queued_total s - d\<rparr>, False)"
  | (grant) p p' a d s' where "map_of (s_pools s) (pool_at s i) = Some p" "0 < p_queued_total p"
      "dispatch_one (e_dead e) (e_now e) (effective_cap (ceil - s_in_flight s) p) p = (p', Some a, d)"
      "local_visit e ceil i s = (s', True)"
      "ess s' = ess ((emit [SendGrant a] (put_pool (pool_at s i) (if 0 < d then settle_idle (e_now e) p' else p') s))
         \<lparr>s_in_flight := s_in_flight s + 1, s_queued_total := s_queued_total s - d - 1\<rparr>)"
proof (cases "map_of (s_pools s) (pool_at s i)")
  case None
  then show thesis using idle by (simp add: local_visit_def)
next
  case (Some p)
  obtain p' ad d where x: "dispatch_one (e_dead e) (e_now e) (effective_cap (ceil - s_in_flight s) p) p = (p', ad, d)"
    by (cases "dispatch_one (e_dead e) (e_now e) (effective_cap (ceil - s_in_flight s) p) p") auto
  show thesis
  proof (cases "p_queued_total p = 0")
    case True
    then show thesis using idle Some by (simp add: local_visit_def)
  next
    case False
    show thesis
    proof (cases ad)
      case None
      then show thesis using none [OF Some _ x [unfolded None]] Some False x by (simp add: local_visit_def Let_def put_pool_def)
    next
      case (Some a)
      let ?p = "if 0 < d then settle_idle (e_now e) p' else p'"
      let ?s = "(emit [SendGrant a] (put_pool (pool_at s i) ?p s))
         \<lparr>s_in_flight := s_in_flight s + 1, s_queued_total := s_queued_total s - d - 1\<rparr>"
      let ?t = "emit [SendGrant a] ((put_pool (pool_at s i) ?p s)\<lparr>s_queued_total := s_queued_total s - d\<rparr>)"
      have "?t\<lparr>s_in_flight := s_in_flight ?t + 1, s_queued_total := s_queued_total ?t - 1\<rparr> = ?s"
        by (simp add: emit_def put_pool_def)
      then have "local_visit e ceil i s = (publish_model_load (pool_at s i) (note_unrecorded ?s), True)"
        using \<open>map_of (s_pools s) (pool_at s i) = Some p\<close> False x Some
        by (simp add: local_visit_def Let_def put_pool_def)
      then show thesis
        using grant [OF \<open>map_of (s_pools s) (pool_at s i) = Some p\<close> _ x [unfolded Some]] False by (simp add: ess_simps)
    qed
  qed
qed

lemma local_visit_inv: "sched_inv P s \<Longrightarrow> local_visit e ceil i s = (s', g) \<Longrightarrow> sched_inv P s'"
proof -
  assume inv: "sched_inv P s" and v: "local_visit e ceil i s = (s', g)"
  let ?k = "pool_at s i"
  show ?thesis
  proof (cases rule: local_visit_cases [of e ceil i s])
    case idle
    then show ?thesis using inv v by simp
  next
    case (none p p' d)
    note I = sched_invD [OF inv none(1)]
    note D = dispatch_one_inv [OF I(2) none(3)] dispatch_one_fields [OF I(3) none(3)]
    let ?p = "if 0 < d then settle_idle (e_now e) p' else p'"
    have "fits (s_divisor s) (s_next_op_id s) ?k (in_pool ?k (P + sent s)) ?p"
      using fits_keep [OF I(1) settle_if] D by (simp add: pool_fields)
    then show ?thesis
      using none(4) v D I(6)
      by (intro sched_inv_put [OF inv none(1), where p' = ?p]) (auto simp: put_pool_def pool_fields sent_def)
  next
    case (grant p p' a d t)
    note I = sched_invD [OF inv grant(1)]
    note D = dispatch_one_inv [OF I(2) grant(3)] dispatch_one_fields [OF I(3) grant(3)]
    have t: "ad_taken a = (?k, ad_slot a)" using dispatch_one_pool [OF I(3) grant(3)] I(4) by (simp add: ad_taken_def)
    let ?p = "if 0 < d then settle_idle (e_now e) p' else p'"
    let ?s = "(emit [SendGrant a] (put_pool ?k ?p s))\<lparr>s_in_flight := s_in_flight s + 1, s_queued_total := s_queued_total s - d - 1\<rparr>"
    have "fits (s_divisor s) (s_next_op_id s) ?k (add_mset (ad_slot a) (in_pool ?k (P + sent s))) ?p"
      using fits_keep [OF I(1) settle_if] D by (simp add: pool_fields ad_slot_def)
    moreover have "sent ?s = add_mset (?k, ad_slot a) (sent s)" using t by (simp add: sent_def emit_def put_pool_def)
    ultimately have "sched_inv P ?s"
      using D I(6) grant(2)
      by (intro sched_inv_put [OF inv grant(1), where p' = ?p]) (auto simp: put_pool_def emit_def pool_fields)
    then show ?thesis using grant(4,5) v sched_inv_ess [OF grant(5)] by simp
  qed
qed

lemma local_pass_inv: "sched_inv P s \<Longrightarrow> local_pass e ceil is s = (s', g) \<Longrightarrow> sched_inv P s'"
proof (induction "is" arbitrary: s s' g)
  case (Cons i "is")
  obtain s1 g1 where v: "local_visit e ceil i s = (s1, g1)" by fastforce
  obtain s2 g2 where r: "local_pass e ceil is s1 = (s2, g2)" by fastforce
  show ?case using Cons.prems Cons.IH [OF local_visit_inv [OF Cons.prems(1) v] r] v r by (auto split: if_splits)
qed simp

lemma local_loop_inv: "sched_inv P s \<Longrightarrow> sched_inv P (local_loop e ceil b s)"
proof (induction e ceil b s rule: local_loop.induct)
  case (1 e ceil b s)
  obtain s1 g where v: "local_pass e ceil [0..<length (s_pool_order s)] s = (s1, g)" by fastforce
  have "sched_inv P (move_cursor s1)" using local_pass_inv [OF 1(2) v] sched_inv_ess [OF ess_cursor] by simp
  then show ?case using 1(1) [OF _ v [symmetric] refl] 1(2) v by (subst local_loop.simps) simp
qed

section \<open>Dispatch in shared mode\<close>

lemma start_claim_inv:
  assumes inv: "sched_inv P s" and p: "map_of (s_pools s) k = Some p"
    and i: "pool_inv (add_mset (t, key) (in_pool k (P + sent s))) p'"
    and f: "conf p' = conf p" "p_pending p' = p_pending p" "p_in_flight p' = p_in_flight p + 1"
      "p_queued_total p = p_queued_total p' + d + 1"
    and c: "start_claim e k p' t key w h ro (s\<lparr>s_queued_total := s_queued_total s - d\<rparr>) = (s', cl)"
  shows "sched_inv P s'"
proof -
  note I = sched_invD [OF inv p]
  let ?c = "\<lparr>pc_tenant = t, pc_key = key, pc_waiter = w\<rparr>"
  let ?p = "p'\<lparr>p_pending := AList.update (s_next_op_id s) ?c (p_pending p')\<rparr>"
  have "map_of (p_pending p') (s_next_op_id s) = None"
  proof (rule ccontr)
    assume "map_of (p_pending p') (s_next_op_id s) \<noteq> None"
    then have "s_next_op_id s \<in> set (hkeys (p_pending p))" using f(2) by (auto simp: hkeys_def dest: map_of_SomeD intro: rev_image_eqI)
    then show False using I(1) by (auto simp: fits_def)
  qed
  then have "pool_inv (in_pool k (P + sent s)) ?p" using pool_inv_pending [of ?c] i by (simp add: claim_slot_def)
  moreover have "\<forall>j \<in> set (hkeys (p_pending ?p)). j < Suc (s_next_op_id s)"
    using I(1) f(2) by (auto simp: fits_def hkeys_def update_keys less_Suc_eq split: if_splits)
  ultimately have "fits (s_divisor s) (Suc (s_next_op_id s)) k (in_pool k (P + sent s)) ?p"
    using I(1) f(1) by (simp add: fits_def conf_def)
  then show ?thesis
    using c f(3,4) I(6)
    by (intro sched_inv_put [OF inv p, where p' = ?p]) (auto simp: start_claim_def Let_def put_pool_def sent_def)
qed

lemma shared_visit_inv: "sched_inv P s \<Longrightarrow> shared_visit e ceil mp i s = (s', cs) \<Longrightarrow> sched_inv P s'"
proof -
  assume inv: "sched_inv P s" and v: "shared_visit e ceil mp i s = (s', cs)"
  let ?k = "pool_at s i"
  show ?thesis
  proof (cases "map_of (s_pools s) ?k")
    case None
    then show ?thesis using inv v by (simp add: shared_visit_def)
  next
    case (Some p)
    note I = sched_invD [OF inv Some]
    obtain p1 r d where t: "take_next (e_dead e) (e_now e) (effective_cap (ceil - s_in_flight s) p) p = (p1, r, d)"
      by (cases "take_next (e_dead e) (e_now e) (effective_cap (ceil - s_in_flight s) p) p") auto
    note T = take_next_inv [OF I(2) t] take_next_fields [OF I(3) t]
    let ?p = "if 0 < d then settle_idle (e_now e) p1 else p1"
    let ?s = "s\<lparr>s_queued_total := s_queued_total s - d\<rparr>"
    show ?thesis
    proof (cases "p_queued_total p = 0 \<or> p_blocked p \<or> claim_limit mp p \<le> length (p_pending p)")
      case True
      then show ?thesis using inv v Some by (simp add: shared_visit_def)
    next
      case False
      show ?thesis
      proof (cases r)
        case None
        have "fits (s_divisor s) (s_next_op_id s) ?k (in_pool ?k (P + sent s)) ?p"
          using fits_keep [OF I(1) settle_if] T None by (simp add: pool_fields)
        moreover have "s' = put_pool ?k ?p ?s" using v Some False t None by (simp add: shared_visit_def)
        ultimately show ?thesis
          using T None I(6) by (intro sched_inv_put [OF inv Some, where p' = ?p]) (auto simp: put_pool_def pool_fields sent_def)
      next
        case (Some x)
        obtain tt key w where x: "x = (tt, key, w)" by (cases x) auto
        obtain s1 cl where c1: "start_claim e ?k ?p tt key w (holds_on (p_affinity ?p)) False ?s = (s1, cl)"
          by (cases "start_claim e ?k ?p tt key w (holds_on (p_affinity ?p)) False ?s") auto
        have c: "start_claim e ?k ?p tt key w (holds_on (p_affinity ?p)) False ?s = (s', cl)"
          using v \<open>map_of (s_pools s) ?k = Some p\<close> False t Some x c1
          by (simp add: shared_visit_def Let_def split del: if_split)
        have "pool_inv (add_mset (tt, key) (in_pool ?k (P + sent s))) ?p" using settle_if T(1) Some x by simp
        then show ?thesis
          using start_claim_inv [OF inv \<open>map_of (s_pools s) ?k = Some p\<close> _ _ _ _ _ c] T(2) Some by (simp add: pool_fields)
      qed
    qed
  qed
qed

lemma shared_pass_inv: "sched_inv P s \<Longrightarrow> shared_pass e ceil mp is s = (s', cs) \<Longrightarrow> sched_inv P s'"
proof (induction "is" arbitrary: s s' cs)
  case (Cons i "is")
  obtain s1 c1 where v: "shared_visit e ceil mp i s = (s1, c1)" by fastforce
  obtain s2 c2 where r: "shared_pass e ceil mp is s1 = (s2, c2)" by fastforce
  show ?case using Cons.prems Cons.IH [OF shared_visit_inv [OF Cons.prems(1) v] r] v r by (auto split: if_splits)
qed simp

lemma shared_loop_inv: "sched_inv P s \<Longrightarrow> shared_loop e ceil mp b s = (s', cs) \<Longrightarrow> sched_inv P s'"
proof (induction e ceil mp b s arbitrary: s' cs rule: shared_loop.induct)
  case (1 e ceil mp b s)
  obtain s1 c1 where v: "shared_pass e ceil mp [0..<length (s_pool_order s)] s = (s1, c1)" by fastforce
  obtain s2 c2 where r: "shared_loop e ceil mp (c1 \<noteq> []) (move_cursor s1) = (s2, c2)" by fastforce
  have m: "sched_inv P (move_cursor s1)" using shared_pass_inv [OF 1(2) v] sched_inv_ess [OF ess_cursor] by simp
  show ?case
    using 1(1) [OF _ v [symmetric] refl m r] 1(2,3) v r
    by (simp add: shared_loop.simps [of e ceil mp b s] split: if_splits)
qed

lemma probe_pool_inv: "sched_inv P s \<Longrightarrow> probe_pool e limit k s = (s', cs) \<Longrightarrow> sched_inv P s'"
proof (induction e limit k s arbitrary: s' cs rule: probe_pool.induct)
  case (1 e limit k s)
  show ?case
  proof (cases "map_of (s_pools s) k")
    case None
    then show ?thesis using 1 by (simp add: probe_pool.simps)
  next
    case (Some p)
    note I = sched_invD [OF 1(2) Some]
    obtain p1 r where t: "take_probe (e_dead e) p = (p1, r)" by fastforce
    show ?thesis
    proof (cases "p_queued_total p = 0 \<or> limit \<le> length (p_pending p)")
      case True
      then show ?thesis using 1 Some by (simp add: probe_pool.simps)
    next
      case False
      then have F: "conf p1 = conf p" "p_pending p1 = p_pending p" "p_queued_total p = p_queued_total p1 + (if r = None then 0 else 1)"
        "p_in_flight p1 = p_in_flight p + (if r = None then 0 else 1)"
        using take_probe_fields [OF I(3) _ t] by simp_all
      note T = take_probe_inv [OF I(2) t]
      show ?thesis
      proof (cases r)
        case None
        then have "s' = put_pool k p1 s" using 1(3) Some False t by (simp add: probe_pool.simps)
        then show ?thesis
          using fits_keep [OF I(1)] T F None
          by (intro sched_inv_put [OF 1(2) Some, where p' = p1]) (auto simp: put_pool_def sent_def)
      next
        case x: (Some x)
        obtain tt key w where xx: "x = (tt, key, w)" by (cases x) auto
        obtain s1 c where c: "start_claim e k p1 tt key w True True s = (s1, c)"
          by (cases "start_claim e k p1 tt key w True True s") auto
        obtain s2 cs2 where r2: "probe_pool e limit k s1 = (s2, cs2)" by fastforce
        have "sched_inv P s1"
          using start_claim_inv [OF 1(2) Some, where d = 0 and p' = p1] c T F x xx by simp
        from 1(1) [OF Some False t [symmetric] _ refl refl c [symmetric] refl this r2] 1(3) x xx
        show ?thesis using Some False t c r2 by (simp add: probe_pool.simps [of e limit k s])
      qed
    qed
  qed
qed

lemma probe_pools_inv: "sched_inv P s \<Longrightarrow> probe_pools e mp ks s = (s', cs) \<Longrightarrow> sched_inv P s'"
proof (induction ks arbitrary: s s' cs)
  case (Cons k ks)
  let ?r = "case map_of (s_pools s) k of None \<Rightarrow> (s, [])
    | Some p \<Rightarrow> if holds_on (p_affinity p) then probe_pool e (claim_limit mp p) k s else (s, [])"
  obtain s1 c1 where v: "?r = (s1, c1)" by fastforce
  obtain s2 c2 where r: "probe_pools e mp ks s1 = (s2, c2)" by fastforce
  have "sched_inv P s1" using v Cons.prems(1) probe_pool_inv by (auto split: option.splits if_splits)
  then show ?case using Cons.IH [OF _ r] Cons.prems(2) v r by auto
qed simp

lemma dispatch_shared_inv: "sched_inv P s \<Longrightarrow> sched_inv P (dispatch_shared e s)"
proof -
  assume inv: "sched_inv P s"
  show ?thesis
  proof (cases "quiescing s \<or> s_shared s = None \<or> s_pool_order s = []")
    case True
    then show ?thesis using inv by (auto simp: dispatch_shared_def split: option.splits)
  next
    case False
    then obtain c where c: "s_shared s = Some c" by auto
    let ?mp = "max (cf_max_pending_per_pool (sh_config c)) 1"
    obtain s1 c1 where l: "shared_loop e (ceil_of e s) ?mp (\<not> sh_global_blocked c) s = (s1, c1)" by fastforce
    obtain s2 c2 where r: "probe_pools e ?mp (s_pool_order s1) s1 = (s2, c2)" by fastforce
    have "sched_inv P s2" using probe_pools_inv [OF shared_loop_inv [OF inv l] r] .
    then show ?thesis using False c l r sched_inv_ess [OF ess_send_claims] by (simp add: dispatch_shared_def)
  qed
qed

lemma dispatch_all_inv: "sched_inv P s \<Longrightarrow> sched_inv P (dispatch_all e s)"
  using serve_holds_inv [of P s e] dispatch_shared_inv local_loop_inv by (simp add: dispatch_all_def Let_def)

section \<open>Modes\<close>

lemma with_pool_same:
  assumes inv: "sched_inv P s"
    and keep: "\<And>p. fst (conf (f p)) = fst (conf p) \<and> p_pending (f p) = p_pending p \<and> p_in_flight (f p) = p_in_flight p \<and>
      p_queued_total (f p) = p_queued_total p"
    and ok: "\<And>X p. pool_inv X p \<Longrightarrow> pool_inv X (f p)"
  shows "sched_inv P (with_pool k f s)"
proof (cases "map_of (s_pools s) k")
  case (Some p)
  note I = sched_invD [OF inv Some]
  have "fits (s_divisor s) (s_next_op_id s) k (in_pool k (P + sent s)) (f p)"
    using fits_keep [OF I(1) ok [OF I(2)]] keep by simp
  then have "sched_inv P (put_pool k (f p) s)"
    using keep by (intro sched_inv_put [OF inv Some, where p' = "f p"]) (auto simp: put_pool_def sent_def)
  then show ?thesis by (simp add: with_pool_def Some)
qed (use inv in \<open>simp add: with_pool_def\<close>)

lemma pool_inv_marks [simp]:
  "pool_inv X (unblock p) = pool_inv X p" "pool_inv X (p\<lparr>p_probing := b\<rparr>) = pool_inv X p"
  "pool_inv X (p\<lparr>p_cluster_in_flight := c\<rparr>) = pool_inv X p" "pool_inv X (p\<lparr>p_affinity_source := a\<rparr>) = pool_inv X p"
  "pool_inv X (p\<lparr>p_idle_since := i\<rparr>) = pool_inv X p" "pool_inv X (set_divisor d p) = pool_inv X p"
  "pool_inv X (set_configured_cap n p) = pool_inv X p" "pool_inv X (p\<lparr>p_blocked := b\<rparr>) = pool_inv X p"
  "pool_inv X (p\<lparr>p_blocked_tenants := ts\<rparr>) = pool_inv X p" "pool_inv X (p\<lparr>p_blocked_keys := ks\<rparr>) = pool_inv X p"
  by (simp_all add: pool_inv_def slots_ok_def queues_ok_def held_of_def pending_of_def unblock_def
      set_divisor_def set_configured_cap_def)

lemma unblock_all_inv: "sched_inv P s \<Longrightarrow> sched_inv P (unblock_all s)"
  unfolding unblock_all_def sched_inv_ess [OF ess_with_shared]
  by (rule each_pool_same) (simp_all add: pool_fields)

lemma leave_shared_inv: "sched_inv P s \<Longrightarrow> sched_inv P (leave_shared s)"
  unfolding leave_shared_def sched_inv_ess [OF ess_with_shared]
  by (rule each_pool_same) (simp_all add: pool_fields)

lemma share_max [simp]: "replica_share n (max d (Suc 0)) = replica_share n d"
  by (simp add: replica_share_def)

lemma set_divisor_inv:
  assumes "sched_inv P s"
  shows "sched_inv P (each_pool (set_divisor d) (s\<lparr>s_divisor := d\<rparr>))"
proof -
  have c: "core (P + sent s) s" using assms by (simp add: sched_inv_def)
  have "core (P + sent s) (each_pool (set_divisor d) (s\<lparr>s_divisor := d\<rparr>))"
  proof (rule core_each [OF c, where f = "\<lambda>_. set_divisor d" and g = "\<lambda>_. 0"])
    show "in_pool k (P + sent s) = {#}" if "map_of (s_pools s) k = None" for k
      using c that by (auto simp: core_def dest: spec [of _ k])
  qed (simp_all add: each_pool_def msum_def fits_def, simp_all add: set_divisor_def)
  then show ?thesis by (simp add: sched_inv_def sent_def each_pool_def)
qed

lemma apply_mode_inv:
  assumes "sched_inv P s"
  shows "sched_inv P (apply_mode s)"
proof -
  let ?s = "if wanted_divisor s \<noteq> s_divisor s then each_pool (set_divisor (wanted_divisor s)) (s\<lparr>s_divisor := wanted_divisor s\<rparr>) else s"
  have "sched_inv P ?s" using assms set_divisor_inv by simp
  then have "sched_inv P (if s_mode ?s = Shared then leave_shared ?s else ?s)" using leave_shared_inv by simp
  then show ?thesis
    using \<open>sched_inv P ?s\<close> unfolding apply_mode_def Let_def by (simp add: sched_inv_ess [OF ess_shared(4)])
qed

lemma shared_failed_inv: "sched_inv P s \<Longrightarrow> sched_inv P (shared_failed e s)"
  unfolding shared_failed_def by (simp add: apply_mode_inv sched_inv_ess [OF ess_with_shared])

section \<open>Answers of the backend\<close>

text \<open>A claim taken out of \<open>pending\<close>: its slot is in the caller's hand.\<close>

definition in_hand :: "taken multiset \<Rightarrow> pool_key \<Rightarrow> pending_claim \<Rightarrow> pool \<Rightarrow> pool \<Rightarrow> scheduler \<Rightarrow> bool" where
  "in_hand P k c p p' s \<longleftrightarrow> sched_inv P s \<and> map_of (s_pools s) k = Some p \<and>
     fits (s_divisor s) (s_next_op_id s) k (add_mset (claim_slot c) (in_pool k (P + sent s))) p' \<and>
     p_in_flight p' = p_in_flight p \<and> p_queued_total p' = p_queued_total p"

lemma in_hand_unpend:
  assumes "sched_inv P s" and "map_of (s_pools s) k = Some p" and "map_of (p_pending p) i = Some c"
  shows "in_hand P k c p (p\<lparr>p_pending := AList.delete i (p_pending p)\<rparr>) s"
proof -
  note I = sched_invD [OF assms(1,2)]
  have "set (hkeys (AList.delete i (p_pending p))) \<subseteq> set (hkeys (p_pending p))"
    by (auto simp: hkeys_def delete_keys)
  then show ?thesis
    using assms I(1) pool_inv_unpend [OF I(2) assms(3)] by (auto simp: in_hand_def fits_def)
qed

lemma in_hand_pos: "in_hand P k c p p' s \<Longrightarrow> 0 < p_in_flight p \<and> p_in_flight p \<le> s_in_flight s"
  using sched_invD(5) [of P s k p] pool_inv_counts [of "add_mset (claim_slot c) (in_pool k (P + sent s))" p']
  by (auto simp: in_hand_def fits_def)

lemma requeued_inv:
  assumes "in_hand P k c p p' s" and "pool_inv (in_pool k (P + sent s)) q" and "fst (conf q) = fst (conf p')" "p_pending q = p_pending p'"
    "p_in_flight q = p_in_flight p' - 1" "p_queued_total q = p_queued_total p' + 1"
  shows "sched_inv P (requeued k q s)"
proof -
  have inv: "sched_inv P s" and p: "map_of (s_pools s) k = Some p" using assms(1) by (simp_all add: in_hand_def)
  have "fits (s_divisor s) (s_next_op_id s) k (in_pool k (P + sent s)) q"
    using assms(1-4) fits_keep by (fastforce simp: in_hand_def)
  then show ?thesis
    using assms in_hand_pos [OF assms(1)]
    by (intro sched_inv_put [OF inv p, where p' = q]) (auto simp: requeued_def put_pool_def sent_def in_hand_def)
qed

lemma requeue_in_hand:
  "in_hand P k c p p' s \<Longrightarrow> pool_inv (in_pool k (P + sent s)) (requeue c p')"
  by (auto simp: in_hand_def fits_def intro: pool_inv_requeue)

lemma block_for_fields [simp]:
  "fst (conf (block_for d c p)) = fst (conf p)" "p_pending (block_for d c p) = p_pending p" "p_in_flight (block_for d c p) = p_in_flight p"
  "p_queued_total (block_for d c p) = p_queued_total p" "pool_inv X (block_for d c p) = pool_inv X p"
  by (cases d; simp add: block_for_def conf_def)+

lemma claim_granted_inv:
  assumes h: "in_hand P k c p p' s"
  shows "sched_inv P (claim_granted e k c r counts p' s)"
proof -
  have inv: "sched_inv P s" and p: "map_of (s_pools s) k = Some p" using h by (simp_all add: in_hand_def)
  let ?q = "(if r then p' else p'\<lparr>p_probing := False\<rparr>)\<lparr>p_cluster_in_flight := Some (cc_pool counts)\<rparr>"
  let ?w = "pc_waiter c"
  let ?g = "send_grant (e_now e) (grant_new (pc_tenant c) (pc_key c) (w_session ?w) (w_jumped ?w)) (w_respond ?w)
    (if w_fast ?w then Fast else Queued) (e_now e - w_enqueued ?w) ?q"
  let ?s = "emit [SendGrant (snd ?g)] (put_pool k (fst ?g) (if r then note_redeemed s else s))"
  have F: "fits (s_divisor s) (s_next_op_id s) k (add_mset (claim_slot c) (in_pool k (P + sent s))) p'"
    using h by (simp add: in_hand_def)
  have q: "conf ?q = conf p'" "p_pending ?q = p_pending p'" "p_in_flight ?q = p_in_flight p'" "p_queued_total ?q = p_queued_total p'"
    "pool_inv X ?q = pool_inv X p'" "p_key ?q = p_key p'" for X
    by (simp_all add: pool_fields)
  have "pool_inv (add_mset (claim_slot c) (in_pool k (P + sent s))) ?q" using F q(5) by (simp add: fits_def)
  from fits_keep [OF F pool_inv_send [OF this]]
  have G: "fits (s_divisor s) (s_next_op_id s) k (add_mset (claim_slot c) (in_pool k (P + sent s))) (fst ?g)"
    by (simp add: pool_fields q)
  have t: "ad_taken (snd ?g) = (k, claim_slot c)"
    using F q(6) by (simp add: ad_taken_def ad_slot_def claim_slot_def grant_new_def fits_def)
  have n: "ess (if r then note_redeemed s else s) = ess s" by (simp add: ess_simps)
  have "sched_inv P ?s"
    using G h n
    by (intro sched_inv_put [OF inv p, where p' = "fst ?g"])
      (auto simp: in_hand_def put_pool_def pool_fields q t emit_def ess_def sent_def simp del: send_grant_admitted)
  then show ?thesis
    unfolding claim_granted_def Let_def case_prod_beta'
    by (simp add: sched_inv_ess [OF ess_note_unrecorded] sched_inv_ess [OF ess_with_shared] del: send_grant_admitted)
qed

lemma claim_answered_inv:
  assumes h: "in_hand P k c p p' s"
  shows "sched_inv P (claim_answered e k c result p' s)"
proof -
  have x: "pool_inv (in_pool k P + in_pool k (sent s)) (requeue c p')" using requeue_in_hand [OF h] by simp
  have q: "sched_inv P (requeued k (requeue c p') s)"
    by (rule requeued_inv [OF h requeue_in_hand [OF h]]) (simp_all add: pool_fields)
  have q': "sched_inv P (requeued k ((requeue c p')\<lparr>p_cluster_in_flight := x\<rparr>) s)" for x
    by (rule requeued_inv [OF h]) (simp_all add: pool_fields x)
  have d: "sched_inv P (claim_denied e k c d counts p' s)" for d counts
    unfolding claim_denied_def Let_def sched_inv_ess [OF ess_retry] sched_inv_ess [OF ess_with_shared]
    by (rule requeued_inv [OF h]) (simp_all add: pool_fields x)
  show ?thesis
    using q q' d claim_granted_inv [OF h] shared_failed_inv [OF q]
    by (simp add: claim_answered_def split: sum.splits acquire_outcome.splits)
qed


lemma acquire_done_inv: "sched_inv P s \<Longrightarrow> sched_inv P (acquire_done e k i result s)"
proof -
  assume "sched_inv P s"
  then have inv: "sched_inv P (one_op_fewer s)" using sched_inv_ess [OF ess_one_op] by simp
  show ?thesis
  proof (cases "\<exists>p c. map_of (s_pools (one_op_fewer s)) k = Some p \<and> map_of (p_pending p) i = Some c")
    case True
    then obtain p c where p: "map_of (s_pools (one_op_fewer s)) k = Some p" and c: "map_of (p_pending p) i = Some c" by blast
    have "sched_inv P (claim_answered e k c result (p\<lparr>p_pending := AList.delete i (p_pending p)\<rparr>) (one_op_fewer s))"
      by (rule claim_answered_inv [OF in_hand_unpend [OF inv p c]])
    then show ?thesis
      using p c by (simp add: acquire_done_def Let_def dispatch_all_inv sched_inv_ess [OF ess_reconcile] sched_inv_ess [OF ess_load])
  next
    case False
    then show ?thesis using inv by (auto simp: acquire_done_def Let_def split: option.splits)
  qed
qed

lemma release_done_inv: "sched_inv P s \<Longrightarrow> sched_inv P (release_done e k result s)"
proof -
  assume "sched_inv P s"
  then have inv: "sched_inv P (one_op_fewer s)" using sched_inv_ess [OF ess_one_op] by simp
  have "sched_inv P (with_pool k (\<lambda>p. unblock (p\<lparr>p_cluster_in_flight := x\<rparr>)) (one_op_fewer s))" for x
    by (rule with_pool_same [OF inv]) (simp_all add: pool_fields)
  then show ?thesis
    using inv shared_failed_inv [OF inv] unfolding release_done_def Let_def
    by (intro dispatch_all_inv)
      (auto simp: sched_inv_ess [OF ess_reconcile] sched_inv_ess [OF ess_with_shared] split: sum.splits)
qed

lemma hold_done_inv: "sched_inv P s \<Longrightarrow> sched_inv P (hold_done e k counts s)"
proof -
  assume "sched_inv P s"
  then have inv: "sched_inv P (one_op_fewer s)" using sched_inv_ess [OF ess_one_op] by simp
  have "sched_inv P (with_pool k (\<lambda>p. p\<lparr>p_cluster_in_flight := x\<rparr>) (with_shared f (one_op_fewer s)))" for x f
    by (rule with_pool_same) (simp_all add: pool_fields inv sched_inv_ess [OF ess_with_shared])
  then show ?thesis
    using inv unfolding hold_done_def Let_def by (intro dispatch_all_inv) (simp add: sched_inv_ess [OF ess_reconcile])
qed

lemma reconcile_synced_inv: "sched_inv P s \<Longrightarrow> sched_inv P (reconcile_synced e run c s)"
proof -
  assume inv: "sched_inv P s"
  have f: "ess (fold (\<lambda>slot. if b then spawn_release slot else note_unrecorded) xs t) = ess t" for b xs t
    by (induction xs arbitrary: t) (auto simp: ess_simps)
  show ?thesis
    using apply_mode_inv [of P "s\<lparr>s_shared := c'\<rparr>" for c'] inv
    unfolding reconcile_synced_def Let_def
    by (intro unblock_all_inv) (simp add: sched_inv_ess [OF f] apply_mode_inv sched_inv_ess [OF ess_shared(1)])
qed

lemma reconcile_done_inv: "sched_inv P s \<Longrightarrow> sched_inv P (reconcile_done e result s)"
proof -
  assume inv: "sched_inv P s"
  have c: "sched_inv P (s\<lparr>s_shared := c\<rparr>)" for c using inv sched_inv_ess [OF ess_shared(1)] by simp
  show ?thesis
    using inv reconcile_synced_inv [OF c] shared_failed_inv [OF c] dispatch_all_inv
    by (auto simp: reconcile_done_def Let_def sched_inv_ess [OF ess_reconcile] intro!: dispatch_all_inv
        split: option.splits sum.splits reconcile_outcome.splits)
qed

section \<open>Messages\<close>

lemma update_new: "map_of m k = None \<Longrightarrow> AList.update k v m = m @ [(k, v)]"
  by (induction m) (auto split: if_splits)

lemma fits_new:
  "fits d ids k {#} ((set_divisor d (pool_new k alg cap))\<lparr>p_affinity := fst (af_configure c affinity_default)\<rparr>)"
proof -
  have "pool_inv {#} (set_divisor d (pool_new k alg cap))" by simp
  then have "pool_inv {#} ((set_divisor d (pool_new k alg cap))\<lparr>p_affinity := fst (af_configure c affinity_default)\<rparr>)"
    by (rule pool_inv_same_holds_affinity)
      (simp add: af_configure_def affinity_default_def Let_def set_divisor_def pool_new_def)
  then show ?thesis by (simp add: fits_def) (simp add: set_divisor_def pool_new_def hkeys_def)
qed

lemma pool_mut_inv: "sched_inv P s \<Longrightarrow> sched_inv P (pool_mut k s)"
proof (cases "contains_key (s_pools s) k")
  case False
  assume inv: "sched_inv P s"
  then have c: "core (P + sent s) s" by (simp add: sched_inv_def)
  have none: "map_of (s_pools s) k = None" using False by (simp add: contains_key_def)
  define p where "p = (set_divisor (s_divisor s) (pool_new k (s_algorithm s) (s_default_model_cap s)))
    \<lparr>p_affinity := fst (af_configure (s_session_affinity s) affinity_default)\<rparr>"
  have "p_affinity (set_divisor (s_divisor s) (pool_new k (s_algorithm s) (s_default_model_cap s))) = affinity_default"
    by (simp add: set_divisor_def pool_new_def)
  then have s': "pool_mut k s = (put_pool k p s)\<lparr>s_pool_order := s_pool_order s @ [k]\<rparr>"
    using False by (simp add: pool_mut_def p_def Let_def)
  have F: "fits (s_divisor s) (s_next_op_id s) k {#} p" unfolding p_def by (rule fits_new)
  have z: "p_in_flight p = 0" "p_queued_total p = 0" by (simp_all add: p_def set_divisor_def pool_new_def)
  have e: "in_pool k (P + sent s) = {#}" using c none by (auto simp: core_def dest: spec [of _ k])
  have pools: "s_pools (pool_mut k s) = s_pools s @ [(k, p)]" using none by (simp add: s' put_pool_def update_new)
  have "hmap_ok (s_pools s @ [(k, p)])" using c none by (simp add: core_def hmap_ok_def map_of_eq_None_iff)
  moreover have "case map_of (s_pools (pool_mut k s)) j of None \<Rightarrow> in_pool j (P + sent s) = {#}
      | Some q \<Rightarrow> fits (s_divisor s) (s_next_op_id s) j (in_pool j (P + sent s)) q" for j
  proof (cases "j = k")
    case True
    then show ?thesis using F e none by (simp add: s' put_pool_def)
  next
    case False
    then show ?thesis using c by (simp add: s' put_pool_def core_def)
  qed
  moreover have d: "s_divisor (pool_mut k s) = s_divisor s" "s_next_op_id (pool_mut k s) = s_next_op_id s"
    "s_in_flight (pool_mut k s) = s_in_flight s" "s_queued_total (pool_mut k s) = s_queued_total s"
    "s_pool_order (pool_mut k s) = s_pool_order s @ [k]" by (simp_all add: s' put_pool_def)
  moreover have "msum f (s_pools s @ [(k, p)]) = msum f (s_pools s) + f p" for f by (simp add: msum_def)
  ultimately have "core (P + sent s) (pool_mut k s)"
    using c z unfolding core_def d pools by (auto simp: hkeys_def)
  then show ?thesis by (simp add: sched_inv_def s' sent_def put_pool_def)
qed (simp add: pool_mut_def)

lemma pool_mut_has: "\<exists>p. map_of (s_pools (pool_mut k s)) k = Some p"
  by (auto simp: pool_mut_def contains_key_def put_pool_def Let_def)

text \<open>Reconfiguring one pool's affinity: the holds given up are the caller's to release.\<close>

lemma configure_one_inv:
  assumes inv: "sched_inv P s" and p: "map_of (s_pools s) k = Some p" and a: "af_configure c (p_affinity p) = (a, gone)"
  shows "sched_inv (P + given (map (Pair k) gone)) (put_pool k (p\<lparr>p_affinity := a\<rparr>) s)"
proof -
  note I = sched_invD [OF inv p]
  have "mset (af_holds a) + mset gone = mset (af_holds (p_affinity p))"
    using configure_back.conserve [of c "p_affinity p"] a by simp
  from pool_inv_handback [OF I(2) this]
  have i: "pool_inv (in_pool k (P + sent s) + image_mset hold_slot (mset gone)) (p\<lparr>p_affinity := a\<rparr>)" .
  have g: "in_pool j (given (map (Pair k) gone)) = (if j = k then image_mset hold_slot (mset gone) else {#})" for j
    by (induction gone) auto
  have "fits (s_divisor s) (s_next_op_id s) k (in_pool k (P + sent s) + image_mset hold_slot (mset gone)) (p\<lparr>p_affinity := a\<rparr>)"
    using fits_keep [OF I(1) i] by (simp add: pool_fields)
  then show ?thesis
    by (intro sched_inv_put [OF inv p, where p' = "p\<lparr>p_affinity := a\<rparr>"]) (auto simp: put_pool_def sent_def g ac_simps)
qed

lemma set_pool_affinity_inv: "sched_inv P s \<Longrightarrow> sched_inv P (set_pool_affinity e k src c s)"
proof -
  assume "sched_inv P s"
  let ?s = "with_pool k (\<lambda>p. p\<lparr>p_affinity_source := src\<rparr>) (pool_mut k s)"
  have inv: "sched_inv P ?s"
    by (rule with_pool_same [OF pool_mut_inv [OF \<open>sched_inv P s\<close>]]) (simp_all add: pool_fields)
  show ?thesis
  proof (cases "map_of (s_pools ?s) k")
    case None
    then show ?thesis using inv by (simp add: set_pool_affinity_def Let_def)
  next
    case (Some p)
    obtain a gone where a: "af_configure c (p_affinity p) = (a, gone)" by fastforce
    from release_given_up_inv [OF configure_one_inv [OF inv Some a]] show ?thesis
      using inv Some a by (simp add: set_pool_affinity_def Let_def)
  qed
qed

lemma admit_pool_fields:
  "p_pending (admit_pool k req s p) = p_pending p" "p_in_flight (admit_pool k req s p) = p_in_flight p"
  "p_queued_total (admit_pool k req s p) = p_queued_total p"
  by (simp_all add: admit_pool_def pool_fields) (simp_all add: set_configured_cap_def)

lemma fits_admit_pool: "fits d ids k X p \<Longrightarrow> fits d ids k X (admit_pool k' req s p)"
proof -
  assume F: "fits d ids k X p"
  have "pool_inv X (admit_pool k' req s p)" unfolding admit_pool_def using F by (intro pool_inv_track_meta) (simp add: fits_def)
  moreover have "conf (admit_pool k' req s p) = conf (set_configured_cap (admission_cap k' req s) p)"
    by (simp add: admit_pool_def pool_fields)
  ultimately show ?thesis using F by (simp add: fits_def conf_def admit_pool_fields set_configured_cap_def)
qed

lemma enqueue_inv:
  assumes inv: "sched_inv P s" and p: "map_of (s_pools s) k = Some p0"
    and F: "fits (s_divisor s) (s_next_op_id s) k (in_pool k (P + sent s)) p"
    and c: "p_in_flight p = p_in_flight p0" "p_queued_total p = p_queued_total p0"
  shows "sched_inv P ((put_pool k (enqueue req r t b p) s)\<lparr>s_queued_total := s_queued_total s + 1\<rparr>)"
proof -
  have i: "pool_inv (in_pool k (P + sent s)) p" using F by (simp add: fits_def)
  show ?thesis
    using fits_keep [OF F pool_inv_enqueue [OF i, of req r t b]] c
    by (intro sched_inv_put [OF inv p, where p' = "enqueue req r t b p"]) (auto simp: put_pool_def sent_def pool_fields)
qed

lemma admit_into_inv:
  assumes inv: "sched_inv P s" and p: "map_of (s_pools s) k = Some p0"
    and F: "fits (s_divisor s) (s_next_op_id s) k (in_pool k (P + sent s)) p"
    and c: "p_in_flight p = p_in_flight p0" "p_queued_total p = p_queued_total p0"
  shows "sched_inv P (admit_into e k req r t p s)"
proof -
  have i: "pool_inv (in_pool k (P + sent s)) p" and key: "p_key p = k" using F by (simp_all add: fits_def)
  note q = enqueue_inv [OF inv p F c]
  have f: "sched_inv P ((emit [SendGrant (snd (grant_fast now req r p))] (put_pool k (fst (grant_fast now req r p)) s))
      \<lparr>s_in_flight := s_in_flight s + 1\<rparr>)" for now
  proof -
    have "ad_taken (snd (grant_fast now req r p)) = (k, rq_tenant req, rq_key req)"
      using fields_occupy(1) [of "rq_tenant req" "rq_key req" "rq_cost req" p] key
      by (simp add: grant_fast_def ad_taken_def ad_slot_def grant_new_def conf_def)
    then show ?thesis
      using fits_keep [OF F pool_inv_grant_fast [OF i, of req now r]] c
      by (intro sched_inv_put [OF inv p, where p' = "fst (grant_fast now req r p)"])
        (auto simp: put_pool_def emit_def sent_def pool_fields)
  qed
  have h: "sched_inv P (emit [SendGrant (snd (grant_held now h req r (p\<lparr>p_affinity := a\<rparr>)))]
      (put_pool k (fst (grant_held now h req r (p\<lparr>p_affinity := a\<rparr>))) s))"
    if r: "af_redeem (p_affinity p) (rq_session req) = (a, Some h)" for a h now
  proof -
    have "ad_taken (snd (grant_held now h req r (p\<lparr>p_affinity := a\<rparr>))) = (k, hold_slot h)"
      using fields_charge(1) [of "h_tenant h" "h_key h" "rq_cost req" "p\<lparr>p_affinity := a\<rparr>"] key
      by (simp add: grant_held_def ad_taken_def ad_slot_def hold_slot_def grant_new_def Let_def conf_def)
    then show ?thesis
      using fits_keep [OF F pool_inv_grant_held [OF i r, of now req r]] c
      by (intro sched_inv_put [OF inv p, where p' = "fst (grant_held now h req r (p\<lparr>p_affinity := a\<rparr>))"])
        (auto simp: put_pool_def emit_def sent_def pool_fields)
  qed
  obtain a h' where x: "(if key_passed_out (e_dead e) p (rq_tenant req) (rq_key req) then (p_affinity p, None)
      else af_redeem (p_affinity p) (rq_session req)) = (a, h')" by fastforce
  show ?thesis
  proof (cases h')
    case None
    then show ?thesis
      using dispatch_all_inv [OF q] f unfolding admit_into_def x
      by (simp add: Let_def case_prod_beta' sched_inv_ess [OF ess_stats] sched_inv_ess [OF ess_load]
          sched_inv_ess [OF ess_note_unrecorded])
  next
    case (Some hh)
    then have "af_redeem (p_affinity p) (rq_session req) = (a, Some hh)" using x by (simp split: if_splits)
    from h [OF this] show ?thesis
      unfolding admit_into_def x by (simp add: Some Let_def case_prod_beta' sched_inv_ess [OF ess_stats])
  qed
qed


lemma handle_admit_inv: "sched_inv P s \<Longrightarrow> sched_inv P (handle_admit e k req r t s)"
proof -
  assume inv0: "sched_inv P s"
  let ?c = "request_affinity req s"
  let ?s = "pool_mut k (set_pool_affinity e k (rq_affinity (scope_session ?c req)) ?c s)"
  have inv: "sched_inv P ?s" using pool_mut_inv set_pool_affinity_inv inv0 by blast
  obtain p where p: "map_of (s_pools ?s) k = Some p" using pool_mut_has by blast
  have "sched_inv P (admit_into e k (scope_session ?c req) r t (admit_pool k (scope_session ?c req) ?s p) ?s)"
    using admit_into_inv [OF inv p fits_admit_pool [OF sched_invD(1) [OF inv p]]] by (simp add: admit_pool_fields)
  then show ?thesis using p by (simp add: handle_admit_def Let_def)
qed

lemma hold_in_backend_inv:
  "sched_inv (add_mset (k, t, key) P) s \<Longrightarrow> sched_inv P (hold_in_backend e k t key se a s)"
proof -
  assume inv: "sched_inv (add_mset (k, t, key) P) s"
  show ?thesis
  proof (cases "\<exists>p cfg. map_of (s_pools s) k = Some p \<and> af_config (p_affinity p) = Some cfg")
    case True
    then obtain p cfg where p: "map_of (s_pools s) k = Some p" and c: "af_config (p_affinity p) = Some cfg" by blast
    have "ess (hold_in_backend e k t key se a s) =
        ess ((put_pool k (settle_idle (e_now e) (release t key p)) s)\<lparr>s_in_flight := s_in_flight s - 1\<rparr>)"
      using p c by (simp add: hold_in_backend_def Let_def ess_simps) (simp add: put_pool_def)
    then show ?thesis by (rule sched_inv_vacate [OF inv p])
  next
    case False
    then have "hold_in_backend e k t key se a s = release_slot e k t key s"
      by (auto simp: hold_in_backend_def split: option.splits)
    then show ?thesis using release_slot_inv [OF inv] by simp
  qed
qed

text \<open>A finished step: the slot stays taken for its session, or is the caller's to release.\<close>

lemma finish_put_inv:
  assumes inv: "sched_inv (add_mset (k, t, key) P) s" and p: "map_of (s_pools s) k = Some p"
    and f: "finish_step (e_dead e) (e_now e) t key se hold_in p = (p1, step)"
  shows "sched_inv (case step of StepHeld \<Rightarrow> P | _ \<Rightarrow> add_mset (k, t, key) P) (put_pool k p1 s)"
proof -
  note I = sched_invD [OF inv p]
  have i: "pool_inv (add_mset (t, key) (in_pool k (P + sent s))) p" using I(2) by simp
  note S = finish_step_inv [OF i f]
  have F: "conf p1 = conf p" "p_pending p1 = p_pending p" "p_in_flight p1 = p_in_flight p" "p_queued_total p1 = p_queued_total p"
    using fields_finish [of "e_dead e" "e_now e" t key se hold_in p] f by simp_all
  have put: "sched_inv P' (put_pool k p1 s)"
    if "pool_inv (in_pool k (P' + sent s)) p1" "\<And>j. j \<noteq> k \<Longrightarrow> in_pool j P' = in_pool j P" for P'
    using fits_keep [OF I(1) that(1)] that(2) F
    by (intro sched_inv_put [OF inv p, where p' = p1]) (auto simp: put_pool_def sent_def)
  show ?thesis using S put [of P] put [of "add_mset (k, t, key) P"] by (cases step) auto
qed

lemma handle_release_inv:
  "sched_inv (add_mset (k, t, key) P) s \<Longrightarrow> sched_inv P (handle_release e t key k se s)"
proof -
  assume inv: "sched_inv (add_mset (k, t, key) P) s"
  then obtain p where p: "map_of (s_pools s) k = Some p"
    using taken_pool [of "add_mset (k, t, key) P + sent s" s k "(t, key)"] by (auto simp: sched_inv_def)
  define hold_in where "hold_in = (if s_mode s = Shared then (if quiesced_reconcile_running s then Nowhere else InBackend) else InPool)"
  obtain p1 step where f: "finish_step (e_dead e) (e_now e) t key se hold_in p = (p1, step)" by fastforce
  have "sched_inv P (case step of StepHeld \<Rightarrow> put_pool k p1 s | StepRelease \<Rightarrow> release_slot e k t key (put_pool k p1 s)
      | HoldInBackend session arrived \<Rightarrow> hold_in_backend e k t key session arrived (put_pool k p1 s))"
    using finish_put_inv [OF inv p f] release_slot_inv hold_in_backend_inv by (cases step) auto
  then show ?thesis
    using p f unfolding handle_release_def hold_in_def [symmetric]
    by (simp add: Let_def sched_inv_ess [OF ess_stats] dispatch_all_inv)
qed

definition sized :: "(string, nat) hmap \<Rightarrow> pool_key \<Rightarrow> pool \<Rightarrow> pool" where
  "sized caps k p =
     (case k of Unrouted \<Rightarrow> p
      | Model name \<Rightarrow> (case map_of caps name of None \<Rightarrow> p | Some cap \<Rightarrow> set_configured_cap cap p))"

lemma sized_inv:
  assumes inv: "sched_inv P s"
  shows "sched_inv P (s\<lparr>s_pools := map (\<lambda>(k, p). (k, sized caps k p)) (s_pools s), s_model_caps := caps\<rparr>)"
proof -
  let ?s = "s\<lparr>s_pools := map (\<lambda>(k, p). (k, sized caps k p)) (s_pools s), s_model_caps := caps\<rparr>"
  have c: "core (P + sent s) s" using inv by (simp add: sched_inv_def)
  have "core (P + sent s) ?s"
  proof (rule core_each [OF c, where f = "sized caps" and g = "\<lambda>_. 0"])
    show "in_pool k (P + sent s) = {#}" if "map_of (s_pools s) k = None" for k
      using c that by (auto simp: core_def dest: spec [of _ k])
  qed (auto simp: sized_def fits_def msum_def split: pool_key.splits option.splits, (simp add: set_configured_cap_def)+)
  then show ?thesis by (simp add: sched_inv_def sent_def)
qed

lemma set_model_caps_inv: "sched_inv P s \<Longrightarrow> sched_inv P (set_model_caps e caps s)"
  using dispatch_all_inv [OF sized_inv] unfolding set_model_caps_def sized_def
  by (simp add: sched_inv_ess [OF ess_stats] Let_def)

lemma fields_configure [pool_fields]:
  "conf (fst (configure_pool c p)) = conf p" "p_pending (fst (configure_pool c p)) = p_pending p"
  "p_in_flight (fst (configure_pool c p)) = p_in_flight p" "p_queued_total (fst (configure_pool c p)) = p_queued_total p"
  by (simp_all add: configure_pool_def case_prod_beta' Let_def pool_fields)

lemma configure_pool_inv:
  assumes "pool_inv X p"
  shows "pool_inv (X + image_mset hold_slot (mset (snd (configure_pool c p)))) (fst (configure_pool c p))"
proof -
  obtain a gone where a: "af_configure c (p_affinity p) = (a, gone)" by fastforce
  then show ?thesis
    using assms pool_inv_handback [OF assms, of a gone] configure_back.conserve [of c "p_affinity p"]
    by (simp add: configure_pool_def)
qed

lemma configure_each_inv:
  assumes "sched_inv P s"
  shows "sched_inv (P + given (handed_back (\<lambda>p. snd (configure_pool c p)) s))
      (each_pool (\<lambda>p. fst (configure_pool c p)) (s\<lparr>s_session_affinity := c\<rparr>))"
proof -
  have inv: "sched_inv P (s\<lparr>s_session_affinity := c\<rparr>)" using assms sched_inv_ess [OF ess_shared(6)] by simp
  have "handed_back g (s\<lparr>s_session_affinity := c\<rparr>) = handed_back g s" for g by (simp add: handed_back_def)
  then show ?thesis
    using each_pool_handback [OF inv, of "\<lambda>p. fst (configure_pool c p)" "\<lambda>p. snd (configure_pool c p)"] configure_pool_inv
    by (simp add: pool_fields)
qed

lemma set_session_affinity_inv: "sched_inv P s \<Longrightarrow> sched_inv P (set_session_affinity e c s)"
  using dispatch_all_inv [OF release_given_up_inv [OF configure_each_inv]]
  unfolding set_session_affinity_def Let_def by (simp add: sched_inv_ess [OF ess_stats])

lemma set_replicas_inv: "sched_inv P s \<Longrightarrow> sched_inv P (set_replicas e n s)"
  unfolding set_replicas_def Let_def
  by (auto simp: sched_inv_ess [OF ess_stats] sched_inv_ess [OF ess_reconcile] sched_inv_ess [OF ess_with_shared]
      sched_inv_ess [OF ess_shared(5)] intro!: dispatch_all_inv apply_mode_inv)

lemma enable_shared_inv: "sched_inv P s \<Longrightarrow> sched_inv P (enable_shared e c s)"
  unfolding enable_shared_def
  by (auto simp: sched_inv_ess [OF ess_stats] sched_inv_ess [OF ess_reconcile]
      sched_inv_ess [OF ess_shared(1)] intro!: dispatch_all_inv apply_mode_inv)

lemma wake_inv: "sched_inv P s \<Longrightarrow> sched_inv P (wake e k s)"
proof -
  assume inv: "sched_inv P s"
  have "sched_inv P (with_pool j unblock s)" for j by (rule with_pool_same [OF inv]) (simp_all add: pool_fields)
  then show ?thesis
    using inv unblock_all_inv [OF inv] unfolding wake_def Let_def
    by (auto simp: sched_inv_ess [OF ess_stats] sched_inv_ess [OF ess_with_shared] intro!: dispatch_all_inv split: option.splits)
qed

text \<open>Every message but a release keeps the accounts; a release takes its permit out of them.\<close>

lemma handle_inv:
  assumes "sched_inv P s" and "\<forall>t key k se. msg \<noteq> Release t key k se"
  shows "sched_inv P (handle e msg s)"
proof (cases msg)
  case (HoldDone k r)
  have "sched_inv P (note_held s)" using assms(1) sched_inv_ess [OF ess_note(2)] by simp
  then show ?thesis
    using hold_done_inv release_done_inv [OF assms(1)] HoldDone
    by (auto simp: sched_inv_ess [OF ess_stats] split: sum.splits prod.splits bool.splits)
qed (use assms in \<open>simp_all add: handle_admit_inv sched_inv_ess [OF ess_emit] sched_inv_ess [OF ess_stats]
      set_replicas_inv set_model_caps_inv set_session_affinity_inv enable_shared_inv wake_inv acquire_done_inv
      release_done_inv reconcile_done_inv sched_inv_ess [OF ess_publish_view(2)]\<close>)


section \<open>Timers\<close>

lemma shared_timer_inv: "sched_inv P s \<Longrightarrow> sched_inv P (shared_timer e s)"
proof -
  assume inv: "sched_inv P s"
  have "sched_inv P (dispatch_all e (maybe_start_reconcile (if b then unblock_all (s\<lparr>s_shared := c\<rparr>) else s\<lparr>s_shared := c\<rparr>)))" for b c
    using inv by (intro dispatch_all_inv)
      (simp add: sched_inv_ess [OF ess_reconcile] sched_inv_ess [OF ess_shared(1)] unblock_all_inv)
  then show ?thesis
    using inv by (auto simp: shared_timer_def Let_def sched_inv_ess [OF ess_stats] sched_inv_ess [OF ess_publish_view(1)]
        simp del: if_split split: option.splits)
qed

lemma sweep_pool_inv:
  assumes "pool_inv X p" and "sweep_pool e p = (p', d)"
  shows "pool_inv X p'" "conf p' = conf p" "p_pending p' = p_pending p" "p_in_flight p' = p_in_flight p"
    "p_queued_total p = p_queued_total p' + d"
proof -
  obtain p1 where r: "prune_dead_waiters (e_dead e) p = (p1, d)" and
    p': "p' = settle_idle (e_now e) (p1\<lparr>p_affinity := af_prune (e_now e) (p_affinity p1)\<rparr>)"
    using assms(2) by (auto simp: sweep_pool_def split: prod.splits)
  have q: "queues_ok p" using assms(1) by (simp add: pool_inv_def)
  have "af_holds (af_prune (e_now e) (p_affinity p1)) = af_holds (p_affinity p1)"
    by (simp add: af_prune_def split: option.splits)
  from pool_inv_settle [OF pool_inv_same_holds_affinity [OF pool_inv_prune [OF assms(1) r] this]]
  show "pool_inv X p'" by (simp add: p')
  show "conf p' = conf p" "p_pending p' = p_pending p" "p_in_flight p' = p_in_flight p" "p_queued_total p = p_queued_total p' + d"
    using prune_fields [OF q r] by (simp_all add: p' pool_fields)
qed

lemma drop_each:
  "s_pools (fold (\<lambda>k s. publish_model_load k (s\<lparr>s_pools := AList.delete k (s_pools s)\<rparr>)) ks s) = filter (\<lambda>(k, _). k \<notin> set ks) (s_pools s) \<and>
   s_pool_order (fold (\<lambda>k s. publish_model_load k (s\<lparr>s_pools := AList.delete k (s_pools s)\<rparr>)) ks s) = s_pool_order s \<and>
   s_divisor (fold (\<lambda>k s. publish_model_load k (s\<lparr>s_pools := AList.delete k (s_pools s)\<rparr>)) ks s) = s_divisor s \<and>
   s_next_op_id (fold (\<lambda>k s. publish_model_load k (s\<lparr>s_pools := AList.delete k (s_pools s)\<rparr>)) ks s) = s_next_op_id s \<and>
   s_in_flight (fold (\<lambda>k s. publish_model_load k (s\<lparr>s_pools := AList.delete k (s_pools s)\<rparr>)) ks s) = s_in_flight s \<and>
   s_queued_total (fold (\<lambda>k s. publish_model_load k (s\<lparr>s_pools := AList.delete k (s_pools s)\<rparr>)) ks s) = s_queued_total s \<and>
   sent (fold (\<lambda>k s. publish_model_load k (s\<lparr>s_pools := AList.delete k (s_pools s)\<rparr>)) ks s) = sent s"
proof (induction ks arbitrary: s)
  case (Cons k ks)
  let ?s = "publish_model_load k (s\<lparr>s_pools := AList.delete k (s_pools s)\<rparr>)"
  have "s_pools ?s = filter (\<lambda>(j, _). j \<noteq> k) (s_pools s)"
    by (auto simp: publish_model_load_def AList.delete_eq split: pool_key.splits intro!: filter_cong)
  moreover have "s_pool_order ?s = s_pool_order s" "s_divisor ?s = s_divisor s" "s_next_op_id ?s = s_next_op_id s"
    "s_in_flight ?s = s_in_flight s" "s_queued_total ?s = s_queued_total s" "sent ?s = sent s"
    by (simp_all add: publish_model_load_def sent_def split: pool_key.splits)
  ultimately show ?case using Cons.IH [of ?s] by (simp add: case_prod_beta' conj_commute)
qed simp

lemma drop_pools_inv:
  assumes inv: "sched_inv P s" and idle: "\<And>k. k \<in> set ks \<Longrightarrow> \<exists>p. map_of (s_pools s) k = Some p \<and> is_idle p"
  shows "sched_inv P (drop_pools ks s)"
proof -
  let ?m = "filter (\<lambda>(k, _). k \<notin> set ks) (s_pools s)"
  let ?T = "P + sent s"
  have c: "core ?T s" using inv by (simp add: sched_inv_def)
  have ok: "hmap_ok (s_pools s)" using c by (simp add: core_def)
  have zero: "p_in_flight p = 0 \<and> p_queued_total p = 0" if "(k, p) \<in> set (s_pools s)" "k \<in> set ks" for k p
    using idle [OF that(2)] that(1) ok by (auto simp: hmap_entry is_idle_def)
  have sums: "msum p_in_flight ?m = msum p_in_flight (s_pools s)" "msum p_queued_total ?m = msum p_queued_total (s_pools s)"
  proof -
    have "msum p_in_flight (filter (\<lambda>(k, _). k \<notin> set ks) m) = msum p_in_flight m \<and>
      msum p_queued_total (filter (\<lambda>(k, _). k \<notin> set ks) m) = msum p_queued_total m" if "set m \<subseteq> set (s_pools s)" for m
      using that zero by (induction m) auto
    then show "msum p_in_flight ?m = msum p_in_flight (s_pools s)" "msum p_queued_total ?m = msum p_queued_total (s_pools s)" by auto
  qed
  have keys: "contains_key ?m k \<longleftrightarrow> k \<notin> set ks" if "k \<in> set (hkeys (s_pools s))" for k
  proof -
    have "k \<in> fst ` set ?m \<longleftrightarrow> k \<notin> set ks" using that by (force simp: hkeys_def)
    then show ?thesis by (metis contains_key_def map_of_eq_None_iff)
  qed
  have "mset (filter (contains_key ?m) (s_pool_order s)) = mset (filter (contains_key ?m) (hkeys (s_pools s)))"
    using c by (simp add: core_def)
  also have "filter (contains_key ?m) (hkeys (s_pools s)) = filter (\<lambda>k. k \<notin> set ks) (hkeys (s_pools s))"
    using keys by (auto intro: filter_cong)
  also have "\<dots> = hkeys ?m" by (simp add: hkeys_def filter_map comp_def case_prod_beta')
  finally have order: "mset (filter (contains_key ?m) (s_pool_order s)) = mset (hkeys ?m)" .
  have each: "case map_of ?m j of None \<Rightarrow> in_pool j ?T = {#} | Some q \<Rightarrow> fits (s_divisor s) (s_next_op_id s) j (in_pool j ?T) q" for j
  proof (cases "j \<in> set ks")
    case True
    then obtain p where p: "map_of (s_pools s) j = Some p" "is_idle p" using idle by blast
    have "map_of ?m j = None" using True by (auto simp: map_of_eq_None_iff)
    moreover have "in_pool j ?T = {#}"
      using pool_inv_counts [of "in_pool j ?T" p] coreD [OF c p(1)] p(2) by (simp add: fits_def is_idle_def)
    ultimately show ?thesis by simp
  next
    case False
    then have "map_of (filter (\<lambda>(k, _). k \<notin> set ks) m) j = map_of m j" for m :: "(pool_key, pool) hmap"
      by (induction m) auto
    then show ?thesis using c by (simp add: core_def)
  qed
  show ?thesis
  proof (cases "ks = []")
    case True
    then show ?thesis using inv by (simp add: drop_pools_def)
  next
    case False
    then have eqs: "s_pools (drop_pools ks s) = ?m" "s_pool_order (drop_pools ks s) = filter (contains_key ?m) (s_pool_order s)"
      "s_divisor (drop_pools ks s) = s_divisor s" "s_next_op_id (drop_pools ks s) = s_next_op_id s"
      "s_in_flight (drop_pools ks s) = s_in_flight s" "s_queued_total (drop_pools ks s) = s_queued_total s"
      using drop_each [of ks s] by (simp_all add: drop_pools_def Let_def)
    have "core ?T (drop_pools ks s)"
      using each order sums c ok unfolding core_def eqs by auto
    moreover have "sent (drop_pools ks s) = sent s" using drop_each [of ks s] False by (simp add: drop_pools_def Let_def sent_def)
    ultimately show ?thesis by (simp add: sched_inv_def)
  qed
qed

lemma idle_expired_idle:
  "hmap_ok (s_pools s) \<Longrightarrow> k \<in> set (idle_expired e s) \<Longrightarrow> \<exists>p. map_of (s_pools s) k = Some p \<and> is_idle p"
  by (auto simp: idle_expired_def hkeys_def hmap_ok_def)

definition sweep_each :: "env \<Rightarrow> scheduler \<Rightarrow> scheduler \<times> nat" where
  "sweep_each e s =
     (let n = sum_list (map (\<lambda>p. snd (sweep_pool e p)) (hvals (s_pools s)))
      in ((each_pool (\<lambda>p. fst (sweep_pool e p)) s)\<lparr>s_queued_total := s_queued_total s - n\<rparr>, n))"

lemma sweep_each_inv:
  assumes inv: "sched_inv P s"
  shows "sched_inv P (fst (sweep_each e s))"
proof -
  define f where "f = (\<lambda>p. fst (sweep_pool e p))"
  define d where "d = (\<lambda>p. snd (sweep_pool e p))"
  have sp: "sweep_pool e p = (f p, d p)" for p by (simp add: f_def d_def)
  let ?n = "sum_list (map d (hvals (s_pools s)))"
  let ?s = "(each_pool f s)\<lparr>s_queued_total := s_queued_total s - ?n\<rparr>"
  have c: "core (P + sent s) s" using inv by (simp add: sched_inv_def)
  have ok: "hmap_ok (s_pools s)" using c by (simp add: core_def)
  have le: "msum d (s_pools s) \<le> s_queued_total s"
  proof -
    have "msum d m \<le> msum p_queued_total m" if "set m \<subseteq> set (s_pools s)" for m
      using that
    proof (induction m)
      case (Cons x m)
      obtain k p where x: "x = (k, p)" by (cases x)
      have "d p \<le> p_queued_total p"
        using coreD [OF c, of k p] sweep_pool_inv(5) [OF _ sp, of "in_pool k (P + sent s)" p] Cons.prems x ok by (auto simp: fits_def hmap_entry)
      then show ?case using Cons x by simp
    qed simp
    then show ?thesis using c by (simp add: core_def)
  qed
  have "core (P + sent s) ?s"
  proof (rule core_each [OF c, where f = "\<lambda>_. f" and g = d])
    fix k p assume F: "fits (s_divisor s) (s_next_op_id s) k (in_pool k (P + sent s)) p"
    then have i: "pool_inv (in_pool k (P + sent s)) p" by (simp add: fits_def)
    show "fits (s_divisor ?s) (s_next_op_id ?s) k (in_pool k (P + sent s)) (f p) \<and> p_in_flight (f p) = p_in_flight p \<and>
        p_queued_total p = p_queued_total (f p) + d p"
      using sweep_pool_inv [OF i sp] fits_keep [OF F] by (simp add: each_pool_def)
  next
    fix k assume "map_of (s_pools s) k = None"
    then show "in_pool k (P + sent s) = {#}" using c by (auto simp: core_def dest: spec [of _ k])
  qed (use le in \<open>simp_all add: each_pool_def msum_def hvals_def comp_def\<close>)
  then show ?thesis by (simp add: sched_inv_def sent_def each_pool_def sweep_each_def f_def d_def Let_def)
qed

lemma sweep_eq:
  "sweep e s =
     (let t = (if 0 < snd (sweep_each e s) then dispatch_all e (fst (sweep_each e s)) else fst (sweep_each e s))
      in drop_pools (idle_expired e t) t)"
  by (simp add: sweep_def sweep_each_def Let_def each_pool_def del: sum_list_eq_0_iff)

lemma sweep_inv: "sched_inv P s \<Longrightarrow> sched_inv P (sweep e s)"
proof -
  assume inv: "sched_inv P s"
  let ?t = "if 0 < snd (sweep_each e s) then dispatch_all e (fst (sweep_each e s)) else fst (sweep_each e s)"
  have t: "sched_inv P ?t" using sweep_each_inv [OF inv] dispatch_all_inv by simp
  have "\<exists>p. map_of (s_pools ?t) k = Some p \<and> is_idle p" if "k \<in> set (idle_expired e ?t)" for k
    using idle_expired_idle [OF _ that] t by (simp add: sched_inv_def core_def)
  from drop_pools_inv [OF t, of "idle_expired e ?t", OF this] show ?thesis by (simp only: sweep_eq Let_def)
qed

lemma turn_inv:
  assumes "sched_inv P s" and "\<forall>t key k se. ev \<noteq> Message (Release t key k se)"
  shows "sched_inv P (turn e ev s)"
  using assms handle_inv [of P s] sweep_inv shared_timer_inv dispatch_all_inv [OF expire_holds_inv]
  by (cases ev) (auto simp: sched_inv_ess [OF ess_stats])

end
