(* ===== verification/Sched_Props.thy ===== *)
theory Sched_Props
  imports Sched_Inv
begin

text \<open>
  Runs of the scheduler: the step relation over configurations (a scheduler between two turns and
  the permits outstanding), reachability, and what holds of every run: the accounts, the ceiling,
  and that dispatch leaves no usable slot idle.
\<close>

section \<open>Runs of the scheduler\<close>

text \<open>
  A configuration is the scheduler between two turns (nothing left to send) and the permits that
  are outstanding. A turn handles one message or timer that is ready; the grants it sends become
  outstanding permits. A permit is dropped once, which sends its \<open>Release\<close>. \<open>Rehash\<close> lets the
  map of pools present its entries in any order.
\<close>

inductive sched_step :: "scheduler \<times> taken multiset \<Rightarrow> scheduler \<times> taken multiset \<Rightarrow> bool" where
  Turn: "event_ready e ev s \<Longrightarrow> \<forall>t key k se. ev \<noteq> Message (Release t key k se) \<Longrightarrow> s' = turn e ev s \<Longrightarrow>
    sched_step (s, P) (s'\<lparr>s_out := []\<rparr>, P + sent s')"
| Drop: "s' = turn e (Message (Release t key k se)) s \<Longrightarrow>
    sched_step (s, add_mset (k, t, key) P) (s'\<lparr>s_out := []\<rparr>, P + sent s')"
| Rehash: "mset m = mset (s_pools s) \<Longrightarrow> sched_step (s, P) (s\<lparr>s_pools := m\<rparr>, P)"

inductive_cases sched_stepE: "sched_step (s, P) (s', P')"

inductive sched_reachable :: "scheduler \<times> taken multiset \<Rightarrow> bool" where
  Start: "sched_reachable (start_with_idle_pool_ttl alg cap ttl, {#})"
| Step: "sched_reachable c \<Longrightarrow> sched_step c c' \<Longrightarrow> sched_reachable c'"

definition settled :: "scheduler \<times> taken multiset \<Rightarrow> bool" where
  "settled c \<longleftrightarrow> sched_inv (snd c) (fst c) \<and> s_out (fst c) = []"

lemma sent_Nil [simp]: "s_out s = [] \<Longrightarrow> sent s = {#}"
  by (simp add: sent_def)

lemma core_flush: "core T (s\<lparr>s_out := xs\<rparr>) = core T s"
proof -
  have eqs: "s_pools (s\<lparr>s_out := xs\<rparr>) = s_pools s" "s_pool_order (s\<lparr>s_out := xs\<rparr>) = s_pool_order s"
    "s_divisor (s\<lparr>s_out := xs\<rparr>) = s_divisor s" "s_next_op_id (s\<lparr>s_out := xs\<rparr>) = s_next_op_id s"
    "s_in_flight (s\<lparr>s_out := xs\<rparr>) = s_in_flight s" "s_queued_total (s\<lparr>s_out := xs\<rparr>) = s_queued_total s" by simp_all
  show ?thesis unfolding core_def eqs by (rule refl)
qed

lemma sched_inv_flush: "sched_inv P s \<Longrightarrow> sched_inv (P + sent s) (s\<lparr>s_out := []\<rparr>)"
  by (simp add: sched_inv_def core_flush)

lemma msum_perm: "mset m = mset m' \<Longrightarrow> msum f m = msum f m'"
  unfolding msum_def by (metis mset_map sum_mset_sum_list)

lemma map_of_perm: "mset m = mset m' \<Longrightarrow> hmap_ok m' \<Longrightarrow> map_of m = map_of m' \<and> hmap_ok m"
proof -
  assume m: "mset m = mset m'" and d: "hmap_ok m'"
  then have ok: "hmap_ok m" by (metis hmap_ok_def mset_eq_imp_distinct_iff mset_map)
  moreover have "map_of m k = map_of m' k" for k
    using ok d hmap_entry [of m k] hmap_entry [of m' k] mset_eq_setD [OF m] by (metis option.exhaust)
  ultimately show ?thesis by auto
qed

lemma sched_inv_rehash: "sched_inv P s \<Longrightarrow> mset m = mset (s_pools s) \<Longrightarrow> sched_inv P (s\<lparr>s_pools := m\<rparr>)"
proof -
  assume inv: "sched_inv P s" and m: "mset m = mset (s_pools s)"
  have "hmap_ok (s_pools s)" using inv by (simp add: sched_inv_def core_def)
  note M = map_of_perm [OF m this]
  have "mset (hkeys m) = mset (hkeys (s_pools s))" using m by (simp add: hkeys_def)
  moreover have eqs: "s_pools (s\<lparr>s_pools := m\<rparr>) = m" "s_pool_order (s\<lparr>s_pools := m\<rparr>) = s_pool_order s"
    "s_divisor (s\<lparr>s_pools := m\<rparr>) = s_divisor s" "s_next_op_id (s\<lparr>s_pools := m\<rparr>) = s_next_op_id s"
    "s_in_flight (s\<lparr>s_pools := m\<rparr>) = s_in_flight s" "s_queued_total (s\<lparr>s_pools := m\<rparr>) = s_queued_total s"
    "sent (s\<lparr>s_pools := m\<rparr>) = sent s" by (simp_all add: sent_def)
  ultimately show ?thesis
    using inv M msum_perm [OF m] unfolding sched_inv_def core_def eqs by auto
qed

lemma settled_step: "sched_step c c' \<Longrightarrow> settled c \<Longrightarrow> settled c'"
proof (induction rule: sched_step.induct)
  case (Turn e ev s s' P)
  have "sched_inv P s'" using turn_inv [OF _ Turn(2)] Turn(3,4) by (simp add: settled_def)
  then show ?case using sched_inv_flush by (simp add: settled_def)
next
  case (Drop s' e t key k se s P)
  have "sched_inv P s'" using handle_release_inv [of k t key P s] Drop by (simp add: settled_def)
  then show ?case using sched_inv_flush by (simp add: settled_def)
next
  case (Rehash m s P)
  then show ?case using sched_inv_rehash by (simp add: settled_def)
qed

lemma reachable_settled: "sched_reachable c \<Longrightarrow> settled c"
proof (induction rule: sched_reachable.induct)
  case (Start alg cap ttl)
  show ?case by (simp add: settled_def sched_inv_def core_def start_with_idle_pool_ttl_def hkeys_def)
next
  case (Step c c')
  then show ?case using settled_step by blast
qed

section \<open>Slots are neither lost nor invented\<close>

definition held_total :: "scheduler \<Rightarrow> nat" where
  "held_total s = msum (\<lambda>p. af_held (p_affinity p)) (s_pools s)"

definition pending_total :: "scheduler \<Rightarrow> nat" where
  "pending_total s = msum (\<lambda>p. length (p_pending p)) (s_pools s)"

lemma size_in_pools:
  "hmap_ok m \<Longrightarrow> (\<And>x. x \<in># P \<Longrightarrow> fst x \<in> fst ` set m) \<Longrightarrow>
   size P = sum_list (map (\<lambda>(k, _). size (in_pool k P)) m)"
proof (induction m arbitrary: P)
  case Nil
  then show ?case by (cases P) auto
next
  case (Cons x m)
  obtain k p where x: "x = (k, p)" by (cases x)
  let ?Q = "filter_mset (\<lambda>y. fst y \<noteq> k) P"
  have k: "k \<notin> fst ` set m" using Cons.prems(1) x by (simp add: hmap_ok_def)
  have P: "P = filter_mset (\<lambda>y. fst y = k) P + ?Q" by (rule multiset_partition)
  have "size ?Q = sum_list (map (\<lambda>(k, _). size (in_pool k ?Q)) m)"
    using Cons.prems x by (intro Cons.IH) (auto simp: hmap_ok_def)
  also have "map (\<lambda>(k, _). size (in_pool k ?Q)) m = map (\<lambda>(k, _). size (in_pool k P)) m"
    using k by (force simp: in_pool_def filter_filter_mset intro!: arg_cong [where f = size] filter_mset_cong)
  finally have "size ?Q = sum_list (map (\<lambda>(k, _). size (in_pool k P)) m)" .
  moreover have "size P = size (filter_mset (\<lambda>y. fst y = k) P) + size ?Q" using P by (metis size_union)
  ultimately show ?case using x by (simp add: in_pool_def)
qed

lemma settled_total:
  assumes "settled (s, P)"
  shows "s_in_flight s = size P + held_total s + pending_total s"
proof -
  have c: "core P s" using assms by (auto simp: settled_def sched_inv_def)
  have ok: "hmap_ok (s_pools s)" using c by (simp add: core_def)
  have pools: "fst x \<in> fst ` set (s_pools s)" if "x \<in># P" for x
    using taken_pool [OF c, of "fst x" "snd x"] that by (force dest: map_of_SomeD)
  have each: "p_in_flight p = size (in_pool k P) + af_held (p_affinity p) + length (p_pending p)" if "(k, p) \<in> set (s_pools s)" for k p
    using coreD [OF c, of k p] that ok pool_inv_counts by (auto simp: hmap_entry fits_def)
  have "msum p_in_flight m = sum_list (map (\<lambda>(k, _). size (in_pool k P)) m) + msum (\<lambda>p. af_held (p_affinity p)) m + msum (\<lambda>p. length (p_pending p)) m"
    if "set m \<subseteq> set (s_pools s)" for m
    using that each by (induction m) auto
  then show ?thesis
    using c size_in_pools [OF ok pools] by (simp add: core_def held_total_def pending_total_def)
qed

section \<open>The ceiling without a shared backend\<close>

text \<open>
  A scheduler without a shared backend, and its in-flight count within \<open>n\<close>. The operations are
  followed through the two fields alone.
\<close>

definition alone :: "nat \<Rightarrow> scheduler \<Rightarrow> bool" where
  "alone n s \<longleftrightarrow> s_shared s = None \<and> s_in_flight s \<le> n"

named_theorems alone_intros

lemma alone_put [simp]:
  "alone n (put_pool k p s) = alone n s" "alone n (each_pool f s) = alone n s" "alone n (emit xs s) = alone n s"
  "alone n (publish_model_load k s) = alone n s" "alone n (publish_stats s) = alone n s"
  "alone n (note_unrecorded s) = alone n s" "alone n (with_shared g s) = alone n s"
  "alone n (s\<lparr>s_queued_total := q\<rparr>) = alone n s" "alone n (move_cursor s) = alone n s"
  "alone n (with_pool k f s) = alone n s" "alone n (s\<lparr>s_pools := m\<rparr>) = alone n s"
  "alone n (s\<lparr>s_replicas := r\<rparr>) = alone n s" "alone n (s\<lparr>s_session_affinity := c\<rparr>) = alone n s"
  "alone n (s\<lparr>s_pools := m, s_model_caps := mc\<rparr>) = alone n s" "alone n (note_held s) = alone n s" "alone n (note_redeemed s) = alone n s"
  "alone n (s\<lparr>s_divisor := d\<rparr>) = alone n s" "alone n (s\<lparr>s_mode := mo, s_stats := st\<rparr>) = alone n s"
  by (simp_all add: alone_def put_pool_def each_pool_def emit_def publish_model_load_def publish_stats_def
      note_unrecorded_def with_shared_def move_cursor_def with_pool_def note_held_def note_redeemed_def Let_def
      split: pool_key.splits option.splits)

lemma alone_mode [simp]: "alone n (apply_mode s) = alone n s"
  by (simp add: apply_mode_def leave_shared_def Let_def)

lemma alone_pool_mut [simp]: "alone n (pool_mut k s) = alone n s"
  by (simp add: pool_mut_def Let_def) (simp add: alone_def put_pool_def)

lemma alone_less: "alone n s \<Longrightarrow> alone n (s\<lparr>s_in_flight := s_in_flight s - 1\<rparr>)"
  by (auto simp: alone_def)

lemma alone_release_slot: "alone n s \<Longrightarrow> alone n (release_slot e k t key s)"
  using alone_less [of n s] by (simp add: release_slot_def Let_def release_shared_def spawn_release_def)

lemma alone_release_given_up: "alone n s \<Longrightarrow> alone n (release_given_up e gs s)"
  unfolding release_given_up_def by (induction gs arbitrary: s) (auto simp: alone_release_slot)

lemma alone_serve_holds: "alone n s \<Longrightarrow> alone n (serve_holds e s)"
  by (simp add: serve_holds_def Let_def alone_release_given_up)

lemma alone_local_visit: "alone n s \<Longrightarrow> ceil \<le> n \<Longrightarrow> s_in_flight s < ceil \<Longrightarrow> local_visit e ceil i s = (s', g) \<Longrightarrow> alone n s'"
  by (auto simp: local_visit_def Let_def alone_def put_pool_def emit_def note_unrecorded_def with_shared_def
      publish_model_load_def split: option.splits if_splits prod.splits pool_key.splits)

lemma alone_local_pass: "alone n s \<Longrightarrow> ceil \<le> n \<Longrightarrow> local_pass e ceil is s = (s', g) \<Longrightarrow> alone n s'"
proof (induction "is" arbitrary: s s' g)
  case (Cons i "is")
  obtain s1 g1 where v: "local_visit e ceil i s = (s1, g1)" by fastforce
  obtain s2 g2 where r: "local_pass e ceil is s1 = (s2, g2)" by fastforce
  show ?case using Cons.prems Cons.IH [OF _ _ r] alone_local_visit [OF _ _ _ v] v r by (auto split: if_splits)
qed simp

lemma alone_local_loop: "alone n s \<Longrightarrow> ceil \<le> n \<Longrightarrow> alone n (local_loop e ceil b s)"
proof (induction e ceil b s rule: local_loop.induct)
  case (1 e ceil b s)
  obtain s1 g where v: "local_pass e ceil [0..<length (s_pool_order s)] s = (s1, g)" by fastforce
  show ?case
    using 1(1) [OF _ v [symmetric] refl] alone_local_pass [OF 1(2,3) v] 1(2,3) v by (subst local_loop.simps) simp
qed

lemma ceil_le: "e_capacity e \<le> c \<Longrightarrow> ceil_of e s \<le> max c 1"
proof -
  assume "e_capacity e \<le> c"
  moreover have "div_ceil a (max d 1) \<le> a" for a d :: nat
  proof (rule ccontr)
    define b where "b = max d 1"
    have b: "0 < b" by (simp add: b_def)
    assume "\<not> div_ceil a (max d 1) \<le> a"
    then have "Suc a * b \<le> div_ceil a b * b" by (intro mult_le_mono1) (simp add: b_def)
    moreover have "a \<le> a * b" using b by (cases b) auto
    ultimately have "a + b \<le> div_ceil a b * b" unfolding mult_Suc by linarith
    then show False using div_ceil_upper [OF b, of a] by simp
  qed
  ultimately show ?thesis by (simp add: ceil_of_def replica_share_def) (metis le_trans max.coboundedI1)
qed

lemma alone_dispatch: "alone (max c 1) s \<Longrightarrow> e_capacity e \<le> c \<Longrightarrow> alone (max c 1) (dispatch_all e s)"
proof -
  assume a: "alone (max c 1) s" and c: "e_capacity e \<le> c"
  let ?s = "serve_holds e s"
  have s: "alone (max c 1) ?s" using alone_serve_holds [OF a] .
  then have "dispatch_shared e ?s = ?s" by (simp add: dispatch_shared_def alone_def)
  then show ?thesis using s alone_local_loop [OF s ceil_le [OF c]] by (simp add: dispatch_all_def Let_def)
qed


lemma alone_set_pool_affinity: "alone n s \<Longrightarrow> alone n (set_pool_affinity e k src c s)"
  by (auto simp: set_pool_affinity_def Let_def alone_release_given_up split: option.splits prod.splits)

lemma alone_admit_into:
  assumes "alone (max c 1) s" and "e_capacity e \<le> c"
  shows "alone (max c 1) (admit_into e k req r t p s)"
proof -
  have q: "alone (max c 1) (dispatch_all e ((put_pool k q s)\<lparr>s_queued_total := n\<rparr>))" for q n
    using alone_dispatch [OF _ assms(2)] assms(1) by simp
  have g: "alone (max c 1) ((emit xs (put_pool k q s))\<lparr>s_in_flight := s_in_flight s + 1\<rparr>)" if "s_in_flight s < ceil_of e s" for q xs
    using ceil_le [OF assms(2), of s] that assms(1) by (simp add: alone_def emit_def put_pool_def)
  show ?thesis
    using assms q g by (simp add: admit_into_def Let_def case_prod_beta' split: option.splits)
qed

lemma alone_acquire_done: "alone (max c 1) s \<Longrightarrow> e_capacity e \<le> c \<Longrightarrow> alone (max c 1) (acquire_done e k i r s)"
proof -
  assume a: "alone (max c 1) s" and c: "e_capacity e \<le> c"
  have s1: "alone (max c 1) (one_op_fewer s)" using a by (simp add: one_op_fewer_def)
  have re: "alone (max c 1) (requeued k q t)" if "alone (max c 1) t" for q t
    using that by (auto simp: requeued_def alone_def put_pool_def)
  have fa: "alone (max c 1) (shared_failed e t)" if "alone (max c 1) t" for t
    using that by (simp add: shared_failed_def)
  have gr: "alone (max c 1) (claim_granted e k cl b cc p t)" if "alone (max c 1) t" for cl b cc p t
    using that by (simp add: claim_granted_def Let_def case_prod_beta')
  have de: "alone (max c 1) (claim_denied e k cl d cc p t)" if "alone (max c 1) t" for cl d cc p t
    using that re by (simp add: claim_denied_def Let_def schedule_retry_def)
  have an: "alone (max c 1) (claim_answered e k cl r p t)" if "alone (max c 1) t" for cl p t
    using that re fa gr de by (simp add: claim_answered_def split: sum.splits prod.splits acquire_outcome.splits)
  have mr: "alone (max c 1) (maybe_start_reconcile t)" if "alone (max c 1) t" for t
    using that by (simp add: maybe_start_reconcile_def alone_def)
  show ?thesis
    using s1 an mr alone_dispatch [OF _ c] by (simp add: acquire_done_def Let_def split: option.splits)
qed

lemma alone_simple_answers:
  assumes "alone (max c 1) s" and "e_capacity e \<le> c"
  shows "alone (max c 1) (release_done e k r s)" "alone (max c 1) (hold_done e k cc s)" "alone (max c 1) (reconcile_done e rr s)"
    "alone (max c 1) (view_published vr s)" "alone (max c 1) (shared_timer e s)"
proof -
  have mr: "alone (max c 1) (maybe_start_reconcile t)" if "alone (max c 1) t" for t
    using that by (simp add: maybe_start_reconcile_def alone_def)
  have fa: "alone (max c 1) (shared_failed e t)" if "alone (max c 1) t" for t
    using that by (simp add: shared_failed_def)
  show "alone (max c 1) (release_done e k r s)" "alone (max c 1) (hold_done e k cc s)"
    using assms mr fa alone_dispatch [OF _ assms(2)]
    by (simp_all add: release_done_def hold_done_def Let_def one_op_fewer_def split: sum.splits)
  have "s_shared s = None" using assms(1) by (simp add: alone_def)
  then show "alone (max c 1) (reconcile_done e rr s)" "alone (max c 1) (view_published vr s)" "alone (max c 1) (shared_timer e s)"
    using assms(1) by (simp_all add: reconcile_done_def view_published_def shared_timer_def)
qed

lemma alone_handle:
  assumes "alone (max c 1) s" and "e_capacity e \<le> c" and "\<forall>cfg. msg \<noteq> EnableShared cfg"
  shows "alone (max c 1) (handle e msg s)"
proof -
  note D = alone_dispatch [OF _ assms(2)]
  have mr: "alone (max c 1) (maybe_start_reconcile t)" if "alone (max c 1) t" for t
    using that by (simp add: maybe_start_reconcile_def alone_def)
  have hb: "alone (max c 1) (hold_in_backend e k t key se a u)" if "alone (max c 1) u" for k t key se a u
    using that alone_less [OF that] by (auto simp: hold_in_backend_def Let_def alone_release_slot split: option.splits)
      (auto simp: alone_def put_pool_def publish_model_load_def emit_def with_shared_def split: pool_key.splits)
  show ?thesis
  proof (cases msg)
    case (Admit k req r t)
    then show ?thesis
      using alone_admit_into [OF _ assms(2)] alone_set_pool_affinity assms(1) by (simp add: handle_admit_def Let_def split: option.splits)
  next
    case (Release t key k se)
    then show ?thesis
      using assms(1) D hb alone_release_slot
      by (auto simp: handle_release_def Let_def split: option.splits prod.splits step_end.splits)
  next
    case (SetReplicas n)
    then show ?thesis using assms(1) D mr by (simp add: set_replicas_def Let_def)
  next
    case (SetModelCaps m)
    then show ?thesis using assms(1) D by (simp add: set_model_caps_def Let_def)
  next
    case (SetSessionAffinity cfg)
    then show ?thesis using assms(1) D alone_release_given_up by (simp add: set_session_affinity_def Let_def)
  next
    case (Wake k)
    then show ?thesis using assms(1) D by (simp add: wake_def Let_def unblock_all_def split: option.splits)
  next
    case (HoldDone k r)
    then show ?thesis using assms alone_simple_answers [OF _ assms(2)] by (simp split: sum.splits prod.splits bool.splits)
  qed (use assms alone_acquire_done alone_simple_answers [OF _ assms(2)] in \<open>simp_all\<close>)
qed

lemma alone_turn:
  assumes "alone (max c 1) s" and "e_capacity e \<le> c" and "\<forall>cfg. ev \<noteq> Message (EnableShared cfg)"
  shows "alone (max c 1) (turn e ev s)"
proof -
  have dp: "alone n (drop_pools ks t) = alone n t" for n ks t
  proof -
    have "alone n (fold (\<lambda>k s. publish_model_load k (s\<lparr>s_pools := AList.delete k (s_pools s)\<rparr>)) ks u) = alone n u" for u
      by (induction ks arbitrary: u) auto
    then show ?thesis by (simp add: drop_pools_def Let_def alone_def)
  qed
  have ex: "alone (max c 1) (expire_holds e s)" using assms(1) by (simp add: expire_holds_def alone_release_given_up)
  show ?thesis
    using assms alone_handle alone_dispatch [OF _ assms(2)] alone_simple_answers(5) [OF assms(1,2)] ex
    by (cases ev) (auto simp: sweep_def Let_def dp)
qed

section \<open>Dispatch leaves no slot idle that someone could use\<close>

definition exhausted :: "pool \<Rightarrow> bool" where
  "exhausted p \<longleftrightarrow> p_cap p \<le> p_in_flight p \<or> (\<forall>t. \<not> tenant_is_eligible p t)"

lemma no_queue_not_eligible: "queues_ok p \<Longrightarrow> p_queued_total p = 0 \<Longrightarrow> \<not> tenant_is_eligible p t"
proof -
  assume ok: "queues_ok p" and z: "p_queued_total p = 0"
  have "p_queues p = []"
    using z ok queue_entries_ok [OF ok] by (cases "p_queues p") (fastforce simp: queues_ok_def msum_eq_0)+
  then show ?thesis by (simp add: tenant_is_eligible_def)
qed

lemma eligible_idle_since: "tenant_is_eligible (p\<lparr>p_idle_since := x\<rparr>) t = tenant_is_eligible p t"
proof -
  have l: "tenant_limit (p\<lparr>p_idle_since := x\<rparr>) = tenant_limit p" "key_limit (p\<lparr>p_idle_since := x\<rparr>) = key_limit p"
    by (simp_all add: tenant_limit_def key_limit_def fun_eq_iff)
  have f: "p_tenant_in_flight (p\<lparr>p_idle_since := x\<rparr>) = p_tenant_in_flight p" "p_key_in_flight (p\<lparr>p_idle_since := x\<rparr>) = p_key_in_flight p"
    "p_queues (p\<lparr>p_idle_since := x\<rparr>) = p_queues p" "p_blocked_tenants (p\<lparr>p_idle_since := x\<rparr>) = p_blocked_tenants p"
    "p_blocked_keys (p\<lparr>p_idle_since := x\<rparr>) = p_blocked_keys p" by simp_all
  show ?thesis unfolding tenant_is_eligible_def tenant_has_slot_def key_open_def key_has_slot_def l f by (rule refl)
qed

lemma exhausted_settle: "queues_ok p \<Longrightarrow> exhausted p \<Longrightarrow> exhausted (settle_idle now p)"
proof -
  assume ok: "queues_ok p" and e: "exhausted p"
  show ?thesis
  proof (cases "is_idle p \<and> p_idle_since p = None")
    case True
    then show ?thesis by (simp add: settle_idle_def exhausted_def tenant_is_eligible_def reset_def)
  next
    case False
    then have "settle_idle now p = p\<lparr>p_idle_since := None\<rparr> \<or> settle_idle now p = p" by (auto simp: settle_idle_def)
    moreover have "exhausted (p\<lparr>p_idle_since := None\<rparr>)"
      using e by (simp add: exhausted_def eligible_idle_since)
    ultimately show ?thesis using e by auto
  qed
qed

lemma dispatch_one_none:
  assumes q: "queues_ok p" and s: "slots_ok S p" and "0 < h" and d: "dispatch_one dead now (effective_cap h p) p = (p', None, n)"
  shows "exhausted p' \<and> queues_ok p'"
proof -
  note F = dispatch_one_fields [OF q d]
  show ?thesis
  proof (cases rule: take_next_outcome [OF q s, of dead now "effective_cap h p"])
    case (1 p1 d1)
    then have p': "p' = p1" using d by (simp add: dispatch_one_def)
    have "p_cap p1 \<le> p_in_flight p1" if "effective_cap h p \<le> p_in_flight p1"
      using that F assms(3) p' by (auto simp: effective_cap_def conf_def min_def split: if_splits)
    then show ?thesis
      using 1 p' pick_tenant_None_iff [OF 1(2)] no_queue_not_eligible [OF 1(2)]
      by (auto simp: stuck_def exhausted_def)
  next
    case (2 p1 p2 t k w d1)
    then show ?thesis using d by (simp add: dispatch_one_def case_prod_beta' Let_def)
  qed
qed

lemma local_visit_none:
  assumes inv: "sched_inv P s" and "s_in_flight s < ceil" and v: "local_visit e ceil i s = (s', False)"
  shows "s_in_flight s' = s_in_flight s \<and> s_pool_order s' = s_pool_order s \<and> s_cursor s' = s_cursor s \<and>
    (\<forall>k. k \<noteq> pool_at s i \<longrightarrow> map_of (s_pools s') k = map_of (s_pools s) k) \<and>
    (\<forall>p. map_of (s_pools s') (pool_at s i) = Some p \<longrightarrow> exhausted p)"
proof (cases rule: local_visit_cases [of e ceil i s])
  case idle
  then show ?thesis
    using v no_queue_not_eligible [OF sched_invD(3) [OF inv]] by (auto simp: exhausted_def)
next
  case (none p p' d)
  note I = sched_invD [OF inv none(1)]
  have "0 < ceil - s_in_flight s" using assms(2) by simp
  then have "exhausted p' \<and> queues_ok p'" using dispatch_one_none [OF I(3) _ _ none(3)] I(2) unfolding pool_inv_def by blast
  then have "exhausted (if 0 < d then settle_idle (e_now e) p' else p')" using exhausted_settle by simp
  then show ?thesis using v none(4) by (auto simp: put_pool_def)
next
  case (grant p p' a d t)
  then show ?thesis using v by simp
qed

lemma local_pass_none:
  assumes "sched_inv P s" and "s_in_flight s < ceil" and "local_pass e ceil is s = (s', False)"
  shows "s_in_flight s' = s_in_flight s \<and> s_pool_order s' = s_pool_order s \<and>
    (\<forall>k p. map_of (s_pools s') k = Some p \<longrightarrow> k \<in> pool_at s ` set is \<or> (\<exists>q. map_of (s_pools s) k = Some q \<and> exhausted q) \<longrightarrow> exhausted p)"
  using assms
proof (induction "is" arbitrary: s)
  case Nil
  then show ?case by auto
next
  case (Cons i "is")
  obtain s1 g1 where v: "local_visit e ceil i s = (s1, g1)" by fastforce
  obtain g2 where r: "local_pass e ceil is s1 = (s', g2)" and g: "\<not> g1" "\<not> g2"
    using Cons.prems v by (auto split: prod.splits)
  have v': "local_visit e ceil i s = (s1, False)" using v g by simp
  note V = local_visit_none [OF Cons.prems(1,2) v']
  have at: "pool_at s1 j = pool_at s j" for j using V by (simp add: pool_at_def)
  have IH: "s_in_flight s' = s_in_flight s1 \<and> s_pool_order s' = s_pool_order s1 \<and>
    (\<forall>k p. map_of (s_pools s') k = Some p \<longrightarrow> k \<in> pool_at s1 ` set is \<or> (\<exists>q. map_of (s_pools s1) k = Some q \<and> exhausted q) \<longrightarrow> exhausted p)"
    using Cons.IH [OF local_visit_inv [OF Cons.prems(1) v]] V Cons.prems(2) r g by simp
  have dom: "map_of (s_pools s1) k \<noteq> None" if "map_of (s_pools s') k = Some p" for k p
    using that r Cons.prems
  proof -
    have "map_of (s_pools s2) k = None" if "local_pass e ceil js t = (s2, False)" "map_of (s_pools t) k = None" for js t s2
      using that
    proof (induction js arbitrary: t)
      case (Cons j js)
      obtain t1 h where w: "local_visit e ceil j t = (t1, h)" by fastforce
      show ?case
      proof (cases "ceil \<le> s_in_flight t")
        case False
        then have h: "\<not> h" and r: "local_pass e ceil js t1 = (s2, False)" using Cons.prems w by (auto split: prod.splits)
        have "map_of (s_pools t1) k = None"
          using w h Cons.prems(2) by (cases rule: local_visit_cases [of e ceil j t]) (auto simp: put_pool_def)
        then show ?thesis using Cons.IH [OF r] by simp
      qed (use Cons.prems in auto)
    qed auto
    then show ?thesis using r g that by fastforce
  qed
  have "exhausted p" if p: "map_of (s_pools s') k = Some p"
    and k: "k \<in> pool_at s ` set (i # is) \<or> (\<exists>q. map_of (s_pools s) k = Some q \<and> exhausted q)" for k p
  proof -
    obtain q where q: "map_of (s_pools s1) k = Some q" using dom [OF p] by auto
    have "k \<in> pool_at s1 ` set is \<or> exhausted q"
      using k V q by (cases "k = pool_at s i") (auto simp: at)
    then show ?thesis using IH p q by blast
  qed
  then show ?case using IH V by auto
qed

lemma rotation: "j < n \<Longrightarrow> \<exists>i < n. (c + i) mod n = (j::nat)"
proof -
  assume j: "j < n"
  let ?i = "(j + (n - c mod n)) mod n"
  have "(c + ?i) mod n = (c + (j + (n - c mod n))) mod n" by (simp add: mod_add_right_eq)
  also have "\<dots> = (c mod n + (j + (n - c mod n))) mod n" by (metis mod_add_left_eq)
  also have "c mod n + (j + (n - c mod n)) = j + n" using j mod_less_divisor [of n c] by linarith
  finally have "(c + ?i) mod n = j" using j by simp
  then show ?thesis using j by (intro exI [of _ ?i]) simp
qed

lemma pool_in_order: "sched_inv P s \<Longrightarrow> map_of (s_pools s) k = Some p \<Longrightarrow> k \<in> pool_at s ` set [0..<length (s_pool_order s)]"
proof -
  assume inv: "sched_inv P s" and p: "map_of (s_pools s) k = Some p"
  have "set (s_pool_order s) = set (hkeys (s_pools s))"
    using inv by (metis core_def mset_eq_setD sched_inv_def)
  then have "k \<in> set (s_pool_order s)" using p by (force simp: hkeys_def dest: map_of_SomeD)
  then obtain j where j: "j < length (s_pool_order s)" "s_pool_order s ! j = k" by (auto simp: in_set_conv_nth)
  then obtain i where "i < length (s_pool_order s)" "(s_cursor s + i) mod length (s_pool_order s) = j"
    using rotation by blast
  then show ?thesis using j by (force simp: pool_at_def)
qed

definition all_exhausted :: "scheduler \<Rightarrow> bool" where
  "all_exhausted s \<longleftrightarrow> (\<forall>k p. map_of (s_pools s) k = Some p \<longrightarrow> exhausted p)"

lemma local_loop_serves:
  "sched_inv P s \<Longrightarrow> b \<or> all_exhausted s \<Longrightarrow> s' = local_loop e ceil b s \<Longrightarrow> ceil \<le> s_in_flight s' \<or> all_exhausted s'"
proof (induction e ceil b s arbitrary: s' rule: local_loop.induct)
  case (1 e ceil b s)
  obtain s1 g where v: "local_pass e ceil [0..<length (s_pool_order s)] s = (s1, g)" by fastforce
  show ?case
  proof (cases "b \<and> s_in_flight s < ceil \<and> 0 < s_queued_total s")
    case True
    have i: "sched_inv P (move_cursor s1)" using local_pass_inv [OF 1(2) v] sched_inv_ess [OF ess_cursor] by simp
    have "all_exhausted (move_cursor s1)" if "\<not> g"
    proof -
      have "s_pool_order s1 = s_pool_order s" and
        "\<And>k p. map_of (s_pools s1) k = Some p \<Longrightarrow> k \<in> pool_at s ` set [0..<length (s_pool_order s)] \<Longrightarrow> exhausted p"
        using local_pass_none [OF 1(2), of ceil e "[0..<length (s_pool_order s)]" s1] v that True by auto
      moreover have "k \<in> pool_at s ` set [0..<length (s_pool_order s)]" if "map_of (s_pools s1) k = Some p" for k p
      proof -
        have "set (s_pool_order s1) = set (hkeys (s_pools s1))"
          using local_pass_inv [OF 1(2) v] by (metis core_def mset_eq_setD sched_inv_def)
        then have "k \<in> set (s_pool_order s)" using that \<open>s_pool_order s1 = s_pool_order s\<close> by (force simp: hkeys_def dest: map_of_SomeD)
        then have "\<exists>q. map_of (s_pools s) k = Some q"
          using 1(2) by (metis core_def hkeys_def list.set_map map_of_eq_None_iff mset_eq_setD not_None_eq sched_inv_def)
        then show ?thesis using pool_in_order [OF 1(2)] by blast
      qed
      ultimately show ?thesis by (simp add: all_exhausted_def move_cursor_def)
    qed
    then show ?thesis using 1(1) [OF True v [symmetric] refl i _ refl] 1(4) True v by (subst (asm) local_loop.simps) auto
  next
    case False
    have "local_loop e ceil b s = s" by (subst local_loop.simps) (simp only: False if_False)
    then have s': "s' = s" using 1(4) by simp
    have "all_exhausted s" if "s_queued_total s = 0"
    proof -
      have "p_queued_total p = 0" if "map_of (s_pools s) k = Some p" for k p
        using sched_invD(6) [OF 1(2) that] \<open>s_queued_total s = 0\<close> by simp
      then show ?thesis
        using no_queue_not_eligible sched_invD(3) [OF 1(2)] by (auto simp: all_exhausted_def exhausted_def)
    qed
    then show ?thesis using False s' 1(3) by auto
  qed
qed

section \<open>What dispatch leaves alone\<close>

text \<open>The fields that decide how a dispatch runs.\<close>

definition frame :: "scheduler \<Rightarrow> _" where
  "frame s = (s_mode s, s_divisor s, s_replicas s, quiescing s, quiesced_reconcile_running s, s_pool_order s, s_shared s = None)"

lemma frame_release_slot: "frame (release_slot e k t key s) = frame s"
proof -
  have f: "frame (publish_model_load k s) = frame s" "frame (note_unrecorded s) = frame s" for s
    by (auto simp: frame_def publish_model_load_def note_unrecorded_def with_shared_def quiescing_def
        quiesced_reconcile_running_def split: pool_key.splits option.splits)
  have r: "frame (release_shared sl s) = frame s" for sl s
    by (auto simp: frame_def release_shared_def spawn_release_def emit_def with_shared_def quiescing_def
        quiesced_reconcile_running_def split: option.splits)
  have w: "frame (with_pool k g (s\<lparr>s_in_flight := n\<rparr>)) = frame s" for g n
    by (auto simp: frame_def with_pool_def put_pool_def quiescing_def quiesced_reconcile_running_def split: option.splits)
  show ?thesis by (simp add: release_slot_def Let_def f r w)
qed

lemma frame_given_up: "frame (release_given_up e gs s) = frame s"
  unfolding release_given_up_def by (induction gs arbitrary: s) (auto simp: frame_release_slot)

lemma frame_serve_holds: "frame (serve_holds e s) = frame s"
proof -
  have "frame ((emit xs (each_pool f s))\<lparr>s_queued_total := n\<rparr>) = frame s" for xs f n
    by (simp add: frame_def emit_def each_pool_def quiescing_def quiesced_reconcile_running_def split: option.splits)
  then show ?thesis by (simp add: serve_holds_def Let_def frame_given_up)
qed

text \<open>Outside shared mode a dispatch ends with the ceiling reached or every pool exhausted.\<close>

lemma dispatch_all_serves:
  assumes inv: "sched_inv P s" and "s_mode s \<noteq> Shared" and "\<not> quiescing s"
  shows "ceil_of e s \<le> s_in_flight (dispatch_all e s) \<or> all_exhausted (dispatch_all e s)"
proof -
  let ?s = "serve_holds e s"
  have i: "sched_inv P ?s" using serve_holds_inv [OF inv] .
  have f: "s_mode ?s = s_mode s" "quiescing ?s = quiescing s" "s_divisor ?s = s_divisor s"
    using frame_serve_holds [of e s] by (simp_all add: frame_def)
  have c: "ceil_of e ?s = ceil_of e s" using f by (simp add: ceil_of_def)
  show ?thesis
  proof (cases "s_pool_order ?s = []")
    case True
    then have "s_pools ?s = []" using i by (simp add: sched_inv_def core_def hkeys_def)
    then show ?thesis using True assms f by (simp add: dispatch_all_def Let_def all_exhausted_def)
  next
    case False
    then have "dispatch_all e s = local_loop e (ceil_of e s) True ?s" using assms f c by (simp add: dispatch_all_def Let_def)
    then show ?thesis using local_loop_serves [OF i, of True] by simp
  qed
qed

section \<open>A short run\<close>

definition tick :: "nat \<Rightarrow> nat \<Rightarrow> env" where
  "tick now cap = \<lparr>e_now = now, e_dead = (\<lambda>_. False), e_capacity = cap, e_random = 0\<rparr>"

definition demo_start :: scheduler where
  "demo_start = start_with_idle_pool_ttl Weighted 2 9"

definition demo_busy :: scheduler where
  "demo_busy = turn (tick 5 1) (Message (fs_admit (admit_request_new ''t'' ''m'' 2) 7 5)) demo_start"

definition demo_permit :: taken where
  "demo_permit = (Model ''m'', ''t'', ''t'')"

lemma demo_sent: "sent demo_busy = {#demo_permit#}"
  unfolding demo_busy_def demo_start_def by code_simp

lemma demo_reachable: "sched_reachable (demo_busy\<lparr>s_out := []\<rparr>, {#demo_permit#})"
proof -
  have "sched_step (demo_start, {#}) (demo_busy\<lparr>s_out := []\<rparr>, {#} + sent demo_busy)"
    by (rule sched_step.Turn [of "tick 5 1" "Message (fs_admit (admit_request_new ''t'' ''m'' 2) 7 5)"])
      (simp_all add: event_ready_def fs_admit_def demo_busy_def)
  then show ?thesis using sched_reachable.Step [OF sched_reachable.Start] by (simp add: demo_sent demo_start_def)
qed

definition has_room :: "env \<Rightarrow> pool_key \<Rightarrow> scheduler \<Rightarrow> scheduler \<Rightarrow> bool" where
  "has_room e k s d \<longleftrightarrow> s_mode s \<noteq> Shared \<and> \<not> quiescing s \<and> s_in_flight d < ceil_of e s \<and>
     (case map_of (s_pools d) k of None \<Rightarrow> False | Some p \<Rightarrow> p_in_flight p < p_cap p)"

definition run_turns :: "(env \<times> event) list \<Rightarrow> scheduler \<Rightarrow> scheduler" where
  "run_turns evs s = fold (\<lambda>(e, ev). turn e ev) evs s"

section \<open>Properties\<close>

text \<open>
  C2: Slots are neither lost nor invented. In every reachable state the requests in flight are
  exactly the outstanding permits, the slots held for a session's next step and the claims waiting
  for the shared backend; the queued total is the length of every pool's backlog; and no pool with
  an outstanding permit has been dropped.
\<close>

theorem accounts_hold:
  assumes "sched_reachable (s, P)"
  shows "s_in_flight s = size P + held_total s + pending_total s \<and>
    s_queued_total s = msum (\<lambda>p. msum tq_len (p_queues p)) (s_pools s) \<and>
    (\<forall>x. x \<in># P \<longrightarrow> contains_key (s_pools s) (fst x))"
proof -
  have st: "settled (s, P)" using reachable_settled [OF assms] .
  then have inv: "sched_inv P s" and c: "core P s" by (auto simp: settled_def sched_inv_def)
  have "p_queued_total p = msum tq_len (p_queues p)" if "(k, p) \<in> set (s_pools s)" for k p
    using sched_invD(3) [OF inv, of k p] that c by (simp add: queues_ok_def core_def hmap_entry)
  then have "msum p_queued_total m = msum (\<lambda>p. msum tq_len (p_queues p)) m" if "set m \<subseteq> set (s_pools s)" for m
    using that by (induction m) auto
  moreover have "contains_key (s_pools s) (fst x)" if "x \<in># P" for x
    using taken_pool [OF c, of "fst x" "snd x"] that by (auto simp: contains_key_def)
  ultimately show ?thesis using settled_total [OF st] c by (simp add: core_def)
qed

theorem accounts_hold_witness: "s_in_flight (demo_busy\<lparr>s_out := []\<rparr>) = 1 + held_total demo_busy + pending_total demo_busy"
  using accounts_hold [OF demo_reachable] by (simp add: held_total_def pending_total_def)

text \<open>
  C11: The ceiling. Without a shared backend, whatever messages and timers a replica handles and in
  whatever order (releases of slots it never granted included), it never has more requests in
  flight than the largest ceiling its capacity provider gave (a ceiling of 0 reads as 1).
\<close>

theorem ceiling_never_exceeded:
  assumes "\<forall>(e, ev) \<in> set evs. e_capacity e \<le> c \<and> (\<forall>cfg. ev \<noteq> Message (EnableShared cfg))"
  shows "s_in_flight (run_turns evs (start_with_idle_pool_ttl alg cap ttl)) \<le> max c 1"
proof -
  have "alone (max c 1) (run_turns evs s)" if "alone (max c 1) s" for s
    using assms that unfolding run_turns_def
  proof (induction evs arbitrary: s)
    case (Cons x evs)
    obtain e ev where x: "x = (e, ev)" by (cases x)
    have "alone (max c 1) (turn e ev s)" using alone_turn Cons.prems x by simp
    then show ?case using Cons x by simp
  qed simp
  moreover have "alone (max c 1) (start_with_idle_pool_ttl alg cap ttl)" by (simp add: alone_def start_with_idle_pool_ttl_def)
  ultimately show ?thesis by (simp add: alone_def)
qed

theorem ceiling_never_exceeded_witness:
  "s_in_flight (run_turns [(tick 5 1, Message (fs_admit (admit_request_new ''t'' ''m'' 2) 7 5)),
     (tick 6 1, Message (fs_admit (admit_request_new ''u'' ''n'' 2) 8 6))] (start_with_idle_pool_ttl Weighted 2 9)) \<le> 1"
  using ceiling_never_exceeded [of "[(tick 5 1, Message (fs_admit (admit_request_new ''t'' ''m'' 2) 7 5)),
     (tick 6 1, Message (fs_admit (admit_request_new ''u'' ''n'' 2) 8 6))]" 1 Weighted 2 9]
  by (simp add: tick_def fs_admit_def)

text \<open>
  C23: Dispatch is work conserving. Outside shared mode, with no reconcile holding admissions, a
  dispatch ends with the global ceiling reached, or with every pool either full or left with no
  tenant that could be served within its own and its keys' limits.
\<close>

theorem dispatch_work_conserving:
  assumes "sched_reachable (s, P)" and "s_mode s \<noteq> Shared" and "\<not> quiescing s"
    and "s_in_flight (dispatch_all e s) < ceil_of e s" and "map_of (s_pools (dispatch_all e s)) k = Some p"
    and "p_in_flight p < p_cap p"
  shows "\<not> tenant_is_eligible p t"
  using dispatch_all_serves [of P s e] reachable_settled [OF assms(1)] assms(2-6)
  by (fastforce simp: settled_def all_exhausted_def exhausted_def)

theorem dispatch_work_conserving_witness:
  "\<exists>p. map_of (s_pools (dispatch_all (tick 6 3) (demo_busy\<lparr>s_out := []\<rparr>))) (Model ''m'') = Some p \<and>
     p_in_flight p < p_cap p \<and> \<not> tenant_is_eligible p ''u''"
proof -
  let ?s = "demo_busy\<lparr>s_out := []\<rparr>"
  have e: "has_room (tick 6 3) (Model ''m'') ?s (dispatch_all (tick 6 3) ?s)"
    unfolding demo_busy_def demo_start_def by code_simp
  then obtain p where "map_of (s_pools (dispatch_all (tick 6 3) ?s)) (Model ''m'') = Some p" "p_in_flight p < p_cap p"
    by (auto simp: has_room_def split: option.splits)
  then show ?thesis using dispatch_work_conserving [OF demo_reachable] e unfolding has_room_def by blast
qed

end
