(* ===== verification/Pool_Callers.thy ===== *)
theory Pool_Callers
  imports Pool_Frame
begin

text \<open>
  The callers a pool has not answered yet: those in its queues and those whose claim is waiting for
  the shared backend. Each operation of the pool moves a live caller between these places or into
  the grant it returns, and loses none.
\<close>

section \<open>Counting the callers\<close>

definition queue_calls :: "respond \<Rightarrow> tenant_queue \<Rightarrow> nat" where
  "queue_calls r q = msum (\<lambda>d. count (mset (map w_respond d)) r) (tq_keys q)"

definition queued_calls :: "respond \<Rightarrow> pool \<Rightarrow> nat" where
  "queued_calls r p = msum (queue_calls r) (p_queues p)"

definition pending_calls :: "respond \<Rightarrow> pool \<Rightarrow> nat" where
  "pending_calls r p = msum (\<lambda>c. if w_respond (pc_waiter c) = r then 1 else 0) (p_pending p)"

definition pool_calls :: "respond \<Rightarrow> pool \<Rightarrow> nat" where
  "pool_calls r p = queued_calls r p + pending_calls r p"

lemma msum_over:
  "hmap_ok m \<Longrightarrow> finite A \<Longrightarrow> fst ` set m \<subseteq> A \<Longrightarrow>
   msum f m = (\<Sum>k\<in>A. case map_of m k of None \<Rightarrow> 0 | Some v \<Rightarrow> f v)"
proof (induction m)
  case (Cons x m)
  obtain j v where x: "x = (j, v)" by (cases x)
  have j: "map_of m j = None" "j \<in> A" using Cons.prems x by (auto simp: hmap_ok_def map_of_eq_None_iff)
  have "(\<Sum>k\<in>A. case map_of (x # m) k of None \<Rightarrow> 0 | Some v \<Rightarrow> f v) =
    (\<Sum>k\<in>A. (if k = j then f v else 0) + (case map_of m k of None \<Rightarrow> 0 | Some v \<Rightarrow> f v))"
    using x j by (intro sum.cong) auto
  also have "\<dots> = f v + msum f m" using Cons j x by (simp add: sum.distrib hmap_ok_def)
  finally show ?case using x by simp
qed simp

definition queue_keys :: "pool \<Rightarrow> uuid set" where
  "queue_keys p = (\<Union>x \<in> set (p_queues p). fst ` set (tq_keys (snd x)))"

lemma queued_calls_over:
  assumes ok: "queues_ok p" and A: "finite A" "fst ` set (p_queues p) \<subseteq> A" and B: "finite B" "queue_keys p \<subseteq> B"
  shows "queued_calls r p = (\<Sum>t\<in>A. \<Sum>k\<in>B. count (mset (waiting p t k)) r)"
proof -
  have hm: "hmap_ok (p_queues p)" using ok by (simp add: queues_ok_def)
  have "(case map_of (p_queues p) t of None \<Rightarrow> 0 | Some q \<Rightarrow> queue_calls r q) = (\<Sum>k\<in>B. count (mset (waiting p t k)) r)" for t
  proof (cases "map_of (p_queues p) t")
    case None
    then show ?thesis by (simp add: waiting_def deque_def)
  next
    case (Some q)
    have "hmap_ok (tq_keys q)" using queues_okD [OF ok Some] by (simp add: tq_ok_def)
    moreover have "fst ` set (tq_keys q) \<subseteq> B" 
    proof -
      have "fst ` set (tq_keys (snd (t, q))) \<subseteq> queue_keys p"
        unfolding queue_keys_def using map_of_SomeD [OF Some] by (rule UN_upper)
      then show ?thesis using B(2) by simp
    qed
    ultimately have "queue_calls r q = (\<Sum>k\<in>B. case map_of (tq_keys q) k of None \<Rightarrow> 0 | Some d \<Rightarrow> count (mset (map w_respond d)) r)"
      unfolding queue_calls_def by (rule msum_over [OF _ B(1)])
    also have "\<dots> = (\<Sum>k\<in>B. count (mset (waiting p t k)) r)"
      using Some by (intro sum.cong) (auto simp: waiting_def deque_def key_queue_def get_or_def split: option.splits)
    finally show ?thesis using Some by simp
  qed
  then show ?thesis unfolding queued_calls_def using msum_over [OF hm A] by simp
qed

text \<open>The queues compared line by line.\<close>

lemma queued_calls_lines:
  assumes "queues_ok p" and "queues_ok p'"
    and "\<And>t' k'. count (mset (waiting p t' k')) r = count (mset (waiting p' t' k')) r + (if t' = t \<and> k' = k then n else 0)"
  shows "queued_calls r p = queued_calls r p' + n"
proof -
  define A where "A = insert t (fst ` set (p_queues p) \<union> fst ` set (p_queues p'))"
  define B where "B = insert k (queue_keys p \<union> queue_keys p')"
  have f: "finite A" "finite B" by (simp_all add: A_def B_def queue_keys_def)
  have s: "fst ` set (p_queues p) \<subseteq> A" "fst ` set (p_queues p') \<subseteq> A" "queue_keys p \<subseteq> B" "queue_keys p' \<subseteq> B"
    by (auto simp: A_def B_def)
  have "(\<Sum>t'\<in>A. \<Sum>k'\<in>B. if t' = t \<and> k' = k then n else 0) = (\<Sum>t'\<in>A. if t' = t then n else 0)"
    using f by (intro sum.cong) (auto simp: B_def)
  also have "\<dots> = n" using f by (simp add: A_def)
  finally have n: "(\<Sum>t'\<in>A. \<Sum>k'\<in>B. if t' = t \<and> k' = k then n else 0) = n" .
  have "queued_calls r p = (\<Sum>t'\<in>A. \<Sum>k'\<in>B. count (mset (waiting p' t' k')) r + (if t' = t \<and> k' = k then n else 0))"
    unfolding queued_calls_over [OF assms(1) f(1) s(1) f(2) s(3)] assms(3) by (rule refl)
  also have "\<dots> = queued_calls r p' + n"
    unfolding queued_calls_over [OF assms(2) f(1) s(2) f(2) s(4)] sum.distrib n by (rule refl)
  finally show ?thesis .
qed

lemma queued_calls_same: "queues_ok p \<Longrightarrow> queues_ok p' \<Longrightarrow> waiting p' = waiting p \<Longrightarrow> queued_calls r p' = queued_calls r p"
  using queued_calls_lines [of p' p r undefined undefined 0] by simp

lemma count_alive: "\<not> dead r \<Longrightarrow> count (mset (alive dead p t k)) r = count (mset (waiting p t k)) r"
  by (simp add: alive_def)

lemma queued_calls_alive:
  assumes "queues_ok p" and "queues_ok p'" and "\<not> dead r"
    and "\<And>t' k'. mset (alive dead p t' k') = (if t' = t \<and> k' = k then mset (alive dead p' t' k') + X else mset (alive dead p' t' k'))"
  shows "queued_calls r p = queued_calls r p' + count X r"
proof (rule queued_calls_lines [OF assms(1,2), of r t k])
  fix t' k'
  show "count (mset (waiting p t' k')) r = count (mset (waiting p' t' k')) r + (if t' = t \<and> k' = k then count X r else 0)"
    using arg_cong [OF assms(4) [of t' k'], of "\<lambda>m. count m r"] count_alive [of dead r, OF assms(3)] by (simp split: if_splits)
qed

section \<open>What each operation does to them\<close>

lemma queued_calls_empty: "queues_ok p \<Longrightarrow> p_queued_total p = 0 \<Longrightarrow> queued_calls r p = 0"
proof -
  assume ok: "queues_ok p" and "p_queued_total p = 0"
  then have "p_queues p = []"
    using queue_entries_ok [OF ok] by (cases "p_queues p") (fastforce simp: queues_ok_def msum_eq_0)+
  then show ?thesis by (simp add: queued_calls_def)
qed

lemma pool_calls_same:
  "queues_ok p \<Longrightarrow> queues_ok p' \<Longrightarrow> waiting p' = waiting p \<Longrightarrow> p_pending p' = p_pending p \<Longrightarrow> pool_calls r p' = pool_calls r p"
  using queued_calls_same [of p p' r] by (simp add: pool_calls_def pending_calls_def)

lemma pool_calls_fields [simp]:
  "pool_calls r (unblock p) = pool_calls r p" "pool_calls r (p\<lparr>p_probing := b\<rparr>) = pool_calls r p"
  "pool_calls r (p\<lparr>p_cluster_in_flight := c\<rparr>) = pool_calls r p" "pool_calls r (p\<lparr>p_affinity_source := a\<rparr>) = pool_calls r p"
  "pool_calls r (p\<lparr>p_idle_since := i\<rparr>) = pool_calls r p" "pool_calls r (set_divisor d p) = pool_calls r p"
  "pool_calls r (set_configured_cap n p) = pool_calls r p" "pool_calls r (p\<lparr>p_blocked := b\<rparr>) = pool_calls r p"
  "pool_calls r (p\<lparr>p_blocked_tenants := ts\<rparr>) = pool_calls r p" "pool_calls r (p\<lparr>p_blocked_keys := ks\<rparr>) = pool_calls r p"
  "pool_calls r (p\<lparr>p_affinity := af\<rparr>) = pool_calls r p" "pool_calls r (track_meta req p) = pool_calls r p"
  by (simp_all add: pool_calls_def queued_calls_def pending_calls_def unblock_def set_divisor_def set_configured_cap_def track_meta_def)

lemma pool_calls_new [simp]: "pool_calls r (pool_new k alg cap) = 0"
  by (simp add: pool_calls_def queued_calls_def pending_calls_def pool_new_def)

lemma pool_calls_send: "queues_ok p \<Longrightarrow> pool_calls r (fst (send_grant now g rs ad w p)) = pool_calls r p"
  by (rule pool_calls_same) (simp_all add: queues_ok_send waiting_send pool_fields)

lemma pool_calls_occupy [simp]: "pool_calls r (occupy t k c p) = pool_calls r p" "pool_calls r (charge t k c p) = pool_calls r p"
  by (simp_all add: pool_calls_def queued_calls_def pending_calls_def occupy_def charge_def Let_def)

lemma pool_calls_settle: "queues_ok p \<Longrightarrow> pool_calls r (settle_idle now p) = pool_calls r p"
  using queued_calls_empty [of p r]
  by (auto simp: settle_idle_def reset_def is_idle_def pool_calls_def pending_calls_def queued_calls_def)

lemma pool_calls_release: "queues_ok p \<Longrightarrow> pool_calls r (release t k p) = pool_calls r p"
  by (rule pool_calls_same) (simp_all add: queues_ok_release waiting_release pool_fields)

lemma pool_calls_enqueue:
  assumes "queues_ok p"
  shows "pool_calls r (enqueue req rs e f p) = pool_calls r p + (if rs = r then 1 else 0)"
proof -
  have "queued_calls r (enqueue req rs e f p) = queued_calls r p + (if rs = r then 1 else 0)"
    by (rule queued_calls_lines [OF queues_ok_enqueue [OF assms] assms, where t = "rq_tenant req" and k = "rq_key req"])
      (simp add: waiting_enqueue)
  then show ?thesis by (simp add: pool_calls_def pending_calls_def pool_fields)
qed

lemma pool_calls_requeue:
  assumes "queues_ok p"
  shows "pool_calls r (requeue c p) = pool_calls r p + (if w_respond (pc_waiter c) = r then 1 else 0)"
proof -
  have "queued_calls r (requeue c p) = queued_calls r p + (if w_respond (pc_waiter c) = r then 1 else 0)"
    by (rule queued_calls_lines [OF queues_ok_requeue [OF assms] assms, where t = "pc_tenant c" and k = "pc_key c"])
      (auto simp: waiting_requeue claim_slot_def)
  then show ?thesis by (simp add: pool_calls_def pending_calls_def pool_fields)
qed

lemma pool_calls_grant_held:
  "queues_ok p \<Longrightarrow> pool_calls r (fst (grant_held now h req rs p)) = pool_calls r p"
  using pool_calls_send [of "charge (h_tenant h) (h_key h) (rq_cost req) p"] queue_cong
  by (simp add: grant_held_def Let_def)

lemma pool_calls_grant_fast:
  "queues_ok p \<Longrightarrow> pool_calls r (fst (grant_fast now req rs p)) = pool_calls r p"
  using pool_calls_send [of "occupy (rq_tenant req) (rq_key req) (rq_cost req) p"] queue_cong
  by (simp add: grant_fast_def)

lemma pool_calls_give_up [simp]: "pool_calls r (fst (holds_to_give_up dead now p)) = pool_calls r p"
  by (simp add: holds_to_give_up_def Let_def case_prod_beta')

lemma pool_calls_finish [simp]: "pool_calls r (fst (finish_step dead now t k se h p)) = pool_calls r p"
  by (simp add: finish_step_def Let_def case_prod_beta' split: option.splits hold_in.splits)

lemma pool_calls_pending:
  "hmap_ok (p_pending p) \<Longrightarrow> map_of (p_pending p) i = None \<Longrightarrow>
   pool_calls r (p\<lparr>p_pending := AList.update i c (p_pending p)\<rparr>) = pool_calls r p + (if w_respond (pc_waiter c) = r then 1 else 0)"
  using msum_update [of "p_pending p" "\<lambda>c. if w_respond (pc_waiter c) = r then 1 else 0" i c]
  by (simp add: pool_calls_def pending_calls_def queued_calls_def)

lemma pool_calls_unpend:
  "hmap_ok (p_pending p) \<Longrightarrow> map_of (p_pending p) i = Some c \<Longrightarrow>
   pool_calls r p = pool_calls r (p\<lparr>p_pending := AList.delete i (p_pending p)\<rparr>) + (if w_respond (pc_waiter c) = r then 1 else 0)"
  using msum_delete [of "p_pending p" "\<lambda>c. if w_respond (pc_waiter c) = r then 1 else 0" i]
  by (simp add: pool_calls_def pending_calls_def queued_calls_def)

lemma take_next_calls:
  assumes inv: "pool_inv P p" and t: "take_next dead now eff p = (p', x, d)" and live: "\<not> dead r"
  shows "pool_calls r p = pool_calls r p' + (case x of None \<Rightarrow> 0 | Some (_, _, w) \<Rightarrow> if w_respond w = r then 1 else 0)"
proof -
  have ok: "queues_ok p" and S: "slots_ok (P + held_of p + pending_of p) p" using inv by (simp_all add: pool_inv_def)
  have pe: "pending_calls r p' = pending_calls r p" using take_next_fields [OF ok t] by (simp add: pending_calls_def)
  show ?thesis
  proof (cases rule: take_next_outcome [OF ok S, of dead now eff])
    case (1 p1 d1)
    then have e: "p' = p1" "x = None" using t by simp_all
    have "queued_calls r p = queued_calls r p1 + count {#} r"
      by (rule queued_calls_alive [where dead = dead and r = r, OF ok 1(2) live]) (simp add: 1(5))
    then show ?thesis using e pe by (simp add: pool_calls_def)
  next
    case (2 p1 p2 tt k w d1)
    then have e: "p' = p2" "x = Some (tt, k, w)" using t by simp_all
    note G = granting_queues [OF 2(5) 2(2)]
    have "queued_calls r p = queued_calls r p2 + count {#w_respond w#} r"
      by (rule queued_calls_alive [where dead = dead and r = r and t = tt and k = k, OF ok G(1) live]) (use G(2) in \<open>simp add: 2(4) [symmetric]\<close>)
    then show ?thesis using e pe by (simp add: pool_calls_def)
  qed
qed

lemma dispatch_one_calls:
  assumes inv: "pool_inv P p" and t: "dispatch_one dead now eff p = (p', ad, d)" and live: "\<not> dead r"
  shows "pool_calls r p = pool_calls r p' + (case ad of None \<Rightarrow> 0 | Some a \<Rightarrow> if ad_respond a = r then 1 else 0)"
proof -
  obtain p1 x d1 where n: "take_next dead now eff p = (p1, x, d1)" by (cases "take_next dead now eff p") auto
  note T = take_next_calls [OF inv n live]
  show ?thesis
  proof (cases x)
    case None
    then show ?thesis using T t n by (simp add: dispatch_one_def)
  next
    case (Some y)
    obtain tt k w where y: "y = (tt, k, w)" by (cases y) auto
    let ?g = "send_grant now (grant_new tt k (w_session w) (w_jumped w)) (w_respond w) Queued (now - w_enqueued w) p1"
    have ok: "queues_ok p1" using take_next_inv [OF inv n] Some y by (simp add: pool_inv_def)
    have "p' = fst ?g" "ad = Some (snd ?g)" using t n Some y by (auto simp: dispatch_one_def case_prod_beta')
    then show ?thesis using T Some y pool_calls_send [OF ok] by simp
  qed
qed

lemma take_probe_calls:
  assumes inv: "pool_inv P p" and t: "take_probe dead p = (p', x)" and live: "\<not> dead r"
  shows "pool_calls r p = pool_calls r p' + (case x of None \<Rightarrow> 0 | Some (_, _, w) \<Rightarrow> if w_respond w = r then 1 else 0)"
proof (cases "probe_target dead p")
  case None
  then show ?thesis using t by (simp add: take_probe_def)
next
  case (Some y)
  obtain tt k i where y: "y = (tt, k, i)" by (cases y) auto
  have ok: "queues_ok p" using inv by (simp add: pool_inv_def)
  have b: "i < length (deque p tt k)" "\<not> dead (w_respond (deque p tt k ! i))"
    using probe_target_Some [OF ok] Some y by blast+
  obtain p1 w where pop: "pop_waiter tt k i p = Some (p1, w)" using pop_waiter_Some [OF b(1)] by auto
  have w: "\<not> dead (w_respond w)" using deque_pop_waiter(3) [OF ok pop] b(2) by simp
  let ?w = "w\<lparr>w_probed := True, w_jumped := (case oldest_eligible dead p of None \<Rightarrow> False | Some t \<Rightarrow> t < w_enqueued w)\<rparr>"
  have e: "p' = grant_slot tt k ?w p1" "x = Some (tt, k, ?w)" using t Some y pop by (auto simp: take_probe_def Let_def)
  have ok1: "queues_ok p1" using queues_ok_pop(1) [OF ok pop] .
  have ok': "queues_ok p'" using e same_queues_grant_slot [THEN queues_ok_cong] ok1 by simp
  have wt: "alive dead p' = alive dead p1" using e same_queues_grant_slot [THEN alive_cong] by simp
  have "queued_calls r p = queued_calls r p' + count {#w_respond w#} r"
    by (rule queued_calls_alive [where dead = dead and r = r and t = tt and k = k, OF ok ok' live]) (simp add: alive_pop_live [where dead = dead, OF ok pop w] wt)
  moreover have "p_pending p' = p_pending p" using fields_pop [OF pop] e by (simp add: pool_fields)
  ultimately show ?thesis using e by (simp add: pool_calls_def pending_calls_def)
qed

lemma redeem_holds_calls:
  "queues_ok p \<Longrightarrow> redeem_holds dead now hs p = (p', ads, d) \<Longrightarrow> mset (map fst hs) \<subseteq># sessions_held p \<Longrightarrow> \<not> dead r \<Longrightarrow>
   queued_calls r p = queued_calls r p' + count (mset (map ad_respond ads)) r"
proof (induction hs arbitrary: p p' ads d)
  case (Cons x hs)
  obtain se t k where x: "x = (se, t, k)" by (cases x) auto
  have sub: "mset (map fst hs) \<subseteq># sessions_held p"
    using Cons.prems(3) subset_mset.trans [of "mset (map fst hs)" "mset (map fst (x # hs))"] by simp
  show ?case
  proof (cases "key_passed_out dead p t k")
    case True
    then have "redeem_holds dead now hs p = (p', ads, d)" using Cons.prems(2) x by simp
    then show ?thesis using Cons.IH [OF Cons.prems(1) _ sub] Cons.prems(4) by blast
  next
    case False
    obtain p1 ad d1 where q: "redeem_session dead now se t k p = (p1, ad, d1)" by (cases "redeem_session dead now se t k p") auto
    obtain p2 ads2 d2 where r2: "redeem_holds dead now hs p1 = (p2, ads2, d2)" by (cases "redeem_holds dead now hs p1") auto
    have e: "p' = p2" "ads = (case ad of None \<Rightarrow> ads2 | Some a \<Rightarrow> a # ads2)"
      using Cons.prems(2) False x q r2 by (auto split: prod.splits)
    have se: "se \<in># sessions_held p" using Cons.prems(3) x by (simp add: insert_subset_eq_iff)
    note R = redeem_session_fields [OF Cons.prems(1) q se]
    have ok1: "queues_ok p1" using R by (simp add: redeemed_def)
    have "mset (map fst hs) \<subseteq># sessions_held p1"
      using R Cons.prems(3) sub x by (auto simp: redeemed_def split: option.splits)
    note IH = Cons.IH [OF ok1 r2 this Cons.prems(4)]
    have "queued_calls r p = queued_calls r p1 + count (case ad of None \<Rightarrow> {#} | Some a \<Rightarrow> {#ad_respond a#}) r"
      by (rule queued_calls_alive [where dead = dead and r = r and t = t and k = k, OF Cons.prems(1) ok1 Cons.prems(4)])
        (use R in \<open>auto simp: redeemed_def split: option.splits\<close>)
    then show ?thesis using IH e by (auto split: option.splits)
  qed
qed simp

lemma redeem_queued_calls:
  assumes "queues_ok p" and "redeem_queued dead now p = (p', ads, d)" and "\<not> dead r"
  shows "pool_calls r p = pool_calls r p' + count (mset (map ad_respond ads)) r"
proof -
  have "queued_calls r p = queued_calls r p' + count (mset (map ad_respond ads)) r"
    using redeem_holds_calls [OF assms(1) assms(2) [unfolded redeem_queued_def] _ assms(3)]
    by (simp add: sessions_held_def comp_def image_mset.compositionality)
  then show ?thesis using redeem_queued_fields(2) [OF assms(1,2)] by (simp add: pool_calls_def pending_calls_def)
qed

lemma prune_calls:
  assumes "queues_ok p" and "prune_dead_waiters dead p = (p', n)" and "\<not> dead r"
  shows "pool_calls r p' = pool_calls r p"
proof -
  have al: "alive dead p' = alive dead p"
    by (intro ext) (simp add: alive_def waiting_def prune_correct(2) [OF assms(1,2)] filter_map comp_def)
  have "queued_calls r p = queued_calls r p' + count {#} r"
    by (rule queued_calls_alive [where dead = dead and r = r, OF assms(1) prune_correct(1) [OF assms(1,2)] assms(3)]) (simp add: al)
  then show ?thesis using prune_fields(2) [OF assms(1,2)] by (simp add: pool_calls_def pending_calls_def)
qed

end
