(* ===== verification/Sched_Calm.thy ===== *)
theory Sched_Calm
  imports Sched_Props Pool_Callers
begin

text \<open>
  What releasing, serving held slots and dispatching keep: the scheduler's mode, the denials
  recorded in its pools, and every live caller. Followed through the whole dispatch tree as one
  transitive relation, \<open>calm\<close>.
\<close>

section \<open>Calm steps\<close>

text \<open>
  What dispatching, releasing and serving held slots leave alone: the mode and the marks of the
  shared backend, the denials recorded in every pool, and every live caller, who stays queued,
  claiming or answered as often as before.
\<close>

definition answers :: "respond \<Rightarrow> scheduler \<Rightarrow> nat" where
  "answers r s = count (mset (map ad_respond (grants (s_out s)))) r"

definition calls :: "respond \<Rightarrow> scheduler \<Rightarrow> nat" where
  "calls r s = msum (pool_calls r) (s_pools s) + answers r s"

definition marks :: "pool \<Rightarrow> bool \<times> uuid list \<times> uuid list" where
  "marks p = snd (conf p)"

definition ctl_part :: "scheduler \<Rightarrow> _" where
  "ctl_part s = (s_mode s, s_divisor s, s_replicas s,
     map_option (\<lambda>c. (sh_config c, sh_synced c, sh_retry_at c, sh_global_blocked c)) (s_shared s))"

definition kept :: "env \<Rightarrow> scheduler \<Rightarrow> scheduler \<Rightarrow> bool" where
  "kept e s s' \<longleftrightarrow> (\<forall>r. \<not> e_dead e r \<longrightarrow> calls r s' = calls r s)"

definition calm :: "env \<Rightarrow> scheduler \<Rightarrow> scheduler \<Rightarrow> bool" where
  "calm e s s' \<longleftrightarrow> ctl_part s' = ctl_part s \<and> kept e s s' \<and>
     (\<forall>k p'. map_of (s_pools s') k = Some p' \<longrightarrow>
        (\<exists>p. map_of (s_pools s) k = Some p \<and> marks p' = marks p \<and> (s_shared s = None \<longrightarrow> p_pending p' = p_pending p)))"

lemma marks_conf: "conf p' = conf p \<Longrightarrow> marks p' = marks p"
  by (simp add: marks_def)

lemma ctl_part_None: "ctl_part s' = ctl_part s \<Longrightarrow> s_shared s' = None \<longleftrightarrow> s_shared s = None"
  by (auto simp: ctl_part_def)

lemma kept_refl [simp]: "kept e s s"
  by (simp add: kept_def)

lemma kept_trans: "kept e s t \<Longrightarrow> kept e t u \<Longrightarrow> kept e s u"
  by (simp add: kept_def)

lemma calm_refl [simp]: "calm e s s"
  by (simp add: calm_def)

lemma calm_trans: "calm e s t \<Longrightarrow> calm e t u \<Longrightarrow> calm e s u"
proof -
  assume st: "calm e s t" and tu: "calm e t u"
  have none: "s_shared t = None \<longleftrightarrow> s_shared s = None" using st ctl_part_None [of t s] unfolding calm_def by blast
  have "\<exists>p. map_of (s_pools s) k = Some p \<and> marks p' = marks p \<and> (s_shared s = None \<longrightarrow> p_pending p' = p_pending p)"
    if u: "map_of (s_pools u) k = Some p'" for k p'
  proof -
    obtain q where q: "map_of (s_pools t) k = Some q" "marks p' = marks q" "s_shared t = None \<longrightarrow> p_pending p' = p_pending q"
      using tu u unfolding calm_def by blast
    obtain p where "map_of (s_pools s) k = Some p" "marks q = marks p" "s_shared s = None \<longrightarrow> p_pending q = p_pending p"
      using st q(1) unfolding calm_def by blast
    then show ?thesis using q none by auto
  qed
  then show ?thesis using st tu kept_trans [of e s t u] unfolding calm_def by simp
qed

text \<open>Steps that change neither a pool, nor a grant, nor the shared control's marks.\<close>

definition idle_part :: "scheduler \<Rightarrow> _" where
  "idle_part s = (s_pools s, grants (s_out s), ctl_part s)"

named_theorems idle_simps

lemma calls_pools: "s_pools s' = s_pools s \<Longrightarrow> grants (s_out s') = grants (s_out s) \<Longrightarrow> calls r s' = calls r s"
  by (simp add: calls_def answers_def)

lemma calm_idle: "idle_part s' = idle_part s \<Longrightarrow> calm e s s'"
  using calls_pools [of s' s] by (auto simp: idle_part_def calm_def kept_def)

lemma calm_idle_l: "idle_part t = idle_part s \<Longrightarrow> calm e t u \<Longrightarrow> calm e s u"
  using calm_idle [of t s e] calm_trans by blast

lemma calm_idle_r: "idle_part u = idle_part t \<Longrightarrow> calm e s t \<Longrightarrow> calm e s u"
  using calm_idle [of u t e] calm_trans by blast

lemma grants_quiet: "quiet x \<Longrightarrow> grants [x] = []"
  by (cases x) (simp_all add: quiet_def grants_def List.map_filter_def)

lemma idle_emit [idle_simps]: "quiet x \<Longrightarrow> idle_part (emit [x] s) = idle_part s"
  by (simp add: idle_part_def emit_def ctl_part_def grants_quiet)

lemma idle_with_shared:
  "(\<And>c. sh_config (f c) = sh_config c \<and> sh_synced (f c) = sh_synced c \<and> sh_retry_at (f c) = sh_retry_at c \<and>
      sh_global_blocked (f c) = sh_global_blocked c) \<Longrightarrow> idle_part (with_shared f s) = idle_part s"
  by (cases "s_shared s") (simp_all add: idle_part_def with_shared_def ctl_part_def)

lemma idle_fields [idle_simps]:
  "idle_part (s\<lparr>s_in_flight := n\<rparr>) = idle_part s" "idle_part (s\<lparr>s_queued_total := n\<rparr>) = idle_part s"
  "idle_part (s\<lparr>s_in_flight := n, s_queued_total := m\<rparr>) = idle_part s"
  "idle_part (s\<lparr>s_next_op_id := i, s_in_flight := n, s_queued_total := m\<rparr>) = idle_part s"
  "idle_part (s\<lparr>s_stats := st\<rparr>) = idle_part s" "idle_part (s\<lparr>s_session_affinity := c\<rparr>) = idle_part s"
  "idle_part (s\<lparr>s_model_caps := mc\<rparr>) = idle_part s" "idle_part (s\<lparr>s_pool_order := os\<rparr>) = idle_part s"
  "idle_part (s\<lparr>s_pool_order := os, s_cursor := i\<rparr>) = idle_part s"
  by (simp_all add: idle_part_def ctl_part_def)

lemma idle_notes [idle_simps]:
  "idle_part (note_unrecorded s) = idle_part s" "idle_part (one_op_fewer s) = idle_part s"
  "idle_part (publish_stats s) = idle_part s" "idle_part (move_cursor s) = idle_part s"
  "idle_part (note_held s) = idle_part s" "idle_part (note_redeemed s) = idle_part s"
  by (simp_all add: note_unrecorded_def one_op_fewer_def publish_stats_def note_held_def note_redeemed_def Let_def idle_with_shared idle_simps)
    (simp add: move_cursor_def idle_part_def ctl_part_def)

lemma idle_load [idle_simps]: "idle_part (publish_model_load k s) = idle_part s"
  by (simp add: publish_model_load_def idle_part_def ctl_part_def split: pool_key.splits)

lemma idle_release_shared [idle_simps]:
  "idle_part (spawn_release sl s) = idle_part s" "idle_part (release_shared sl s) = idle_part s"
  by (simp_all add: spawn_release_def release_shared_def idle_simps idle_with_shared)

lemma idle_acquire [idle_simps]: "idle_part (spawn_acquire c s) = idle_part s"
  by (simp add: spawn_acquire_def idle_simps idle_with_shared)

lemma idle_send_claims [idle_simps]: "idle_part (send_claims cs s) = idle_part s"
  unfolding send_claims_def by (induction cs arbitrary: s) (auto simp: idle_simps)

lemma idle_reconcile [idle_simps]: "idle_part (maybe_start_reconcile s) = idle_part s"
  by (simp add: maybe_start_reconcile_def idle_simps idle_with_shared split: option.splits)

lemma idle_view [idle_simps]: "idle_part (publish_view e s) = idle_part s" "idle_part (view_published r s) = idle_part s"
  by (simp_all add: publish_view_def view_published_def idle_simps idle_with_shared split: option.splits)

section \<open>Changing pools\<close>

lemma pools_ok: "sched_inv P s \<Longrightarrow> hmap_ok (s_pools s)"
  by (simp add: sched_inv_def core_def)

lemma calls_put:
  assumes "hmap_ok (s_pools s)" and "map_of (s_pools s) k = Some p" and "s_pools s' = AList.update k p' (s_pools s)"
    and "pool_calls r p' + answers r s' = pool_calls r p + answers r s"
  shows "calls r s' = calls r s"
  using msum_update [OF assms(1), of "pool_calls r" k p'] assms(2-4) by (simp add: calls_def)

lemma calm_put:
  assumes "sched_inv P s" and "map_of (s_pools s) k = Some p" and "s_pools s' = AList.update k p' (s_pools s)"
    and "ctl_part s' = ctl_part s" and "marks p' = marks p" and "s_shared s = None \<Longrightarrow> p_pending p' = p_pending p"
    and "\<And>r. \<not> e_dead e r \<Longrightarrow> pool_calls r p' + answers r s' = pool_calls r p + answers r s"
  shows "calm e s s'"
  using calls_put [OF pools_ok [OF assms(1)] assms(2,3)] assms(2-7) by (auto simp: calm_def kept_def)

lemma msum_pools_cong:
  "(\<And>k p. (k, p) \<in> set m \<Longrightarrow> g p = f p + h p) \<Longrightarrow> msum g m = msum f m + msum h m"
proof (induction m)
  case (Cons x m)
  have "g (snd x) = f (snd x) + h (snd x)" using Cons.prems [of "fst x" "snd x"] by simp
  moreover have "msum g m = msum f m + msum h m" using Cons.prems by (intro Cons.IH) auto
  ultimately show ?case by simp
qed simp

lemma msum_map: "msum f (map (\<lambda>(k, p). (k, g p)) m) = msum (\<lambda>p. f (g p)) m"
  by (simp add: msum_def comp_def case_prod_beta')

lemma calm_each:
  assumes inv: "sched_inv P s" and "s_pools s' = map (\<lambda>(k, p). (k, f p)) (s_pools s)" and "ctl_part s' = ctl_part s"
    and each: "\<And>k p. map_of (s_pools s) k = Some p \<Longrightarrow> marks (f p) = marks p \<and> p_pending (f p) = p_pending p \<and>
      (\<forall>r. \<not> e_dead e r \<longrightarrow> pool_calls r p = pool_calls r (f p) + count (mset (map ad_respond (ads p))) r)"
    and "\<And>r. answers r s' = answers r s + msum (\<lambda>p. count (mset (map ad_respond (ads p))) r) (s_pools s)"
  shows "calm e s s'"
proof -
  have "calls r s' = calls r s" if "\<not> e_dead e r" for r
  proof -
    have "msum (pool_calls r) (s_pools s) =
      msum (\<lambda>p. pool_calls r (f p)) (s_pools s) + msum (\<lambda>p. count (mset (map ad_respond (ads p))) r) (s_pools s)"
      using each that pools_ok [OF inv] by (intro msum_pools_cong) (simp add: hmap_entry)
    then show ?thesis using assms(2,5) by (simp add: calls_def msum_map)
  qed
  moreover have "\<exists>p. map_of (s_pools s) k = Some p \<and> marks p' = marks p \<and> p_pending p' = p_pending p"
    if "map_of (s_pools s') k = Some p'" for k p'
  proof -
    obtain p where p: "map_of (s_pools s) k = Some p" "p' = f p" using \<open>map_of (s_pools s') k = Some p'\<close>
      by (auto simp: assms(2) map_of_map_value)
    show ?thesis using each [OF p(1)] p by simp
  qed
  ultimately show ?thesis using assms(3) unfolding calm_def kept_def by blast
qed

lemma put_parts [simp]:
  "ctl_part (put_pool k p s) = ctl_part s" "s_pools (put_pool k p s) = AList.update k p (s_pools s)"
  "answers r (put_pool k p s) = answers r s"
  by (simp_all add: put_pool_def ctl_part_def answers_def)

lemma emit_parts [simp]:
  "ctl_part (emit xs s) = ctl_part s" "s_pools (emit xs s) = s_pools s"
  "answers r (emit xs s) = answers r s + count (mset (map ad_respond (grants xs))) r"
  by (simp_all add: emit_def ctl_part_def answers_def)

lemma each_parts [simp]:
  "ctl_part (each_pool f s) = ctl_part s" "answers r (each_pool f s) = answers r s"
  "s_pools (each_pool f s) = map (\<lambda>(k, p). (k, f p)) (s_pools s)"
  by (simp_all add: each_pool_def ctl_part_def answers_def)

section \<open>Releasing and serving held slots\<close>

lemma calm_release_pool:
  assumes "sched_inv P s"
  shows "calm e s (with_pool k (\<lambda>p. settle_idle now (release t key p)) s)"
proof (cases "map_of (s_pools s) k")
  case (Some p)
  note I = sched_invD [OF assms Some]
  show ?thesis
    using Some pool_calls_settle [OF queues_ok_release [OF I(3)]] pool_calls_release [OF I(3)]
    by (intro calm_put [OF assms Some, where p' = "settle_idle now (release t key p)"]) (simp_all add: with_pool_def marks_def pool_fields)
qed (simp add: with_pool_def)

lemma calm_release_slot:
  assumes "sched_inv P s"
  shows "calm e s (release_slot e k t key s)"
proof -
  let ?w = "\<lambda>s. with_pool k (\<lambda>p. settle_idle (e_now e) (release t key p)) s"
  have "idle_part (?w (s\<lparr>s_in_flight := n\<rparr>)) = idle_part (?w s)" for n
    by (simp add: with_pool_def put_pool_def idle_part_def ctl_part_def split: option.splits)
  then have "idle_part (release_slot e k t key s) = idle_part (?w s)" by (simp add: release_slot_def Let_def idle_simps)
  then show ?thesis using calm_idle_r [OF _ calm_release_pool [OF assms]] by blast
qed

lemma calm_given_up: "sched_inv (P + given gs) s \<Longrightarrow> calm e s (release_given_up e gs s)"
  unfolding release_given_up_def
proof (induction gs arbitrary: s)
  case (Cons x gs)
  obtain k h where x: "x = (k, h)" by (cases x)
  have i: "sched_inv (add_mset (k, h_tenant h, h_key h) (P + given gs)) s" using Cons.prems x by (simp add: hold_slot_def)
  show ?case using calm_trans [OF calm_release_slot [OF i] Cons.IH [OF release_slot_inv [OF i]]] x by simp
qed simp

lemma serve_pool_calls:
  assumes "pool_inv X p" and "serve_pool e g p = (p', gone, ads, d)" and "\<not> e_dead e r"
  shows "pool_calls r p = pool_calls r p' + count (mset (map ad_respond ads)) r"
proof -
  obtain p1 gone1 where h: "holds_to_give_up (e_dead e) (e_now e) p = (p1, gone1)" by fastforce
  obtain p2 ads2 d2 where r: "redeem_queued (e_dead e) (e_now e) p1 = (p2, ads2, d2)" by (cases "redeem_queued (e_dead e) (e_now e) p1") auto
  have q: "queues_ok p1" using holds_to_give_up_inv [OF assms(1) h] by (simp add: pool_inv_def)
  have "(p', gone, ads, d) = (if af_held (p_affinity p) = 0 then (p, [], [], 0) else if g then (p2, gone1, ads2, d2) else (p1, gone1, [], 0))"
    using assms(2) h r by (simp add: serve_pool_def split: if_splits)
  then show ?thesis
    using redeem_queued_calls [OF q r, of r] assms(3) pool_calls_give_up [of r "e_dead e" "e_now e" p] h by (auto split: if_splits)
qed

lemma calm_serve_each:
  assumes inv: "sched_inv P s" and sp: "\<And>p. serve_pool e g p = (f p, gone p, ads p, d p)"
  shows "calm e s (serve_each f ads d s)"
proof (rule calm_each [OF inv, where f = f and ads = ads])
  fix k p assume p: "map_of (s_pools s) k = Some p"
  note S = serve_pool_inv [OF sched_invD(2) [OF inv p] sp] serve_pool_calls [OF sched_invD(2) [OF inv p] sp]
  show "marks (f p) = marks p \<and> p_pending (f p) = p_pending p \<and>
    (\<forall>r. \<not> e_dead e r \<longrightarrow> pool_calls r p = pool_calls r (f p) + count (mset (map ad_respond (ads p))) r)"
    using marks_conf [OF S(2)] S(3,7) by blast
next
  have "count (mset (map ad_respond (concat (map ads (hvals m))))) r = msum (\<lambda>p. count (mset (map ad_respond (ads p))) r) m" for r m
    by (induction m) (simp_all add: hvals_def)
  then show "answers r (serve_each f ads d s) = answers r s + msum (\<lambda>p. count (mset (map ad_respond (ads p))) r) (s_pools s)" for r
    by (simp add: serve_each_def answers_def emit_def each_pool_def)
qed (simp_all add: serve_each_def each_pool_def emit_def ctl_part_def)

lemma calm_serve_holds: "sched_inv P s \<Longrightarrow> calm e s (serve_holds e s)"
proof (cases rule: serve_holds_cases [of e s])
  case (served f gone ads d)
  assume inv: "sched_inv P s"
  show ?thesis unfolding served(2)
    by (rule calm_trans [OF calm_serve_each [OF inv served(1)] calm_given_up [OF serve_each_inv [OF inv served(1)]]])
qed simp

lemma calm_expire_holds:
  assumes inv: "sched_inv P s"
  shows "calm e s (expire_holds e s)"
proof -
  let ?g = "\<lambda>p. snd (af_expire (e_now e) (p_affinity p))"
  have "calm e s (each_pool (expire_pool e) s)"
    by (rule calm_each [OF inv, where f = "expire_pool e" and ads = "\<lambda>_. []"]) (simp_all add: expire_pool_def marks_def pool_fields msum_eq_0)
  moreover have "sched_inv (P + given (handed_back ?g s)) (each_pool (expire_pool e) s)"
  proof (rule each_pool_handback [OF inv])
    show "pool_inv (X + image_mset hold_slot (mset (?g p))) (expire_pool e p)" if "pool_inv X p" for X p
      unfolding expire_pool_def using pool_inv_handback [OF that] expire_back.conserve by blast
  qed (simp_all add: expire_pool_def pool_fields)
  ultimately show ?thesis unfolding expire_holds_def using calm_trans calm_given_up by blast
qed

section \<open>Dispatch\<close>

lemma pool_calls_settle_if: "queues_ok p \<Longrightarrow> pool_calls r (if b then settle_idle now p else p) = pool_calls r p"
  by (simp add: pool_calls_settle)

lemma calm_local_visit:
  assumes inv: "sched_inv P s" and v: "local_visit e ceil i s = (s', g)"
  shows "calm e s s'"
proof -
  let ?k = "pool_at s i"
  show ?thesis
  proof (cases "map_of (s_pools s) ?k")
    case None
    then show ?thesis using v by (simp add: local_visit_def)
  next
    case (Some p)
    note I = sched_invD [OF inv Some]
    obtain p' ad d where x: "dispatch_one (e_dead e) (e_now e) (effective_cap (ceil - s_in_flight s) p) p = (p', ad, d)"
      by (cases "dispatch_one (e_dead e) (e_now e) (effective_cap (ceil - s_in_flight s) p) p") auto
    note D = dispatch_one_inv [OF I(2) x] dispatch_one_fields [OF I(3) x] dispatch_one_calls [OF I(2) x]
    have ok: "queues_ok p'" using D(1) by (auto simp: pool_inv_def split: option.splits)
    let ?p = "if 0 < d then settle_idle (e_now e) p' else p'"
    let ?out = "case ad of None \<Rightarrow> [] | Some a \<Rightarrow> [SendGrant a]"
    have "calm e s (emit ?out (put_pool ?k ?p s))"
      using D pool_calls_settle_if [OF ok]
      by (intro calm_put [OF inv Some, where p' = ?p]) (auto simp: marks_def pool_fields split: option.splits)
    moreover have "idle_part s' = idle_part (emit ?out (put_pool ?k ?p s)) \<or> s' = s"
    proof (cases "p_queued_total p = 0")
      case False
      have f: "idle_part (emit xs (t\<lparr>s_queued_total := n\<rparr>)) = idle_part (emit xs t)" for xs t n
        by (simp add: idle_part_def emit_def ctl_part_def)
      show ?thesis using v Some False x f
        by (cases ad) (auto simp: local_visit_def Let_def idle_simps emit_def)
    qed (use v Some in \<open>simp add: local_visit_def\<close>)
    ultimately show ?thesis using calm_idle_r [of s' _ e s] by auto
  qed
qed

lemma calm_local_pass: "sched_inv P s \<Longrightarrow> local_pass e ceil is s = (s', g) \<Longrightarrow> calm e s s'"
proof (induction "is" arbitrary: s s' g)
  case (Cons i "is")
  obtain s1 g1 where v: "local_visit e ceil i s = (s1, g1)" by fastforce
  obtain s2 g2 where r: "local_pass e ceil is s1 = (s2, g2)" by fastforce
  have "calm e s s2"
    using calm_trans [OF calm_local_visit [OF Cons.prems(1) v] Cons.IH [OF local_visit_inv [OF Cons.prems(1) v] r]] .
  then show ?case using Cons.prems v r by (auto split: if_splits)
qed simp

lemma calm_local_loop: "sched_inv P s \<Longrightarrow> calm e s (local_loop e ceil b s)"
proof (induction e ceil b s rule: local_loop.induct)
  case (1 e ceil b s)
  obtain s1 g where v: "local_pass e ceil [0..<length (s_pool_order s)] s = (s1, g)" by fastforce
  have i: "sched_inv P (move_cursor s1)" using local_pass_inv [OF 1(2) v] sched_inv_ess [OF ess_cursor] by simp
  have c: "calm e s (move_cursor s1)" using calm_idle_r [OF _ calm_local_pass [OF 1(2) v]] by (simp add: idle_simps)
  show ?case
  proof (cases "b \<and> s_in_flight s < ceil \<and> 0 < s_queued_total s")
    case True
    then show ?thesis using calm_trans [OF c 1(1) [OF True v [symmetric] refl i]] v by (subst local_loop.simps) simp
  next
    case False
    then show ?thesis by (subst local_loop.simps) (simp only: False if_False calm_refl)
  qed
qed

lemma calm_start_claim:
  assumes inv: "sched_inv P s" and p: "map_of (s_pools s) k = Some p" and sh: "s_shared s \<noteq> None"
    and f: "conf p' = conf p" "p_pending p' = p_pending p"
    and n: "\<And>r. \<not> e_dead e r \<Longrightarrow> pool_calls r p = pool_calls r p' + (if w_respond w = r then 1 else 0)"
    and c: "start_claim e k p' t key w h ro (s\<lparr>s_queued_total := q\<rparr>) = (s', cl)"
  shows "calm e s s'"
proof -
  let ?c = "\<lparr>pc_tenant = t, pc_key = key, pc_waiter = w\<rparr>"
  let ?p = "p'\<lparr>p_pending := AList.update (s_next_op_id s) ?c (p_pending p')\<rparr>"
  note I = sched_invD [OF inv p]
  have fresh: "map_of (p_pending p') (s_next_op_id s) = None"
  proof (rule ccontr)
    assume "map_of (p_pending p') (s_next_op_id s) \<noteq> None"
    then have "s_next_op_id s \<in> set (hkeys (p_pending p))" using f(2) by (auto simp: hkeys_def dest: map_of_SomeD intro: rev_image_eqI)
    then show False using I(1) by (auto simp: fits_def)
  qed
  have ok: "hmap_ok (p_pending p')" using I(2) f(2) by (simp add: pool_inv_def)
  have "calm e s (put_pool k ?p s)"
    using f n pool_calls_pending [OF ok fresh, of _ ?c] sh by (intro calm_put [OF inv p, where p' = ?p]) (simp_all add: marks_def pool_fields)
  moreover have "idle_part s' = idle_part (put_pool k ?p s)"
    using c by (auto simp: start_claim_def Let_def put_pool_def idle_part_def ctl_part_def)
  ultimately show ?thesis using calm_idle_r by blast
qed

lemma calm_shared_visit:
  assumes inv: "sched_inv P s" and sh: "s_shared s \<noteq> None" and v: "shared_visit e ceil mp i s = (s', cs)"
  shows "calm e s s'"
proof -
  let ?k = "pool_at s i"
  show ?thesis
  proof (cases "map_of (s_pools s) ?k")
    case None
    then show ?thesis using v by (simp add: shared_visit_def)
  next
    case (Some p)
    note I = sched_invD [OF inv Some]
    obtain p1 r d where t: "take_next (e_dead e) (e_now e) (effective_cap (ceil - s_in_flight s) p) p = (p1, r, d)"
      by (cases "take_next (e_dead e) (e_now e) (effective_cap (ceil - s_in_flight s) p) p") auto
    note T = take_next_inv [OF I(2) t] take_next_fields [OF I(3) t] take_next_calls [OF I(2) t]
    have ok: "queues_ok p1" using T(1) by (auto simp: pool_inv_def split: option.splits)
    let ?p = "if 0 < d then settle_idle (e_now e) p1 else p1"
    let ?s = "s\<lparr>s_queued_total := s_queued_total s - d\<rparr>"
    show ?thesis
    proof (cases "p_queued_total p = 0 \<or> p_blocked p \<or> claim_limit mp p \<le> length (p_pending p)")
      case True
      then show ?thesis using v Some by (simp add: shared_visit_def)
    next
      case False
      show ?thesis
      proof (cases r)
        case None
        have "s' = put_pool ?k ?p ?s" using v Some False t None by (simp add: shared_visit_def)
        then have "idle_part s' = idle_part (put_pool ?k ?p s)" by (simp add: put_pool_def idle_part_def ctl_part_def)
        moreover have "calm e s (put_pool ?k ?p s)"
          using T None pool_calls_settle_if [OF ok] by (intro calm_put [OF inv Some, where p' = ?p]) (simp_all add: marks_def pool_fields)
        ultimately show ?thesis using calm_idle_r by blast
      next
        case y: (Some x)
        obtain tt key w where x: "x = (tt, key, w)" by (cases x) auto
        obtain s1 cl where c1: "start_claim e ?k ?p tt key w (holds_on (p_affinity ?p)) False ?s = (s1, cl)"
          by (cases "start_claim e ?k ?p tt key w (holds_on (p_affinity ?p)) False ?s") auto
        have "start_claim e ?k ?p tt key w (holds_on (p_affinity ?p)) False ?s = (s', cl)"
          using v Some False t y x c1 by (simp add: shared_visit_def Let_def split del: if_split)
        then show ?thesis
          using T y x pool_calls_settle_if [OF ok] by (intro calm_start_claim [OF inv Some sh, where p' = ?p]) (simp_all add: pool_fields)
      qed
    qed
  qed
qed

lemma calm_shared: "calm e s s' \<Longrightarrow> s_shared s \<noteq> None \<Longrightarrow> s_shared s' \<noteq> None"
  using ctl_part_None [of s' s] by (auto simp: calm_def)

lemma calm_shared_pass:
  "sched_inv P s \<Longrightarrow> s_shared s \<noteq> None \<Longrightarrow> shared_pass e ceil mp is s = (s', cs) \<Longrightarrow> calm e s s'"
proof (induction "is" arbitrary: s s' cs)
  case (Cons i "is")
  obtain s1 c1 where v: "shared_visit e ceil mp i s = (s1, c1)" by fastforce
  obtain s2 c2 where r: "shared_pass e ceil mp is s1 = (s2, c2)" by fastforce
  note V = calm_shared_visit [OF Cons.prems(1,2) v]
  have "calm e s s2"
    using calm_trans [OF V Cons.IH [OF shared_visit_inv [OF Cons.prems(1) v] calm_shared [OF V Cons.prems(2)] r]] .
  then show ?case using Cons.prems v r by (auto split: if_splits)
qed simp

lemma calm_shared_loop:
  "sched_inv P s \<Longrightarrow> s_shared s \<noteq> None \<Longrightarrow> shared_loop e ceil mp b s = (s', cs) \<Longrightarrow> calm e s s'"
proof (induction e ceil mp b s arbitrary: s' cs rule: shared_loop.induct)
  case (1 e ceil mp b s)
  obtain s1 c1 where v: "shared_pass e ceil mp [0..<length (s_pool_order s)] s = (s1, c1)" by fastforce
  obtain s2 c2 where r: "shared_loop e ceil mp (c1 \<noteq> []) (move_cursor s1) = (s2, c2)" by fastforce
  have m: "sched_inv P (move_cursor s1)" using shared_pass_inv [OF 1(2) v] sched_inv_ess [OF ess_cursor] by simp
  have c: "calm e s (move_cursor s1)" using calm_idle_r [OF _ calm_shared_pass [OF 1(2,3) v]] by (simp add: idle_simps)
  show ?case
  proof (cases "b \<and> s_in_flight s < ceil \<and> 0 < s_queued_total s")
    case True
    have "calm e s s2" using calm_trans [OF c 1(1) [OF True v [symmetric] refl m calm_shared [OF c 1(3)] r]] .
    moreover have "shared_loop e ceil mp b s = (s2, c1 @ c2)" using True v r by (subst shared_loop.simps) simp
    ultimately show ?thesis using 1(4) by simp
  next
    case False
    then have "shared_loop e ceil mp b s = (s, [])" by (subst shared_loop.simps) (simp only: False if_False)
    then show ?thesis using 1(4) by simp
  qed
qed

lemma calm_probe_pool:
  "sched_inv P s \<Longrightarrow> s_shared s \<noteq> None \<Longrightarrow> probe_pool e limit k s = (s', cs) \<Longrightarrow> calm e s s'"
proof (induction e limit k s arbitrary: s' cs rule: probe_pool.induct)
  case (1 e limit k s)
  show ?case
  proof (cases "map_of (s_pools s) k")
    case None
    then show ?thesis using 1(4) by (simp add: probe_pool.simps)
  next
    case (Some p)
    note I = sched_invD [OF 1(2) Some]
    obtain p1 r where t: "take_probe (e_dead e) p = (p1, r)" by fastforce
    show ?thesis
    proof (cases "p_queued_total p = 0 \<or> limit \<le> length (p_pending p)")
      case True
      then show ?thesis using 1(4) Some by (simp add: probe_pool.simps)
    next
      case False
      then have F: "conf p1 = conf p" "p_pending p1 = p_pending p" "p_queued_total p = p_queued_total p1 + (if r = None then 0 else 1)"
        "p_in_flight p1 = p_in_flight p + (if r = None then 0 else 1)"
        using take_probe_fields [OF I(3) _ t] by simp_all
      note T = take_probe_inv [OF I(2) t] take_probe_calls [OF I(2) t]
      show ?thesis
      proof (cases r)
        case None
        then have "s' = put_pool k p1 s" using 1(4) Some False t by (simp add: probe_pool.simps)
        then show ?thesis using T F None by (intro calm_put [OF 1(2) Some, where p' = p1]) (simp_all add: marks_def)
      next
        case x: (Some x)
        obtain tt key w where xx: "x = (tt, key, w)" by (cases x) auto
        obtain s1 c where c: "start_claim e k p1 tt key w True True s = (s1, c)"
          by (cases "start_claim e k p1 tt key w True True s") auto
        obtain s2 cs2 where r2: "probe_pool e limit k s1 = (s2, cs2)" by fastforce
        have i: "sched_inv P s1" using start_claim_inv [OF 1(2) Some, where d = 0 and p' = p1] c T F x xx by simp
        have k: "calm e s s1"
          using T(2) x xx F c by (intro calm_start_claim [OF 1(2) Some 1(3), where p' = p1 and q = "s_queued_total s"]) simp_all
        have "calm e s s2"
          using calm_trans [OF k 1(1) [OF Some False t [symmetric] _ refl refl c [symmetric] refl i calm_shared [OF k 1(3)] r2]] x xx by simp
        then show ?thesis using 1(4) Some False t c r2 x xx by (simp add: probe_pool.simps [of e limit k s])
      qed
    qed
  qed
qed

lemma calm_probe_pools:
  "sched_inv P s \<Longrightarrow> s_shared s \<noteq> None \<Longrightarrow> probe_pools e mp ks s = (s', cs) \<Longrightarrow> calm e s s'"
proof (induction ks arbitrary: s s' cs)
  case (Cons k ks)
  define r where "r = (case map_of (s_pools s) k of None \<Rightarrow> (s, [])
     | Some p \<Rightarrow> if holds_on (p_affinity p) then probe_pool e (claim_limit mp p) k s else (s, []))"
  obtain s1 c1 where r1: "r = (s1, c1)" by (cases r)
  obtain s2 c2 where r2: "probe_pools e mp ks s1 = (s2, c2)" by fastforce
  have s1: "sched_inv P s1 \<and> calm e s s1"
    using Cons.prems(1,2) r1 probe_pool_inv calm_probe_pool [OF Cons.prems(1,2)]
    by (auto simp: r_def split: option.splits if_splits)
  have "calm e s s2"
    using s1 calm_trans [of e s s1 s2] Cons.IH [OF _ calm_shared [OF _ Cons.prems(2)] r2] by blast
  moreover have "s' = s2" using Cons.prems(3) r1 r2 by (simp add: r_def [symmetric])
  ultimately show ?case by simp
qed simp

lemma calm_dispatch_shared:
  assumes inv: "sched_inv P s"
  shows "calm e s (dispatch_shared e s)"
proof (cases "quiescing s \<or> s_shared s = None \<or> s_pool_order s = []")
  case False
  then obtain c where sh: "s_shared s = Some c" by auto
  let ?mp = "max (cf_max_pending_per_pool (sh_config c)) 1"
  obtain s1 c1 where v: "shared_loop e (ceil_of e s) ?mp (\<not> sh_global_blocked c) s = (s1, c1)" by fastforce
  obtain s2 c2 where r: "probe_pools e ?mp (s_pool_order s1) s1 = (s2, c2)" by fastforce
  have e: "dispatch_shared e s = send_claims (c1 @ c2) s2"
    using False sh v r by (simp add: dispatch_shared_def)
  have a: "calm e s s1" using calm_shared_loop [OF inv _ v] sh by simp
  have "calm e s1 s2" using calm_probe_pools [OF shared_loop_inv [OF inv v] calm_shared [OF a] r] sh by simp
  then show ?thesis unfolding e using calm_idle_r [OF idle_send_claims] calm_trans [OF a] by blast
qed (auto simp: dispatch_shared_def split: option.splits)

lemma calm_dispatch_all:
  assumes inv: "sched_inv P s"
  shows "calm e s (dispatch_all e s)"
proof -
  have s: "calm e s (serve_holds e s)" "sched_inv P (serve_holds e s)"
    using calm_serve_holds [OF inv] serve_holds_inv [OF inv] by simp_all
  show ?thesis
    using calm_trans [OF s(1)] calm_dispatch_shared [OF s(2)] calm_local_loop [OF s(2)] s(1)
    by (simp add: dispatch_all_def Let_def)
qed

end
