(* ===== verification/Sched_Steady.thy ===== *)
theory Sched_Steady
  imports Sched_Calm
begin

text \<open>
  Every message and timer keeps the scheduler tuned (the mode and the divisor are the wanted ones,
  and a retry is scheduled while a denial is recorded) and keeps every live caller: the relation
  \<open>steady\<close>, over the calm steps of \<open>Sched_Calm\<close>.
\<close>

section \<open>Steady steps\<close>

text \<open>
  \<open>tuned s\<close>: the mode and the divisor are the ones the replica count and the shared backend call
  for, and while a denial is recorded anywhere a retry is scheduled. (Without a shared backend
  nothing is recorded and no claim is pending.) A steady step keeps this and every live caller.
\<close>

definition unmarked :: "pool \<Rightarrow> bool" where
  "unmarked p \<longleftrightarrow> marks p = (False, [], [])"

definition all_unmarked :: "scheduler \<Rightarrow> bool" where
  "all_unmarked s \<longleftrightarrow> (\<forall>k p. map_of (s_pools s) k = Some p \<longrightarrow> unmarked p)"

definition no_claims :: "scheduler \<Rightarrow> bool" where
  "no_claims s \<longleftrightarrow> (\<forall>k p. map_of (s_pools s) k = Some p \<longrightarrow> p_pending p = [])"

definition armed :: "scheduler \<Rightarrow> bool" where
  "armed s \<longleftrightarrow>
     (case s_shared s of
        None \<Rightarrow> all_unmarked s \<and> no_claims s
      | Some c \<Rightarrow> sh_retry_at c \<noteq> None \<or> (\<not> sh_global_blocked c \<and> all_unmarked s))"

definition tuned :: "scheduler \<Rightarrow> bool" where
  "tuned s \<longleftrightarrow> s_mode s = wanted_mode s \<and> s_divisor s = wanted_divisor s \<and> armed s"

definition mode_part :: "scheduler \<Rightarrow> _" where
  "mode_part s = (s_mode s, s_divisor s, s_replicas s, map_option (\<lambda>c. (sh_config c, sh_synced c)) (s_shared s))"

definition steady :: "env \<Rightarrow> scheduler \<Rightarrow> scheduler \<Rightarrow> bool" where
  "steady e s s' \<longleftrightarrow> kept e s s' \<and> (tuned s \<longrightarrow> tuned s')"

lemma steady_refl [simp]: "steady e s s"
  by (simp add: steady_def)

lemma steady_trans: "steady e s t \<Longrightarrow> steady e t u \<Longrightarrow> steady e s u"
  using kept_trans by (auto simp: steady_def)

lemma mode_part_wanted: "mode_part s' = mode_part s \<Longrightarrow>
  s_mode s' = s_mode s \<and> s_divisor s' = s_divisor s \<and> wanted_mode s' = wanted_mode s \<and> wanted_divisor s' = wanted_divisor s"
proof -
  assume m: "mode_part s' = mode_part s"
  then have w: "wanted_mode s' = wanted_mode s"
    by (cases "s_shared s"; cases "s_shared s'") (simp_all add: mode_part_def wanted_mode_def)
  then show ?thesis using m
    by (cases "s_shared s"; cases "s_shared s'") (simp_all add: mode_part_def wanted_divisor_def split: slot_mode.splits)
qed

lemma steady_parts:
  assumes "mode_part s' = mode_part s" and "kept e s s'" and "armed s \<Longrightarrow> armed s'"
  shows "steady e s s'"
  using mode_part_wanted [OF assms(1)] assms(2,3) by (simp add: steady_def tuned_def)

lemma ctl_mode_part: "ctl_part s' = ctl_part s \<Longrightarrow> mode_part s' = mode_part s"
  by (cases "s_shared s"; cases "s_shared s'") (simp_all add: ctl_part_def mode_part_def)

lemma calm_armed: "calm e s s' \<Longrightarrow> armed s \<Longrightarrow> armed s'"
proof -
  assume c: "calm e s s'" and a: "armed s"
  have u: "all_unmarked s'" if "all_unmarked s"
    unfolding all_unmarked_def
  proof (intro allI impI)
    fix k p' assume "map_of (s_pools s') k = Some p'"
    then obtain p where "map_of (s_pools s) k = Some p" "marks p' = marks p" using c unfolding calm_def by blast
    then show "unmarked p'" using that by (simp add: all_unmarked_def unmarked_def)
  qed
  have n: "no_claims s'" if nc: "no_claims s" and none: "s_shared s = None"
    unfolding no_claims_def
  proof (intro allI impI)
    fix k p' assume "map_of (s_pools s') k = Some p'"
    then obtain p where "map_of (s_pools s) k = Some p" "p_pending p' = p_pending p" using c none unfolding calm_def by blast
    then show "p_pending p' = []" using nc by (simp add: no_claims_def)
  qed
  have "ctl_part s' = ctl_part s" using c by (simp add: calm_def)
  then show ?thesis
    using a u n by (cases "s_shared s"; cases "s_shared s'") (auto simp: armed_def ctl_part_def)
qed

lemma calm_steady: "calm e s s' \<Longrightarrow> steady e s s'"
  using steady_parts [of s' s e] ctl_mode_part [of s' s] calm_armed [of e s s'] by (simp add: calm_def)

lemma idle_steady: "idle_part s' = idle_part s \<Longrightarrow> steady e s s'"
  using calm_steady [OF calm_idle] .

lemma steady_idle_r: "idle_part u = idle_part t \<Longrightarrow> steady e s t \<Longrightarrow> steady e s u"
  using idle_steady steady_trans by blast

lemma steady_idle_l: "idle_part t = idle_part s \<Longrightarrow> steady e t u \<Longrightarrow> steady e s u"
  using idle_steady steady_trans by blast

lemma kept_each:
  assumes "hmap_ok (s_pools s)" and "s_pools s' = map (\<lambda>(k, p). (k, f k p)) (s_pools s)" and "grants (s_out s') = grants (s_out s)"
    and "\<And>k p r. map_of (s_pools s) k = Some p \<Longrightarrow> pool_calls r (f k p) = pool_calls r p"
  shows "kept e s s'"
proof -
  have "msum (pool_calls r) (map (\<lambda>(k, p). (k, f k p)) m) = msum (pool_calls r) m" if "set m \<subseteq> set (s_pools s)" for r m
    using that
  proof (induction m)
    case (Cons x m)
    obtain k p where x: "x = (k, p)" by (cases x)
    have "pool_calls r (f k p) = pool_calls r p" using assms(1,4) Cons.prems x by (simp add: hmap_entry)
    then show ?case using Cons x by simp
  qed simp
  then show ?thesis using assms(2,3) by (simp add: kept_def calls_def answers_def)
qed

lemma map_of_each: "map_of (s_pools (each_pool f s)) k = map_option f (map_of (s_pools s) k)"
  by (simp add: map_of_map_value)

section \<open>Changing the mode\<close>

lemma unmarked_unblock [simp]: "unmarked (unblock p)"
  by (simp add: unmarked_def marks_def conf_def unblock_def)

lemma unmarked_fields [simp]:
  "unmarked (p\<lparr>p_probing := b\<rparr>) = unmarked p" "unmarked (p\<lparr>p_cluster_in_flight := c\<rparr>) = unmarked p"
  "unmarked (set_divisor d p) = unmarked p" "unmarked (set_configured_cap n p) = unmarked p" "unmarked (p\<lparr>p_affinity := a\<rparr>) = unmarked p"
  by (simp_all add: unmarked_def marks_def conf_def set_divisor_def set_configured_cap_def)

lemma armed_clear:
  assumes "all_unmarked s" and "\<And>c. s_shared s = Some c \<Longrightarrow> \<not> sh_global_blocked c" and "s_shared s = None \<Longrightarrow> no_claims s"
  shows "armed s"
  using assms by (auto simp: armed_def split: option.splits)

lemma armed_each:
  assumes "armed s" and "\<And>p. unmarked p \<Longrightarrow> unmarked (f p)" and "\<And>p. p_pending (f p) = p_pending p"
  shows "armed (each_pool f s)"
proof -
  have "all_unmarked (each_pool f s)" if "all_unmarked s" using that assms(2) by (auto simp: all_unmarked_def map_of_map_value)
  moreover have "no_claims (each_pool f s)" if "no_claims s" using that assms(3) by (auto simp: no_claims_def map_of_map_value)
  moreover have "s_shared (each_pool f s) = s_shared s" by (simp add: each_pool_def)
  ultimately show ?thesis using assms(1) by (auto simp: armed_def split: option.splits)
qed

lemma armed_fields [simp]:
  "armed (s\<lparr>s_divisor := d\<rparr>) = armed s" "armed (s\<lparr>s_mode := m, s_stats := st\<rparr>) = armed s" "armed (s\<lparr>s_replicas := n\<rparr>) = armed s"
  by (simp_all add: armed_def all_unmarked_def no_claims_def split: option.splits)

lemma leave_shared_armed: "s_shared s = None \<Longrightarrow> no_claims s \<Longrightarrow> armed (leave_shared s)" "s_shared s \<noteq> None \<Longrightarrow> armed (leave_shared s)"
proof -
  have u: "all_unmarked (leave_shared s)"
    by (auto simp: all_unmarked_def leave_shared_def with_shared_def each_pool_def map_of_map_value)
  have n: "no_claims (leave_shared s)" if "no_claims s"
    using that by (auto simp: no_claims_def leave_shared_def with_shared_def each_pool_def map_of_map_value unblock_def)
  show "s_shared s = None \<Longrightarrow> no_claims s \<Longrightarrow> armed (leave_shared s)"
    by (rule armed_clear [OF u _ n]) (auto simp: leave_shared_def with_shared_def each_pool_def)
  show "s_shared s \<noteq> None \<Longrightarrow> armed (leave_shared s)"
    by (rule armed_clear [OF u]) (auto simp: leave_shared_def with_shared_def each_pool_def)
qed

definition divide_pools :: "nat \<Rightarrow> scheduler \<Rightarrow> scheduler" where
  "divide_pools d s = (if d \<noteq> s_divisor s then each_pool (set_divisor d) (s\<lparr>s_divisor := d\<rparr>) else s)"

definition switch :: "slot_mode \<Rightarrow> scheduler \<Rightarrow> scheduler" where
  "switch mode s =
     (if mode \<noteq> s_mode s then
        (let s = (if s_mode s = Shared then leave_shared s else s)
         in s\<lparr>s_mode := mode, s_stats := (s_stats s)\<lparr>st_mode := slot_mode_to_u8 mode\<rparr>\<rparr>)
      else s)"

lemma apply_mode_eq: "apply_mode s = switch (wanted_mode s) (divide_pools (wanted_divisor s) s)"
  by (simp add: apply_mode_def switch_def divide_pools_def Let_def)

lemma kept_apply_mode:
  assumes "hmap_ok (s_pools s)"
  shows "kept e s (apply_mode s)"
proof -
  have d: "kept e s (divide_pools d s)" for d
    using assms by (simp add: divide_pools_def) (intro impI kept_each [where f = "\<lambda>_. set_divisor d"], simp_all add: each_pool_def)
  have ok: "hmap_ok (s_pools (divide_pools d s))" for d using assms by (simp add: divide_pools_def each_pool_def)
  have "kept e t (switch m t)" if "hmap_ok (s_pools t)" for m t
    using that
    by (intro kept_each [where f = "\<lambda>_ p. if m \<noteq> s_mode t \<and> s_mode t = Shared then (unblock p)\<lparr>p_probing := False, p_cluster_in_flight := None\<rparr> else p"])
      (auto simp: switch_def leave_shared_def with_shared_def each_pool_def Let_def case_prod_unfold)
  then show ?thesis unfolding apply_mode_eq using kept_trans [OF d] ok by blast
qed

lemma tuned_apply_mode: "armed s \<Longrightarrow> tuned (apply_mode s)"
proof -
  assume a: "armed s"
  let ?d = "wanted_divisor s" and ?m = "wanted_mode s"
  have ad: "armed (divide_pools ?d s)"
  proof -
    have "p_pending (set_divisor ?d p) = p_pending p" for p by (simp add: set_divisor_def)
    then show ?thesis using a armed_each [of "s\<lparr>s_divisor := ?d\<rparr>" "set_divisor ?d"] by (simp add: divide_pools_def)
  qed
  have sh: "s_shared (divide_pools ?d s) = s_shared s" "s_divisor (divide_pools ?d s) = ?d" "s_replicas (divide_pools ?d s) = s_replicas s"
    by (simp_all add: divide_pools_def each_pool_def)
  let ?t = "divide_pools ?d s"
  have cl: "s_shared ?t = None \<Longrightarrow> no_claims ?t" using ad by (simp add: armed_def)
  have ls: "armed (leave_shared ?t)" using leave_shared_armed [of ?t] cl by blast
  have sw: "armed (switch ?m ?t)" using ad ls by (simp add: switch_def Let_def)
  have f: "s_mode (switch ?m ?t) = ?m" "s_divisor (switch ?m ?t) = ?d" "s_replicas (switch ?m ?t) = s_replicas s"
    "map_option (\<lambda>c. (sh_config c, sh_synced c)) (s_shared (switch ?m ?t)) = map_option (\<lambda>c. (sh_config c, sh_synced c)) (s_shared s)"
    using sh by (auto simp: switch_def leave_shared_def with_shared_def each_pool_def Let_def option.map_comp comp_def)
  have w: "wanted_mode (switch ?m ?t) = ?m"
    using f(3,4) by (cases "s_shared s"; cases "s_shared (switch ?m ?t)") (simp_all add: wanted_mode_def)
  define u where "u = switch ?m ?t"
  have "wanted_divisor u = ?d"
    using w f(3,4) unfolding u_def [symmetric]
    by (cases "s_shared s"; cases "s_shared u") (simp_all add: wanted_divisor_def split: slot_mode.splits)
  then show ?thesis using w f sw by (simp add: tuned_def apply_mode_eq u_def)
qed

lemma armed_with_shared:
  "(\<And>c. sh_retry_at (f c) = sh_retry_at c \<and> (sh_global_blocked (f c) \<longrightarrow> sh_global_blocked c)) \<Longrightarrow> armed s \<Longrightarrow> armed (with_shared f s)"
proof (cases "s_shared s")
  case (Some c)
  assume f: "\<And>c. sh_retry_at (f c) = sh_retry_at c \<and> (sh_global_blocked (f c) \<longrightarrow> sh_global_blocked c)" and "armed s"
  then show ?thesis using Some f [of c] by (auto simp: armed_def with_shared_def all_unmarked_def)
qed (simp add: armed_def with_shared_def all_unmarked_def no_claims_def)

lemma kept_same: "s_pools s' = s_pools s \<Longrightarrow> grants (s_out s') = grants (s_out s) \<Longrightarrow> kept e s s'"
  using calls_pools [of s' s] by (simp add: kept_def)

lemma kept_with_shared [simp]: "kept e s (with_shared f s)"
  by (rule kept_same) (simp_all add: with_shared_def)

lemma pools_with_shared [simp]: "s_pools (with_shared f s) = s_pools s"
  by (simp add: with_shared_def)

lemma steady_failed: "sched_inv P s \<Longrightarrow> steady e s (shared_failed e s)"
proof -
  assume inv: "sched_inv P s"
  let ?f = "\<lambda>c. c\<lparr>sh_failing := True, sh_synced := False, sh_unrecorded := sh_unrecorded c + of_nat (length (sh_deferred c)),
    sh_deferred := [], sh_next_reconcile := e_now e + cf_recovery_interval (sh_config c)\<rparr>"
  have "kept e s (apply_mode (with_shared ?f s))"
    using kept_trans [OF kept_with_shared kept_apply_mode] pools_ok [OF inv] by simp
  moreover have "tuned (apply_mode (with_shared ?f s))" if "tuned s"
    using that armed_with_shared [of ?f s] by (intro tuned_apply_mode) (simp add: tuned_def)
  ultimately show ?thesis by (simp add: shared_failed_def steady_def)
qed

section \<open>Answers of the shared backend\<close>

lemma armed_claims: "armed s \<Longrightarrow> map_of (s_pools s) k = Some p \<Longrightarrow> p_pending p \<noteq> [] \<Longrightarrow> s_shared s \<noteq> None"
  by (cases "s_shared s") (auto simp: armed_def no_claims_def)

text \<open>
  The claim \<open>c\<close> of pool \<open>k\<close> is answered: \<open>p\<close> is the pool as it stands in \<open>s\<close>, \<open>p'\<close> the pool with
  the claim taken out.
\<close>

definition taken_out :: "pool_key \<Rightarrow> pending_claim \<Rightarrow> pool \<Rightarrow> pool \<Rightarrow> scheduler \<Rightarrow> bool" where
  "taken_out k c p p' s \<longleftrightarrow> s_shared s \<noteq> None \<and> map_of (s_pools s) k = Some p \<and> conf p' = conf p \<and> queues_ok p' \<and>
     (\<forall>r. pool_calls r p = pool_calls r p' + (if w_respond (pc_waiter c) = r then 1 else 0))"

lemma calm_requeued:
  assumes "sched_inv P s" and h: "taken_out k c p p' s" and q: "marks q = marks p'" "\<And>r. pool_calls r q = pool_calls r (requeue c p')"
  shows "calm e s (requeued k q s)"
proof -
  have t: "map_of (s_pools s) k = Some p" "queues_ok p'" "conf p' = conf p" "s_shared s \<noteq> None" using h by (simp_all add: taken_out_def)
  have "calm e s (put_pool k q s)"
    using h q pool_calls_requeue [OF t(2)] t(3,4)
    by (intro calm_put [OF assms(1) t(1), where p' = q]) (simp_all add: taken_out_def marks_def)
  moreover have "idle_part (requeued k q s) = idle_part (put_pool k q s)" by (simp add: requeued_def idle_simps)
  ultimately show ?thesis using calm_idle_r by blast
qed

lemma idle_cluster: "idle_part (with_shared (\<lambda>c. c\<lparr>sh_cluster_in_flight := x\<rparr>) s) = idle_part s"
  by (simp add: idle_with_shared)

lemma calm_granted:
  assumes inv: "sched_inv P s" and h: "taken_out k c p p' s"
  shows "calm e s (claim_granted e k c b counts p' s)"
proof -
  have t: "map_of (s_pools s) k = Some p" "queues_ok p'" "conf p' = conf p" "s_shared s \<noteq> None" using h by (simp_all add: taken_out_def)
  let ?q = "(if b then p' else p'\<lparr>p_probing := False\<rparr>)\<lparr>p_cluster_in_flight := Some (cc_pool counts)\<rparr>"
  let ?g = "send_grant (e_now e) (grant_new (pc_tenant c) (pc_key c) (w_session (pc_waiter c)) (w_jumped (pc_waiter c)))
    (w_respond (pc_waiter c)) (if w_fast (pc_waiter c) then Fast else Queued) (e_now e - w_enqueued (pc_waiter c)) ?q"
  have okq: "queues_ok ?q" using t(2) by (simp add: queues_ok_def)
  have "pool_calls r (fst ?g) = pool_calls r p'" for r using pool_calls_send [OF okq] by simp
  moreover have "conf (fst ?g) = conf p" using t(3) by (simp add: pool_fields)
  ultimately have "calm e s (emit [SendGrant (snd ?g)] (put_pool k (fst ?g) s))"
    using h t(4) by (intro calm_put [OF inv t(1), where p' = "fst ?g"]) (simp_all add: taken_out_def marks_def)
  moreover have "idle_part (claim_granted e k c b counts p' s) = idle_part (emit [SendGrant (snd ?g)] (put_pool k (fst ?g) s))"
  proof -
    have r: "idle_part (emit xs (put_pool k q (note_redeemed s))) = idle_part (emit xs (put_pool k q s))" for xs q
      by (simp add: note_redeemed_def put_pool_def emit_def idle_part_def ctl_part_def Let_def)
    show ?thesis by (simp add: claim_granted_def Let_def case_prod_beta' idle_simps idle_cluster r)
  qed
  ultimately show ?thesis using calm_idle_r by blast
qed

lemma retry_set: "s_shared s = Some c \<Longrightarrow> \<exists>c'. s_shared (schedule_retry e s) = Some c' \<and> sh_retry_at c' \<noteq> None"
  by (simp add: schedule_retry_def with_shared_def Let_def)

lemma steady_denied:
  assumes inv: "sched_inv P s" and h: "taken_out k c p p' s"
  shows "steady e s (claim_denied e k c d counts p' s)"
proof -
  have t: "map_of (s_pools s) k = Some p" "queues_ok p'" "conf p' = conf p" "s_shared s \<noteq> None" using h by (simp_all add: taken_out_def)
  let ?s' = "claim_denied e k c d counts p' s"
  let ?q = "block_for d c ((requeue c p')\<lparr>p_probing := True, p_cluster_in_flight := Some (cc_pool counts)\<rparr>)"
  have b: "pool_calls r ?q = pool_calls r (requeue c p')" for r by (cases d) (simp_all add: block_for_def)
  have "calls r (requeued k ?q s) = calls r s" for r
    by (rule calls_put [OF pools_ok [OF inv] t(1), where p' = ?q])
      (use h b pool_calls_requeue [OF t(2)] in \<open>simp_all add: requeued_def put_pool_def taken_out_def answers_def\<close>)
  moreover have "s_pools ?s' = s_pools (requeued k ?q s)" "grants (s_out ?s') = grants (s_out (requeued k ?q s))"
    by (simp_all add: claim_denied_def Let_def schedule_retry_def with_shared_def)
  ultimately have "kept e s ?s'" using calls_pools [of ?s' "requeued k ?q s"] by (simp add: kept_def)
  moreover have "armed ?s'"
  proof -
    obtain c0 where "s_shared s = Some c0" using t(4) by auto
    then show ?thesis using retry_set
      by (auto simp: claim_denied_def Let_def requeued_def put_pool_def with_shared_def schedule_retry_def armed_def)
  qed
  moreover have "mode_part ?s' = mode_part s"
    by (cases "s_shared s") (simp_all add: claim_denied_def Let_def requeued_def put_pool_def with_shared_def schedule_retry_def mode_part_def)
  ultimately show ?thesis using steady_parts by blast
qed

lemma steady_answered:
  assumes inv: "sched_inv P s" and h: "taken_out k c p p' s" and hand: "in_hand P k c p p' s"
  shows "steady e s (claim_answered e k c result p' s)"
proof -
  have q: "calm e s (requeued k (requeue c p') s)"
    "\<And>n. calm e s (requeued k ((requeue c p')\<lparr>p_cluster_in_flight := n\<rparr>) s)"
    by (rule calm_requeued [OF inv h], simp_all add: marks_def pool_fields)+
  have i: "sched_inv P (requeued k (requeue c p') s)"
    using requeued_inv [OF hand requeue_in_hand [OF hand]] by (simp add: pool_fields)
  have f: "steady e s (shared_failed e (requeued k (requeue c p') s))"
    using steady_trans [OF calm_steady [OF q(1)] steady_failed [OF i]] .
  show ?thesis
    using f calm_steady [OF q(2)] calm_steady [OF calm_granted [OF inv h]] steady_denied [OF inv h]
    by (simp add: claim_answered_def split: sum.splits prod.splits acquire_outcome.splits)
qed

lemma steady_dispatch: "sched_inv P s \<Longrightarrow> steady e s (dispatch_all e s)"
  using calm_steady [OF calm_dispatch_all] .

lemma steady_then_dispatch:
  assumes "steady e s t" and "sched_inv P t" and "idle_part u = idle_part t" and "ess u = ess t"
  shows "steady e s (dispatch_all e u)"
proof -
  have "sched_inv P u" using assms(2) sched_inv_ess [OF assms(4)] by simp
  then show ?thesis using steady_trans [OF steady_idle_r [OF assms(3,1)] steady_dispatch] by blast
qed

lemma steady_acquire_done:
  assumes inv: "sched_inv P s" and tuned: "tuned s"
  shows "steady e s (acquire_done e k i result s)"
proof -
  let ?s = "one_op_fewer s"
  have i1: "sched_inv P ?s" using inv sched_inv_ess [OF ess_one_op] by simp
  have st: "steady e s ?s" by (rule idle_steady) (simp add: idle_simps)
  show ?thesis
  proof (cases "map_of (s_pools ?s) k")
    case None
    then show ?thesis using st by (simp add: acquire_done_def)
  next
    case (Some p)
    show ?thesis
    proof (cases "map_of (p_pending p) i")
      case None
      then show ?thesis using st Some by (simp add: acquire_done_def)
    next
      case c: (Some c)
      let ?p = "p\<lparr>p_pending := AList.delete i (p_pending p)\<rparr>"
      note I = sched_invD [OF i1 Some]
      have hand: "in_hand P k c p ?p ?s" by (rule in_hand_unpend [OF i1 Some c])
      have "armed ?s" using st tuned by (simp add: steady_def tuned_def)
      moreover have "p_pending p \<noteq> []" using c by auto
      ultimately have "s_shared ?s \<noteq> None" using armed_claims [OF _ Some] by blast
      moreover have "pool_calls r p = pool_calls r ?p + (if w_respond (pc_waiter c) = r then 1 else 0)" for r
        using pool_calls_unpend [OF _ c] I(2) by (simp add: pool_inv_def)
      moreover have "queues_ok ?p" using I(3) by (simp add: queues_ok_def)
      ultimately have h: "taken_out k c p ?p ?s" using Some by (simp add: taken_out_def pool_fields)
      let ?t = "claim_answered e k c result ?p ?s"
      have "steady e s ?t" using steady_trans [OF st steady_answered [OF i1 h hand]] .
      then have "steady e s (dispatch_all e (maybe_start_reconcile (publish_model_load k ?t)))"
        by (rule steady_then_dispatch [OF _ claim_answered_inv [OF hand]]) (simp_all add: idle_simps ess_simps)
      then show ?thesis using Some c by (simp add: acquire_done_def Let_def)
    qed
  qed
qed

text \<open>Lifting denials.\<close>

lemma steady_unblock_pool:
  assumes "sched_inv P s" and "\<And>p. unmarked p \<Longrightarrow> unmarked (f p)" "\<And>p. p_pending (f p) = p_pending p" "\<And>r p. pool_calls r (f p) = pool_calls r p"
  shows "steady e s (with_pool k f s)"
proof (cases "map_of (s_pools s) k")
  case None
  then show ?thesis by (simp add: with_pool_def)
next
  case (Some p)
  have e: "with_pool k f s = put_pool k (f p) s" using Some by (simp add: with_pool_def)
  have "kept e s (put_pool k (f p) s)"
    using calls_put [OF pools_ok [OF assms(1)] Some, of "put_pool k (f p) s" "f p"] assms(4) by (simp add: kept_def)
  moreover have "armed (put_pool k (f p) s)" if a: "armed s"
  proof -
    have "all_unmarked (put_pool k (f p) s)" if "all_unmarked s"
      using that Some assms(2) by (auto simp: all_unmarked_def)
    moreover have "no_claims (put_pool k (f p) s)" if "no_claims s"
      using that Some assms(3) by (auto simp: no_claims_def)
    moreover have "s_shared (put_pool k (f p) s) = s_shared s" by (simp add: put_pool_def)
    ultimately show ?thesis using a by (auto simp: armed_def split: option.splits)
  qed
  moreover have "mode_part (put_pool k (f p) s) = mode_part s" by (simp add: put_pool_def mode_part_def)
  ultimately show ?thesis unfolding e using steady_parts by blast
qed

lemma steady_with_shared:
  assumes "\<And>c. sh_config (f c) = sh_config c \<and> sh_synced (f c) = sh_synced c \<and> sh_retry_at (f c) = sh_retry_at c \<and>
    (sh_global_blocked (f c) \<longrightarrow> sh_global_blocked c)"
  shows "steady e s (with_shared f s)"
proof (rule steady_parts)
  show "mode_part (with_shared f s) = mode_part s" using assms by (cases "s_shared s") (simp_all add: mode_part_def with_shared_def)
  show "armed s \<Longrightarrow> armed (with_shared f s)" using assms by (intro armed_with_shared) blast
qed simp

lemma all_unmarked_unblock: "all_unmarked (unblock_all s)"
  by (auto simp: all_unmarked_def unblock_all_def with_shared_def map_of_map_value)

lemma unblock_all_armed: "(s_shared s = None \<Longrightarrow> no_claims s) \<Longrightarrow> armed (unblock_all s)"
  by (rule armed_clear [OF all_unmarked_unblock])
    (auto simp: unblock_all_def with_shared_def each_pool_def no_claims_def map_of_map_value unblock_def)

lemma kept_unblock_all: "hmap_ok (s_pools s) \<Longrightarrow> kept e s (unblock_all s)"
  by (rule kept_each [where f = "\<lambda>_. unblock"]) (simp_all add: unblock_all_def with_shared_def each_pool_def)

lemma steady_unblock_all: "sched_inv P s \<Longrightarrow> steady e s (unblock_all s)"
proof (rule steady_parts)
  show "mode_part (unblock_all s) = mode_part s"
    by (cases "s_shared s") (simp_all add: mode_part_def unblock_all_def with_shared_def each_pool_def)
  show "armed s \<Longrightarrow> armed (unblock_all s)" by (intro unblock_all_armed) (simp add: armed_def)
qed (simp add: kept_unblock_all pools_ok)

lemma steady_release_done:
  assumes inv: "sched_inv P s"
  shows "steady e s (release_done e k result s)"
proof -
  let ?s = "one_op_fewer s"
  have i: "sched_inv P ?s" using inv sched_inv_ess [OF ess_one_op] by simp
  have st: "steady e s ?s" by (rule idle_steady) (simp add: idle_simps)
  define w where "w n = with_pool k (\<lambda>p. unblock (p\<lparr>p_cluster_in_flight := n\<rparr>)) ?s" for n
  define t where "t = (case result of
      Inr counts \<Rightarrow> if s_mode ?s = Shared then with_shared (\<lambda>c. c\<lparr>sh_cluster_in_flight := Some (cc_global counts), sh_global_blocked := False\<rparr>)
          (w (Some (cc_pool counts))) else ?s
    | Inl _ \<Rightarrow> shared_failed e ?s)"
  have wi: "sched_inv P (w n)" for n unfolding w_def by (rule with_pool_same [OF i]) (simp_all add: pool_fields)
  have ws: "steady e ?s (w n)" for n unfolding w_def by (rule steady_unblock_pool [OF i]) (simp_all add: pool_fields)
  have wb: "steady e ?s (with_shared (\<lambda>c. c\<lparr>sh_cluster_in_flight := x, sh_global_blocked := False\<rparr>) (w n))" for n x
    by (rule steady_trans [OF ws steady_with_shared]) simp
  have "sched_inv P t" using i wi shared_failed_inv [OF i] by (auto simp: t_def sched_inv_ess [OF ess_with_shared] split: sum.splits)
  moreover have "steady e ?s t" using wb steady_failed [OF i] by (auto simp: t_def split: sum.splits)
  ultimately have "steady e s (dispatch_all e (maybe_start_reconcile t))"
    using steady_trans [OF st] by (intro steady_then_dispatch [where t = t]) (simp_all add: idle_simps ess_simps)
  moreover have "release_done e k result s = dispatch_all e (maybe_start_reconcile t)"
    unfolding release_done_def t_def w_def Let_def by (rule refl)
  ultimately show ?thesis by simp
qed

lemma steady_hold_done:
  assumes inv: "sched_inv P s"
  shows "steady e s (hold_done e k counts s)"
proof -
  let ?s = "one_op_fewer s"
  have i: "sched_inv P ?s" using inv sched_inv_ess [OF ess_one_op] by simp
  have st: "steady e s ?s" by (rule idle_steady) (simp add: idle_simps)
  let ?c = "with_shared (\<lambda>c. c\<lparr>sh_cluster_in_flight := Some (cc_global counts)\<rparr>) ?s"
  let ?w = "with_pool k (\<lambda>p. p\<lparr>p_cluster_in_flight := Some (cc_pool counts)\<rparr>) ?c"
  have ci: "sched_inv P ?c" using i by (simp add: sched_inv_ess [OF ess_with_shared])
  have wi: "sched_inv P ?w" by (rule with_pool_same [OF ci]) (simp_all add: pool_fields)
  have ws: "steady e s ?w"
    using steady_trans [OF st steady_trans [OF idle_steady [OF idle_cluster] steady_unblock_pool [OF ci]]] by simp
  define t where "t = (if s_mode ?s = Shared then ?w else ?s)"
  have "steady e s (dispatch_all e (maybe_start_reconcile t))"
    using st ws i wi by (intro steady_then_dispatch [where t = t and P = P]) (simp_all add: t_def idle_simps ess_simps)
  then show ?thesis by (simp add: hold_done_def t_def Let_def)
qed

lemma steady_reconcile_synced:
  assumes inv: "sched_inv P s" and sh: "s_shared s = Some c"
  shows "kept e s (reconcile_synced e run c s) \<and> (armed s \<longrightarrow> tuned (reconcile_synced e run c s))"
proof -
  let ?multi = "1 < s_replicas s"
  let ?c = "c\<lparr>sh_failing := False, sh_synced := (sh_synced c \<or> ?multi \<and> (rc_quiesced run \<or> rc_unrecorded_at run = sh_unrecorded c)),
     sh_want_reconcile := (sh_want_reconcile c \<or> ?multi \<and> \<not> (rc_quiesced run \<or> rc_unrecorded_at run = sh_unrecorded c)),
     sh_next_reconcile := e_now e + cf_reconcile_interval (sh_config c), sh_deferred := []\<rparr>"
  let ?s1 = "s\<lparr>s_shared := Some ?c\<rparr>"
  let ?s2 = "apply_mode ?s1"
  let ?s3 = "fold (\<lambda>slot. if sh_synced ?c \<and> ?multi then spawn_release slot else note_unrecorded) (sh_deferred c) ?s2"
  have eq: "reconcile_synced e run c s = unblock_all ?s3" by (simp add: reconcile_synced_def Let_def)
  have i1: "sched_inv P ?s1" using inv sched_inv_ess [OF ess_shared(1)] by simp
  have i2: "sched_inv P ?s2" using apply_mode_inv [OF i1] .
  have f: "idle_part (fold (\<lambda>slot. if b then spawn_release slot else note_unrecorded) xs t) = idle_part t"
    "ess (fold (\<lambda>slot. if b then spawn_release slot else note_unrecorded) xs t) = ess t" for b xs t
    by (induction xs arbitrary: t) (auto simp: idle_simps ess_simps)
  have i3: "sched_inv P ?s3" using i2 sched_inv_ess [OF f(2)] by simp
  have k: "kept e s ?s1" by (rule kept_same) simp_all
  have st: "steady e ?s2 (unblock_all ?s3)" by (rule steady_trans [OF idle_steady [OF f(1)] steady_unblock_all [OF i3]])
  have "kept e s (unblock_all ?s3)"
    using kept_trans [OF kept_trans [OF k kept_apply_mode [OF pools_ok [OF i1]]]] st by (simp add: steady_def)
  moreover have "tuned (unblock_all ?s3)" if "armed s"
  proof -
    have "armed ?s1" using that sh by (simp add: armed_def all_unmarked_def)
    then show ?thesis using tuned_apply_mode st by (simp add: steady_def)
  qed
  ultimately show ?thesis by (simp add: eq)
qed

lemma steady_reconcile_done:
  assumes inv: "sched_inv P s"
  shows "steady e s (reconcile_done e result s)"
proof (cases "\<exists>c run. s_shared s = Some c \<and> sh_reconciling c = Some run")
  case True
  then obtain c run where c: "s_shared s = Some c" "sh_reconciling c = Some run" by blast
  let ?c = "c\<lparr>sh_reconciling := None\<rparr>"
  let ?s = "s\<lparr>s_shared := Some ?c\<rparr>"
  have i: "sched_inv P ?s" using inv sched_inv_ess [OF ess_shared(1)] by simp
  have st: "steady e s ?s" by (rule idle_steady) (simp add: idle_part_def ctl_part_def c)
  define t where "t = (case result of Inr Synced \<Rightarrow> reconcile_synced e run ?c ?s | _ \<Rightarrow> shared_failed e ?s)"
  have "steady e ?s t"
    using steady_failed [OF i] steady_reconcile_synced [OF i, of ?c e run]
    by (auto simp: t_def steady_def tuned_def split: sum.splits reconcile_outcome.splits)
  moreover have "sched_inv P t"
    using reconcile_synced_inv [OF i] shared_failed_inv [OF i] by (auto simp: t_def split: sum.splits reconcile_outcome.splits)
  ultimately have "steady e s (dispatch_all e (maybe_start_reconcile t))"
    using steady_trans [OF st] by (intro steady_then_dispatch [where t = t]) (simp_all add: idle_simps ess_simps)
  moreover have "reconcile_done e result s = dispatch_all e (maybe_start_reconcile t)"
    using c by (simp add: reconcile_done_def t_def Let_def)
  ultimately show ?thesis by simp
qed (auto simp: reconcile_done_def split: option.splits)

section \<open>Messages\<close>

lemma steady_pool_mut: "sched_inv P s \<Longrightarrow> steady e s (pool_mut k s)"
proof (cases "contains_key (s_pools s) k")
  case False
  assume inv: "sched_inv P s"
  define p where "p = (set_divisor (s_divisor s) (pool_new k (s_algorithm s) (s_default_model_cap s)))
    \<lparr>p_affinity := fst (af_configure (s_session_affinity s) (p_affinity (set_divisor (s_divisor s) (pool_new k (s_algorithm s) (s_default_model_cap s)))))\<rparr>"
  have s': "pool_mut k s = (put_pool k p s)\<lparr>s_pool_order := s_pool_order s @ [k]\<rparr>" using False by (simp add: pool_mut_def p_def Let_def)
  have none: "map_of (s_pools s) k = None" using False by (simp add: contains_key_def)
  have z: "pool_calls r p = 0" "unmarked p" "p_pending p = []" for r
    by (simp_all add: p_def) (simp_all add: unmarked_def marks_def conf_def pool_new_def set_divisor_def)
  have "kept e s (pool_mut k s)"
    using msum_update [OF pools_ok [OF inv], of "pool_calls _" k p] none z(1)
    by (simp add: s' kept_def calls_def answers_def put_pool_def)
  moreover have "armed (pool_mut k s)" if a: "armed s"
  proof -
    have "all_unmarked (pool_mut k s)" if "all_unmarked s" using that z by (auto simp: s' all_unmarked_def)
    moreover have "no_claims (pool_mut k s)" if "no_claims s" using that z by (auto simp: s' no_claims_def)
    moreover have "s_shared (pool_mut k s) = s_shared s" by (simp add: s' put_pool_def)
    ultimately show ?thesis using a by (auto simp: armed_def split: option.splits)
  qed
  moreover have "mode_part (pool_mut k s) = mode_part s" by (simp add: s' put_pool_def mode_part_def)
  ultimately show ?thesis using steady_parts by blast
qed (simp add: pool_mut_def)

lemma steady_set_pool_affinity:
  assumes inv: "sched_inv P s"
  shows "steady e s (set_pool_affinity e k src c s)"
proof -
  let ?s = "with_pool k (\<lambda>p. p\<lparr>p_affinity_source := src\<rparr>) (pool_mut k s)"
  have i: "sched_inv P ?s" by (rule with_pool_same [OF pool_mut_inv [OF inv]]) (simp_all add: pool_fields)
  have u: "unmarked (p\<lparr>p_affinity_source := src\<rparr>) = unmarked p" for p by (simp add: unmarked_def marks_def conf_def)
  have st: "steady e s ?s"
    by (rule steady_trans [OF steady_pool_mut [OF inv] steady_unblock_pool [OF pool_mut_inv [OF inv]]]) (simp_all add: u)
  show ?thesis
  proof (cases "map_of (s_pools ?s) k")
    case None
    then show ?thesis using st by (simp add: set_pool_affinity_def Let_def)
  next
    case (Some p)
    obtain a gone where a: "af_configure c (p_affinity p) = (a, gone)" by fastforce
    have "calm e ?s (put_pool k (p\<lparr>p_affinity := a\<rparr>) ?s)"
      by (rule calm_put [OF i Some, where p' = "p\<lparr>p_affinity := a\<rparr>"]) (simp_all add: marks_def pool_fields)
    then have "calm e ?s (release_given_up e (map (Pair k) gone) (put_pool k (p\<lparr>p_affinity := a\<rparr>) ?s))"
      using calm_trans calm_given_up [OF configure_one_inv [OF i Some a]] by blast
    then show ?thesis using steady_trans [OF st calm_steady] st Some a by (simp add: set_pool_affinity_def Let_def)
  qed
qed

text \<open>An admission brings one caller in.\<close>

definition gains :: "env \<Rightarrow> respond \<Rightarrow> scheduler \<Rightarrow> scheduler \<Rightarrow> bool" where
  "gains e x s s' \<longleftrightarrow> (\<forall>r. \<not> e_dead e r \<longrightarrow> calls r s' = calls r s + (if x = r then 1 else 0)) \<and> (tuned s \<longrightarrow> tuned s')"

lemma gains_steady: "gains e x s t \<Longrightarrow> steady e t u \<Longrightarrow> gains e x s u"
  by (simp add: gains_def steady_def kept_def)

lemma steady_gains: "steady e s t \<Longrightarrow> gains e x t u \<Longrightarrow> gains e x s u"
  by (simp add: gains_def steady_def kept_def)

lemma gains_put:
  assumes inv: "sched_inv P s" and p: "map_of (s_pools s) k = Some p" and s': "idle_part s' = idle_part (emit xs (put_pool k p' s))"
    and m: "marks p' = marks p" "p_pending p' = p_pending p"
    and n: "\<And>r. pool_calls r p' + count (mset (map ad_respond (grants xs))) r = pool_calls r p + (if x = r then 1 else 0)"
  shows "gains e x s s'"
proof -
  let ?t = "emit xs (put_pool k p' s)"
  have "calls r ?t = calls r s + (if x = r then 1 else 0)" for r
    using msum_update [OF pools_ok [OF inv], of "pool_calls r" k p'] p n [of r] by (simp add: calls_def)
  moreover have "armed ?t" if a: "armed s"
  proof -
    have "all_unmarked ?t" if "all_unmarked s" using that p m by (auto simp: all_unmarked_def unmarked_def)
    moreover have "no_claims ?t" if "no_claims s" using that p m by (auto simp: no_claims_def)
    moreover have "s_shared ?t = s_shared s" by (simp add: put_pool_def emit_def)
    ultimately show ?thesis using a by (auto simp: armed_def split: option.splits)
  qed
  moreover have "mode_part ?t = mode_part s" by (simp add: put_pool_def emit_def mode_part_def)
  ultimately have "gains e x s ?t" using mode_part_wanted [of ?t s] by (simp add: gains_def tuned_def)
  then show ?thesis using gains_steady idle_steady [OF s'] by blast
qed

lemma marks_admit_pool [simp]: "marks (admit_pool k req s p) = marks p" "pool_calls r (admit_pool k req s p) = pool_calls r p"
proof -
  show "marks (admit_pool k req s p) = marks p"
    by (simp add: admit_pool_def marks_def pool_fields) (simp add: conf_def set_configured_cap_def)
qed (simp add: admit_pool_def)

lemma gains_admit_into:
  assumes inv: "sched_inv P s" and p: "map_of (s_pools s) k = Some p0"
    and F: "fits (s_divisor s) (s_next_op_id s) k (in_pool k (P + sent s)) p"
    and c: "p_in_flight p = p_in_flight p0" "p_queued_total p = p_queued_total p0" "marks p = marks p0" "p_pending p = p_pending p0"
      "\<And>r. pool_calls r p = pool_calls r p0"
  shows "gains e x s (admit_into e k req x t p s)"
proof -
  have ok: "queues_ok p" using F by (simp add: fits_def pool_inv_def)
  have en: "gains e x s ((put_pool k (enqueue req x t b p) s)\<lparr>s_queued_total := s_queued_total s + 1\<rparr>)" for b
    using pool_calls_enqueue [OF ok] c
    by (intro gains_put [OF inv p, where xs = "[]" and p' = "enqueue req x t b p"])
      (simp_all add: marks_def pool_fields idle_part_def emit_def ctl_part_def put_pool_def)
  have q: "gains e x s (dispatch_all e ((put_pool k (enqueue req x t b p) s)\<lparr>s_queued_total := s_queued_total s + 1\<rparr>))" for b
    using gains_steady [OF en steady_dispatch [OF enqueue_inv [OF inv p F c(1,2)]]] .
  have f: "gains e x s ((emit [SendGrant (snd (grant_fast now req x p))] (put_pool k (fst (grant_fast now req x p)) s))
      \<lparr>s_in_flight := s_in_flight s + 1\<rparr>)" for now
    using pool_calls_grant_fast [OF ok] c
    by (intro gains_put [OF inv p, where xs = "[SendGrant (snd (grant_fast now req x p))]" and p' = "fst (grant_fast now req x p)"])
      (simp_all add: marks_def pool_fields idle_simps, simp add: grant_fast_def)
  have h: "gains e x s (emit [SendGrant (snd (grant_held now h req x (p\<lparr>p_affinity := a\<rparr>)))]
      (put_pool k (fst (grant_held now h req x (p\<lparr>p_affinity := a\<rparr>))) s))" for a h now
  proof -
    have "queues_ok (p\<lparr>p_affinity := a\<rparr>)" using ok by (simp add: queues_ok_def)
    from pool_calls_grant_held [OF this] show ?thesis
      using c by (intro gains_put [OF inv p, where p' = "fst (grant_held now h req x (p\<lparr>p_affinity := a\<rparr>))" and
            xs = "[SendGrant (snd (grant_held now h req x (p\<lparr>p_affinity := a\<rparr>)))]"])
        (simp_all add: marks_def pool_fields, simp add: grant_held_def Let_def)
  qed
  have st: "gains e x s (publish_stats u)" "gains e x s (publish_stats (publish_model_load k u))"
    "gains e x s (publish_stats (publish_model_load k (note_unrecorded u)))" if "gains e x s u" for u
    using that gains_steady [OF _ idle_steady, of e x s u] by (simp_all add: idle_simps)
  obtain a h' where y: "(if key_passed_out (e_dead e) p (rq_tenant req) (rq_key req) then (p_affinity p, None)
      else af_redeem (p_affinity p) (rq_session req)) = (a, h')" by fastforce
  show ?thesis
    unfolding admit_into_def y
    by (cases h') (use q f in \<open>simp_all add: Let_def case_prod_beta' st h\<close>)
qed

lemma gains_handle_admit:
  assumes inv0: "sched_inv P s"
  shows "gains e x s (handle_admit e k req x t s)"
proof -
  let ?c = "request_affinity req s"
  let ?s1 = "set_pool_affinity e k (rq_affinity (scope_session ?c req)) ?c s"
  let ?s = "pool_mut k ?s1"
  have i1: "sched_inv P ?s1" using set_pool_affinity_inv inv0 by blast
  have inv: "sched_inv P ?s" using pool_mut_inv [OF i1] .
  obtain p where p: "map_of (s_pools ?s) k = Some p" using pool_mut_has by blast
  have "gains e x ?s (admit_into e k (scope_session ?c req) x t (admit_pool k (scope_session ?c req) ?s p) ?s)"
    using fits_admit_pool [OF sched_invD(1) [OF inv p]]
    by (intro gains_admit_into [OF inv p]) (simp_all add: admit_pool_fields)
  from steady_gains [OF steady_trans [OF steady_set_pool_affinity [OF inv0] steady_pool_mut [OF i1]] this]
  show ?thesis using p by (simp add: handle_admit_def Let_def)
qed

lemma steady_hold_in_backend:
  assumes inv: "sched_inv P s"
  shows "steady e s (hold_in_backend e k t key se a s)"
proof (cases "\<exists>p cfg. map_of (s_pools s) k = Some p \<and> af_config (p_affinity p) = Some cfg")
  case True
  then obtain p cfg where p: "map_of (s_pools s) k = Some p" and c: "af_config (p_affinity p) = Some cfg" by blast
  have "with_pool k (\<lambda>p. settle_idle (e_now e) (release t key p)) s = put_pool k (settle_idle (e_now e) (release t key p)) s"
    using p by (simp add: with_pool_def)
  moreover have "idle_part (hold_in_backend e k t key se a s) = idle_part (put_pool k (settle_idle (e_now e) (release t key p)) s)"
    using p c by (simp add: hold_in_backend_def Let_def idle_simps idle_with_shared)
  ultimately show ?thesis using steady_idle_r [OF _ calm_steady [OF calm_release_pool [OF inv]]] by metis
next
  case False
  then have "hold_in_backend e k t key se a s = release_slot e k t key s"
    by (auto simp: hold_in_backend_def split: option.splits)
  then show ?thesis using calm_steady [OF calm_release_slot [OF inv]] by simp
qed

lemma steady_handle_release:
  assumes inv: "sched_inv (add_mset (k, t, key) P) s"
  shows "steady e s (handle_release e t key k se s)"
proof -
  obtain p where p: "map_of (s_pools s) k = Some p"
    using inv taken_pool [of "add_mset (k, t, key) P + sent s" s k "(t, key)"] by (auto simp: sched_inv_def)
  define hold_in where "hold_in = (if s_mode s = Shared then (if quiesced_reconcile_running s then Nowhere else InBackend) else InPool)"
  obtain p1 step where f: "finish_step (e_dead e) (e_now e) t key se hold_in p = (p1, step)" by fastforce
  have F: "conf p1 = conf p" "p_pending p1 = p_pending p"
    using fields_finish [of "e_dead e" "e_now e" t key se hold_in p] f by simp_all
  have "pool_calls r p1 = pool_calls r p" for r using pool_calls_finish [of r "e_dead e" "e_now e" t key se hold_in p] f by simp
  then have c: "steady e s (put_pool k p1 s)"
    using F by (intro calm_steady calm_put [OF inv p, where p' = p1]) (simp_all add: marks_def)
  note I = finish_put_inv [OF inv p f]
  define u where "u = (case step of StepHeld \<Rightarrow> put_pool k p1 s | StepRelease \<Rightarrow> release_slot e k t key (put_pool k p1 s)
      | HoldInBackend session arrived \<Rightarrow> hold_in_backend e k t key session arrived (put_pool k p1 s))"
  have "sched_inv P u" using I release_slot_inv hold_in_backend_inv by (cases step) (auto simp: u_def)
  moreover have "steady e (put_pool k p1 s) u"
    using I calm_steady [OF calm_release_slot] steady_hold_in_backend by (cases step) (auto simp: u_def)
  ultimately have "steady e s (publish_stats (dispatch_all e u))"
    using steady_trans [OF c] steady_idle_r [OF idle_notes(3)] steady_trans steady_dispatch by meson
  then show ?thesis
    using p f unfolding handle_release_def hold_in_def [symmetric] u_def by (simp add: Let_def)
qed

lemma steady_set_replicas:
  assumes inv: "sched_inv P s"
  shows "steady e s (set_replicas e n s)"
proof -
  let ?f = "\<lambda>c. let c = (if (1 < s_replicas s) \<noteq> (1 < n) then c\<lparr>sh_synced := False\<rparr> else c)
     in if 1 < n \<and> \<not> sh_synced c then c\<lparr>sh_want_reconcile := True\<rparr> else c"
  let ?s = "with_shared ?f (s\<lparr>s_replicas := n\<rparr>)"
  have i: "sched_inv P ?s" using inv by (simp add: sched_inv_ess [OF ess_with_shared] sched_inv_ess [OF ess_shared(5)])
  have k: "kept e s ?s" by (rule kept_same) (simp_all add: with_shared_def)
  have "armed ?s" if "armed s" using that by (intro armed_with_shared) (simp_all add: Let_def)
  then have "steady e s (apply_mode ?s)"
    using kept_trans [OF k kept_apply_mode [OF pools_ok [OF i]]] tuned_apply_mode by (simp add: steady_def tuned_def)
  then have "steady e s (dispatch_all e (maybe_start_reconcile (apply_mode ?s)))"
    by (rule steady_then_dispatch [OF _ apply_mode_inv [OF i]]) (simp_all add: idle_simps ess_simps)
  then show ?thesis using steady_idle_r [OF idle_notes(3)] by (simp add: set_replicas_def Let_def)
qed

lemma steady_enable_shared:
  assumes inv: "sched_inv P s"
  shows "steady e s (enable_shared e c s)"
proof (cases "s_shared s")
  case None
  let ?s = "s\<lparr>s_shared := Some (shared_ctl_new e c)\<rparr>"
  have i: "sched_inv P ?s" using inv by (simp add: sched_inv_ess [OF ess_shared(1)])
  have k: "kept e s ?s" by (rule kept_same) simp_all
  have "armed ?s" if "armed s" using that None by (simp add: armed_def all_unmarked_def shared_ctl_new_def)
  then have "steady e s (apply_mode ?s)"
    using kept_trans [OF k kept_apply_mode [OF pools_ok [OF i]]] tuned_apply_mode by (simp add: steady_def tuned_def)
  then have "steady e s (dispatch_all e (maybe_start_reconcile (apply_mode ?s)))"
    by (rule steady_then_dispatch [OF _ apply_mode_inv [OF i]]) (simp_all add: idle_simps ess_simps)
  then show ?thesis using None steady_idle_r [OF idle_notes(3)] by (simp add: enable_shared_def)
qed (simp add: enable_shared_def)

lemma steady_wake:
  assumes inv: "sched_inv P s"
  shows "steady e s (wake e k s)"
proof -
  define t where "t = (case k of Some j \<Rightarrow> with_pool j unblock s | None \<Rightarrow> unblock_all s)"
  let ?u = "with_shared (\<lambda>c. c\<lparr>sh_global_blocked := False\<rparr>) t"
  have w: "sched_inv P (with_pool j unblock s)" for j by (rule with_pool_same [OF inv]) (simp_all add: pool_fields)
  have i: "sched_inv P t" using w unblock_all_inv [OF inv] by (simp add: t_def split: option.splits)
  have "steady e s (with_pool j unblock s)" for j by (rule steady_unblock_pool [OF inv]) (simp_all add: pool_fields)
  then have "steady e s t" using steady_unblock_all [OF inv] by (simp add: t_def split: option.splits)
  then have "steady e s ?u" using steady_trans steady_with_shared [of "\<lambda>c. c\<lparr>sh_global_blocked := False\<rparr>" e t] by simp
  moreover have "sched_inv P ?u" using i by (simp add: sched_inv_ess [OF ess_with_shared])
  ultimately have "steady e s (publish_stats (dispatch_all e ?u))"
    using steady_idle_r [OF idle_notes(3)] steady_trans steady_dispatch by meson
  then show ?thesis by (simp add: wake_def t_def Let_def)
qed

lemma steady_set_model_caps:
  assumes inv: "sched_inv P s"
  shows "steady e s (set_model_caps e caps s)"
proof -
  let ?s = "s\<lparr>s_pools := map (\<lambda>(k, p). (k, sized caps k p)) (s_pools s), s_model_caps := caps\<rparr>"
  have f: "pool_calls r (sized caps k p) = pool_calls r p" "unmarked (sized caps k p) = unmarked p" "p_pending (sized caps k p) = p_pending p" for r k p
    by (simp_all add: sized_def split: pool_key.splits option.splits) (simp add: set_configured_cap_def)
  have m: "map_of (s_pools ?s) k = map_option (sized caps k) (map_of (s_pools s) k)" for k
  proof -
    have "map_of (map (\<lambda>(k, p). (k, sized caps k p)) l) k = map_option (sized caps k) (map_of l k)" for l by (induction l) auto
    then show ?thesis by simp
  qed
  have "steady e s ?s"
  proof (rule steady_parts)
    show "kept e s ?s" using f by (intro kept_each [OF pools_ok [OF inv], where f = "sized caps"]) simp_all
    have "all_unmarked ?s = all_unmarked s" "no_claims ?s = no_claims s"
      unfolding all_unmarked_def no_claims_def m using f by (auto simp del: map_of_map) metis+
    then show "armed s \<Longrightarrow> armed ?s" by (cases "s_shared s") (simp_all add: armed_def)
  qed (simp add: mode_part_def)
  then have "steady e s (publish_stats (dispatch_all e ?s))"
    using steady_idle_r [OF idle_notes(3)] steady_trans steady_dispatch [OF sized_inv [OF inv]] by meson
  then show ?thesis by (simp add: set_model_caps_def sized_def Let_def)
qed

lemma steady_set_session_affinity:
  assumes inv: "sched_inv P s"
  shows "steady e s (set_session_affinity e c s)"
proof -
  let ?base = "s\<lparr>s_session_affinity := c\<rparr>"
  let ?s = "each_pool (\<lambda>p. fst (configure_pool c p)) ?base"
  have i0: "sched_inv P ?base" using inv by (simp add: sched_inv_ess [OF ess_shared(6)])
  have "pool_calls r (fst (configure_pool c p)) = pool_calls r p" for r p
    by (simp add: configure_pool_def case_prod_beta' Let_def)
  then have "calm e ?base ?s"
    by (intro calm_each [OF i0, where f = "\<lambda>p. fst (configure_pool c p)" and ads = "\<lambda>_. []"])
      (simp_all add: marks_def pool_fields msum_eq_0)
  then have "calm e s ?s" using calm_idle_l [OF idle_fields(6)] by blast
  then have "calm e s (release_given_up e (handed_back (\<lambda>p. snd (configure_pool c p)) s) ?s)"
    using calm_trans calm_given_up [OF configure_each_inv [OF inv]] by blast
  then have "steady e s (publish_stats (dispatch_all e (release_given_up e (handed_back (\<lambda>p. snd (configure_pool c p)) s) ?s)))"
    using steady_idle_r [OF idle_notes(3)] steady_trans calm_steady
      steady_dispatch [OF release_given_up_inv [OF configure_each_inv [OF inv]]] by meson
  then show ?thesis by (simp add: set_session_affinity_def Let_def)
qed

section \<open>Timers\<close>

lemma shared_timer_cases:
  obtains (none) "s_shared s = None" "shared_timer e s = s"
  | (due) c c' t where "s_shared s = Some c" "sh_retry_at c = Some t" "t \<le> e_now e"
      "sh_config c' = sh_config c" "sh_synced c' = sh_synced c" "sh_retry_at c' = None"
      "idle_part (shared_timer e s) = idle_part (dispatch_all e (maybe_start_reconcile (unblock_all (s\<lparr>s_shared := Some c'\<rparr>))))"
  | (early) c c' where "s_shared s = Some c" "sh_retry_at c = None \<or> (\<exists>t. sh_retry_at c = Some t \<and> e_now e < t)"
      "idle_part (s\<lparr>s_shared := Some c'\<rparr>) = idle_part s"
      "idle_part (shared_timer e s) = idle_part (dispatch_all e (maybe_start_reconcile (s\<lparr>s_shared := Some c'\<rparr>)))"
proof (cases "s_shared s")
  case None
  then show thesis using none by (simp add: shared_timer_def)
next
  case (Some c)
  define retry where "retry = (case sh_retry_at c of None \<Rightarrow> False | Some t \<Rightarrow> t \<le> e_now e)"
  define c1 where "c1 = (if retry then c\<lparr>sh_retry_at := None\<rparr> else c)"
  define c2 where "c2 = (if sh_reconciling c1 = None \<and> \<not> sh_want_reconcile c1 \<and> sh_next_reconcile c1 \<le> e_now e
    then c1\<lparr>sh_want_reconcile := True, sh_next_reconcile := e_now e + cf_reconcile_interval (sh_config c1)\<rparr> else c1)"
  let ?d = "dispatch_all e (maybe_start_reconcile (if retry then unblock_all (s\<lparr>s_shared := Some c2\<rparr>) else s\<lparr>s_shared := Some c2\<rparr>))"
  have e: "idle_part (shared_timer e s) = idle_part ?d"
  proof -
    have "shared_timer e s = publish_stats
      (if 1 < s_replicas s \<and> \<not> sh_publishing_view c2 \<and> sh_next_view c2 \<le> e_now e then publish_view e ?d else ?d)"
      unfolding shared_timer_def Some option.case Let_def c2_def c1_def retry_def by (rule refl)
    then show ?thesis by (simp only: idle_simps if_distrib [of idle_part] if_cancel)
  qed
  have f: "sh_config c2 = sh_config c" "sh_synced c2 = sh_synced c" "sh_global_blocked c2 = sh_global_blocked c"
    "sh_retry_at c2 = (if retry then None else sh_retry_at c)" by (simp_all add: c2_def c1_def)
  show thesis
  proof (cases retry)
    case True
    then obtain t where "sh_retry_at c = Some t" "t \<le> e_now e" by (auto simp: retry_def split: option.splits)
    then show thesis using due [of c t c2] Some True f e by simp
  next
    case False
    have "idle_part (s\<lparr>s_shared := Some c2\<rparr>) = idle_part s" using f False Some by (simp add: idle_part_def ctl_part_def)
    moreover have "sh_retry_at c = None \<or> (\<exists>t. sh_retry_at c = Some t \<and> e_now e < t)"
      using False by (auto simp: retry_def split: option.splits)
    ultimately show thesis using early [of c c2] Some False e by simp
  qed
qed

lemma steady_shared_timer:
  assumes inv: "sched_inv P s"
  shows "steady e s (shared_timer e s)"
proof (cases rule: shared_timer_cases [of s e])
  case none
  then show ?thesis by simp
next
  case (due c c' t)
  let ?s = "s\<lparr>s_shared := Some c'\<rparr>"
  have i: "sched_inv P ?s" using inv by (simp add: sched_inv_ess [OF ess_shared(1)])
  have "kept e s ?s" by (rule kept_same) simp_all
  then have "kept e s (unblock_all ?s)" using kept_trans kept_unblock_all [OF pools_ok [OF i]] by blast
  moreover have "mode_part (unblock_all ?s) = mode_part s"
    using due by (simp add: mode_part_def unblock_all_def with_shared_def each_pool_def)
  moreover have "armed (unblock_all ?s)" by (rule unblock_all_armed) simp
  ultimately have "steady e s (unblock_all ?s)" using steady_parts by blast
  from steady_then_dispatch [OF this unblock_all_inv [OF i] idle_reconcile ess_reconcile]
  show ?thesis using steady_idle_r [OF due(7)] by blast
next
  case (early c c')
  have i: "sched_inv P (s\<lparr>s_shared := Some c'\<rparr>)" using inv by (simp add: sched_inv_ess [OF ess_shared(1)])
  from steady_then_dispatch [OF idle_steady [OF early(3)] i idle_reconcile ess_reconcile]
  show ?thesis using steady_idle_r [OF early(4)] by blast
qed

lemma sweep_pool_calls:
  assumes "pool_inv X p" and "\<not> e_dead e r"
  shows "pool_calls r (fst (sweep_pool e p)) = pool_calls r p"
proof -
  obtain p1 n where r: "prune_dead_waiters (e_dead e) p = (p1, n)" by fastforce
  have q: "queues_ok p" using assms(1) by (simp add: pool_inv_def)
  have "queues_ok (p1\<lparr>p_affinity := a\<rparr>)" for a using prune_correct(1) [OF q r] by (simp add: queues_ok_def)
  then show ?thesis using prune_calls [OF q r, of r] assms(2) r pool_calls_settle by (simp add: sweep_pool_def)
qed

lemma calm_sweep_each:
  assumes inv: "sched_inv P s"
  shows "calm e s (fst (sweep_each e s))"
proof (rule calm_each [OF inv, where f = "\<lambda>p. fst (sweep_pool e p)" and ads = "\<lambda>_. []"])
  fix k p assume p: "map_of (s_pools s) k = Some p"
  obtain p' d where sp: "sweep_pool e p = (p', d)" by fastforce
  note S = sweep_pool_inv [OF sched_invD(2) [OF inv p] sp]
  show "marks (fst (sweep_pool e p)) = marks p \<and> p_pending (fst (sweep_pool e p)) = p_pending p \<and>
      (\<forall>r. \<not> e_dead e r \<longrightarrow> pool_calls r p = pool_calls r (fst (sweep_pool e p)) + count (mset (map ad_respond [])) r)"
    using S(2,3) sweep_pool_calls [OF sched_invD(2) [OF inv p], of e] unfolding sp by (simp add: marks_def)
qed (simp_all add: sweep_each_def Let_def each_pool_def ctl_part_def answers_def msum_eq_0)

lemma idle_pool_calls: "pool_inv X p \<Longrightarrow> is_idle p \<Longrightarrow> pool_calls r p = 0"
  using queued_calls_empty [of p r] pool_inv_counts [of X p] by (simp add: pool_inv_def is_idle_def pool_calls_def pending_calls_def)

lemma steady_drop_pools:
  assumes inv: "sched_inv P s" and idle: "\<And>k. k \<in> set ks \<Longrightarrow> \<exists>p. map_of (s_pools s) k = Some p \<and> is_idle p"
  shows "steady e s (drop_pools ks s)"
proof (cases "ks = []")
  case False
  define d where "d = fold (\<lambda>k s. publish_model_load k (s\<lparr>s_pools := AList.delete k (s_pools s)\<rparr>)) ks s"
  have D: "s_pools d = filter (\<lambda>(k, _). k \<notin> set ks) (s_pools s)" using drop_each [of ks s] by (simp add: d_def)
  have F: "ctl_part d = ctl_part s" "grants (s_out d) = grants (s_out s)"
  proof -
    have "ctl_part (fold (\<lambda>k s. publish_model_load k (s\<lparr>s_pools := AList.delete k (s_pools s)\<rparr>)) js u) = ctl_part u \<and>
      s_out (fold (\<lambda>k s. publish_model_load k (s\<lparr>s_pools := AList.delete k (s_pools s)\<rparr>)) js u) = s_out u" for js u
      by (induction js arbitrary: u) (auto simp: publish_model_load_def ctl_part_def split: pool_key.splits)
    then show "ctl_part d = ctl_part s" "grants (s_out d) = grants (s_out s)" by (simp_all add: d_def)
  qed
  have ok: "hmap_ok (s_pools s)" using pools_ok [OF inv] .
  have zero: "pool_calls r p = 0" if "(k, p) \<in> set (s_pools s)" "k \<in> set ks" for k p r
  proof -
    have "map_of (s_pools s) k = Some p" using that(1) ok by (simp add: hmap_entry)
    then show ?thesis using idle [OF that(2)] idle_pool_calls [OF sched_invD(2) [OF inv]] by fastforce
  qed
  have "msum (pool_calls r) (filter (\<lambda>(k, _). k \<notin> set ks) m) = msum (pool_calls r) m" if "set m \<subseteq> set (s_pools s)" for m r
    using that zero by (induction m) auto
  then have "calm e s d"
    unfolding calm_def kept_def calls_def answers_def D F using map_of_filter_ok [OF ok, of "\<lambda>(k, _). k \<notin> set ks"] by auto
  moreover have "idle_part (drop_pools ks s) = idle_part d" using False by (simp add: drop_pools_def d_def [symmetric] Let_def idle_simps)
  ultimately show ?thesis using steady_idle_r calm_steady by blast
qed (simp add: drop_pools_def)

lemma steady_sweep:
  assumes inv: "sched_inv P s"
  shows "steady e s (sweep e s)"
proof -
  let ?t = "if 0 < snd (sweep_each e s) then dispatch_all e (fst (sweep_each e s)) else fst (sweep_each e s)"
  have i: "sched_inv P (fst (sweep_each e s))" using sweep_each_inv [OF inv] .
  have t: "sched_inv P ?t" using i dispatch_all_inv by simp
  have "steady e s ?t" using steady_trans [OF calm_steady [OF calm_sweep_each [OF inv]] steady_dispatch [OF i]]
      calm_steady [OF calm_sweep_each [OF inv]] by simp
  moreover have "steady e ?t (drop_pools (idle_expired e ?t) ?t)"
    by (rule steady_drop_pools [OF t]) (rule idle_expired_idle [OF pools_ok [OF t]])
  ultimately show ?thesis unfolding sweep_eq Let_def using steady_trans by blast
qed

section \<open>Every turn\<close>

definition admits :: "event \<Rightarrow> respond \<Rightarrow> nat" where
  "admits ev r = (case ev of Message (Admit _ _ x _) \<Rightarrow> if x = r then 1 else 0 | _ \<Rightarrow> 0)"

lemma steady_emit: "quiet x \<Longrightarrow> steady e s (emit [x] s)"
  by (rule idle_steady) (simp add: idle_simps)

lemma steady_stats: "steady e s t \<Longrightarrow> steady e s (publish_stats t)"
  using steady_idle_r [OF idle_notes(3)] .

text \<open>Every turn but an admission and a release is steady.\<close>

lemma handle_steady:
  assumes inv: "sched_inv P s" and "tuned s" and "\<forall>t key k se. msg \<noteq> Release t key k se" and "\<forall>k req x t. msg \<noteq> Admit k req x t"
  shows "steady e s (handle e msg s)"
proof (cases msg)
  case (HoldDone k r)
  have n: "sched_inv P (note_held s)" "steady e s (note_held s)"
    using inv sched_inv_ess [OF ess_note(2)] by (simp_all add: idle_steady idle_simps)
  show ?thesis
    using HoldDone steady_trans [OF n(2) steady_hold_done [OF n(1)]] steady_release_done [OF inv]
    by (auto intro!: steady_stats split: sum.splits prod.splits bool.splits)
next
  case (ViewPublished r)
  then show ?thesis using idle_steady [OF idle_view(2)] by simp
qed (use assms in \<open>simp_all add: steady_emit steady_stats steady_set_replicas steady_set_model_caps steady_set_session_affinity
      steady_enable_shared steady_wake steady_acquire_done steady_release_done steady_reconcile_done\<close>)

lemma turn_gains:
  assumes inv: "sched_inv (P + Q) s" and t: "tuned s"
    and rel: "\<And>t key k se. ev = Message (Release t key k se) \<Longrightarrow> Q = {#(k, t, key)#}"
  shows "tuned (turn e ev s) \<and> (\<not> e_dead e r \<longrightarrow> calls r (turn e ev s) = calls r s + admits ev r)"
proof -
  have st: "tuned (turn e ev s) \<and> (\<not> e_dead e r \<longrightarrow> calls r (turn e ev s) = calls r s + admits ev r)"
    if "steady e s (turn e ev s)" "admits ev r = 0" using that t by (simp add: steady_def kept_def)
  show ?thesis
  proof (cases ev)
    case (Message msg)
    show ?thesis
    proof (cases "(\<exists>k req x t. msg = Admit k req x t) \<or> (\<exists>t key k se. msg = Release t key k se)")
      case True
      then show ?thesis
      proof (elim disjE exE)
        fix k req x tm assume "msg = Admit k req x tm"
        then show ?thesis using gains_handle_admit [OF inv, of e x k req tm] t Message by (simp add: gains_def admits_def)
      next
        fix tt key k se assume m: "msg = Release tt key k se"
        then have "sched_inv (add_mset (k, tt, key) P) s" using rel Message inv by simp
        then show ?thesis using steady_handle_release [of k tt key P s e se] st m Message by (simp add: admits_def)
      qed
    next
      case False
      have "admits ev r = 0" using False Message by (cases msg) (simp_all add: admits_def)
      then show ?thesis using handle_steady [OF inv t, of msg e] False st Message by simp
    qed
  next
    case Housekeeping
    then show ?thesis using st steady_stats [OF steady_sweep [OF inv]] by (simp add: admits_def)
  next
    case SharedTimer
    then show ?thesis using st steady_shared_timer [OF inv] by (simp add: admits_def)
  next
    case HoldTimer
    have "steady e s (dispatch_all e (expire_holds e s))"
      using steady_trans [OF calm_steady [OF calm_expire_holds [OF inv]] steady_dispatch [OF expire_holds_inv [OF inv]]] .
    then show ?thesis using st steady_stats HoldTimer by (simp add: admits_def)
  qed
qed

end
