(* ===== verification/Sched_Runs.thy ===== *)
theory Sched_Runs
  imports Sched_Steady
begin

text \<open>
  Runs of the scheduler with a shared backend: reachable states are tuned, no denial is forgotten,
  and no caller is lost.
\<close>

section \<open>Reachable states\<close>

lemma tuned_cong:
  assumes "mode_part s' = mode_part s" and "s_shared s' = s_shared s" and "map_of (s_pools s') = map_of (s_pools s)"
  shows "tuned s' = tuned s"
proof -
  have "armed s' = armed s" unfolding armed_def all_unmarked_def no_claims_def assms(2,3) by (rule refl)
  then show ?thesis using mode_part_wanted [OF assms(1)] by (simp add: tuned_def)
qed

lemma tuned_flush [simp]: "tuned (s\<lparr>s_out := xs\<rparr>) = tuned s"
  by (rule tuned_cong) (simp_all add: mode_part_def)

lemma tuned_rehash: "hmap_ok (s_pools s) \<Longrightarrow> mset m = mset (s_pools s) \<Longrightarrow> tuned (s\<lparr>s_pools := m\<rparr>) = tuned s"
  using map_of_perm [of m "s_pools s"] by (intro tuned_cong) (simp_all add: mode_part_def)

lemma tuned_step: "sched_step c c' \<Longrightarrow> settled c \<Longrightarrow> tuned (fst c) \<Longrightarrow> tuned (fst c')"
proof (induction rule: sched_step.induct)
  case (Turn e ev s s' P)
  have "tuned s'" unfolding Turn(3) by (rule turn_gains [THEN conjunct1, of P "{#}"]) (use Turn in \<open>auto simp: settled_def\<close>)
  then show ?case by simp
next
  case (Drop s' e t key k se s P)
  have "tuned s'" unfolding Drop(1)
    by (rule turn_gains [THEN conjunct1, of P "{#(k, t, key)#}"]) (use Drop(2,3) in \<open>auto simp: settled_def\<close>)
  then show ?case by simp
next
  case (Rehash m s P)
  then show ?case using tuned_rehash [OF pools_ok, of P s m] by (simp add: settled_def)
qed

lemma reachable_tuned: "sched_reachable c \<Longrightarrow> tuned (fst c)"
proof (induction rule: sched_reachable.induct)
  case (Start alg cap ttl)
  show ?case
    by (simp add: tuned_def wanted_mode_def wanted_divisor_def armed_def all_unmarked_def no_claims_def start_with_idle_pool_ttl_def)
next
  case (Step c c')
  then show ?case using tuned_step reachable_settled by blast
qed

text \<open>Runs in which nothing is granted, evaluated.\<close>

definition quiet_turn :: "env \<times> event \<Rightarrow> scheduler option \<Rightarrow> scheduler option" where
  "quiet_turn x st =
     (case (st, x) of
        (None, _) \<Rightarrow> None
      | (Some s, (e, ev)) \<Rightarrow>
          (let s' = turn e ev s
           in if event_ready e ev s \<and> grants (s_out s') = [] \<and> (case ev of Message (Release _ _ _ _) \<Rightarrow> False | _ \<Rightarrow> True)
              then Some (s'\<lparr>s_out := []\<rparr>) else None))"

lemma quiet_turn_reachable:
  assumes "quiet_turn x (Some s) = Some s'" and "sched_reachable (s, P)"
  shows "sched_reachable (s', P)"
proof -
  obtain e ev where x: "x = (e, ev)" by (cases x)
  have q: "event_ready e ev s" "grants (s_out (turn e ev s)) = []" "s' = (turn e ev s)\<lparr>s_out := []\<rparr>"
    "\<forall>t key k se. ev \<noteq> Message (Release t key k se)"
    using assms(1) x by (auto simp: quiet_turn_def Let_def split: if_splits)
  have "sched_step (s, P) (s', P + sent (turn e ev s))" unfolding q(3) by (rule sched_step.Turn [OF q(1,4) refl])
  then show ?thesis using sched_reachable.Step [OF assms(2)] q(2) by (simp add: sent_def)
qed

lemma quiet_run_reachable: "fold quiet_turn xs (Some s) = Some s' \<Longrightarrow> sched_reachable (s, P) \<Longrightarrow> sched_reachable (s', P)"
proof (induction xs arbitrary: s)
  case (Cons x xs)
  have n: "fold quiet_turn ys None = None" for ys by (induction ys) (simp_all add: quiet_turn_def)
  then obtain t where "quiet_turn x (Some s) = Some t" using Cons.prems(1) by (cases "quiet_turn x (Some s)") auto
  then show ?case using Cons quiet_turn_reachable by simp
qed simp

text \<open>Two replicas share a backend, and the first claim is denied because the pool is full.\<close>

definition brisk :: shared_slots_config where
  "brisk = \<lparr>cf_reconcile_interval = 9, cf_recovery_interval = 3, cf_retry_min = 1, cf_retry_max = 2, cf_op_timeout = 4,
     cf_max_pending_per_pool = 2, cf_split_on_fallback = True, cf_view_interval = 5\<rparr>"

definition denied_run :: "(env \<times> event) list" where
  "denied_run =
     [(tick 1 4, Message (EnableShared brisk)),
      (tick 2 4, Message (ReconcileDone (Inr Synced))),
      (tick 3 4, Message (fs_set_replicas 2)),
      (tick 4 4, Message (ReconcileDone (Inr Synced))),
      (tick 5 4, Message (fs_admit (admit_request_new ''t'' ''m'' 2) 7 5)),
      (tick 6 4, Message (AcquireDone (Model ''m'') 0 (Inr (Denied DenyPool, \<lparr>cc_pool = 2, cc_global = 2\<rparr>))))]"

definition denied_state :: scheduler where
  "denied_state = (case fold quiet_turn denied_run (Some demo_start) of None \<Rightarrow> demo_start | Some s \<Rightarrow> s)"

lemma denied_run_ok: "fold quiet_turn denied_run (Some demo_start) \<noteq> None"
  by code_simp

lemma denied_reachable: "sched_reachable (denied_state, {#})"
proof -
  obtain s where s: "fold quiet_turn denied_run (Some demo_start) = Some s" using denied_run_ok by auto
  have "sched_reachable (demo_start, {#})" unfolding demo_start_def by (rule sched_reachable.Start)
  then show ?thesis using quiet_run_reachable [OF s] s by (simp add: denied_state_def)
qed

lemma denied_facts:
  "(case s_shared denied_state of None \<Rightarrow> None | Some c \<Rightarrow> sh_retry_at c) \<noteq> None \<and>
   (case map_of (s_pools denied_state) (Model ''m'') of None \<Rightarrow> False | Some p \<Rightarrow> p_blocked p)"
  by code_simp

text \<open>When the retry falls due, the shared timer lifts every denial.\<close>

lemma timer_lifts:
  assumes inv: "sched_inv P s" and c: "s_shared s = Some c" and t: "sh_retry_at c = Some t" "t \<le> e_now e"
  shows "all_unmarked (turn e SharedTimer s) \<and> (\<forall>c'. s_shared (turn e SharedTimer s) = Some c' \<longrightarrow> \<not> sh_global_blocked c')"
proof (cases rule: shared_timer_cases [of s e])
  case (due c0 c1 t')
  let ?u = "unblock_all (s\<lparr>s_shared := Some c1\<rparr>)"
  have "sched_inv P ?u" using inv unblock_all_inv by (simp add: sched_inv_ess [OF ess_shared(1)])
  then have "sched_inv P (maybe_start_reconcile ?u)" by (simp add: sched_inv_ess [OF ess_reconcile])
  then have "calm e ?u (dispatch_all e (maybe_start_reconcile ?u))" using calm_idle_l [OF idle_reconcile calm_dispatch_all] by blast
  then have calm: "calm e ?u (shared_timer e s)" by (rule calm_idle_r [OF due(7)])
  have "all_unmarked (shared_timer e s)"
    unfolding all_unmarked_def
  proof (intro allI impI)
    fix k p' assume "map_of (s_pools (shared_timer e s)) k = Some p'"
    then obtain p where "map_of (s_pools ?u) k = Some p" "marks p' = marks p" using calm unfolding calm_def by blast
    then show "unmarked p'" using all_unmarked_unblock [of "s\<lparr>s_shared := Some c1\<rparr>"] by (simp add: all_unmarked_def unmarked_def)
  qed
  moreover have "map_option sh_global_blocked (s_shared (shared_timer e s)) = map_option sh_global_blocked (s_shared ?u)"
    using calm by (cases "s_shared (shared_timer e s)"; cases "s_shared ?u") (simp_all add: calm_def ctl_part_def)
  moreover have "map_option sh_global_blocked (s_shared ?u) = Some False" by (simp add: unblock_all_def with_shared_def each_pool_def)
  ultimately show ?thesis by auto
qed (use c t in auto)

section \<open>Properties\<close>

text \<open>A gateway divides the limits among the replicas: without a backend, or on falling back when so configured.\<close>

definition splits :: "scheduler \<Rightarrow> bool" where
  "splits s \<longleftrightarrow> 1 < s_replicas s \<and>
     (case s_shared s of None \<Rightarrow> True | Some c \<Rightarrow> \<not> sh_synced c \<and> cf_split_on_fallback (sh_config c))"

lemma wanted_divisor_splits: "wanted_divisor s = (if splits s then s_replicas s else 1)"
  by (auto simp: wanted_divisor_def wanted_mode_def splits_def split: option.split)

lemma replica_share_least:
  assumes "1 \<le> n"
  shows "tot \<le> n * replica_share tot n \<and> n * (replica_share tot n - 1) < max tot 1"
proof (cases "1 \<le> tot")
  case True
  then have "tot \<le> replica_share tot n * n" "replica_share tot n * n < tot + n"
    using replica_share_covers replica_share_over assms by blast+
  then show ?thesis using True replica_share_pos [of tot n] assms by (simp add: mult.commute [of n] diff_mult_distrib less_diff_conv2)
next
  case False
  then have "tot = 0" by simp
  then have "replica_share tot n = 1" using assms by (auto simp: replica_share_def div_ceil_def)
  then show ?thesis using \<open>tot = 0\<close> by simp
qed

text \<open>
  C19: The mode is always current. In every reachable state a gateway that is alone runs locally; one of several
  runs in shared mode while its backend is in step, falls back while it is not, and splits without a backend.
  The limits are divided by the number of replicas exactly while it splits, or falls back with splitting
  configured; then a pool's size is the least that, taken by every replica, covers the configured size, and
  otherwise it is the configured size (at least one slot).
\<close>

theorem mode_is_current:
  assumes "sched_reachable (s, P)"
  shows "(s_mode s = Local \<longleftrightarrow> s_replicas s \<le> 1) \<and>
    (s_mode s = Split \<longleftrightarrow> 1 < s_replicas s \<and> s_shared s = None) \<and>
    (s_mode s = Shared \<longleftrightarrow> 1 < s_replicas s \<and> (\<exists>c. s_shared s = Some c \<and> sh_synced c)) \<and>
    (s_mode s = Fallback \<longleftrightarrow> 1 < s_replicas s \<and> (\<exists>c. s_shared s = Some c \<and> \<not> sh_synced c)) \<and>
    s_divisor s =
      (if s_mode s = Split \<or> s_mode s = Fallback \<and> (\<exists>c. s_shared s = Some c \<and> cf_split_on_fallback (sh_config c))
       then s_replicas s else 1) \<and>
    (\<forall>k p. map_of (s_pools s) k = Some p \<longrightarrow>
       p_divisor p = s_divisor s \<and> 1 \<le> p_cap p \<and> p_configured_cap p \<le> s_divisor s * p_cap p \<and>
       s_divisor s * (p_cap p - 1) < max (p_configured_cap p) 1)"
proof -
  have m: "s_mode s = wanted_mode s" and d: "s_divisor s = (if splits s then s_replicas s else 1)"
    using reachable_tuned [OF assms] by (simp_all add: tuned_def wanted_divisor_splits)
  have inv: "sched_inv P s" using reachable_settled [OF assms] by (simp add: settled_def)
  have one: "1 \<le> s_divisor s" by (auto simp: d splits_def)
  have "p_divisor p = s_divisor s \<and> p_cap p = replica_share (p_configured_cap p) (s_divisor s)"
    if "map_of (s_pools s) k = Some p" for k p
    using sched_invD(1) [OF inv that] one by (auto simp: fits_def)
  then have "p_divisor p = s_divisor s \<and> 1 \<le> p_cap p \<and> p_configured_cap p \<le> s_divisor s * p_cap p \<and>
      s_divisor s * (p_cap p - 1) < max (p_configured_cap p) 1" if "map_of (s_pools s) k = Some p" for k p
    using that replica_share_least [OF one, of "p_configured_cap p"] replica_share_pos [of "p_configured_cap p" "s_divisor s"] by force
  moreover have "splits s \<longleftrightarrow> s_mode s = Split \<or> s_mode s = Fallback \<and> (\<exists>c. s_shared s = Some c \<and> cf_split_on_fallback (sh_config c))"
    by (auto simp: m splits_def wanted_mode_def split: option.splits)
  ultimately show ?thesis unfolding d by (auto simp: m wanted_mode_def split: option.splits)
qed

theorem mode_is_current_witness: "s_mode denied_state = Shared \<and> s_divisor denied_state = 1"
proof -
  have "1 < s_replicas denied_state \<and> map_option sh_synced (s_shared denied_state) = Some True" by code_simp
  then show ?thesis using mode_is_current [OF denied_reachable] by auto
qed

text \<open>
  C13: No denial is forgotten. While the shared backend's refusal of a pool, a tenant, a key or of
  everything is recorded, a retry is scheduled and the shared timer is set no later; and once the
  timer runs at or after that time every recorded refusal is gone, so that every waiter is tried
  again even if no wake-up ever arrives.
\<close>

theorem denials_are_retried:
  assumes "sched_reachable (s, P)" and "s_shared s = Some c"
    and "sh_global_blocked c \<or> (\<exists>k p. map_of (s_pools s) k = Some p \<and> \<not> unmarked p)"
  shows "\<exists>t. sh_retry_at c = Some t \<and> (\<exists>d. shared_deadline s = Some d \<and> d \<le> t) \<and>
    (\<forall>e. t \<le> e_now e \<longrightarrow> all_unmarked (turn e SharedTimer s) \<and>
       (\<forall>c'. s_shared (turn e SharedTimer s) = Some c' \<longrightarrow> \<not> sh_global_blocked c'))"
proof -
  have "armed s" using reachable_tuned [OF assms(1)] by (simp add: tuned_def)
  then obtain t where t: "sh_retry_at c = Some t" using assms(2,3) by (auto simp: armed_def all_unmarked_def)
  have inv: "sched_inv P s" using reachable_settled [OF assms(1)] by (simp add: settled_def)
  have "\<exists>d. shared_deadline s = Some d \<and> d \<le> t"
  proof -
    let ?xs = "List.map_filter id [sh_retry_at c,
      if sh_reconciling c = None \<and> \<not> sh_want_reconcile c then Some (sh_next_reconcile c) else None,
      if 1 < s_replicas s \<and> \<not> sh_publishing_view c then Some (sh_next_view c) else None]"
    have "t \<in> set ?xs" using t by (simp add: List.map_filter_def)
    moreover from this obtain d where "list_min ?xs = Some d" by (cases "list_min ?xs") auto
    moreover have "shared_deadline s = list_min ?xs" by (simp only: shared_deadline_def assms(2) option.case)
    ultimately show ?thesis using list_min_Some [of ?xs d] by auto
  qed
  moreover have "all_unmarked (turn e SharedTimer s) \<and> (\<forall>c'. s_shared (turn e SharedTimer s) = Some c' \<longrightarrow> \<not> sh_global_blocked c')"
    if "t \<le> e_now e" for e
    by (rule timer_lifts [OF inv assms(2) t that])
  ultimately show ?thesis using t by auto
qed

theorem denials_are_retried_witness:
  "\<exists>c t. s_shared denied_state = Some c \<and> sh_retry_at c = Some t \<and>
     (\<forall>e. t \<le> e_now e \<longrightarrow> all_unmarked (turn e SharedTimer denied_state))"
proof -
  obtain c where c: "s_shared denied_state = Some c" using denied_facts by (auto split: option.splits)
  obtain p where "map_of (s_pools denied_state) (Model ''m'') = Some p" "p_blocked p" using denied_facts by (auto split: option.splits)
  then have "\<exists>k p. map_of (s_pools denied_state) k = Some p \<and> \<not> unmarked p"
    by (intro exI [of _ "Model ''m''"] exI [of _ p]) (simp add: unmarked_def marks_def conf_def)
  then show ?thesis using denials_are_retried [OF denied_reachable c] c by auto
qed

text \<open>
  C1: No caller is lost and none is answered twice. Whatever a turn does, a caller that is still
  there is afterwards waiting (queued, or claiming a slot from the shared backend) or answered
  exactly as often as it was waiting before, plus once if the turn admitted it.
\<close>

theorem no_caller_lost:
  assumes "sched_reachable (s, P)" and "\<not> e_dead e r"
    and "\<forall>t key k se. ev = Message (Release t key k se) \<longrightarrow> (k, t, key) \<in># P"
  shows "msum (pool_calls r) (s_pools (turn e ev s)) + answers r (turn e ev s) =
    msum (pool_calls r) (s_pools s) + admits ev r"
proof -
  have st: "settled (s, P)" using reachable_settled [OF assms(1)] .
  then have inv: "sched_inv P s" and out: "answers r s = 0" by (simp_all add: settled_def answers_def)
  define Q where "Q = (case ev of Message (Release t key k se) \<Rightarrow> {#(k, t, key)#} | _ \<Rightarrow> {#})"
  have "Q \<subseteq># P" using assms(3) by (auto simp: Q_def split: event.splits ctl.splits)
  then have "sched_inv (P - Q + Q) s" using inv by simp
  moreover have "Q = {#(k, t, key)#}" if "ev = Message (Release t key k se)" for t key k se using that by (simp add: Q_def)
  ultimately have "calls r (turn e ev s) = calls r s + admits ev r"
    using turn_gains [of "P - Q" Q s ev e r] reachable_tuned [OF assms(1)] assms(2) by simp
  then show ?thesis using out by (simp add: calls_def)
qed

theorem no_caller_lost_witness:
  "msum (pool_calls 7) (s_pools (turn (tick 8 4) SharedTimer denied_state)) + answers 7 (turn (tick 8 4) SharedTimer denied_state) = 1"
proof -
  have "msum (pool_calls 7) (s_pools denied_state) = 1" by code_simp
  then show ?thesis using no_caller_lost [OF denied_reachable, of "tick 8 4" 7 SharedTimer] by (simp add: admits_def tick_def)
qed

end
