(* ===== verification/Text.thy ===== *)
theory Text
  imports Prelude "HOL-Library.Sublist"
begin

text \<open>
  Rust text. A \<open>String\<close> is the list of its UTF-8 bytes, so that the ASCII operations of the
  source (case mapping, splitting and replacing at ASCII characters, comparison, concatenation) are
  the byte operations. \<open>trim\<close> is \<open>str::trim\<close>: it removes the encodings of every character with the
  Unicode property \<open>White_Space\<close> at both ends. \<open>show_int\<close> and \<open>parse_i64\<close> are the \<open>Display\<close> and
  \<open>FromStr\<close> implementations of \<open>i64\<close>.
\<close>

section \<open>White space\<close>

definition white_space :: "string list" where
  "white_space =
     [[CHR 0x0A], '' '', [CHR 0x09], [CHR 0x0B], [CHR 0x0C], [CHR 0x0D],
      [CHR 0xC2, CHR 0x85], [CHR 0xC2, CHR 0xA0], [CHR 0xE1, CHR 0x9A, CHR 0x80],
      [CHR 0xE2, CHR 0x80, CHR 0x80], [CHR 0xE2, CHR 0x80, CHR 0x81], [CHR 0xE2, CHR 0x80, CHR 0x82],
      [CHR 0xE2, CHR 0x80, CHR 0x83], [CHR 0xE2, CHR 0x80, CHR 0x84], [CHR 0xE2, CHR 0x80, CHR 0x85],
      [CHR 0xE2, CHR 0x80, CHR 0x86], [CHR 0xE2, CHR 0x80, CHR 0x87], [CHR 0xE2, CHR 0x80, CHR 0x88],
      [CHR 0xE2, CHR 0x80, CHR 0x89], [CHR 0xE2, CHR 0x80, CHR 0x8A], [CHR 0xE2, CHR 0x80, CHR 0xA8],
      [CHR 0xE2, CHR 0x80, CHR 0xA9], [CHR 0xE2, CHR 0x80, CHR 0xAF], [CHR 0xE2, CHR 0x81, CHR 0x9F],
      [CHR 0xE3, CHR 0x80, CHR 0x80]]"

text \<open>Remove any of the given words from the front, as often as possible.\<close>

function strip :: "'a list list \<Rightarrow> 'a list \<Rightarrow> 'a list" where
  "strip ws s =
     (case find (\<lambda>w. w \<noteq> [] \<and> prefix w s) ws of
        None \<Rightarrow> s
      | Some w \<Rightarrow> strip ws (drop (length w) s))"
  by pat_completeness auto
termination
proof (relation "measure (\<lambda>(ws, s). length s)", simp)
  fix ws s and w :: "'a list"
  assume "find (\<lambda>w. w \<noteq> [] \<and> prefix w s) ws = Some w"
  then have "w \<noteq> []" and "prefix w s"
    by (auto simp: find_Some_iff)
  then have "0 < length w" and "length w \<le> length s"
    by (auto dest: prefix_length_le)
  then show "((ws, drop (length w) s), ws, s) \<in> measure (\<lambda>(ws, s). length s)"
    by (auto simp del: length_greater_0_conv)
qed

declare strip.simps [simp del]

definition trim_start :: "string \<Rightarrow> string" where
  "trim_start = strip white_space"

definition trim_end :: "string \<Rightarrow> string" where
  "trim_end s = rev (strip (map rev white_space) (rev s))"

definition trim :: "string \<Rightarrow> string" where
  "trim s = trim_end (trim_start s)"

lemma strip_suffix: "suffix (strip ws s) s"
proof (induction ws s rule: strip.induct)
  case (1 ws s)
  show ?case
  proof (cases "find (\<lambda>w. w \<noteq> [] \<and> prefix w s) ws")
    case None
    then show ?thesis
      by (simp add: strip.simps [of ws s])
  next
    case (Some w)
    then show ?thesis
      using "1.IH" [OF Some] suffix_drop [of "length w" s]
      by (simp add: strip.simps [of ws s] suffix_order.order_trans [OF _ suffix_drop])
  qed
qed

text \<open>Text that starts and ends with a printing ASCII character is left alone by \<open>trim\<close>.\<close>

definition no_ws_front :: "'a list list \<Rightarrow> 'a list \<Rightarrow> bool" where
  "no_ws_front ws s \<longleftrightarrow> (\<forall>w \<in> set ws. w \<noteq> [] \<longrightarrow> \<not> prefix w s)"

lemma strip_id: "no_ws_front ws s \<Longrightarrow> strip ws s = s"
  by (subst strip.simps) (auto simp: no_ws_front_def find_Some_iff split: option.splits)

lemma strip_no_ws: "no_ws_front ws (strip ws s)"
proof (induction ws s rule: strip.induct)
  case (1 ws s)
  show ?case
  proof (cases "find (\<lambda>w. w \<noteq> [] \<and> prefix w s) ws")
    case None
    then have "no_ws_front ws s"
      by (auto simp: no_ws_front_def find_None_iff)
    then show ?thesis
      by (simp add: strip_id)
  next
    case (Some w)
    then show ?thesis
      using "1.IH" [OF Some] by (simp add: strip.simps [of ws s])
  qed
qed

lemma strip_idem: "strip ws (strip ws s) = strip ws s"
  by (rule strip_id) (rule strip_no_ws)

text \<open>A leading byte that begins no white space character stops \<open>trim\<close>.\<close>

definition printing :: "char \<Rightarrow> bool" where
  "printing c \<longleftrightarrow> 0x20 < (of_char c :: nat) \<and> (of_char c :: nat) < 0x80"

lemma trim_start_printing: "printing c \<Longrightarrow> trim_start (c # s) = c # s"
  unfolding trim_start_def
  by (rule strip_id) (auto simp: no_ws_front_def white_space_def printing_def)

lemma trim_end_printing: "printing c \<Longrightarrow> trim_end (s @ [c]) = s @ [c]"
proof -
  assume "printing c"
  then have "no_ws_front (map rev white_space) (c # rev s)"
    by (auto simp: no_ws_front_def white_space_def printing_def)
  then show ?thesis
    by (simp add: trim_end_def strip_id)
qed

lemma trim_Nil [simp]: "trim [] = []"
  by (simp add: trim_def trim_start_def trim_end_def strip_id no_ws_front_def)

lemma trim_printing: "s \<noteq> [] \<Longrightarrow> \<forall>c \<in> set s. printing c \<Longrightarrow> trim s = s"
proof -
  assume s: "s \<noteq> []" "\<forall>c \<in> set s. printing c"
  then have "trim_start s = s"
    by (cases s) (simp_all add: trim_start_printing)
  moreover have "trim_end s = s"
    using s by (cases s rule: rev_cases) (simp_all add: trim_end_printing)
  ultimately show ?thesis
    by (simp add: trim_def)
qed

section \<open>Decimal numbers\<close>

definition digit :: "nat \<Rightarrow> char" where
  "digit n = char_of (48 + n)"

definition digit_value :: "char \<Rightarrow> nat option" where
  "digit_value c = (let n = of_char c in if 48 \<le> n \<and> n \<le> 57 then Some (n - 48) else None)"

fun show_nat :: "nat \<Rightarrow> string" where
  "show_nat n = (if n < 10 then [digit n] else show_nat (n div 10) @ [digit (n mod 10)])"

declare show_nat.simps [simp del]

definition show_int :: "int \<Rightarrow> string" where
  "show_int i = (if i < 0 then ''-'' @ show_nat (nat (- i)) else show_nat (nat i))"

fun read_digits :: "nat \<Rightarrow> string \<Rightarrow> nat option" where
  "read_digits acc [] = Some acc"
| "read_digits acc (c # s) =
     (case digit_value c of None \<Rightarrow> None | Some d \<Rightarrow> read_digits (10 * acc + d) s)"

definition parse_i64 :: "string \<Rightarrow> int option" where
  "parse_i64 s =
     (let (neg, ds) = (case s of c # t \<Rightarrow> if c = CHR ''-'' then (True, t)
                                           else if c = CHR ''+'' then (False, t) else (False, s)
                       | [] \<Rightarrow> (False, []))
      in if ds = [] then None
         else case read_digits 0 ds of
                None \<Rightarrow> None
              | Some n \<Rightarrow>
                  (let i = (if neg then - int n else int n)
                   in if - (2 ^ 63) \<le> i \<and> i < 2 ^ 63 then Some i else None))"

lemma digit_value_digit [simp]: "n < 10 \<Longrightarrow> digit_value (digit n) = Some n"
  by (simp add: digit_value_def digit_def)

lemma printing_digit: "n < 10 \<Longrightarrow> printing (digit n)"
  by (simp add: printing_def digit_def)

lemma digit_neq:
  "n < 10 \<Longrightarrow> digit n \<noteq> CHR ''-''" "n < 10 \<Longrightarrow> digit n \<noteq> CHR ''+''"
  "n < 10 \<Longrightarrow> digit n \<noteq> CHR '':''"
  using digit_value_digit [of n] by (auto simp: digit_value_def)

lemma show_nat_chars: "c \<in> set (show_nat n) \<Longrightarrow> \<exists>d < 10. c = digit d"
proof (induction n rule: show_nat.induct)
  case (1 n)
  have last: "\<exists>d < 10. digit (n mod 10) = digit d"
    by (rule exI [of _ "n mod 10"]) simp
  show ?case
    using 1 by (subst (asm) (2) show_nat.simps) (auto split: if_splits intro: last)
qed

lemma show_nat_neq [simp]: "show_nat n \<noteq> []"
  by (subst show_nat.simps) simp

lemma show_nat_printing: "c \<in> set (show_nat n) \<Longrightarrow> printing c"
  using show_nat_chars printing_digit by blast

lemma read_digits_append:
  "read_digits acc (s @ t) = (case read_digits acc s of None \<Rightarrow> None | Some n \<Rightarrow> read_digits n t)"
  by (induction acc s rule: read_digits.induct) (auto split: option.splits)

lemma read_show_nat: "read_digits 0 (show_nat n) = Some n"
proof (induction n rule: show_nat.induct)
  case (1 n)
  then show ?case
    by (subst show_nat.simps) (auto simp: read_digits_append)
qed

lemma show_nat_first: "\<exists>d t. show_nat n = digit d # t \<and> d < 10"
  using show_nat_chars [of "hd (show_nat n)" n] by (cases "show_nat n") auto

lemma parse_show_nat: "int n < 2 ^ 63 \<Longrightarrow> parse_i64 (show_nat n) = Some (int n)"
  using show_nat_first [of n] read_show_nat [of n]
  by (auto simp: parse_i64_def Let_def digit_neq)

lemma parse_show_int: "- (2 ^ 63) \<le> i \<Longrightarrow> i < 2 ^ 63 \<Longrightarrow> parse_i64 (show_int i) = Some i"
proof (cases "i < 0")
  case True
  assume "- (2 ^ 63) \<le> i" "i < 2 ^ 63"
  with True show ?thesis
    by (simp add: show_int_def parse_i64_def read_show_nat)
next
  case False
  assume "- (2 ^ 63) \<le> i" "i < 2 ^ 63"
  with False show ?thesis
    using parse_show_nat [of "nat i"] by (simp add: show_int_def)
qed

lemma show_nat_inj: "show_nat m = show_nat n \<Longrightarrow> m = n"
  by (metis option.inject read_show_nat)

section \<open>ASCII operations\<close>

abbreviation newline :: char where "newline \<equiv> CHR 0x0A"

definition to_ascii_uppercase :: "string \<Rightarrow> string" where
  "to_ascii_uppercase =
     map (\<lambda>c. let n = of_char c :: nat in if 97 \<le> n \<and> n \<le> 122 then char_of (n - 32) else c)"

definition to_ascii_lowercase :: "string \<Rightarrow> string" where
  "to_ascii_lowercase =
     map (\<lambda>c. let n = of_char c :: nat in if 65 \<le> n \<and> n \<le> 90 then char_of (n + 32) else c)"

definition eq_ignore_ascii_case :: "string \<Rightarrow> string \<Rightarrow> bool" where
  "eq_ignore_ascii_case s t \<longleftrightarrow> to_ascii_lowercase s = to_ascii_lowercase t"

text \<open>\<open>split(c)\<close>: the pieces between the separators, at least one.\<close>

fun split_on :: "char \<Rightarrow> string \<Rightarrow> string list" where
  "split_on c [] = [[]]"
| "split_on c (x # s) =
     (if x = c then [] # split_on c s
      else case split_on c s of [] \<Rightarrow> [[x]] | p # ps \<Rightarrow> (x # p) # ps)"

text \<open>\<open>split_once(c)\<close>: the text before and after the first separator.\<close>

fun split_once :: "char \<Rightarrow> string \<Rightarrow> (string \<times> string) option" where
  "split_once c [] = None"
| "split_once c (x # s) =
     (if x = c then Some ([], s) else map_option (\<lambda>(p, q). (x # p, q)) (split_once c s))"

definition trim_end_matches :: "char \<Rightarrow> string \<Rightarrow> string" where
  "trim_end_matches c s = rev (dropWhile (\<lambda>x. x = c) (rev s))"

fun contains_text :: "string \<Rightarrow> string \<Rightarrow> bool" where
  "contains_text pat [] = (pat = [])"
| "contains_text pat (c # s) = (prefix pat (c # s) \<or> contains_text pat s)"

fun join :: "string \<Rightarrow> string list \<Rightarrow> string" where
  "join sep [] = []"
| "join sep [x] = x"
| "join sep (x # xs) = x @ sep @ join sep xs"

lemma split_on_none: "c \<notin> set s \<Longrightarrow> split_on c s = [s]"
  by (induction s) auto

lemma split_on_append: "c \<notin> set s \<Longrightarrow> split_on c (s @ c # t) = s # split_on c t"
  by (induction s) auto

lemma split_once_append: "c \<notin> set s \<Longrightarrow> split_once c (s @ c # t) = Some (s, t)"
  by (induction s) auto

lemma split_once_none: "c \<notin> set s \<Longrightarrow> split_once c s = None"
  by (induction s) auto

lemma to_ascii_lowercase_idem [simp]: "to_ascii_lowercase (to_ascii_lowercase s) = to_ascii_lowercase s"
  by (induction s) (auto simp: to_ascii_lowercase_def Let_def)

end
