(* ===== verification/Ip_Text.thy ===== *)
theory Ip_Text
  imports Text
begin

text \<open>
  Address literals: \<open>str::parse::<IpAddr>\<close> of the standard library, as a recogniser. The reader takes
  an IPv4 address of four decimal octets (at most three digits, no leading zero) or an IPv6 address of
  hexadecimal groups with at most one \<open>::\<close> and an optional IPv4 tail, and must consume all the text.
\<close>

type_synonym 'a reader = "string \<Rightarrow> ('a \<times> string) option"

definition hex_value :: "char \<Rightarrow> nat option" where
  "hex_value c =
     (let n = of_char c
      in if 48 \<le> n \<and> n \<le> 57 then Some (n - 48)
         else if 97 \<le> n \<and> n \<le> 102 then Some (n - 87)
         else if 65 \<le> n \<and> n \<le> 70 then Some (n - 55) else None)"

definition read_char :: "char \<Rightarrow> unit reader" where
  "read_char c s = (case s of x # t \<Rightarrow> if x = c then Some ((), t) else None | [] \<Rightarrow> None)"

text \<open>
  \<open>read_number\<close>: the digits at the front, refused when there are none, too many, too large a value,
  or a forbidden leading zero.
\<close>

definition read_number :: "(char \<Rightarrow> nat option) \<Rightarrow> nat \<Rightarrow> nat \<Rightarrow> nat \<Rightarrow> bool \<Rightarrow> nat reader" where
  "read_number value radix max_digits bound zero_prefix s =
     (let ds = takeWhile (\<lambda>c. value c \<noteq> None) s; rest = dropWhile (\<lambda>c. value c \<noteq> None) s;
          n = foldl (\<lambda>a c. radix * a + the (value c)) 0 ds
      in if ds = [] \<or> max_digits < length ds \<or> bound < n
            \<or> (\<not> zero_prefix \<and> hd ds = CHR ''0'' \<and> 1 < length ds) then None
         else Some (n, rest))"

text \<open>\<open>read_separator\<close>: the separator before every item but the first.\<close>

definition read_separator :: "char \<Rightarrow> nat \<Rightarrow> 'a reader \<Rightarrow> 'a reader" where
  "read_separator sep i inner s =
     (if i = 0 then inner s
      else case read_char sep s of None \<Rightarrow> None | Some (_, t) \<Rightarrow> inner t)"

definition read_octet :: "nat reader" where
  "read_octet = read_number digit_value 10 3 255 False"

definition read_ipv4 :: "(nat \<times> nat \<times> nat \<times> nat) reader" where
  "read_ipv4 s =
     (case read_separator CHR ''.'' 0 read_octet s of
        None \<Rightarrow> None
      | Some (a, s) \<Rightarrow>
          (case read_separator CHR ''.'' 1 read_octet s of
             None \<Rightarrow> None
           | Some (b, s) \<Rightarrow>
               (case read_separator CHR ''.'' 2 read_octet s of
                  None \<Rightarrow> None
                | Some (c, s) \<Rightarrow>
                    (case read_separator CHR ''.'' 3 read_octet s of
                       None \<Rightarrow> None
                     | Some (d, s) \<Rightarrow> Some ((a, b, c, d), s)))))"

definition read_group :: "nat reader" where
  "read_group = read_number hex_value 16 4 65535 True"

text \<open>
  \<open>read_groups\<close>: up to \<open>limit\<close> groups from position \<open>i\<close>; the groups read, whether the last two came
  from an IPv4 address, and the text left.
\<close>

function read_groups :: "nat \<Rightarrow> nat \<Rightarrow> string \<Rightarrow> nat list \<times> bool \<times> string" where
  "read_groups limit i s =
     (if limit \<le> i then ([], False, s)
      else case (if i + 1 < limit then read_separator CHR '':'' i read_ipv4 s else None) of
             Some ((a, b, c, d), t) \<Rightarrow> ([256 * a + b, 256 * c + d], True, t)
           | None \<Rightarrow>
               (case read_separator CHR '':'' i read_group s of
                  None \<Rightarrow> ([], False, s)
                | Some (g, t) \<Rightarrow>
                    (let (gs, v4, u) = read_groups limit (i + 1) t in (g # gs, v4, u))))"
  by pat_completeness auto
termination
  by (relation "measure (\<lambda>(limit, i, s). limit - i)") auto

declare read_groups.simps [simp del]

definition read_ipv6 :: "nat list reader" where
  "read_ipv6 s =
     (let (front, front_v4, t) = read_groups 8 0 s; n = length front
      in if n = 8 then Some (front, t)
         else if front_v4 then None
         else case read_char CHR '':'' t of
                None \<Rightarrow> None
              | Some (_, t) \<Rightarrow>
                  (case read_char CHR '':'' t of
                     None \<Rightarrow> None
                   | Some (_, t) \<Rightarrow>
                       (let (tail, _, u) = read_groups (8 - (n + 1)) 0 t
                        in Some (front @ replicate (8 - n - length tail) 0 @ tail, u))))"

datatype ip_addr = V4 nat nat nat nat | V6 "nat list"

definition parse_ip :: "string \<Rightarrow> ip_addr option" where
  "parse_ip s =
     (case read_ipv4 s of
        Some ((a, b, c, d), t) \<Rightarrow> if t = [] then Some (V4 a b c d) else None
      | None \<Rightarrow> (case read_ipv6 s of Some (gs, t) \<Rightarrow> if t = [] then Some (V6 gs) else None | None \<Rightarrow> None))"

definition is_ip :: "string \<Rightarrow> bool" where
  "is_ip s \<longleftrightarrow> parse_ip s \<noteq> None"

end
