(* ===== verification/Planner.thy ===== *)
theory Planner
  imports Text "HOL-Library.Word" "HOL-Library.Product_Lexorder"
begin

text \<open>
  The planner of the provisioner (\<open>obleth-provisioner/src/plan.rs\<close> and \<open>domain.rs\<close>): the pure
  reconcile step that compares a model's replica rows with the Slurm jobs behind them and answers
  with the actions to take, the choice of port windows, and the self-heal bookkeeping.

  \<^item> Replica states are the strings of the database column; job and health look-ups are maps.
  \<^item> \<open>i64\<close> values (targets, ages, port bases) are integers: the planner only counts rows, compares,
    and adds multiples of the port span to a port number.
  \<^item> The loop of \<open>plan\<close> over the rows is a fold of \<open>plan_row\<close> over a record of its local variables.
\<close>

section \<open>Jobs, replicas and actions\<close>

datatype job_state = Pending | Running | Gone

record job_info =
  ji_job_id :: string
  ji_state :: job_state
  ji_nodes :: "string list"
  ji_raw_state :: string
  ji_reason :: "string option"

record replica_view =
  rv_id :: uuid
  rv_model_id :: uuid
  rv_slurm_job_id :: string
  rv_state :: string
  rv_endpoint_id :: "uuid option"
  rv_age_secs :: int
  rv_port_base :: int
  rv_last_message :: "string option"
  rv_cancel_requested :: bool

record endpoint_view =
  ev_id :: uuid
  ev_name :: string
  ev_api_base :: string
  ev_priority :: int
  ev_weight :: int
  ev_enabled :: bool
  ev_health_status :: "string option"
  ev_consecutive_failures :: int
  ev_checked_secs_ago :: "int option"

datatype cancel_reason = ScaleDown | OperatorRestart | ProbeFailed

datatype action =
  Submit
| Promote uuid string
| MarkLost uuid "uuid option" "string option" "string option"
| Cancel uuid string "uuid option" cancel_reason
| Delete uuid

record managed_spec_view =
  mv_target_replicas :: int
  mv_max_job_failures :: int

definition lost_message :: "string option \<Rightarrow> string option \<Rightarrow> string" where
  "lost_message raw_state reason =
     (case raw_state of
        None \<Rightarrow> ''job gone''
      | Some raw \<Rightarrow>
          if trim raw = [] then ''job gone''
          else (case reason of
                  None \<Rightarrow> ''job ended: '' @ trim raw
                | Some r \<Rightarrow>
                    if trim r = [] then ''job ended: '' @ trim raw
                    else ''job ended: '' @ trim raw @ '' ('' @ trim r @ '')''))"

section \<open>Port windows\<close>

text \<open>
  The loop of \<open>next_free_window_base\<close> from the base it looks at. It ends because every base it
  passes is in the list.
\<close>

function window_from :: "int \<Rightarrow> int list \<Rightarrow> int \<Rightarrow> int" where
  "window_from span taken base =
     (if base \<in> set taken then window_from span taken (base + max span 1) else base)"
  by pat_completeness auto
termination
proof (relation "measure (\<lambda>(span, taken, base). card {b \<in> set taken. base \<le> b})", simp)
  fix span base :: int and taken
  assume "base \<in> set taken"
  then have "base \<in> {b \<in> set taken. base \<le> b} - {b \<in> set taken. base + max span 1 \<le> b}"
    by simp
  moreover have "{b \<in> set taken. base + max span 1 \<le> b} \<subseteq> {b \<in> set taken. base \<le> b}"
    by auto
  ultimately have "{b \<in> set taken. base + max span 1 \<le> b} \<subset> {b \<in> set taken. base \<le> b}"
    by blast
  then show "((span, taken, base + max span 1), span, taken, base)
      \<in> measure (\<lambda>(span, taken, base). card {b \<in> set taken. base \<le> b})"
    by (simp add: psubset_card_mono)
qed

declare window_from.simps [simp del]

definition next_free_window_base :: "int \<Rightarrow> int \<Rightarrow> int list \<Rightarrow> int" where
  "next_free_window_base serving_port span live_port_bases = window_from span live_port_bases serving_port"

section \<open>The plan\<close>

definition endpoint_api_base :: "string \<Rightarrow> int \<Rightarrow> string" where
  "endpoint_api_base node serving_port = ''http://'' @ node @ '':'' @ show_int serving_port @ ''/v1''"

type_synonym jobs = "(string, job_info) hmap"
type_synonym health = "(uuid, 16 word) hmap"

definition job_state_of :: "jobs \<Rightarrow> replica_view \<Rightarrow> job_state option" where
  "job_state_of jobs r = map_option ji_state (map_of jobs (rv_slurm_job_id r))"

text \<open>A replica that may be cancelled: id, job, endpoint, rank and age.\<close>

type_synonym candidate = "uuid \<times> string \<times> uuid option \<times> nat \<times> int"

record planning =
  pl_actions :: "action list"
  pl_alive :: int
  pl_restart_budget :: nat
  pl_cancellable :: "candidate list"

definition push :: "action \<Rightarrow> planning \<Rightarrow> planning" where
  "push a pl = pl\<lparr>pl_actions := pl_actions pl @ [a]\<rparr>"

definition keep_alive :: "replica_view \<Rightarrow> nat \<Rightarrow> planning \<Rightarrow> planning" where
  "keep_alive r rank pl =
     pl\<lparr>pl_alive := pl_alive pl + 1,
        pl_cancellable := pl_cancellable pl
          @ [(rv_id r, rv_slurm_job_id r, rv_endpoint_id r, rank, rv_age_secs r)]\<rparr>"

definition job_over :: "jobs \<Rightarrow> replica_view \<Rightarrow> bool" where
  "job_over jobs r \<longleftrightarrow> job_state_of jobs r = None \<or> job_state_of jobs r = Some Gone"

definition needs_promote :: "replica_view \<Rightarrow> bool" where
  "needs_promote r \<longleftrightarrow> rv_state r = ''starting'' \<or> rv_state r = ''pending''
     \<or> (rv_state r = ''healthy'' \<and> rv_endpoint_id r = None)"

definition first_node :: "jobs \<Rightarrow> replica_view \<Rightarrow> string" where
  "first_node jobs r =
     (case map_of jobs (rv_slurm_job_id r) of
        None \<Rightarrow> []
      | Some j \<Rightarrow> (case ji_nodes j of [] \<Rightarrow> [] | n # _ \<Rightarrow> n))"

definition mark_lost :: "jobs \<Rightarrow> replica_view \<Rightarrow> action" where
  "mark_lost jobs r =
     (let job = map_of jobs (rv_slurm_job_id r)
      in MarkLost (rv_id r) (rv_endpoint_id r)
           (case job of None \<Rightarrow> None
            | Some j \<Rightarrow> if trim (ji_raw_state j) = [] then None else Some (trim (ji_raw_state j)))
           (case job of None \<Rightarrow> None | Some j \<Rightarrow> ji_reason j))"

definition plan_row ::
  "jobs \<Rightarrow> health \<Rightarrow> uuid list \<Rightarrow> int \<Rightarrow> replica_view \<Rightarrow> planning \<Rightarrow> planning" where
  "plan_row jobs health restart retention r pl =
     (if rv_state r = ''lost'' then
        (if retention \<le> rv_age_secs r then push (Delete (rv_id r)) pl else pl)
      else if rv_state r = ''draining'' then
        (if job_over jobs r then push (Delete (rv_id r)) pl else pl)
      else
        (let self_heal = (\<not> rv_cancel_requested r \<and> rv_id r \<in> set restart \<and> 0 < pl_restart_budget pl)
         in if (rv_cancel_requested r \<or> self_heal) \<and> \<not> job_over jobs r then
              (let pl = (if self_heal then pl\<lparr>pl_restart_budget := pl_restart_budget pl - 1\<rparr> else pl)
               in push (Cancel (rv_id r) (rv_slurm_job_id r) (rv_endpoint_id r)
                    (if rv_cancel_requested r then OperatorRestart else ProbeFailed)) pl)
            else case job_state_of jobs r of
                   Some Pending \<Rightarrow> keep_alive r 0 pl
                 | Some Running \<Rightarrow>
                     if needs_promote r then
                       keep_alive r 1
                         (case map_of health (rv_id r) of
                            None \<Rightarrow> pl
                          | Some port \<Rightarrow>
                              push (Promote (rv_id r) (endpoint_api_base (first_node jobs r) (uint port))) pl)
                     else keep_alive r 2 pl
                 | _ \<Rightarrow> push (mark_lost jobs r) pl))"

definition is_mark_lost :: "action \<Rightarrow> bool" where
  "is_mark_lost a = (case a of MarkLost _ _ _ _ \<Rightarrow> True | _ \<Rightarrow> False)"

definition plan_rows :: "jobs \<Rightarrow> health \<Rightarrow> uuid list \<Rightarrow> int \<Rightarrow> replica_view list \<Rightarrow> planning" where
  "plan_rows jobs health restart retention replicas =
     fold (plan_row jobs health restart retention) replicas
       \<lparr>pl_actions = [], pl_alive = 0, pl_restart_budget = 1, pl_cancellable = []\<rparr>"

definition lost_count :: "replica_view list \<Rightarrow> action list \<Rightarrow> int" where
  "lost_count replicas actions =
     int (length (filter (\<lambda>r. rv_state r = ''lost'') replicas)) + int (length (filter is_mark_lost actions))"

definition cancel_order :: "candidate \<Rightarrow> nat \<times> int" where
  "cancel_order c = (case c of (_, _, _, rank, age) \<Rightarrow> (rank, - age))"

definition scale_down :: "candidate \<Rightarrow> action" where
  "scale_down c = (case c of (i, job, endpoint, _, _) \<Rightarrow> Cancel i job endpoint ScaleDown)"

definition plan ::
  "managed_spec_view \<Rightarrow> replica_view list \<Rightarrow> jobs \<Rightarrow> health \<Rightarrow> uuid list \<Rightarrow> int \<Rightarrow> action list" where
  "plan spec replicas jobs health restart retention =
     (let pl = plan_rows jobs health restart retention replicas;
          target = max (mv_target_replicas spec) 0;
          lost = lost_count replicas (pl_actions pl);
          failure_limit_hit = (0 < mv_max_job_failures spec \<and> mv_max_job_failures spec \<le> lost)
      in if pl_alive pl < target \<and> \<not> failure_limit_hit then
           pl_actions pl @ replicate (nat (target - pl_alive pl)) Submit
         else if target < pl_alive pl then
           pl_actions pl
             @ map scale_down (take (nat (pl_alive pl - target)) (sort_key cancel_order (pl_cancellable pl)))
         else pl_actions pl)"

section \<open>Self-heal bookkeeping\<close>

definition clear_dangling_endpoints :: "uuid list \<Rightarrow> replica_view list \<Rightarrow> replica_view list" where
  "clear_dangling_endpoints known_endpoints =
     map (\<lambda>r. if rv_state r = ''healthy''
                  \<and> (case rv_endpoint_id r of None \<Rightarrow> False | Some ep \<Rightarrow> ep \<notin> set known_endpoints)
              then r\<lparr>rv_endpoint_id := None\<rparr> else r)"

text \<open>At the start of a tick: forget the streaks of replicas that are gone or no longer healthy.\<close>

definition retain_streaks :: "replica_view list \<Rightarrow> (uuid, int) hmap \<Rightarrow> (uuid, int) hmap" where
  "retain_streaks all_replicas =
     filter (\<lambda>(i, _). list_ex (\<lambda>r. rv_id r = i \<and> rv_state r = ''healthy'') all_replicas)"

definition judged :: "jobs \<Rightarrow> replica_view \<Rightarrow> bool" where
  "judged jobs r \<longleftrightarrow> rv_state r = ''healthy''
     \<and> (case map_of jobs (rv_slurm_job_id r) of
          None \<Rightarrow> False | Some j \<Rightarrow> ji_state j = Running \<and> ji_nodes j \<noteq> [])"

definition count_probe :: "jobs \<Rightarrow> health \<Rightarrow> replica_view \<Rightarrow> (uuid, int) hmap \<Rightarrow> (uuid, int) hmap" where
  "count_probe jobs health r counts =
     (if \<not> judged jobs r then counts
      else if contains_key health (rv_id r) then
        (case map_of counts (rv_id r) of
           None \<Rightarrow> counts
         | Some n \<Rightarrow> if 1 < n then AList.update (rv_id r) (n - 1) counts else AList.delete (rv_id r) counts)
      else AList.update (rv_id r) (get_or 0 counts (rv_id r) + 1) counts)"

definition update_probe_failures ::
  "replica_view list \<Rightarrow> jobs \<Rightarrow> health \<Rightarrow> (uuid, int) hmap \<Rightarrow> (uuid, int) hmap" where
  "update_probe_failures replicas jobs health counts = fold (count_probe jobs health) replicas counts"

definition GATEWAY_UNHEALTHY_CHECKS :: int where "GATEWAY_UNHEALTHY_CHECKS = 2"

definition GATEWAY_CHECK_MAX_AGE_SECS :: int where "GATEWAY_CHECK_MAX_AGE_SECS = 3600"

definition endpoint_unhealthy :: "endpoint_view \<Rightarrow> bool" where
  "endpoint_unhealthy e \<longleftrightarrow> ev_health_status e = Some ''unhealthy''
     \<and> GATEWAY_UNHEALTHY_CHECKS \<le> ev_consecutive_failures e
     \<and> (case ev_checked_secs_ago e of None \<Rightarrow> False | Some s \<Rightarrow> s \<le> GATEWAY_CHECK_MAX_AGE_SECS)"

definition restart_candidates ::
  "replica_view list \<Rightarrow> (uuid, int) hmap \<Rightarrow> int \<Rightarrow> endpoint_view list \<Rightarrow> uuid list" where
  "restart_candidates replicas probe_failures probe_threshold endpoints =
     (if probe_threshold \<le> 0 then []
      else (let unhealthy_eps = map ev_id (filter endpoint_unhealthy endpoints)
            in map rv_id (filter (\<lambda>r. rv_state r = ''healthy''
                 \<and> (probe_threshold \<le> get_or 0 probe_failures (rv_id r)
                    \<or> (case rv_endpoint_id r of None \<Rightarrow> False | Some ep \<Rightarrow> ep \<in> set unhealthy_eps))) replicas)))"

end
