(* ===== verification/Planner_Props.thy ===== *)
theory Planner_Props
  imports Planner
begin

text \<open>
  What the planner promises: the rows it keeps and the jobs it submits add up to the target, every
  action it asks for is justified by the row and the job it names, no row is torn down twice, excess
  replicas go in the documented order, at most one replica is restarted on the probes' word, port
  windows are free and disjoint, and the probe counters measure sustained failure.
\<close>

section \<open>One row\<close>

definition active :: "replica_view \<Rightarrow> bool" where
  "active r \<longleftrightarrow> rv_state r \<noteq> ''lost'' \<and> rv_state r \<noteq> ''draining''"

text \<open>A replica with a job that is queued or running.\<close>

definition live :: "jobs \<Rightarrow> replica_view \<Rightarrow> bool" where
  "live jobs r \<longleftrightarrow> active r \<and> \<not> job_over jobs r"

definition rank_of :: "jobs \<Rightarrow> replica_view \<Rightarrow> nat" where
  "rank_of jobs r = (if job_state_of jobs r = Some Pending then 0 else if needs_promote r then 1 else 2)"

definition candidate_of :: "jobs \<Rightarrow> replica_view \<Rightarrow> candidate" where
  "candidate_of jobs r = (rv_id r, rv_slurm_job_id r, rv_endpoint_id r, rank_of jobs r, rv_age_secs r)"

definition deletable :: "jobs \<Rightarrow> int \<Rightarrow> replica_view \<Rightarrow> bool" where
  "deletable jobs retention r \<longleftrightarrow>
     (rv_state r = ''lost'' \<and> retention \<le> rv_age_secs r) \<or> (rv_state r = ''draining'' \<and> job_over jobs r)"

definition promotable :: "jobs \<Rightarrow> health \<Rightarrow> replica_view \<Rightarrow> bool" where
  "promotable jobs health r \<longleftrightarrow>
     active r \<and> job_state_of jobs r = Some Running \<and> needs_promote r \<and> contains_key health (rv_id r)"

definition promotion :: "jobs \<Rightarrow> health \<Rightarrow> replica_view \<Rightarrow> action" where
  "promotion jobs health r =
     Promote (rv_id r) (endpoint_api_base (first_node jobs r) (uint (the (map_of health (rv_id r)))))"

definition restart_of :: "replica_view \<Rightarrow> cancel_reason \<Rightarrow> action" where
  "restart_of r why = Cancel (rv_id r) (rv_slurm_job_id r) (rv_endpoint_id r) why"

lemma plan_row_inactive:
  "\<not> active r \<Longrightarrow> plan_row jobs health restart retention r pl =
     (if deletable jobs retention r then push (Delete (rv_id r)) pl else pl)"
  by (auto simp: plan_row_def active_def deletable_def)

lemma plan_row_over:
  "active r \<Longrightarrow> job_over jobs r \<Longrightarrow>
     plan_row jobs health restart retention r pl = push (mark_lost jobs r) pl"
  by (auto simp: plan_row_def active_def job_over_def split: option.splits job_state.splits)

lemma plan_row_operator:
  "live jobs r \<Longrightarrow> rv_cancel_requested r \<Longrightarrow>
     plan_row jobs health restart retention r pl = push (restart_of r OperatorRestart) pl"
  by (simp add: plan_row_def active_def live_def restart_of_def)

lemma plan_row_heal:
  "live jobs r \<Longrightarrow> \<not> rv_cancel_requested r \<Longrightarrow> rv_id r \<in> set restart \<Longrightarrow> 0 < pl_restart_budget pl \<Longrightarrow>
     plan_row jobs health restart retention r pl =
       push (restart_of r ProbeFailed) (pl\<lparr>pl_restart_budget := pl_restart_budget pl - 1\<rparr>)"
  by (simp add: plan_row_def active_def live_def restart_of_def)

lemma plan_row_kept:
  "live jobs r \<Longrightarrow> \<not> rv_cancel_requested r \<Longrightarrow>
     \<not> (rv_id r \<in> set restart \<and> 0 < pl_restart_budget pl) \<Longrightarrow>
     plan_row jobs health restart retention r pl =
       keep_alive r (rank_of jobs r)
         (if promotable jobs health r then push (promotion jobs health r) pl else pl)"
  by (auto simp: plan_row_def active_def live_def job_over_def rank_of_def promotable_def promotion_def
      contains_key_def split: option.splits job_state.splits)

lemma plan_row_cases:
  obtains (skip) "plan_row jobs health restart retention r pl = pl"
      "\<not> active r" "\<not> deletable jobs retention r"
  | (delete) "plan_row jobs health restart retention r pl = push (Delete (rv_id r)) pl"
      "\<not> active r" "deletable jobs retention r"
  | (lost) "plan_row jobs health restart retention r pl = push (mark_lost jobs r) pl"
      "active r" "job_over jobs r"
  | (operator) "plan_row jobs health restart retention r pl = push (restart_of r OperatorRestart) pl"
      "live jobs r" "rv_cancel_requested r"
  | (heal) "plan_row jobs health restart retention r pl =
        push (restart_of r ProbeFailed) (pl\<lparr>pl_restart_budget := pl_restart_budget pl - 1\<rparr>)"
      "live jobs r" "\<not> rv_cancel_requested r" "rv_id r \<in> set restart" "0 < pl_restart_budget pl"
  | (keep) "plan_row jobs health restart retention r pl =
        keep_alive r (rank_of jobs r)
          (if promotable jobs health r then push (promotion jobs health r) pl else pl)"
      "live jobs r" "\<not> rv_cancel_requested r" "\<not> (rv_id r \<in> set restart \<and> 0 < pl_restart_budget pl)"
proof (cases "live jobs r")
  case True
  show thesis
    by (cases "rv_cancel_requested r"; cases "rv_id r \<in> set restart \<and> 0 < pl_restart_budget pl")
      (simp_all add: operator heal keep True plan_row_operator plan_row_heal plan_row_kept)
next
  case False
  then consider "\<not> active r" | "active r" "job_over jobs r"
    by (auto simp: live_def)
  then show thesis
    by cases (use skip delete lost plan_row_inactive plan_row_over in \<open>metis\<close>)+
qed

section \<open>All rows\<close>

text \<open>The replica a destructive action names, and the replicas a list of actions cancels.\<close>

definition torn_down :: "action \<Rightarrow> uuid list" where
  "torn_down a = (case a of MarkLost i _ _ _ \<Rightarrow> [i] | Cancel i _ _ _ \<Rightarrow> [i] | Delete i \<Rightarrow> [i] | _ \<Rightarrow> [])"

definition torn :: "action list \<Rightarrow> uuid list" where
  "torn acts = concat (map torn_down acts)"

definition cancels :: "action \<Rightarrow> uuid set" where
  "cancels a = (case a of Cancel i _ _ _ \<Rightarrow> {i} | _ \<Rightarrow> {})"

definition cancelled :: "action list \<Rightarrow> uuid set" where
  "cancelled acts = (\<Union>a \<in> set acts. cancels a)"

definition kept :: "jobs \<Rightarrow> action list \<Rightarrow> replica_view list \<Rightarrow> replica_view list" where
  "kept jobs acts rows = filter (\<lambda>r. live jobs r \<and> rv_id r \<notin> cancelled acts) rows"

definition from_rows :: "planning" where
  "from_rows = \<lparr>pl_actions = [], pl_alive = 0, pl_restart_budget = 1, pl_cancellable = []\<rparr>"

lemma plan_rows_Nil [simp]: "plan_rows jobs health restart retention [] = from_rows"
  by (simp add: plan_rows_def from_rows_def)

lemma plan_rows_snoc [simp]:
  "plan_rows jobs health restart retention (rows @ [r]) =
     plan_row jobs health restart retention r (plan_rows jobs health restart retention rows)"
  by (simp add: plan_rows_def)

lemma push_simps [simp]:
  "pl_actions (push a pl) = pl_actions pl @ [a]" "pl_alive (push a pl) = pl_alive pl"
  "pl_restart_budget (push a pl) = pl_restart_budget pl" "pl_cancellable (push a pl) = pl_cancellable pl"
  by (simp_all add: push_def)

lemma keep_alive_simps [simp]:
  "pl_actions (keep_alive r n pl) = pl_actions pl" "pl_alive (keep_alive r n pl) = pl_alive pl + 1"
  "pl_restart_budget (keep_alive r n pl) = pl_restart_budget pl"
  "pl_cancellable (keep_alive r n pl) =
     pl_cancellable pl @ [(rv_id r, rv_slurm_job_id r, rv_endpoint_id r, n, rv_age_secs r)]"
  by (simp_all add: keep_alive_def)

lemma cancelled_simps [simp]:
  "cancelled [] = {}" "cancelled (a # acts) = cancels a \<union> cancelled acts"
  "cancelled (acts @ bs) = cancelled acts \<union> cancelled bs"
  by (auto simp: cancelled_def)

lemma cancels_simps [simp]:
  "cancels (restart_of r why) = {rv_id r}" "cancels (mark_lost jobs r) = {}" "cancels (Delete i) = {}"
  "cancels (promotion jobs health r) = {}" "cancels Submit = {}"
  by (simp_all add: cancels_def restart_of_def mark_lost_def promotion_def Let_def)

lemma torn_down_simps [simp]:
  "torn_down (restart_of r why) = [rv_id r]" "torn_down (mark_lost jobs r) = [rv_id r]"
  "torn_down (Delete i) = [i]" "torn_down (promotion jobs health r) = []" "torn_down Submit = []"
  by (simp_all add: torn_down_def restart_of_def mark_lost_def promotion_def Let_def)

lemma is_mark_lost_simps [simp]:
  "\<not> is_mark_lost (restart_of r why)" "is_mark_lost (mark_lost jobs r)" "\<not> is_mark_lost (Delete i)"
  "\<not> is_mark_lost (promotion jobs health r)"
  by (simp_all add: is_mark_lost_def restart_of_def mark_lost_def promotion_def Let_def)

lemma torn_simps [simp]:
  "torn [] = []" "torn (a # acts) = torn_down a @ torn acts" "torn (acts @ bs) = torn acts @ torn bs"
  by (simp_all add: torn_def)

lemma torn_submits [simp]: "torn (replicate n Submit) = []"
  by (induction n) auto

lemma torn_member: "i \<in> set (torn acts) \<longleftrightarrow> (\<exists>a \<in> set acts. i \<in> set (torn_down a))"
  by (simp add: torn_def)

lemma row_unique:
  "distinct (map rv_id rows) \<Longrightarrow> r \<in> set rows \<Longrightarrow> r' \<in> set rows \<Longrightarrow> rv_id r' = rv_id r \<Longrightarrow> r' = r"
  by (auto simp: distinct_map inj_on_def)

text \<open>What may be asked of a row.\<close>

definition justified ::
  "jobs \<Rightarrow> health \<Rightarrow> uuid list \<Rightarrow> int \<Rightarrow> replica_view \<Rightarrow> action \<Rightarrow> bool" where
  "justified jobs health restart retention r a \<longleftrightarrow>
     (a = Delete (rv_id r) \<and> deletable jobs retention r)
     \<or> (a = mark_lost jobs r \<and> active r \<and> job_over jobs r)
     \<or> (a = restart_of r OperatorRestart \<and> live jobs r \<and> rv_cancel_requested r)
     \<or> (a = restart_of r ProbeFailed \<and> live jobs r \<and> \<not> rv_cancel_requested r \<and> rv_id r \<in> set restart)
     \<or> (a = promotion jobs health r \<and> promotable jobs health r)"

lemma plan_rows_justified:
  "a \<in> set (pl_actions (plan_rows jobs health restart retention rows)) \<Longrightarrow>
     \<exists>r \<in> set rows. justified jobs health restart retention r a"
proof (induction rows rule: rev_induct)
  case (snoc r rows)
  then show ?case
    by (cases rule: plan_row_cases [of jobs health restart retention r
          "plan_rows jobs health restart retention rows"])
      (auto simp: justified_def split: if_splits)
qed (simp add: from_rows_def)

lemma plan_rows_torn_down:
  "set (torn (pl_actions (plan_rows jobs health restart retention rows))) \<subseteq> rv_id ` set rows"
proof (induction rows rule: rev_induct)
  case (snoc r rows)
  then show ?case
    by (cases rule: plan_row_cases [of jobs health restart retention r
          "plan_rows jobs health restart retention rows"]) auto
qed (simp add: from_rows_def)

lemma cancels_torn_down: "cancelled acts \<subseteq> set (torn acts)"
  by (auto simp: torn_def cancelled_def cancels_def torn_down_def split: action.splits)

lemma plan_rows_once:
  "distinct (map rv_id rows) \<Longrightarrow>
     distinct (torn (pl_actions (plan_rows jobs health restart retention rows)))"
proof (induction rows rule: rev_induct)
  case (snoc r rows)
  then show ?case
    using plan_rows_torn_down [of jobs health restart retention rows]
    by (cases rule: plan_row_cases [of jobs health restart retention r
          "plan_rows jobs health restart retention rows"]) auto
qed (simp add: from_rows_def)

lemma plan_rows_alive:
  "pl_alive (plan_rows jobs health restart retention rows) =
     int (length (pl_cancellable (plan_rows jobs health restart retention rows)))"
proof (induction rows rule: rev_induct)
  case (snoc r rows)
  then show ?case
    by (cases rule: plan_row_cases [of jobs health restart retention r
          "plan_rows jobs health restart retention rows"]) auto
qed (simp add: from_rows_def)

lemma kept_other:
  "rv_id r \<notin> rv_id ` set rows \<Longrightarrow> cancels a \<subseteq> {rv_id r} \<Longrightarrow> kept jobs (acts @ [a]) rows = kept jobs acts rows"
  by (force simp: kept_def intro!: filter_cong)

lemma kept_snoc:
  "kept jobs acts (rows @ [r]) =
     kept jobs acts rows @ (if live jobs r \<and> rv_id r \<notin> cancelled acts then [r] else [])"
  by (simp add: kept_def)

lemma plan_rows_kept:
  "distinct (map rv_id rows) \<Longrightarrow>
     pl_cancellable (plan_rows jobs health restart retention rows) =
       map (candidate_of jobs) (kept jobs (pl_actions (plan_rows jobs health restart retention rows)) rows)"
proof (induction rows rule: rev_induct)
  case (snoc r rows)
  let ?pl = "plan_rows jobs health restart retention rows"
  have new: "rv_id r \<notin> rv_id ` set rows"
    using snoc.prems by auto
  have fresh: "rv_id r \<notin> cancelled (pl_actions ?pl)"
    using new cancels_torn_down [of "pl_actions ?pl"] plan_rows_torn_down [of jobs health restart retention rows]
    by blast
  have IH: "pl_cancellable ?pl = map (candidate_of jobs) (kept jobs (pl_actions ?pl) rows)"
    using snoc by simp
  show ?case
    by (cases rule: plan_row_cases [of jobs health restart retention r ?pl])
      (auto simp: IH kept_snoc kept_other [OF new] fresh candidate_of_def live_def)
qed (simp add: from_rows_def kept_def)

definition is_probe_failed :: "action \<Rightarrow> bool" where
  "is_probe_failed a = (case a of Cancel _ _ _ ProbeFailed \<Rightarrow> True | _ \<Rightarrow> False)"

lemma is_probe_failed_simps [simp]:
  "is_probe_failed (restart_of r why) = (why = ProbeFailed)" "\<not> is_probe_failed (mark_lost jobs r)"
  "\<not> is_probe_failed (Delete i)" "\<not> is_probe_failed (promotion jobs health r)"
  by (simp_all add: is_probe_failed_def restart_of_def mark_lost_def promotion_def Let_def split: cancel_reason.splits)

lemma plan_rows_budget:
  "pl_restart_budget (plan_rows jobs health restart retention rows)
     + length (filter is_probe_failed (pl_actions (plan_rows jobs health restart retention rows))) = 1"
proof (induction rows rule: rev_induct)
  case (snoc r rows)
  then show ?case
    by (cases rule: plan_row_cases [of jobs health restart retention r
          "plan_rows jobs health restart retention rows"]) (auto simp del: length_0_conv)
qed (simp add: from_rows_def)

lemma plan_rows_lost:
  "length (filter is_mark_lost (pl_actions (plan_rows jobs health restart retention rows))) =
     length (filter (\<lambda>r. active r \<and> job_over jobs r) rows)"
proof (induction rows rule: rev_induct)
  case (snoc r rows)
  then show ?case
    by (cases rule: plan_row_cases [of jobs health restart retention r
          "plan_rows jobs health restart retention rows"]) (auto simp: live_def)
qed (simp add: from_rows_def)

lemma plan_rows_no_submit: "Submit \<notin> set (pl_actions (plan_rows jobs health restart retention rows))"
  using plan_rows_justified [of Submit jobs health restart retention rows]
  by (auto simp: justified_def restart_of_def mark_lost_def promotion_def Let_def)

section \<open>Cancelling the excess\<close>

definition surplus :: "planning \<Rightarrow> int \<Rightarrow> candidate list" where
  "surplus pl target = take (nat (pl_alive pl - target)) (sort_key cancel_order (pl_cancellable pl))"

lemma plan_cases:
  fixes spec rows jobs health restart retention
  defines "pl \<equiv> plan_rows jobs health restart retention rows"
    and "target \<equiv> max (mv_target_replicas spec) 0"
  obtains (submit) "plan spec rows jobs health restart retention =
        pl_actions pl @ replicate (nat (target - pl_alive pl)) Submit"
      "pl_alive pl < target"
      "\<not> (0 < mv_max_job_failures spec \<and> mv_max_job_failures spec \<le> lost_count rows (pl_actions pl))"
  | (limit) "plan spec rows jobs health restart retention = pl_actions pl" "pl_alive pl < target"
      "0 < mv_max_job_failures spec" "mv_max_job_failures spec \<le> lost_count rows (pl_actions pl)"
  | (excess) "plan spec rows jobs health restart retention =
        pl_actions pl @ map scale_down (surplus pl target)" "target \<le> pl_alive pl"
proof -
  note p = plan_def [of spec rows jobs health restart retention, unfolded Let_def, folded pl_def target_def]
  consider "target \<le> pl_alive pl" | "pl_alive pl < target"
    by linarith
  then show thesis
    by cases (use submit limit excess p in \<open>auto simp: surplus_def split: if_splits\<close>)
qed

lemma cancels_scale_down [simp]: "cancels (scale_down c) = {fst c}"
  by (cases c) (simp add: scale_down_def cancels_def)

lemma torn_down_scale_down [simp]: "torn_down (scale_down c) = [fst c]"
  by (cases c) (simp add: scale_down_def torn_down_def)

lemma cancelled_scale_down [simp]: "cancelled (map scale_down cs) = fst ` set cs"
  by (induction cs) auto

lemma torn_scale_downs [simp]: "torn (map scale_down cs) = map fst cs"
  by (induction cs) auto

lemma fst_candidate_of [simp]: "fst (candidate_of jobs r) = rv_id r"
  by (simp add: candidate_of_def)

lemma distinct_kept: "distinct (map rv_id rows) \<Longrightarrow> distinct (map rv_id (kept jobs acts rows))"
  by (simp add: kept_def distinct_map_filter)

lemma surplus_distinct:
  "distinct (map fst (pl_cancellable pl)) \<Longrightarrow> distinct (map fst (surplus pl target))"
proof -
  assume "distinct (map fst (pl_cancellable pl))"
  then have "distinct (map fst (sort_key cancel_order (pl_cancellable pl)))"
    by (auto simp: distinct_map)
  then show ?thesis
    by (simp add: surplus_def take_map [symmetric])
qed

lemma surplus_subset: "set (surplus pl target) \<subseteq> set (pl_cancellable pl)"
  by (metis set_sort set_take_subset surplus_def)

lemma length_surplus:
  "0 \<le> target \<Longrightarrow> pl_alive pl = int (length (pl_cancellable pl)) \<Longrightarrow>
     length (surplus pl target) = nat (pl_alive pl - target)"
  by (simp add: surplus_def)

lemma length_removed:
  "distinct xs \<Longrightarrow> distinct ys \<Longrightarrow> set ys \<subseteq> set xs \<Longrightarrow>
     length (filter (\<lambda>x. x \<notin> set ys) xs) + length ys = length xs"
proof -
  assume d: "distinct xs" "distinct ys" "set ys \<subseteq> set xs"
  have "length (filter (\<lambda>x. x \<in> set ys) xs) = card (set xs \<inter> set ys)"
    using d(1) by (metis distinct_card distinct_filter set_filter Int_def)
  also have "\<dots> = length ys"
    using d by (simp add: Int_absorb1 distinct_card)
  finally show ?thesis
    using sum_length_filter_compl [of "\<lambda>x. x \<in> set ys" xs] by simp
qed

lemma kept_after_surplus:
  assumes "distinct (map rv_id rows)" and "pl = plan_rows jobs health restart retention rows"
    and "0 \<le> target"
  shows "length (kept jobs (pl_actions pl @ map scale_down (surplus pl target)) rows)
           + nat (pl_alive pl - target) = length (kept jobs (pl_actions pl) rows)"
proof -
  let ?K = "kept jobs (pl_actions pl) rows" and ?S = "surplus pl target"
  have c: "pl_cancellable pl = map (candidate_of jobs) ?K"
    using assms plan_rows_kept by metis
  have "map fst (pl_cancellable pl) = map rv_id ?K"
    by (simp add: c)
  then have d: "distinct (map rv_id ?K)" "distinct (map fst ?S)" "set (map fst ?S) \<subseteq> set (map rv_id ?K)"
    using assms(1) distinct_kept surplus_distinct [of pl target] surplus_subset [of pl target]
    by (metis, metis distinct_kept, metis image_mono set_map)
  have "kept jobs (pl_actions pl @ map scale_down ?S) rows = filter (\<lambda>r. rv_id r \<notin> set (map fst ?S)) ?K"
    by (auto simp: kept_def intro!: filter_cong)
  then have "length (kept jobs (pl_actions pl @ map scale_down ?S) rows) + length ?S = length ?K"
    using length_removed [OF d] by (simp add: filter_map comp_def)
  then show ?thesis
    using length_surplus [of target pl] assms by (simp add: plan_rows_alive)
qed

definition failure_limit_reached :: "managed_spec_view \<Rightarrow> jobs \<Rightarrow> replica_view list \<Rightarrow> bool" where
  "failure_limit_reached spec jobs rows \<longleftrightarrow> 0 < mv_max_job_failures spec
     \<and> mv_max_job_failures spec \<le>
         int (length (filter (\<lambda>r. rv_state r = ''lost'' \<or> (active r \<and> job_over jobs r)) rows))"

lemma lost_count_rows:
  "lost_count rows (pl_actions (plan_rows jobs health restart retention rows)) =
     int (length (filter (\<lambda>r. rv_state r = ''lost'' \<or> (active r \<and> job_over jobs r)) rows))"
  unfolding lost_count_def plan_rows_lost
  by (induction rows) (auto simp: active_def)

lemma count_Submit_rows [simp]:
  "count_list (pl_actions (plan_rows jobs health restart retention rows)) Submit = 0"
  using plan_rows_no_submit by (simp add: count_list_0_iff)

lemma count_Submit_scale_down [simp]: "count_list (map scale_down cs) Submit = 0"
  by (auto simp: count_list_0_iff scale_down_def split: prod.splits)

lemma count_list_replicate [simp]: "count_list (replicate n x) x = n"
  by (induction n) auto

lemma kept_submits [simp]: "kept jobs (acts @ replicate n Submit) rows = kept jobs acts rows"
proof -
  have "cancelled (replicate n Submit) = {}"
    by (induction n) auto
  then show ?thesis
    by (simp add: kept_def)
qed

lemma fill_up: "0 \<le> k \<Longrightarrow> k < max t 0 \<Longrightarrow> nat k + nat (max t 0 - k) = nat (t :: int)"
  by arith

lemma cut_down:
  "m + nat (k - max t 0) = n \<Longrightarrow> n = nat k \<Longrightarrow> max t 0 \<le> k \<Longrightarrow> m = nat (t :: int)"
  by arith

text \<open>
  C9: the plan brings a model to its target. The replicas that keep a queued or running job, plus
  the jobs the plan submits, are exactly the target number of replicas; the only exception is a model
  that has lost as many jobs as its failure limit allows, for which nothing is submitted.
\<close>

theorem plan_reaches_target:
  assumes "distinct (map rv_id rows)"
  shows "let acts = plan spec rows jobs health restart retention;
             running = length (kept jobs acts rows); submits = count_list acts Submit
         in running + submits = nat (mv_target_replicas spec)
            \<or> (failure_limit_reached spec jobs rows \<and> submits = 0 \<and> running < nat (mv_target_replicas spec))"
proof (cases rule: plan_cases [of spec rows jobs health restart retention])
  have a: "length (kept jobs (pl_actions (plan_rows jobs health restart retention rows)) rows) =
      nat (pl_alive (plan_rows jobs health restart retention rows))"
    using plan_rows_kept [OF assms] plan_rows_alive by simp
  {
    case submit
    then show ?thesis
      using fill_up [OF _ submit(2)] by (simp add: Let_def a plan_rows_alive [symmetric]) (simp add: plan_rows_alive)
  next
    case limit
    then show ?thesis
      by (auto simp: Let_def a plan_rows_alive failure_limit_reached_def lost_count_rows)
  next
    case excess
    then show ?thesis
      using cut_down [OF kept_after_surplus [OF assms refl, of "max (mv_target_replicas spec) 0"] a excess(2)]
      by (simp add: Let_def)
  }
qed

lemma plan_reaches_zero:
  assumes "distinct (map rv_id rows)"
  shows "kept jobs (plan \<lparr>mv_target_replicas = 0, mv_max_job_failures = n\<rparr> rows jobs health restart retention) rows = []"
proof (cases rule: plan_cases [of "\<lparr>mv_target_replicas = 0, mv_max_job_failures = n\<rparr>" rows jobs health restart retention])
  case excess
  then show ?thesis
    using kept_after_surplus [OF assms refl, of 0 jobs health restart retention]
      plan_rows_kept [OF assms, of jobs health restart retention]
    by (simp add: plan_rows_alive)
qed (simp_all add: plan_rows_alive)

lemma restart_of_scale_down: "restart_of r ScaleDown = scale_down (candidate_of jobs r)"
  by (simp add: restart_of_def scale_down_def candidate_of_def)

lemma scale_down_inj: "restart_of r ScaleDown = scale_down c \<Longrightarrow> rv_id r = fst c"
  by (cases c) (simp add: restart_of_def scale_down_def)

lemma restart_of_eqs [simp]:
  "(restart_of r why = restart_of r' why') \<longleftrightarrow>
     rv_id r = rv_id r' \<and> rv_slurm_job_id r = rv_slurm_job_id r' \<and> rv_endpoint_id r = rv_endpoint_id r' \<and> why = why'"
  "restart_of r why \<noteq> mark_lost jobs r'" "restart_of r why \<noteq> Delete i" "restart_of r why \<noteq> Submit"
  "restart_of r why \<noteq> promotion jobs health r'"
  by (simp_all add: restart_of_def mark_lost_def promotion_def Let_def)

lemma plan_rows_no_scale_down:
  "restart_of r ScaleDown \<notin> set (pl_actions (plan_rows jobs health restart retention rows))"
  using plan_rows_justified [of "restart_of r ScaleDown" jobs health restart retention rows]
  by (auto simp: justified_def)

lemma plan_scale_downs:
  assumes "restart_of r ScaleDown \<in> set (plan spec rows jobs health restart retention)"
  defines "pl \<equiv> plan_rows jobs health restart retention rows"
    and "target \<equiv> max (mv_target_replicas spec) 0"
  shows "plan spec rows jobs health restart retention = pl_actions pl @ map scale_down (surplus pl target)
           \<and> rv_id r \<in> fst ` set (surplus pl target)"
proof (cases rule: plan_cases [of spec rows jobs health restart retention])
  case excess
  then have "restart_of r ScaleDown \<in> scale_down ` set (surplus pl target)"
    using assms(1) plan_rows_no_scale_down by (auto simp: pl_def target_def)
  then show ?thesis
    using excess(1) scale_down_inj unfolding pl_def target_def by blast
qed (use assms plan_rows_no_scale_down in \<open>auto split: if_splits\<close>)

lemma sort_key_take_le:
  "x \<in> set (take n (sort_key f xs)) \<Longrightarrow> y \<in> set xs \<Longrightarrow> y \<notin> set (take n (sort_key f xs)) \<Longrightarrow> f x \<le> f y"
proof -
  assume x: "x \<in> set (take n (sort_key f xs))" and y: "y \<in> set xs" "y \<notin> set (take n (sort_key f xs))"
  have "y \<in> set (drop n (sort_key f xs))"
    using y by (metis Un_iff append_take_drop_id set_append set_sort)
  moreover have "sorted (map f (take n (sort_key f xs)) @ map f (drop n (sort_key f xs)))"
    by (metis append_take_drop_id map_append sorted_sort_key)
  ultimately show ?thesis
    using x by (auto simp: sorted_append)
qed

lemma candidate_in_surplus:
  assumes "distinct (map rv_id rows)" and "pl = plan_rows jobs health restart retention rows"
    and "r \<in> set rows" and "rv_id r \<in> fst ` set (surplus pl target)"
  shows "candidate_of jobs r \<in> set (surplus pl target)"
proof -
  have "pl_cancellable pl = map (candidate_of jobs) (kept jobs (pl_actions pl) rows)"
    using assms plan_rows_kept by metis
  then have "set (surplus pl target) \<subseteq> candidate_of jobs ` set rows"
    using surplus_subset [of pl target] by (auto simp: kept_def)
  then obtain r' where r': "r' \<in> set rows" "candidate_of jobs r' \<in> set (surplus pl target)" "rv_id r' = rv_id r"
    using assms(4) by (smt (verit) fst_candidate_of imageE subsetD)
  then have "r' = r"
    using assms(1,3) by (metis distinct_map inj_on_eq_iff)
  with r' show ?thesis
    by simp
qed

text \<open>
  C36: the order in which excess replicas go. A replica the plan scales down had a job still
  queued while the ones it keeps run, or was not yet promoted while they are healthy, or is at least
  as old as they are within the same of these three ranks.
\<close>

theorem scale_down_order:
  assumes "distinct (map rv_id rows)" and "r \<in> set rows"
    and "restart_of r ScaleDown \<in> set (plan spec rows jobs health restart retention)"
    and "s \<in> set (kept jobs (plan spec rows jobs health restart retention) rows)"
  shows "rank_of jobs r < rank_of jobs s \<or> (rank_of jobs r = rank_of jobs s \<and> rv_age_secs s \<le> rv_age_secs r)"
proof -
  define pl where "pl = plan_rows jobs health restart retention rows"
  define target where "target = max (mv_target_replicas spec) 0"
  note sd = plan_scale_downs [OF assms(3), folded pl_def target_def]
  have r: "candidate_of jobs r \<in> set (surplus pl target)"
    using candidate_in_surplus [OF assms(1) pl_def assms(2)] sd by blast
  have s: "s \<in> set (kept jobs (pl_actions pl) rows)" "rv_id s \<notin> fst ` set (surplus pl target)"
    using assms(4) sd by (auto simp: kept_def)
  then have "candidate_of jobs s \<in> set (pl_cancellable pl)" "candidate_of jobs s \<notin> set (surplus pl target)"
    using plan_rows_kept [OF assms(1), of jobs health restart retention] by (force simp: pl_def)+
  then have "cancel_order (candidate_of jobs r) \<le> cancel_order (candidate_of jobs s)"
    using r sort_key_take_le unfolding surplus_def by metis
  then show ?thesis
    by (auto simp: cancel_order_def candidate_of_def less_eq_prod_def)
qed

lemma length_kept: "length (kept jobs acts rows) \<le> length (filter (live jobs) rows)"
  unfolding kept_def filter_filter [symmetric] by (rule length_filter_le)

lemma surplus_live:
  assumes "c \<in> set (surplus (plan_rows jobs health restart retention rows) (max t 0))"
    and "distinct (map rv_id rows)"
  shows "\<exists>r \<in> set rows. c = candidate_of jobs r \<and> live jobs r \<and> nat t < length (filter (live jobs) rows)"
proof -
  let ?pl = "plan_rows jobs health restart retention rows"
  let ?K = "kept jobs (pl_actions ?pl) rows"
  obtain r where r: "r \<in> set ?K" "c = candidate_of jobs r"
    using assms(1) surplus_subset [of ?pl "max t 0"] plan_rows_kept [OF assms(2), of jobs health restart retention]
    by auto
  have "0 < nat (pl_alive ?pl - max t 0)"
  proof (rule gr0I)
    assume "nat (pl_alive ?pl - max t 0) = 0"
    then have "surplus ?pl (max t 0) = []"
      by (simp only: surplus_def take_0)
    with assms(1) show False
      by simp
  qed
  moreover have "pl_alive ?pl = int (length ?K)"
    using plan_rows_kept [OF assms(2), of jobs health restart retention]
    by (simp add: plan_rows_alive [of jobs health restart retention rows])
  ultimately have "nat t < length ?K"
    by linarith
  also have "\<dots> \<le> length (filter (live jobs) rows)"
    by (rule length_kept)
  finally show ?thesis
    using r by (auto simp: kept_def)
qed

text \<open>
  C18: nothing is torn down without cause. A row is deleted only when it is past retention or its
  drained job is over, marked lost only when its job is gone, cancelled only while its job lives -- on
  the operator's word, on the probes' word, or because more replicas live than the target asks for --
  and promoted only when its job runs and its probe passed.
\<close>

theorem plan_actions_justified:
  assumes "distinct (map rv_id rows)" and "a \<in> set (plan spec rows jobs health restart retention)"
  shows "a = Submit
         \<or> (\<exists>r \<in> set rows. justified jobs health restart retention r a)
         \<or> (\<exists>r \<in> set rows. a = restart_of r ScaleDown \<and> live jobs r
              \<and> nat (mv_target_replicas spec) < length (filter (live jobs) rows))"
proof (cases "a \<in> set (pl_actions (plan_rows jobs health restart retention rows))")
  case True
  then show ?thesis
    using plan_rows_justified by blast
next
  case False
  then have "a = Submit \<or>
      a \<in> scale_down ` set (surplus (plan_rows jobs health restart retention rows) (max (mv_target_replicas spec) 0))"
    using assms(2) by (cases rule: plan_cases [of spec rows jobs health restart retention]) (auto split: if_splits)
  then show ?thesis
  proof
    assume "a \<in> scale_down ` set (surplus (plan_rows jobs health restart retention rows) (max (mv_target_replicas spec) 0))"
    then obtain c where c: "c \<in> set (surplus (plan_rows jobs health restart retention rows) (max (mv_target_replicas spec) 0))"
      "a = scale_down c" by blast
    show ?thesis
      using surplus_live [OF c(1) assms(1)] c(2) restart_of_scale_down [of _ jobs] by metis
  qed simp
qed

lemma not_probe_failed [simp]: "filter is_probe_failed (replicate n Submit) = []"
  "filter is_probe_failed (map scale_down cs) = []"
  by (auto simp: is_probe_failed_def scale_down_def filter_empty_conv split: prod.splits)

lemma torn_down_justified:
  "justified jobs health restart retention r a \<Longrightarrow> i \<in> set (torn_down a) \<Longrightarrow>
     rv_id r = i \<and> (live jobs r \<longrightarrow> i \<in> cancels a)"
  by (auto simp: justified_def live_def deletable_def active_def)

lemma live_torn_down:
  assumes "distinct (map rv_id rows)" and "r \<in> set rows" and "live jobs r"
    and "rv_id r \<in> set (torn (pl_actions (plan_rows jobs health restart retention rows)))"
  shows "rv_id r \<in> cancelled (pl_actions (plan_rows jobs health restart retention rows))"
proof -
  obtain a where a: "a \<in> set (pl_actions (plan_rows jobs health restart retention rows))" "rv_id r \<in> set (torn_down a)"
    using assms(4) torn_member by blast
  then obtain r' where r': "r' \<in> set rows" "justified jobs health restart retention r' a"
    using plan_rows_justified by blast
  then have "r' = r"
    using torn_down_justified [OF r'(2) a(2)] row_unique [OF assms(1,2)] by blast
  then show ?thesis
    using a(1) torn_down_justified [OF r'(2) a(2)] assms(3) by (auto simp: cancelled_def)
qed

lemma disjoint_from_image: "A \<subseteq> f ` B \<Longrightarrow> (\<And>r. r \<in> B \<Longrightarrow> f r \<notin> T) \<Longrightarrow> A \<inter> T = {}"
  by blast

lemma surplus_not_torn_down:
  assumes "distinct (map rv_id rows)"
  shows "fst ` set (surplus (plan_rows jobs health restart retention rows) target)
           \<inter> set (torn (pl_actions (plan_rows jobs health restart retention rows))) = {}"
proof -
  let ?pl = "plan_rows jobs health restart retention rows"
  have "set (surplus ?pl target) \<subseteq> candidate_of jobs ` set (kept jobs (pl_actions ?pl) rows)"
    using surplus_subset [of ?pl target] plan_rows_kept [OF assms, of jobs health restart retention] by simp
  then have "fst ` set (surplus ?pl target) \<subseteq> fst ` candidate_of jobs ` set (kept jobs (pl_actions ?pl) rows)"
    by (rule image_mono)
  then have "fst ` set (surplus ?pl target) \<subseteq> rv_id ` set (kept jobs (pl_actions ?pl) rows)"
    by (simp add: image_image)
  moreover have "rv_id r \<notin> set (torn (pl_actions ?pl))"
    if "r \<in> set (kept jobs (pl_actions ?pl) rows)" for r
    using that live_torn_down [OF assms, of r jobs health restart retention] by (auto simp: kept_def)
  ultimately show ?thesis
    by (rule disjoint_from_image)
qed

text \<open>
  C25: no row is torn down twice by one plan, and at most one replica is restarted on the probes'
  word, however many fail them.
\<close>

theorem plan_tears_down_once:
  assumes "distinct (map rv_id rows)"
  shows "distinct (torn (plan spec rows jobs health restart retention))
         \<and> length (filter is_probe_failed (plan spec rows jobs health restart retention)) \<le> 1"
proof (cases rule: plan_cases [of spec rows jobs health restart retention])
  let ?pl = "plan_rows jobs health restart retention rows"
  have once: "distinct (torn (pl_actions ?pl))"
    using assms by (rule plan_rows_once)
  have budget: "length (filter is_probe_failed (pl_actions ?pl)) \<le> 1"
    using plan_rows_budget [of jobs health restart retention rows] by linarith
  {
    case excess
    have "distinct (map fst (pl_cancellable ?pl))"
      using plan_rows_kept [OF assms] distinct_kept [OF assms] by (simp add: comp_def)
    then show ?thesis
      using excess(1) once budget surplus_not_torn_down [OF assms] surplus_distinct [of ?pl]
      by (simp add: Int_commute)
  next
    case submit
    then show ?thesis
      using once budget by simp
  next
    case limit
    then show ?thesis
      using once budget by simp
  }
qed

section \<open>Port windows\<close>

lemma window_from_grid:
  "\<exists>i \<ge> 0. window_from span taken base = base + i * max span 1
     \<and> (\<forall>j. 0 \<le> j \<and> j < i \<longrightarrow> base + j * max span 1 \<in> set taken)"
proof (induction span taken base rule: window_from.induct)
  case (1 span taken base)
  show ?case
  proof (cases "base \<in> set taken")
    case True
    then obtain i where i: "i \<ge> 0" "window_from span taken base = base + max span 1 + i * max span 1"
      "\<forall>j. 0 \<le> j \<and> j < i \<longrightarrow> base + max span 1 + j * max span 1 \<in> set taken"
      using "1.IH" by (auto simp: window_from.simps [of span taken base])
    have "base + j * max span 1 \<in> set taken" if "0 \<le> j" "j < i + 1" for j
      using i(3) [rule_format, of "j - 1"] that True by (cases "j = 0") (auto simp: algebra_simps)
    then show ?thesis
      using i by (intro exI [of _ "i + 1"]) (auto simp: algebra_simps)
  next
    case False
    then show ?thesis
      by (intro exI [of _ 0]) (auto simp: window_from.simps [of span taken base])
  qed
qed

lemma window_from_free: "window_from span taken base \<notin> set taken"
  by (induction span taken base rule: window_from.induct) (subst window_from.simps, simp)

lemma grid_disjoint:
  fixes d :: int
  assumes "0 < d" and "i \<noteq> k"
  shows "{b + i * d ..< b + i * d + d} \<inter> {b + k * d ..< b + k * d + d} = {}"
proof -
  have "i * d + d \<le> k * d \<or> k * d + d \<le> i * d"
    using assms by (metis distrib_right less_le_not_le linorder_neqE mult.left_neutral mult_right_mono order_less_imp_le zless_imp_add1_zle)
  then show ?thesis
    by auto
qed

text \<open>
  C35: the port window given to a new replica. The search always ends; the base it finds is not
  taken, is the first free one on the grid of windows from the serving port, and its window meets no
  window of that grid that is taken. A taken window off the grid, which a replica keeps when the serving
  port or the span has changed since, is not looked at, as \<open>off_grid_windows_overlap\<close> shows.
\<close>

theorem window_base_first_free:
  "next_free_window_base port span taken \<notin> set taken
   \<and> (\<exists>i \<ge> 0. next_free_window_base port span taken = port + i * max span 1
              \<and> (\<forall>j. 0 \<le> j \<and> j < i \<longrightarrow> port + j * max span 1 \<in> set taken))
   \<and> (\<forall>k. port + k * max span 1 \<in> set taken \<longrightarrow>
              {next_free_window_base port span taken ..< next_free_window_base port span taken + max span 1}
                \<inter> {port + k * max span 1 ..< port + k * max span 1 + max span 1} = {})"
proof (intro conjI allI impI)
  let ?b = "next_free_window_base port span taken"
  show free: "?b \<notin> set taken"
    by (simp add: next_free_window_base_def window_from_free)
  show grid: "\<exists>i \<ge> 0. ?b = port + i * max span 1 \<and> (\<forall>j. 0 \<le> j \<and> j < i \<longrightarrow> port + j * max span 1 \<in> set taken)"
    unfolding next_free_window_base_def by (rule window_from_grid)
  fix k
  assume k: "port + k * max span 1 \<in> set taken"
  obtain i where i: "?b = port + i * max span 1"
    using grid by blast
  with free k have "i \<noteq> k"
    by auto
  then show "{?b ..< ?b + max span 1} \<inter> {port + k * max span 1 ..< port + k * max span 1 + max span 1} = {}"
    unfolding i by (rule grid_disjoint [rotated]) simp
qed

text \<open>A window off the grid can overlap the one found, whose base alone is compared with those taken.\<close>

lemma off_grid_windows_overlap:
  "\<exists>port span taken. \<exists>t \<in> set taken.
     {next_free_window_base port span taken ..< next_free_window_base port span taken + span} \<inter> {t ..< t + span} \<noteq> {}"
proof (intro exI bexI)
  have "next_free_window_base 8000 8 [8004] = 8000" by code_simp
  then have "(8004 :: int) \<in> {next_free_window_base 8000 8 [8004] ..< next_free_window_base 8000 8 [8004] + 8} \<inter> {8004 ..< 8004 + 8}"
    by simp
  then show "{next_free_window_base 8000 8 [8004] ..< next_free_window_base 8000 8 [8004] + 8} \<inter> {8004 ..< 8004 + 8} \<noteq> {}" by blast
qed simp

section \<open>Probe counters\<close>

text \<open>How far misses outnumber passes in a list of probe outcomes (\<open>True\<close> for a pass).\<close>

definition net_misses :: "bool list \<Rightarrow> int" where
  "net_misses os = sum_list (map (\<lambda>ok. if ok then - 1 else 1) os)"

definition worst_streak :: "bool list \<Rightarrow> int" where
  "worst_streak os = Max ((\<lambda>k. net_misses (drop k os)) ` {.. length os})"

lemma worst_streak_Nil [simp]: "worst_streak [] = 0"
  by (simp add: worst_streak_def net_misses_def)

lemma worst_streak_ge: "k \<le> length os \<Longrightarrow> net_misses (drop k os) \<le> worst_streak os"
  by (simp add: worst_streak_def)

lemma worst_streak_nonneg: "0 \<le> worst_streak os"
  using worst_streak_ge [of "length os" os] by (simp add: net_misses_def)

lemma worst_streak_snoc:
  "worst_streak (os @ [ok]) = max 0 (worst_streak os + (if ok then - 1 else 1))"
proof -
  let ?d = "if ok then - 1 else (1 :: int)"
  have "(\<lambda>k. net_misses (drop k (os @ [ok]))) ` {.. length os}
      = (\<lambda>x. x + ?d) ` (\<lambda>k. net_misses (drop k os)) ` {.. length os}"
    by (auto simp: image_image net_misses_def intro!: image_cong)
  then have "(\<lambda>k. net_misses (drop k (os @ [ok]))) ` {.. length (os @ [ok])}
      = insert 0 ((\<lambda>x. x + ?d) ` (\<lambda>k. net_misses (drop k os)) ` {.. length os})"
    by (simp add: atMost_Suc net_misses_def)
  moreover have "Max ((\<lambda>x. x + ?d) ` (\<lambda>k. net_misses (drop k os)) ` {.. length os}) = worst_streak os + ?d"
    unfolding worst_streak_def by (rule mono_Max_commute [symmetric]) (auto intro: monoI)
  ultimately show ?thesis
    by (simp add: worst_streak_def)
qed

lemma count_probe_value:
  "get_or 0 (count_probe jobs health r counts) i =
     (if rv_id r = i \<and> judged jobs r
      then (if contains_key health i then (if 1 < get_or 0 counts i then get_or 0 counts i - 1 else 0)
            else get_or 0 counts i + 1)
      else get_or 0 counts i)"
  by (auto simp: count_probe_def get_or_def split: option.splits)

lemma update_probe_failures_value:
  assumes "distinct (map rv_id rows)" and "r \<in> set rows" and "rv_id r = i" and "judged jobs r"
  shows "get_or 0 (update_probe_failures rows jobs health counts) i =
     (if contains_key health i then (if 1 < get_or 0 counts i then get_or 0 counts i - 1 else 0)
      else get_or 0 counts i + 1)"
proof -
  have others: "get_or 0 (fold (count_probe jobs health) rs counts) i = get_or 0 counts i"
    if "i \<notin> rv_id ` set rs" for rs counts
    using that by (induction rs arbitrary: counts) (auto simp: count_probe_value)
  obtain pre post where rows: "rows = pre @ r # post"
    using assms(2) by (meson split_list)
  then have "i \<notin> rv_id ` set pre" "i \<notin> rv_id ` set post"
    using assms(1,3) by auto
  then show ?thesis
    using assms(3,4) by (simp add: update_probe_failures_def rows others count_probe_value)
qed

lemma retain_streaks_value:
  "r \<in> set rows \<Longrightarrow> rv_id r = i \<Longrightarrow> rv_state r = ''healthy'' \<Longrightarrow>
     get_or 0 (retain_streaks rows counts) i = get_or 0 counts i"
proof -
  assume r: "r \<in> set rows" "rv_id r = i" "rv_state r = ''healthy''"
  then have "map_of (retain_streaks rows counts) i = map_of counts i"
    by (induction counts) (auto simp: retain_streaks_def list_ex_iff)
  then show ?thesis
    by (simp add: get_or_def)
qed

text \<open>The counters over several ticks, from an empty map.\<close>

type_synonym probe_tick = "replica_view list \<times> jobs \<times> health"

definition probe_step :: "probe_tick \<Rightarrow> (uuid, int) hmap \<Rightarrow> (uuid, int) hmap" where
  "probe_step t counts =
     (case t of (rows, jobs, health) \<Rightarrow> update_probe_failures rows jobs health (retain_streaks rows counts))"

definition judged_in :: "uuid \<Rightarrow> probe_tick \<Rightarrow> bool" where
  "judged_in i t \<longleftrightarrow>
     (case t of (rows, jobs, _) \<Rightarrow> distinct (map rv_id rows) \<and> (\<exists>r \<in> set rows. rv_id r = i \<and> judged jobs r))"

definition outcome :: "uuid \<Rightarrow> probe_tick \<Rightarrow> bool" where
  "outcome i t = (case t of (_, _, health) \<Rightarrow> contains_key health i)"

lemma probe_step_value:
  "judged_in i t \<Longrightarrow> 0 \<le> get_or 0 counts i \<Longrightarrow>
     get_or 0 (probe_step t counts) i = max 0 (get_or 0 counts i + (if outcome i t then - 1 else 1))"
  by (auto simp: probe_step_def judged_in_def outcome_def update_probe_failures_value
      retain_streaks_value judged_def split: prod.splits)

lemma counter_is_worst_streak:
  "\<forall>t \<in> set ticks. judged_in i t \<Longrightarrow>
     get_or 0 (fold probe_step ticks []) i = worst_streak (map (outcome i) ticks)"
proof (induction ticks rule: rev_induct)
  case (snoc t ticks)
  then show ?case
    using worst_streak_nonneg [of "map (outcome i) ticks"]
    by (simp add: probe_step_value worst_streak_snoc)
qed simp

lemma worst_streak_ge_iff: "c \<le> worst_streak os \<longleftrightarrow> (\<exists>k \<le> length os. c \<le> net_misses (drop k os))"
  by (auto simp: worst_streak_def Max_ge_iff)

lemma restart_candidates_iff:
  "distinct (map rv_id rows) \<Longrightarrow> r \<in> set rows \<Longrightarrow> rv_state r = ''healthy'' \<Longrightarrow> 0 < threshold \<Longrightarrow>
     (\<And>e. e \<in> set endpoints \<Longrightarrow> rv_endpoint_id r = Some (ev_id e) \<Longrightarrow> \<not> endpoint_unhealthy e) \<Longrightarrow>
     rv_id r \<in> set (restart_candidates rows counts threshold endpoints) \<longleftrightarrow> threshold \<le> get_or 0 counts (rv_id r)"
  by (auto simp: restart_candidates_def split: option.splits dest: row_unique)

text \<open>
  C26: self-heal acts on sustained failure only. For a healthy replica that every tick has probed
  and whose endpoint the gateway does not report as unhealthy, the counter kept across ticks makes it
  a restart candidate exactly when, over some run of the latest ticks, its misses outnumber its passes
  by the threshold; a replica that flaps between the two is never restarted.
\<close>

theorem self_heal_needs_sustained_failure:
  assumes "\<forall>t \<in> set ticks. judged_in (rv_id r) t"
    and "distinct (map rv_id rows)" and "r \<in> set rows" and "rv_state r = ''healthy''" and "0 < threshold"
    and "\<forall>e \<in> set endpoints. rv_endpoint_id r = Some (ev_id e) \<longrightarrow> \<not> endpoint_unhealthy e"
  shows "rv_id r \<in> set (restart_candidates rows (fold probe_step ticks []) threshold endpoints)
           \<longleftrightarrow> (\<exists>k \<le> length ticks. threshold \<le> net_misses (drop k (map (outcome (rv_id r)) ticks)))"
proof -
  let ?os = "map (outcome (rv_id r)) ticks"
  have "rv_id r \<in> set (restart_candidates rows (fold probe_step ticks []) threshold endpoints)
          \<longleftrightarrow> threshold \<le> worst_streak ?os"
    using restart_candidates_iff [OF assms(2-5), of endpoints "fold probe_step ticks []"] assms(6)
    unfolding counter_is_worst_streak [OF assms(1)] by blast
  also have "\<dots> \<longleftrightarrow> (\<exists>k \<le> length ?os. threshold \<le> net_misses (drop k ?os))"
    by (rule worst_streak_ge_iff)
  finally show ?thesis
    by simp
qed

section \<open>Concrete plans\<close>

text \<open>Four replicas: one drained, one whose job is gone, one running and healthy, one still queued.\<close>

definition demo_row :: "uuid \<Rightarrow> string \<Rightarrow> string \<Rightarrow> int \<Rightarrow> replica_view" where
  "demo_row i job st age =
     \<lparr>rv_id = i, rv_model_id = ''m'', rv_slurm_job_id = job, rv_state = st, rv_endpoint_id = Some (''e'' @ i),
      rv_age_secs = age, rv_port_base = 8000, rv_last_message = None, rv_cancel_requested = False\<rparr>"

definition demo_job :: "string \<Rightarrow> job_state \<Rightarrow> job_info" where
  "demo_job i st = \<lparr>ji_job_id = i, ji_state = st, ji_nodes = [''n1''], ji_raw_state = ''R'', ji_reason = None\<rparr>"

definition demo_rows :: "replica_view list" where
  "demo_rows = [demo_row ''a'' ''1'' ''draining'' 9, demo_row ''b'' ''2'' ''healthy'' 8,
                demo_row ''c'' ''3'' ''healthy'' 7, demo_row ''d'' ''4'' ''pending'' 6]"

definition demo_jobs :: jobs where
  "demo_jobs = [(''3'', demo_job ''3'' Running), (''4'', demo_job ''4'' Pending)]"

definition demo_spec :: "int \<Rightarrow> managed_spec_view" where
  "demo_spec n = \<lparr>mv_target_replicas = n, mv_max_job_failures = 0\<rparr>"

lemmas demo_defs = demo_rows_def demo_row_def demo_jobs_def demo_job_def demo_spec_def

lemma plan_demo:
  "plan (demo_spec 4) demo_rows demo_jobs [] [] 60 =
     [Delete ''a'', MarkLost ''b'' (Some ''eb'') None None, Submit, Submit]"
  "plan (demo_spec 1) demo_rows demo_jobs [] [] 60 =
     [Delete ''a'', MarkLost ''b'' (Some ''eb'') None None, Cancel ''d'' ''4'' (Some ''ed'') ScaleDown]"
  by code_simp+

lemma kept_demo:
  "kept demo_jobs (plan (demo_spec 4) demo_rows demo_jobs [] [] 60) demo_rows = [demo_rows ! 2, demo_rows ! 3]"
  "kept demo_jobs (plan (demo_spec 1) demo_rows demo_jobs [] [] 60) demo_rows = [demo_rows ! 2]"
  unfolding plan_demo
  by (simp_all add: demo_defs kept_def live_def active_def job_over_def job_state_of_def cancels_def)

lemma demo_rows_distinct: "distinct (map rv_id demo_rows)"
  by code_simp

theorem plan_reaches_target_witness:
  "distinct (map rv_id demo_rows)
   \<and> length (kept demo_jobs (plan (demo_spec 4) demo_rows demo_jobs [] [] 60) demo_rows) = 2
   \<and> count_list (plan (demo_spec 4) demo_rows demo_jobs [] [] 60) Submit = 2"
  using plan_reaches_target [OF demo_rows_distinct, of "demo_spec 4" demo_jobs "[]" "[]" 60] demo_rows_distinct
  by (simp add: kept_demo failure_limit_reached_def) (simp add: demo_spec_def)

theorem scale_down_order_witness:
  "restart_of (demo_rows ! 3) ScaleDown \<in> set (plan (demo_spec 1) demo_rows demo_jobs [] [] 60)
   \<and> demo_rows ! 2 \<in> set (kept demo_jobs (plan (demo_spec 1) demo_rows demo_jobs [] [] 60) demo_rows)
   \<and> (rank_of demo_jobs (demo_rows ! 3) < rank_of demo_jobs (demo_rows ! 2)
      \<or> rank_of demo_jobs (demo_rows ! 3) = rank_of demo_jobs (demo_rows ! 2)
        \<and> rv_age_secs (demo_rows ! 2) \<le> rv_age_secs (demo_rows ! 3))"
proof -
  have "demo_rows ! 3 \<in> set demo_rows"
    by (simp add: demo_rows_def)
  moreover have "restart_of (demo_rows ! 3) ScaleDown \<in> set (plan (demo_spec 1) demo_rows demo_jobs [] [] 60)"
    unfolding plan_demo by (simp add: demo_rows_def demo_row_def restart_of_def)
  moreover have "demo_rows ! 2 \<in> set (kept demo_jobs (plan (demo_spec 1) demo_rows demo_jobs [] [] 60) demo_rows)"
    by (simp add: kept_demo)
  ultimately show ?thesis
    using scale_down_order [OF demo_rows_distinct] by blast
qed

theorem plan_actions_justified_witness:
  "Delete ''a'' \<in> set (plan (demo_spec 4) demo_rows demo_jobs [] [] 60)
   \<and> (\<exists>r \<in> set demo_rows. justified demo_jobs [] [] 60 r (Delete ''a''))"
proof -
  have "Delete ''a'' \<in> set (plan (demo_spec 4) demo_rows demo_jobs [] [] 60)"
    unfolding plan_demo by simp
  then show ?thesis
    using plan_actions_justified [OF demo_rows_distinct, of "Delete ''a''" "demo_spec 4" demo_jobs "[]" "[]" 60]
    by (auto simp: restart_of_def)
qed

theorem plan_tears_down_once_witness:
  "distinct (map rv_id demo_rows) \<and> distinct (torn (plan (demo_spec 1) demo_rows demo_jobs [] [] 60))
   \<and> length (filter is_probe_failed (plan (demo_spec 1) demo_rows demo_jobs [] [] 60)) \<le> 1"
  using plan_tears_down_once [OF demo_rows_distinct, of "demo_spec 1" demo_jobs "[]" "[]" 60] demo_rows_distinct
  by blast

theorem window_base_first_free_witness:
  "next_free_window_base 8000 8 [8000, 8016] = 8008
   \<and> {8008 ..< 8016} \<inter> {8016 ..< 8024 :: int} = {}"
proof -
  have b: "next_free_window_base 8000 8 [8000, 8016] = 8008"
    by code_simp
  have "(8000 :: int) + 2 * max 8 1 \<in> set [8000, 8016]"
    by simp
  then have "{next_free_window_base 8000 8 [8000, 8016] ..< next_free_window_base 8000 8 [8000, 8016] + max 8 1}
      \<inter> {8000 + 2 * max 8 1 ..< 8000 + 2 * max 8 1 + max 8 1 :: int} = {}"
    using window_base_first_free [of 8000 8 "[8000, 8016]"] by blast
  then show ?thesis
    by (simp add: b)
qed

text \<open>
  A replica over target that has just become healthy is promoted and scaled down by the same plan, and
  the cancel names no endpoint: the one the promotion registers is not deregistered.
\<close>

lemma promoted_and_scaled_down:
  "plan (demo_spec 0) [(demo_row ''a'' ''3'' ''starting'' 9)\<lparr>rv_endpoint_id := None\<rparr>] demo_jobs [(''a'', 80)] [] 60 =
     [Promote ''a'' ''http://n1:80/v1'', Cancel ''a'' ''3'' None ScaleDown]"
  by code_simp

text \<open>A replica that misses two probes in a row.\<close>

definition demo_tick :: probe_tick where
  "demo_tick = (demo_rows, demo_jobs, [])"

theorem self_heal_needs_sustained_failure_witness:
  "judged_in ''c'' demo_tick
   \<and> ''c'' \<in> set (restart_candidates demo_rows (fold probe_step [demo_tick, demo_tick] []) 2 [])
   \<and> ''c'' \<notin> set (restart_candidates demo_rows (fold probe_step [demo_tick] []) 2 [])"
proof -
  have j: "judged_in ''c'' demo_tick"
    by (simp add: judged_in_def demo_tick_def judged_def demo_defs)
  have c: "demo_rows ! 2 \<in> set demo_rows" "rv_id (demo_rows ! 2) = ''c''" "rv_state (demo_rows ! 2) = ''healthy''"
    by (simp_all add: demo_defs)
  have o: "outcome ''c'' demo_tick = False"
    by (simp add: outcome_def demo_tick_def contains_key_def)
  note sh = self_heal_needs_sustained_failure [of _ "demo_rows ! 2" demo_rows 2 "[]", unfolded c(2),
      OF _ demo_rows_distinct c(1) c(3)]
  have "''c'' \<in> set (restart_candidates demo_rows (fold probe_step [demo_tick, demo_tick] []) 2 [])"
    using sh [of "[demo_tick, demo_tick]"] j o by (auto simp: net_misses_def intro: exI [of _ 0])
  moreover have "''c'' \<notin> set (restart_candidates demo_rows (fold probe_step [demo_tick] []) 2 [])"
    using sh [of "[demo_tick]"] j o by (auto simp: net_misses_def drop_Cons split: nat.splits)
  ultimately show ?thesis
    using j by blast
qed

end
