(* ===== verification/Json.thy ===== *)
theory Json
  imports Complex_Main
begin

text \<open>
  A \<open>serde_json::Value\<close> and the accessors the source uses. An object is a map with distinct keys.
\<close>

section \<open>JSON values\<close>

datatype json =
  JNull
| JBool bool
| JInt int
| JFloat rat
| JString string
| JArray "json list"
| JObject "(string \<times> json) list"

definition as_i64 :: "json \<Rightarrow> int option" where
  "as_i64 v = (case v of JInt n \<Rightarrow> if - (2 ^ 63) \<le> n \<and> n < 2 ^ 63 then Some n else None | _ \<Rightarrow> None)"

definition as_str :: "json \<Rightarrow> string option" where
  "as_str v = (case v of JString s \<Rightarrow> Some s | _ \<Rightarrow> None)"

definition as_array :: "json \<Rightarrow> json list option" where
  "as_array v = (case v of JArray a \<Rightarrow> Some a | _ \<Rightarrow> None)"

definition jget :: "string \<Rightarrow> json \<Rightarrow> json option" where
  "jget k v = (case v of JObject m \<Rightarrow> map_of m k | _ \<Rightarrow> None)"

definition is_null :: "json \<Rightarrow> bool" where
  "is_null v \<longleftrightarrow> v = JNull"

definition jget2 :: "string \<Rightarrow> string \<Rightarrow> json \<Rightarrow> json option" where
  "jget2 k l v = (case jget k v of None \<Rightarrow> None | Some w \<Rightarrow> jget l w)"

end
