(* ===== verification/Slurm.thy ===== *)
theory Slurm
  imports Planner F64 Json "HOL-Library.Signed_Division" "HOL-Library.Char_ord" "HOL-Library.List_Lexorder"
begin

text \<open>
  The Slurm adapter of the provisioner (\<open>obleth-provisioner/src/slurm.rs\<close>): the batch script and
  the submit request built from a model's spec, the reading of Slurm's memory and time notations, and
  the reading of slurmrestd's answers.

  Turning bytes into a JSON value is \<open>serde_json\<close>'s work: the typed reads of a response body are the parameters
  \<open>read_errors\<close> and \<open>read_jobs\<close> of the functions that use them (\<open>None\<close> when the body does not have
  the shape asked for).
\<close>

section \<open>The batch script\<close>

record managed_model_spec =
  sp_model_id :: uuid
  sp_enabled :: bool
  sp_partition :: string
  sp_gres :: string
  sp_nodes :: int
  sp_constraints :: "string option"
  sp_exclude :: "string option"
  sp_account :: "string option"
  sp_qos :: "string option"
  sp_time_limit :: "string option"
  sp_cpus_per_task :: "int option"
  sp_mem :: "string option"
  sp_image :: string
  sp_preamble :: string
  sp_log_output_dir :: string
  sp_launch_command :: string
  sp_script_body :: string
  sp_serving_port :: int
  sp_health_path :: string
  sp_target_replicas :: int
  sp_min_replicas :: int
  sp_max_job_failures :: int

record job_submit =
  js_name :: string
  js_partition :: string
  js_gres :: string
  js_nodes :: int
  js_time_limit :: "string option"
  js_account :: "string option"
  js_qos :: "string option"
  js_constraints :: "string option"
  js_exclude :: "string option"
  js_cpus_per_task :: "int option"
  js_mem_mb :: "int option"
  js_log_output_dir :: string
  js_script :: string

definition port_block :: "int \<Rightarrow> int \<Rightarrow> string" where
  "port_block port_base width =
     (let width = max width 1; base = show_int port_base; final = show_int (port_base + width - 1)
      in ''# obleth: bind the first free port in this replica's window'' @ [newline]
         @ ''for ((__p='' @ base @ ''; __p<='' @ final @ ''; __p++)); do'' @ [newline]
         @ ''  if ! (exec 3<>/dev/tcp/127.0.0.1/$__p) 2>/dev/null; then export OBLETH_SERVING_PORT=$__p; break; fi''
         @ [newline] @ ''done'' @ [newline]
         @ ''export OBLETH_SERVING_PORT=${OBLETH_SERVING_PORT:-'' @ base @ ''}'' @ [newline])"

definition inject_port_preamble :: "string \<Rightarrow> int \<Rightarrow> int \<Rightarrow> string" where
  "inject_port_preamble script port_base width =
     (let block = port_block port_base width
      in case split_once newline script of
           Some (line, rest) \<Rightarrow>
             if prefix ''#!'' script then line @ [newline] @ block @ rest else block @ script
         | None \<Rightarrow> block @ script)"

text \<open>\<open>s.replace("\r\n", "\n")\<close>\<close>

fun unix_line_endings :: "string \<Rightarrow> string" where
  "unix_line_endings [] = []"
| "unix_line_endings [c] = [c]"
| "unix_line_endings (c # d # s) =
     (if c = CHR 0x0D \<and> d = newline then newline # unix_line_endings s
      else c # unix_line_endings (d # s))"

definition shell_quote :: "string \<Rightarrow> string" where
  "shell_quote s =
     (let q = CHR 0x27
      in [q] @ concat (map (\<lambda>c. if c = q then [q, CHR 0x5C, q, q] else [c]) s) @ [q])"

section \<open>Memory and time\<close>

text \<open>
  A decimal literal as \<open>str::parse::<f64>\<close> reads it: an optional sign, digits with an optional point,
  an optional exponent, or a name for infinity or not-a-number.
\<close>

datatype f64_text = NotANumber | Infinite bool | Finite f64

definition split_digits :: "string \<Rightarrow> string \<times> string" where
  "split_digits s = (takeWhile (\<lambda>c. digit_value c \<noteq> None) s, dropWhile (\<lambda>c. digit_value c \<noteq> None) s)"

definition digits_value :: "string \<Rightarrow> nat" where
  "digits_value ds = (case read_digits 0 ds of None \<Rightarrow> 0 | Some n \<Rightarrow> n)"

definition split_sign :: "string \<Rightarrow> bool \<times> string" where
  "split_sign s =
     (case s of c # t \<Rightarrow> if c = CHR ''-'' then (True, t) else if c = CHR ''+'' then (False, t) else (False, s)
      | [] \<Rightarrow> (False, []))"

definition parse_exponent :: "string \<Rightarrow> int option" where
  "parse_exponent s =
     (case s of
        [] \<Rightarrow> Some 0
      | c # t \<Rightarrow>
          if c = CHR ''e'' \<or> c = CHR ''E'' then
            (let (neg, ds) = split_sign t; (ds, rest) = split_digits ds
             in if ds = [] \<or> rest \<noteq> [] then None
                else Some (if neg then - int (digits_value ds) else int (digits_value ds)))
          else None)"

definition parse_f64 :: "string \<Rightarrow> f64_text option" where
  "parse_f64 s =
     (let (neg, body) = split_sign s; name = to_ascii_lowercase body
      in if name = ''inf'' \<or> name = ''infinity'' then Some (Infinite neg)
         else if name = ''nan'' then Some NotANumber
         else (let (whole, rest) = split_digits body;
                   (frac, rest) = (case rest of
                      c # t \<Rightarrow> if c = CHR ''.'' then split_digits t else ([], rest)
                    | [] \<Rightarrow> ([], []))
               in if whole = [] \<and> frac = [] then None
                  else case parse_exponent rest of
                         None \<Rightarrow> None
                       | Some e \<Rightarrow>
                           (let x = of_nat (digits_value (whole @ frac)) * 10 powi (e - int (length frac))
                            in Some (Finite (fl (if neg then - x else x))))))"

text \<open>\<open>f64::round\<close> (ties away from zero) and the saturating cast to \<open>i64\<close>.\<close>

definition f64_round :: "f64 \<Rightarrow> int" where
  "f64_round x = (if 0 \<le> x then \<lfloor>x + 1 / 2\<rfloor> else - \<lfloor>- x + 1 / 2\<rfloor>)"

definition saturate_i64 :: "int \<Rightarrow> int" where
  "saturate_i64 n = max (- (2 ^ 63)) (min n (2 ^ 63 - 1))"

definition mem_unit :: "string \<Rightarrow> (string \<times> f64) option" where
  "mem_unit core =
     (if core = [] then None
      else let c = last core
           in if c = CHR ''K'' then Some (butlast core, 1 / 1024)
              else if c = CHR ''M'' then Some (butlast core, 1)
              else if c = CHR ''G'' then Some (butlast core, 1024)
              else if c = CHR ''T'' then Some (butlast core, 1024 * 1024)
              else if digit_value c \<noteq> None then Some (core, 1) else None)"

definition parse_mem_mb :: "string \<Rightarrow> int option" where
  "parse_mem_mb raw =
     (let s = trim raw
      in if s = [] then None
         else (let upper = to_ascii_uppercase s;
                   core = (if last upper = CHR ''B'' then butlast upper else upper)
               in case mem_unit core of
                    None \<Rightarrow> None
                  | Some (num_part, factor) \<Rightarrow>
                      (case parse_f64 (trim num_part) of
                         None \<Rightarrow> None
                       | Some NotANumber \<Rightarrow> None
                       | Some (Infinite neg) \<Rightarrow> if neg then None else Some (2 ^ 63 - 1)
                       | Some (Finite n) \<Rightarrow>
                           if n = 0 then Some 0
                           else if n < 0 then None
                           else (let mb = saturate_i64 (f64_round (fl (n * factor)))
                                 in if 0 < mb then Some mb else None))))"

definition time_parts :: "bool \<Rightarrow> int list \<Rightarrow> (int \<times> int \<times> int) option" where
  "time_parts with_days parts =
     (case parts of
        [a] \<Rightarrow> Some (if with_days then (a, 0, 0) else (0, a, 0))
      | [a, b] \<Rightarrow> Some (if with_days then (a, b, 0) else (0, a, b))
      | [a, b, c] \<Rightarrow> Some (a, b, c)
      | _ \<Rightarrow> None)"

text \<open>Collecting the parsed pieces of a list: all of them or none.\<close>

definition sequence :: "'a option list \<Rightarrow> 'a list option" where
  "sequence xs = (if None \<in> set xs then None else Some (map the xs))"

definition total_secs :: "int \<Rightarrow> int \<Rightarrow> int \<Rightarrow> int \<Rightarrow> int" where
  "total_secs days hours minutes seconds =
     i64 (i64 (i64 (i64 (i64 (i64 (days * 24) + hours) * 60) + minutes) * 60) + seconds)"

definition whole_minutes :: "int \<Rightarrow> int option" where
  "whole_minutes secs = (if secs \<le> 0 then None else Some (i64 (secs + 59) sdiv 60))"

definition time_limit_to_minutes :: "string \<Rightarrow> int option" where
  "time_limit_to_minutes raw =
     (let s = trim raw
      in if s = [] then None
         else case (case split_once CHR ''-'' s of
                      Some (d, rest) \<Rightarrow> map_option (\<lambda>days. (days, trim rest)) (parse_i64 (trim d))
                    | None \<Rightarrow> Some (0, s)) of
                None \<Rightarrow> None
              | Some (days, rest) \<Rightarrow>
                  (case sequence (map (\<lambda>p. parse_i64 (trim p)) (split_on CHR '':'' rest)) of
                     None \<Rightarrow> None
                   | Some parts \<Rightarrow>
                       if list_ex (\<lambda>n. n < 0) parts then None
                       else (case time_parts (0 < days \<or> CHR ''-'' \<in> set s) parts of
                               None \<Rightarrow> None
                             | Some (hours, minutes, seconds) \<Rightarrow>
                                 whole_minutes (total_secs days hours minutes seconds))))"

section \<open>The submit request\<close>

definition preamble_block :: "managed_model_spec \<Rightarrow> string" where
  "preamble_block spec =
     (let preamble = trim (unix_line_endings (sp_preamble spec))
      in if preamble = [] then [] else preamble @ [newline])"

definition exec_line :: "managed_model_spec \<Rightarrow> string" where
  "exec_line spec =
     (let image = trim (sp_image spec); cmd = unix_line_endings (sp_launch_command spec)
      in if image = [] then cmd else ''apptainer exec --nv '' @ shell_quote image @ '' '' @ cmd)"

definition bash_header :: string where
  "bash_header = ''#!/bin/bash'' @ [newline] @ ''set -euo pipefail'' @ [newline]"

definition assembled :: "managed_model_spec \<Rightarrow> string" where
  "assembled spec =
     (let body = unix_line_endings (sp_script_body spec)
      in if trim body = [] then bash_header @ preamble_block spec @ exec_line spec @ [newline]
         else if prefix ''#!'' body then
           (if last body = newline then body else body @ [newline])
         else bash_header @ body @ [newline])"

definition job_submit_from_spec ::
  "managed_model_spec \<Rightarrow> string \<Rightarrow> string \<Rightarrow> int \<Rightarrow> int \<Rightarrow> job_submit" where
  "job_submit_from_spec spec model_name name_prefix port_base width =
     \<lparr>js_name = name_prefix @ model_name, js_partition = sp_partition spec, js_gres = sp_gres spec,
      js_nodes = max (sp_nodes spec) 1, js_time_limit = sp_time_limit spec, js_account = sp_account spec,
      js_qos = sp_qos spec, js_constraints = sp_constraints spec, js_exclude = sp_exclude spec,
      js_cpus_per_task = (case sp_cpus_per_task spec of None \<Rightarrow> None | Some c \<Rightarrow> if 0 < c then Some c else None),
      js_mem_mb = (case sp_mem spec of None \<Rightarrow> None | Some m \<Rightarrow> parse_mem_mb m),
      js_log_output_dir = sp_log_output_dir spec,
      js_script = inject_port_preamble (assembled spec) port_base width\<rparr>"

definition job_environment :: "string \<Rightarrow> json list" where
  "job_environment hf_token =
     (let token = trim hf_token
      in JString (''PATH=/usr/local/sbin:/usr/local/bin:/usr/sbin:/usr/bin:/sbin:/bin:/opt/apptainer/bin:''
           @ ''/opt/singularity/bin'')
         # (if token = [] then []
            else [JString (''HF_TOKEN='' @ token), JString (''HUGGING_FACE_HUB_TOKEN='' @ token)]))"

definition insert_opt :: "string \<Rightarrow> json option \<Rightarrow> (string \<times> json) list \<Rightarrow> (string \<times> json) list" where
  "insert_opt k v m = (case v of None \<Rightarrow> m | Some x \<Rightarrow> AList.update k x m)"

definition submit_spec :: "job_submit \<Rightarrow> string \<Rightarrow> (string \<times> json) list" where
  "submit_spec job hf_token =
     (let m = [(''name'', JString (js_name job)), (''partition'', JString (js_partition job)),
               (''nodes'', JString (show_int (js_nodes job))), (''tasks'', JInt 1),
               (''current_working_directory'', JString ''/tmp''),
               (''environment'', JArray (job_environment hf_token))];
          m = (if 1 < js_nodes job
               then AList.update ''tasks_per_node'' (JInt 1) (AList.update ''tasks'' (JInt (js_nodes job)) m) else m);
          m = (if js_gres job = [] then m
               else AList.update ''tres_per_node'' (JString (''gres/'' @ js_gres job)) m);
          m = insert_opt ''time_limit''
                (case js_time_limit job of None \<Rightarrow> None | Some t \<Rightarrow> map_option JInt (time_limit_to_minutes t)) m;
          m = insert_opt ''account'' (map_option JString (js_account job)) m;
          m = insert_opt ''qos'' (map_option JString (js_qos job)) m;
          m = insert_opt ''constraints'' (map_option JString (js_constraints job)) m;
          m = insert_opt ''excluded_nodes'' (map_option JString (js_exclude job)) m;
          m = (case js_cpus_per_task job of
                 Some c \<Rightarrow> if 0 < c then AList.update ''cpus_per_task'' (JInt c) m else m | None \<Rightarrow> m);
          m = (case js_mem_mb job of
                 Some mb \<Rightarrow> if 0 \<le> mb then AList.update ''memory_per_node'' (JInt mb) m else m | None \<Rightarrow> m)
      in if js_log_output_dir job = [] then m
         else (let dir = trim_end_matches CHR ''/'' (js_log_output_dir job)
               in AList.update ''standard_error'' (JString (dir @ ''/'' @ js_name job @ ''-%j.err''))
                    (AList.update ''standard_output'' (JString (dir @ ''/'' @ js_name job @ ''-%j.out'')) m)))"

definition submit_body :: "job_submit \<Rightarrow> string \<Rightarrow> json" where
  "submit_body job hf_token =
     JObject [(''job'', JObject (submit_spec job hf_token)), (''script'', JString (js_script job))]"

section \<open>Answers of slurmrestd\<close>

record slurm_error =
  se_error_number :: "int option"
  se_error :: "string option"

record job_record =
  jr_job_id :: json
  jr_job_state :: json
  jr_nodes :: string
  jr_state_reason :: json

record jobs_response =
  jp_jobs :: "job_record list"
  jp_errors :: "slurm_error list"

definition ESLURM_INVALID_JOB_ID :: int where "ESLURM_INVALID_JOB_ID = 2017"

definition is_job_not_found :: "slurm_error \<Rightarrow> bool" where
  "is_job_not_found e \<longleftrightarrow> se_error_number e = Some ESLURM_INVALID_JOB_ID
     \<or> (case se_error e of None \<Rightarrow> False | Some t \<Rightarrow> contains_text ''invalid job id'' (to_ascii_lowercase t))"

definition is_job_not_found_body :: "('b \<Rightarrow> slurm_error list option) \<Rightarrow> 'b \<Rightarrow> bool" where
  "is_job_not_found_body read_errors body =
     (case read_errors body of None \<Rightarrow> False | Some es \<Rightarrow> list_ex is_job_not_found es)"

definition map_job_state :: "string \<Rightarrow> job_state" where
  "map_job_state s =
     (let u = to_ascii_uppercase s
      in if u \<in> {''PENDING'', ''CONFIGURING'', ''SUSPENDED''} then Pending
         else if u \<in> {''RUNNING'', ''COMPLETING''} then Running else Gone)"

definition expand_nodelist :: "string \<Rightarrow> string list" where
  "expand_nodelist s =
     (if s = [] then [] else if CHR ''['' \<in> set s then [s]
      else filter (\<lambda>x. x \<noteq> []) (split_on CHR '','' s))"

definition job_id_to_string :: "json \<Rightarrow> string" where
  "job_id_to_string v =
     (case as_i64 v of Some n \<Rightarrow> show_int n | None \<Rightarrow> (case as_str v of Some s \<Rightarrow> s | None \<Rightarrow> []))"

definition job_state_to_string :: "json \<Rightarrow> string" where
  "job_state_to_string v =
     (case v of
        JString s \<Rightarrow> s
      | JArray (x # _) \<Rightarrow> (case as_str x of Some s \<Rightarrow> s | None \<Rightarrow> [])
      | _ \<Rightarrow> [])"

datatype lookup_error =
  Unparseable
| ErrorWithoutJob slurm_error
| NoJobId
| BareNotFound
| BadStatus nat

definition parse_job :: "('b \<Rightarrow> jobs_response option) \<Rightarrow> 'b \<Rightarrow> lookup_error + job_info option" where
  "parse_job read_jobs body =
     (case read_jobs body of
        None \<Rightarrow> Inl Unparseable
      | Some parsed \<Rightarrow>
          (case jp_jobs parsed of
             [] \<Rightarrow>
               (case find (\<lambda>e. \<not> is_job_not_found e) (jp_errors parsed) of
                  Some e \<Rightarrow> Inl (ErrorWithoutJob e)
                | None \<Rightarrow> Inr None)
           | j # _ \<Rightarrow>
               (let job_id = job_id_to_string (jr_job_id j); raw_state = job_state_to_string (jr_job_state j)
                in if job_id = [] then Inl NoJobId
                   else Inr (Some
                     \<lparr>ji_job_id = job_id, ji_state = map_job_state raw_state,
                      ji_nodes = expand_nodelist (jr_nodes j), ji_raw_state = raw_state,
                      ji_reason = (case as_str (jr_state_reason j) of
                         None \<Rightarrow> None
                       | Some r \<Rightarrow> if trim r \<noteq> [] \<and> \<not> eq_ignore_ascii_case r ''none'' then Some r else None)\<rparr>))))"

definition job_lookup_from_response ::
  "('b \<Rightarrow> slurm_error list option) \<Rightarrow> ('b \<Rightarrow> jobs_response option) \<Rightarrow> nat \<Rightarrow> 'b \<Rightarrow> lookup_error + job_info option" where
  "job_lookup_from_response read_errors read_jobs status body =
     (if status = 404 then (if is_job_not_found_body read_errors body then Inr None else Inl BareNotFound)
      else if \<not> (200 \<le> status \<and> status < 300) then Inl (BadStatus status)
      else parse_job read_jobs body)"

definition job_status_message :: "string \<Rightarrow> string option \<Rightarrow> string" where
  "job_status_message raw_state reason =
     (case reason of
        Some r \<Rightarrow> if trim r \<noteq> [] \<and> \<not> eq_ignore_ascii_case r ''none''
                  then raw_state @ '' '' @ [CHR 0xE2, CHR 0x80, CHR 0x94] @ '' '' @ r else raw_state
      | None \<Rightarrow> raw_state)"

text \<open>The job id in the answer to a submit.\<close>

definition submitted_job_id :: "json \<Rightarrow> string option" where
  "submitted_job_id v =
     (case jget ''job_id'' v of
        None \<Rightarrow> None
      | Some j \<Rightarrow> (case as_i64 j of Some n \<Rightarrow> Some (show_int n) | None \<Rightarrow> as_str j))"

section \<open>What the cluster offers\<close>

record association_info =
  ai_account :: string
  ai_partition :: "string option"
  ai_qos :: "string list"

record partition_info =
  pi_name :: string
  pi_nodes :: "string list"
  pi_default_time :: "string option"
  pi_max_time :: "string option"
  pi_allowed_accounts :: "string list"
  pi_denied_accounts :: "string list"

record node_info =
  ni_name :: string
  ni_partitions :: "string list"
  ni_gres :: string
  ni_cpus :: "int option"
  ni_real_memory_mb :: "int option"
  ni_specialized_memory_mb :: "int option"
  ni_features :: "string list"
  ni_state :: "string list"
  ni_alloc_cpus :: "int option"
  ni_alloc_memory_mb :: "int option"

definition jstr :: "string \<Rightarrow> json \<Rightarrow> string option" where
  "jstr k v = (case jget k v of None \<Rightarrow> None | Some w \<Rightarrow> as_str w)"

definition jarr :: "string \<Rightarrow> json \<Rightarrow> json list" where
  "jarr k v = (case jget k v of None \<Rightarrow> [] | Some w \<Rightarrow> (case as_array w of None \<Rightarrow> [] | Some a \<Rightarrow> a))"

definition time_minutes :: "json \<Rightarrow> string option" where
  "time_minutes v =
     (case (case jget ''number'' v of None \<Rightarrow> None | Some n \<Rightarrow> as_i64 n) of
        Some n \<Rightarrow> Some (show_int n)
      | None \<Rightarrow>
          (case as_i64 v of
             Some n \<Rightarrow> Some (show_int n)
           | None \<Rightarrow> (case as_str v of Some s \<Rightarrow> if s = [] then None else Some s | None \<Rightarrow> None)))"

definition str_list :: "json option \<Rightarrow> string list" where
  "str_list v =
     (case v of
        Some (JString s) \<Rightarrow> filter (\<lambda>x. x \<noteq> []) (map trim (split_on CHR '','' s))
      | Some (JArray a) \<Rightarrow> filter (\<lambda>x. x \<noteq> []) (List.map_filter as_str a)
      | _ \<Rightarrow> [])"

definition parse_partition :: "json \<Rightarrow> partition_info option" where
  "parse_partition p =
     (case jstr ''name'' p of
        None \<Rightarrow> None
      | Some name \<Rightarrow> Some
          \<lparr>pi_name = name,
           pi_nodes = (case jget ''nodes'' p of
              None \<Rightarrow> []
            | Some n \<Rightarrow> str_list (Some (case jget ''configured'' n of Some c \<Rightarrow> c | None \<Rightarrow> n))),
           pi_default_time = (case jget2 ''defaults'' ''time'' p of None \<Rightarrow> None | Some t \<Rightarrow> time_minutes t),
           pi_max_time = (case jget2 ''maximums'' ''time'' p of None \<Rightarrow> None | Some t \<Rightarrow> time_minutes t),
           pi_allowed_accounts =
             filter (\<lambda>a. \<not> eq_ignore_ascii_case a ''ALL'') (str_list (jget2 ''accounts'' ''allowed'' p)),
           pi_denied_accounts = str_list (jget2 ''accounts'' ''deny'' p)\<rparr>)"

definition parse_partitions :: "json \<Rightarrow> partition_info list" where
  "parse_partitions v = List.map_filter parse_partition (jarr ''partitions'' v)"

definition node_number :: "string \<Rightarrow> json \<Rightarrow> int option" where
  "node_number key n =
     (case jget key n of
        None \<Rightarrow> None
      | Some m \<Rightarrow>
          (case as_i64 m of
             Some i \<Rightarrow> Some i
           | None \<Rightarrow> (case jget ''number'' m of None \<Rightarrow> None | Some x \<Rightarrow> as_i64 x)))"

definition parse_node :: "json \<Rightarrow> node_info option" where
  "parse_node n =
     (case jstr ''name'' n of
        None \<Rightarrow> None
      | Some name \<Rightarrow> Some
          \<lparr>ni_name = name, ni_partitions = str_list (jget ''partitions'' n),
           ni_gres = (case jstr ''gres'' n of None \<Rightarrow> [] | Some g \<Rightarrow> g),
           ni_cpus = node_number ''cpus'' n, ni_real_memory_mb = node_number ''real_memory'' n,
           ni_specialized_memory_mb =
             (case node_number ''specialized_memory'' n of Some m \<Rightarrow> if 0 < m then Some m else None | None \<Rightarrow> None),
           ni_features = str_list (jget ''features'' n),
           ni_state = map to_ascii_uppercase (str_list (jget ''state'' n)),
           ni_alloc_cpus = node_number ''alloc_cpus'' n, ni_alloc_memory_mb = node_number ''alloc_memory'' n\<rparr>)"

definition parse_nodes :: "json \<Rightarrow> node_info list" where
  "parse_nodes v = List.map_filter parse_node (jarr ''nodes'' v)"

definition node_memory :: "node_info \<Rightarrow> int option" where
  "node_memory n =
     (case ni_real_memory_mb n of
        None \<Rightarrow> None
      | Some mb \<Rightarrow>
          Some (i64 (mb - (case ni_specialized_memory_mb n of None \<Rightarrow> 0 | Some m \<Rightarrow> m))))"

definition whole_node_mem_mb :: "node_info list \<Rightarrow> string \<Rightarrow> int option" where
  "whole_node_mem_mb nodes part =
     (if part = [] then None
      else (let mbs = filter (\<lambda>mb. 0 < mb)
                        (List.map_filter node_memory (filter (\<lambda>n. part \<in> set (ni_partitions n)) nodes))
            in if mbs = [] then None else Some (Min (set mbs))))"

text \<open>\<open>with_whole_node_mem\<close>, given the answer to the read of the nodes (\<open>None\<close> when it failed).\<close>

definition with_whole_node_mem :: "node_info list option \<Rightarrow> job_submit \<Rightarrow> job_submit" where
  "with_whole_node_mem nodes job =
     (if js_mem_mb job \<noteq> Some 0 then job
      else case nodes of
             None \<Rightarrow> job
           | Some ns \<Rightarrow>
               (case whole_node_mem_mb ns (js_partition job) of
                  Some mb \<Rightarrow> job\<lparr>js_mem_mb := Some mb\<rparr>
                | None \<Rightarrow> job))"

definition association_of :: "json \<Rightarrow> association_info option" where
  "association_of a =
     (case jstr ''account'' a of
        None \<Rightarrow> None
      | Some account \<Rightarrow>
          if account = [] then None
          else Some \<lparr>ai_account = account,
                     ai_partition = (case jstr ''partition'' a of
                        Some p \<Rightarrow> if p = [] then None else Some p | None \<Rightarrow> None),
                     ai_qos = str_list (jget ''qos'' a)\<rparr>)"

definition parse_association_list :: "json \<Rightarrow> association_info list" where
  "parse_association_list v =
     fold (\<lambda>a out. case association_of a of
             None \<Rightarrow> out | Some info \<Rightarrow> if info \<in> set out then out else out @ [info])
       (jarr ''associations'' v) []"

text \<open>A \<open>BTreeSet\<close> of strings, read in order.\<close>

definition btree_set :: "string list \<Rightarrow> string list" where
  "btree_set xs = sort (remdups xs)"

definition parse_associations :: "json \<Rightarrow> string list \<times> string list" where
  "parse_associations v =
     (let arr = jarr ''associations'' v
      in (btree_set (filter (\<lambda>s. s \<noteq> []) (List.map_filter (jstr ''account'') arr)),
          btree_set (concat (map (\<lambda>a. str_list (jget ''qos'' a)) arr))))"

end
