(* ===== verification/Slurm_Props.thy ===== *)
theory Slurm_Props
  imports Slurm
begin

text \<open>
  What the Slurm adapter promises: a quoted image is one shell word, the port block sits between the
  interpreter line and the script, every walltime notation is read and rounded up to whole minutes, a
  job counts as gone only when Slurm says so, and a request for all of a node's memory fits every
  node of its partition.
\<close>

section \<open>Quoting\<close>

text \<open>
  A POSIX shell reading one word, unquoted or inside single quotes. Outside quotes a backslash takes
  the next character as it is, and any other character with a meaning to the shell stops the reading.
\<close>

definition sh_special :: "char \<Rightarrow> bool" where
  "sh_special c \<longleftrightarrow> c \<in> set '' |&;<>()$`*?[#~=%!{}'' \<or> c \<in> {CHR 0x09, CHR 0x0A, CHR 0x22}"

fun sh_word :: "bool \<Rightarrow> string \<Rightarrow> string option" where
  "sh_word quoted [] = (if quoted then None else Some [])"
| "sh_word True (c # s) =
     (if c = CHR 0x27 then sh_word False s else map_option (Cons c) (sh_word True s))"
| "sh_word False (c # s) =
     (if c = CHR 0x27 then sh_word True s
      else if c = CHR 0x5C then (case s of [] \<Rightarrow> None | d # t \<Rightarrow> map_option (Cons d) (sh_word False t))
      else if sh_special c then None else map_option (Cons c) (sh_word False s))"

text \<open>
  C40: quoting is safe. Whatever characters an image name has, the shell reads its quoted form as one
  word that is exactly the name.
\<close>

theorem shell_quote_reads_back: "sh_word False (shell_quote s) = Some s"
proof -
  have "sh_word True (concat (map (\<lambda>c. if c = CHR 0x27 then [CHR 0x27, CHR 0x5C, CHR 0x27, CHR 0x27] else [c]) s)
      @ [CHR 0x27]) = Some s"
    by (induction s) auto
  then show ?thesis
    by (simp add: shell_quote_def Let_def)
qed

section \<open>The script\<close>

lemma split_once_Some: "split_once c s = Some (p, q) \<Longrightarrow> s = p @ c # q \<and> c \<notin> set p"
  by (induction c s arbitrary: p rule: split_once.induct) (auto split: if_splits)

lemma split_once_mem: "c \<in> set s \<Longrightarrow> \<exists>p q. split_once c s = Some (p, q)"
  by (induction s) auto

lemma assembled_shape: "prefix ''#!'' (assembled spec) \<and> newline \<in> set (assembled spec)"
proof (cases "trim (unix_line_endings (sp_script_body spec)) \<noteq> [] \<and> prefix ''#!'' (unix_line_endings (sp_script_body spec))")
  case True
  then have "unix_line_endings (sp_script_body spec) \<noteq> []"
    by auto
  with True show ?thesis
    by (auto simp: assembled_def Let_def) (metis last_in_set)
next
  case False
  then show ?thesis
    by (auto simp: assembled_def Let_def bash_header_def)
qed

text \<open>
  the job's script. It starts with the interpreter line of the assembled script, then the block
  that binds a port of the replica's window, then the rest of the assembled script unchanged.
\<close>

theorem job_script_layout:
  "\<exists>line rest. assembled spec = line @ newline # rest \<and> prefix ''#!'' (line @ [newline]) \<and> newline \<notin> set line
     \<and> js_script (job_submit_from_spec spec name pre base width) =
         line @ [newline] @ port_block base width @ rest"
proof -
  obtain line rest where s: "split_once newline (assembled spec) = Some (line, rest)"
    using assembled_shape split_once_mem by blast
  then have a: "assembled spec = line @ newline # rest" "newline \<notin> set line"
    using split_once_Some by blast+
  have p: "prefix ''#!'' (assembled spec)"
    using assembled_shape by blast
  have "prefix ''#!'' (line @ [newline])"
    using p unfolding a by (cases line; cases "tl line") auto
  moreover have "js_script (job_submit_from_spec spec name pre base width) =
      line @ [newline] @ port_block base width @ rest"
    using p s by (simp add: job_submit_from_spec_def inject_port_preamble_def Let_def)
  ultimately show ?thesis
    using a by blast
qed

section \<open>Walltimes\<close>

datatype walltime =
  Mins nat
| MinSec nat nat
| HourMinSec nat nat nat
| DayHour nat nat
| DayHourMin nat nat nat
| DayHourMinSec nat nat nat nat

fun colons :: "nat list \<Rightarrow> string" where
  "colons [] = []"
| "colons [n] = show_nat n"
| "colons (n # ns) = show_nat n @ CHR '':'' # colons ns"

fun walltime_text :: "walltime \<Rightarrow> string" where
  "walltime_text (Mins m) = colons [m]"
| "walltime_text (MinSec m s) = colons [m, s]"
| "walltime_text (HourMinSec h m s) = colons [h, m, s]"
| "walltime_text (DayHour d h) = show_nat d @ CHR ''-'' # colons [h]"
| "walltime_text (DayHourMin d h m) = show_nat d @ CHR ''-'' # colons [h, m]"
| "walltime_text (DayHourMinSec d h m s) = show_nat d @ CHR ''-'' # colons [h, m, s]"

fun walltime_fields :: "walltime \<Rightarrow> nat \<times> nat \<times> nat \<times> nat" where
  "walltime_fields (Mins m) = (0, 0, m, 0)"
| "walltime_fields (MinSec m s) = (0, 0, m, s)"
| "walltime_fields (HourMinSec h m s) = (0, h, m, s)"
| "walltime_fields (DayHour d h) = (d, h, 0, 0)"
| "walltime_fields (DayHourMin d h m) = (d, h, m, 0)"
| "walltime_fields (DayHourMinSec d h m s) = (d, h, m, s)"

definition walltime_secs :: "walltime \<Rightarrow> nat" where
  "walltime_secs w = (case walltime_fields w of (d, h, m, s) \<Rightarrow> ((d * 24 + h) * 60 + m) * 60 + s)"

lemma show_nat_sep: "CHR ''-'' \<notin> set (show_nat n)" "CHR '':'' \<notin> set (show_nat n)"
  by (metis digit_neq(1) show_nat_chars, metis digit_neq(3) show_nat_chars)

lemma trim_show_nat [simp]: "trim (show_nat n) = show_nat n"
  by (rule trim_printing) (auto dest: show_nat_printing)

lemma colons_nonempty: "ns \<noteq> [] \<Longrightarrow> colons ns \<noteq> []"
  by (cases ns rule: colons.cases) auto

lemma colons_printing: "c \<in> set (colons ns) \<Longrightarrow> printing c"
  by (induction ns rule: colons.induct) (auto dest: show_nat_printing simp: printing_def)

lemma colons_no_dash: "CHR ''-'' \<notin> set (colons ns)"
  by (induction ns rule: colons.induct) (auto simp: show_nat_sep)

lemma trim_colons: "ns \<noteq> [] \<Longrightarrow> trim (colons ns) = colons ns"
  by (rule trim_printing) (auto simp: colons_nonempty dest: colons_printing)

lemma split_colons: "ns \<noteq> [] \<Longrightarrow> split_on CHR '':'' (colons ns) = map show_nat ns"
  by (induction ns rule: colons.induct) (auto simp: split_on_append split_on_none show_nat_sep)

lemma parse_colons:
  "ns \<noteq> [] \<Longrightarrow> \<forall>n \<in> set ns. int n < 2 ^ 63 \<Longrightarrow>
     sequence (map (\<lambda>p. parse_i64 (trim p)) (split_on CHR '':'' (colons ns))) = Some (map int ns)"
  by (auto simp: split_colons sequence_def parse_show_nat comp_def)

lemma time_limit_plain:
  "ns \<noteq> [] \<Longrightarrow> \<forall>n \<in> set ns. int n < 2 ^ 63 \<Longrightarrow> time_parts False (map int ns) = Some (h, m, s) \<Longrightarrow>
     time_limit_to_minutes (colons ns) = whole_minutes (total_secs 0 h m s)"
  by (simp add: time_limit_to_minutes_def trim_colons colons_nonempty split_once_none colons_no_dash
      parse_colons list_ex_iff)

lemma time_limit_days:
  "ns \<noteq> [] \<Longrightarrow> \<forall>n \<in> set ns. int n < 2 ^ 63 \<Longrightarrow> int d < 2 ^ 63 \<Longrightarrow> time_parts True (map int ns) = Some (h, m, s) \<Longrightarrow>
     time_limit_to_minutes (show_nat d @ CHR ''-'' # colons ns) = whole_minutes (total_secs (int d) h m s)"
proof -
  assume a: "ns \<noteq> []" "\<forall>n \<in> set ns. int n < 2 ^ 63" "int d < 2 ^ 63" "time_parts True (map int ns) = Some (h, m, s)"
  let ?s = "show_nat d @ CHR ''-'' # colons ns"
  have "trim ?s = ?s"
    by (rule trim_printing) (auto dest: show_nat_printing colons_printing simp: printing_def)
  then show ?thesis
    using a by (simp add: time_limit_to_minutes_def split_once_append show_nat_sep trim_colons
        parse_show_nat parse_colons list_ex_iff)
qed

definition fields_below :: "nat \<Rightarrow> walltime \<Rightarrow> bool" where
  "fields_below b w \<longleftrightarrow> (case walltime_fields w of (d, h, m, s) \<Rightarrow> d < b \<and> h < b \<and> m < b \<and> s < b)"

lemma total_secs_small:
  "d < 2 ^ 32 \<Longrightarrow> h < 2 ^ 32 \<Longrightarrow> m < 2 ^ 32 \<Longrightarrow> s < 2 ^ 32 \<Longrightarrow>
     total_secs (int d) (int h) (int m) (int s) = int (((d * 24 + h) * 60 + m) * 60 + s)"
  by (simp add: total_secs_def i64_id)

lemma time_limit_read:
  assumes "fields_below (2 ^ 32) w"
  shows "time_limit_to_minutes (walltime_text w) = whole_minutes (int (walltime_secs w))"
proof -
  obtain d h m s where f: "walltime_fields w = (d, h, m, s)"
    by (metis prod_cases4)
  with assms have b: "d < 2 ^ 32" "h < 2 ^ 32" "m < 2 ^ 32" "s < 2 ^ 32"
    by (simp_all add: fields_below_def)
  have "time_limit_to_minutes (walltime_text w) = whole_minutes (total_secs (int d) (int h) (int m) (int s))"
    using f b by (cases w) (auto simp: time_limit_plain time_limit_days time_parts_def simp del: colons.simps)
  then show ?thesis
    using b by (simp add: total_secs_small walltime_secs_def f)
qed

lemma whole_minutes_ceil:
  "0 < secs \<Longrightarrow> secs < 2 ^ 62 \<Longrightarrow> \<exists>t. whole_minutes secs = Some t \<and> secs \<le> 60 * t \<and> 60 * t < secs + 60"
  by (simp add: whole_minutes_def i64_id signed_divide_int_def) (auto simp: sgn_if)

text \<open>
  time limits. Each of Slurm's six notations is read as the time it means, rounded up to whole
  minutes: never less than asked for and by less than a minute more; a limit of zero is left out.
\<close>

theorem time_limit_rounds_up:
  assumes "fields_below (2 ^ 32) w"
  shows "if walltime_secs w = 0 then time_limit_to_minutes (walltime_text w) = None
         else \<exists>t. time_limit_to_minutes (walltime_text w) = Some t
                \<and> int (walltime_secs w) \<le> 60 * t \<and> 60 * t < int (walltime_secs w) + 60"
proof -
  have "int (walltime_secs w) < 2 ^ 62"
    using assms by (auto simp: fields_below_def walltime_secs_def split: prod.splits)
  then show ?thesis
    using whole_minutes_ceil [of "int (walltime_secs w)"]
    by (auto simp: time_limit_read [OF assms] whole_minutes_def)
qed

definition demo_wall :: walltime where
  "demo_wall = DayHourMinSec 1 2 3 4"

theorem time_limit_rounds_up_witness:
  "walltime_text demo_wall = ''1-2:3:4''
   \<and> (\<exists>t. time_limit_to_minutes ''1-2:3:4'' = Some t \<and> 93784 \<le> 60 * t \<and> 60 * t < 93844)"
proof -
  have "walltime_text demo_wall = ''1-2:3:4''"
    by code_simp
  moreover have "fields_below (2 ^ 32) demo_wall"
    by (simp add: fields_below_def demo_wall_def)
  moreover have "walltime_secs demo_wall = 93784"
    by (simp add: walltime_secs_def demo_wall_def)
  ultimately show ?thesis
    using time_limit_rounds_up [of demo_wall] by auto
qed

section \<open>Answers\<close>

text \<open>
  When a look-up finds no job: only for a
  404 whose body names the job as unknown, or a 2xx answer that lists no job and no error other than
  that the job is unknown; a failed request, a bare 404 and an unreadable body are errors.
\<close>

theorem gone_only_when_said:
  assumes "job_lookup_from_response read_errors read_jobs status body = Inr None"
  shows "(status = 404 \<and> (\<exists>es. read_errors body = Some es \<and> (\<exists>e \<in> set es. is_job_not_found e)))
         \<or> (200 \<le> status \<and> status < 300
            \<and> (\<exists>p. read_jobs body = Some p \<and> jp_jobs p = [] \<and> (\<forall>e \<in> set (jp_errors p). is_job_not_found e)))"
  using assms
  by (auto simp: job_lookup_from_response_def is_job_not_found_body_def parse_job_def Let_def list_ex_iff
      find_None_iff split: if_splits option.splits list.splits)

definition demo_errors :: "string \<Rightarrow> slurm_error list option" where
  "demo_errors body = (if body = ''gone'' then Some [\<lparr>se_error_number = Some 2017, se_error = None\<rparr>] else None)"

theorem gone_only_when_said_witness:
  "job_lookup_from_response demo_errors (\<lambda>_. None) 404 ''gone'' = Inr None
   \<and> (\<exists>es. demo_errors ''gone'' = Some es \<and> (\<exists>e \<in> set es. is_job_not_found e))"
proof -
  have "job_lookup_from_response demo_errors (\<lambda>_. None) 404 ''gone'' = Inr None"
    by (simp add: job_lookup_from_response_def is_job_not_found_body_def demo_errors_def is_job_not_found_def
        ESLURM_INVALID_JOB_ID_def)
  then show ?thesis
    using gone_only_when_said [of demo_errors "\<lambda>_. None" 404 "''gone''"] by simp
qed

section \<open>Memory\<close>

lemma whole_node_mem_Some:
  "whole_node_mem_mb nodes part = Some mb \<longleftrightarrow> part \<noteq> [] \<and>
     (let mbs = {m. 0 < m \<and> (\<exists>n \<in> set nodes. part \<in> set (ni_partitions n) \<and> node_memory n = Some m)}
      in mbs \<noteq> {} \<and> mb = Min mbs)"
proof -
  let ?f = "filter (\<lambda>mb. 0 < mb) (List.map_filter node_memory (filter (\<lambda>n. part \<in> set (ni_partitions n)) nodes))"
  have "set ?f = {m. 0 < m \<and> (\<exists>n \<in> set nodes. part \<in> set (ni_partitions n) \<and> node_memory n = Some m)}"
    by (force simp: List.map_filter_def)
  then show ?thesis
    by (auto simp: whole_node_mem_mb_def Let_def simp flip: set_empty)
qed

lemma node_memories_finite:
  "finite {m. 0 < m \<and> (\<exists>n \<in> set nodes. part \<in> set (ni_partitions n) \<and> node_memory n = Some m)}"
proof -
  have "{m. 0 < m \<and> (\<exists>n \<in> set nodes. part \<in> set (ni_partitions n) \<and> node_memory n = Some m)}
      \<subseteq> (\<lambda>n. the (node_memory n)) ` set nodes"
    by force
  then show ?thesis
    by (rule finite_subset) simp
qed

text \<open>
  all of a node's memory. A request for zero is replaced by a positive size that some node of the
  partition has and that no node of the partition reporting its memory falls short of; any other
  request is left alone.
\<close>

theorem whole_node_mem_fits:
  assumes "with_whole_node_mem (Some nodes) job \<noteq> job"
  shows "js_mem_mb job = Some 0 \<and> (\<exists>mb > 0. js_mem_mb (with_whole_node_mem (Some nodes) job) = Some mb
           \<and> (\<exists>n \<in> set nodes. js_partition job \<in> set (ni_partitions n) \<and> node_memory n = Some mb)
           \<and> (\<forall>n \<in> set nodes. js_partition job \<in> set (ni_partitions n) \<longrightarrow>
                (\<forall>m. node_memory n = Some m \<and> 0 < m \<longrightarrow> mb \<le> m)))"
proof -
  let ?M = "{m. 0 < m \<and> (\<exists>n \<in> set nodes. js_partition job \<in> set (ni_partitions n) \<and> node_memory n = Some m)}"
  obtain mb where mb: "whole_node_mem_mb nodes (js_partition job) = Some mb" and z: "js_mem_mb job = Some 0"
    and w: "js_mem_mb (with_whole_node_mem (Some nodes) job) = Some mb"
    using assms by (auto simp: with_whole_node_mem_def split: if_splits option.splits)
  have m: "mb = Min ?M" "?M \<noteq> {}"
    using mb unfolding whole_node_mem_Some Let_def by simp_all
  have in_M: "mb \<in> ?M"
    unfolding m(1) by (rule Min_in [OF node_memories_finite m(2)])
  have least: "mb \<le> m" if "m \<in> ?M" for m
    unfolding m(1) by (rule Min_le [OF node_memories_finite that])
  show ?thesis
    using z w in_M least by (intro conjI exI [of _ mb]) auto
qed

definition demo_node :: "string \<Rightarrow> int \<Rightarrow> node_info" where
  "demo_node name mb =
     \<lparr>ni_name = name, ni_partitions = [''gpu''], ni_gres = '''', ni_cpus = None, ni_real_memory_mb = Some mb,
      ni_specialized_memory_mb = Some 2, ni_features = [], ni_state = [], ni_alloc_cpus = None,
      ni_alloc_memory_mb = None\<rparr>"

definition demo_submit :: job_submit where
  "demo_submit =
     \<lparr>js_name = ''m'', js_partition = ''gpu'', js_gres = '''', js_nodes = 1, js_time_limit = None,
      js_account = None, js_qos = None, js_constraints = None, js_exclude = None, js_cpus_per_task = None,
      js_mem_mb = Some 0, js_log_output_dir = '''', js_script = ''''\<rparr>"

theorem whole_node_mem_fits_witness:
  "with_whole_node_mem (Some [demo_node ''a'' 50, demo_node ''b'' 40]) demo_submit \<noteq> demo_submit
   \<and> js_mem_mb demo_submit = Some 0"
proof -
  have "with_whole_node_mem (Some [demo_node ''a'' 50, demo_node ''b'' 40]) demo_submit \<noteq> demo_submit"
    by code_simp
  then show ?thesis
    using whole_node_mem_fits [of "[demo_node ''a'' 50, demo_node ''b'' 40]" demo_submit] by blast
qed

end
