(* ===== verification/Provisioner.thy ===== *)
theory Provisioner
  imports Slurm Ip_Text "HOL-Library.State_Monad"
begin

text \<open>
  The provisioner's tick (\<open>obleth-provisioner/src/main.rs\<close>), the executor of the planner's actions
  (\<open>executor.rs\<close>) and the host resolver (\<open>resolve.rs\<close>).

  \<^item> Everything the tick asks of the outside -- the gateway's management API (\<open>OblethClient\<close>), Slurm
    (\<open>SlurmClient\<close>), health probes, name look-ups and the clock -- is a call. The record \<open>services\<close> is a
    parameter: it answers each call from the calls made before it, so it stands for any behaviour of
    these services, failures included. The state of the tick is the list of calls made so far and the
    resolver's maps; the code runs in the state monad.
  \<^item> A fallible operation (\<open>anyhow::Result\<close>) answers \<open>Inl\<close> with the error's text or \<open>Inr\<close>.
  \<^item> URL parsing is the \<open>url\<close> crate's: \<open>url_host\<close> (the host of a URL that parses) and \<open>url_with_ip\<close>
    (the URL with its host replaced) are services too.
  \<^item> The probes of a port window run concurrently in the source and in port order here; only the set of
    answers matters. Warm-up requests are detached in the source: here they are calls without an answer.
\<close>

section \<open>Calls and services\<close>

datatype call =
  CallSubmit job_submit
| CallCancel string
| CallGetJob string
| CallListManaged
| CallListReplicas
| CallModelName uuid
| CallCreateReplica uuid string int
| CallPatchReplica uuid "string option" "string option" "uuid option" "string option"
| CallDeleteReplica uuid
| CallCreateEndpoint uuid string string
| CallListEndpoints uuid
| CallDeleteEndpoint uuid uuid
| CallUpdateEndpoint uuid endpoint_view string
| CallSetProvisionError uuid "string option"
| CallProbe string string
| CallLookupHost string
| CallWarmUp string
| CallGetSlurmSettings

record slurm_settings =
  ss_enabled :: bool
  ss_slurmrestd_url :: string
  ss_node_aliases :: "(string \<times> string) list"

record services =
  sv_get_slurm_settings :: "call list \<Rightarrow> string + slurm_settings option"
  sv_submit :: "call list \<Rightarrow> job_submit \<Rightarrow> string + string"
  sv_cancel :: "call list \<Rightarrow> string \<Rightarrow> string + unit"
  sv_get_job :: "call list \<Rightarrow> string \<Rightarrow> string + job_info option"
  sv_list_managed :: "call list \<Rightarrow> string + managed_model_spec list"
  sv_list_replicas :: "call list \<Rightarrow> string + replica_view list"
  sv_model_name :: "call list \<Rightarrow> uuid \<Rightarrow> string + string"
  sv_create_replica :: "call list \<Rightarrow> uuid \<Rightarrow> string \<Rightarrow> int \<Rightarrow> string + uuid"
  sv_patch_replica :: "call list \<Rightarrow> uuid \<Rightarrow> string + unit"
  sv_delete_replica :: "call list \<Rightarrow> uuid \<Rightarrow> string + unit"
  sv_create_endpoint :: "call list \<Rightarrow> uuid \<Rightarrow> string \<Rightarrow> string \<Rightarrow> string + uuid"
  sv_list_endpoints :: "call list \<Rightarrow> uuid \<Rightarrow> string + endpoint_view list"
  sv_delete_endpoint :: "call list \<Rightarrow> uuid \<Rightarrow> uuid \<Rightarrow> string + unit"
  sv_update_endpoint :: "call list \<Rightarrow> uuid \<Rightarrow> endpoint_view \<Rightarrow> string \<Rightarrow> string + unit"
  sv_set_provision_error :: "call list \<Rightarrow> uuid \<Rightarrow> string option \<Rightarrow> string + unit"
  sv_probe :: "call list \<Rightarrow> string \<Rightarrow> string \<Rightarrow> bool"
  sv_lookup_host :: "call list \<Rightarrow> string \<Rightarrow> (bool \<times> string) list option"
  sv_now :: "call list \<Rightarrow> instant"
  sv_url_host :: "string \<Rightarrow> string option"
  sv_url_with_ip :: "string \<Rightarrow> string \<Rightarrow> string option"

record cache_entry =
  ce_ip :: string
  ce_at :: instant

record world =
  w_log :: "call list"
  w_aliases :: "(string, string) hmap"
  w_cache :: "(string, cache_entry) hmap"

type_synonym 'a prov = "(world, 'a) state"

definition ask :: "(call list \<Rightarrow> 'a) \<Rightarrow> call \<Rightarrow> 'a prov" where
  "ask answer c = State (\<lambda>w. (answer (w_log w), w\<lparr>w_log := w_log w @ [c]\<rparr>))"

definition gets :: "(world \<Rightarrow> 'a) \<Rightarrow> 'a prov" where
  "gets f = State (\<lambda>w. (f w, w))"

definition modify_cache :: "((string, cache_entry) hmap \<Rightarrow> (string, cache_entry) hmap) \<Rightarrow> unit prov" where
  "modify_cache f = State (\<lambda>w. ((), w\<lparr>w_cache := f (w_cache w)\<rparr>))"

text \<open>A loop whose body has no result.\<close>

primrec for_each :: "'a list \<Rightarrow> ('a \<Rightarrow> unit prov) \<Rightarrow> unit prov" where
  "for_each [] body = State_Monad.return ()"
| "for_each (x # xs) body = do {body x; for_each xs body}"

section \<open>The host resolver\<close>

definition RESOLVE_ATTEMPTS :: nat where "RESOLVE_ATTEMPTS = 3"

definition RESOLVE_TTL :: duration where "RESOLVE_TTL = 300000"

definition lookup_first :: "services \<Rightarrow> string \<Rightarrow> string option prov" where
  "lookup_first sv host = do {
     addrs \<leftarrow> ask (\<lambda>l. sv_lookup_host sv l host) (CallLookupHost host);
     State_Monad.return (case addrs of
       None \<Rightarrow> None
     | Some as \<Rightarrow>
         (case find fst as of
            Some a \<Rightarrow> Some (snd a)
          | None \<Rightarrow> (case as of [] \<Rightarrow> None | a # _ \<Rightarrow> Some (snd a))))
   }"

primrec resolve_dns :: "services \<Rightarrow> string \<Rightarrow> nat \<Rightarrow> string option prov" where
  "resolve_dns sv host 0 =
     gets (\<lambda>w. map_option ce_ip (map_of (w_cache w) host))"
| "resolve_dns sv host (Suc attempts) = do {
     found \<leftarrow> lookup_first sv host;
     (case found of
        Some ip \<Rightarrow> do {
          now \<leftarrow> gets (\<lambda>w. sv_now sv (w_log w));
          modify_cache (AList.update host \<lparr>ce_ip = ip, ce_at = now\<rparr>);
          State_Monad.return (Some ip)
        }
      | None \<Rightarrow> resolve_dns sv host attempts)
   }"

definition fresh_entry :: "services \<Rightarrow> string \<Rightarrow> world \<Rightarrow> string option" where
  "fresh_entry sv host w =
     (case map_of (w_cache w) host of
        None \<Rightarrow> None
      | Some e \<Rightarrow> if sv_now sv (w_log w) - ce_at e < RESOLVE_TTL then Some (ce_ip e) else None)"

definition resolve :: "services \<Rightarrow> string \<Rightarrow> string option prov" where
  "resolve sv host =
     (let host = trim host
      in if host = [] then State_Monad.return None
         else do {
           alias \<leftarrow> gets (\<lambda>w. map_of (w_aliases w) host);
           (case alias of
              Some ip \<Rightarrow> State_Monad.return (Some ip)
            | None \<Rightarrow>
                if is_ip host then State_Monad.return (Some host)
                else do {
                  cached \<leftarrow> gets (fresh_entry sv host);
                  (case cached of
                     Some ip \<Rightarrow> State_Monad.return (Some ip)
                   | None \<Rightarrow> resolve_dns sv host RESOLVE_ATTEMPTS)
                })
         })"

definition resolve_url_host :: "services \<Rightarrow> string \<Rightarrow> string prov" where
  "resolve_url_host sv url =
     (case sv_url_host sv url of
        None \<Rightarrow> State_Monad.return url
      | Some host \<Rightarrow>
          if is_ip host then State_Monad.return url
          else do {
            ip \<leftarrow> resolve sv host;
            State_Monad.return (case ip of
              None \<Rightarrow> url
            | Some a \<Rightarrow>
                if is_ip a then (case sv_url_with_ip sv url a of None \<Rightarrow> url | Some u \<Rightarrow> u) else url)
          })"

section \<open>The executor\<close>

definition host_from_api_base :: "services \<Rightarrow> string \<Rightarrow> string" where
  "host_from_api_base sv api_base = (case sv_url_host sv api_base of None \<Rightarrow> [] | Some h \<Rightarrow> h)"

abbreviation return_ok :: "(string + unit) prov" where
  "return_ok \<equiv> State_Monad.return (Inr ())"

definition patch_replica ::
  "services \<Rightarrow> uuid \<Rightarrow> string option \<Rightarrow> string option \<Rightarrow> uuid option \<Rightarrow> string option \<Rightarrow> (string + unit) prov" where
  "patch_replica sv i st nodes ep msg = ask (\<lambda>l. sv_patch_replica sv l i) (CallPatchReplica i st nodes ep msg)"

definition apply_submit ::
  "services \<Rightarrow> uuid \<Rightarrow> string \<Rightarrow> managed_model_spec option \<Rightarrow> string \<Rightarrow> int \<Rightarrow> int \<Rightarrow> (string + unit) prov" where
  "apply_submit sv model_id model_name spec job_prefix port_span port_base =
     (case spec of
        None \<Rightarrow> State_Monad.return (Inl (''Submit requires a managed spec (model '' @ model_id @ '')''))
      | Some sp \<Rightarrow> do {
          let job = job_submit_from_spec sp model_name job_prefix port_base port_span;
          submitted \<leftarrow> ask (\<lambda>l. sv_submit sv l job) (CallSubmit job);
          (case submitted of
             Inl e \<Rightarrow> do {
               ask (\<lambda>l. sv_set_provision_error sv l model_id (Some e)) (CallSetProvisionError model_id (Some e));
               State_Monad.return (Inl e)
             }
           | Inr job_id \<Rightarrow> do {
               recorded \<leftarrow> ask (\<lambda>l. sv_create_replica sv l model_id job_id port_base)
                             (CallCreateReplica model_id job_id port_base);
               (case recorded of
                  Inl e \<Rightarrow> do {
                    ask (\<lambda>l. sv_cancel sv l job_id) (CallCancel job_id);
                    State_Monad.return (Inl e)
                  }
                | Inr _ \<Rightarrow> do {
                    ask (\<lambda>l. sv_set_provision_error sv l model_id None) (CallSetProvisionError model_id None);
                    return_ok
                  })
             })
        })"

definition promoted_endpoint ::
  "services \<Rightarrow> uuid \<Rightarrow> string \<Rightarrow> string \<Rightarrow> endpoint_view list \<Rightarrow> (string + uuid) prov" where
  "promoted_endpoint sv model_id name ip_api_base existing =
     (case find (\<lambda>e. ev_name e = name) existing of
        Some e \<Rightarrow>
          if ev_api_base e \<noteq> ip_api_base then do {
            res \<leftarrow> ask (\<lambda>l. sv_update_endpoint sv l model_id e ip_api_base)
                    (CallUpdateEndpoint model_id e ip_api_base);
            State_Monad.return (case res of Inl err \<Rightarrow> Inl err | Inr _ \<Rightarrow> Inr (ev_id e))
          }
          else State_Monad.return (Inr (ev_id e))
      | None \<Rightarrow> ask (\<lambda>l. sv_create_endpoint sv l model_id name ip_api_base)
                  (CallCreateEndpoint model_id name ip_api_base))"

definition apply_promote ::
  "services \<Rightarrow> uuid \<Rightarrow> string \<Rightarrow> string \<Rightarrow> uuid \<Rightarrow> string \<Rightarrow> (string + unit) prov" where
  "apply_promote sv model_id model_name job_prefix replica_id api_base = do {
     let node = host_from_api_base sv api_base;
     ip_api_base \<leftarrow> resolve_url_host sv api_base;
     let name = job_prefix @ model_name @ ''-'' @ replica_id;
     existing \<leftarrow> ask (\<lambda>l. sv_list_endpoints sv l model_id) (CallListEndpoints model_id);
     (case existing of
        Inl e \<Rightarrow> State_Monad.return (Inl e)
      | Inr eps \<Rightarrow> do {
          ep \<leftarrow> promoted_endpoint sv model_id name ip_api_base eps;
          (case ep of
             Inl e \<Rightarrow> State_Monad.return (Inl e)
           | Inr i \<Rightarrow> patch_replica sv replica_id (Some ''healthy'') (Some node) (Some i) (Some ''promoted''))
        })
   }"

definition deregister :: "services \<Rightarrow> uuid \<Rightarrow> uuid option \<Rightarrow> unit prov" where
  "deregister sv model_id endpoint_id =
     (case endpoint_id of
        None \<Rightarrow> State_Monad.return ()
      | Some ep \<Rightarrow> do {
          ask (\<lambda>l. sv_delete_endpoint sv l model_id ep) (CallDeleteEndpoint model_id ep);
          State_Monad.return ()
        })"

definition cancel_message :: "cancel_reason \<Rightarrow> string" where
  "cancel_message reason =
     (case reason of
        ScaleDown \<Rightarrow> ''scaled down''
      | OperatorRestart \<Rightarrow> ''restart requested''
      | ProbeFailed \<Rightarrow> ''restarting: failed health probes while job running'')"

definition apply_action ::
  "services \<Rightarrow> action \<Rightarrow> uuid \<Rightarrow> string \<Rightarrow> managed_model_spec option \<Rightarrow> string \<Rightarrow> int \<Rightarrow> int \<Rightarrow> (string + unit) prov" where
  "apply_action sv a model_id model_name spec job_prefix port_span port_base =
     (case a of
        Submit \<Rightarrow> apply_submit sv model_id model_name spec job_prefix port_span port_base
      | Promote replica_id api_base \<Rightarrow> apply_promote sv model_id model_name job_prefix replica_id api_base
      | MarkLost replica_id endpoint_id raw_state reason \<Rightarrow> do {
          deregister sv model_id endpoint_id;
          patch_replica sv replica_id (Some ''lost'') None None (Some (lost_message raw_state reason))
        }
      | Cancel replica_id job_id endpoint_id reason \<Rightarrow> do {
          deregister sv model_id endpoint_id;
          res \<leftarrow> ask (\<lambda>l. sv_cancel sv l job_id) (CallCancel job_id);
          (case res of
             Inl e \<Rightarrow> State_Monad.return (Inl e)
           | Inr _ \<Rightarrow> patch_replica sv replica_id (Some ''draining'') None None (Some (cancel_message reason)))
        }
      | Delete replica_id \<Rightarrow> ask (\<lambda>l. sv_delete_replica sv l replica_id) (CallDeleteReplica replica_id))"

section \<open>The tick\<close>

record provisioner_config =
  pc_warmup_timeout_secs :: nat
  pc_lost_retention_secs :: int
  pc_restart_after_failures :: int
  pc_port_span :: int
  pc_job_name_prefix :: string

primrec lookup_jobs :: "services \<Rightarrow> string list \<Rightarrow> jobs \<Rightarrow> (string + jobs) prov" where
  "lookup_jobs sv [] jobs = State_Monad.return (Inr jobs)"
| "lookup_jobs sv (i # ids) jobs =
     (if i = [] \<or> contains_key jobs i then lookup_jobs sv ids jobs
      else do {
        res \<leftarrow> ask (\<lambda>l. sv_get_job sv l i) (CallGetJob i);
        (case res of
           Inr (Some info) \<Rightarrow> lookup_jobs sv ids (AList.update i info jobs)
         | Inr None \<Rightarrow> lookup_jobs sv ids jobs
         | Inl e \<Rightarrow> State_Monad.return (Inl (''slurm job lookup failed; holding tick: '' @ e)))
      })"

definition all_live_jobs_vanished :: "replica_view list \<Rightarrow> jobs \<Rightarrow> nat option" where
  "all_live_jobs_vanished replicas jobs =
     (let live = remdups (map rv_slurm_job_id (filter (\<lambda>r. rv_state r \<noteq> ''lost'' \<and> rv_state r \<noteq> ''draining''
                    \<and> rv_slurm_job_id r \<noteq> []) replicas))
      in if 2 \<le> length live \<and> list_all (\<lambda>i. \<not> contains_key jobs i) live then Some (length live) else None)"

definition annotate :: "services \<Rightarrow> jobs \<Rightarrow> replica_view \<Rightarrow> unit prov" where
  "annotate sv jobs r =
     (case map_of jobs (rv_slurm_job_id r) of
        None \<Rightarrow> State_Monad.return ()
      | Some job \<Rightarrow>
          if ji_state job = Gone then State_Monad.return ()
          else (let msg = job_status_message (ji_raw_state job) (ji_reason job)
                in if rv_last_message r = Some msg then State_Monad.return ()
                   else do {
                     patch_replica sv (rv_id r) None
                       (if ji_state job = Running \<and> ji_nodes job \<noteq> [] then Some (join '','' (ji_nodes job)) else None)
                       None (Some msg);
                     State_Monad.return ()
                   }))"

definition group_by_model :: "replica_view list \<Rightarrow> (uuid, replica_view list) hmap" where
  "group_by_model replicas =
     fold (\<lambda>r m. AList.update (rv_model_id r) (get_or [] m (rv_model_id r) @ [r]) m) replicas []"

definition window_ports :: "int \<Rightarrow> int \<Rightarrow> int list" where
  "window_ports base width = filter (\<lambda>p. 0 < p \<and> p \<le> 65535) [base .. base + width - 1]"

text \<open>The lowest port of the window that answers its probe.\<close>

primrec probe_ports :: "services \<Rightarrow> string \<Rightarrow> string \<Rightarrow> int list \<Rightarrow> int option prov" where
  "probe_ports sv host path [] = State_Monad.return None"
| "probe_ports sv host path (p # ps) = do {
     let url = ''http://'' @ host @ '':'' @ show_int p;
     ok \<leftarrow> ask (\<lambda>l. sv_probe sv l url path) (CallProbe url path);
     rest \<leftarrow> probe_ports sv host path ps;
     State_Monad.return (if ok then Some (case rest of None \<Rightarrow> p | Some q \<Rightarrow> min p q) else rest)
   }"

definition probe_replica ::
  "services \<Rightarrow> provisioner_config \<Rightarrow> managed_model_spec \<Rightarrow> jobs \<Rightarrow> replica_view \<Rightarrow> health \<Rightarrow> health prov" where
  "probe_replica sv cfg spec jobs r health =
     (if rv_state r \<in> {''starting'', ''pending'', ''healthy''} then
        (case map_of jobs (rv_slurm_job_id r) of
           None \<Rightarrow> State_Monad.return health
         | Some j \<Rightarrow>
             (case (ji_state j, ji_nodes j) of
                (Running, node # _) \<Rightarrow> do {
                  resolved \<leftarrow> resolve sv node;
                  let host = (case resolved of None \<Rightarrow> node | Some h \<Rightarrow> h);
                  found \<leftarrow> probe_ports sv host (sp_health_path spec) (window_ports (rv_port_base r) (pc_port_span cfg));
                  State_Monad.return (case found of
                    None \<Rightarrow> health | Some p \<Rightarrow> AList.update (rv_id r) (word_of_int p) health)
                }
              | _ \<Rightarrow> State_Monad.return health))
      else State_Monad.return health)"

primrec probe_all ::
  "services \<Rightarrow> provisioner_config \<Rightarrow> managed_model_spec \<Rightarrow> jobs \<Rightarrow> replica_view list \<Rightarrow> health \<Rightarrow> health prov" where
  "probe_all sv cfg spec jobs [] health = State_Monad.return health"
| "probe_all sv cfg spec jobs (r # rs) health = do {
     health \<leftarrow> probe_replica sv cfg spec jobs r health;
     probe_all sv cfg spec jobs rs health
   }"

definition warm_up :: "services \<Rightarrow> provisioner_config \<Rightarrow> action \<Rightarrow> unit prov" where
  "warm_up sv cfg a =
     (case a of
        Promote _ api_base \<Rightarrow>
          if 0 < pc_warmup_timeout_secs cfg then do {
            url \<leftarrow> resolve_url_host sv api_base;
            ask (\<lambda>_. ()) (CallWarmUp url)
          }
          else State_Monad.return ()
      | _ \<Rightarrow> State_Monad.return ())"

text \<open>Apply the actions in order; a port window is reserved before each \<open>Submit\<close> is applied.\<close>

primrec apply_actions ::
  "services \<Rightarrow> provisioner_config \<Rightarrow> managed_model_spec \<Rightarrow> string \<Rightarrow> action list \<Rightarrow> int list \<Rightarrow> unit prov" where
  "apply_actions sv cfg spec model_name [] live_port_bases = State_Monad.return ()"
| "apply_actions sv cfg spec model_name (a # as) live_port_bases = do {
     let port_base = (if a = Submit
                      then next_free_window_base (sp_serving_port spec) (pc_port_span cfg) live_port_bases else 0);
     let bases = (if a = Submit then live_port_bases @ [port_base] else live_port_bases);
     res \<leftarrow> apply_action sv a (sp_model_id spec) model_name (Some spec) (pc_job_name_prefix cfg)
             (pc_port_span cfg) port_base;
     (case res of Inl _ \<Rightarrow> State_Monad.return () | Inr _ \<Rightarrow> warm_up sv cfg a);
     apply_actions sv cfg spec model_name as bases
   }"

definition migrate :: "services \<Rightarrow> uuid \<Rightarrow> endpoint_view list \<Rightarrow> replica_view \<Rightarrow> unit prov" where
  "migrate sv model_id eps r =
     (if rv_state r \<noteq> ''healthy'' then State_Monad.return ()
      else case rv_endpoint_id r of
             None \<Rightarrow> State_Monad.return ()
           | Some ep_id \<Rightarrow>
               (case find (\<lambda>e. ev_id e = ep_id) eps of
                  None \<Rightarrow> State_Monad.return ()
                | Some ep \<Rightarrow> do {
                    desired \<leftarrow> resolve_url_host sv (ev_api_base ep);
                    if desired \<noteq> ev_api_base ep then do {
                      ask (\<lambda>l. sv_update_endpoint sv l model_id ep desired) (CallUpdateEndpoint model_id ep desired);
                      State_Monad.return ()
                    }
                    else State_Monad.return ()
                  }))"

definition live_bases :: "replica_view list \<Rightarrow> int list" where
  "live_bases replicas =
     map rv_port_base (filter (\<lambda>r. rv_state r \<noteq> ''lost'' \<and> rv_state r \<noteq> ''draining'') replicas)"

definition reconcile_model ::
  "services \<Rightarrow> provisioner_config \<Rightarrow> jobs \<Rightarrow> managed_model_spec \<Rightarrow> replica_view list \<Rightarrow> (uuid, int) hmap
     \<Rightarrow> (uuid, int) hmap prov" where
  "reconcile_model sv cfg jobs spec replicas probe_failures = do {
     name \<leftarrow> ask (\<lambda>l. sv_model_name sv l (sp_model_id spec)) (CallModelName (sp_model_id spec));
     (case name of
        Inl _ \<Rightarrow> State_Monad.return probe_failures
      | Inr model_name \<Rightarrow>
          if model_name = [] then State_Monad.return probe_failures
          else do {
            health \<leftarrow> probe_all sv cfg spec jobs replicas [];
            let probe_failures = update_probe_failures replicas jobs health probe_failures;
            endpoints \<leftarrow> ask (\<lambda>l. sv_list_endpoints sv l (sp_model_id spec)) (CallListEndpoints (sp_model_id spec));
            let eps = (case endpoints of Inl _ \<Rightarrow> None | Inr es \<Rightarrow> Some es);
            let restart = restart_candidates replicas probe_failures (pc_restart_after_failures cfg)
                            (case eps of None \<Rightarrow> [] | Some es \<Rightarrow> es);
            let replicas = (case eps of None \<Rightarrow> replicas
                            | Some es \<Rightarrow> clear_dangling_endpoints (map ev_id es) replicas);
            let actions = plan \<lparr>mv_target_replicas = sp_target_replicas spec, mv_max_job_failures = sp_max_job_failures spec\<rparr>
                            replicas jobs health restart (pc_lost_retention_secs cfg);
            apply_actions sv cfg spec model_name actions (live_bases replicas);
            (case eps of None \<Rightarrow> State_Monad.return ()
             | Some es \<Rightarrow> for_each replicas (migrate sv (sp_model_id spec) es));
            State_Monad.return probe_failures
          })
   }"

definition drain_model ::
  "services \<Rightarrow> provisioner_config \<Rightarrow> jobs \<Rightarrow> uuid \<times> replica_view list \<Rightarrow> unit prov" where
  "drain_model sv cfg jobs entry =
     (case entry of (model_id, replicas) \<Rightarrow> do {
        name \<leftarrow> ask (\<lambda>l. sv_model_name sv l model_id) (CallModelName model_id);
        let model_name = (case name of Inl _ \<Rightarrow> [] | Inr n \<Rightarrow> n);
        let actions = plan \<lparr>mv_target_replicas = 0, mv_max_job_failures = 0\<rparr> replicas jobs [] []
                        (pc_lost_retention_secs cfg);
        for_each actions (\<lambda>a. do {
          apply_action sv a model_id model_name None (pc_job_name_prefix cfg) (pc_port_span cfg) 0;
          State_Monad.return ()
        })
      })"

primrec reconcile_all ::
  "services \<Rightarrow> provisioner_config \<Rightarrow> jobs \<Rightarrow> managed_model_spec list \<Rightarrow> (uuid, replica_view list) hmap
     \<Rightarrow> (uuid, int) hmap \<Rightarrow> ((uuid, replica_view list) hmap \<times> (uuid, int) hmap) prov" where
  "reconcile_all sv cfg jobs [] by_model probe_failures = State_Monad.return (by_model, probe_failures)"
| "reconcile_all sv cfg jobs (spec # specs) by_model probe_failures = do {
     counts \<leftarrow> reconcile_model sv cfg jobs spec (get_or [] by_model (sp_model_id spec)) probe_failures;
     reconcile_all sv cfg jobs specs (AList.delete (sp_model_id spec) by_model) counts
   }"

text \<open>The part of a tick that acts, once everything it needs is known.\<close>

definition act ::
  "services \<Rightarrow> provisioner_config \<Rightarrow> managed_model_spec list \<Rightarrow> replica_view list \<Rightarrow> jobs \<Rightarrow> (uuid, int) hmap
     \<Rightarrow> ((string + unit) \<times> (uuid, int) hmap) prov" where
  "act sv cfg specs all_replicas jobs probe_failures = do {
     for_each all_replicas (annotate sv jobs);
     (left, counts) \<leftarrow> reconcile_all sv cfg jobs specs (group_by_model all_replicas) probe_failures;
     for_each left (drain_model sv cfg jobs);
     State_Monad.return (Inr (), counts)
   }"

text \<open>
  The rest of a tick once the rows are listed: forget old streaks, look every tracked job up, and act
  unless a look-up failed or every tracked job has vanished.
\<close>

definition tick_rows ::
  "services \<Rightarrow> provisioner_config \<Rightarrow> managed_model_spec list \<Rightarrow> replica_view list \<Rightarrow> (uuid, int) hmap
     \<Rightarrow> ((string + unit) \<times> (uuid, int) hmap) prov" where
  "tick_rows sv cfg specs all_replicas counts = do {
     let probe_failures = retain_streaks all_replicas counts;
     looked \<leftarrow> lookup_jobs sv (map rv_slurm_job_id all_replicas) [];
     (case looked of
        Inl e \<Rightarrow> State_Monad.return (Inl e, probe_failures)
      | Inr jobs \<Rightarrow>
          (case all_live_jobs_vanished all_replicas jobs of
             Some n \<Rightarrow>
               State_Monad.return
                 (Inl (''all '' @ show_nat n @ '' tracked slurm jobs reported not found; holding tick''), probe_failures)
           | None \<Rightarrow> act sv cfg specs all_replicas jobs probe_failures))
   }"

text \<open>One tick: the error that holds it, and the probe counters it leaves.\<close>

definition tick ::
  "services \<Rightarrow> provisioner_config \<Rightarrow> (uuid, int) hmap \<Rightarrow> ((string + unit) \<times> (uuid, int) hmap) prov" where
  "tick sv cfg probe_failures = do {
     managed \<leftarrow> ask (sv_list_managed sv) CallListManaged;
     (case managed of
        Inl e \<Rightarrow> State_Monad.return (Inl e, probe_failures)
      | Inr specs \<Rightarrow> do {
          listed \<leftarrow> ask (sv_list_replicas sv) CallListReplicas;
          (case listed of
             Inl e \<Rightarrow> State_Monad.return (Inl e, probe_failures)
           | Inr all_replicas \<Rightarrow> tick_rows sv cfg specs all_replicas probe_failures)
        })
   }"

text \<open>The operator's host overrides: blank entries dropped, the last of several for a host wins.\<close>

definition node_alias_map :: "slurm_settings \<Rightarrow> (string, string) hmap" where
  "node_alias_map st =
     fold (\<lambda>(host, ip) m. if trim host \<noteq> [] \<and> trim ip \<noteq> [] then AList.update (trim host) (trim ip) m else m)
       (ss_node_aliases st) []"

definition set_aliases :: "(string, string) hmap \<Rightarrow> unit prov" where
  "set_aliases m = State (\<lambda>w. ((), w\<lparr>w_aliases := m\<rparr>))"

datatype tick_outcome = Ran | Idle string

definition run_once ::
  "services \<Rightarrow> provisioner_config \<Rightarrow> (uuid, int) hmap \<Rightarrow> ((string + tick_outcome) \<times> (uuid, int) hmap) prov" where
  "run_once sv cfg probe_failures = do {
     got \<leftarrow> ask (sv_get_slurm_settings sv) CallGetSlurmSettings;
     (case got of
        Inl e \<Rightarrow> State_Monad.return (Inl e, probe_failures)
      | Inr None \<Rightarrow> State_Monad.return (Inr (Idle ''slurm not configured''), probe_failures)
      | Inr (Some st) \<Rightarrow>
          if \<not> ss_enabled st then State_Monad.return (Inr (Idle ''slurm disabled in settings''), probe_failures)
          else if trim (ss_slurmrestd_url st) = [] then
            State_Monad.return (Inr (Idle ''slurm enabled but slurmrestd_url is empty''), probe_failures)
          else do {
            set_aliases (node_alias_map st);
            (res, counts) \<leftarrow> tick sv cfg probe_failures;
            State_Monad.return (case res of Inl e \<Rightarrow> Inl e | Inr _ \<Rightarrow> Inr Ran, counts)
          })
   }"

end
