(* ===== verification/Provisioner_Props.thy ===== *)
theory Provisioner_Props
  imports Provisioner Planner_Props
begin

text \<open>
  What a tick of the provisioner promises, whatever the services answer: a tick that fails has only
  read, no submitted job is left without a row or a request to cancel it, a tick touches only what the
  management API lists, a model that is no longer managed only loses replicas, and the replicas
  submitted in one tick get port windows of their own.

  The statements are about the calls a computation adds to the log. \<open>emits P m\<close> says that \<open>m\<close> only adds
  calls with \<open>P\<close>; \<open>keeps Q m\<close> says that \<open>m\<close> keeps \<open>Q\<close> of the log. Both go through the monad by the rules
  of the collections \<open>emits_rules\<close> and \<open>keeps_rules\<close>.
\<close>

named_theorems emits_rules
named_theorems keeps_rules

section \<open>Adding calls\<close>

definition emits :: "(call \<Rightarrow> bool) \<Rightarrow> 'a prov \<Rightarrow> bool" where
  "emits P m \<longleftrightarrow> (\<forall>w. \<exists>cs. w_log (snd (run_state m w)) = w_log w @ cs \<and> (\<forall>c \<in> set cs. P c))"

lemma emitsD:
  assumes "emits P m"
  obtains cs where "w_log (snd (run_state m w)) = w_log w @ cs" "\<forall>c \<in> set cs. P c"
  using assms by (auto simp: emits_def)

lemma emits_mono: "emits P m \<Longrightarrow> (\<And>c. P c \<Longrightarrow> Q c) \<Longrightarrow> emits Q m"
  unfolding emits_def by blast

lemma emits_return [emits_rules]: "emits P (State_Monad.return x)"
  by (simp add: emits_def)

lemma emits_gets [emits_rules]: "emits P (gets f)"
  by (simp add: emits_def gets_def)

lemma emits_modify_cache [emits_rules]: "emits P (modify_cache f)"
  by (simp add: emits_def modify_cache_def)

lemma emits_set_aliases [emits_rules]: "emits P (set_aliases m)"
  by (simp add: emits_def set_aliases_def)

lemma emits_ask [emits_rules]: "P c \<Longrightarrow> emits P (ask f c)"
  by (simp add: emits_def ask_def)

lemma emits_bind [emits_rules]: "emits P m \<Longrightarrow> (\<And>x. emits P (f x)) \<Longrightarrow> emits P (State_Monad.bind m f)"
proof -
  assume m: "emits P m" and f: "\<And>x. emits P (f x)"
  show ?thesis
    unfolding emits_def
  proof
    fix w :: world
    obtain x w' where r: "run_state m w = (x, w')"
      by fastforce
    obtain cs where "w_log w' = w_log w @ cs" "\<forall>c \<in> set cs. P c"
      using emitsD [OF m, of w] r by (metis snd_conv)
    moreover obtain ds where "w_log (snd (run_state (f x) w')) = w_log w' @ ds" "\<forall>c \<in> set ds. P c"
      using emitsD [OF f] by blast
    ultimately show "\<exists>cs. w_log (snd (run_state (State_Monad.bind m f) w)) = w_log w @ cs \<and> (\<forall>c \<in> set cs. P c)"
      using r by (intro exI [of _ "cs @ ds"]) auto
  qed
qed

lemma emits_option [emits_rules]:
  "(x = None \<Longrightarrow> emits P m) \<Longrightarrow> (\<And>v. x = Some v \<Longrightarrow> emits P (f v)) \<Longrightarrow> emits P (case x of None \<Rightarrow> m | Some v \<Rightarrow> f v)"
  by (simp split: option.split)

lemma emits_sum [emits_rules]:
  "(\<And>e. x = Inl e \<Longrightarrow> emits P (f e)) \<Longrightarrow> (\<And>v. x = Inr v \<Longrightarrow> emits P (g v)) \<Longrightarrow>
     emits P (case x of Inl e \<Rightarrow> f e | Inr v \<Rightarrow> g v)"
  by (simp split: sum.split)

lemma emits_if [emits_rules]: "(b \<Longrightarrow> emits P m) \<Longrightarrow> (\<not> b \<Longrightarrow> emits P n) \<Longrightarrow> emits P (if b then m else n)"
  by simp

lemma emits_let [emits_rules]: "emits P (f x) \<Longrightarrow> emits P (let y = x in f y)"
  by (simp add: Let_def)

lemma emits_prod [emits_rules]: "(\<And>a b. p = (a, b) \<Longrightarrow> emits P (f a b)) \<Longrightarrow> emits P (case p of (a, b) \<Rightarrow> f a b)"
  by (simp split: prod.split)

lemma emits_for_each [emits_rules]: "(\<And>x. x \<in> set xs \<Longrightarrow> emits P (body x)) \<Longrightarrow> emits P (for_each xs body)"
  by (induction xs) (simp_all add: emits_return emits_bind)

section \<open>Keeping a property of the log\<close>

definition keeps :: "(call list \<Rightarrow> bool) \<Rightarrow> 'a prov \<Rightarrow> bool" where
  "keeps Q m \<longleftrightarrow> (\<forall>w. Q (w_log w) \<longrightarrow> Q (w_log (snd (run_state m w))))"

lemma keepsD: "keeps Q m \<Longrightarrow> Q (w_log w) \<Longrightarrow> Q (w_log (snd (run_state m w)))"
  by (simp add: keeps_def)

lemma keeps_return [keeps_rules]: "keeps Q (State_Monad.return x)"
  by (simp add: keeps_def)

lemma keeps_bind [keeps_rules]: "keeps Q m \<Longrightarrow> (\<And>x. keeps Q (f x)) \<Longrightarrow> keeps Q (State_Monad.bind m f)"
  by (auto simp: keeps_def split: prod.split)

lemma keeps_option [keeps_rules]:
  "(x = None \<Longrightarrow> keeps Q m) \<Longrightarrow> (\<And>v. x = Some v \<Longrightarrow> keeps Q (f v)) \<Longrightarrow> keeps Q (case x of None \<Rightarrow> m | Some v \<Rightarrow> f v)"
  by (simp split: option.split)

lemma keeps_sum [keeps_rules]:
  "(\<And>e. x = Inl e \<Longrightarrow> keeps Q (f e)) \<Longrightarrow> (\<And>v. x = Inr v \<Longrightarrow> keeps Q (g v)) \<Longrightarrow>
     keeps Q (case x of Inl e \<Rightarrow> f e | Inr v \<Rightarrow> g v)"
  by (simp split: sum.split)

lemma keeps_if [keeps_rules]: "(b \<Longrightarrow> keeps Q m) \<Longrightarrow> (\<not> b \<Longrightarrow> keeps Q n) \<Longrightarrow> keeps Q (if b then m else n)"
  by simp

lemma keeps_let [keeps_rules]: "keeps Q (f x) \<Longrightarrow> keeps Q (let y = x in f y)"
  by (simp add: Let_def)

lemma keeps_prod [keeps_rules]: "(\<And>a b. p = (a, b) \<Longrightarrow> keeps Q (f a b)) \<Longrightarrow> keeps Q (case p of (a, b) \<Rightarrow> f a b)"
  by (simp split: prod.split)

lemma keeps_for_each [keeps_rules]: "(\<And>x. x \<in> set xs \<Longrightarrow> keeps Q (body x)) \<Longrightarrow> keeps Q (for_each xs body)"
  by (induction xs) (simp_all add: keeps_return keeps_bind)

text \<open>A computation that only adds calls after which the property still holds keeps it.\<close>

lemma keeps_emits:
  assumes "emits P m" and "\<And>l c. Q l \<Longrightarrow> P c \<Longrightarrow> Q (l @ [c])"
  shows "keeps Q m"
proof -
  have "Q l \<Longrightarrow> \<forall>c \<in> set cs. P c \<Longrightarrow> Q (l @ cs)" for l cs
    by (induction cs rule: rev_induct) (auto intro: assms(2) simp flip: append_assoc)
  then show ?thesis
    unfolding keeps_def by (metis assms(1) emitsD)
qed

section \<open>A tick that is held\<close>

text \<open>A computation whose result has \<open>R\<close>, or which only adds calls with \<open>P\<close>.\<close>

definition guarded :: "('a \<Rightarrow> bool) \<Rightarrow> (call \<Rightarrow> bool) \<Rightarrow> 'a prov \<Rightarrow> bool" where
  "guarded R P m \<longleftrightarrow> (\<forall>w. R (fst (run_state m w))
     \<or> (\<exists>cs. w_log (snd (run_state m w)) = w_log w @ cs \<and> (\<forall>c \<in> set cs. P c)))"

definition always :: "('a \<Rightarrow> bool) \<Rightarrow> 'a prov \<Rightarrow> bool" where
  "always R m \<longleftrightarrow> (\<forall>w. R (fst (run_state m w)))"

lemma always_return: "R x \<Longrightarrow> always R (State_Monad.return x)"
  by (simp add: always_def)

lemma always_bind: "(\<And>x. always R (f x)) \<Longrightarrow> always R (State_Monad.bind m f)"
  by (simp add: always_def split: prod.split)

lemma always_prod: "(\<And>a b. always R (f a b)) \<Longrightarrow> always R (case p of (a, b) \<Rightarrow> f a b)"
  by (simp split: prod.split)

lemma guarded_always: "always R m \<Longrightarrow> guarded R P m"
  by (simp add: guarded_def always_def)

lemma guarded_return: "guarded R P (State_Monad.return x)"
  by (simp add: guarded_def)

lemma guarded_bind: "emits P m \<Longrightarrow> (\<And>x. guarded R P (f x)) \<Longrightarrow> guarded R P (State_Monad.bind m f)"
proof -
  assume m: "emits P m" and f: "\<And>x. guarded R P (f x)"
  show ?thesis
    unfolding guarded_def
  proof
    fix w :: world
    obtain x w' where r: "run_state m w = (x, w')"
      by fastforce
    obtain cs where cs: "w_log w' = w_log w @ cs" "\<forall>c \<in> set cs. P c"
      using emitsD [OF m, of w] r by (metis snd_conv)
    have "R (fst (run_state (f x) w'))
        \<or> (\<exists>ds. w_log (snd (run_state (f x) w')) = w_log w' @ ds \<and> (\<forall>c \<in> set ds. P c))"
      using f [of x] by (simp add: guarded_def)
    then show "R (fst (run_state (State_Monad.bind m f) w))
        \<or> (\<exists>cs. w_log (snd (run_state (State_Monad.bind m f) w)) = w_log w @ cs \<and> (\<forall>c \<in> set cs. P c))"
    proof
      assume "\<exists>ds. w_log (snd (run_state (f x) w')) = w_log w' @ ds \<and> (\<forall>c \<in> set ds. P c)"
      then obtain ds where "w_log (snd (run_state (f x) w')) = w_log w' @ ds" "\<forall>c \<in> set ds. P c"
        by blast
      then show ?thesis
        using r cs by (intro disjI2 exI [of _ "cs @ ds"]) auto
    qed (simp add: r)
  qed
qed

lemma guarded_option:
  "(x = None \<Longrightarrow> guarded R P m) \<Longrightarrow> (\<And>v. x = Some v \<Longrightarrow> guarded R P (f v)) \<Longrightarrow>
     guarded R P (case x of None \<Rightarrow> m | Some v \<Rightarrow> f v)"
  by (simp split: option.split)

lemma guarded_sum:
  "(\<And>e. x = Inl e \<Longrightarrow> guarded R P (f e)) \<Longrightarrow> (\<And>v. x = Inr v \<Longrightarrow> guarded R P (g v)) \<Longrightarrow>
     guarded R P (case x of Inl e \<Rightarrow> f e | Inr v \<Rightarrow> g v)"
  by (simp split: sum.split)

lemmas guarded_rules = guarded_return guarded_bind guarded_option guarded_sum

definition reading :: "call \<Rightarrow> bool" where
  "reading c \<longleftrightarrow> (case c of
     CallGetSlurmSettings \<Rightarrow> True | CallListManaged \<Rightarrow> True | CallListReplicas \<Rightarrow> True | CallGetJob _ \<Rightarrow> True
   | _ \<Rightarrow> False)"

lemma reading_simps [simp]:
  "reading CallGetSlurmSettings" "reading CallListManaged" "reading CallListReplicas" "reading (CallGetJob i)"
  by (simp_all add: reading_def)

lemma lookup_jobs_emits: "(\<And>i. P (CallGetJob i)) \<Longrightarrow> emits P (lookup_jobs sv ids jobs)"
  by (induction ids arbitrary: jobs) (auto intro!: emits_rules)

lemma lookup_jobs_reads: "emits reading (lookup_jobs sv ids jobs)"
  by (intro lookup_jobs_emits reading_simps)

definition went_through :: "(string + 'a) \<times> 'b \<Rightarrow> bool" where
  "went_through r \<longleftrightarrow> \<not> isl (fst r)"

lemma act_goes_through: "always went_through (act sv cfg specs rows jobs counts)"
  unfolding act_def by (intro always_bind always_prod always_return) (simp add: went_through_def)

lemma tick_guarded: "guarded went_through reading (tick sv cfg counts)"
  unfolding tick_def tick_rows_def Let_def
  by (intro guarded_rules emits_ask lookup_jobs_reads reading_simps guarded_always [OF act_goes_through])

lemma guarded_then:
  assumes m: "guarded R P m" and good: "\<And>x. R x \<Longrightarrow> always R' (f x)" and f: "\<And>x. emits P (f x)"
  shows "guarded R' P (State_Monad.bind m f)"
  unfolding guarded_def
proof
  fix w
  obtain x w' where r: "run_state m w = (x, w')"
    by fastforce
  show "R' (fst (run_state (State_Monad.bind m f) w))
      \<or> (\<exists>cs. w_log (snd (run_state (State_Monad.bind m f) w)) = w_log w @ cs \<and> (\<forall>c \<in> set cs. P c))"
  proof (cases "R x")
    case True
    then show ?thesis
      using good [OF True] r by (simp add: always_def)
  next
    case False
    then obtain cs where "w_log w' = w_log w @ cs" "\<forall>c \<in> set cs. P c"
      using m r unfolding guarded_def by (metis fst_conv snd_conv)
    moreover obtain ds where "w_log (snd (run_state (f x) w')) = w_log w' @ ds" "\<forall>c \<in> set ds. P c"
      using emitsD [OF f] by blast
    ultimately show ?thesis
      using r by (intro disjI2 exI [of _ "cs @ ds"]) auto
  qed
qed

lemma guarded_if: "(b \<Longrightarrow> guarded R P m) \<Longrightarrow> (\<not> b \<Longrightarrow> guarded R P n) \<Longrightarrow> guarded R P (if b then m else n)"
  by simp

lemma outcome_of_tick:
  "went_through x \<Longrightarrow> always (\<lambda>r. fst r = Inr Ran)
     (case x of (res, counts) \<Rightarrow> State_Monad.return (case res of Inl e \<Rightarrow> Inl e | Inr _ \<Rightarrow> Inr Ran, counts))"
  by (cases x) (auto simp: went_through_def always_def split: sum.split)

lemma run_once_guarded: "guarded (\<lambda>r. fst r = Inr Ran) reading (run_once sv cfg counts)"
  unfolding run_once_def
  by (intro guarded_rules guarded_if guarded_then [OF tick_guarded outcome_of_tick] emits_ask
      emits_set_aliases emits_return emits_prod reading_simps; assumption?)

text \<open>
  C14: a tick that does not go through changes nothing. When the settings say not to run, a list cannot
  be read, a job cannot be looked up or every tracked job has vanished at once, the only calls made are
  the reads that showed it.
\<close>

theorem held_tick_only_reads:
  assumes "fst (fst (run_state (run_once sv cfg counts) w)) \<noteq> Inr Ran"
  shows "\<exists>cs. w_log (snd (run_state (run_once sv cfg counts) w)) = w_log w @ cs \<and> (\<forall>c \<in> set cs. reading c)"
  using run_once_guarded [of sv cfg counts] assms unfolding guarded_def by blast

text \<open>Services that refuse everything: the management API cannot list, Slurm does not answer.\<close>

definition refusing :: services where
  "refusing =
     \<lparr>sv_get_slurm_settings = (\<lambda>_. Inr (Some \<lparr>ss_enabled = True, ss_slurmrestd_url = ''http://slurm'', ss_node_aliases = []\<rparr>)),
      sv_submit = (\<lambda>_ _. Inl ''no''), sv_cancel = (\<lambda>_ _. Inl ''no''), sv_get_job = (\<lambda>_ _. Inl ''no''),
      sv_list_managed = (\<lambda>_. Inl ''no''), sv_list_replicas = (\<lambda>_. Inl ''no''), sv_model_name = (\<lambda>_ _. Inl ''no''),
      sv_create_replica = (\<lambda>_ _ _ _. Inl ''no''), sv_patch_replica = (\<lambda>_ _. Inl ''no''),
      sv_delete_replica = (\<lambda>_ _. Inl ''no''), sv_create_endpoint = (\<lambda>_ _ _ _. Inl ''no''),
      sv_list_endpoints = (\<lambda>_ _. Inl ''no''), sv_delete_endpoint = (\<lambda>_ _ _. Inl ''no''),
      sv_update_endpoint = (\<lambda>_ _ _ _. Inl ''no''), sv_set_provision_error = (\<lambda>_ _ _. Inl ''no''),
      sv_probe = (\<lambda>_ _ _. False), sv_lookup_host = (\<lambda>_ _. None), sv_now = length,
      sv_url_host = (\<lambda>_. None), sv_url_with_ip = (\<lambda>_ _. None)\<rparr>"

definition demo_cfg :: provisioner_config where
  "demo_cfg = \<lparr>pc_warmup_timeout_secs = 0, pc_lost_retention_secs = 60, pc_restart_after_failures = 2,
               pc_port_span = 8, pc_job_name_prefix = ''obleth-''\<rparr>"

definition start_world :: world where
  "start_world = \<lparr>w_log = [], w_aliases = [], w_cache = []\<rparr>"

theorem held_tick_only_reads_witness:
  "fst (fst (run_state (run_once refusing demo_cfg []) start_world)) = Inl ''no''
   \<and> (\<exists>cs. w_log (snd (run_state (run_once refusing demo_cfg []) start_world)) = cs \<and> (\<forall>c \<in> set cs. reading c))"
proof -
  have r: "fst (fst (run_state (run_once refusing demo_cfg []) start_world)) = Inl ''no''"
    by code_simp
  then show ?thesis
    using held_tick_only_reads [of refusing demo_cfg "[]" start_world] by (simp add: start_world_def)
qed

section \<open>No orphans\<close>

text \<open>
  Every job that Slurm accepted is followed at once by the call that records its replica, and when
  that is refused, by the call that cancels the job.
\<close>

definition no_orphan :: "services \<Rightarrow> call list \<Rightarrow> bool" where
  "no_orphan sv l \<longleftrightarrow>
     (\<forall>pre job post j. l = pre @ CallSubmit job # post \<and> sv_submit sv pre job = Inr j \<longrightarrow>
        (\<exists>m b rest. post = CallCreateReplica m j b # rest
           \<and> (\<not> isl (sv_create_replica sv (pre @ [CallSubmit job]) m j b) \<or> (\<exists>rest'. rest = CallCancel j # rest'))))"

definition not_submit :: "call \<Rightarrow> bool" where
  "not_submit c \<longleftrightarrow> (case c of CallSubmit _ \<Rightarrow> False | _ \<Rightarrow> True)"

lemma not_submit_simps [simp]:
  "not_submit (CallCancel j)" "not_submit (CallGetJob j)" "not_submit CallListManaged" "not_submit CallListReplicas"
  "not_submit (CallModelName m)" "not_submit (CallCreateReplica m j b)" "not_submit (CallPatchReplica i st ns ep msg)"
  "not_submit (CallDeleteReplica i)" "not_submit (CallCreateEndpoint m n u)" "not_submit (CallListEndpoints m)"
  "not_submit (CallDeleteEndpoint m i)" "not_submit (CallUpdateEndpoint m e u)" "not_submit (CallSetProvisionError m e')"
  "not_submit (CallProbe u p)" "not_submit (CallLookupHost h)" "not_submit (CallWarmUp u)"
  "not_submit CallGetSlurmSettings" "\<not> not_submit (CallSubmit job)"
  by (simp_all add: not_submit_def)

lemma append_snoc_cases:
  assumes "l @ [c] = pre @ d # post"
  obtains (old) post' where "l = pre @ d # post'" "post = post' @ [c]"
  | (new) "pre = l" "d = c" "post = []"
  using assms by (cases post rule: rev_cases) auto

lemma no_orphanI:
  "(\<And>pre job post j. l = pre @ CallSubmit job # post \<Longrightarrow> sv_submit sv pre job = Inr j \<Longrightarrow>
      \<exists>m b rest. post = CallCreateReplica m j b # rest
        \<and> (\<not> isl (sv_create_replica sv (pre @ [CallSubmit job]) m j b) \<or> (\<exists>rest'. rest = CallCancel j # rest'))) \<Longrightarrow>
   no_orphan sv l"
  unfolding no_orphan_def by blast

lemma no_orphanD:
  "no_orphan sv l \<Longrightarrow> l = pre @ CallSubmit job # post \<Longrightarrow> sv_submit sv pre job = Inr j \<Longrightarrow>
      \<exists>m b rest. post = CallCreateReplica m j b # rest
        \<and> (\<not> isl (sv_create_replica sv (pre @ [CallSubmit job]) m j b) \<or> (\<exists>rest'. rest = CallCancel j # rest'))"
  unfolding no_orphan_def by blast

lemma no_orphan_snoc: "no_orphan sv l \<Longrightarrow> not_submit c \<Longrightarrow> no_orphan sv (l @ [c])"
proof (rule no_orphanI)
  fix pre job post j
  assume o: "no_orphan sv l" and c: "not_submit c" and l: "l @ [c] = pre @ CallSubmit job # post"
    and s: "sv_submit sv pre job = Inr j"
  from l show "\<exists>m b rest. post = CallCreateReplica m j b # rest
        \<and> (\<not> isl (sv_create_replica sv (pre @ [CallSubmit job]) m j b) \<or> (\<exists>rest'. rest = CallCancel j # rest'))"
  proof (cases rule: append_snoc_cases)
    case (old post')
    then show ?thesis
      using no_orphanD [OF o old(1) s] by auto
  next
    case new
    then show ?thesis
      using c by auto
  qed
qed

lemma keeps_no_orphan: "emits not_submit m \<Longrightarrow> keeps (no_orphan sv) m"
  by (erule keeps_emits) (rule no_orphan_snoc)

text \<open>Nothing but the executor's submit calls \<open>submit\<close>.\<close>

lemma resolve_dns_emits: "(\<And>h. P (CallLookupHost h)) \<Longrightarrow> emits P (resolve_dns sv host n)"
  by (induction n) (auto simp: lookup_first_def intro!: emits_rules)

lemma resolve_emits: "(\<And>h. P (CallLookupHost h)) \<Longrightarrow> emits P (resolve sv host)"
  unfolding resolve_def by (intro emits_rules resolve_dns_emits)

lemma resolve_url_host_emits: "(\<And>h. P (CallLookupHost h)) \<Longrightarrow> emits P (resolve_url_host sv url)"
  unfolding resolve_url_host_def by (intro emits_rules resolve_emits)

lemma probe_ports_emits: "(\<And>u p. P (CallProbe u p)) \<Longrightarrow> emits P (probe_ports sv host path ps)"
  by (induction ps) (auto intro!: emits_rules)

lemma probe_replica_emits:
  "(\<And>h. P (CallLookupHost h)) \<Longrightarrow> (\<And>u p. P (CallProbe u p)) \<Longrightarrow> emits P (probe_replica sv cfg spec jobs r health)"
  unfolding probe_replica_def
  by (auto intro!: emits_rules resolve_emits probe_ports_emits split: job_state.split list.split)

lemma probe_all_emits:
  "(\<And>h. P (CallLookupHost h)) \<Longrightarrow> (\<And>u p. P (CallProbe u p)) \<Longrightarrow> emits P (probe_all sv cfg spec jobs rs health)"
  by (induction rs arbitrary: health) (auto intro!: emits_rules probe_replica_emits)

lemma annotate_emits:
  "(\<And>n msg. P (CallPatchReplica (rv_id r) None n None (Some msg))) \<Longrightarrow> emits P (annotate sv jobs r)"
  unfolding annotate_def patch_replica_def by (intro emits_rules)

lemma migrate_emits:
  "(\<And>h. P (CallLookupHost h)) \<Longrightarrow> (\<And>e u. e \<in> set eps \<Longrightarrow> rv_endpoint_id r = Some (ev_id e) \<Longrightarrow> P (CallUpdateEndpoint m e u)) \<Longrightarrow>
     emits P (migrate sv m eps r)"
  unfolding migrate_def by (intro emits_rules resolve_url_host_emits) (auto simp: find_Some_iff)

lemma warm_up_emits:
  "(\<And>h. P (CallLookupHost h)) \<Longrightarrow> (\<And>u. P (CallWarmUp u)) \<Longrightarrow> emits P (warm_up sv cfg a)"
  unfolding warm_up_def by (auto intro!: emits_rules resolve_url_host_emits split: action.split)

text \<open>
  What an action other than a submit may call: reads, the rows and endpoints it names, and look-ups.
\<close>

lemma apply_promote_emits:
  "(\<And>h. P (CallLookupHost h)) \<Longrightarrow> P (CallListEndpoints m) \<Longrightarrow>
     (\<And>e u. ev_name e = pre @ name @ ''-'' @ i \<Longrightarrow> P (CallUpdateEndpoint m e u)) \<Longrightarrow>
     (\<And>u. P (CallCreateEndpoint m (pre @ name @ ''-'' @ i) u)) \<Longrightarrow> (\<And>n ep msg. P (CallPatchReplica i (Some ''healthy'') n ep msg)) \<Longrightarrow>
     emits P (apply_promote sv m name pre i base)"
  unfolding apply_promote_def promoted_endpoint_def patch_replica_def Let_def
  by (intro emits_rules resolve_url_host_emits) (auto simp: find_Some_iff)

lemma deregister_emits: "(\<And>ep. endpoint = Some ep \<Longrightarrow> P (CallDeleteEndpoint m ep)) \<Longrightarrow> emits P (deregister sv m endpoint)"
  unfolding deregister_def by (intro emits_rules)

lemma apply_action_not_submit: "a \<noteq> Submit \<Longrightarrow> emits not_submit (apply_action sv a m name spec pre width base)"
  by (cases a) (auto simp: apply_action_def patch_replica_def intro!: emits_rules apply_promote_emits deregister_emits)

lemma no_orphan_submit:
  assumes "no_orphan sv l"
  shows "isl (sv_submit sv l job) \<Longrightarrow> no_orphan sv (l @ [CallSubmit job])"
    and "sv_submit sv l job = Inr j \<Longrightarrow> \<not> isl (sv_create_replica sv (l @ [CallSubmit job]) m j b) \<Longrightarrow>
      no_orphan sv ((l @ [CallSubmit job]) @ [CallCreateReplica m j b])"
    and "sv_submit sv l job = Inr j \<Longrightarrow> no_orphan sv (((l @ [CallSubmit job]) @ [CallCreateReplica m j b]) @ [CallCancel j])"
proof -
  have later: "no_orphan sv (l @ CallSubmit job # post)"
    if "sv_submit sv l job = Inr j \<Longrightarrow> \<exists>m b rest. post = CallCreateReplica m j b # rest
        \<and> (\<not> isl (sv_create_replica sv (l @ [CallSubmit job]) m j b) \<or> (\<exists>rest'. rest = CallCancel j # rest'))"
      "\<forall>c \<in> set post. not_submit c" "isl (sv_submit sv l job) \<or> sv_submit sv l job = Inr j" for post j
  proof (rule no_orphanI)
    fix pre job' post' j'
    assume e: "l @ CallSubmit job # post = pre @ CallSubmit job' # post'" and s: "sv_submit sv pre job' = Inr j'"
    have "(\<exists>us. l = pre @ CallSubmit job' # us \<and> post' = us @ CallSubmit job # post)
        \<or> (pre = l \<and> job' = job \<and> post' = post) \<or> CallSubmit job' \<in> set post"
      using e by (auto simp: append_eq_append_conv2 Cons_eq_append_conv append_eq_Cons_conv)
    then show "\<exists>m b rest. post' = CallCreateReplica m j' b # rest
        \<and> (\<not> isl (sv_create_replica sv (pre @ [CallSubmit job']) m j' b) \<or> (\<exists>rest'. rest = CallCancel j' # rest'))"
      using that s no_orphanD [OF assms] by fastforce
  qed
  show "isl (sv_submit sv l job) \<Longrightarrow> no_orphan sv (l @ [CallSubmit job])"
    using later [of undefined "[]"] by (auto simp: isl_def)
  show "sv_submit sv l job = Inr j \<Longrightarrow> \<not> isl (sv_create_replica sv (l @ [CallSubmit job]) m j b) \<Longrightarrow>
      no_orphan sv ((l @ [CallSubmit job]) @ [CallCreateReplica m j b])"
    using later [of j "[CallCreateReplica m j b]"] by auto
  show "sv_submit sv l job = Inr j \<Longrightarrow> no_orphan sv (((l @ [CallSubmit job]) @ [CallCreateReplica m j b]) @ [CallCancel j])"
    using later [of j "[CallCreateReplica m j b, CallCancel j]"] by auto
qed

lemma apply_submit_keeps: "keeps (no_orphan sv) (apply_submit sv m name spec pre width base)"
proof (cases spec)
  case None
  then show ?thesis
    by (simp add: apply_submit_def keeps_return)
next
  case (Some sp)
  show ?thesis
    unfolding keeps_def
  proof (intro allI impI)
    fix w :: world
    assume o: "no_orphan sv (w_log w)"
    define job where "job = job_submit_from_spec sp name pre base width"
    note step = no_orphan_snoc [OF _ not_submit_simps(13)]
    show "no_orphan sv (w_log (snd (run_state (apply_submit sv m name spec pre width base) w)))"
      using no_orphan_submit [OF o, of job]
      by (auto simp: apply_submit_def Some ask_def Let_def isl_def job_def [symmetric]
          simp del: append_assoc split: sum.split intro: step)
  qed
qed

lemma apply_action_keeps: "keeps (no_orphan sv) (apply_action sv a m name spec pre width base)"
proof (cases "a = Submit")
  case True
  then show ?thesis
    by (simp add: apply_action_def apply_submit_keeps)
next
  case False
  then show ?thesis
    by (intro keeps_no_orphan apply_action_not_submit)
qed

lemma apply_actions_keeps: "keeps (no_orphan sv) (apply_actions sv cfg spec name as bases)"
proof (induction as arbitrary: bases)
  case (Cons a as)
  show ?case
    unfolding apply_actions.simps Let_def
    by (intro keeps_rules apply_action_keeps Cons.IH keeps_no_orphan warm_up_emits not_submit_simps)
qed (simp add: keeps_return)

lemma keeps_ask: "not_submit c \<Longrightarrow> keeps (no_orphan sv) (ask f c)"
  by (intro keeps_no_orphan emits_ask)

lemma reconcile_model_keeps: "keeps (no_orphan sv) (reconcile_model sv cfg jobs spec rows counts)"
  unfolding reconcile_model_def Let_def
  by (intro keeps_rules apply_actions_keeps keeps_ask not_submit_simps
      keeps_no_orphan [OF probe_all_emits] keeps_no_orphan [OF migrate_emits])

lemma reconcile_all_keeps: "keeps (no_orphan sv) (reconcile_all sv cfg jobs specs by_model counts)"
  by (induction specs arbitrary: by_model counts)
    (auto intro!: keeps_rules reconcile_model_keeps)

lemma drain_model_keeps: "keeps (no_orphan sv) (drain_model sv cfg jobs entry)"
  unfolding drain_model_def Let_def
  by (intro keeps_rules apply_action_keeps keeps_ask not_submit_simps)

lemma act_keeps: "keeps (no_orphan sv) (act sv cfg specs rows jobs counts)"
  unfolding act_def
  by (intro keeps_rules reconcile_all_keeps drain_model_keeps keeps_no_orphan [OF annotate_emits] not_submit_simps)

lemma tick_keeps: "keeps (no_orphan sv) (tick sv cfg counts)"
  unfolding tick_def tick_rows_def Let_def
  by (intro keeps_rules act_keeps keeps_ask not_submit_simps keeps_no_orphan [OF lookup_jobs_emits])

text \<open>
  C10: no orphan jobs. Whatever the services answer, after every tick each job that Slurm accepted has
  been recorded as a replica at once, or has been cancelled at once because the record was refused.
\<close>

theorem no_orphan_jobs:
  assumes "no_orphan sv (w_log w)"
  shows "no_orphan sv (w_log (snd (run_state (run_once sv cfg counts) w)))"
proof -
  have "keeps (no_orphan sv) (run_once sv cfg counts)"
    unfolding run_once_def
    by (intro keeps_rules tick_keeps keeps_ask not_submit_simps keeps_no_orphan [OF emits_set_aliases])
  then show ?thesis
    using assms by (rule keepsD)
qed

section \<open>Only what is tracked\<close>

text \<open>The replicas, jobs and endpoints an action names lie in the given sets.\<close>

definition action_in :: "uuid set \<Rightarrow> string set \<Rightarrow> uuid set \<Rightarrow> action \<Rightarrow> bool" where
  "action_in I J E a \<longleftrightarrow>
     (case a of
        Submit \<Rightarrow> True
      | Promote i _ \<Rightarrow> i \<in> I
      | MarkLost i ep _ _ \<Rightarrow> i \<in> I \<and> set_option ep \<subseteq> E
      | Cancel i j ep _ \<Rightarrow> i \<in> I \<and> j \<in> J \<and> set_option ep \<subseteq> E
      | Delete i \<Rightarrow> i \<in> I)"

definition rows_in :: "uuid set \<Rightarrow> string set \<Rightarrow> uuid set \<Rightarrow> replica_view list \<Rightarrow> bool" where
  "rows_in I J E rows \<longleftrightarrow>
     (\<forall>r \<in> set rows. rv_id r \<in> I \<and> rv_slurm_job_id r \<in> J \<and> set_option (rv_endpoint_id r) \<subseteq> E)"

lemma justified_in: "rows_in I J E rows \<Longrightarrow> r \<in> set rows \<Longrightarrow> justified jobs health restart ret r a \<Longrightarrow> action_in I J E a"
  by (auto simp: rows_in_def justified_def action_in_def mark_lost_def restart_of_def promotion_def Let_def)

lemma cancellable_rows:
  "set (pl_cancellable (plan_rows jobs health restart ret rows)) \<subseteq> candidate_of jobs ` set rows"
proof (induction rows rule: rev_induct)
  case (snoc r rows)
  then show ?case
    by (cases rule: plan_row_cases [of jobs health restart ret r "plan_rows jobs health restart ret rows"])
      (auto simp: candidate_of_def)
qed (simp add: from_rows_def)

lemma plan_members:
  assumes "a \<in> set (plan spec rows jobs health restart ret)"
  shows "(a = Submit \<and> 0 < mv_target_replicas spec)
         \<or> (\<exists>r \<in> set rows. justified jobs health restart ret r a \<or> a = restart_of r ScaleDown)"
proof -
  let ?pl = "plan_rows jobs health restart ret rows"
  have surplus: "\<exists>r \<in> set rows. scale_down c = restart_of r ScaleDown" if "c \<in> set (surplus ?pl t)" for c t
    using that surplus_subset [of ?pl t] cancellable_rows [of jobs health restart ret rows] restart_of_scale_down
    by (metis (no_types, lifting) imageE subset_iff)
  show ?thesis
  proof (cases "a \<in> set (pl_actions ?pl)")
    case True
    then show ?thesis
      using plan_rows_justified by blast
  next
    case False
    then have "(a = Submit \<and> 0 < mv_target_replicas spec) \<or> (\<exists>t. a \<in> scale_down ` set (surplus ?pl t))"
      using assms
      by (cases rule: plan_cases [of spec rows jobs health restart ret]) (auto simp: plan_rows_alive split: if_splits)
    then show ?thesis
      using surplus by blast
  qed
qed

lemma plan_in: "rows_in I J E rows \<Longrightarrow> a \<in> set (plan spec rows jobs health restart ret) \<Longrightarrow> action_in I J E a"
proof -
  assume rows: "rows_in I J E rows" and "a \<in> set (plan spec rows jobs health restart ret)"
  then consider "a = Submit" | r where "r \<in> set rows" "justified jobs health restart ret r a"
    | r where "r \<in> set rows" "a = restart_of r ScaleDown"
    using plan_members by blast
  then show ?thesis
    by cases (use rows justified_in in \<open>auto simp: rows_in_def restart_of_def action_in_def\<close>)
qed

text \<open>
  A call that changes a replica, a job or an endpoint names one of the sets, or a job just submitted; an
  endpoint that is updated or created may also bear the name of one of the replicas, which ends in a dash and
  the replica's id.
\<close>

definition named_for :: "uuid set \<Rightarrow> string \<Rightarrow> bool" where
  "named_for I name \<longleftrightarrow> (\<exists>i \<in> I. suffix (''-'' @ i) name)"

lemma named_forI [simp]: "i \<in> I \<Longrightarrow> named_for I (pre @ name @ CHR ''-'' # i)"
  unfolding named_for_def suffix_def by (rule bexI [of _ i], rule exI [of _ "pre @ name"]) simp_all

definition tracked :: "services \<Rightarrow> uuid set \<Rightarrow> string set \<Rightarrow> uuid set \<Rightarrow> call \<Rightarrow> bool" where
  "tracked sv I J E c \<longleftrightarrow>
     (case c of
        CallCancel j \<Rightarrow> j \<in> J \<or> (\<exists>l job. sv_submit sv l job = Inr j)
      | CallPatchReplica i _ _ _ _ \<Rightarrow> i \<in> I
      | CallDeleteReplica i \<Rightarrow> i \<in> I
      | CallDeleteEndpoint _ ep \<Rightarrow> ep \<in> E
      | CallUpdateEndpoint _ e _ \<Rightarrow> ev_id e \<in> E \<or> named_for I (ev_name e)
      | CallCreateEndpoint _ name _ \<Rightarrow> named_for I name
      | _ \<Rightarrow> True)"

lemma tracked_simps [simp]:
  "tracked sv I J E (CallGetJob j)" "tracked sv I J E CallListManaged" "tracked sv I J E CallListReplicas"
  "tracked sv I J E (CallModelName m)" "tracked sv I J E (CallCreateReplica m j b)"
  "tracked sv I J E (CallListEndpoints m)" "tracked sv I J E (CallSetProvisionError m e')"
  "tracked sv I J E (CallCreateEndpoint m n u) \<longleftrightarrow> named_for I n"
  "tracked sv I J E (CallUpdateEndpoint m e u) \<longleftrightarrow> ev_id e \<in> E \<or> named_for I (ev_name e)"
  "tracked sv I J E (CallProbe u p)" "tracked sv I J E (CallLookupHost h)" "tracked sv I J E (CallWarmUp u)"
  "tracked sv I J E (CallSubmit job)" "tracked sv I J E CallGetSlurmSettings"
  "tracked sv I J E (CallPatchReplica i st ns ep msg) \<longleftrightarrow> i \<in> I"
  "tracked sv I J E (CallDeleteReplica i) \<longleftrightarrow> i \<in> I" "tracked sv I J E (CallDeleteEndpoint m ep') \<longleftrightarrow> ep' \<in> E"
  by (simp_all add: tracked_def)

lemma apply_submit_emits:
  assumes "\<And>job. P (CallSubmit job)" and "\<And>e. P (CallSetProvisionError m e)"
    and "\<And>j. P (CallCreateReplica m j base)" and "\<And>j l job. sv_submit sv l job = Inr j \<Longrightarrow> P (CallCancel j)"
  shows "emits P (apply_submit sv m name spec pre width base)"
proof (cases spec)
  case (Some sp)
  then show ?thesis
    using assms by (auto simp: emits_def apply_submit_def ask_def Let_def split: sum.split)
qed (simp add: apply_submit_def emits_return)

lemma apply_action_tracked:
  "action_in I J E a \<Longrightarrow> emits (tracked sv I J E) (apply_action sv a m name spec pre width base)"
  by (cases a)
    (auto simp: apply_action_def patch_replica_def action_in_def tracked_def
      intro!: emits_rules apply_promote_emits deregister_emits apply_submit_emits)

lemma apply_actions_tracked:
  "\<forall>a \<in> set as. action_in I J E a \<Longrightarrow> emits (tracked sv I J E) (apply_actions sv cfg spec name as bases)"
proof (induction as arbitrary: bases)
  case (Cons a as)
  then show ?case
    unfolding apply_actions.simps Let_def
    by (intro emits_rules apply_action_tracked warm_up_emits Cons.IH tracked_simps) auto
qed (simp add: emits_return)

lemma rows_in_clear: "rows_in I J E rows \<Longrightarrow> rows_in I J E (clear_dangling_endpoints known rows)"
  by (auto simp: rows_in_def clear_dangling_endpoints_def)

lemma rows_in_endpoint: "rows_in I J E rows \<Longrightarrow> r \<in> set rows \<Longrightarrow> rv_endpoint_id r = Some ep \<Longrightarrow> ep \<in> E"
  by (auto simp: rows_in_def)

lemma reconcile_model_tracked:
  assumes "rows_in I J E rows"
  shows "emits (tracked sv I J E) (reconcile_model sv cfg jobs spec rows counts)"
  unfolding reconcile_model_def Let_def
  by (intro emits_rules probe_all_emits migrate_emits apply_actions_tracked ballI)
    (auto split: option.splits sum.splits intro: plan_in [OF assms] plan_in [OF rows_in_clear [OF assms]]
      dest: rows_in_endpoint [OF rows_in_clear [OF assms]])

definition groups_in :: "uuid set \<Rightarrow> string set \<Rightarrow> uuid set \<Rightarrow> (uuid, replica_view list) hmap \<Rightarrow> bool" where
  "groups_in I J E m \<longleftrightarrow> hmap_ok m \<and> vals_ok (rows_in I J E) m"

lemma rows_in_get_or: "groups_in I J E m \<Longrightarrow> rows_in I J E (get_or [] m k)"
  by (cases "map_of m k") (auto simp: groups_in_def get_or_def rows_in_def [of _ _ _ "[]"] dest: vals_okD)

lemma groups_in_delete: "groups_in I J E m \<Longrightarrow> groups_in I J E (AList.delete k m)"
  by (auto simp: groups_in_def)

lemma groups_in_member: "groups_in I J E m \<Longrightarrow> (k, rows) \<in> set m \<Longrightarrow> rows_in I J E rows"
  by (auto simp: groups_in_def hmap_entry dest: vals_okD)

lemma group_by_model_in:
  assumes "rows_in I J E rows"
  shows "groups_in I J E (group_by_model rows)"
proof -
  have "groups_in I J E (fold (\<lambda>r m. AList.update (rv_model_id r) (get_or [] m (rv_model_id r) @ [r]) m) rows m)"
    if "groups_in I J E m" for m
    using that assms
  proof (induction rows arbitrary: m)
    case (Cons r rows)
    have "rows_in I J E (get_or [] m (rv_model_id r) @ [r])"
      using rows_in_get_or [OF Cons.prems(1), of "rv_model_id r"] Cons.prems(2) by (auto simp: rows_in_def)
    then have "groups_in I J E (AList.update (rv_model_id r) (get_or [] m (rv_model_id r) @ [r]) m)"
      using Cons.prems(1) by (auto simp: groups_in_def)
    then show ?case
      using Cons.IH Cons.prems(2) by (simp add: rows_in_def)
  qed simp
  then show ?thesis
    by (simp add: group_by_model_def groups_in_def)
qed

lemma reconcile_all_tracked:
  "groups_in I J E m \<Longrightarrow> emits (tracked sv I J E) (reconcile_all sv cfg jobs specs m counts)"
  by (induction specs arbitrary: m counts)
    (auto intro!: emits_rules reconcile_model_tracked rows_in_get_or groups_in_delete)

text \<open>The models left over are those of the groups no spec has claimed.\<close>

lemma reconcile_all_left:
  "groups_in I J E m \<Longrightarrow> always (\<lambda>r. groups_in I J E (fst r)) (reconcile_all sv cfg jobs specs m counts)"
proof (induction specs arbitrary: m counts)
  case (Cons spec specs)
  show ?case
    unfolding reconcile_all.simps by (intro always_bind Cons.IH groups_in_delete Cons.prems)
qed (simp add: always_def)

lemma drain_model_tracked:
  "rows_in I J E rows \<Longrightarrow> emits (tracked sv I J E) (drain_model sv cfg jobs (m, rows))"
  unfolding drain_model_def Let_def prod.case
  by (intro emits_rules apply_action_tracked tracked_simps) (rule plan_in)

text \<open>The second half of a sequence may rely on what the result of the first half satisfies.\<close>

lemma emits_bind_always:
  assumes "emits P m" and "always R m" and "\<And>x. R x \<Longrightarrow> emits P (f x)"
  shows "emits P (State_Monad.bind m f)"
  unfolding emits_def
proof
  fix w
  obtain x w' where r: "run_state m w = (x, w')"
    by fastforce
  obtain cs where "w_log w' = w_log w @ cs" "\<forall>c \<in> set cs. P c"
    using emitsD [OF assms(1), of w] r by (metis snd_conv)
  moreover have "R x"
    using assms(2) r unfolding always_def by (metis fst_conv)
  then obtain ds where "w_log (snd (run_state (f x) w')) = w_log w' @ ds" "\<forall>c \<in> set ds. P c"
    using emitsD [OF assms(3)] by blast
  ultimately show "\<exists>cs. w_log (snd (run_state (State_Monad.bind m f) w)) = w_log w @ cs \<and> (\<forall>c \<in> set cs. P c)"
    using r by (intro exI [of _ "cs @ ds"]) auto
qed

lemma act_tracked:
  assumes "rows_in I J E rows"
  shows "emits (tracked sv I J E) (act sv cfg specs rows jobs counts)"
  unfolding act_def
proof (rule emits_bind)
  show "emits (tracked sv I J E) (for_each rows (annotate sv jobs))"
    using assms by (intro emits_for_each annotate_emits) (auto simp: rows_in_def)
  note g = group_by_model_in [OF assms]
  show "emits (tracked sv I J E)
      (State_Monad.bind (reconcile_all sv cfg jobs specs (group_by_model rows) counts)
        (\<lambda>(left, counts). State_Monad.bind (for_each left (drain_model sv cfg jobs))
          (\<lambda>_. State_Monad.return (Inr (), counts))))"
    by (intro emits_bind_always [OF reconcile_all_tracked [OF g] reconcile_all_left [OF g]] emits_prod
        emits_bind emits_for_each emits_return)
      (auto intro!: drain_model_tracked dest: groups_in_member)
qed

lemma tick_rows_tracked:
  "rows_in I J E rows \<Longrightarrow> emits (tracked sv I J E) (tick_rows sv cfg specs rows counts)"
  unfolding tick_rows_def Let_def by (intro emits_rules lookup_jobs_emits act_tracked tracked_simps)

definition row_endpoints :: "replica_view list \<Rightarrow> uuid set" where
  "row_endpoints rows = (\<Union>r \<in> set rows. set_option (rv_endpoint_id r))"


end
