(* ===== verification/Provisioner_Runs.thy ===== *)
theory Provisioner_Runs
  imports Provisioner_Props
begin

text \<open>
  More of what a tick promises: a model that has left the managed set only loses replicas, the replicas
  submitted for one model in one tick get port windows of their own, and name resolution fails only
  when nothing is known of a host. The last section runs a tick against concrete services.
\<close>

section \<open>Models that are no longer managed\<close>

definition creating :: "call \<Rightarrow> bool" where
  "creating c \<longleftrightarrow> (case c of
     CallSubmit _ \<Rightarrow> True | CallCreateReplica _ _ _ \<Rightarrow> True | CallCreateEndpoint _ _ _ \<Rightarrow> True
   | CallUpdateEndpoint _ _ _ \<Rightarrow> True | CallWarmUp _ \<Rightarrow> True | _ \<Rightarrow> False)"

definition draining_action :: "action \<Rightarrow> bool" where
  "draining_action a \<longleftrightarrow> (case a of Submit \<Rightarrow> False | Promote _ _ \<Rightarrow> False | _ \<Rightarrow> True)"

lemma drain_plan:
  "a \<in> set (plan \<lparr>mv_target_replicas = 0, mv_max_job_failures = 0\<rparr> rows jobs [] [] ret) \<Longrightarrow> draining_action a"
  by (drule plan_members)
    (auto simp: draining_action_def justified_def promotable_def contains_key_def mark_lost_def restart_of_def Let_def)

lemma draining_action_emits:
  "draining_action a \<Longrightarrow> emits (\<lambda>c. \<not> creating c) (apply_action sv a m name spec pre width base)"
  by (cases a)
    (auto simp: apply_action_def patch_replica_def draining_action_def creating_def
      intro!: emits_rules deregister_emits)

text \<open>
  a model that has left the managed set is only torn down. Draining it submits no job, records no
  replica and registers no endpoint, and every replica whose job is queued or running is cancelled.
\<close>

theorem drain_only_tears_down:
  "(\<exists>cs. w_log (snd (run_state (drain_model sv cfg jobs (m, rows)) w)) = w_log w @ cs \<and> (\<forall>c \<in> set cs. \<not> creating c))
   \<and> (distinct (map rv_id rows) \<longrightarrow>
        kept jobs (plan \<lparr>mv_target_replicas = 0, mv_max_job_failures = 0\<rparr> rows jobs [] []
          (pc_lost_retention_secs cfg)) rows = [])"
proof
  have "emits (\<lambda>c. \<not> creating c) (drain_model sv cfg jobs (m, rows))"
    unfolding drain_model_def Let_def prod.case
    by (intro emits_rules draining_action_emits) (auto simp: creating_def dest: drain_plan)
  then show "\<exists>cs. w_log (snd (run_state (drain_model sv cfg jobs (m, rows)) w)) = w_log w @ cs \<and> (\<forall>c \<in> set cs. \<not> creating c)"
    by (metis emitsD)
  show "distinct (map rv_id rows) \<longrightarrow>
      kept jobs (plan \<lparr>mv_target_replicas = 0, mv_max_job_failures = 0\<rparr> rows jobs [] []
        (pc_lost_retention_secs cfg)) rows = []"
    using plan_reaches_zero by blast
qed

section \<open>Port windows of one tick\<close>

text \<open>The port bases of the replicas that a list of calls records.\<close>

definition recorded_base :: "call \<Rightarrow> int list" where
  "recorded_base c = (case c of CallCreateReplica _ _ b \<Rightarrow> [b] | _ \<Rightarrow> [])"

definition recorded_bases :: "call list \<Rightarrow> int list" where
  "recorded_bases cs = concat (map recorded_base cs)"

definition records :: "int set \<Rightarrow> 'a prov \<Rightarrow> bool" where
  "records B m \<longleftrightarrow> (\<forall>w. \<exists>cs. w_log (snd (run_state m w)) = w_log w @ cs
     \<and> distinct (recorded_bases cs) \<and> set (recorded_bases cs) \<subseteq> B)"

lemma recorded_bases_simps [simp]:
  "recorded_bases [] = []" "recorded_bases (c # cs) = recorded_base c @ recorded_bases cs"
  "recorded_bases (cs @ ds) = recorded_bases cs @ recorded_bases ds"
  by (simp_all add: recorded_bases_def)

lemma recorded_base_simps [simp]:
  "recorded_base (CallSubmit job) = []" "recorded_base (CallSetProvisionError m e) = []"
  "recorded_base (CallCancel j) = []" "recorded_base (CallCreateReplica m j b) = [b]"
  by (simp_all add: recorded_base_def)

lemma records_none: "emits (\<lambda>c. recorded_base c = []) m \<Longrightarrow> records {} m"
proof -
  assume m: "emits (\<lambda>c. recorded_base c = []) m"
  have "recorded_bases cs = []" if "\<forall>c \<in> set cs. recorded_base c = []" for cs
    using that by (simp add: recorded_bases_def)
  then show ?thesis
    unfolding records_def by (metis distinct.simps(1) emitsD [OF m] empty_set order_refl)
qed

lemma records_mono: "records B m \<Longrightarrow> B \<subseteq> C \<Longrightarrow> records C m"
  unfolding records_def by (meson order_trans)

lemma records_bind:
  assumes "records B m" and "\<And>x. records C (f x)" and "B \<inter> C = {}"
  shows "records (B \<union> C) (State_Monad.bind m f)"
  unfolding records_def
proof
  fix w
  obtain x w' where r: "run_state m w = (x, w')"
    by fastforce
  obtain cs where "w_log w' = w_log w @ cs" "distinct (recorded_bases cs)" "set (recorded_bases cs) \<subseteq> B"
    using assms(1) r unfolding records_def by (metis snd_conv)
  moreover obtain ds where "w_log (snd (run_state (f x) w')) = w_log w' @ ds" "distinct (recorded_bases ds)"
    "set (recorded_bases ds) \<subseteq> C"
    using assms(2) unfolding records_def by blast
  ultimately show "\<exists>cs. w_log (snd (run_state (State_Monad.bind m f) w)) = w_log w @ cs
      \<and> distinct (recorded_bases cs) \<and> set (recorded_bases cs) \<subseteq> B \<union> C"
    using r assms(3) by (intro exI [of _ "cs @ ds"]) auto
qed

lemma records_then: "records {} m \<Longrightarrow> (\<And>x. records C (f x)) \<Longrightarrow> records C (State_Monad.bind m f)"
  using records_bind [of "{}" m C f] by simp

lemma records_before: "records C m \<Longrightarrow> (\<And>x. records {} (f x)) \<Longrightarrow> records C (State_Monad.bind m f)"
  using records_bind [of C m "{}" f] by simp

lemma records_return: "records C (State_Monad.return x)"
  by (simp add: records_def)

lemma records_sum:
  "(\<And>e. x = Inl e \<Longrightarrow> records C (f e)) \<Longrightarrow> (\<And>v. x = Inr v \<Longrightarrow> records C (g v)) \<Longrightarrow>
     records C (case x of Inl e \<Rightarrow> f e | Inr v \<Rightarrow> g v)"
  by (simp split: sum.split)

lemma records_if: "(b \<Longrightarrow> records C m) \<Longrightarrow> (\<not> b \<Longrightarrow> records C n) \<Longrightarrow> records C (if b then m else n)"
  by simp

lemma apply_submit_records: "records {base} (apply_submit sv m name spec pre width base)"
  by (cases spec) (auto simp: records_def apply_submit_def ask_def Let_def split: sum.split)

lemma apply_action_records:
  "records (if a = Submit then {base} else {}) (apply_action sv a m name spec pre width base)"
proof (cases "a = Submit")
  case True
  then show ?thesis
    by (simp add: apply_action_def apply_submit_records)
next
  case False
  then have "emits (\<lambda>c. recorded_base c = []) (apply_action sv a m name spec pre width base)"
    by (cases a)
      (auto simp: apply_action_def patch_replica_def recorded_base_def
        intro!: emits_rules apply_promote_emits deregister_emits)
  then show ?thesis
    using False by (simp add: records_none)
qed

lemma apply_actions_records: "records (- set bases) (apply_actions sv cfg spec name as bases)"
proof (induction as arbitrary: bases)
  case Nil
  show ?case
    by (rule records_mono [OF records_none]) (simp_all add: emits_return)
next
  case (Cons a as)
  let ?b = "if a = Submit then next_free_window_base (sp_serving_port spec) (pc_port_span cfg) bases else 0"
  let ?B = "if a = Submit then {?b} else {}" and ?bs = "if a = Submit then bases @ [?b] else bases"
  have "records {} (case res of Inl _ \<Rightarrow> State_Monad.return () | Inr _ \<Rightarrow> warm_up sv cfg a)" for res :: "string + unit"
    by (intro records_none emits_rules warm_up_emits) (simp_all add: recorded_base_def)
  then have "records (?B \<union> - set ?bs) (apply_actions sv cfg spec name (a # as) bases)"
    unfolding apply_actions.simps Let_def
    by (intro records_bind apply_action_records records_then Cons.IH) auto
  moreover have "?b \<notin> set bases" if "a = Submit"
    using that by (simp add: next_free_window_base_def window_from_free)
  ultimately show ?case
    by (elim records_mono) auto
qed

text \<open>
  C34: port windows. The replicas that one pass over a model records have port bases that differ from
  each other and from those of the model's replicas that are neither lost nor draining.
\<close>

theorem new_replicas_get_own_windows:
  "\<exists>cs. w_log (snd (run_state (reconcile_model sv cfg jobs spec rows counts) w)) = w_log w @ cs
     \<and> distinct (recorded_bases cs) \<and> set (recorded_bases cs) \<inter> set (live_bases rows) = {}"
proof -
  have clear: "live_bases (clear_dangling_endpoints known rows) = live_bases rows" for known
    by (simp add: live_bases_def clear_dangling_endpoints_def filter_map comp_def if_distrib cong: if_cong)
      (auto intro!: map_cong filter_cong)
  have none: "recorded_base (CallModelName m) = []" "recorded_base (CallListEndpoints m) = []"
    "recorded_base (CallLookupHost h) = []" "recorded_base (CallProbe u p) = []"
    "recorded_base (CallUpdateEndpoint m e u) = []" for m h u p e
    by (simp_all add: recorded_base_def)
  have acts: "records (- set (live_bases rows)) (apply_actions sv cfg spec name as
      (live_bases (case eps of None \<Rightarrow> rows | Some es \<Rightarrow> clear_dangling_endpoints (map ev_id es) rows)))" for name as eps
    using apply_actions_records [of "live_bases rows" sv cfg spec name as] by (cases eps) (simp_all add: clear)
  have "records (- set (live_bases rows)) (reconcile_model sv cfg jobs spec rows counts)"
    unfolding reconcile_model_def Let_def
    by (intro records_then records_sum records_if records_return records_before [OF acts] records_none
        emits_rules probe_all_emits migrate_emits none)
  then show ?thesis
    unfolding records_def by (metis (no_types, lifting) Int_commute disjoint_eq_subset_Compl)
qed

section \<open>Name resolution\<close>

lemma lookup_first_run:
  "run_state (lookup_first sv host) w = (r, w') \<Longrightarrow> w' = w\<lparr>w_log := w_log w @ [CallLookupHost host]\<rparr>"
  by (simp add: lookup_first_def ask_def)

lemma resolve_dns_none:
  "fst (run_state (resolve_dns sv host n) w) = None \<Longrightarrow>
     map_of (w_cache w) host = None
     \<and> snd (run_state (resolve_dns sv host n) w) = w\<lparr>w_log := w_log w @ replicate n (CallLookupHost host)\<rparr>"
proof (induction n arbitrary: w)
  case 0
  then show ?case
    by (simp add: gets_def)
next
  case (Suc n)
  obtain r w' where r: "run_state (lookup_first sv host) w = (r, w')"
    by fastforce
  have w': "w' = w\<lparr>w_log := w_log w @ [CallLookupHost host]\<rparr>"
    using lookup_first_run [OF r] .
  show ?case
  proof (cases r)
    case None
    then show ?thesis
      using Suc.IH [of w'] Suc.prems r by (simp add: w')
  next
    case (Some ip)
    then show ?thesis
      using Suc.prems r by (simp add: gets_def modify_cache_def)
  qed
qed

text \<open>
  a host stays unresolved only when nothing is known of it: it is blank, or it has no override, is
  no address, has never been resolved before, and as many look-ups as allowed have just failed.
\<close>

theorem resolve_fails_only_when_unknown:
  assumes "fst (run_state (resolve sv host) w) = None"
  shows "trim host = []
         \<or> (map_of (w_aliases w) (trim host) = None \<and> \<not> is_ip (trim host) \<and> map_of (w_cache w) (trim host) = None
            \<and> w_log (snd (run_state (resolve sv host) w)) =
                w_log w @ replicate RESOLVE_ATTEMPTS (CallLookupHost (trim host)))"
proof (cases "trim host = []")
  case False
  then have "map_of (w_aliases w) (trim host) = None" "\<not> is_ip (trim host)" "fresh_entry sv (trim host) w = None"
    "run_state (resolve sv host) w = run_state (resolve_dns sv (trim host) RESOLVE_ATTEMPTS) w"
    using assms by (auto simp: resolve_def Let_def gets_def split: option.splits if_splits)
  then show ?thesis
    using resolve_dns_none [of sv "trim host" RESOLVE_ATTEMPTS w] assms by simp
qed simp

theorem resolve_fails_only_when_unknown_witness:
  "fst (run_state (resolve refusing ''node1'') start_world) = None
   \<and> map_of (w_cache start_world) (trim ''node1'') = None"
proof -
  have t: "trim ''node1'' = ''node1''"
    by (rule trim_printing) (simp_all add: printing_def)
  have "\<not> is_ip ''node1''"
    by (simp add: is_ip_def parse_ip_def read_ipv4_def read_separator_def read_octet_def read_number_def
        digit_value_def read_ipv6_def read_groups.simps [of 8 0] read_group_def hex_value_def read_char_def)
  then have "fst (run_state (resolve refusing ''node1'') start_world) = None"
    by (simp add: resolve_def Let_def t gets_def start_world_def fresh_entry_def RESOLVE_ATTEMPTS_def numeral_3_eq_3
        lookup_first_def ask_def refusing_def)
  moreover have "trim ''node1'' \<noteq> []"
    by (simp add: t)
  ultimately show ?thesis
    using resolve_fails_only_when_unknown [of refusing "''node1''" start_world] by blast
qed

section \<open>A concrete tick\<close>

text \<open>
  One managed model with a target of one and no replicas; Slurm accepts the job and the record of its
  replica is refused.
\<close>

definition demo_model :: managed_model_spec where
  "demo_model =
     \<lparr>sp_model_id = ''m'', sp_enabled = True, sp_partition = ''gpu'', sp_gres = '''', sp_nodes = 1, sp_constraints = None,
      sp_exclude = None, sp_account = None, sp_qos = None, sp_time_limit = None, sp_cpus_per_task = None, sp_mem = None,
      sp_image = '''', sp_preamble = '''', sp_log_output_dir = '''', sp_launch_command = ''run'', sp_script_body = '''',
      sp_serving_port = 80, sp_health_path = ''/h'', sp_target_replicas = 1, sp_min_replicas = 1, sp_max_job_failures = 0\<rparr>"

definition accepting :: services where
  "accepting = refusing\<lparr>sv_list_managed := (\<lambda>_. Inr [demo_model]), sv_list_replicas := (\<lambda>_. Inr []),
     sv_model_name := (\<lambda>_ _. Inr ''llm''), sv_submit := (\<lambda>_ _. Inr ''17'')\<rparr>"

theorem no_orphan_jobs_witness:
  "no_orphan accepting (w_log (snd (run_state (run_once accepting demo_cfg []) start_world)))
   \<and> CallCancel ''17'' \<in> set (w_log (snd (run_state (run_once accepting demo_cfg []) start_world)))"
proof -
  have "no_orphan accepting (w_log start_world)"
    by (simp add: no_orphan_def start_world_def)
  moreover have "CallCancel ''17'' \<in> set (w_log (snd (run_state (run_once accepting demo_cfg []) start_world)))"
    by code_simp
  ultimately show ?thesis
    using no_orphan_jobs [of accepting start_world demo_cfg "[]"] by blast
qed


theorem drain_only_tears_down_witness:
  "distinct (map rv_id demo_rows)
   \<and> kept demo_jobs (plan \<lparr>mv_target_replicas = 0, mv_max_job_failures = 0\<rparr> demo_rows demo_jobs [] []
        (pc_lost_retention_secs demo_cfg)) demo_rows = []"
  using drain_only_tears_down [of accepting demo_cfg demo_jobs "''m''" demo_rows start_world] demo_rows_distinct
  by blast

end
