(* ===== verification/Slot_Holds.thy ===== *)
theory Slot_Holds
  imports Slot_Ledger
begin

text \<open>
  The in-process slot backend seen through its readings: \<open>obs\<close> is everything a caller can read of it, and
  \<open>ledger_inv\<close> extends \<open>ms_ok\<close> by what ties the held slots to their sessions: a slot is held under an id
  exactly when the id's owner has counts, only count fields are ever held, and runs are kept for remembered
  sessions only. Every operation keeps it. Used to compare the Redis scripts with this backend.
\<close>

definition count_field :: "string \<Rightarrow> bool" where
  "count_field f \<longleftrightarrow> f = ''g'' \<or> take 2 f \<in> {''p|'', ''t|'', ''k|'', ''h|''}"

definition ledger_inv :: "mem_state \<Rightarrow> bool" where
  "ledger_inv s \<longleftrightarrow> ms_ok s \<and> hmap_ok (ms_holds s) \<and> hmap_ok (ms_recent s) \<and> hmap_ok (ms_chain s) \<and> \<not> ms_failing s \<and>
     (\<forall>o' f. 0 < mine o' f s \<longrightarrow> count_field f) \<and>
     (\<forall>i. contains_key (ms_holds s) i \<longleftrightarrow> (\<exists>f. 0 < mine (hold_owner i) f s)) \<and>
     (\<forall>i. contains_key (ms_chain s) i \<longrightarrow> contains_key (ms_recent s) i)"

text \<open>What can be read of the backend's session and mark tables, and who is live.\<close>

definition tables :: "mem_state \<Rightarrow>
  (string \<rightharpoonup> instant) \<times> (string \<Rightarrow> nat) \<times> (string \<rightharpoonup> instant) \<times> (string \<rightharpoonup> instant) \<times> string set" where
  "tables s = (map_of (ms_recent s), get_or 0 (ms_chain s), map_of (ms_waiting s), map_of (ms_starving s), set (ms_live s))"

definition obs :: "mem_state \<Rightarrow> (string \<Rightarrow> nat) \<times> (string \<Rightarrow> string \<Rightarrow> nat) \<times> (string \<rightharpoonup> instant) \<times>
  (string \<rightharpoonup> instant) \<times> (string \<Rightarrow> nat) \<times> (string \<rightharpoonup> instant) \<times> (string \<rightharpoonup> instant) \<times> string set" where
  "obs s = (ms_count s, (\<lambda>o' f. mine o' f s), map_of (ms_holds s), tables s)"

lemma count_field_simps [simp]:
  "count_field ''g''" "count_field GLOBAL_FIELD" "count_field (pool_field p)" "count_field (tenant_field p t)"
  "count_field (key_field p k)" "count_field (held_field p)"
  "\<not> count_field (''w|'' @ p)" "\<not> count_field ''w''" "\<not> count_field (''wa|'' @ p)"
  by (simp_all add: count_field_def GLOBAL_FIELD_def pool_field_def tenant_field_def key_field_def held_field_def)

lemma count_field_w [simp]: "\<not> count_field (CHR ''w'' # x)"
  by (simp add: count_field_def)

lemma starts_with_iff: "starts_with pre x \<longleftrightarrow> (\<exists>y. x = pre @ y)"
  unfolding starts_with_def by (metis append_eq_conv_conj append_take_drop_id)

lemma claim_fields_count: "f \<in> set (claim_fields p t k) \<Longrightarrow> count_field f"
  by (auto simp: claim_fields_def)

lemma hold_owner_inj [simp]: "hold_owner i = hold_owner j \<longleftrightarrow> i = j"
  by (simp add: hold_owner_def)

section \<open>Totals follow from the holdings\<close>

lemma msum_as_sum:
  "hmap_ok m \<Longrightarrow> f d = 0 \<Longrightarrow> finite A \<Longrightarrow> fst ` set m \<subseteq> A \<Longrightarrow> msum f m = (\<Sum>k \<in> A. f (get_or d m k))"
proof (induction m)
  case (Cons e m)
  obtain k v where e: "e = (k, v)" by (cases e)
  have k: "map_of m k = None" "k \<in> A" using Cons.prems by (auto simp: hmap_ok_def e map_of_eq_None_iff)
  have "(\<Sum>j \<in> A. f (get_or d (e # m) j)) = (\<Sum>j \<in> A. f (get_or d m j) + (if j = k then f v else 0))"
    using k Cons.prems(2) by (intro sum.cong) (auto simp: e get_or_Cons get_or_None)
  also have "\<dots> = (\<Sum>j \<in> A. f (get_or d m j)) + f v" using k Cons.prems(3) by (simp add: sum.distrib)
  finally show ?case using Cons by (simp add: hmap_ok_def e)
qed simp

lemma count_from_mine:
  assumes "ms_ok s" and "ms_ok s'" and "\<And>o'. mine o' f s = mine o' f s'"
  shows "ms_count s f = ms_count s' f"
proof -
  let ?A = "fst ` set (ms_held s) \<union> fst ` set (ms_held s')"
  have "ms_count t f = (\<Sum>o' \<in> ?A. mine o' f t)" if "ms_ok t" "t \<in> {s, s'}" for t
    using that msum_as_sum [where m = "ms_held t" and A = ?A and d = "[]" and f = "\<lambda>h. get_or 0 h f"]
    by (auto simp: ms_ok_def mine_eq)
  then show ?thesis using assms by simp
qed

section \<open>Reading the backend after each step\<close>

lemma tables_frame [simp]:
  "tables (ms_add o' f d s) = tables s" "tables (s\<lparr>ms_holds := h\<rparr>) = tables s"
  by (simp_all add: tables_def ms_add_def)

lemma reclaim_frame: "reclaim o' s = (s', w) \<Longrightarrow> tables s' = tables s \<and>
  ms_recent s' = ms_recent s \<and> ms_chain s' = ms_chain s \<and> ms_waiting s' = ms_waiting s \<and> ms_starving s' = ms_starving s"
  by (auto simp: reclaim_def tables_def split: option.splits)

lemma free_holds_reads:
  assumes "ms_ok s" and "free_holds ids s = (s', w)"
  shows "ms_ok s' \<and> mine o' f s' = (if o' \<in> hold_owner ` set ids then 0 else mine o' f s) \<and>
    map_of (ms_holds s') i = (if i \<in> set ids then None else map_of (ms_holds s) i) \<and>
    (hmap_ok (ms_holds s) \<longrightarrow> hmap_ok (ms_holds s')) \<and> tables s' = tables s \<and> ms_failing s' = ms_failing s \<and>
    ms_recent s' = ms_recent s \<and> ms_chain s' = ms_chain s \<and> ms_live s' = ms_live s"
  using assms
proof (induction ids arbitrary: s w)
  case (Cons j ids)
  let ?s = "s\<lparr>ms_holds := AList.delete j (ms_holds s)\<rparr>"
  have ok: "ms_ok ?s" using Cons.prems(1) ms_ok_cong [of ?s s] by simp
  obtain s1 w1 where r: "reclaim (hold_owner j) ?s = (s1, w1)" by fastforce
  obtain w2 where f: "free_holds ids s1 = (s', w2)" using Cons.prems(2) r by (auto split: prod.splits)
  note R = reclaim_correct [OF ok r] and F = reclaim_frame [OF r]
  have "mine o' f ?s = mine o' f s" by (simp add: mine_def)
  then show ?case using Cons.IH [OF R(1) f] R(3) [of o' f] R(4,5,6) F by auto
qed simp

lemma mine_take_step:
  assumes "src \<noteq> dst"
  shows "mine o' g (take_step src dst (f, n) s) =
    (if g \<noteq> f then mine o' g s
     else if o' = src then mine src f s - n
     else if o' = dst \<and> \<not> starts_with ''h|'' f then mine dst f s + n else mine o' g s)"
  using assms by (simp add: take_step_def Let_def mine_add nat_add_distrib nat_diff_distrib')

lemma take_step_frame [simp]: "tables (take_step src dst e s) = tables s" "ms_holds (take_step src dst e s) = ms_holds s"
  "ms_failing (take_step src dst e s) = ms_failing s" "ms_recent (take_step src dst e s) = ms_recent s"
  "ms_chain (take_step src dst e s) = ms_chain s" "ms_live (take_step src dst e s) = ms_live s"
  by (cases e; simp add: take_step_def Let_def; simp add: ms_add_def)+

lemma fold_take_step_reads:
  assumes "src \<noteq> dst" and "hmap_ok h" and "o' \<noteq> src"
  shows "mine o' g (fold (take_step src dst) h s) =
      (if o' = dst \<and> \<not> starts_with ''h|'' g then mine dst g s + get_or 0 h g else mine o' g s) \<and>
    tables (fold (take_step src dst) h s) = tables s \<and> ms_holds (fold (take_step src dst) h s) = ms_holds s \<and>
    ms_failing (fold (take_step src dst) h s) = ms_failing s \<and> ms_recent (fold (take_step src dst) h s) = ms_recent s \<and>
    ms_chain (fold (take_step src dst) h s) = ms_chain s \<and> ms_live (fold (take_step src dst) h s) = ms_live s"
  using assms(2)
proof (induction h arbitrary: s)
  case (Cons e h)
  obtain f n where e: "e = (f, n)" by (cases e)
  have "hmap_ok h" and n: "map_of h f = None" using Cons.prems by (auto simp: hmap_ok_def e map_of_eq_None_iff)
  then show ?case
    using Cons.IH [of "take_step src dst e s"] assms(1,3) by (auto simp: e mine_take_step get_or_Cons get_or_None)
qed simp

lemma take_over_reads:
  assumes "ms_ok s" and "src \<noteq> dst"
  shows "mine o' f (take_over src dst s) =
      (if o' = src then 0
       else if o' = dst \<and> \<not> starts_with ''h|'' f then mine dst f s + mine src f s else mine o' f s)"
    and "tables (take_over src dst s) = tables s" and "ms_holds (take_over src dst s) = ms_holds s"
    and "ms_failing (take_over src dst s) = ms_failing s" and "ms_recent (take_over src dst s) = ms_recent s"
    and "ms_chain (take_over src dst s) = ms_chain s"
proof -
  let ?P = "mine o' f (take_over src dst s) =
      (if o' = src then 0 else if o' = dst \<and> \<not> starts_with ''h|'' f then mine dst f s + mine src f s else mine o' f s) \<and>
    tables (take_over src dst s) = tables s \<and> ms_holds (take_over src dst s) = ms_holds s \<and>
    ms_failing (take_over src dst s) = ms_failing s \<and> ms_recent (take_over src dst s) = ms_recent s \<and>
    ms_chain (take_over src dst s) = ms_chain s"
  have ?P
  proof (cases "map_of (ms_held s) src")
    case None
    then show ?thesis by (simp add: take_over_eq mine_def)
  next
    case (Some h)
    have hk: "hmap_ok h" using held_ok [OF assms(1), of src] Some by (simp add: get_or_Some)
    have m: "mine src f s = get_or 0 h f" using Some by (simp add: mine_def)
    let ?t = "fold (take_step src dst) h s"
    have t: "take_over src dst s = ?t\<lparr>ms_held := AList.delete src (ms_held ?t)\<rparr>"
      using Some by (simp add: take_over_eq Let_def)
    have d: "mine o' f (?t\<lparr>ms_held := AList.delete src (ms_held ?t)\<rparr>) = (if o' = src then 0 else mine o' f ?t)"
      by (simp add: mine_eq)
    have frame: "tables (?t\<lparr>ms_held := x\<rparr>) = tables ?t" for x by (simp add: tables_def)
    show ?thesis
      using fold_take_step_reads [OF assms(2) hk, of o' f s] fold_take_step_reads [OF assms(2) hk, of dst f s] assms(2)
      unfolding t d m [symmetric] frame by (auto simp: m)
  qed
  then show "mine o' f (take_over src dst s) =
      (if o' = src then 0
       else if o' = dst \<and> \<not> starts_with ''h|'' f then mine dst f s + mine src f s else mine o' f s)"
    and "tables (take_over src dst s) = tables s" and "ms_holds (take_over src dst s) = ms_holds s"
    and "ms_failing (take_over src dst s) = ms_failing s" and "ms_recent (take_over src dst s) = ms_recent s"
    and "ms_chain (take_over src dst s) = ms_chain s" by blast+
qed

section \<open>The operations keep the invariant\<close>

lemma ledger_invD:
  assumes "ledger_inv s"
  shows "ms_ok s" and "hmap_ok (ms_holds s)" and "hmap_ok (ms_recent s)" and "hmap_ok (ms_chain s)" and "\<not> ms_failing s"
    and "0 < mine o' f s \<Longrightarrow> count_field f"
    and "contains_key (ms_holds s) i \<longleftrightarrow> (\<exists>f. 0 < mine (hold_owner i) f s)"
    and "contains_key (ms_chain s) i \<Longrightarrow> contains_key (ms_recent s) i"
  using assms by (auto simp: ledger_inv_def)

lemma ledger_inv_replica:
  assumes "ledger_inv s" and "ms_ok s'" and "\<And>o' f. 0 < mine o' f s' \<Longrightarrow> count_field f"
    and "\<And>i f. mine (hold_owner i) f s' = mine (hold_owner i) f s"
    and "ms_holds s' = ms_holds s" and "ms_recent s' = ms_recent s" and "ms_chain s' = ms_chain s"
    and "ms_failing s' = ms_failing s"
  shows "ledger_inv s'"
  using assms by (simp add: ledger_inv_def)

lemma ledger_inv_free_holds:
  assumes "ledger_inv s" and "free_holds ids s = (s', w)"
  shows "ledger_inv s'"
proof -
  note R = free_holds_reads [OF ledger_invD(1) [OF assms(1)] assms(2)]
  have "contains_key (ms_holds s') i \<longleftrightarrow> (\<exists>f. 0 < mine (hold_owner i) f s')" for i
    using R [of "hold_owner i" _ i] ledger_invD(7) [OF assms(1), of i] by (auto simp: contains_key_def)
  moreover have "0 < mine o' f s' \<Longrightarrow> count_field f" for o' f
    using R [of o' f] ledger_invD(6) [OF assms(1), of o' f] by (auto split: if_splits)
  ultimately show ?thesis using assms(1) R by (simp add: ledger_inv_def)
qed

lemma fold_add_reads:
  "o' \<noteq> inst \<Longrightarrow> mine o' f (fold (\<lambda>g. ms_add inst g d) fs s) = mine o' f s"
  by (induction fs arbitrary: s) (auto simp: mine_add)

lemma fold_add_frame [simp]:
  "tables (fold (\<lambda>g. ms_add inst g d) fs s) = tables s" "ms_holds (fold (\<lambda>g. ms_add inst g d) fs s) = ms_holds s"
  "ms_recent (fold (\<lambda>g. ms_add inst g d) fs s) = ms_recent s" "ms_chain (fold (\<lambda>g. ms_add inst g d) fs s) = ms_chain s"
  "ms_failing (fold (\<lambda>g. ms_add inst g d) fs s) = ms_failing s"
  by (induction fs arbitrary: s; simp; simp add: ms_add_def)+

lemma ledger_inv_grant:
  assumes "ledger_inv s" and "replica inst"
  shows "ledger_inv (fold (\<lambda>f. ms_add inst f 1) (claim_fields p t k) s)"
proof (rule ledger_inv_replica [OF assms(1)])
  let ?s = "fold (\<lambda>f. ms_add inst f 1) (claim_fields p t k) s"
  note A = fold_add_one [OF ledger_invD(1) [OF assms(1)] claim_fields_distinct [of p t k], of inst]
  show "ms_ok ?s" using A by blast
  show "count_field f" if "0 < mine o' f ?s" for o' f
    using that A fold_add_reads [of o' inst f 1 "claim_fields p t k" s] ledger_invD(6) [OF assms(1)] claim_fields_count
    by (cases "o' = inst") (auto split: if_splits)
  show "mine (hold_owner i) f ?s = mine (hold_owner i) f s" for i f
    using fold_add_reads replica_not_owner [OF assms(2)] by metis
qed simp_all

lemma ledger_inv_take_over:
  assumes "ledger_inv s" and "replica inst"
  shows "ledger_inv (take_over (hold_owner i) inst (s\<lparr>ms_holds := AList.delete i (ms_holds s)\<rparr>))"
proof -
  let ?r = "s\<lparr>ms_holds := AList.delete i (ms_holds s)\<rparr>" let ?s = "take_over (hold_owner i) inst ?r"
  have ok: "ms_ok ?r" using ledger_invD(1) [OF assms(1)] ms_ok_cong [of ?r s] by simp
  have ne: "hold_owner i \<noteq> inst" "inst \<noteq> hold_owner j" for j using replica_not_owner [OF assms(2)] by metis+
  note T = take_over_reads [OF ok ne(1)]
  have m: "mine o' f ?r = mine o' f s" for o' f by (simp add: mine_def)
  have "0 < mine o' f ?s \<Longrightarrow> count_field f" for o' f
    using ledger_invD(6) [OF assms(1), of o' f] ledger_invD(6) [OF assms(1), of "hold_owner i" f]
    unfolding T(1) m by (auto split: if_splits)
  moreover have "mine (hold_owner j) f ?s = (if j = i then 0 else mine (hold_owner j) f s)" for j f
    using ne(2) [of j] unfolding T(1) m by auto
  ultimately show ?thesis
    using assms(1) take_over_correct(1) [OF ok ne(1)] T(2-6) by (auto simp: ledger_inv_def contains_key_def)
qed

lemma ledger_inv_tables:
  "ledger_inv (s\<lparr>ms_waiting := x\<rparr>) = ledger_inv s" "ledger_inv (s\<lparr>ms_starving := x\<rparr>) = ledger_inv s"
  "ledger_inv (s\<lparr>ms_live := y\<rparr>) = ledger_inv s"
  using ms_ok_cong [of "s\<lparr>ms_waiting := x\<rparr>" s] ms_ok_cong [of "s\<lparr>ms_starving := x\<rparr>" s] ms_ok_cong [of "s\<lparr>ms_live := y\<rparr>" s]
  by (simp_all add: ledger_inv_def mine_def)

lemma ledger_inv_decide:
  assumes "ledger_inv s" and "replica inst" and "decide_claim inst c s = (s', out)"
  shows "ledger_inv s'"
  using assms(3) ledger_inv_take_over [OF assms(1,2)] ledger_inv_grant [OF assms(1,2)] assms(1)
  by (auto simp: decide_claim_def split: option.splits if_splits)

lemma ledger_inv_mark: "ledger_inv s \<Longrightarrow> ledger_inv (mark_waiting now c out s)"
  by (simp add: mark_waiting_def ledger_inv_tables split: acquire_outcome.splits)

lemma ledger_inv_purge: "ledger_inv s \<Longrightarrow> ledger_inv (fst (purge_holds now s))"
  unfolding purge_holds_def by (metis ledger_inv_free_holds prod.collapse)

lemma ledger_inv_pool_holds: "ledger_inv s \<Longrightarrow> ledger_inv (fst (free_pool_holds pool keep s))"
  unfolding free_pool_holds_def by (metis ledger_inv_free_holds prod.collapse)

lemma acquire_as_stages:
  "\<not> ms_failing s \<Longrightarrow> inst \<in> set (ms_live s) \<Longrightarrow>
   mem_acquire inst now c s =
     (let (s1, w1) = purge_holds now s;
          (s2, w2) = (if sc_starving c then
              free_pool_holds (sc_pool c) (sc_hold c) (s1\<lparr>ms_starving := AList.update (sc_pool c) (now + WAIT_MARK) (ms_starving s1)\<rparr>)
            else (s1, []));
          (s3, out) = decide_claim inst c s2
      in (mark_waiting now c out s3, w1 @ w2, Inr (out, counts_of (sc_pool c) (mark_waiting now c out s3))))"
  by (simp add: mem_acquire_def Let_def split: prod.splits)

lemma ledger_inv_acquire:
  assumes "ledger_inv s" and "replica inst"
  shows "ledger_inv (fst (mem_acquire inst now c s))"
proof (cases "inst \<in> set (ms_live s)")
  case True
  then show ?thesis
    using ledger_invD(5) [OF assms(1)] ledger_inv_purge [OF assms(1), of now] ledger_inv_decide [OF _ assms(2)]
      ledger_inv_pool_holds ledger_inv_mark
    by (simp add: acquire_as_stages Let_def split: prod.splits) (metis fst_conv ledger_inv_tables(2))
qed (use assms ledger_invD(5) in \<open>simp add: mem_acquire_def\<close>)

lemma fold_give_back_frame [simp]:
  "tables (fold (give_back inst) fs s) = tables s" "ms_recent (fold (give_back inst) fs s) = ms_recent s"
  "ms_chain (fold (give_back inst) fs s) = ms_chain s" "ms_failing (fold (give_back inst) fs s) = ms_failing s"
  by (induction fs arbitrary: s; simp add: give_back_def; simp add: ms_add_def tables_def)+

lemma ledger_inv_release:
  assumes "ledger_inv s" and "replica inst"
  shows "ledger_inv (fst (mem_release inst sl s))"
proof -
  let ?s = "fold (give_back inst) (claim_fields (sr_pool sl) (sr_tenant sl) (sr_key sl)) s"
  note G = fold_give_back [OF ledger_invD(1) [OF assms(1)]
      claim_fields_distinct [of "sr_pool sl" "sr_tenant sl" "sr_key sl"], of inst]
  have m: "mine o' f ?s = mine o' f s - (if o' = inst \<and> f \<in> set (claim_fields (sr_pool sl) (sr_tenant sl) (sr_key sl)) then 1 else 0)"
    for o' f using G by blast
  have "ledger_inv ?s"
  proof (rule ledger_inv_replica [OF assms(1)])
    show "count_field f" if "0 < mine o' f ?s" for o' f
      using that m [of o' f] ledger_invD(6) [OF assms(1), of o' f] by simp
    show "mine (hold_owner i) f ?s = mine (hold_owner i) f s" for i f
      using m [of "hold_owner i" f] replica_not_owner [OF assms(2), of i] by auto
  qed (use G in auto)
  then show ?thesis using ledger_invD(5) [OF assms(1)] by (simp add: mem_release_def Let_def)
qed

lemma map_of_filter_hmap:
  "hmap_ok m \<Longrightarrow> map_of (filter P m) k = (case map_of m k of None \<Rightarrow> None | Some v \<Rightarrow> if P (k, v) then Some v else None)"
proof (induction m)
  case (Cons e m)
  have "map_of m (fst e) = None" using Cons.prems by (simp add: hmap_ok_def map_of_eq_None_iff)
  then show ?case using Cons by (cases e) (auto simp: hmap_ok_def split: option.splits)
qed simp

lemma note_step_reads:
  assumes "ledger_inv s" and "note_step now h s = (s', chained)"
  shows "ledger_inv s'" and "obs s' = (ms_count s, (\<lambda>o' f. mine o' f s), map_of (ms_holds s), tables s')"
proof -
  let ?recent = "filter (\<lambda>(_, done). now - done < sh_remember h) (ms_recent s)"
  let ?chain = "filter (\<lambda>(i, _). contains_key ?recent i) (ms_chain s)"
  have s': "s' = s\<lparr>ms_recent := AList.update (sh_id h) now ?recent, ms_chain := ?chain\<rparr>"
    using assms(2) by (simp add: note_step_def Let_def)
  have c: "contains_key ?chain i \<Longrightarrow> contains_key ?recent i" for i
    using ledger_invD(4) [OF assms(1)] by (auto simp: contains_key_def map_of_filter_hmap split: option.splits if_splits)
  have k: "ms_count s' = ms_count s" "mine o' f s' = mine o' f s" for o' f
    by (simp_all add: s' mine_def ms_count_def fun_eq_iff)
  have "ms_ok s'" using ledger_invD(1) [OF assms(1)] ms_ok_cong [of s' s] by (simp add: s')
  moreover have "contains_key (ms_chain s') i \<Longrightarrow> contains_key (ms_recent s') i" for i
    using c [of i] by (simp add: s' contains_key_def)
  ultimately show "ledger_inv s'"
    using assms(1) k(2) unfolding ledger_inv_def by (simp add: s' hmap_ok_update hmap_ok_filter)
  show "obs s' = (ms_count s, (\<lambda>o' f. mine o' f s), map_of (ms_holds s), tables s')"
    unfolding obs_def k by (simp add: s')
qed

lemma fold_hand_over_reads:
  "distinct fs \<Longrightarrow> inst \<noteq> owner \<Longrightarrow>
   mine o' f (fold (hand_over inst owner) fs s) =
     (if f \<in> set fs \<and> 0 < mine inst f s
      then (if o' = inst then mine inst f s - 1 else if o' = owner then mine owner f s + 1 else mine o' f s)
      else mine o' f s)"
proof (induction fs arbitrary: s)
  case (Cons g fs)
  have m: "mine o' f (hand_over inst owner g s) =
     (if f = g \<and> 0 < mine inst g s
      then (if o' = inst then mine inst g s - 1 else if o' = owner then mine owner g s + 1 else mine o' f s)
      else mine o' f s)" for o' f
    using Cons.prems(2) by (auto simp: hand_over_def mine_add nat_add_distrib nat_diff_distrib')
  show ?case using Cons.IH [of "hand_over inst owner g s"] Cons.prems unfolding m by auto
qed simp

lemma fold_hand_over_frame [simp]:
  "tables (fold (hand_over inst owner) fs s) = tables s" "ms_holds (fold (hand_over inst owner) fs s) = ms_holds s"
  "ms_recent (fold (hand_over inst owner) fs s) = ms_recent s" "ms_chain (fold (hand_over inst owner) fs s) = ms_chain s"
  "ms_failing (fold (hand_over inst owner) fs s) = ms_failing s"
  by (induction fs arbitrary: s; simp add: hand_over_def; simp add: ms_add_def tables_def)+

lemma ledger_inv_keep:
  assumes "ledger_inv s" and "replica inst" and "contains_key (ms_recent s) (sh_id h)"
  shows "ledger_inv (keep_slot inst now sl h s)"
proof -
  let ?owner = "hold_owner (sh_id h)" let ?fs = "claim_fields (sr_pool sl) (sr_tenant sl) (sr_key sl)"
  let ?s1 = "fold (hand_over inst ?owner) ?fs s" let ?s2 = "ms_add ?owner (held_field (sr_pool sl)) 1 ?s1"
  let ?s3 = "keep_slot inst now sl h s"
  have ne: "inst \<noteq> ?owner" "hold_owner i \<noteq> inst" for i using replica_not_owner [OF assms(2)] by metis+
  note H = fold_hand_over [OF ledger_invD(1) [OF assms(1)] ne(1)] and
    R = fold_hand_over_reads [OF claim_fields_distinct [of "sr_pool sl" "sr_tenant sl" "sr_key sl"] ne(1)]
  have m: "mine o' f ?s3 = mine o' f ?s1 + (if o' = ?owner \<and> f = held_field (sr_pool sl) then 1 else 0)" for o' f
    by (auto simp: keep_slot_def Let_def mine_def ms_add_def bump_def get_or_def nat_add_distrib split: option.splits)
  have "ms_ok ?s2" using H by (intro ms_ok_add) auto
  then have ok: "ms_ok ?s3" using ms_ok_cong [of ?s3 ?s2] by (simp add: keep_slot_def Let_def)
  have fields: "0 < mine o' f ?s3 \<Longrightarrow> count_field f" for o' f
    using ledger_invD(6) [OF assms(1), of o' f] claim_fields_count [of f] unfolding m R by (auto split: if_splits)
  have own: "0 < mine ?owner (held_field (sr_pool sl)) ?s3" by (simp add: m)
  have other: "mine (hold_owner i) f ?s3 = mine (hold_owner i) f s" if "i \<noteq> sh_id h" for i f
    using that ne(2) [of i] unfolding m R by auto
  have holds: "contains_key (ms_holds ?s3) i \<longleftrightarrow> i = sh_id h \<or> contains_key (ms_holds s) i" for i
    by (simp add: keep_slot_def Let_def contains_key_def)
  have "contains_key (ms_holds ?s3) i \<longleftrightarrow> (\<exists>f. 0 < mine (hold_owner i) f ?s3)" for i
    using own other [of i] ledger_invD(7) [OF assms(1), of i] unfolding holds by (cases "i = sh_id h") auto
  moreover have "contains_key (ms_chain ?s3) i \<Longrightarrow> contains_key (ms_recent ?s3) i" for i
    using assms(3) ledger_invD(8) [OF assms(1), of i]
    by (auto simp: keep_slot_def Let_def contains_key_def ms_add_def split: if_splits)
  ultimately show ?thesis
    using ok fields assms(1) unfolding ledger_inv_def by (simp add: keep_slot_def Let_def) (simp add: ms_add_def)
qed

lemma ledger_inv_drop_run: "ledger_inv s \<Longrightarrow> ledger_inv (s\<lparr>ms_chain := AList.delete i (ms_chain s)\<rparr>)"
  using ms_ok_cong [of "s\<lparr>ms_chain := AList.delete i (ms_chain s)\<rparr>" s]
  by (auto simp: ledger_inv_def mine_def contains_key_def)

lemma ledger_inv_hold:
  assumes "ledger_inv s" and "replica inst"
  shows "ledger_inv (fst (mem_hold inst now sl h s))"
proof -
  obtain s1 w where p: "purge_holds now s = (s1, w)" by fastforce
  obtain s2 chained where n: "note_step now h s1 = (s2, chained)" by fastforce
  have i1: "ledger_inv s1" using ledger_inv_purge [OF assms(1), of now] p by simp
  have i2: "ledger_inv s2" using note_step_reads(1) [OF i1 n] .
  have r: "contains_key (ms_recent s2) (sh_id h)" using n by (auto simp: note_step_def Let_def contains_key_def)
  show ?thesis
    using ledger_inv_release [OF ledger_inv_drop_run [OF i2] assms(2)] ledger_inv_keep [OF i2 assms(2) r]
    by (simp add: mem_hold_def p n Let_def split: prod.splits) (metis fst_conv)
qed

lemma ledger_inv_reclaim:
  assumes "ledger_inv s" and "replica inst" and "reclaim inst s = (s', w)"
  shows "ledger_inv s'"
proof (rule ledger_inv_replica [OF assms(1)])
  note R = reclaim_correct [OF ledger_invD(1) [OF assms(1)] assms(3)] and F = reclaim_frame [OF assms(3)]
  show "ms_ok s'" "ms_holds s' = ms_holds s" "ms_failing s' = ms_failing s" by (fact R)+
  show "ms_recent s' = ms_recent s" "ms_chain s' = ms_chain s" using F by simp_all
  show "count_field f" if "0 < mine o' f s'" for o' f
    using that R(3) [of o' f] ledger_invD(6) [OF assms(1), of o' f] by (auto split: if_splits)
  show "mine (hold_owner i) f s' = mine (hold_owner i) f s" for i f
    using R(3) [of "hold_owner i" f] replica_not_owner [OF assms(2), of i] by auto
qed

lemma ledger_inv_kill: "ledger_inv s \<Longrightarrow> replica inst \<Longrightarrow> ledger_inv (fst (mem_kill inst s))"
  unfolding mem_kill_def by (metis ledger_inv_reclaim ledger_inv_tables(3) prod.collapse)

lemma ledger_inv_revive: "ledger_inv s \<Longrightarrow> ledger_inv (mem_revive inst s)"
  by (simp add: mem_revive_def ledger_inv_tables)

text \<open>The counts a replica sends when it reconciles, field by field.\<close>

definition entries :: "pool_holdings \<Rightarrow> (string \<times> nat) list" where
  "entries h = [(pool_field (ph_pool h), ph_in_flight h), (GLOBAL_FIELD, ph_in_flight h)]
     @ map (\<lambda>(t, n). (tenant_field (ph_pool h) t, n)) (ph_tenants h) @ map (\<lambda>(k, n). (key_field (ph_pool h) k, n)) (ph_keys h)"

definition sent :: "(string \<times> nat) list \<Rightarrow> string \<Rightarrow> nat" where
  "sent es f = sum_list (map snd (filter (\<lambda>e. fst e = f) es))"

definition add_entry :: "string \<Rightarrow> string \<times> nat \<Rightarrow> mem_state \<Rightarrow> mem_state" where
  "add_entry inst e s = ms_add inst (fst e) (int (snd e)) s"

lemma sent_simps [simp]: "sent [] f = 0" "sent (e # es) f = (if fst e = f then snd e else 0) + sent es f"
  "sent (es @ es') f = sent es f + sent es' f"
  by (simp_all add: sent_def)

lemma add_holdings_entries: "fold (add_holdings inst) hs s = fold (add_entry inst) (concat (map entries hs)) s"
proof (induction hs arbitrary: s)
  case (Cons h hs)
  have "add_entry inst (g, n) = ms_add inst g (int n)" for g n by (simp add: add_entry_def fun_eq_iff)
  then have "add_holdings inst h s = fold (add_entry inst) (entries h) s" for s
    by (simp add: add_holdings_def entries_def fold_map comp_def case_prod_beta')
  then show ?case using Cons by simp
qed simp

lemma fold_add_entry:
  "ms_ok s \<Longrightarrow>
   ms_ok (fold (add_entry inst) es s) \<and> (\<forall>f. mine inst f (fold (add_entry inst) es s) = mine inst f s + sent es f) \<and>
   (\<forall>o' f. o' \<noteq> inst \<longrightarrow> mine o' f (fold (add_entry inst) es s) = mine o' f s) \<and>
   tables (fold (add_entry inst) es s) = tables s \<and> ms_holds (fold (add_entry inst) es s) = ms_holds s \<and>
   ms_recent (fold (add_entry inst) es s) = ms_recent s \<and> ms_chain (fold (add_entry inst) es s) = ms_chain s \<and>
   ms_failing (fold (add_entry inst) es s) = ms_failing s"
proof (induction es arbitrary: s)
  case (Cons e es)
  have "ms_ok (add_entry inst e s)" using Cons.prems unfolding add_entry_def by (intro ms_ok_add) auto
  moreover have "ms_recent (add_entry inst e s) = ms_recent s" "ms_chain (add_entry inst e s) = ms_chain s"
    by (simp_all add: add_entry_def ms_add_def)
  ultimately show ?case using Cons.IH [of "add_entry inst e s"] by (auto simp: add_entry_def mine_add nat_add_distrib)
qed simp

lemma entries_count: "0 < sent (concat (map entries hs)) f \<Longrightarrow> count_field f"
proof (induction hs)
  case (Cons h hs)
  have "sent es f = 0" if "\<not> count_field f" "\<forall>e \<in> set es. count_field (fst e)" for es
    using that by (induction es) auto
  moreover have "\<forall>e \<in> set (entries h). count_field (fst e)" by (auto simp: entries_def)
  ultimately show ?case using Cons by fastforce
qed simp

lemma ledger_inv_reconcile:
  assumes "ledger_inv s" and "replica inst"
  shows "ledger_inv (fst (mem_reconcile inst hs s))"
proof -
  obtain s1 w where r: "reclaim inst s = (s1, w)" by fastforce
  have i: "ledger_inv s1" using ledger_inv_reclaim [OF assms r] .
  let ?s = "fold (add_holdings inst) hs s1"
  note A = fold_add_entry [OF ledger_invD(1) [OF i], of inst "concat (map entries hs)", folded add_holdings_entries]
  have "ledger_inv ?s"
  proof (rule ledger_inv_replica [OF i])
    show "count_field f" if "0 < mine o' f ?s" for o' f
      using that A ledger_invD(6) [OF i, of o' f] entries_count [of hs f] by (cases "o' = inst") auto
    show "mine (hold_owner j) f ?s = mine (hold_owner j) f s1" for j f
      using A replica_not_owner [OF assms(2), of j] by metis
  qed (use A in auto)
  then show ?thesis using assms(1) ledger_invD(5) by (simp add: mem_reconcile_def r)
qed

section \<open>Who is to be woken\<close>

text \<open>\<open>ps\<close> names every pool that has fewer slots taken afterwards.\<close>

definition wakes :: "mem_state \<Rightarrow> mem_state \<Rightarrow> string set \<Rightarrow> bool" where
  "wakes s s' ps \<longleftrightarrow> (\<forall>p. ms_count s' (pool_field p) < ms_count s (pool_field p) \<longrightarrow> p \<in> ps)"

lemma wakes_same: "(\<And>p. ms_count s (pool_field p) \<le> ms_count s' (pool_field p)) \<Longrightarrow> wakes s s' {}"
  by (simp add: wakes_def linorder_not_less)

lemma wakes_trans:
  assumes "wakes s s1 ps" and "wakes s1 s2 qs"
  shows "wakes s s2 (ps \<union> qs)"
  unfolding wakes_def
proof (intro allI impI)
  fix p
  let ?c = "\<lambda>s. ms_count s (pool_field p)"
  assume "?c s2 < ?c s"
  then have "?c s1 < ?c s \<or> ?c s2 < ?c s1" by linarith
  then show "p \<in> ps \<union> qs" using assms by (auto simp: wakes_def)
qed

lemma wakes_cong: "ms_count s1 = ms_count s \<Longrightarrow> ms_count s2 = ms_count s' \<Longrightarrow> wakes s1 s2 ps = wakes s s' ps"
  by (simp add: wakes_def)

lemma reclaim_woken:
  assumes "ms_ok s" and "reclaim o' s = (s', w)"
  shows "set w = {p. 0 < mine o' (pool_field p) s}"
proof (cases "map_of (ms_held s) o'")
  case (Some h)
  have h: "hmap_ok h" "vals_ok (\<lambda>n. 0 < n) h" using held_ok [OF assms(1), of o'] Some by (simp_all add: get_or_Some)
  have w: "w = List.map_filter (\<lambda>(f, _). strip_prefix ''p|'' f) h" using assms(2) Some by (simp add: reclaim_def)
  have sp: "strip_prefix ''p|'' f = Some p \<longleftrightarrow> f = pool_field p" for f p
    unfolding strip_prefix_def pool_field_def by (metis append_eq_conv_conj append_take_drop_id option.inject option.simps(3))
  have "p \<in> set w \<longleftrightarrow> (\<exists>n. (pool_field p, n) \<in> set h)" for p
    unfolding w List.map_filter_def by (auto simp: sp image_iff split: prod.splits) (metis option.sel sp)+
  then have "p \<in> set w \<longleftrightarrow> contains_key h (pool_field p)" for p using h(1) by (simp add: hmap_entry contains_key_def)
  moreover have "contains_key h f \<longleftrightarrow> 0 < get_or 0 h f" for f
    using h(2) by (auto simp: contains_key_def get_or_def vals_ok_def split: option.splits)
  ultimately show ?thesis using Some by (auto simp: mine_def)
qed (use assms in \<open>simp add: reclaim_def mine_def\<close>)

lemma free_holds_woken:
  assumes "ms_ok s" and "free_holds ids s = (s', w)"
  shows "set w = {p. \<exists>i \<in> set ids. 0 < mine (hold_owner i) (pool_field p) s}"
  using assms
proof (induction ids arbitrary: s w)
  case (Cons j ids)
  let ?s = "s\<lparr>ms_holds := AList.delete j (ms_holds s)\<rparr>"
  have ok: "ms_ok ?s" using Cons.prems(1) ms_ok_cong [of ?s s] by simp
  obtain s1 w1 where r: "reclaim (hold_owner j) ?s = (s1, w1)" by fastforce
  obtain w2 where f: "free_holds ids s1 = (s', w2)" and w: "w = w1 @ w2" using Cons.prems(2) r by (auto split: prod.splits)
  have m: "mine o' f ?s = mine o' f s" for o' f by (simp add: mine_def)
  have "mine (hold_owner i) f s1 = (if i = j then 0 else mine (hold_owner i) f s)" for i f
    using reclaim_correct(3) [OF ok r, of "hold_owner i" f] by (simp add: m)
  then show ?case using Cons.IH [OF reclaim_correct(1) [OF ok r] f] reclaim_woken [OF ok r]
    by (auto simp: w m) (metis neq0_conv)
qed simp

lemma free_holds_order:
  assumes "ms_ok s" and "set ids = set ids'" and "free_holds ids s = (s1, w1)" and "free_holds ids' s = (s2, w2)"
  shows "obs s1 = obs s2" and "set w1 = set w2"
proof -
  note A = free_holds_reads [OF assms(1,3)] and B = free_holds_reads [OF assms(1,4)]
  have m: "mine o' f s1 = mine o' f s2" for o' f using A [of o' f] B [of o' f] by (simp add: assms(2))
  then have "ms_count s1 f = ms_count s2 f" for f using A B by (intro count_from_mine) auto
  then show "obs s1 = obs s2" using A B m by (simp add: obs_def fun_eq_iff assms(2))
  show "set w1 = set w2" using free_holds_woken [OF assms(1,3)] free_holds_woken [OF assms(1,4)] by (simp add: assms(2))
qed

lemma wakes_reclaim:
  assumes "ms_ok s" and "reclaim o' s = (s', w)"
  shows "wakes s s' (set w)"
  unfolding wakes_def reclaim_woken [OF assms] using reclaim_correct(2) [OF assms] by (metis add.right_neutral mem_Collect_eq neq0_conv order_less_irrefl)

lemma wakes_free_holds:
  assumes "ms_ok s" and "free_holds ids s = (s', w)"
  shows "wakes s s' (set w)"
proof -
  have "p \<in> set w" if "ms_count s' (pool_field p) < ms_count s (pool_field p)" for p
  proof (rule ccontr)
    assume "p \<notin> set w"
    then have "mine o' (pool_field p) s' = mine o' (pool_field p) s" for o'
      using free_holds_reads [OF assms, of o' "pool_field p"] free_holds_woken [OF assms] by auto
    then have "ms_count s' (pool_field p) = ms_count s (pool_field p)"
      using free_holds_reads [OF assms] assms(1) by (intro count_from_mine) auto
    then show False using that by simp
  qed
  then show ?thesis by (simp add: wakes_def)
qed

lemma wakes_decide:
  assumes "ms_ok s" and "replica inst" and "decide_claim inst c s = (s', out)"
  shows "wakes s (mark_waiting now c out s') {}"
proof (rule wakes_same)
  fix p
  let ?f = "pool_field p"
  consider (redeem) i where "s' = take_over (hold_owner i) inst (s\<lparr>ms_holds := AList.delete i (ms_holds s)\<rparr>)"
    | (refuse) "s' = s" | (grant) "out = Granted"
    using assms(3) by (auto simp: decide_claim_def split: option.splits if_splits)
  then have "ms_count s ?f \<le> ms_count s' ?f"
  proof cases
    case redeem
    let ?r = "s\<lparr>ms_holds := AList.delete i (ms_holds s)\<rparr>"
    have "ms_ok ?r" using assms(1) ms_ok_cong [of ?r s] by simp
    moreover have "\<not> starts_with ''h|'' ?f" by (simp add: starts_with_def pool_field_def)
    moreover have "hold_owner i \<noteq> inst" using replica_not_owner [OF assms(2)] by metis
    ultimately show ?thesis using take_over_correct(2) [of ?r "hold_owner i" inst ?f] by (simp add: redeem ms_count_def)
  qed (use decide_claim_correct(3) [OF assms, of ?f] in simp_all)
  then show "ms_count s ?f \<le> ms_count (mark_waiting now c out s') ?f" by (simp add: ms_count_def)
qed

lemma wakes_release:
  assumes "ledger_inv s" and "mem_release inst sl s = (s', w, res)"
  shows "wakes s s' (if 0 < mine inst (pool_field (sr_pool sl)) s then {sr_pool sl} else {})"
proof -
  let ?fs = "claim_fields (sr_pool sl) (sr_tenant sl) (sr_key sl)"
  have s': "s' = fold (give_back inst) ?fs s"
    using assms ledger_invD(5) by (auto simp: mem_release_def Let_def)
  have "pool_field p \<in> set ?fs \<longleftrightarrow> p = sr_pool sl" for p
    by (auto simp: claim_fields_def pool_field_def GLOBAL_FIELD_def tenant_field_def key_field_def)
  moreover have "ms_count s' f + (if f \<in> set ?fs \<and> 0 < mine inst f s then 1 else 0) = ms_count s f" for f
    using fold_give_back [OF ledger_invD(1) [OF assms(1)] claim_fields_distinct [of "sr_pool sl" "sr_tenant sl" "sr_key sl"], of inst]
    by (simp add: s')
  ultimately have "ms_count s' (pool_field p) + (if p = sr_pool sl \<and> 0 < mine inst (pool_field p) s then 1 else 0) = ms_count s (pool_field p)"
    for p by metis
  then show ?thesis by (fastforce simp: wakes_def split: if_splits)
qed

lemma wakes_keep:
  assumes "ledger_inv s" and "replica inst"
  shows "wakes s (keep_slot inst now sl h s) {}"
proof (rule wakes_same)
  fix p
  let ?o = "hold_owner (sh_id h)"
  let ?s1 = "fold (hand_over inst ?o) (claim_fields (sr_pool sl) (sr_tenant sl) (sr_key sl)) s"
  have "ms_count ?s1 f = ms_count s f" for f
    using fold_hand_over [OF ledger_invD(1) [OF assms(1)] replica_not_owner [OF assms(2)]] by blast
  moreover have "ms_count (keep_slot inst now sl h s) f = ms_count (ms_add ?o (held_field (sr_pool sl)) 1 ?s1) f" for f
    by (simp add: keep_slot_def Let_def ms_count_def)
  ultimately show "ms_count s (pool_field p) \<le> ms_count (keep_slot inst now sl h s) (pool_field p)"
    by (simp add: count_add) (simp add: pool_field_def held_field_def)
qed

end
