(* ===== verification/Redis.thy ===== *)
theory Redis
  imports Slots
begin

text \<open>
  What the slot scripts of \<open>obleth-redis\<close> use of a Redis server. The server is not part of the
  program: its commands are the record \<open>redis\<close>, an argument of every script, and what the scripts
  rely on is the locale \<open>redis_server\<close>, the documented effect of each command on the hashes
  (\<open>HGET\<close>), the sorted sets (\<open>ZSCORE\<close>) and the messages published so far. Values of the hashes and
  scores are the integers the scripts write. \<open>is_hash\<close> says which keys hold hashes; the others hold
  sorted sets, and a command is only described on keys of its own kind (on the other kind Redis
  answers with an error). The locale is interpreted by \<open>reference_redis\<close>, which runs the commands on
  association lists.
\<close>

record 'r redis =
  HGET :: "'r \<Rightarrow> string \<Rightarrow> string \<Rightarrow> int option"
  HGETALL :: "'r \<Rightarrow> string \<Rightarrow> (string \<times> int) list"
  HSET :: "string \<Rightarrow> string \<Rightarrow> int \<Rightarrow> 'r \<Rightarrow> 'r"
  HDEL :: "string \<Rightarrow> string \<Rightarrow> 'r \<Rightarrow> 'r"
  HINCRBY :: "string \<Rightarrow> string \<Rightarrow> int \<Rightarrow> 'r \<Rightarrow> 'r \<times> int"
  DEL :: "string \<Rightarrow> 'r \<Rightarrow> 'r"
  EXISTS :: "'r \<Rightarrow> string \<Rightarrow> bool"
  ZSCORE :: "'r \<Rightarrow> string \<Rightarrow> string \<Rightarrow> int option"
  ZADD :: "string \<Rightarrow> int \<Rightarrow> string \<Rightarrow> 'r \<Rightarrow> 'r"
  ZREM :: "string \<Rightarrow> string list \<Rightarrow> 'r \<Rightarrow> 'r"
  ZRANGE :: "'r \<Rightarrow> string \<Rightarrow> string list"
  ZRANGEBYSCORE :: "'r \<Rightarrow> string \<Rightarrow> int \<Rightarrow> string list"
  ZREMRANGEBYSCORE :: "string \<Rightarrow> int \<Rightarrow> 'r \<Rightarrow> 'r"
  ZCARD :: "'r \<Rightarrow> string \<Rightarrow> nat"
  PUBLISH :: "string \<Rightarrow> string \<Rightarrow> 'r \<Rightarrow> 'r"
  TIME :: "'r \<Rightarrow> nat \<times> nat"
  published :: "'r \<Rightarrow> (string \<times> string) list"
  pairs :: "(string \<times> int) list \<Rightarrow> (string \<times> int) list"

text \<open>
  \<open>ZRANGE\<close> is called with \<open>0 -1\<close>, \<open>ZRANGEBYSCORE\<close> and \<open>ZREMRANGEBYSCORE\<close> with \<open>-inf\<close> and an upper
  bound. \<open>published\<close> is the history of \<open>PUBLISH\<close>, \<open>pairs\<close> the order in which Lua visits a table.
  \<open>num\<close> is \<open>tonumber(v) or 0\<close>.
\<close>

definition num :: "int option \<Rightarrow> int" where
  "num v = (case v of None \<Rightarrow> 0 | Some n \<Rightarrow> n)"

lemma num_simps [simp]: "num None = 0" "num (Some n) = n"
  by (simp_all add: num_def)

section \<open>What the commands do\<close>

locale redis_server =
  fixes rd :: "'r redis" and is_hash :: "string \<Rightarrow> bool"
  assumes hset [simp]: "is_hash k \<Longrightarrow> HGET rd (HSET rd k f v r) = (HGET rd r)(k := (HGET rd r k)(f \<mapsto> v))"
      "is_hash k \<Longrightarrow> ZSCORE rd (HSET rd k f v r) = ZSCORE rd r"
      "published rd (HSET rd k f v r) = published rd r"
    and hdel [simp]: "is_hash k \<Longrightarrow> HGET rd (HDEL rd k f r) = (HGET rd r)(k := (HGET rd r k)(f := None))"
      "is_hash k \<Longrightarrow> ZSCORE rd (HDEL rd k f r) = ZSCORE rd r"
      "published rd (HDEL rd k f r) = published rd r"
    and hincrby [simp]:
      "is_hash k \<Longrightarrow> HGET rd (fst (HINCRBY rd k f n r)) = (HGET rd r)(k := (HGET rd r k)(f \<mapsto> num (HGET rd r k f) + n))"
      "is_hash k \<Longrightarrow> snd (HINCRBY rd k f n r) = num (HGET rd r k f) + n"
      "is_hash k \<Longrightarrow> ZSCORE rd (fst (HINCRBY rd k f n r)) = ZSCORE rd r"
      "published rd (fst (HINCRBY rd k f n r)) = published rd r"
    and del [simp]: "is_hash k \<Longrightarrow> HGET rd (DEL rd k r) = (HGET rd r)(k := Map.empty)"
      "is_hash k \<Longrightarrow> ZSCORE rd (DEL rd k r) = ZSCORE rd r"
      "published rd (DEL rd k r) = published rd r"
    and zadd [simp]: "\<not> is_hash k \<Longrightarrow> ZSCORE rd (ZADD rd k n m r) = (ZSCORE rd r)(k := (ZSCORE rd r k)(m \<mapsto> n))"
      "\<not> is_hash k \<Longrightarrow> HGET rd (ZADD rd k n m r) = HGET rd r"
      "published rd (ZADD rd k n m r) = published rd r"
    and zrem [simp]:
      "\<not> is_hash k \<Longrightarrow> ZSCORE rd (ZREM rd k ms r) = (ZSCORE rd r)(k := (ZSCORE rd r k) |` (- set ms))"
      "\<not> is_hash k \<Longrightarrow> HGET rd (ZREM rd k ms r) = HGET rd r"
      "published rd (ZREM rd k ms r) = published rd r"
    and zremrange [simp]:
      "\<not> is_hash k \<Longrightarrow> ZSCORE rd (ZREMRANGEBYSCORE rd k hi r) =
         (ZSCORE rd r)(k := (\<lambda>m. case ZSCORE rd r k m of None \<Rightarrow> None | Some n \<Rightarrow> if n \<le> hi then None else Some n))"
      "\<not> is_hash k \<Longrightarrow> HGET rd (ZREMRANGEBYSCORE rd k hi r) = HGET rd r"
      "published rd (ZREMRANGEBYSCORE rd k hi r) = published rd r"
    and publish [simp]: "HGET rd (PUBLISH rd c m r) = HGET rd r" "ZSCORE rd (PUBLISH rd c m r) = ZSCORE rd r"
      "published rd (PUBLISH rd c m r) = published rd r @ [(c, m)]"
    and hgetall: "is_hash k \<Longrightarrow> distinct (map fst (HGETALL rd r k)) \<and> map_of (HGETALL rd r k) = HGET rd r k"
    and exists: "is_hash k \<Longrightarrow> EXISTS rd r k \<longleftrightarrow> HGET rd r k \<noteq> Map.empty"
    and zrange: "\<not> is_hash k \<Longrightarrow> distinct (ZRANGE rd r k) \<and> set (ZRANGE rd r k) = dom (ZSCORE rd r k)"
    and zrangebyscore: "\<not> is_hash k \<Longrightarrow>
      ZRANGEBYSCORE rd r k hi = filter (\<lambda>m. num (ZSCORE rd r k m) \<le> hi) (ZRANGE rd r k)"
    and zcard: "\<not> is_hash k \<Longrightarrow> ZCARD rd r k = length (ZRANGE rd r k)"
    and pairs: "mset (pairs rd t) = mset t"

section \<open>A reference server\<close>

record ref_db =
  db_hashes :: "(string, (string, int) hmap) hmap"
  db_zsets :: "(string, (string, int) hmap) hmap"
  db_log :: "(string \<times> string) list"
  db_time :: "nat \<times> nat"

definition ref_hash :: "ref_db \<Rightarrow> string \<Rightarrow> (string, int) hmap" where
  "ref_hash r k = AList.clearjunk (get_or [] (db_hashes r) k)"

definition ref_zset :: "ref_db \<Rightarrow> string \<Rightarrow> (string, int) hmap" where
  "ref_zset r k = AList.clearjunk (get_or [] (db_zsets r) k)"

definition ref_put :: "string \<Rightarrow> (string, int) hmap \<Rightarrow> ref_db \<Rightarrow> ref_db" where
  "ref_put k h r = r\<lparr>db_hashes := AList.update k h (db_hashes r)\<rparr>"

definition ref_zput :: "string \<Rightarrow> (string, int) hmap \<Rightarrow> ref_db \<Rightarrow> ref_db" where
  "ref_zput k h r = r\<lparr>db_zsets := AList.update k h (db_zsets r)\<rparr>"

definition ref_members :: "ref_db \<Rightarrow> string \<Rightarrow> string list" where
  "ref_members r k = map fst (sort_key snd (ref_zset r k))"

definition reference_redis :: "ref_db redis" where
  "reference_redis =
     \<lparr>HGET = (\<lambda>r k. map_of (ref_hash r k)),
      HGETALL = ref_hash,
      HSET = (\<lambda>k f v r. ref_put k (AList.update f v (ref_hash r k)) r),
      HDEL = (\<lambda>k f r. ref_put k (AList.delete f (ref_hash r k)) r),
      HINCRBY = (\<lambda>k f n r. let v = num (map_of (ref_hash r k) f) + n
                            in (ref_put k (AList.update f v (ref_hash r k)) r, v)),
      DEL = (\<lambda>k r. ref_put k [] r),
      EXISTS = (\<lambda>r k. ref_hash r k \<noteq> []),
      ZSCORE = (\<lambda>r k. map_of (ref_zset r k)),
      ZADD = (\<lambda>k n m r. ref_zput k (AList.update m n (ref_zset r k)) r),
      ZREM = (\<lambda>k ms r. ref_zput k (filter (\<lambda>(m, _). m \<notin> set ms) (ref_zset r k)) r),
      ZRANGE = ref_members,
      ZRANGEBYSCORE = (\<lambda>r k hi. filter (\<lambda>m. num (map_of (ref_zset r k) m) \<le> hi) (ref_members r k)),
      ZREMRANGEBYSCORE = (\<lambda>k hi r. ref_zput k (filter (\<lambda>(_, n). hi < n) (ref_zset r k)) r),
      ZCARD = (\<lambda>r k. length (ref_members r k)),
      PUBLISH = (\<lambda>c m r. r\<lparr>db_log := db_log r @ [(c, m)]\<rparr>),
      TIME = db_time,
      published = db_log,
      pairs = (\<lambda>t. t)\<rparr>"

definition empty_redis :: ref_db where
  "empty_redis = \<lparr>db_hashes = [], db_zsets = [], db_log = [], db_time = (0, 0)\<rparr>"

lemma map_of_clearjunk [simp]: "map_of (AList.clearjunk m) = map_of m"
  by (rule ext) (simp add: map_of_clearjunk)

lemma distinct_ref [simp]: "distinct (map fst (ref_hash r k))" "distinct (map fst (ref_zset r k))"
  by (simp_all add: ref_hash_def ref_zset_def)

lemma ref_put_simps [simp]:
  "map_of (ref_hash (ref_put k h r) k') = (if k' = k then map_of h else map_of (ref_hash r k'))"
  "ref_zset (ref_put k h r) = ref_zset r" "db_log (ref_put k h r) = db_log r"
  "map_of (ref_zset (ref_zput k h r) k') = (if k' = k then map_of h else map_of (ref_zset r k'))"
  "ref_hash (ref_zput k h r) = ref_hash r" "db_log (ref_zput k h r) = db_log r"
  "ref_hash (r\<lparr>db_log := l\<rparr>) = ref_hash r" "ref_zset (r\<lparr>db_log := l\<rparr>) = ref_zset r"
  by (simp_all add: ref_put_def ref_zput_def ref_hash_def ref_zset_def fun_eq_iff)

lemma map_of_filter_key: "map_of (filter (\<lambda>(m, _). P m) h) = map_of h |` {m. P m}"
  by (induction h) (auto simp: fun_eq_iff restrict_map_def)

lemma map_of_filter_val:
  "distinct (map fst h) \<Longrightarrow>
   map_of (filter (\<lambda>(_, n). P n) h) m = (case map_of h m of None \<Rightarrow> None | Some n \<Rightarrow> if P n then Some n else None)"
proof (induction h)
  case (Cons e h)
  have "map_of h (fst e) = None" using Cons.prems by (simp add: map_of_eq_None_iff)
  then show ?case using Cons by (cases e) (auto split: option.splits)
qed simp

lemma ref_members_props:
  "distinct (ref_members r k)" "set (ref_members r k) = dom (map_of (ref_zset r k))"
proof -
  have "mset (ref_members r k) = mset (map fst (ref_zset r k))" by (simp add: ref_members_def)
  then show "distinct (ref_members r k)" by (metis distinct_ref(2) mset_eq_imp_distinct_iff)
  show "set (ref_members r k) = dom (map_of (ref_zset r k))" by (simp add: ref_members_def dom_map_of_conv_image_fst)
qed

lemmas reference_simps = reference_redis_def map_of_filter_key map_of_filter_val ref_members_props

interpretation reference: redis_server reference_redis is_hash
proof
  fix k f m c :: string and v n hi :: int and ms t r
  show "HGET reference_redis (HSET reference_redis k f v r) =
      (HGET reference_redis r)(k := (HGET reference_redis r k)(f \<mapsto> v))"
    and "HGET reference_redis (HDEL reference_redis k f r) =
      (HGET reference_redis r)(k := (HGET reference_redis r k)(f := None))"
    and "HGET reference_redis (fst (HINCRBY reference_redis k f n r)) =
      (HGET reference_redis r)(k := (HGET reference_redis r k)(f \<mapsto> num (HGET reference_redis r k f) + n))"
    and "HGET reference_redis (DEL reference_redis k r) = (HGET reference_redis r)(k := Map.empty)"
    and "ZSCORE reference_redis (ZADD reference_redis k n m r) =
      (ZSCORE reference_redis r)(k := (ZSCORE reference_redis r k)(m \<mapsto> n))"
    by (auto simp: reference_simps fun_eq_iff Let_def)
  show "ZSCORE reference_redis (ZREM reference_redis k ms r) =
      (ZSCORE reference_redis r)(k := (ZSCORE reference_redis r k) |` (- set ms))"
    by (auto simp: reference_simps fun_eq_iff restrict_map_def)
  show "ZSCORE reference_redis (ZREMRANGEBYSCORE reference_redis k hi r) =
      (ZSCORE reference_redis r)
      (k := (\<lambda>m. case ZSCORE reference_redis r k m of None \<Rightarrow> None | Some n \<Rightarrow> if n \<le> hi then None else Some n))"
    by (auto simp: reference_simps fun_eq_iff split: option.splits)
  show "EXISTS reference_redis r k \<longleftrightarrow> HGET reference_redis r k \<noteq> Map.empty"
    by (cases "ref_hash r k") (auto simp: reference_simps fun_eq_iff)
qed (simp_all add: reference_simps Let_def)

end
