(* ===== verification/Redis_Slots.thy ===== *)
theory Redis_Slots
  imports Redis
begin

text \<open>
  The shared slots in Redis: the Lua scripts of \<open>obleth-redis/src/scripts.rs\<close> over the commands of
  \<open>Redis\<close>, one definition per script and helper function with its \<open>KEYS\<close> and \<open>ARGV\<close> as arguments, and the
  calls of \<open>obleth-redis/src/slots.rs\<close> and \<open>lib.rs\<close> that prepare their arguments and read their replies.
  A script runs atomically. The Redis clock is read once per script, at its start.
\<close>

section \<open>Keys\<close>

record slot_keys =
  sk_replicas :: string
  sk_totals :: string
  sk_held_prefix :: string
  sk_channel :: string
  sk_view_prefix :: string
  sk_holds :: string
  sk_hold_prefix :: string
  sk_recent :: string
  sk_chain :: string

definition slot_keys_default :: slot_keys where
  "slot_keys_default =
     \<lparr>sk_replicas = ''obleth:gateway:replicas'', sk_totals = ''obleth:fairshare:slots'',
      sk_held_prefix = ''obleth:fairshare:held:'', sk_channel = ''obleth:fairshare:released'',
      sk_view_prefix = ''obleth:fairshare:view:'', sk_holds = ''obleth:fairshare:holds'',
      sk_hold_prefix = ''obleth:fairshare:hold:'', sk_recent = ''obleth:fairshare:recent'',
      sk_chain = ''obleth:fairshare:chain''\<rparr>"

definition slot_keys_with_prefix :: "string \<Rightarrow> slot_keys" where
  "slot_keys_with_prefix prefix =
     \<lparr>sk_replicas = prefix @ '':replicas'', sk_totals = prefix @ '':slots'',
      sk_held_prefix = prefix @ '':held:'', sk_channel = prefix @ '':released'',
      sk_view_prefix = prefix @ '':view:'', sk_holds = prefix @ '':holds'',
      sk_hold_prefix = prefix @ '':hold:'', sk_recent = prefix @ '':recent'',
      sk_chain = prefix @ '':chain''\<rparr>"

definition sk_held :: "slot_keys \<Rightarrow> string \<Rightarrow> string" where
  "sk_held ks inst = sk_held_prefix ks @ inst"

definition sk_view :: "slot_keys \<Rightarrow> string \<Rightarrow> string" where
  "sk_view ks inst = sk_view_prefix ks @ inst"

definition WAIT_MARK_MS :: nat where "WAIT_MARK_MS = 1000"

section \<open>Helper functions of the scripts\<close>

definition now_ms :: "'r redis \<Rightarrow> 'r \<Rightarrow> nat" where
  "now_ms rd r = (case TIME rd r of (secs, micros) \<Rightarrow> secs * 1000 + micros div 1000)"

definition adjust :: "'r redis \<Rightarrow> string \<Rightarrow> string \<Rightarrow> int \<Rightarrow> 'r \<Rightarrow> 'r" where
  "adjust rd key field n r =
     (let (r, v) = HINCRBY rd key field n r in if v \<le> 0 then HDEL rd key field r else r)"

definition wake :: "'r redis \<Rightarrow> string \<Rightarrow> string \<Rightarrow> string \<Rightarrow> nat \<Rightarrow> 'r \<Rightarrow> 'r" where
  "wake rd totals pool channel now r =
     (let wp = num (HGET rd r totals (''w|'' @ pool));
          wg = num (HGET rd r totals ''w'');
          r = (if int now < wp \<or> int now < wg then PUBLISH rd channel pool r else r);
          r = (if wp \<noteq> 0 \<and> wp \<le> int now then HDEL rd totals (''w|'' @ pool) r else r)
      in if wg \<noteq> 0 \<and> wg \<le> int now then HDEL rd totals ''w'' r else r)"

definition reclaim_entry :: "'r redis \<Rightarrow> string \<Rightarrow> string \<Rightarrow> nat \<Rightarrow> string \<times> int \<Rightarrow> 'r \<Rightarrow> 'r" where
  "reclaim_entry rd totals channel now e r =
     (case e of (f, n) \<Rightarrow>
        if 0 < n then
          (let r = adjust rd totals f (- n) r
           in if take 2 f = ''p|'' then wake rd totals (drop 2 f) channel now r else r)
        else r)"

definition lua_reclaim :: "'r redis \<Rightarrow> string \<Rightarrow> string \<Rightarrow> string \<Rightarrow> nat \<Rightarrow> 'r \<Rightarrow> 'r" where
  "lua_reclaim rd totals held channel now r =
     DEL rd held (fold (reclaim_entry rd totals channel now) (HGETALL rd r held) r)"

definition lua_purge_holds :: "'r redis \<Rightarrow> string \<Rightarrow> string \<Rightarrow> string \<Rightarrow> string \<Rightarrow> nat \<Rightarrow> 'r \<Rightarrow> 'r" where
  "lua_purge_holds rd totals holds prefix channel now r =
     (let expired = ZRANGEBYSCORE rd r holds (int now);
          r = fold (\<lambda>i. lua_reclaim rd totals (prefix @ i) channel now) expired r
      in if expired \<noteq> [] then ZREMRANGEBYSCORE rd holds (int now) r else r)"

definition lua_free_pool_holds ::
  "'r redis \<Rightarrow> string \<Rightarrow> string \<Rightarrow> string \<Rightarrow> string \<Rightarrow> nat \<Rightarrow> string \<Rightarrow> string \<Rightarrow> 'r \<Rightarrow> 'r" where
  "lua_free_pool_holds rd totals holds prefix channel now pool keep r =
     (let lead = pool @ ''|'';
          freed = filter (\<lambda>i. i \<noteq> keep \<and> take (length lead) i = lead) (ZRANGE rd r holds);
          r = fold (\<lambda>i. lua_reclaim rd totals (prefix @ i) channel now) freed r
      in if freed \<noteq> [] then ZREM rd holds freed r else r)"

section \<open>Replicas\<close>

definition replica_heartbeat_script ::
  "'r redis \<Rightarrow> string \<Rightarrow> string \<Rightarrow> string \<Rightarrow> string \<Rightarrow> nat \<Rightarrow> string \<Rightarrow> string \<Rightarrow> string \<Rightarrow> 'r \<Rightarrow> 'r \<times> nat" where
  "replica_heartbeat_script rd key totals holds inst ttl held_prefix channel hold_prefix r =
     (let now = now_ms rd r;
          r = ZADD rd key (int (now + ttl)) inst r;
          expired = ZRANGEBYSCORE rd r key (int now);
          r = fold (\<lambda>i. lua_reclaim rd totals (held_prefix @ i) channel now) expired r;
          r = ZREMRANGEBYSCORE rd key (int now) r;
          r = lua_purge_holds rd totals holds hold_prefix channel now r
      in (r, ZCARD rd r key))"

definition replica_deregister_script ::
  "'r redis \<Rightarrow> string \<Rightarrow> string \<Rightarrow> string \<Rightarrow> string \<Rightarrow> string \<Rightarrow> string \<Rightarrow> 'r \<Rightarrow> 'r \<times> int" where
  "replica_deregister_script rd replicas totals held view inst channel r =
     (let r = lua_reclaim rd totals held channel (now_ms rd r) r;
          r = ZREM rd replicas [inst] r
      in (DEL rd view r, 1))"

section \<open>Claims\<close>

definition is_live :: "'r redis \<Rightarrow> string \<Rightarrow> nat \<Rightarrow> string \<Rightarrow> 'r \<Rightarrow> bool" where
  "is_live rd replicas now inst r =
     (case ZSCORE rd r replicas inst of None \<Rightarrow> False | Some e \<Rightarrow> \<not> e \<le> int now)"

text \<open>Taking over a held slot: its counts move into the replica's holdings.\<close>

definition take_entry :: "'r redis \<Rightarrow> string \<Rightarrow> string \<Rightarrow> string \<times> int \<Rightarrow> 'r \<Rightarrow> 'r" where
  "take_entry rd totals held e r =
     (case e of (f, n) \<Rightarrow> if take 2 f = ''h|'' then adjust rd totals f (- n) r else fst (HINCRBY rd held f n r))"

definition lua_take_over :: "'r redis \<Rightarrow> string \<Rightarrow> string \<Rightarrow> string \<Rightarrow> (string \<times> int) list \<Rightarrow> string \<Rightarrow> string \<Rightarrow> 'r \<Rightarrow> 'r" where
  "lua_take_over rd totals held hold h holds i r =
     ZREM rd holds [i] (DEL rd hold (fold (take_entry rd totals held) h r))"

definition lua_fields :: "string \<Rightarrow> string \<Rightarrow> string \<Rightarrow> string list" where
  "lua_fields pool tenant key =
     [''g'', ''p|'' @ pool, ''t|'' @ pool @ ''|'' @ tenant, ''k|'' @ pool @ ''|'' @ key]"

definition claim_code :: "int \<Rightarrow> int \<Rightarrow> int \<Rightarrow> int \<Rightarrow> nat \<Rightarrow> nat \<Rightarrow> nat \<Rightarrow> nat \<Rightarrow> int" where
  "claim_code p g tn kn pool_cap global_cap tcap kcap =
     (if int pool_cap \<le> p then 0
      else if int global_cap \<le> g then - 1
      else if 0 < tcap \<and> int tcap \<le> tn then - 2
      else if 0 < kcap \<and> int kcap \<le> kn then - 3
      else 1)"

text \<open>A claim of a live replica, once the holds that ran out are freed: take over the held slot, or check the caps.\<close>

definition lua_decide ::
  "'r redis \<Rightarrow> string \<Rightarrow> string \<Rightarrow> string \<Rightarrow> string \<Rightarrow> string \<Rightarrow> string \<Rightarrow> nat \<Rightarrow> nat \<Rightarrow> nat \<Rightarrow> nat \<Rightarrow> nat
     \<Rightarrow> string \<Rightarrow> string \<Rightarrow> bool \<Rightarrow> nat \<Rightarrow> 'r \<Rightarrow> 'r \<times> int \<times> int \<times> int" where
  "lua_decide rd totals held holds pool tenant key pool_cap global_cap tcap kcap mark hold_prefix session_hold redeem_only now r =
     (let pf = ''p|'' @ pool; tf = ''t|'' @ pool @ ''|'' @ tenant; kf = ''k|'' @ pool @ ''|'' @ key;
          g = num (HGET rd r totals ''g''); p = num (HGET rd r totals pf);
          tn = num (HGET rd r totals tf); kn = num (HGET rd r totals kf);
          h = (if session_hold \<noteq> [] then HGETALL rd r (hold_prefix @ session_hold) else [])
      in if h \<noteq> [] then (lua_take_over rd totals held (hold_prefix @ session_hold) h holds session_hold r, 2, p, g)
         else if session_hold \<noteq> [] \<and> redeem_only then (r, 3, p, g)
         else
           (let code = claim_code p g tn kn pool_cap global_cap tcap kcap
            in if code \<noteq> 1 then
                 (HSET rd totals (if code = - 1 then ''w'' else ''w|'' @ pool) (int (now + mark)) r, code, p, g)
               else
                 (fold (\<lambda>f r. fst (HINCRBY rd held f 1 (fst (HINCRBY rd totals f 1 r)))) [''g'', pf, tf, kf] r,
                  1, p + 1, g + 1)))"

definition slot_acquire_script ::
  "'r redis \<Rightarrow> string \<Rightarrow> string \<Rightarrow> string \<Rightarrow> string \<Rightarrow> string \<Rightarrow> string \<Rightarrow> string \<Rightarrow> string \<Rightarrow> nat \<Rightarrow> nat \<Rightarrow> nat \<Rightarrow> nat \<Rightarrow> nat
     \<Rightarrow> string \<Rightarrow> string \<Rightarrow> string \<Rightarrow> bool \<Rightarrow> bool \<Rightarrow> 'r \<Rightarrow> 'r \<times> int \<times> int \<times> int" where
  "slot_acquire_script rd totals held replicas holds inst pool tenant key pool_cap global_cap tcap kcap mark
       hold_prefix channel session_hold redeem_only starving r =
     (let now = now_ms rd r
      in if \<not> is_live rd replicas now inst r then
           (r, - 4, num (HGET rd r totals (''p|'' @ pool)), num (HGET rd r totals ''g''))
         else
           (let r = lua_purge_holds rd totals holds hold_prefix channel now r;
                r = (if starving then
                       lua_free_pool_holds rd totals holds hold_prefix channel now pool session_hold
                         (HSET rd totals (''wa|'' @ pool) (int (now + mark)) r)
                     else r)
            in lua_decide rd totals held holds pool tenant key pool_cap global_cap tcap kcap mark hold_prefix
                 session_hold redeem_only now r))"

section \<open>Giving back and holding\<close>

definition lua_give_back :: "'r redis \<Rightarrow> string \<Rightarrow> string \<Rightarrow> string \<Rightarrow> 'r \<Rightarrow> 'r" where
  "lua_give_back rd totals held f r =
     (if 0 < num (HGET rd r held f) then adjust rd totals f (- 1) (adjust rd held f (- 1) r) else r)"

text \<open>
  The loop that gives the fields back, as \<open>SLOT_RELEASE\<close> and the end of \<open>SLOT_HOLD\<close> have it; the slot is freed
  when the pool's own field was.
\<close>

definition lua_release_fields ::
  "'r redis \<Rightarrow> string \<Rightarrow> string \<Rightarrow> string \<Rightarrow> string \<Rightarrow> string \<Rightarrow> string \<Rightarrow> nat \<Rightarrow> 'r \<Rightarrow> 'r \<times> int \<times> int \<times> int" where
  "lua_release_fields rd totals held pool tenant key channel now r =
     (let (r, freed) = fold (\<lambda>f (r, freed).
             (lua_give_back rd totals held f r,
              if 0 < num (HGET rd r held f) \<and> f = ''p|'' @ pool then 1 else freed))
             (lua_fields pool tenant key) (r, 0);
          r = (if freed = 1 then wake rd totals pool channel now r else r)
      in (r, freed, num (HGET rd r totals (''p|'' @ pool)), num (HGET rd r totals ''g'')))"

definition slot_release_script ::
  "'r redis \<Rightarrow> string \<Rightarrow> string \<Rightarrow> string \<Rightarrow> string \<Rightarrow> string \<Rightarrow> string \<Rightarrow> 'r \<Rightarrow> 'r \<times> int \<times> int \<times> int" where
  "slot_release_script rd totals held pool tenant key channel r =
     lua_release_fields rd totals held pool tenant key channel (now_ms rd r) r"

definition lua_hand_over :: "'r redis \<Rightarrow> string \<Rightarrow> string \<Rightarrow> string \<Rightarrow> 'r \<Rightarrow> 'r" where
  "lua_hand_over rd held hold f r =
     (if 0 < num (HGET rd r held f) then fst (HINCRBY rd hold f 1 (adjust rd held f (- 1) r)) else r)"

text \<open>Forgetting the sessions whose last step finished too long ago, and noting this finish.\<close>

definition lua_note_step :: "'r redis \<Rightarrow> string \<Rightarrow> string \<Rightarrow> nat \<Rightarrow> string \<Rightarrow> nat \<Rightarrow> nat \<Rightarrow> nat \<Rightarrow> 'r \<Rightarrow> 'r \<times> bool" where
  "lua_note_step rd recent chain now i ttl arrived_ago remember r =
     (let cutoff = int now - int remember;
          r = fold (HDEL rd chain) (ZRANGEBYSCORE rd r recent cutoff) r;
          r = ZREMRANGEBYSCORE rd recent cutoff r;
          prev = ZSCORE rd r recent i;
          r = ZADD rd recent (int now) i r
      in (r, case prev of None \<Rightarrow> False | Some d \<Rightarrow> (int now - int arrived_ago) - d \<le> int ttl))"

definition slot_hold_script ::
  "'r redis \<Rightarrow> string \<Rightarrow> string \<Rightarrow> string \<Rightarrow> string \<Rightarrow> string \<Rightarrow> string \<Rightarrow> string \<Rightarrow> string \<Rightarrow> string \<Rightarrow> string \<Rightarrow> string
     \<Rightarrow> nat \<Rightarrow> nat \<Rightarrow> nat \<Rightarrow> nat \<Rightarrow> nat \<Rightarrow> 'r \<Rightarrow> 'r \<times> int \<times> int \<times> int" where
  "slot_hold_script rd totals held holds recent chain pool tenant key channel hold_prefix i ttl most_held arrived_ago
       remember most_run r =
     (let pf = ''p|'' @ pool; hf = ''h|'' @ pool; hold = hold_prefix @ i;
          now = now_ms rd r;
          r = lua_purge_holds rd totals holds hold_prefix channel now r;
          (r, chained) = lua_note_step rd recent chain now i ttl arrived_ago remember r;
          waited = (int now < num (HGET rd r totals (''w|'' @ pool)) \<or> int now < num (HGET rd r totals ''w''));
          mark = HGET rd r totals (''wa|'' @ pool);
          starving = (int now < num mark);
          r = (if mark \<noteq> None \<and> \<not> starving then HDEL rd totals (''wa|'' @ pool) r else r);
          run = num (HGET rd r chain i)
      in if chained \<and> \<not> starving \<and> (\<not> waited \<or> run < int most_run) \<and> 0 < num (HGET rd r held pf)
            \<and> num (HGET rd r totals hf) < int most_held \<and> \<not> EXISTS rd r hold
         then
           (let r = fold (lua_hand_over rd held hold) (lua_fields pool tenant key) r;
                r = fst (HINCRBY rd hold hf 1 r);
                r = fst (HINCRBY rd totals hf 1 r);
                r = ZADD rd holds (int (now + ttl)) i r;
                r = (if waited then HSET rd chain i (run + 1) r else HDEL rd chain i r)
            in (r, 2, num (HGET rd r totals pf), num (HGET rd r totals ''g'')))
         else lua_release_fields rd totals held pool tenant key channel now (HDEL rd chain i r))"

section \<open>Reconciling\<close>

definition lua_table :: "(string \<times> nat) list \<Rightarrow> (string, int) hmap" where
  "lua_table args = fold (\<lambda>(f, n) t. if 0 < n then AList.update f (int n) t else t) args []"

text \<open>The two loops over the old and the new holdings that bring the totals up to date.\<close>

definition replace_entry :: "'r redis \<Rightarrow> string \<Rightarrow> (string, int) hmap \<Rightarrow> string \<times> int \<Rightarrow> 'r \<Rightarrow> 'r" where
  "replace_entry rd totals new e r =
     (let d = get_or 0 new (fst e) - snd e in if d \<noteq> 0 then adjust rd totals (fst e) d r else r)"

definition new_entry :: "'r redis \<Rightarrow> string \<Rightarrow> (string, int) hmap \<Rightarrow> string \<times> int \<Rightarrow> 'r \<Rightarrow> 'r" where
  "new_entry rd totals old e r =
     (if \<not> contains_key old (fst e) then adjust rd totals (fst e) (snd e) r else r)"

definition slot_reconcile_script ::
  "'r redis \<Rightarrow> string \<Rightarrow> string \<Rightarrow> string \<Rightarrow> string \<Rightarrow> string \<Rightarrow> (string \<times> nat) list \<Rightarrow> 'r \<Rightarrow> 'r \<times> int" where
  "slot_reconcile_script rd totals held replicas inst channel args r =
     (let now = now_ms rd r
      in if \<not> is_live rd replicas now inst r then (r, - 4)
         else
           (let new = lua_table args;
                old = pairs rd (HGETALL rd r held);
                lowered = map (drop 2 \<circ> fst)
                  (filter (\<lambda>e. get_or 0 new (fst e) - snd e < 0 \<and> take 2 (fst e) = ''p|'') old);
                r = fold (replace_entry rd totals new) old r;
                r = fold (new_entry rd totals old) (pairs rd new) r;
                r = DEL rd held r;
                r = fold (\<lambda>e. HSET rd held (fst e) (snd e)) (pairs rd new) r;
                r = fold (\<lambda>pool. wake rd totals pool channel now) lowered r
            in (r, 1)))"

section \<open>Calls of the store\<close>

text \<open>
  What becomes of a script call: it runs and its reply arrives, it never reaches the server, or it runs and
  the reply is lost. Both failures are a \<open>RedisError\<close>, passed on as \<open>SlotError\<close>.
\<close>

datatype delivery = Delivered | NotSent string | ReplyLost string

definition invoke :: "delivery \<Rightarrow> ('r \<Rightarrow> 'r \<times> 'a) \<Rightarrow> 'r \<Rightarrow> 'r \<times> (slot_error + 'a)" where
  "invoke d script r =
     (case d of Delivered \<Rightarrow> map_prod id Inr (script r)
      | NotSent e \<Rightarrow> (r, Inl e)
      | ReplyLost e \<Rightarrow> (fst (script r), Inl e))"

definition reply_counts :: "int \<Rightarrow> int \<Rightarrow> cluster_counts" where
  "reply_counts pool global = \<lparr>cc_pool = nat (max pool 0), cc_global = nat (max global 0)\<rparr>"

definition acquire_outcome_of :: "int \<Rightarrow> acquire_outcome" where
  "acquire_outcome_of code =
     (if code = 1 then Granted else if code = 2 then Redeemed else if code = 3 then NotHeld
      else if code = 0 then Denied DenyPool else if code = - 1 then Denied DenyGlobal
      else if code = - 2 then Denied DenyTenant else if code = - 3 then Denied DenyKey else NotRegistered)"

definition slot_acquire ::
  "'r redis \<Rightarrow> slot_keys \<Rightarrow> delivery \<Rightarrow> string \<Rightarrow> slot_claim \<Rightarrow> 'r \<Rightarrow> 'r \<times> (slot_error + acquire_outcome \<times> cluster_counts)" where
  "slot_acquire rd ks d inst c r =
     map_prod id (map_sum id (\<lambda>(code, pool, global). (acquire_outcome_of code, reply_counts pool global)))
       (invoke d (slot_acquire_script rd (sk_totals ks) (sk_held ks inst) (sk_replicas ks) (sk_holds ks) inst
          (sc_pool c) (sc_tenant c) (sc_key c) (max (sc_pool_cap c) 1) (max (sc_global_cap c) 1)
          (case sc_tenant_cap c of None \<Rightarrow> 0 | Some m \<Rightarrow> m) (case sc_key_cap c of None \<Rightarrow> 0 | Some m \<Rightarrow> m)
          WAIT_MARK_MS (sk_hold_prefix ks) (sk_channel ks) (case sc_hold c of None \<Rightarrow> [] | Some i \<Rightarrow> i)
          (sc_redeem_only c) (sc_starving c)) r)"

definition slot_release ::
  "'r redis \<Rightarrow> slot_keys \<Rightarrow> delivery \<Rightarrow> string \<Rightarrow> slot_release \<Rightarrow> 'r \<Rightarrow> 'r \<times> (slot_error + bool \<times> cluster_counts)" where
  "slot_release rd ks d inst sl r =
     map_prod id (map_sum id (\<lambda>(freed, pool, global). (freed = 1, reply_counts pool global)))
       (invoke d (slot_release_script rd (sk_totals ks) (sk_held ks inst) (sr_pool sl) (sr_tenant sl) (sr_key sl)
          (sk_channel ks)) r)"

definition slot_hold ::
  "'r redis \<Rightarrow> slot_keys \<Rightarrow> delivery \<Rightarrow> string \<Rightarrow> slot_release \<Rightarrow> slot_hold \<Rightarrow> 'r \<Rightarrow> 'r \<times> (slot_error + bool \<times> cluster_counts)" where
  "slot_hold rd ks d inst sl h r =
     map_prod id (map_sum id (\<lambda>(code, pool, global). (code = 2, reply_counts pool global)))
       (invoke d (slot_hold_script rd (sk_totals ks) (sk_held ks inst) (sk_holds ks) (sk_recent ks) (sk_chain ks)
          (sr_pool sl) (sr_tenant sl) (sr_key sl) (sk_channel ks) (sk_hold_prefix ks) (sh_id h) (max (sh_ttl h) 1)
          (sh_max_held h) (sh_arrived_ago h) (max (sh_remember h) 1) (max (sh_max_run h) 1)) r)"

definition holding_fields :: "pool_holdings list \<Rightarrow> (string \<times> nat) list" where
  "holding_fields hs =
     (let global = sum_list (map ph_in_flight hs)
      in filter (\<lambda>(_, n). 0 < n)
           ((if 0 < global then [(''g'', global)] else [])
            @ concat (map (\<lambda>h.
                (if 0 < ph_in_flight h then [(''p|'' @ ph_pool h, ph_in_flight h)] else [])
                @ map (\<lambda>(tenant, n). (''t|'' @ ph_pool h @ ''|'' @ tenant, n)) (ph_tenants h)
                @ map (\<lambda>(key, n). (''k|'' @ ph_pool h @ ''|'' @ key, n)) (ph_keys h)) hs)))"

definition slot_reconcile ::
  "'r redis \<Rightarrow> slot_keys \<Rightarrow> delivery \<Rightarrow> string \<Rightarrow> pool_holdings list \<Rightarrow> 'r \<Rightarrow> 'r \<times> (slot_error + reconcile_outcome)" where
  "slot_reconcile rd ks d inst hs r =
     map_prod id (map_sum id (\<lambda>code. if code = 1 then Synced else ReconcileNotRegistered))
       (invoke d (slot_reconcile_script rd (sk_totals ks) (sk_held ks inst) (sk_replicas ks) inst (sk_channel ks)
          (holding_fields hs)) r)"

definition slot_totals :: "'r redis \<Rightarrow> slot_keys \<Rightarrow> delivery \<Rightarrow> string list \<Rightarrow> 'r \<Rightarrow> 'r \<times> (slot_error + nat \<times> nat list)" where
  "slot_totals rd ks d pools =
     invoke d (\<lambda>r. (r, nat (max (num (HGET rd r (sk_totals ks) ''g'')) 0),
                       map (\<lambda>p. nat (max (num (HGET rd r (sk_totals ks) (''p|'' @ p))) 0)) pools))"

definition replica_heartbeat_in ::
  "'r redis \<Rightarrow> slot_keys \<Rightarrow> delivery \<Rightarrow> string \<Rightarrow> duration \<Rightarrow> 'r \<Rightarrow> 'r \<times> (slot_error + nat)" where
  "replica_heartbeat_in rd ks d inst ttl =
     invoke d (replica_heartbeat_script rd (sk_replicas ks) (sk_totals ks) (sk_holds ks) inst (max ttl 1)
       (sk_held_prefix ks) (sk_channel ks) (sk_hold_prefix ks))"

definition replica_deregister_in ::
  "'r redis \<Rightarrow> slot_keys \<Rightarrow> delivery \<Rightarrow> string \<Rightarrow> 'r \<Rightarrow> 'r \<times> (slot_error + unit)" where
  "replica_deregister_in rd ks d inst r =
     map_prod id (map_sum id (\<lambda>_. ()))
       (invoke d (replica_deregister_script rd (sk_replicas ks) (sk_totals ks) (sk_held ks inst) (sk_view ks inst) inst
          (sk_channel ks)) r)"

end
