(* ===== verification/Redis_Refine.thy ===== *)
theory Redis_Refine
  imports Redis_Slots Slot_Holds
begin

text \<open>
  The Redis scripts implement the in-process slot backend of \<open>Slots\<close>. \<open>stands_for\<close> relates a database to a
  backend state at a time: the totals and holdings hashes hold the counts, a count at zero having no field, the
  sorted sets and the chain hash hold the session tables, wait marks agree from that time on (Redis drops marks
  that ran out, the backend keeps them), and a replica is live when its heartbeat has not expired. The locale
  \<open>slot_scripts\<close> is a server whose keys are laid out so that no two tables share one.
\<close>

section \<open>The relation\<close>

definition cnt :: "nat \<Rightarrow> int option" where
  "cnt n = (if n = 0 then None else Some (int n))"

definition owner_key :: "slot_keys \<Rightarrow> string \<Rightarrow> string" where
  "owner_key ks o' = (if starts_with ''hold:'' o' then sk_hold_prefix ks @ drop 5 o' else sk_held ks o')"

definition current :: "(string \<rightharpoonup> instant) \<Rightarrow> string \<Rightarrow> instant \<Rightarrow> bool" where
  "current m p t = (case m p of None \<Rightarrow> False | Some until \<Rightarrow> t < until)"

definition wait_mark :: "string \<Rightarrow> string" where
  "wait_mark p = (if p = [] then ''w'' else ''w|'' @ p)"

definition counts_agree :: "'r redis \<Rightarrow> slot_keys \<Rightarrow> 'r \<Rightarrow> mem_state \<Rightarrow> bool" where
  "counts_agree rd ks r s \<longleftrightarrow>
     (\<forall>f. count_field f \<longrightarrow> HGET rd r (sk_totals ks) f = cnt (ms_count s f)) \<and>
     (\<forall>o' f. HGET rd r (owner_key ks o') f = cnt (mine o' f s))"

definition holds_agree :: "'r redis \<Rightarrow> slot_keys \<Rightarrow> 'r \<Rightarrow> mem_state \<Rightarrow> bool" where
  "holds_agree rd ks r s \<longleftrightarrow> (\<forall>i. ZSCORE rd r (sk_holds ks) i = map_option int (map_of (ms_holds s) i))"

definition tables_agree :: "'r redis \<Rightarrow> slot_keys \<Rightarrow> nat \<Rightarrow> 'r \<Rightarrow> mem_state \<Rightarrow> bool" where
  "tables_agree rd ks now r s \<longleftrightarrow>
     (\<forall>i. ZSCORE rd r (sk_recent ks) i = map_option int (map_of (ms_recent s) i)) \<and>
     (\<forall>i. HGET rd r (sk_chain ks) i = cnt (get_or 0 (ms_chain s) i)) \<and>
     (\<forall>p t. now \<le> t \<longrightarrow> (int t < num (HGET rd r (sk_totals ks) (wait_mark p))) = current (map_of (ms_waiting s)) p t) \<and>
     (\<forall>p t. now \<le> t \<longrightarrow> (int t < num (HGET rd r (sk_totals ks) (''wa|'' @ p))) = current (map_of (ms_starving s)) p t) \<and>
     (\<forall>i. is_live rd (sk_replicas ks) now i r \<longleftrightarrow> i \<in> set (ms_live s))"

definition stands_for :: "'r redis \<Rightarrow> slot_keys \<Rightarrow> nat \<Rightarrow> 'r \<Rightarrow> mem_state \<Rightarrow> bool" where
  "stands_for rd ks now r s \<longleftrightarrow> counts_agree rd ks r s \<and> holds_agree rd ks r s \<and> tables_agree rd ks now r s"

definition keys_apart :: "(string \<Rightarrow> bool) \<Rightarrow> slot_keys \<Rightarrow> bool" where
  "keys_apart is_hash ks \<longleftrightarrow>
     is_hash (sk_totals ks) \<and> is_hash (sk_chain ks) \<and> (\<forall>i. is_hash (sk_held ks i)) \<and> (\<forall>i. is_hash (sk_hold_prefix ks @ i)) \<and>
     (\<forall>i. is_hash (sk_view ks i)) \<and> \<not> is_hash (sk_replicas ks) \<and> \<not> is_hash (sk_holds ks) \<and> \<not> is_hash (sk_recent ks) \<and>
     sk_replicas ks \<noteq> sk_holds ks \<and> sk_replicas ks \<noteq> sk_recent ks \<and> sk_holds ks \<noteq> sk_recent ks \<and> sk_totals ks \<noteq> sk_chain ks \<and>
     (\<forall>i. sk_held ks i \<noteq> sk_totals ks \<and> sk_held ks i \<noteq> sk_chain ks \<and> sk_view ks i \<noteq> sk_totals ks \<and> sk_view ks i \<noteq> sk_chain ks \<and>
       sk_hold_prefix ks @ i \<noteq> sk_totals ks \<and> sk_hold_prefix ks @ i \<noteq> sk_chain ks) \<and>
     (\<forall>i j. sk_held ks i \<noteq> sk_hold_prefix ks @ j \<and> sk_view ks i \<noteq> sk_held ks j \<and> sk_view ks i \<noteq> sk_hold_prefix ks @ j)"

lemma num_cnt [simp]: "num (cnt n) = int n"
  by (simp add: cnt_def)

lemma cnt_eq [simp]: "cnt n = cnt m \<longleftrightarrow> n = m" "cnt n = None \<longleftrightarrow> n = 0" "cnt 0 = None"
  by (auto simp: cnt_def)

lemma cnt_Some: "cnt n = Some v \<longleftrightarrow> 0 < v \<and> n = nat v"
  by (auto simp: cnt_def)

lemma cnt_shift: "(if int n + d \<le> 0 then None else Some (int n + d)) = cnt (nat (int n + d))"
  by (simp add: cnt_def)

lemma owner_key_simps:
  "owner_key ks (hold_owner i) = sk_hold_prefix ks @ i" "replica inst \<Longrightarrow> owner_key ks inst = sk_held ks inst"
  by (simp_all add: owner_key_def hold_owner_def starts_with_def replica_def)

lemma marks_not_count [simp]: "\<not> count_field (wait_mark p)" "wait_mark p \<noteq> ''wa|'' @ q" "wait_mark p = wait_mark q \<longleftrightarrow> p = q"
  by (auto simp: wait_mark_def)

lemma stands_for_obs:
  assumes "obs s = obs s'" and "stands_for rd ks now r s"
  shows "stands_for rd ks now r s'"
proof -
  have "ms_count s = ms_count s'" "(\<lambda>o' f. mine o' f s) = (\<lambda>o' f. mine o' f s')" "map_of (ms_holds s) = map_of (ms_holds s')"
    "map_of (ms_recent s) = map_of (ms_recent s')" "get_or 0 (ms_chain s) = get_or 0 (ms_chain s')"
    "map_of (ms_waiting s) = map_of (ms_waiting s')" "map_of (ms_starving s) = map_of (ms_starving s')"
    "set (ms_live s) = set (ms_live s')"
    using assms(1) by (simp_all add: obs_def tables_def)
  moreover then have "mine o' f s = mine o' f s'" for o' f by metis
  ultimately show ?thesis
    using assms(2) by (simp add: stands_for_def counts_agree_def holds_agree_def tables_agree_def)
qed

text \<open>The pools whose release the scripts publish, of those a step frees a slot of.\<close>

definition waited :: "'r redis \<Rightarrow> slot_keys \<Rightarrow> nat \<Rightarrow> 'r \<Rightarrow> string \<Rightarrow> bool" where
  "waited rd ks now r p \<longleftrightarrow>
     int now < num (HGET rd r (sk_totals ks) (''w|'' @ p)) \<or> int now < num (HGET rd r (sk_totals ks) ''w'')"

text \<open>
  Two databases that differ in counts and in wait marks that ran out only, the held slots' ids aside; and what a
  script published on top of what was published before: the pools of \<open>ps\<close> that are waited on.
\<close>

definition same_tables :: "'r redis \<Rightarrow> slot_keys \<Rightarrow> nat \<Rightarrow> 'r \<Rightarrow> 'r \<Rightarrow> bool" where
  "same_tables rd ks now r r' \<longleftrightarrow>
     (\<forall>k. k \<noteq> sk_holds ks \<longrightarrow> ZSCORE rd r' k = ZSCORE rd r k) \<and> HGET rd r' (sk_chain ks) = HGET rd r (sk_chain ks) \<and>
     (\<forall>f t. \<not> count_field f \<longrightarrow> now \<le> t \<longrightarrow>
       (int t < num (HGET rd r' (sk_totals ks) f)) = (int t < num (HGET rd r (sk_totals ks) f)))"

definition published_for :: "'r redis \<Rightarrow> slot_keys \<Rightarrow> nat \<Rightarrow> 'r \<Rightarrow> 'r \<Rightarrow> string set \<Rightarrow> bool" where
  "published_for rd ks now r r' ps \<longleftrightarrow>
     (\<exists>l. published rd r' = published rd r @ map (Pair (sk_channel ks)) l \<and> set l = {p \<in> ps. waited rd ks now r p})"

lemma same_tables_refl [simp]: "same_tables rd ks now r r"
  by (simp add: same_tables_def)

lemma same_tables_trans: "same_tables rd ks now r r' \<Longrightarrow> same_tables rd ks now r' r'' \<Longrightarrow> same_tables rd ks now r r''"
  by (simp add: same_tables_def)

lemma same_tables_waited: "same_tables rd ks now r r' \<Longrightarrow> waited rd ks now r' = waited rd ks now r"
  by (auto simp: same_tables_def waited_def fun_eq_iff)

lemma published_for_append:
  assumes "published_for rd ks now r r' ps" and "published_for rd ks now r' r'' qs" and "waited rd ks now r' = waited rd ks now r"
  shows "published_for rd ks now r r'' (ps \<union> qs)"
proof -
  obtain l l' where "published rd r' = published rd r @ map (Pair (sk_channel ks)) l" "set l = {p \<in> ps. waited rd ks now r p}"
    "published rd r'' = published rd r' @ map (Pair (sk_channel ks)) l'" "set l' = {p \<in> qs. waited rd ks now r p}"
    using assms by (auto simp: published_for_def)
  then show ?thesis unfolding published_for_def by (intro exI [of _ "l @ l'"]) auto
qed

lemmas published_for_trans = published_for_append [OF _ _ same_tables_waited]

lemma published_for_none: "published rd r' = published rd r \<Longrightarrow> published_for rd ks now r r' {}"
  by (simp add: published_for_def)

lemma tables_agree_frame:
  assumes "tables_agree rd ks now r s" and "same_tables rd ks now r r'" and "tables s' = tables s"
    and "sk_recent ks \<noteq> sk_holds ks" and "sk_replicas ks \<noteq> sk_holds ks"
  shows "tables_agree rd ks now r' s'"
proof -
  have t: "map_of (ms_recent s') = map_of (ms_recent s)" "get_or 0 (ms_chain s') = get_or 0 (ms_chain s)"
    "map_of (ms_waiting s') = map_of (ms_waiting s)" "map_of (ms_starving s') = map_of (ms_starving s)"
    "set (ms_live s') = set (ms_live s)"
    using assms(3) by (simp_all add: tables_def)
  have f: "\<not> count_field f \<Longrightarrow> now \<le> t \<Longrightarrow>
      (int t < num (HGET rd r' (sk_totals ks) f)) = (int t < num (HGET rd r (sk_totals ks) f))" for f t
    using assms(2) by (simp add: same_tables_def)
  have z: "ZSCORE rd r' (sk_recent ks) = ZSCORE rd r (sk_recent ks)" "ZSCORE rd r' (sk_replicas ks) = ZSCORE rd r (sk_replicas ks)"
    "HGET rd r' (sk_chain ks) = HGET rd r (sk_chain ks)"
    using assms(2,4,5) by (simp_all add: same_tables_def)
  show ?thesis using assms(1) f by (simp add: tables_agree_def t z is_live_def)
qed

section \<open>Helper functions\<close>

locale slot_scripts = redis_server rd is_hash for rd :: "'r redis" and is_hash +
  fixes ks :: slot_keys
  assumes keys_apart: "keys_apart is_hash ks"
begin

lemma kinds [simp]:
  "is_hash (sk_totals ks)" "is_hash (sk_chain ks)" "is_hash (sk_held ks i)" "is_hash (sk_hold_prefix ks @ i)" "is_hash (sk_view ks i)"
  "\<not> is_hash (sk_replicas ks)" "\<not> is_hash (sk_holds ks)" "\<not> is_hash (sk_recent ks)" "is_hash (owner_key ks o')"
  using keys_apart by (auto simp: keys_apart_def owner_key_def)

lemma distinct_keys [simp]:
  "sk_replicas ks \<noteq> sk_holds ks" "sk_replicas ks \<noteq> sk_recent ks" "sk_holds ks \<noteq> sk_recent ks" "sk_totals ks \<noteq> sk_chain ks"
  "sk_holds ks \<noteq> sk_replicas ks" "sk_recent ks \<noteq> sk_replicas ks" "sk_recent ks \<noteq> sk_holds ks" "sk_chain ks \<noteq> sk_totals ks"
  "owner_key ks o' \<noteq> sk_totals ks" "owner_key ks o' \<noteq> sk_chain ks" "sk_totals ks \<noteq> owner_key ks o'" "sk_chain ks \<noteq> owner_key ks o'"
  "sk_view ks i \<noteq> sk_totals ks" "sk_view ks i \<noteq> sk_chain ks" "sk_view ks i \<noteq> owner_key ks o'"
  "sk_totals ks \<noteq> sk_view ks i" "sk_chain ks \<noteq> sk_view ks i" "owner_key ks o' \<noteq> sk_view ks i"
proof -
  have a: "owner_key ks o' \<noteq> sk_totals ks" "owner_key ks o' \<noteq> sk_chain ks" "sk_view ks i \<noteq> owner_key ks o'"
    using keys_apart by (auto simp: keys_apart_def owner_key_def)
  then show "owner_key ks o' \<noteq> sk_totals ks" "owner_key ks o' \<noteq> sk_chain ks" "sk_totals ks \<noteq> owner_key ks o'"
    "sk_chain ks \<noteq> owner_key ks o'" "sk_view ks i \<noteq> owner_key ks o'" "owner_key ks o' \<noteq> sk_view ks i" by metis+
qed (use keys_apart in \<open>simp add: keys_apart_def; metis\<close>)+

lemma owner_key_inj [simp]: "owner_key ks o' = owner_key ks o'' \<longleftrightarrow> o' = o''"
proof
  assume e: "owner_key ks o' = owner_key ks o''"
  have k: "sk_held ks i \<noteq> sk_hold_prefix ks @ j" for i j using keys_apart by (simp add: keys_apart_def)
  then have "starts_with ''hold:'' o' = starts_with ''hold:'' o''" using e by (metis owner_key_def)
  then show "o' = o''" using e by (auto simp: owner_key_def sk_held_def starts_with_iff)
qed simp

lemma adjust_reads:
  assumes "is_hash k"
  shows "HGET rd (adjust rd k f n r) =
      (HGET rd r)(k := (HGET rd r k)(f := if num (HGET rd r k f) + n \<le> 0 then None else Some (num (HGET rd r k f) + n)))"
    and "ZSCORE rd (adjust rd k f n r) = ZSCORE rd r"
    and "published rd (adjust rd k f n r) = published rd r"
  using assms by (auto simp: adjust_def Let_def case_prod_beta' fun_eq_iff)

lemma wake_reads:
  assumes "now \<le> t"
  shows "k \<noteq> sk_totals ks \<Longrightarrow> HGET rd (wake rd (sk_totals ks) pool ch now r) k = HGET rd r k"
    and "count_field f \<Longrightarrow> HGET rd (wake rd (sk_totals ks) pool ch now r) (sk_totals ks) f = HGET rd r (sk_totals ks) f"
    and "int t < num (HGET rd (wake rd (sk_totals ks) pool ch now r) (sk_totals ks) f) \<longleftrightarrow> int t < num (HGET rd r (sk_totals ks) f)"
    and "ZSCORE rd (wake rd (sk_totals ks) pool ch now r) = ZSCORE rd r"
    and "published rd (wake rd (sk_totals ks) pool ch now r) =
      published rd r @ (if waited rd ks now r pool then [(ch, pool)] else [])"
  using assms by (auto simp: wake_def Let_def waited_def)

text \<open>Freeing what one owner holds, field by field.\<close>

lemma reclaim_fold:
  assumes "distinct (map fst h)" and "\<forall>(f, n) \<in> set h. 0 < n \<and> count_field f"
    and "r' = fold (reclaim_entry rd (sk_totals ks) ch now) h r"
  shows "k \<noteq> sk_totals ks \<Longrightarrow> HGET rd r' k = HGET rd r k"
    and "count_field f \<Longrightarrow> HGET rd r' (sk_totals ks) f =
      (case map_of h f of None \<Rightarrow> HGET rd r (sk_totals ks) f
       | Some n \<Rightarrow> (let v = num (HGET rd r (sk_totals ks) f) - n in if v \<le> 0 then None else Some v))"
    and "\<not> count_field f \<Longrightarrow> now \<le> t \<Longrightarrow>
      int t < num (HGET rd r' (sk_totals ks) f) \<longleftrightarrow> int t < num (HGET rd r (sk_totals ks) f)"
    and "ZSCORE rd r' = ZSCORE rd r"
    and "published rd r' = published rd r @ map (Pair ch)
      (filter (waited rd ks now r) (map (drop 2) (filter (\<lambda>f. take 2 f = ''p|'') (map fst h))))"
  unfolding atomize_conj atomize_imp using assms
proof (induction h arbitrary: r)
  case (Cons e h)
  obtain g n where e: "e = (g, n)" by (cases e)
  let ?r = "reclaim_entry rd (sk_totals ks) ch now e r"
  have g: "count_field g" "0 < n" "map_of h g = None" "distinct (map fst h)" "\<forall>(f, n) \<in> set h. 0 < n \<and> count_field f"
    using Cons.prems by (auto simp: e map_of_eq_None_iff)
  have gw: "g \<noteq> CHR ''w'' # x" "CHR ''w'' # x \<noteq> g" for x using g(1) by auto
  have k: "k \<noteq> sk_totals ks \<Longrightarrow> HGET rd ?r k = HGET rd r k"
    and c: "count_field f \<Longrightarrow> HGET rd ?r (sk_totals ks) f =
      (if f = g then (let v = num (HGET rd r (sk_totals ks) g) - n in if v \<le> 0 then None else Some v)
       else HGET rd r (sk_totals ks) f)"
    and m: "\<not> count_field f \<Longrightarrow> now \<le> t \<Longrightarrow>
      int t < num (HGET rd ?r (sk_totals ks) f) \<longleftrightarrow> int t < num (HGET rd r (sk_totals ks) f)"
    and z: "ZSCORE rd ?r = ZSCORE rd r"
    and p: "published rd ?r = published rd r @ (if take 2 g = ''p|'' \<and> waited rd ks now r (drop 2 g) then [(ch, drop 2 g)] else [])"
    for f t k
    using g(1,2) wake_reads [of now now] wake_reads(3) [of now t]
    by (auto simp: reclaim_entry_def e Let_def adjust_reads waited_def gw)
  have w: "waited rd ks now ?r = waited rd ks now r"
    using m [of "''w|'' @ _" now] m [of "''w''" now] by (simp add: waited_def fun_eq_iff)
  have r': "r' = fold (reclaim_entry rd (sk_totals ks) ch now) h ?r" using Cons.prems(3) by simp
  note IH = Cons.IH [OF g(4,5) r', unfolded w z p]
  show ?case
  proof (intro conjI impI)
    show "HGET rd r' k = HGET rd r k" if "k \<noteq> sk_totals ks" using IH k that by metis
    show "HGET rd r' (sk_totals ks) f = (case map_of (e # h) f of None \<Rightarrow> HGET rd r (sk_totals ks) f
       | Some n \<Rightarrow> (let v = num (HGET rd r (sk_totals ks) f) - n in if v \<le> 0 then None else Some v))"
      if "count_field f"
      using IH c [OF that] that g(3) by (auto simp: e split: option.splits)
    show "(int t < num (HGET rd r' (sk_totals ks) f)) = (int t < num (HGET rd r (sk_totals ks) f))"
      if "\<not> count_field f" "now \<le> t" using IH m that by metis
    show "ZSCORE rd r' = ZSCORE rd r" using IH by blast
    show "published rd r' = published rd r @ map (Pair ch)
      (filter (waited rd ks now r) (map (drop 2) (filter (\<lambda>f. take 2 f = ''p|'') (map fst (e # h)))))"
      using IH by (simp add: e)
  qed
qed simp

lemma reclaim_refines:
  assumes "counts_agree rd ks r s" and "ms_ok s" and "\<And>f. 0 < mine o' f s \<Longrightarrow> count_field f" and "reclaim o' s = (s', w)"
    and "r' = lua_reclaim rd (sk_totals ks) (owner_key ks o') (sk_channel ks) now r"
  shows "counts_agree rd ks r' s' \<and> same_tables rd ks now r r' \<and> ZSCORE rd r' = ZSCORE rd r \<and> published_for rd ks now r r' (set w)"
proof -
  let ?h = "HGETALL rd r (owner_key ks o')" let ?q = "fold (reclaim_entry rd (sk_totals ks) (sk_channel ks) now) ?h r"
  have h: "distinct (map fst ?h)" "map_of ?h f = cnt (mine o' f s)" for f
    using hgetall [of "owner_key ks o'" r] assms(1) by (simp_all add: counts_agree_def)
  then have p: "\<forall>(f, n) \<in> set ?h. 0 < n \<and> count_field f"
    using assms(3) by (force simp: cnt_Some dest: map_of_is_SomeI)
  note F = reclaim_fold [OF h(1) p refl]
  have r': "r' = DEL rd (owner_key ks o') ?q" using assms(5) by (simp add: lua_reclaim_def)
  have tot: "HGET rd r' (sk_totals ks) f = cnt (ms_count s' f)" if "count_field f" for f
    using F(2) [OF that] assms(1) that reclaim_correct(2) [OF assms(2,4), of f]
    by (cases "mine o' f s = 0") (auto simp: r' h(2) counts_agree_def cnt_def Let_def split: if_splits)
  have own: "HGET rd r' (owner_key ks o'') f = cnt (mine o'' f s')" for o'' f
    using F(1) [of "owner_key ks o''"] assms(1) reclaim_correct(3) [OF assms(2,4), of o'' f]
    by (auto simp: r' counts_agree_def)
  have st: "same_tables rd ks now r r'" using F(1) [of "sk_chain ks"] F(3,4) by (simp add: r' same_tables_def)
  have names: "set (map (drop 2) (filter (\<lambda>f. take 2 f = ''p|'') (map fst ?h))) = set w"
    unfolding reclaim_woken [OF assms(2,4)]
  proof (intro set_eqI iffI)
    fix q assume "q \<in> set (map (drop 2) (filter (\<lambda>f. take 2 f = ''p|'') (map fst ?h)))"
    then obtain f where "f \<in> fst ` set ?h" "take 2 f = ''p|''" "q = drop 2 f" by auto
    moreover then have "pool_field q = f" by (metis append_take_drop_id pool_field_def)
    ultimately show "q \<in> {p. 0 < mine o' (pool_field p) s}" using h(2) [of f] by (auto simp: cnt_def dom_map_of_conv_image_fst [symmetric] split: if_splits)
  next
    fix q assume "q \<in> {p. 0 < mine o' (pool_field p) s}"
    then have "pool_field q \<in> fst ` set ?h" using h(2) [of "pool_field q"] by (auto simp: cnt_def dom_map_of_conv_image_fst [symmetric])
    then show "q \<in> set (map (drop 2) (filter (\<lambda>f. take 2 f = ''p|'') (map fst ?h)))"
      by (force simp: pool_field_def image_iff)
  qed
  have "published_for rd ks now r r' (set w)"
    unfolding published_for_def names [symmetric] by (intro exI conjI, simp add: r', rule F(5)) auto
  then show ?thesis using tot own st F(4) by (simp add: counts_agree_def r')
qed

text \<open>Freeing held slots. The scripts and the backend may take them in different orders.\<close>

lemma free_fold_refines:
  assumes "counts_agree rd ks r s" and "ms_ok s" and "\<And>o' f. 0 < mine o' f s \<Longrightarrow> count_field f" and "free_holds ids s = (s', w)"
    and "r' = fold (\<lambda>i. lua_reclaim rd (sk_totals ks) (sk_hold_prefix ks @ i) (sk_channel ks) now) ids r"
  shows "counts_agree rd ks r' s' \<and> same_tables rd ks now r r' \<and> ZSCORE rd r' = ZSCORE rd r \<and> published_for rd ks now r r' (set w)"
  using assms
proof (induction ids arbitrary: r s w)
  case Nil
  then show ?case by (simp add: published_for_def)
next
  case (Cons j ids)
  let ?s = "s\<lparr>ms_holds := AList.delete j (ms_holds s)\<rparr>"
  let ?r = "lua_reclaim rd (sk_totals ks) (sk_hold_prefix ks @ j) (sk_channel ks) now r"
  have ok: "ms_ok ?s" using Cons.prems(2) ms_ok_cong [of ?s s] by simp
  obtain s1 w1 where r: "reclaim (hold_owner j) ?s = (s1, w1)" by fastforce
  obtain w2 where f: "free_holds ids s1 = (s', w2)" and w: "w = w1 @ w2" using Cons.prems(4) r by (auto split: prod.splits)
  have m: "mine o' f ?s = mine o' f s" "ms_count ?s = ms_count s" for o' f by (simp_all add: mine_def ms_count_def fun_eq_iff)
  have 1: "counts_agree rd ks ?r s1 \<and> same_tables rd ks now r ?r \<and> ZSCORE rd ?r = ZSCORE rd r \<and> published_for rd ks now r ?r (set w1)"
    using Cons.prems(1,3) by (intro reclaim_refines [OF _ ok _ r]) (simp_all add: counts_agree_def m owner_key_simps)
  have c: "0 < mine o' f s1 \<Longrightarrow> count_field f" for o' f
    using reclaim_correct(3) [OF ok r, of o' f] Cons.prems(3) [of o' f] by (auto simp: m split: if_splits)
  have "r' = fold (\<lambda>i. lua_reclaim rd (sk_totals ks) (sk_hold_prefix ks @ i) (sk_channel ks) now) ids ?r" using Cons.prems(5) by simp
  then have 2: "counts_agree rd ks r' s' \<and> same_tables rd ks now ?r r' \<and> ZSCORE rd r' = ZSCORE rd ?r \<and> published_for rd ks now ?r r' (set w2)"
    using Cons.IH [OF conjunct1 [OF 1] reclaim_correct(1) [OF ok r] _ f] c by blast
  show ?case using 1 2 same_tables_trans published_for_trans by (fastforce simp: w)
qed

lemma free_refines:
  assumes "stands_for rd ks now r s" and "ledger_inv s" and "free_holds ids' s = (s', w)" and "set ids = set ids'"
    and "r1 = fold (\<lambda>i. lua_reclaim rd (sk_totals ks) (sk_hold_prefix ks @ i) (sk_channel ks) now) ids r"
    and "HGET rd r' = HGET rd r1" and "published rd r' = published rd r1"
    and "ZSCORE rd r' = (ZSCORE rd r1)(sk_holds ks := ZSCORE rd r1 (sk_holds ks) |` (- set ids))"
  shows "stands_for rd ks now r' s' \<and> same_tables rd ks now r r' \<and> published_for rd ks now r r' (set w)"
proof -
  note inv = ledger_invD [OF assms(2)]
  obtain s1 w1 where f: "free_holds ids s = (s1, w1)" by fastforce
  have c: "counts_agree rd ks r s" using assms(1) by (simp add: stands_for_def)
  note R = free_fold_refines [OF c inv(1) inv(6) f assms(5)] and O = free_holds_order [OF inv(1) assms(4) f assms(3)]
    and F = free_holds_reads [OF inv(1) f]
  have st: "same_tables rd ks now r r'" using R assms(6,8) by (simp add: same_tables_def)
  have "holds_agree rd ks r' s1"
    using assms(1) F R assms(8) by (auto simp: stands_for_def holds_agree_def restrict_map_def)
  moreover have "counts_agree rd ks r' s1" using R assms(6) by (simp add: counts_agree_def)
  moreover have "tables_agree rd ks now r' s1"
    using assms(1) F by (intro tables_agree_frame [OF _ st]) (simp_all add: stands_for_def)
  ultimately have "stands_for rd ks now r' s1" by (simp add: stands_for_def)
  then have "stands_for rd ks now r' s'" by (rule stands_for_obs [OF O(1)])
  then show ?thesis using st R O(2) assms(7) by (simp add: published_for_def)
qed

lemma restrict_UNIV: "m |` UNIV = m"
  by (simp add: restrict_map_def)

lemma reclaim_all_zscore:
  "ZSCORE rd (fold (\<lambda>i. lua_reclaim rd (sk_totals ks) (sk_hold_prefix ks @ i) (sk_channel ks) now) ids r) = ZSCORE rd r"
proof (induction ids arbitrary: r)
  case (Cons i ids)
  have "ZSCORE rd (fold (reclaim_entry rd (sk_totals ks) (sk_channel ks) now) h r) = ZSCORE rd r" for h
    by (induction h arbitrary: r) (auto simp: reclaim_entry_def Let_def adjust_reads wake_reads(4) [OF order_refl])
  then show ?case using Cons by (simp add: lua_reclaim_def)
qed simp

lemma purge_refines:
  assumes "stands_for rd ks now r s" and "ledger_inv s" and "purge_holds now s = (s', w)"
    and "r' = lua_purge_holds rd (sk_totals ks) (sk_holds ks) (sk_hold_prefix ks) (sk_channel ks) now r"
  shows "stands_for rd ks now r' s' \<and> same_tables rd ks now r r' \<and> published_for rd ks now r r' (set w)"
proof -
  let ?ids = "ZRANGEBYSCORE rd r (sk_holds ks) (int now)" let ?ids' = "hkeys (filter (\<lambda>(_, until). until \<le> now) (ms_holds s))"
  let ?r1 = "fold (\<lambda>i. lua_reclaim rd (sk_totals ks) (sk_hold_prefix ks @ i) (sk_channel ks) now) ?ids r"
  have z: "ZSCORE rd r (sk_holds ks) i = map_option int (map_of (ms_holds s) i)" for i
    using assms(1) by (simp add: stands_for_def holds_agree_def)
  have "i \<in> set ?ids' \<longleftrightarrow> (\<exists>u. map_of (ms_holds s) i = Some u \<and> u \<le> now)" for i
    using hmap_entry [OF ledger_invD(2) [OF assms(2)]] by (force simp: hkeys_def)
  then have ids: "set ?ids = set ?ids'"
    using zrange [of "sk_holds ks" r] by (auto simp: zrangebyscore z)
  have "(case ZSCORE rd r (sk_holds ks) i of None \<Rightarrow> None | Some n \<Rightarrow> if n \<le> int now then None else Some n) =
      (ZSCORE rd r (sk_holds ks) |` (- set ?ids)) i" for i
    using zrange [of "sk_holds ks" r] by (auto simp: zrangebyscore restrict_map_def split: option.splits)
  then have z2: "ZSCORE rd r' = (ZSCORE rd ?r1)(sk_holds ks := ZSCORE rd ?r1 (sk_holds ks) |` (- set ?ids))"
    unfolding reclaim_all_zscore assms(4) by (auto simp: lua_purge_holds_def Let_def reclaim_all_zscore restrict_UNIV)
  show ?thesis
    by (rule free_refines [OF assms(1,2) assms(3) [unfolded purge_holds_def] ids refl _ _ z2])
      (simp_all add: assms(4) lua_purge_holds_def Let_def)
qed

lemma pool_holds_refines:
  assumes "stands_for rd ks now r s" and "ledger_inv s" and "free_pool_holds pool keep s = (s', w)" and "keep \<noteq> Some []"
    and "r' = lua_free_pool_holds rd (sk_totals ks) (sk_holds ks) (sk_hold_prefix ks) (sk_channel ks) now pool
           (case keep of None \<Rightarrow> [] | Some i \<Rightarrow> i) r"
  shows "stands_for rd ks now r' s' \<and> same_tables rd ks now r r' \<and> published_for rd ks now r r' (set w)"
proof -
  let ?keep = "case keep of None \<Rightarrow> [] | Some i \<Rightarrow> i" let ?lead = "pool @ ''|''"
  let ?ids = "filter (\<lambda>i. i \<noteq> ?keep \<and> take (length ?lead) i = ?lead) (ZRANGE rd r (sk_holds ks))"
  let ?ids' = "filter (\<lambda>i. starts_with ?lead i \<and> Some i \<noteq> keep) (hkeys (ms_holds s))"
  let ?r1 = "fold (\<lambda>i. lua_reclaim rd (sk_totals ks) (sk_hold_prefix ks @ i) (sk_channel ks) now) ?ids r"
  have "dom (ZSCORE rd r (sk_holds ks)) = set (hkeys (ms_holds s))"
    using assms(1) by (auto simp: stands_for_def holds_agree_def hkeys_def dom_map_of_conv_image_fst [symmetric] dom_def)
  then have ids: "set ?ids = set ?ids'"
    using zrange [of "sk_holds ks" r] assms(4) by (auto simp: starts_with_def split: option.splits)
  have z2: "ZSCORE rd r' = (ZSCORE rd ?r1)(sk_holds ks := ZSCORE rd ?r1 (sk_holds ks) |` (- set ?ids))"
    unfolding reclaim_all_zscore assms(5) lua_free_pool_holds_def Let_def
    by (cases "?ids = []") (simp_all only: reclaim_all_zscore restrict_UNIV zrem kinds if_True if_False simp_thms list.set Compl_empty_eq
        fun_upd_triv fold_simps id_apply)
  show ?thesis
    by (rule free_refines [OF assms(1,2) assms(3) [unfolded free_pool_holds_def] ids refl _ _ z2])
      (simp_all add: assms(5) lua_free_pool_holds_def Let_def)
qed

end

end
