(* ===== verification/Redis_Calls.thy ===== *)
theory Redis_Calls
  imports Redis_Refine
begin

text \<open>
  Each call of the Redis slot backend does what the in-process backend does: same answer, and the databases it
  leaves stands for the state the backend is left in. A claim has to be well formed: the two backends read an
  absent cap, a cap of zero and a claim for a held slot without naming one differently.
\<close>

definition wf_claim :: "slot_claim \<Rightarrow> bool" where
  "wf_claim c \<longleftrightarrow> sc_pool c \<noteq> [] \<and> 1 \<le> sc_pool_cap c \<and> 1 \<le> sc_global_cap c \<and>
     sc_tenant_cap c \<noteq> Some 0 \<and> sc_key_cap c \<noteq> Some 0 \<and> sc_hold c \<noteq> Some [] \<and>
     (sc_redeem_only c \<longrightarrow> sc_hold c \<noteq> None)"

definition wf_hold :: "nat \<Rightarrow> slot_hold \<Rightarrow> bool" where
  "wf_hold now h \<longleftrightarrow> 1 \<le> sh_ttl h \<and> 1 \<le> sh_remember h \<and> 1 \<le> sh_max_run h \<and> sh_arrived_ago h \<le> now"

lemma reply_counts_cnt:
  "reply_counts (num (cnt p)) (num (cnt g)) = \<lparr>cc_pool = p, cc_global = g\<rparr>"
  by (simp add: reply_counts_def)

lemma field_names: "''g'' = GLOBAL_FIELD" "''p|'' @ p = pool_field p" "''t|'' @ p @ ''|'' @ t = tenant_field p t"
  "''k|'' @ p @ ''|'' @ k = key_field p k" "''h|'' @ p = held_field p"
  by (simp_all add: GLOBAL_FIELD_def pool_field_def tenant_field_def key_field_def held_field_def)

lemma current_update: "current (map_of (AList.update p u m)) q t = (if q = p then t < u else current (map_of m) q t)"
  by (simp add: current_def)

lemma WAIT_MARK_MS_eq: "WAIT_MARK_MS = WAIT_MARK"
  by (simp add: WAIT_MARK_MS_def WAIT_MARK_def)

lemma claim_code_caps:
  assumes "wf_claim c"
  shows "claim_code (int p) (int g) (int tn) (int kn) (max (sc_pool_cap c) 1) (max (sc_global_cap c) 1)
      (case sc_tenant_cap c of None \<Rightarrow> 0 | Some m \<Rightarrow> m) (case sc_key_cap c of None \<Rightarrow> 0 | Some m \<Rightarrow> m) =
     (if sc_pool_cap c \<le> p then 0
      else if sc_global_cap c \<le> g then - 1
      else if (case sc_tenant_cap c of None \<Rightarrow> False | Some m \<Rightarrow> m \<le> tn) then - 2
      else if (case sc_key_cap c of None \<Rightarrow> False | Some m \<Rightarrow> m \<le> kn) then - 3 else 1)"
proof -
  have "max (sc_pool_cap c) 1 = sc_pool_cap c" "max (sc_global_cap c) 1 = sc_global_cap c"
    using assms by (simp_all add: wf_claim_def)
  then show ?thesis
    using assms by (cases "sc_tenant_cap c"; cases "sc_key_cap c") (simp_all add: claim_code_def wf_claim_def)
qed

lemma held_prefix: "starts_with ''h|'' f \<longleftrightarrow> take 2 f = ''h|''"
  by (simp add: starts_with_def numeral_2_eq_2)

lemma lua_fields_eq: "lua_fields p t k = claim_fields p t k"
  by (simp add: lua_fields_def claim_fields_def GLOBAL_FIELD_def pool_field_def tenant_field_def key_field_def)

lemma starving_wakes:
  assumes "ms_ok s" and "(if sc_starving c then
      free_pool_holds (sc_pool c) (sc_hold c) (s\<lparr>ms_starving := AList.update (sc_pool c) (now + WAIT_MARK) (ms_starving s)\<rparr>)
    else (s, [])) = (s', w)"
  shows "wakes s s' (set w)"
proof (cases "sc_starving c")
  case True
  let ?s = "s\<lparr>ms_starving := AList.update (sc_pool c) (now + WAIT_MARK) (ms_starving s)\<rparr>"
  have "ms_ok ?s" using assms(1) ms_ok_cong [of ?s s] by simp
  then have "wakes ?s s' (set w)" using wakes_free_holds [of ?s] assms(2) True by (simp add: free_pool_holds_def)
  then show ?thesis using wakes_cong [of ?s s s' s'] by (simp add: ms_count_def fun_eq_iff)
qed (use assms(2) in \<open>simp add: wakes_def\<close>)

section \<open>Claims\<close>

context slot_scripts
begin

lemma stands_for_frame:
  assumes "stands_for rd ks now r s" and "counts_agree rd ks r' s'" and "same_tables rd ks now r r'"
    and "ZSCORE rd r' = ZSCORE rd r" and "tables s' = tables s" and "ms_holds s' = ms_holds s"
  shows "stands_for rd ks now r' s'"
  using assms tables_agree_frame [of rd ks now r s r' s'] by (simp add: stands_for_def holds_agree_def)

lemma take_fold:
  assumes "distinct (map fst h)" and "\<forall>(f, n) \<in> set h. 0 < n \<and> count_field f"
    and "r' = fold (take_entry rd (sk_totals ks) (owner_key ks o')) h r"
  shows "HGET rd r' k f =
      (case map_of h f of None \<Rightarrow> HGET rd r k f
       | Some n \<Rightarrow>
           if k = sk_totals ks \<and> take 2 f = ''h|'' then
             (let v = num (HGET rd r k f) - n in if v \<le> 0 then None else Some v)
           else if k = owner_key ks o' \<and> take 2 f \<noteq> ''h|'' then Some (num (HGET rd r k f) + n)
           else HGET rd r k f) \<and>
    ZSCORE rd r' = ZSCORE rd r \<and> published rd r' = published rd r"
  using assms
proof (induction h arbitrary: r)
  case (Cons e h)
  obtain g n where e: "e = (g, n)" by (cases e)
  let ?r = "take_entry rd (sk_totals ks) (owner_key ks o') e r"
  have g: "map_of h g = None" "distinct (map fst h)" "\<forall>(f, n) \<in> set h. 0 < n \<and> count_field f"
    using Cons.prems by (auto simp: e map_of_eq_None_iff)
  have k: "HGET rd ?r k f =
      (if f \<noteq> g then HGET rd r k f
       else if k = sk_totals ks \<and> take 2 f = ''h|'' then
             (let v = num (HGET rd r k f) - n in if v \<le> 0 then None else Some v)
       else if k = owner_key ks o' \<and> take 2 f \<noteq> ''h|'' then Some (num (HGET rd r k f) + n)
       else HGET rd r k f)" for k f
    by (auto simp: take_entry_def e adjust_reads Let_def)
  have z: "ZSCORE rd ?r = ZSCORE rd r" "published rd ?r = published rd r"
    by (auto simp: take_entry_def e adjust_reads)
  have "r' = fold (take_entry rd (sk_totals ks) (owner_key ks o')) h ?r" using Cons.prems(3) by simp
  from Cons.IH [OF g(2,3) this] show ?case unfolding k z using g(1) by (auto simp: e split: option.splits)
qed simp

lemma take_over_refines:
  assumes "stands_for rd ks now r s" and "ledger_inv s" and "replica inst"
    and "r' = lua_take_over rd (sk_totals ks) (sk_held ks inst) (sk_hold_prefix ks @ i)
           (HGETALL rd r (sk_hold_prefix ks @ i)) (sk_holds ks) i r"
    and "s' = take_over (hold_owner i) inst (s\<lparr>ms_holds := AList.delete i (ms_holds s)\<rparr>)"
  shows "stands_for rd ks now r' s' \<and> published rd r' = published rd r"
proof -
  let ?s = "s\<lparr>ms_holds := AList.delete i (ms_holds s)\<rparr>" and ?h = "HGETALL rd r (sk_hold_prefix ks @ i)"
  let ?q = "fold (take_entry rd (sk_totals ks) (owner_key ks inst)) ?h r"
  note inv = ledger_invD [OF assms(2)]
  have c: "HGET rd r (sk_totals ks) f = cnt (ms_count s f)" if "count_field f" for f
    using assms(1) that by (simp add: stands_for_def counts_agree_def)
  have o: "HGET rd r (owner_key ks o') f = cnt (mine o' f s)" for o' f
    using assms(1) by (simp add: stands_for_def counts_agree_def)
  have h: "distinct (map fst ?h)" "map_of ?h f = cnt (mine (hold_owner i) f s)" for f
    using hgetall [of "sk_hold_prefix ks @ i" r] o [of "hold_owner i"] by (simp_all add: owner_key_simps)
  then have "\<forall>(f, n) \<in> set ?h. 0 < n \<and> count_field f"
    using inv(6) [of "hold_owner i"] by (force simp: cnt_Some dest: map_of_is_SomeI)
  note F = take_fold [OF h(1) this refl, where o' = inst and r = r]
  have ne: "hold_owner i \<noteq> inst" using replica_not_owner [OF assms(3)] by metis
  have ok: "ms_ok ?s" using inv(1) ms_ok_cong [of ?s s] by simp
  have m: "mine o' f ?s = mine o' f s" "ms_count ?s = ms_count s" for o' f by (simp_all add: mine_def ms_count_def fun_eq_iff)
  note T = take_over_reads [OF ok ne, folded assms(5), unfolded m]
    and C = take_over_correct(2) [OF ok ne, folded assms(5), unfolded m]
  have r': "r' = ZREM rd (sk_holds ks) [i] (DEL rd (owner_key ks (hold_owner i)) ?q)"
    using assms(4) by (simp add: lua_take_over_def owner_key_simps assms(3))
  have tot: "HGET rd r' (sk_totals ks) f = cnt (ms_count s' f)" if "count_field f" for f
    using F [where k = "sk_totals ks" and f = f] C [of f] c [OF that]
    by (cases "mine (hold_owner i) f s = 0") (auto simp: r' h(2) cnt_def Let_def held_prefix split: if_splits)
  have own: "HGET rd r' (owner_key ks o') f = cnt (mine o' f s')" for o' f
    using F [where k = "owner_key ks o'" and f = f] T(1) [of o' f] o [of o' f] ne
    by (cases "mine (hold_owner i) f s = 0") (auto simp: r' h(2) cnt_def held_prefix split: if_splits)
  have st: "same_tables rd ks now r r'"
    using F [where k = "sk_chain ks"] F [where k = "sk_totals ks"] inv(6) [of "hold_owner i"]
    by (auto simp: r' same_tables_def fun_eq_iff h(2) cnt_def split: option.splits)
  have "holds_agree rd ks r' s'"
    using assms(1) F by (auto simp: r' stands_for_def holds_agree_def T(3) restrict_map_def)
  moreover have "tables_agree rd ks now r' s'"
    using assms(1) T(2) by (intro tables_agree_frame [OF _ st]) (simp_all add: stands_for_def)
  ultimately show ?thesis using tot own F by (simp add: stands_for_def counts_agree_def r')
qed

lemma grant_refines:
  assumes "stands_for rd ks now r s" and "replica inst" and "\<forall>f \<in> set fs. count_field f"
    and "r' = fold (\<lambda>f r. fst (HINCRBY rd (sk_held ks inst) f 1 (fst (HINCRBY rd (sk_totals ks) f 1 r)))) fs r"
  shows "stands_for rd ks now r' (fold (\<lambda>f. ms_add inst f 1) fs s) \<and> published rd r' = published rd r"
  using assms(1,3,4)
proof (induction fs arbitrary: r s)
  case (Cons f fs)
  let ?r = "fst (HINCRBY rd (sk_held ks inst) f 1 (fst (HINCRBY rd (sk_totals ks) f 1 r)))"
  have k: "sk_held ks inst = owner_key ks inst" using assms(2) by (simp add: owner_key_simps)
  have h: "HGET rd ?r k' g = (if g = f \<and> (k' = sk_totals ks \<or> k' = owner_key ks inst) then Some (num (HGET rd r k' f) + 1)
      else HGET rd r k' g)" for k' g by (simp add: k)
  have a: "Some (num (cnt n) + 1) = cnt (nat (int n + 1))" for n by (simp add: cnt_def)
  have c: "HGET rd r (sk_totals ks) g = cnt (ms_count s g)" if "count_field g" for g
    using Cons.prems(1) that by (simp add: stands_for_def counts_agree_def)
  have o: "HGET rd r (owner_key ks o') g = cnt (mine o' g s)" for o' g
    using Cons.prems(1) by (simp add: stands_for_def counts_agree_def)
  have n: "counts_agree rd ks ?r (ms_add inst f 1 s)"
    unfolding counts_agree_def
  proof (intro conjI allI impI)
    show "HGET rd ?r (sk_totals ks) g = cnt (ms_count (ms_add inst f 1 s) g)" if "count_field g" for g
      unfolding h count_add using c [OF that] a [of "ms_count s f"] by auto
    show "HGET rd ?r (owner_key ks o') g = cnt (mine o' g (ms_add inst f 1 s))" for o' g
      unfolding h mine_add o using a [of "mine inst f s"] by auto
  qed
  have st: "same_tables rd ks now r ?r" using Cons.prems(2) by (auto simp: k same_tables_def)
  have "stands_for rd ks now ?r (ms_add inst f 1 s)"
    by (rule stands_for_frame [OF Cons.prems(1) n st]) (simp_all add: k)
  then show ?case using Cons.IH [of ?r "ms_add inst f 1 s"] Cons.prems(2,3) by simp
qed simp

lemma wait_mark_refines:
  assumes "stands_for rd ks now r s"
  shows "stands_for rd ks now (HSET rd (sk_totals ks) (wait_mark p) (int (now + WAIT_MARK_MS)) r)
    (s\<lparr>ms_waiting := AList.update p (now + WAIT_MARK) (ms_waiting s)\<rparr>)"
proof -
  have m: "ms_count (s\<lparr>ms_waiting := x\<rparr>) = ms_count s" "mine o' f (s\<lparr>ms_waiting := x\<rparr>) = mine o' f s" for x o' f
    by (simp_all add: mine_def ms_count_def fun_eq_iff)
  have c: "f \<noteq> wait_mark p" if "count_field f" for f using that marks_not_count(1) by metis
  have "\<not> ''wa|'' @ q = wait_mark p" for q using marks_not_count(2) by metis
  then show ?thesis
    using assms c
    by (simp add: stands_for_def counts_agree_def holds_agree_def tables_agree_def m current_update is_live_def
        WAIT_MARK_MS_eq del: of_nat_add)
qed

lemma starving_mark_refines:
  assumes "stands_for rd ks now r s"
  shows "stands_for rd ks now (HSET rd (sk_totals ks) (''wa|'' @ p) (int (now + WAIT_MARK_MS)) r)
    (s\<lparr>ms_starving := AList.update p (now + WAIT_MARK) (ms_starving s)\<rparr>)"
proof -
  have m: "ms_count (s\<lparr>ms_starving := x\<rparr>) = ms_count s" "mine o' f (s\<lparr>ms_starving := x\<rparr>) = mine o' f s" for x o' f
    by (simp_all add: mine_def ms_count_def fun_eq_iff)
  have c: "f \<noteq> ''wa|'' @ p" if "count_field f" for f using that count_field_simps(9) by metis
  show ?thesis
    using assms c marks_not_count(2)
    by (simp add: stands_for_def counts_agree_def holds_agree_def tables_agree_def m current_update is_live_def
        WAIT_MARK_MS_eq del: of_nat_add)
qed

lemma totals_read: "stands_for rd ks now r s \<Longrightarrow> count_field f \<Longrightarrow> num (HGET rd r (sk_totals ks) f) = int (ms_count s f)"
  by (simp add: stands_for_def counts_agree_def)

lemma reply_eq:
  "stands_for rd ks now r s \<Longrightarrow>
   reply_counts (num (HGET rd r (sk_totals ks) (pool_field p))) (num (HGET rd r (sk_totals ks) GLOBAL_FIELD)) = counts_of p s"
  by (simp add: totals_read reply_counts_def counts_of_def)

lemma hold_listed:
  assumes "stands_for rd ks now r s" and "ledger_inv s"
  shows "HGETALL rd r (sk_hold_prefix ks @ i) = [] \<longleftrightarrow> \<not> contains_key (ms_holds s) i"
proof -
  have "HGET rd r (sk_hold_prefix ks @ i) f = cnt (mine (hold_owner i) f s)" for f
    using assms(1) owner_key_simps(1) [of ks i] by (metis stands_for_def counts_agree_def)
  then have "(HGET rd r (sk_hold_prefix ks @ i) = Map.empty) \<longleftrightarrow> \<not> contains_key (ms_holds s) i"
    using ledger_invD(7) [OF assms(2), of i] by (auto simp: fun_eq_iff)
  moreover have "map_of (HGETALL rd r (sk_hold_prefix ks @ i)) = HGET rd r (sk_hold_prefix ks @ i)"
    using hgetall [of "sk_hold_prefix ks @ i" r] by simp
  ultimately show ?thesis by (metis map_of_eq_empty_iff)
qed

lemma deny_refines:
  assumes "stands_for rd ks now r s" and "wf_claim c"
    and "r' = HSET rd (sk_totals ks) (if code = - 1 then ''w'' else ''w|'' @ sc_pool c) (int (now + WAIT_MARK_MS)) r"
    and "code = (- 1 :: int) \<longleftrightarrow> d = DenyGlobal"
  shows "stands_for rd ks now r' (mark_waiting now c (Denied d) s) \<and>
    counts_of (sc_pool c) (mark_waiting now c (Denied d) s) = counts_of (sc_pool c) s \<and> published rd r' = published rd r"
proof -
  let ?q = "if d = DenyGlobal then [] else sc_pool c"
  have "r' = HSET rd (sk_totals ks) (wait_mark ?q) (int (now + WAIT_MARK_MS)) r"
    using assms(2-4) by (auto simp: wait_mark_def wf_claim_def)
  then show ?thesis
    using wait_mark_refines [OF assms(1), of ?q] by (simp add: mark_waiting_def counts_of_def ms_count_def)
qed

lemma fresh_claim_refines:
  assumes "stands_for rd ks now r s" and "ledger_inv s" and "replica inst" and "wf_claim c"
    and "lua_decide rd (sk_totals ks) (sk_held ks inst) (sk_holds ks) (sc_pool c) (sc_tenant c) (sc_key c)
           (max (sc_pool_cap c) 1) (max (sc_global_cap c) 1)
           (case sc_tenant_cap c of None \<Rightarrow> 0 | Some m \<Rightarrow> m) (case sc_key_cap c of None \<Rightarrow> 0 | Some m \<Rightarrow> m)
           WAIT_MARK_MS (sk_hold_prefix ks) (case sc_hold c of None \<Rightarrow> [] | Some i \<Rightarrow> i) (sc_redeem_only c) now r = (r', code, p, g)"
    and "\<nexists>i. sc_hold c = Some i \<and> contains_key (ms_holds s) i" and "decide_claim inst c s = (s1, out)" and "s' = mark_waiting now c out s1"
  shows "stands_for rd ks now r' s' \<and> acquire_outcome_of code = out \<and> reply_counts p g = counts_of (sc_pool c) s' \<and>
    published rd r' = published rd r"
proof -
  let ?i = "case sc_hold c of None \<Rightarrow> [] | Some i \<Rightarrow> i"
  let ?P = "sc_pool c" and ?T = "sc_tenant c" and ?K = "sc_key c"
  have h: "(if ?i \<noteq> [] then HGETALL rd r (sk_hold_prefix ks @ ?i) else []) = []"
    using assms(6) hold_listed [OF assms(1,2)] by (cases "sc_hold c") simp_all
  have red: "?i \<noteq> [] \<and> sc_redeem_only c \<longleftrightarrow> sc_redeem_only c"
    using assms(4) by (auto simp: wf_claim_def split: option.splits)
  have m: "(case sc_hold c of None \<Rightarrow> None | Some i \<Rightarrow> if contains_key (ms_holds s) i then Some i else None) = None"
    using assms(6) by (auto split: option.splits)
  note D = assms(5) [unfolded lua_decide_def Let_def h field_names totals_read [OF assms(1) count_field_simps(2)]
      totals_read [OF assms(1) count_field_simps(3)] totals_read [OF assms(1) count_field_simps(4)]
      totals_read [OF assms(1) count_field_simps(5)] claim_code_caps [OF assms(4)] red]
  note M = assms(7) [unfolded decide_claim_def m option.case]
  have rep: "reply_counts (int (ms_count s (pool_field ?P))) (int (ms_count s GLOBAL_FIELD)) = counts_of ?P s"
    using reply_eq [OF assms(1), of ?P] by (simp add: totals_read [OF assms(1)])
  have deny: ?thesis if "r' = HSET rd (sk_totals ks) (if code = - 1 then ''w'' else ''w|'' @ ?P) (int (now + WAIT_MARK_MS)) r"
    "p = int (ms_count s (pool_field ?P))" "g = int (ms_count s GLOBAL_FIELD)" "s1 = s" "out = Denied d"
    "code = - 1 \<longleftrightarrow> d = DenyGlobal" "acquire_outcome_of code = Denied d" for d
    using deny_refines [OF assms(1,4) that(1,6)] that assms(8) rep by simp
  consider (held) "sc_redeem_only c" | (pool) "\<not> sc_redeem_only c" "sc_pool_cap c \<le> ms_count s (pool_field ?P)"
    | (global) "\<not> sc_redeem_only c" "\<not> sc_pool_cap c \<le> ms_count s (pool_field ?P)" "sc_global_cap c \<le> ms_count s GLOBAL_FIELD"
    | (rest) "\<not> sc_redeem_only c" "\<not> sc_pool_cap c \<le> ms_count s (pool_field ?P)" "\<not> sc_global_cap c \<le> ms_count s GLOBAL_FIELD"
    by blast
  then show ?thesis
  proof cases
    case held
    then show ?thesis using D M assms(1,8) rep by (auto simp: acquire_outcome_of_def mark_waiting_def)
  next
    case pool
    then show ?thesis using D M by (intro deny) (auto simp: acquire_outcome_of_def)
  next
    case global
    then show ?thesis using D M by (intro deny [where d = DenyGlobal]) (auto simp: acquire_outcome_of_def)
  next
    case rest
    define tb where "tb = (case sc_tenant_cap c of None \<Rightarrow> False | Some m \<Rightarrow> m \<le> ms_count s (tenant_field ?P ?T))"
    define kb where "kb = (case sc_key_cap c of None \<Rightarrow> False | Some m \<Rightarrow> m \<le> ms_count s (key_field ?P ?K))"
    let ?fs = "claim_fields ?P ?T ?K"
    note D' = D [folded tb_def kb_def] and M' = M [folded tb_def kb_def]
    consider (tenant) tb | (key) "\<not> tb" kb | (grant) "\<not> tb" "\<not> kb" by blast
    then show ?thesis
    proof cases
      case tenant
      then show ?thesis using rest D' M' by (intro deny [where d = DenyTenant]) (simp_all add: acquire_outcome_of_def)
    next
      case key
      then show ?thesis using rest D' M' by (intro deny [where d = DenyKey]) (simp_all add: acquire_outcome_of_def)
    next
      case grant
      have g: "r' = fold (\<lambda>f r. fst (HINCRBY rd (sk_held ks inst) f 1 (fst (HINCRBY rd (sk_totals ks) f 1 r)))) ?fs r"
        "code = 1" "p = int (ms_count s (pool_field ?P)) + 1" "g = int (ms_count s GLOBAL_FIELD) + 1"
        "s' = fold (\<lambda>f. ms_add inst f 1) ?fs s" "out = Granted"
        using rest grant D' M' assms(8) by (simp_all add: claim_fields_def mark_waiting_def)
      have "counts_of ?P s' = \<lparr>cc_pool = ms_count s (pool_field ?P) + 1, cc_global = ms_count s GLOBAL_FIELD + 1\<rparr>"
        using fold_add_one [OF ledger_invD(1) [OF assms(2)] claim_fields_distinct [of ?P ?T ?K], of inst]
        by (simp add: g(5) counts_of_def) (simp add: claim_fields_def)
      then show ?thesis
        using grant_refines [OF assms(1,3) _ g(1)] claim_fields_count g by (auto simp: reply_counts_def acquire_outcome_of_def)
    qed
  qed
qed

lemma decide_refines:
  assumes "stands_for rd ks now r s" and "ledger_inv s" and "replica inst" and "wf_claim c"
    and "lua_decide rd (sk_totals ks) (sk_held ks inst) (sk_holds ks) (sc_pool c) (sc_tenant c) (sc_key c)
           (max (sc_pool_cap c) 1) (max (sc_global_cap c) 1)
           (case sc_tenant_cap c of None \<Rightarrow> 0 | Some m \<Rightarrow> m) (case sc_key_cap c of None \<Rightarrow> 0 | Some m \<Rightarrow> m)
           WAIT_MARK_MS (sk_hold_prefix ks) (case sc_hold c of None \<Rightarrow> [] | Some i \<Rightarrow> i) (sc_redeem_only c) now r = (r', code, p, g)"
    and "decide_claim inst c s = (s1, out)" and "s' = mark_waiting now c out s1"
  shows "stands_for rd ks now r' s' \<and> acquire_outcome_of code = out \<and> reply_counts p g = counts_of (sc_pool c) s' \<and>
    published rd r' = published rd r"
proof (cases "\<exists>i. sc_hold c = Some i \<and> contains_key (ms_holds s) i")
  case True
  then obtain i where i: "sc_hold c = Some i" "contains_key (ms_holds s) i" by blast
  then have "i \<noteq> []" using assms(4) by (auto simp: wf_claim_def)
  have "HGETALL rd r (sk_hold_prefix ks @ i) \<noteq> []" using i(2) hold_listed [OF assms(1,2)] by simp
  then have r': "r' = lua_take_over rd (sk_totals ks) (sk_held ks inst) (sk_hold_prefix ks @ i)
      (HGETALL rd r (sk_hold_prefix ks @ i)) (sk_holds ks) i r" "code = 2"
    "p = num (HGET rd r (sk_totals ks) (''p|'' @ sc_pool c))" "g = num (HGET rd r (sk_totals ks) ''g'')"
    using assms(5) i(1) \<open>i \<noteq> []\<close> by (auto simp: lua_decide_def Let_def)
  let ?s = "s\<lparr>ms_holds := AList.delete i (ms_holds s)\<rparr>"
  have s': "s' = take_over (hold_owner i) inst ?s" "out = Redeemed"
    using assms(6,7) i by (auto simp: decide_claim_def mark_waiting_def)
  have ok: "ms_ok ?s" using ledger_invD(1) [OF assms(2)] ms_ok_cong [of ?s s] by simp
  have ne: "hold_owner i \<noteq> inst" using replica_not_owner [OF assms(3)] by metis
  have k: "\<not> starts_with ''h|'' f \<Longrightarrow> ms_count s' f = ms_count s f" for f
    using take_over_correct(2) [OF ok ne, of f] by (simp add: s' ms_count_def)
  have "reply_counts p g = counts_of (sc_pool c) s'"
    unfolding r'(3,4) field_names reply_eq [OF assms(1)]
    by (simp add: counts_of_def k held_prefix pool_field_def GLOBAL_FIELD_def)
  then show ?thesis
    using take_over_refines [OF assms(1-3) r'(1) s'(1)] by (simp add: s'(2) r'(2) acquire_outcome_of_def)
next
  case False
  then show ?thesis using fresh_claim_refines [OF assms(1-5) False assms(6,7)] by blast
qed

lemma starving_refines:
  assumes "stands_for rd ks now r1 s1" and "ledger_inv s1" and "wf_claim c"
    and "r2 = (if sc_starving c then
      lua_free_pool_holds rd (sk_totals ks) (sk_holds ks) (sk_hold_prefix ks) (sk_channel ks) now (sc_pool c)
        (case sc_hold c of None \<Rightarrow> [] | Some i \<Rightarrow> i)
        (HSET rd (sk_totals ks) (''wa|'' @ sc_pool c) (int (now + WAIT_MARK_MS)) r1) else r1)"
    and "(if sc_starving c then
      free_pool_holds (sc_pool c) (sc_hold c) (s1\<lparr>ms_starving := AList.update (sc_pool c) (now + WAIT_MARK) (ms_starving s1)\<rparr>)
    else (s1, [])) = (s2, w2)"
  shows "stands_for rd ks now r2 s2 \<and> ledger_inv s2 \<and> published_for rd ks now r1 r2 (set w2)"
proof (cases "sc_starving c")
  case True
  let ?r = "HSET rd (sk_totals ks) (''wa|'' @ sc_pool c) (int (now + WAIT_MARK_MS)) r1"
  let ?s = "s1\<lparr>ms_starving := AList.update (sc_pool c) (now + WAIT_MARK) (ms_starving s1)\<rparr>"
  have a: "stands_for rd ks now ?r ?s" by (rule starving_mark_refines [OF assms(1)])
  have i: "ledger_inv ?s" using assms(2) by (simp add: ledger_inv_tables)
  have f: "free_pool_holds (sc_pool c) (sc_hold c) ?s = (s2, w2)" using assms(5) True by simp
  have h: "sc_hold c \<noteq> Some []" using assms(3) by (simp add: wf_claim_def)
  have r2: "r2 = lua_free_pool_holds rd (sk_totals ks) (sk_holds ks) (sk_hold_prefix ks) (sk_channel ks) now (sc_pool c)
        (case sc_hold c of None \<Rightarrow> [] | Some i \<Rightarrow> i) ?r"
    using assms(4) True by simp
  have w: "waited rd ks now ?r = waited rd ks now r1" by (simp add: waited_def fun_eq_iff)
  show ?thesis
    using pool_holds_refines [OF a i f h r2] ledger_inv_pool_holds [OF i, of "sc_pool c" "sc_hold c"] f
      published_for_append [OF published_for_none [of rd ?r r1 ks now] _ w] by auto
qed (use assms in \<open>simp add: published_for_none\<close>)

lemma acquire_refines:
  assumes "stands_for rd ks now r s" and "now = now_ms rd r" and "ledger_inv s" and "replica inst" and "wf_claim c"
    and "slot_acquire rd ks Delivered inst c r = (r', res)" and "mem_acquire inst now c s = (s', w, res')"
  shows "res = res' \<and> stands_for rd ks now r' s' \<and> published_for rd ks now r r' (set w) \<and> wakes s s' (set w)"
proof (cases "inst \<in> set (ms_live s)")
  case False
  then have "\<not> is_live rd (sk_replicas ks) now inst r"
    using assms(1) by (simp add: stands_for_def tables_agree_def)
  then have "r' = r" "res = Inr (NotRegistered, counts_of (sc_pool c) s)"
    using assms(6) unfolding slot_acquire_def invoke_def slot_acquire_script_def assms(2) [symmetric] Let_def field_names
    by (simp_all add: acquire_outcome_of_def reply_eq [OF assms(1)])
  then show ?thesis
    using assms(1,7) False ledger_invD(5) [OF assms(3)] by (auto simp: mem_acquire_def published_for_none wakes_def)
next
  case True
  then have live: "is_live rd (sk_replicas ks) now inst r" using assms(1) by (simp add: stands_for_def tables_agree_def)
  let ?i = "case sc_hold c of None \<Rightarrow> [] | Some i \<Rightarrow> i"
  define r1 where "r1 = lua_purge_holds rd (sk_totals ks) (sk_holds ks) (sk_hold_prefix ks) (sk_channel ks) now r"
  obtain s1 w1 where p: "purge_holds now s = (s1, w1)" by fastforce
  have 1: "stands_for rd ks now r1 s1" "same_tables rd ks now r r1" "published_for rd ks now r r1 (set w1)" and i1: "ledger_inv s1"
    using purge_refines [OF assms(1,3) p r1_def] ledger_inv_purge [OF assms(3), of now] p by auto
  define r2 where "r2 = (if sc_starving c then
      lua_free_pool_holds rd (sk_totals ks) (sk_holds ks) (sk_hold_prefix ks) (sk_channel ks) now (sc_pool c) ?i
        (HSET rd (sk_totals ks) (''wa|'' @ sc_pool c) (int (now + WAIT_MARK_MS)) r1) else r1)"
  obtain s2 w2 where f: "(if sc_starving c then
      free_pool_holds (sc_pool c) (sc_hold c) (s1\<lparr>ms_starving := AList.update (sc_pool c) (now + WAIT_MARK) (ms_starving s1)\<rparr>)
    else (s1, [])) = (s2, w2)" by fastforce
  have 2: "stands_for rd ks now r2 s2 \<and> ledger_inv s2 \<and> published_for rd ks now r1 r2 (set w2)"
    by (rule starving_refines [OF 1(1) i1 assms(5) r2_def f])
  obtain s3 out where d: "decide_claim inst c s2 = (s3, out)" by fastforce
  have m: "s' = mark_waiting now c out s3" "w = w1 @ w2" "res' = Inr (out, counts_of (sc_pool c) s')"
    using assms(7) f d ledger_invD(5) [OF assms(3)] True by (auto simp: acquire_as_stages p Let_def)
  obtain r3 code pc gc where e: "lua_decide rd (sk_totals ks) (sk_held ks inst) (sk_holds ks) (sc_pool c) (sc_tenant c) (sc_key c)
           (max (sc_pool_cap c) 1) (max (sc_global_cap c) 1)
           (case sc_tenant_cap c of None \<Rightarrow> 0 | Some m \<Rightarrow> m) (case sc_key_cap c of None \<Rightarrow> 0 | Some m \<Rightarrow> m)
           WAIT_MARK_MS (sk_hold_prefix ks) ?i (sc_redeem_only c) now r2 = (r3, code, pc, gc)"
    by (metis prod_cases4)
  have res: "r' = r3" "res = Inr (acquire_outcome_of code, reply_counts pc gc)"
    using assms(6) live e unfolding slot_acquire_def invoke_def slot_acquire_script_def assms(2) [symmetric] Let_def
      r1_def [symmetric] r2_def [symmetric]
    by simp_all
  have 3: "stands_for rd ks now r' s'" "acquire_outcome_of code = out" "reply_counts pc gc = counts_of (sc_pool c) s'"
    "published rd r' = published rd r2"
    using decide_refines [OF conjunct1 [OF 2] _ assms(4,5) e d m(1)] 2 res(1) by auto
  have "published_for rd ks now r r2 (set w)"
    using published_for_trans [OF 1(3) conjunct2 [OF conjunct2 [OF 2]] 1(2)] by (simp add: m(2))
  moreover have "wakes s s' (set w)"
    using wakes_trans [OF wakes_trans [OF wakes_free_holds [OF ledger_invD(1) [OF assms(3)] p [unfolded purge_holds_def]]
          starving_wakes [OF ledger_invD(1) [OF i1] f]] wakes_decide [OF ledger_invD(1) [OF conjunct1 [OF conjunct2 [OF 2]]] assms(4) d]]
    by (simp add: m)
  ultimately show ?thesis using 3 res(2) m(3) by (simp add: published_for_def)
qed

lemma wake_refines:
  assumes "stands_for rd ks now r s"
  shows "stands_for rd ks now (wake rd (sk_totals ks) pool ch now r) s"
proof (rule stands_for_frame [OF assms])
  note W = wake_reads [of now now]
  show "counts_agree rd ks (wake rd (sk_totals ks) pool ch now r) s"
    using assms W(1,2) by (simp add: stands_for_def counts_agree_def)
  show "same_tables rd ks now r (wake rd (sk_totals ks) pool ch now r)"
    using W(1,4) wake_reads(3) by (simp add: same_tables_def)
qed (simp_all add: wake_reads(4) [OF order_refl])

text \<open>Giving a slot back.\<close>

lemma give_back_refines:
  assumes "stands_for rd ks now r s" and "replica inst" and "count_field f"
  shows "stands_for rd ks now (lua_give_back rd (sk_totals ks) (sk_held ks inst) f r) (give_back inst f s)"
    and "waited rd ks now (lua_give_back rd (sk_totals ks) (sk_held ks inst) f r) = waited rd ks now r"
    and "published rd (lua_give_back rd (sk_totals ks) (sk_held ks inst) f r) = published rd r"
    and "0 < num (HGET rd r (sk_held ks inst) f) \<longleftrightarrow> 0 < mine inst f s"
proof -
  have k: "sk_held ks inst = owner_key ks inst" using assms(2) by (simp add: owner_key_simps)
  have c: "HGET rd r (sk_totals ks) g = cnt (ms_count s g)" if "count_field g" for g
    using assms(1) that by (simp add: stands_for_def counts_agree_def)
  have o: "HGET rd r (owner_key ks o') g = cnt (mine o' g s)" for o' g
    using assms(1) by (simp add: stands_for_def counts_agree_def)
  show m: "0 < num (HGET rd r (sk_held ks inst) f) \<longleftrightarrow> 0 < mine inst f s" by (simp add: k o)
  let ?r = "adjust rd (sk_totals ks) f (- 1) (adjust rd (owner_key ks inst) f (- 1) r)"
  have a: "(if num (cnt n) + - 1 \<le> 0 then None else Some (num (cnt n) + - 1)) = cnt (nat (int n + - 1))" for n
    by (auto simp: cnt_def)
  have h: "HGET rd ?r k' g = (if g = f \<and> (k' = sk_totals ks \<or> k' = owner_key ks inst)
      then (if num (HGET rd r k' f) + - 1 \<le> 0 then None else Some (num (HGET rd r k' f) + - 1)) else HGET rd r k' g)" for k' g
    by (auto simp: adjust_reads)
  have n: "counts_agree rd ks ?r (ms_add inst f (- 1) s)"
    unfolding counts_agree_def
  proof (intro conjI allI impI)
    show "HGET rd ?r (sk_totals ks) g = cnt (ms_count (ms_add inst f (- 1) s) g)" if "count_field g" for g
      unfolding h count_add using c [OF that] a [of "ms_count s f"] by auto
    show "HGET rd ?r (owner_key ks o') g = cnt (mine o' g (ms_add inst f (- 1) s))" for o' g
      unfolding h mine_add o using a [of "mine inst f s"] by auto
  qed
  have st: "same_tables rd ks now r ?r" using assms(3) by (auto simp: adjust_reads same_tables_def)
  have sf: "stands_for rd ks now ?r (ms_add inst f (- 1) s)"
    by (rule stands_for_frame [OF assms(1) n st]) (simp_all add: adjust_reads)
  show "stands_for rd ks now (lua_give_back rd (sk_totals ks) (sk_held ks inst) f r) (give_back inst f s)"
    using sf assms(1) m by (simp add: lua_give_back_def give_back_def k)
  show "waited rd ks now (lua_give_back rd (sk_totals ks) (sk_held ks inst) f r) = waited rd ks now r"
    using same_tables_waited [OF st] by (simp add: lua_give_back_def k)
  show "published rd (lua_give_back rd (sk_totals ks) (sk_held ks inst) f r) = published rd r"
    by (simp add: lua_give_back_def adjust_reads)
qed

lemma release_fold_refines:
  assumes "stands_for rd ks now r s" and "replica inst" and "\<forall>f \<in> set fs. count_field f" and "distinct fs"
    and "fold (\<lambda>f (r, freed). (lua_give_back rd (sk_totals ks) (sk_held ks inst) f r,
              if 0 < num (HGET rd r (sk_held ks inst) f) \<and> f = pf then 1 else freed)) fs (r, freed) = (r', freed')"
  shows "stands_for rd ks now r' (fold (give_back inst) fs s) \<and> waited rd ks now r' = waited rd ks now r \<and>
    published rd r' = published rd r \<and> freed' = (if pf \<in> set fs \<and> 0 < mine inst pf s then 1 else freed)"
  using assms(1,3-5)
proof (induction fs arbitrary: r s freed)
  case (Cons f fs)
  have c: "count_field f" "\<forall>f \<in> set fs. count_field f" "distinct fs" "f \<notin> set fs" using Cons.prems(2,3) by simp_all
  note G = give_back_refines [OF Cons.prems(1) assms(2) c(1)]
  have m: "pf \<in> set fs \<Longrightarrow> mine inst pf (give_back inst f s) = mine inst pf s"
    using c(4) by (auto simp: give_back_def mine_add)
  show ?case
    using Cons.IH [OF G(1) c(2,3), of "if 0 < mine inst f s \<and> f = pf then 1 else freed"] Cons.prems(4) G(2-4) c(4) m
    by (auto split: if_splits)
qed simp

lemma release_refines:
  assumes "stands_for rd ks now r s" and "ledger_inv s" and "replica inst" and "mem_release inst sl s = (s', w, Inr cc)"
    and "lua_release_fields rd (sk_totals ks) (sk_held ks inst) (sr_pool sl) (sr_tenant sl) (sr_key sl) (sk_channel ks) now r =
      (r', freed, pc, gc)"
  shows "stands_for rd ks now r' s' \<and> reply_counts pc gc = cc \<and> freed = (if 0 < mine inst (pool_field (sr_pool sl)) s then 1 else 0) \<and>
    published_for rd ks now r r' (if freed = 1 then {sr_pool sl} else {})"
proof -
  let ?P = "sr_pool sl" let ?fs = "claim_fields ?P (sr_tenant sl) (sr_key sl)"
  obtain r1 fr where f: "fold (\<lambda>f (r, freed). (lua_give_back rd (sk_totals ks) (sk_held ks inst) f r,
              if 0 < num (HGET rd r (sk_held ks inst) f) \<and> f = pool_field ?P then 1 else freed)) ?fs (r, 0 :: int) = (r1, fr)"
    by fastforce
  have F: "stands_for rd ks now r1 (fold (give_back inst) ?fs s)" "waited rd ks now r1 = waited rd ks now r"
      "published rd r1 = published rd r" "fr = (if 0 < mine inst (pool_field ?P) s then 1 else 0)"
    using release_fold_refines [OF assms(1,3) _ claim_fields_distinct f] claim_fields_count by (auto simp: claim_fields_def)
  let ?r = "wake rd (sk_totals ks) ?P (sk_channel ks) now r1"
  have s': "s' = fold (give_back inst) ?fs s" "cc = counts_of ?P s'"
    using assms(4) ledger_invD(5) [OF assms(2)] by (auto simp: mem_release_def Let_def)
  have r': "r' = (if fr = 1 then ?r else r1)" "freed = fr" "pc = num (HGET rd r' (sk_totals ks) (pool_field ?P))"
      "gc = num (HGET rd r' (sk_totals ks) GLOBAL_FIELD)"
    using assms(5) unfolding lua_release_fields_def lua_fields_eq field_names f Let_def prod.case by auto
  have "stands_for rd ks now ?r s'" by (rule wake_refines [OF F(1) [folded s'(1)]])
  then have sf: "stands_for rd ks now r' s'" using F(1) by (simp add: r'(1) s'(1))
  have "published_for rd ks now r r' (if freed = 1 then {?P} else {})"
    using wake_reads(5) [of now now ?P "sk_channel ks" r1] F(2,3)
    by (auto simp: r'(1,2) published_for_def intro: exI [of _ "[?P]"])
  then show ?thesis using sf reply_eq [OF sf, of ?P] F(4) by (simp add: r'(2-4) s'(2))
qed

text \<open>Holding a slot for the next step of a session.\<close>

lemma drop_runs:
  "HGET rd (fold (HDEL rd (sk_chain ks)) ids r) = (HGET rd r)(sk_chain ks := HGET rd r (sk_chain ks) |` (- set ids)) \<and>
   ZSCORE rd (fold (HDEL rd (sk_chain ks)) ids r) = ZSCORE rd r \<and>
   published rd (fold (HDEL rd (sk_chain ks)) ids r) = published rd r"
  by (induction ids arbitrary: r) (auto simp: fun_eq_iff restrict_map_def)

lemma note_step_refines:
  assumes "stands_for rd ks now r s" and "ledger_inv s" and "wf_hold now h" and "note_step now h s = (s', chained)"
    and "lua_note_step rd (sk_recent ks) (sk_chain ks) now (sh_id h) (sh_ttl h) (sh_arrived_ago h) (sh_remember h) r = (r', chained')"
  shows "stands_for rd ks now r' s' \<and> chained' = chained \<and> waited rd ks now r' = waited rd ks now r \<and> published rd r' = published rd r"
proof -
  let ?cut = "int now - int (sh_remember h)" let ?ids = "ZRANGEBYSCORE rd r (sk_recent ks) ?cut"
  let ?recent = "filter (\<lambda>(_, done). now - done < sh_remember h) (ms_recent s)"
  let ?r1 = "fold (HDEL rd (sk_chain ks)) ?ids r" let ?r2 = "ZREMRANGEBYSCORE rd (sk_recent ks) ?cut ?r1"
  note inv = ledger_invD [OF assms(2)]
  have z: "ZSCORE rd r (sk_recent ks) i = map_option int (map_of (ms_recent s) i)" for i
    using assms(1) by (simp add: stands_for_def tables_agree_def)
  have ch: "HGET rd r (sk_chain ks) i = cnt (get_or 0 (ms_chain s) i)" for i
    using assms(1) by (simp add: stands_for_def tables_agree_def)
  have old: "int d \<le> ?cut \<longleftrightarrow> \<not> now - d < sh_remember h" for d using assms(3) by (auto simp: wf_hold_def)
  have ids: "i \<in> set ?ids \<longleftrightarrow> contains_key (ms_recent s) i \<and> \<not> contains_key ?recent i" for i
    using zrange [of "sk_recent ks" r] old
    by (auto simp: zrangebyscore z contains_key_def map_of_filter_hmap [OF inv(3)] split: option.splits)
  have z2: "ZSCORE rd ?r2 (sk_recent ks) i = map_option int (map_of ?recent i)" for i
    using drop_runs [of ?ids r] old by (simp add: z map_of_filter_hmap [OF inv(3)] split: option.splits)
  have s': "s' = s\<lparr>ms_recent := AList.update (sh_id h) now ?recent, ms_chain := filter (\<lambda>(i, _). contains_key ?recent i) (ms_chain s)\<rparr>"
    and c: "chained \<longleftrightarrow> (case map_of ?recent (sh_id h) of None \<Rightarrow> False | Some done \<Rightarrow> now - sh_arrived_ago h - done \<le> sh_ttl h)"
    using assms(3,4) by (simp_all add: note_step_def Let_def wf_hold_def)
  have r': "r' = ZADD rd (sk_recent ks) (int now) (sh_id h) ?r2" and
    c': "chained' \<longleftrightarrow> (case ZSCORE rd ?r2 (sk_recent ks) (sh_id h) of None \<Rightarrow> False
      | Some d \<Rightarrow> (int now - int (sh_arrived_ago h)) - d \<le> int (sh_ttl h))"
    using assms(5) by (auto simp: lua_note_step_def Let_def)
  have chain: "HGET rd r' (sk_chain ks) i = cnt (get_or 0 (ms_chain s') i)" for i
    using drop_runs [of ?ids r] ids [of i] inv(8) [of i]
    by (auto simp: r' s' ch restrict_map_def get_or_def map_of_filter_hmap [OF inv(4)] contains_key_def split: option.splits)
  have frame: "HGET rd r' k = HGET rd r k" if "k \<noteq> sk_chain ks" for k using drop_runs [of ?ids r] that by (simp add: r')
  have zs: "ZSCORE rd r' k = ZSCORE rd r k" if "k \<noteq> sk_recent ks" for k using drop_runs [of ?ids r] that by (simp add: r')
  have m: "ms_count s' = ms_count s" "mine o' f s' = mine o' f s" for o' f by (simp_all add: s' mine_def ms_count_def fun_eq_iff)
  have rec: "ZSCORE rd r' (sk_recent ks) i = map_option int (map_of (ms_recent s') i)" for i
    using z2 [of i] by (simp add: r' s')
  have t: "ms_holds s' = ms_holds s" "ms_waiting s' = ms_waiting s" "ms_starving s' = ms_starving s" "ms_live s' = ms_live s"
    by (simp_all add: s')
  have "stands_for rd ks now r' s'"
    using assms(1) unfolding stands_for_def counts_agree_def holds_agree_def tables_agree_def is_live_def
    by (simp add: frame zs m rec t chain)
  moreover have "chained' = chained"
    using assms(3) unfolding c c' z2 by (auto simp: wf_hold_def split: option.splits)
  moreover have "waited rd ks now r' = waited rd ks now r" by (simp add: waited_def frame fun_eq_iff)
  ultimately show ?thesis using drop_runs [of ?ids r] by (simp add: r')
qed

lemma stale_mark_refines:
  assumes "stands_for rd ks now r s" and "\<not> int now < num (HGET rd r (sk_totals ks) (''wa|'' @ p))"
  shows "stands_for rd ks now (HDEL rd (sk_totals ks) (''wa|'' @ p) r) s"
    and "waited rd ks now (HDEL rd (sk_totals ks) (''wa|'' @ p) r) = waited rd ks now r"
proof -
  let ?r = "HDEL rd (sk_totals ks) (''wa|'' @ p) r"
  have st: "same_tables rd ks now r ?r" using assms(2) by (auto simp: same_tables_def)
  have n: "counts_agree rd ks ?r s" using assms(1) by (auto simp: stands_for_def counts_agree_def)
  show "stands_for rd ks now ?r s" by (rule stands_for_frame [OF assms(1) n st]) simp_all
  show "waited rd ks now ?r = waited rd ks now r" by (rule same_tables_waited [OF st])
qed

lemma hand_over_refines:
  assumes "stands_for rd ks now r s" and "ms_ok s" and "replica inst" and "count_field f"
  shows "stands_for rd ks now (lua_hand_over rd (sk_held ks inst) (sk_hold_prefix ks @ i) f r) (hand_over inst (hold_owner i) f s)"
    and "same_tables rd ks now r (lua_hand_over rd (sk_held ks inst) (sk_hold_prefix ks @ i) f r)"
    and "published rd (lua_hand_over rd (sk_held ks inst) (sk_hold_prefix ks @ i) f r) = published rd r"
proof -
  have k: "sk_held ks inst = owner_key ks inst" "sk_hold_prefix ks @ i = owner_key ks (hold_owner i)"
    using assms(3) by (simp_all add: owner_key_simps)
  let ?r = "fst (HINCRBY rd (owner_key ks (hold_owner i)) f 1 (adjust rd (owner_key ks inst) f (- 1) r))"
  let ?s = "ms_add (hold_owner i) f 1 (ms_add inst f (- 1) s)"
  have ne: "hold_owner i \<noteq> inst" "inst \<noteq> hold_owner i" using replica_not_owner [OF assms(3)] by metis+
  have c: "HGET rd r (sk_totals ks) g = cnt (ms_count s g)" if "count_field g" for g
    using assms(1) that by (simp add: stands_for_def counts_agree_def)
  have o: "HGET rd r (owner_key ks o') g = cnt (mine o' g s)" for o' g
    using assms(1) by (simp add: stands_for_def counts_agree_def)
  have st: "same_tables rd ks now r ?r" by (auto simp: adjust_reads same_tables_def)
  have n: "counts_agree rd ks ?r ?s" if "0 < mine inst f s"
  proof -
    have "ms_count ?s g = ms_count s g" for g using mine_le_count [OF assms(2), of inst f] that by (auto simp: count_add)
    moreover have "HGET rd ?r (sk_totals ks) = HGET rd r (sk_totals ks)" by (simp add: adjust_reads)
    moreover have "HGET rd ?r (owner_key ks o') g = cnt (mine o' g ?s)" for o' g
      using ne that by (auto simp: adjust_reads o mine_add cnt_def)
    ultimately show ?thesis using c by (simp add: counts_agree_def)
  qed
  have m: "0 < num (HGET rd r (owner_key ks inst) f) \<longleftrightarrow> 0 < mine inst f s" by (simp add: o)
  show "stands_for rd ks now (lua_hand_over rd (sk_held ks inst) (sk_hold_prefix ks @ i) f r) (hand_over inst (hold_owner i) f s)"
  proof (cases "0 < mine inst f s")
    case True
    have "stands_for rd ks now ?r ?s"
      by (rule stands_for_frame [OF assms(1) n [OF True] st]) (simp_all add: adjust_reads)
    then show ?thesis using True m by (simp add: lua_hand_over_def hand_over_def k)
  qed (use assms(1) m in \<open>simp add: lua_hand_over_def hand_over_def k\<close>)
  show "same_tables rd ks now r (lua_hand_over rd (sk_held ks inst) (sk_hold_prefix ks @ i) f r)"
    using st by (simp add: lua_hand_over_def k)
  show "published rd (lua_hand_over rd (sk_held ks inst) (sk_hold_prefix ks @ i) f r) = published rd r"
    by (simp add: lua_hand_over_def k adjust_reads)
qed

lemma hand_over_fold_refines:
  assumes "stands_for rd ks now r s" and "ms_ok s" and "replica inst" and "\<forall>f \<in> set fs. count_field f"
  shows "stands_for rd ks now (fold (lua_hand_over rd (sk_held ks inst) (sk_hold_prefix ks @ i)) fs r)
      (fold (hand_over inst (hold_owner i)) fs s) \<and>
    same_tables rd ks now r (fold (lua_hand_over rd (sk_held ks inst) (sk_hold_prefix ks @ i)) fs r) \<and>
    published rd (fold (lua_hand_over rd (sk_held ks inst) (sk_hold_prefix ks @ i)) fs r) = published rd r"
  using assms(1,2,4)
proof (induction fs arbitrary: r s)
  case (Cons f fs)
  have "count_field f" using Cons.prems(3) by simp
  note H = hand_over_refines [OF Cons.prems(1,2) assms(3) this, of i]
  have "ms_ok (fold (hand_over inst (hold_owner i)) [f] s)"
    using fold_hand_over [OF Cons.prems(2), of inst "hold_owner i" "[f]"] replica_not_owner [OF assms(3)] by blast
  then show ?case using Cons.IH [OF H(1)] H(2,3) Cons.prems(3) same_tables_trans by fastforce
qed simp

lemma waited_eq: "stands_for rd ks now r s \<Longrightarrow> p \<noteq> [] \<Longrightarrow> waited rd ks now r p = pool_waited now p s"
proof -
  assume sf: "stands_for rd ks now r s" and p: "p \<noteq> []"
  have "int now < num (HGET rd r (sk_totals ks) (wait_mark q)) \<longleftrightarrow> current (map_of (ms_waiting s)) q now" for q
    using sf by (simp add: stands_for_def tables_agree_def)
  from this [of p] this [of "[]"] show ?thesis using p by (simp add: waited_def pool_waited_def wait_mark_def current_def)
qed

lemma keep_refines:
  assumes "stands_for rd ks now r s" and "ledger_inv s" and "replica inst" and "sr_pool sl \<noteq> []"
    and "r1 = fold (lua_hand_over rd (sk_held ks inst) (sk_hold_prefix ks @ sh_id h)) (claim_fields (sr_pool sl) (sr_tenant sl) (sr_key sl)) r"
    and "r2 = ZADD rd (sk_holds ks) (int (now + sh_ttl h)) (sh_id h) (fst (HINCRBY rd (sk_totals ks) (held_field (sr_pool sl)) 1
      (fst (HINCRBY rd (sk_hold_prefix ks @ sh_id h) (held_field (sr_pool sl)) 1 r1))))"
    and "r' = (if waited rd ks now r (sr_pool sl) then HSET rd (sk_chain ks) (sh_id h) (num (HGET rd r (sk_chain ks) (sh_id h)) + 1) r2
      else HDEL rd (sk_chain ks) (sh_id h) r2)"
  shows "stands_for rd ks now r' (keep_slot inst now sl h s) \<and> published rd r' = published rd r"
proof -
  let ?hf = "held_field (sr_pool sl)" let ?o = "hold_owner (sh_id h)"
  let ?s1 = "fold (hand_over inst ?o) (claim_fields (sr_pool sl) (sr_tenant sl) (sr_key sl)) s" let ?s2 = "ms_add ?o ?hf 1 ?s1"
  let ?s' = "keep_slot inst now sl h s"
  have H: "stands_for rd ks now r1 ?s1" "same_tables rd ks now r r1" "published rd r1 = published rd r"
    using hand_over_fold_refines [OF assms(1) ledger_invD(1) [OF assms(2)] assms(3), of "claim_fields (sr_pool sl) (sr_tenant sl) (sr_key sl)"
        "sh_id h"] claim_fields_count unfolding assms(5) by auto
  have k: "sk_hold_prefix ks @ sh_id h = owner_key ks ?o" by (simp add: owner_key_simps)
  have m: "ms_count ?s' = ms_count ?s2" "mine o' f ?s' = mine o' f ?s2" for o' f
    by (simp_all add: keep_slot_def Let_def mine_def ms_count_def fun_eq_iff)
  have t: "ms_recent ?s' = ms_recent ?s1" "ms_waiting ?s' = ms_waiting ?s1" "ms_starving ?s' = ms_starving ?s1" "ms_live ?s' = ms_live ?s1"
    "ms_holds ?s' = AList.update (sh_id h) (now + sh_ttl h) (ms_holds ?s1)"
    by (simp_all add: keep_slot_def Let_def) (simp_all add: ms_add_def)
  have run: "HGET rd r (sk_chain ks) i = cnt (get_or 0 (ms_chain s) i)" for i
    using assms(1) by (simp add: stands_for_def tables_agree_def)
  have run1: "HGET rd r1 (sk_chain ks) = HGET rd r (sk_chain ks)" using H(2) by (simp add: same_tables_def)
  have chain: "HGET rd r' (sk_chain ks) i = cnt (get_or 0 (ms_chain ?s') i)" for i
    using waited_eq [OF assms(1,4)] unfolding assms(7)
    by (auto simp: assms(6) k run run1 keep_slot_def Let_def) (auto simp: ms_add_def cnt_def)
  have o: "HGET rd r1 (owner_key ks o') g = cnt (mine o' g ?s1)" "count_field g \<Longrightarrow> HGET rd r1 (sk_totals ks) g = cnt (ms_count ?s1 g)" for o' g
    using H(1) by (simp_all add: stands_for_def counts_agree_def)
  have own: "HGET rd r' (owner_key ks o') g = cnt (mine o' g ?s')" for o' g
    unfolding m by (auto simp: assms(6,7) k o mine_add cnt_def nat_add_distrib)
  have tot: "HGET rd r' (sk_totals ks) g = cnt (ms_count ?s' g)" if "count_field g" for g
    unfolding m using that by (auto simp: assms(6,7) k o count_add cnt_def nat_add_distrib)
  have mark: "HGET rd r' (sk_totals ks) g = HGET rd r1 (sk_totals ks) g" if "\<not> count_field g" for g
    using that by (auto simp: assms(6,7) k)
  have z: "ZSCORE rd r' = (ZSCORE rd r1)(sk_holds ks := (ZSCORE rd r1 (sk_holds ks))(sh_id h \<mapsto> int (now + sh_ttl h)))"
    by (simp add: assms(6,7) k)
  have "stands_for rd ks now r' ?s'"
    using H(1) own tot chain mark unfolding stands_for_def counts_agree_def holds_agree_def tables_agree_def is_live_def t z
    by (simp del: of_nat_add)
  then show ?thesis using H(3) by (simp add: assms(6,7) k)
qed

lemma drop_run_refines:
  assumes "stands_for rd ks now r s"
  shows "stands_for rd ks now (HDEL rd (sk_chain ks) i r) (s\<lparr>ms_chain := AList.delete i (ms_chain s)\<rparr>)"
proof -
  let ?s = "s\<lparr>ms_chain := AList.delete i (ms_chain s)\<rparr>"
  have m: "ms_count ?s = ms_count s" "mine o' f ?s = mine o' f s" for o' f by (simp_all add: mine_def ms_count_def fun_eq_iff)
  show ?thesis
    using assms unfolding stands_for_def counts_agree_def holds_agree_def tables_agree_def is_live_def m by simp
qed

text \<open>The conditions under which a slot is held.\<close>

lemma hold_allowed_eq:
  assumes "stands_for rd ks now r s" and "ledger_inv s" and "replica inst" and "sr_pool sl \<noteq> []"
  shows "hold_allowed inst now sl h chained s \<longleftrightarrow>
    chained \<and> \<not> int now < num (HGET rd r (sk_totals ks) (''wa|'' @ sr_pool sl)) \<and>
    (\<not> waited rd ks now r (sr_pool sl) \<or> num (HGET rd r (sk_chain ks) (sh_id h)) < int (sh_max_run h)) \<and>
    0 < num (HGET rd r (sk_held ks inst) (pool_field (sr_pool sl))) \<and>
    num (HGET rd r (sk_totals ks) (held_field (sr_pool sl))) < int (sh_max_held h) \<and> \<not> EXISTS rd r (sk_hold_prefix ks @ sh_id h)"
proof -
  have "HGETALL rd r (sk_hold_prefix ks @ sh_id h) = [] \<longleftrightarrow> HGET rd r (sk_hold_prefix ks @ sh_id h) = Map.empty"
    using hgetall [of "sk_hold_prefix ks @ sh_id h" r] by (metis kinds(4) map_of_eq_empty_iff)
  then have e: "EXISTS rd r (sk_hold_prefix ks @ sh_id h) \<longleftrightarrow> contains_key (ms_holds s) (sh_id h)"
    using hold_listed [OF assms(1,2), of "sh_id h"] exists [of "sk_hold_prefix ks @ sh_id h" r] by auto
  have st: "int now < num (HGET rd r (sk_totals ks) (''wa|'' @ sr_pool sl)) \<longleftrightarrow> current (map_of (ms_starving s)) (sr_pool sl) now"
    using assms(1) unfolding stands_for_def tables_agree_def by blast
  have run: "num (HGET rd r (sk_chain ks) (sh_id h)) = int (get_or 0 (ms_chain s) (sh_id h))"
    using assms(1) by (simp add: stands_for_def tables_agree_def)
  have own: "num (HGET rd r (sk_held ks inst) (pool_field (sr_pool sl))) = int (mine inst (pool_field (sr_pool sl)) s)"
    using assms(1) owner_key_simps(2) [OF assms(3), of ks] by (metis num_cnt stands_for_def counts_agree_def)
  show ?thesis
    unfolding e st run own waited_eq [OF assms(1,4)] totals_read [OF assms(1) count_field_simps(6)]
    by (auto simp: hold_allowed_def Let_def current_def)
qed

lemma hold_refines:
  assumes "stands_for rd ks now r s" and "now = now_ms rd r" and "ledger_inv s" and "replica inst" and "sr_pool sl \<noteq> []"
    and "wf_hold now h" and "slot_hold rd ks Delivered inst sl h r = (r', res)" and "mem_hold inst now sl h s = (s', w, res')"
  shows "res = res' \<and> stands_for rd ks now r' s' \<and> (\<exists>ps \<subseteq> set w. published_for rd ks now r r' ps \<and> wakes s s' ps)"
proof -
  let ?P = "sr_pool sl" let ?i = "sh_id h"
  have wf: "max (sh_ttl h) 1 = sh_ttl h" "max (sh_remember h) 1 = sh_remember h" "max (sh_max_run h) 1 = sh_max_run h"
    using assms(6) by (simp_all add: wf_hold_def)
  define r1 where "r1 = lua_purge_holds rd (sk_totals ks) (sk_holds ks) (sk_hold_prefix ks) (sk_channel ks) now r"
  obtain s1 w1 where p: "purge_holds now s = (s1, w1)" by fastforce
  have 1: "stands_for rd ks now r1 s1" "same_tables rd ks now r r1" "published_for rd ks now r r1 (set w1)" and i1: "ledger_inv s1"
    using purge_refines [OF assms(1,3) p r1_def] ledger_inv_purge [OF assms(3), of now] p by auto
  obtain s2 chained where n: "note_step now h s1 = (s2, chained)" by fastforce
  obtain r2 chained' where l: "lua_note_step rd (sk_recent ks) (sk_chain ks) now ?i (sh_ttl h) (sh_arrived_ago h) (sh_remember h) r1 =
      (r2, chained')" by fastforce
  have 2: "stands_for rd ks now r2 s2" "chained' = chained" "waited rd ks now r2 = waited rd ks now r1" "published rd r2 = published rd r1"
    and i2: "ledger_inv s2"
    using note_step_refines [OF 1(1) i1 assms(6) n l] note_step_reads(1) [OF i1 n] by auto
  let ?mark = "HGET rd r2 (sk_totals ks) (''wa|'' @ ?P)"
  define r3 where "r3 = (if ?mark \<noteq> None \<and> \<not> int now < num ?mark then HDEL rd (sk_totals ks) (''wa|'' @ ?P) r2 else r2)"
  have 3: "stands_for rd ks now r3 s2" "waited rd ks now r3 = waited rd ks now r1" "published rd r3 = published rd r1"
    using stale_mark_refines [OF 2(1), of ?P] 2 by (auto simp: r3_def)
  have mk: "int now < num (HGET rd r3 (sk_totals ks) (''wa|'' @ ?P)) \<longleftrightarrow> int now < num ?mark" by (auto simp: r3_def)
  have W: "published_for rd ks now r r4 (set w1 \<union> ps)" if "published_for rd ks now r3 r4 ps" for r4 ps
    using that published_for_append [OF 1(3), of r4 ps] same_tables_waited [OF 1(2)] 3(2,3) by (simp add: published_for_def)
  have "ms_count s2 = ms_count s1" using note_step_reads(2) [OF i1 n] by (simp add: obs_def)
  then have V: "wakes s s3 (set w1 \<union> ps)" if "wakes s2 s3 ps" for s3 ps
    using that wakes_trans [OF wakes_free_holds [OF ledger_invD(1) [OF assms(3)] p [unfolded purge_holds_def]], of s3 ps]
    by (simp add: wakes_def)
  define cond where "cond \<longleftrightarrow> chained \<and> \<not> int now < num ?mark \<and>
    (\<not> waited rd ks now r2 ?P \<or> num (HGET rd r3 (sk_chain ks) ?i) < int (sh_max_run h)) \<and>
    0 < num (HGET rd r3 (sk_held ks inst) (pool_field ?P)) \<and>
    num (HGET rd r3 (sk_totals ks) (held_field ?P)) < int (sh_max_held h) \<and> \<not> EXISTS rd r3 (sk_hold_prefix ks @ ?i)"
  have cond: "hold_allowed inst now sl h chained s2 \<longleftrightarrow> cond"
    unfolding cond_def hold_allowed_eq [OF 3(1) i2 assms(4,5)] mk 3(2) 2(3) ..
  note C = assms(7) [unfolded slot_hold_def invoke_def delivery.case slot_hold_script_def assms(2) [symmetric] wf Let_def field_names
      lua_fields_eq r1_def [symmetric] l prod.case 2(2) waited_def [symmetric] r3_def [symmetric] cond_def [symmetric]]
  show ?thesis
  proof (cases cond)
    case True
    let ?fs = "claim_fields ?P (sr_tenant sl) (sr_key sl)"
    define r4 where "r4 = fold (lua_hand_over rd (sk_held ks inst) (sk_hold_prefix ks @ ?i)) ?fs r3"
    define r5 where "r5 = ZADD rd (sk_holds ks) (int (now + sh_ttl h)) ?i (fst (HINCRBY rd (sk_totals ks) (held_field ?P) 1
      (fst (HINCRBY rd (sk_hold_prefix ks @ ?i) (held_field ?P) 1 r4))))"
    define r6 where "r6 = (if waited rd ks now r3 ?P then HSET rd (sk_chain ks) ?i (num (HGET rd r3 (sk_chain ks) ?i) + 1) r5
      else HDEL rd (sk_chain ks) ?i r5)"
    have r': "r' = r6" "res = Inr (True, reply_counts (num (HGET rd r6 (sk_totals ks) (pool_field ?P))) (num (HGET rd r6 (sk_totals ks) GLOBAL_FIELD)))"
      using C True 3(2) 2(3) unfolding r4_def [symmetric] r5_def [symmetric] by (auto simp: r6_def)
    have s': "s' = keep_slot inst now sl h s2" "w = w1" "res' = Inr (True, counts_of ?P s')"
      using assms(8) True cond by (auto simp: mem_hold_def p n Let_def)
    have k: "stands_for rd ks now r' s'" "published rd r' = published rd r3"
      using keep_refines [OF 3(1) i2 assms(4,5) r4_def r5_def r6_def] by (simp_all add: r' s')
    then show ?thesis
      using W [OF published_for_none [of rd r' r3 ks now]] V [OF wakes_keep [OF i2 assms(4), of now sl h]]
        reply_eq [OF k(1), of ?P] r' s' by auto
  next
    case False
    let ?s = "s2\<lparr>ms_chain := AList.delete ?i (ms_chain s2)\<rparr>" let ?r = "HDEL rd (sk_chain ks) ?i r3"
    obtain s4 w4 cc where m: "mem_release inst sl ?s = (s4, w4, Inr cc)" and w4: "w4 = [?P]"
      using ledger_invD(5) [OF i2] by (auto simp: mem_release_def Let_def)
    obtain r4 freed pc gc where f: "lua_release_fields rd (sk_totals ks) (sk_held ks inst) ?P (sr_tenant sl) (sr_key sl) (sk_channel ks) now ?r =
      (r4, freed, pc, gc)" by (metis prod_cases4)
    have R: "stands_for rd ks now r4 s4" "reply_counts pc gc = cc" "freed = (if 0 < mine inst (pool_field ?P) ?s then 1 else 0)"
        "published_for rd ks now ?r r4 (if freed = 1 then {?P} else {})"
      using release_refines [OF drop_run_refines [OF 3(1)] ledger_inv_drop_run [OF i2] assms(4) m f] by (auto split: if_splits)
    have "freed \<noteq> 2" by (simp add: R(3))
    then have r': "r' = r4" "res = Inr (False, cc)" using C False f R(2) by simp_all
    have s': "s' = s4" "w = w1 @ [?P]" "res' = Inr (False, cc)" using assms(8) False cond m w4 by (auto simp: mem_hold_def p n Let_def)
    have "published_for rd ks now r3 r4 (if freed = 1 then {?P} else {})"
      using R(4) by (simp add: published_for_def waited_def)
    moreover have "wakes s2 s4 (if freed = 1 then {?P} else {})"
      using wakes_release [OF ledger_inv_drop_run [OF i2] m] by (simp add: R(3) wakes_def ms_count_def split: if_splits)
    ultimately show ?thesis using W V R(1) r' s' by (intro conjI exI [of _ "set w1 \<union> (if freed = 1 then {?P} else {})"]) auto
  qed
qed

end

end
