(* ===== verification/Redis_Fleet.thy ===== *)
theory Redis_Fleet
  imports Redis_Calls
begin

text \<open>
  The calls of \<open>Redis_Calls\<close> continued: reconciling, heartbeats and deregistration, which end a replica's
  holdings, and the passing of time, in which heartbeats expire.
\<close>

definition members_ok :: "'r redis \<Rightarrow> slot_keys \<Rightarrow> 'r \<Rightarrow> bool" where
  "members_ok rd ks r \<longleftrightarrow> (\<forall>i. ZSCORE rd r (sk_replicas ks) i \<noteq> None \<longrightarrow> replica i)"

section \<open>What a reconcile sends\<close>

lemma sent_filter [simp]: "sent (filter (\<lambda>(_, n). 0 < n) es) f = sent es f"
  by (induction es) auto

lemma holding_fields_sent: "sent (holding_fields hs) f = sent (concat (map entries hs)) f"
proof -
  let ?own = "\<lambda>h. (if 0 < ph_in_flight h then [(pool_field (ph_pool h), ph_in_flight h)] else [])
    @ map (\<lambda>(t, n). (tenant_field (ph_pool h) t, n)) (ph_tenants h) @ map (\<lambda>(k, n). (key_field (ph_pool h) k, n)) (ph_keys h)"
  have e: "sent (entries h) f = sent (?own h) f + (if f = GLOBAL_FIELD then ph_in_flight h else 0)" for h
    by (simp add: entries_def)
  have "sent (concat (map entries hs)) f =
      (if f = GLOBAL_FIELD then sum_list (map ph_in_flight hs) else 0) + sent (concat (map ?own hs)) f"
    by (induction hs) (simp_all add: e del: if_split_asm)
  then show ?thesis unfolding holding_fields_def Let_def field_names sent_filter by simp
qed

lemma lua_table_reads:
  assumes "distinct (map fst es)" and "\<forall>(f, n) \<in> set es. 0 < n"
  shows "map_of (lua_table es) f = cnt (sent es f)" and "distinct (map fst (lua_table es))"
proof -
  have "fold (\<lambda>(f, n) t. if 0 < n then AList.update f (int n) t else t) es [] =
      fold (\<lambda>e. AList.update (fst e) (int (snd e))) es []"
    using assms(2) by (intro fold_cong) auto
  then have t: "lua_table es = map (\<lambda>e. (fst e, int (snd e))) es"
    using fold_update_fresh [of fst es "[]" "int \<circ> snd"] assms(1) by (simp add: lua_table_def)
  show "distinct (map fst (lua_table es))" using assms(1) by (simp add: t comp_def)
  show "map_of (lua_table es) f = cnt (sent es f)"
    unfolding t using assms
  proof (induction es)
    case (Cons e es)
    have "sent es f = 0" if "f = fst e" using Cons.prems(1) that by (induction es) auto
    then show ?case using Cons by (cases e) (auto simp: cnt_def)
  qed simp
qed

lemma holding_fields_pos: "\<forall>(f, n) \<in> set (holding_fields hs). 0 < n"
  unfolding holding_fields_def Let_def set_filter by blast

lemma add_entry_count: "ms_count (fold (add_entry inst) es s) f = ms_count s f + sent es f"
  by (induction es arbitrary: s) (auto simp: add_entry_def count_add nat_add_distrib)

context slot_scripts
begin

lemma replace_fold:
  assumes "distinct (map fst old)" and "\<forall>(f, n) \<in> set old. count_field f"
    and "r' = fold (replace_entry rd (sk_totals ks) new) old r"
  shows "(count_field f \<longrightarrow> (\<forall>c. HGET rd r (sk_totals ks) f = cnt c \<longrightarrow>
      HGET rd r' (sk_totals ks) f = (case map_of old f of None \<Rightarrow> cnt c | Some n \<Rightarrow> cnt (nat (int c + (get_or 0 new f - n)))))) \<and>
    (\<not> count_field f \<longrightarrow> HGET rd r' (sk_totals ks) f = HGET rd r (sk_totals ks) f) \<and>
    (\<forall>k. k \<noteq> sk_totals ks \<longrightarrow> HGET rd r' k = HGET rd r k) \<and> ZSCORE rd r' = ZSCORE rd r \<and> published rd r' = published rd r"
  using assms
proof (induction old arbitrary: r)
  case (Cons e old)
  obtain g n where e: "e = (g, n)" by (cases e)
  let ?r = "replace_entry rd (sk_totals ks) new e r"
  have g: "map_of old g = None" "distinct (map fst old)" "\<forall>(f, n) \<in> set old. count_field f" "count_field g"
    using Cons.prems by (auto simp: e map_of_eq_None_iff)
  have k: "HGET rd ?r (sk_totals ks) f = (if f = g \<and> get_or 0 new g - n \<noteq> 0
      then (if num (HGET rd r (sk_totals ks) g) + (get_or 0 new g - n) \<le> 0 then None
            else Some (num (HGET rd r (sk_totals ks) g) + (get_or 0 new g - n)))
      else HGET rd r (sk_totals ks) f)" for f
    by (auto simp: replace_entry_def e Let_def adjust_reads)
  have o: "k \<noteq> sk_totals ks \<Longrightarrow> HGET rd ?r k = HGET rd r k" "ZSCORE rd ?r = ZSCORE rd r" "published rd ?r = published rd r" for k
    by (auto simp: replace_entry_def e Let_def adjust_reads)
  have c: "HGET rd ?r (sk_totals ks) f = cnt (if f = g then nat (int c + (get_or 0 new g - n)) else c)"
    if "HGET rd r (sk_totals ks) f = cnt c" for f c
    unfolding k using that cnt_shift [of c "get_or 0 new g - n"] by auto
  have r': "r' = fold (replace_entry rd (sk_totals ks) new) old ?r" using Cons.prems(3) by simp
  note IH = Cons.IH [OF g(2,3) r']
  show ?case
    using IH o k [of f] c [of f] g(1,4) by (auto simp: e split: option.splits if_splits)
qed (auto split: option.splits)

lemma new_fold:
  assumes "distinct (map fst new)" and "\<forall>(f, n) \<in> set new. count_field f"
    and "r' = fold (new_entry rd (sk_totals ks) old) new r"
  shows "(count_field f \<longrightarrow> (\<forall>c. HGET rd r (sk_totals ks) f = cnt c \<longrightarrow>
      HGET rd r' (sk_totals ks) f = cnt (if contains_key old f then c else nat (int c + num (map_of new f))))) \<and>
    (\<not> count_field f \<longrightarrow> HGET rd r' (sk_totals ks) f = HGET rd r (sk_totals ks) f) \<and>
    (\<forall>k. k \<noteq> sk_totals ks \<longrightarrow> HGET rd r' k = HGET rd r k) \<and> ZSCORE rd r' = ZSCORE rd r \<and> published rd r' = published rd r"
  using assms
proof (induction new arbitrary: r)
  case (Cons e new)
  obtain g n where e: "e = (g, n)" by (cases e)
  let ?r = "new_entry rd (sk_totals ks) old e r"
  have g: "map_of new g = None" "distinct (map fst new)" "\<forall>(f, n) \<in> set new. count_field f" "count_field g"
    using Cons.prems by (auto simp: e map_of_eq_None_iff)
  have k: "HGET rd ?r (sk_totals ks) f = (if f = g \<and> \<not> contains_key old g
      then (if num (HGET rd r (sk_totals ks) g) + n \<le> 0 then None else Some (num (HGET rd r (sk_totals ks) g) + n))
      else HGET rd r (sk_totals ks) f)" for f
    by (auto simp: new_entry_def e adjust_reads)
  have o: "k \<noteq> sk_totals ks \<Longrightarrow> HGET rd ?r k = HGET rd r k" "ZSCORE rd ?r = ZSCORE rd r" "published rd ?r = published rd r" for k
    by (auto simp: new_entry_def e adjust_reads)
  have c: "HGET rd ?r (sk_totals ks) f = cnt (if f = g \<and> \<not> contains_key old g then nat (int c + n) else c)"
    if "HGET rd r (sk_totals ks) f = cnt c" for f c
    unfolding k using that cnt_shift [of c n] by auto
  have r': "r' = fold (new_entry rd (sk_totals ks) old) new ?r" using Cons.prems(3) by simp
  note IH = Cons.IH [OF g(2,3) r']
  show ?case
    using IH o k [of f] c [of f] g(1,4) by (auto simp: e split: if_splits)
qed auto

lemma store_fold:
  assumes "distinct (map fst new)" and "r' = fold (\<lambda>e. HSET rd (owner_key ks o') (fst e) (snd e)) new r"
  shows "HGET rd r' k f =
      (if k = owner_key ks o' then (case map_of new f of None \<Rightarrow> HGET rd r k f | Some v \<Rightarrow> Some v) else HGET rd r k f) \<and>
    ZSCORE rd r' = ZSCORE rd r \<and> published rd r' = published rd r"
  using assms
proof (induction new arbitrary: r)
  case (Cons e new)
  have "map_of new (fst e) = None" using Cons.prems by (simp add: map_of_eq_None_iff)
  then show ?case using Cons.IH [of "HSET rd (owner_key ks o') (fst e) (snd e) r"] Cons.prems
    by (cases e) (auto split: option.splits)
qed simp

lemma wake_fold_refines:
  assumes "stands_for rd ks now r s"
  shows "stands_for rd ks now (fold (\<lambda>p. wake rd (sk_totals ks) p (sk_channel ks) now) ps r) s \<and>
    published_for rd ks now r (fold (\<lambda>p. wake rd (sk_totals ks) p (sk_channel ks) now) ps r) (set ps)"
  using assms
proof (induction ps arbitrary: r)
  case (Cons p ps)
  let ?r = "wake rd (sk_totals ks) p (sk_channel ks) now r"
  have w: "waited rd ks now ?r = waited rd ks now r" using wake_reads(3) [of now now] by (simp add: waited_def fun_eq_iff)
  have "published_for rd ks now r ?r {p}"
    using wake_reads(5) [of now now p "sk_channel ks" r] by (auto simp: published_for_def intro: exI [of _ "[p]"])
  then show ?case using Cons.IH [OF wake_refines [OF Cons.prems]] published_for_append [OF _ _ w] by fastforce
qed (simp add: published_for_none)

text \<open>The totals and holdings after the loops of \<open>SLOT_RECONCILE\<close>, before it wakes anyone.\<close>

lemma reconcile_loops:
  assumes "stands_for rd ks now r s" and "ledger_inv s" and "replica inst" and "distinct (map fst (holding_fields hs))"
    and "new = lua_table (holding_fields hs)" and "old = pairs rd (HGETALL rd r (sk_held ks inst))"
    and "r1 = fold (replace_entry rd (sk_totals ks) new) old r" and "r2 = fold (new_entry rd (sk_totals ks) old) (pairs rd new) r1"
    and "r3 = fold (\<lambda>e. HSET rd (sk_held ks inst) (fst e) (snd e)) (pairs rd new) (DEL rd (sk_held ks inst) r2)"
    and "reclaim inst s = (s1, w)" and "s' = fold (add_holdings inst) hs s1"
  shows "stands_for rd ks now r3 s' \<and> published rd r3 = published rd r \<and> waited rd ks now r3 = waited rd ks now r"
proof -
  note inv = ledger_invD [OF assms(2)]
  let ?es = "concat (map entries hs)" let ?n = "pairs rd new"
  have k: "sk_held ks inst = owner_key ks inst" using assms(3) by (simp add: owner_key_simps)
  have o: "HGET rd r (owner_key ks o') f = cnt (mine o' f s)" "count_field f \<Longrightarrow> HGET rd r (sk_totals ks) f = cnt (ms_count s f)" for o' f
    using assms(1) by (simp_all add: stands_for_def counts_agree_def)
  have old: "distinct (map fst old)" "map_of old f = cnt (mine inst f s)" for f
    using hgetall [of "owner_key ks inst" r] map_of_mset_eq [of "HGETALL rd r (owner_key ks inst)" old] pairs [of "HGETALL rd r (owner_key ks inst)"]
    by (auto simp: assms(6) k hmap_ok_def o)
  have tab: "map_of new f = cnt (sent ?es f)" "distinct (map fst new)" for f
    using lua_table_reads [OF assms(4) holding_fields_pos] by (simp_all add: assms(5) holding_fields_sent)
  have new: "distinct (map fst ?n)" "map_of ?n f = cnt (sent ?es f)" for f
    using map_of_mset_eq [of new ?n] pairs [of new] tab by (auto simp: hmap_ok_def)
  have oc: "\<forall>(f, n) \<in> set old. count_field f"
    using inv(6) [of inst] old by (force simp: cnt_Some dest: map_of_is_SomeI)
  have nc: "\<forall>(f, n) \<in> set ?n. count_field f"
    using entries_count [of hs] new by (force simp: cnt_Some dest: map_of_is_SomeI)
  note A = replace_fold [OF old(1) oc assms(7)] and B = new_fold [OF new(1) nc assms(8)]
    and D = store_fold [OF new(1) assms(9) [unfolded k]]
  have C: "ms_count s1 f + mine inst f s = ms_count s f" "mine o' f s1 = (if o' = inst then 0 else mine o' f s)" for f o'
    using reclaim_correct(2,3) [OF inv(1) assms(10)] by blast+
  note E = fold_add_entry [OF reclaim_correct(1) [OF inv(1) assms(10)], of inst ?es, folded add_holdings_entries, folded assms(11)]
  have cs: "ms_count s' f = ms_count s1 f + sent ?es f" for f
    by (simp add: assms(11) add_holdings_entries add_entry_count)
  have g: "get_or 0 new f = int (sent ?es f)" for f using tab(1) [of f] by (simp add: get_or_def cnt_def)
  have tot: "HGET rd r3 (sk_totals ks) f = cnt (ms_count s' f)" if "count_field f" for f
  proof -
    let ?c = "if mine inst f s = 0 then ms_count s f else ms_count s' f"
    have n: "nat (int (ms_count s f) + (int (sent ?es f) - int (mine inst f s))) = ms_count s' f"
      using C(1) [of f] by (simp add: cs)
    have "HGET rd r1 (sk_totals ks) f = cnt ?c"
      using A [of f] o(2) [OF that] old(2) [of f] that n by (simp add: g cnt_def split: if_splits)
    moreover have "contains_key old f \<longleftrightarrow> mine inst f s \<noteq> 0" using old(2) [of f] by (simp add: contains_key_def)
    ultimately have "HGET rd r2 (sk_totals ks) f = cnt (if mine inst f s \<noteq> 0 then ms_count s' f else nat (int (ms_count s f) + int (sent ?es f)))"
      using B [of f] that new(2) [of f] by simp
    moreover have "mine inst f s = 0 \<Longrightarrow> nat (int (ms_count s f) + int (sent ?es f)) = ms_count s' f" using n by simp
    ultimately show ?thesis using D [of "sk_totals ks" f] by (cases "mine inst f s = 0") simp_all
  qed
  have own: "HGET rd r3 (owner_key ks o') f = cnt (mine o' f s')" for o' f
    using A B C(2) [of o' f] E D [of "owner_key ks o'" f] new(2) [of f] o(1) [of o' f]
    by (cases "o' = inst") (auto split: option.splits)
  have fr: "HGET rd r3 (sk_chain ks) = HGET rd r (sk_chain ks)" "\<not> count_field f \<Longrightarrow> HGET rd r3 (sk_totals ks) f = HGET rd r (sk_totals ks) f"
    "ZSCORE rd r3 = ZSCORE rd r" for f
    using A [of f] B [of f] D [of "sk_chain ks"] D [of "sk_totals ks" f] by (auto simp: fun_eq_iff)
  have st: "same_tables rd ks now r r3" by (simp add: same_tables_def fr)
  have "stands_for rd ks now r3 s'"
  proof (rule stands_for_frame [OF assms(1) _ st fr(3)])
    show "counts_agree rd ks r3 s'" using tot own by (simp add: counts_agree_def)
    show "tables s' = tables s" "ms_holds s' = ms_holds s"
      using E reclaim_frame [OF assms(10)] reclaim_correct(4) [OF inv(1) assms(10)] by simp_all
  qed
  then show ?thesis using same_tables_waited [OF st] A B D by simp
qed

lemma reconcile_wakes:
  assumes "stands_for rd ks now r s" and "ledger_inv s" and "replica inst" and "distinct (map fst (holding_fields hs))"
    and "new = lua_table (holding_fields hs)" and "old = pairs rd (HGETALL rd r (sk_held ks inst))"
    and "low = map (drop 2 \<circ> fst) (filter (\<lambda>e. get_or 0 new (fst e) - snd e < 0 \<and> take 2 (fst e) = ''p|'') old)"
    and "reclaim inst s = (s1, w)" and "s' = fold (add_holdings inst) hs s1"
  shows "wakes s s' (set low)"
  unfolding wakes_def
proof (intro allI impI)
  fix p
  let ?f = "pool_field p" let ?n = "sent (concat (map entries hs)) ?f"
  assume lt: "ms_count s' ?f < ms_count s ?f"
  have "ms_count s' ?f = ms_count s1 ?f + ?n" by (simp add: assms(9) add_holdings_entries add_entry_count)
  then have n: "?n < mine inst ?f s" using lt reclaim_correct(2) [OF ledger_invD(1) [OF assms(2)] assms(8), of ?f] by simp
  have "HGET rd r (owner_key ks inst) ?f = Some (int (mine inst ?f s))"
    using n assms(1) by (simp add: stands_for_def counts_agree_def cnt_def)
  then have "(?f, int (mine inst ?f s)) \<in> set (HGETALL rd r (owner_key ks inst))"
    using hgetall [of "owner_key ks inst" r] by (metis kinds(9) map_of_SomeD)
  then have o: "(?f, int (mine inst ?f s)) \<in> set old"
    using pairs [of "HGETALL rd r (sk_held ks inst)"] owner_key_simps(2) [OF assms(3), of ks] by (metis assms(6) set_mset_mset)
  have "map_of new ?f = cnt ?n" using lua_table_reads [OF assms(4) holding_fields_pos] by (simp add: assms(5) holding_fields_sent)
  then have "get_or 0 new ?f = int ?n" by (simp add: get_or_def cnt_def)
  then have "(?f, int (mine inst ?f s)) \<in> set (filter (\<lambda>e. get_or 0 new (fst e) - snd e < 0 \<and> take 2 (fst e) = ''p|'') old)"
    using o n by (simp add: pool_field_def)
  then show "p \<in> set low" by (force simp: assms(7) pool_field_def)
qed

lemma reconcile_refines:
  assumes "stands_for rd ks now r s" and "now = now_ms rd r" and "ledger_inv s" and "replica inst"
    and "distinct (map fst (holding_fields hs))"
    and "slot_reconcile rd ks Delivered inst hs r = (r', res)" and "mem_reconcile inst hs s = (s', w, res')"
  shows "res = res' \<and> stands_for rd ks now r' s' \<and> (\<exists>ps \<subseteq> set w. published_for rd ks now r r' ps \<and> wakes s s' ps)"
proof (cases "inst \<in> set (ms_live s)")
  case False
  then have "\<not> is_live rd (sk_replicas ks) now inst r" using assms(1) by (simp add: stands_for_def tables_agree_def)
  then have "r' = r" "res = Inr ReconcileNotRegistered"
    using assms(6) unfolding slot_reconcile_def invoke_def slot_reconcile_script_def assms(2) [symmetric] Let_def by simp_all
  then show ?thesis
    using assms(1,7) False ledger_invD(5) [OF assms(3)] published_for_none [of rd r r ks now] by (auto simp: mem_reconcile_def wakes_def)
next
  case True
  then have live: "is_live rd (sk_replicas ks) now inst r" using assms(1) by (simp add: stands_for_def tables_agree_def)
  define new where "new = lua_table (holding_fields hs)"
  define old where "old = pairs rd (HGETALL rd r (sk_held ks inst))"
  define r1 where "r1 = fold (replace_entry rd (sk_totals ks) new) old r"
  define r2 where "r2 = fold (new_entry rd (sk_totals ks) old) (pairs rd new) r1"
  define r3 where "r3 = fold (\<lambda>e. HSET rd (sk_held ks inst) (fst e) (snd e)) (pairs rd new) (DEL rd (sk_held ks inst) r2)"
  define low where "low = map (drop 2 \<circ> fst) (filter (\<lambda>e. get_or 0 new (fst e) - snd e < 0 \<and> take 2 (fst e) = ''p|'') old)"
  have r': "r' = fold (\<lambda>pool. wake rd (sk_totals ks) pool (sk_channel ks) now) low r3" "res = Inr Synced"
    using assms(6) live unfolding slot_reconcile_def invoke_def slot_reconcile_script_def assms(2) [symmetric] Let_def
      new_def [symmetric] old_def [symmetric] r1_def [symmetric] r2_def [symmetric] r3_def [symmetric] low_def [symmetric] by simp_all
  obtain s1 w1 where q: "reclaim inst s = (s1, w1)" by fastforce
  have s': "s' = fold (add_holdings inst) hs s1" "w = w1" "res' = Inr Synced"
    using assms(7) True ledger_invD(5) [OF assms(3)] q by (auto simp: mem_reconcile_def)
  note L = reconcile_loops [OF assms(1,3,4,5) new_def old_def r1_def r2_def r3_def q s'(1)]
  note W = wake_fold_refines [OF conjunct1 [OF L], of low, folded r'(1)]
  have "set low \<subseteq> set w"
  proof
    fix p assume "p \<in> set low"
    then obtain f n where f: "(f, n) \<in> set old" "take 2 f = ''p|''" "p = drop 2 f" by (auto simp: low_def)
    then have "(f, n) \<in> set (HGETALL rd r (owner_key ks inst))"
      using pairs [of "HGETALL rd r (sk_held ks inst)"] owner_key_simps(2) [OF assms(4), of ks] by (metis old_def set_mset_mset)
    then have "HGET rd r (owner_key ks inst) f = Some n" using hgetall [of "owner_key ks inst" r] by (metis kinds(9) map_of_is_SomeI)
    then have "0 < mine inst f s" using assms(1) by (auto simp: stands_for_def counts_agree_def cnt_Some)
    moreover have "f = pool_field p" using f(2,3) by (metis append_take_drop_id pool_field_def)
    ultimately show "p \<in> set w" using reclaim_woken [OF ledger_invD(1) [OF assms(3)] q] by (simp add: s'(2))
  qed
  moreover have "published_for rd ks now r r' (set low)" using W L by (simp add: published_for_def)
  moreover have "wakes s s' (set low)" by (rule reconcile_wakes [OF assms(1,3,4,5) new_def old_def low_def q s'(1)])
  ultimately show ?thesis using W r'(2) s'(3) by blast
qed

lemma release_call_refines:
  assumes "stands_for rd ks now r s" and "now = now_ms rd r" and "ledger_inv s" and "replica inst"
    and "slot_release rd ks Delivered inst sl r = (r', res)" and "mem_release inst sl s = (s', w, res')"
  shows "map_sum id snd res = res' \<and> stands_for rd ks now r' s' \<and>
    (\<exists>ps \<subseteq> set w. published_for rd ks now r r' ps \<and> wakes s s' ps)"
proof -
  obtain cc where m: "mem_release inst sl s = (s', w, Inr cc)" "w = [sr_pool sl]" "res' = Inr cc"
    using assms(6) ledger_invD(5) [OF assms(3)] by (auto simp: mem_release_def Let_def)
  obtain r1 freed pc gc where f: "lua_release_fields rd (sk_totals ks) (sk_held ks inst) (sr_pool sl) (sr_tenant sl) (sr_key sl) (sk_channel ks) now r =
      (r1, freed, pc, gc)" by (metis prod_cases4)
  have r': "r' = r1" "res = Inr (freed = 1, reply_counts pc gc)"
    using assms(5) unfolding slot_release_def invoke_def slot_release_script_def assms(2) [symmetric] by (auto simp: f)
  let ?ps = "if freed = 1 then {sr_pool sl} else {}"
  have R: "stands_for rd ks now r1 s'" "reply_counts pc gc = cc" "freed = (if 0 < mine inst (pool_field (sr_pool sl)) s then 1 else 0)"
    "published_for rd ks now r r1 ?ps"
    using release_refines [OF assms(1,3,4) m(1) f] by blast+
  have "?ps = (if 0 < mine inst (pool_field (sr_pool sl)) s then {sr_pool sl} else {})" by (simp add: R(3))
  then have "wakes s s' ?ps" using wakes_release [OF assms(3) m(1)] by (simp only:)
  moreover have "?ps \<subseteq> set w" by (simp add: m(2))
  ultimately show ?thesis using R(1,2,4) m(3) r' by (simp only: map_sum.simps snd_conv) blast
qed

section \<open>Replicas that come and go\<close>

lemma kill_refines:
  assumes "stands_for rd ks now r s" and "ledger_inv s" and "replica i" and "i \<notin> set (ms_live s)" and "mem_kill i s = (s', w)"
    and "r' = lua_reclaim rd (sk_totals ks) (sk_held ks i) (sk_channel ks) now r"
  shows "stands_for rd ks now r' s' \<and> same_tables rd ks now r r' \<and> ZSCORE rd r' = ZSCORE rd r \<and> ms_live s' = ms_live s \<and> ledger_inv s' \<and>
    published_for rd ks now r r' (set w) \<and> wakes s s' (set w)"
proof -
  note inv = ledger_invD [OF assms(2)]
  have "filter (\<lambda>j. j \<noteq> i) (ms_live s) = ms_live s" using assms(4) by (intro filter_True) auto
  then have q: "reclaim i s = (s', w)" using assms(5) by (simp add: mem_kill_def)
  have r': "r' = lua_reclaim rd (sk_totals ks) (owner_key ks i) (sk_channel ks) now r"
    using assms(6) owner_key_simps(2) [OF assms(3), of ks] by simp
  have c: "counts_agree rd ks r s" using assms(1) by (simp add: stands_for_def)
  note R = reclaim_refines [OF c inv(1) inv(6) [where o' = i] q r'] and C = reclaim_correct [OF inv(1) q]
  have "stands_for rd ks now r' s'"
    using R C(4) reclaim_frame [OF q] by (intro stands_for_frame [OF assms(1)]) auto
  then show ?thesis using R C(5) ledger_inv_reclaim [OF assms(2,3) q] wakes_reclaim [OF inv(1) q] by blast
qed

lemma kill_all_refines:
  assumes "stands_for rd ks now r s" and "ledger_inv s" and "\<forall>i \<in> set ids. replica i \<and> i \<notin> set (ms_live s)"
    and "r' = fold (\<lambda>i. lua_reclaim rd (sk_totals ks) (sk_held_prefix ks @ i) (sk_channel ks) now) ids r"
    and "s' = fold (\<lambda>i s. fst (mem_kill i s)) ids s"
  shows "stands_for rd ks now r' s' \<and> same_tables rd ks now r r' \<and> ZSCORE rd r' = ZSCORE rd r \<and> ms_live s' = ms_live s \<and> ledger_inv s' \<and>
    (\<exists>ps. published_for rd ks now r r' ps \<and> wakes s s' ps)"
  using assms
proof (induction ids arbitrary: r s)
  case Nil
  then show ?case using published_for_none [of rd r r ks now] by (auto simp: wakes_def)
next
  case (Cons i ids)
  let ?r = "lua_reclaim rd (sk_totals ks) (sk_held ks i) (sk_channel ks) now r"
  obtain s1 w where k: "mem_kill i s = (s1, w)" by fastforce
  have K: "stands_for rd ks now ?r s1" "same_tables rd ks now r ?r" "ZSCORE rd ?r = ZSCORE rd r" "ms_live s1 = ms_live s" "ledger_inv s1"
      "published_for rd ks now r ?r (set w)" "wakes s s1 (set w)"
    using kill_refines [OF Cons.prems(1,2) _ _ k refl] Cons.prems(3) by auto
  have i: "\<forall>j \<in> set ids. replica j \<and> j \<notin> set (ms_live s1)" using Cons.prems(3) K(4) by simp
  have "r' = fold (\<lambda>i. lua_reclaim rd (sk_totals ks) (sk_held_prefix ks @ i) (sk_channel ks) now) ids ?r"
    "s' = fold (\<lambda>i s. fst (mem_kill i s)) ids s1"
    using Cons.prems(4,5) k by (simp_all add: sk_held_def)
  from Cons.IH [OF K(1,5) i this] show ?case
    using K same_tables_trans published_for_trans [OF K(6) _ K(2)] wakes_trans [OF K(7)] by metis
qed

text \<open>The members of the replica set that have not expired.\<close>

lemma revive_refines:
  assumes "stands_for rd ks now r s" and "0 < ttl"
  shows "stands_for rd ks now (ZADD rd (sk_replicas ks) (int (now + ttl)) inst r) (mem_revive inst s)"
proof -
  have m: "ms_count (mem_revive inst s) = ms_count s" "mine o' f (mem_revive inst s) = mine o' f s" for o' f
    by (simp_all add: mem_revive_def mine_def ms_count_def fun_eq_iff)
  have t: "ms_holds (mem_revive inst s) = ms_holds s" "ms_recent (mem_revive inst s) = ms_recent s" "ms_chain (mem_revive inst s) = ms_chain s"
    "ms_waiting (mem_revive inst s) = ms_waiting s" "ms_starving (mem_revive inst s) = ms_starving s"
    "set (ms_live (mem_revive inst s)) = insert inst (set (ms_live s))"
    by (simp_all add: mem_revive_def)
  show ?thesis
    using assms unfolding stands_for_def counts_agree_def holds_agree_def tables_agree_def is_live_def m t by auto
qed

lemma expel_refines:
  assumes "stands_for rd ks now r s"
  shows "stands_for rd ks now (ZREMRANGEBYSCORE rd (sk_replicas ks) (int now) r) s"
proof -
  have l: "is_live rd (sk_replicas ks) now i (ZREMRANGEBYSCORE rd (sk_replicas ks) (int now) r) = is_live rd (sk_replicas ks) now i r" for i
    by (simp add: is_live_def split: option.splits)
  show ?thesis
    using assms unfolding stands_for_def counts_agree_def holds_agree_def tables_agree_def l by simp
qed

lemma purge_members:
  assumes "r' = lua_purge_holds rd (sk_totals ks) (sk_holds ks) (sk_hold_prefix ks) (sk_channel ks) now r"
  shows "ZSCORE rd r' (sk_replicas ks) = ZSCORE rd r (sk_replicas ks)"
  by (simp add: assms lua_purge_holds_def Let_def reclaim_all_zscore)

lemma heartbeat_refines:
  assumes "stands_for rd ks now r s" and "now = now_ms rd r" and "ledger_inv s" and "replica inst" and "members_ok rd ks r"
    and "replica_heartbeat_in rd ks Delivered inst ttl r = (r', res)"
  shows "\<exists>ids s'. (\<forall>i \<in> set ids. replica i \<and> i \<notin> set (ms_live s)) \<and>
    s' = fst (purge_holds now (fold (\<lambda>i s. fst (mem_kill i s)) ids (mem_revive inst s))) \<and>
    res = Inr (card (set (ms_live s'))) \<and> stands_for rd ks now r' s' \<and> ledger_inv s' \<and> members_ok rd ks r' \<and>
    (\<exists>ps. published_for rd ks now r r' ps \<and> wakes s s' ps)"
proof -
  let ?ttl = "max ttl 1"
  define r1 where "r1 = ZADD rd (sk_replicas ks) (int (now + ?ttl)) inst r"
  define ids where "ids = ZRANGEBYSCORE rd r1 (sk_replicas ks) (int now)"
  define r2 where "r2 = fold (\<lambda>i. lua_reclaim rd (sk_totals ks) (sk_held_prefix ks @ i) (sk_channel ks) now) ids r1"
  define r3 where "r3 = ZREMRANGEBYSCORE rd (sk_replicas ks) (int now) r2"
  define s2 where "s2 = fold (\<lambda>i s. fst (mem_kill i s)) ids (mem_revive inst s)"
  obtain s' w where p: "purge_holds now s2 = (s', w)" by fastforce
  have r': "r' = lua_purge_holds rd (sk_totals ks) (sk_holds ks) (sk_hold_prefix ks) (sk_channel ks) now r3"
    and res: "res = Inr (ZCARD rd r' (sk_replicas ks))"
    using assms(6) unfolding replica_heartbeat_in_def invoke_def replica_heartbeat_script_def assms(2) [symmetric] Let_def
      r1_def [symmetric] ids_def [symmetric] r2_def [symmetric] r3_def [symmetric] by auto
  have 1: "stands_for rd ks now r1 (mem_revive inst s)" unfolding r1_def by (rule revive_refines [OF assms(1)]) simp
  have i1: "ledger_inv (mem_revive inst s)" using ledger_inv_revive [OF assms(3)] .
  have mem: "members_ok rd ks r1" using assms(4,5) by (simp add: members_ok_def r1_def)
  have live: "is_live rd (sk_replicas ks) now i r1 \<longleftrightarrow> i \<in> set (ms_live (mem_revive inst s))" for i
    using 1 by (simp add: stands_for_def tables_agree_def)
  have dead: "replica i \<and> i \<notin> set (ms_live (mem_revive inst s))" if "i \<in> set ids" for i
    using that zrange [of "sk_replicas ks" r1] mem
    by (auto simp: ids_def zrangebyscore members_ok_def live [symmetric] is_live_def split: option.splits)
  have K: "stands_for rd ks now r2 s2" "same_tables rd ks now r1 r2" "ZSCORE rd r2 = ZSCORE rd r1" "ms_live s2 = ms_live (mem_revive inst s)"
      "ledger_inv s2" "\<exists>ps. published_for rd ks now r1 r2 ps \<and> wakes (mem_revive inst s) s2 ps"
    using kill_all_refines [OF 1 i1 _ r2_def s2_def] dead by auto
  have 3: "stands_for rd ks now r3 s2" unfolding r3_def by (rule expel_refines [OF K(1)])
  have P: "stands_for rd ks now r' s'" "published_for rd ks now r3 r' (set w)"
    using purge_refines [OF 3 K(5) p r'] by auto
  have z: "ZSCORE rd r' (sk_replicas ks) i = (case ZSCORE rd r1 (sk_replicas ks) i of None \<Rightarrow> None
      | Some n \<Rightarrow> if n \<le> int now then None else Some n)" for i
    unfolding purge_members [OF r'] by (simp add: r3_def K(3))
  have "i \<in> dom (ZSCORE rd r' (sk_replicas ks)) \<longleftrightarrow> i \<in> set (ms_live s')" for i
  proof -
    have "is_live rd (sk_replicas ks) now i r' \<longleftrightarrow> i \<in> set (ms_live s')" using P(1) by (simp add: stands_for_def tables_agree_def)
    then show ?thesis by (auto simp: is_live_def z dom_def split: option.splits if_splits)
  qed
  then have "set (ZRANGE rd r' (sk_replicas ks)) = set (ms_live s')" using zrange [of "sk_replicas ks" r'] by auto
  then have c: "res = Inr (card (set (ms_live s')))"
    using zrange [of "sk_replicas ks" r'] by (simp add: res zcard distinct_card [symmetric])
  obtain ps where ps: "published_for rd ks now r1 r2 ps" "wakes (mem_revive inst s) s2 ps" using K(6) by blast
  have "published_for rd ks now r r' (ps \<union> set w)"
  proof (rule published_for_append)
    show "published_for rd ks now r r3 ps" using ps(1) by (simp add: published_for_def waited_def r3_def r1_def)
    show "waited rd ks now r3 = waited rd ks now r"
      using same_tables_waited [OF K(2)] by (simp add: waited_def r3_def r1_def fun_eq_iff)
  qed (rule P(2))
  moreover have "wakes s s' (ps \<union> set w)"
    using wakes_trans [OF ps(2) wakes_free_holds [OF ledger_invD(1) [OF K(5)] p [unfolded purge_holds_def]]]
    by (simp add: wakes_def mem_revive_def ms_count_def)
  moreover have "members_ok rd ks r'" using mem by (auto simp: members_ok_def z split: option.splits)
  moreover have "\<forall>i \<in> set ids. replica i \<and> i \<notin> set (ms_live s)" using dead by (auto simp: mem_revive_def)
  moreover have "s' = fst (purge_holds now (fold (\<lambda>i s. fst (mem_kill i s)) ids (mem_revive inst s)))" using p by (simp add: s2_def)
  moreover have "ledger_inv s'" using ledger_inv_purge [OF K(5), of now] p by simp
  ultimately show ?thesis using c P(1) by blast
qed

lemma deregister_refines:
  assumes "stands_for rd ks now r s" and "now = now_ms rd r" and "ledger_inv s" and "replica inst" and "members_ok rd ks r"
    and "replica_deregister_in rd ks Delivered inst r = (r', res)" and "mem_kill inst s = (s', w)"
  shows "res = Inr () \<and> stands_for rd ks now r' s' \<and> ledger_inv s' \<and> members_ok rd ks r' \<and>
    published_for rd ks now r r' (set w) \<and> wakes s s' (set w)"
proof -
  let ?s = "s\<lparr>ms_live := filter (\<lambda>j. j \<noteq> inst) (ms_live s)\<rparr>"
  define r1 where "r1 = lua_reclaim rd (sk_totals ks) (owner_key ks inst) (sk_channel ks) now r"
  have k: "sk_held ks inst = owner_key ks inst" using assms(4) by (simp add: owner_key_simps)
  have r': "r' = DEL rd (sk_view ks inst) (ZREM rd (sk_replicas ks) [inst] r1)" "res = Inr ()"
    using assms(6) unfolding replica_deregister_in_def invoke_def replica_deregister_script_def assms(2) [symmetric] Let_def k
      r1_def [symmetric] by auto
  have i: "ledger_inv ?s" using assms(3) by (simp add: ledger_inv_tables)
  have q: "reclaim inst ?s = (s', w)" using assms(7) by (simp add: mem_kill_def)
  have m: "ms_count ?s = ms_count s" "mine o' f ?s = mine o' f s" for o' f by (simp_all add: mine_def ms_count_def fun_eq_iff)
  have c: "counts_agree rd ks r ?s" using assms(1) by (simp add: stands_for_def counts_agree_def m)
  note R = reclaim_refines [OF c ledger_invD(1) [OF i] ledger_invD(6) [OF i, where o' = inst] q r1_def]
    and C = reclaim_correct [OF ledger_invD(1) [OF i] q] and F = reclaim_frame [OF q]
  have h: "HGET rd r' k' = HGET rd r1 k'" if "k' \<noteq> sk_view ks inst" for k' using that by (simp add: r')
  have z: "ZSCORE rd r' = (ZSCORE rd r)(sk_replicas ks := ZSCORE rd r (sk_replicas ks) |` (- {inst}))" using R by (simp add: r')
  have live: "is_live rd (sk_replicas ks) now j r' \<longleftrightarrow> j \<in> set (ms_live s')" for j
    using assms(1) C(5) by (auto simp: is_live_def z restrict_map_def stands_for_def tables_agree_def)
  have t: "ms_recent s' = ms_recent s" "ms_chain s' = ms_chain s" "ms_waiting s' = ms_waiting s" "ms_starving s' = ms_starving s"
      "ms_holds s' = ms_holds s"
    using F C(4) by simp_all
  have st: "same_tables rd ks now r r1" using R by blast
  have "stands_for rd ks now r' s'"
    using R assms(1) st live unfolding stands_for_def counts_agree_def holds_agree_def tables_agree_def same_tables_def t
    by (simp add: h z)
  moreover have "published_for rd ks now r r' (set w)" using R by (simp add: published_for_def r')
  moreover have "wakes s s' (set w)" using wakes_reclaim [OF ledger_invD(1) [OF i] q] by (simp add: wakes_def m)
  moreover have "members_ok rd ks r'" using assms(5) by (simp add: members_ok_def z restrict_map_def)
  ultimately show ?thesis using r'(2) ledger_inv_reclaim [OF i assms(4) q] by blast
qed

text \<open>As time passes heartbeats expire, and nothing else changes.\<close>

lemma time_refines:
  assumes "stands_for rd ks now r s" and "HGET rd r' = HGET rd r" and "ZSCORE rd r' = ZSCORE rd r" and "now \<le> now'"
    and "s' = s\<lparr>ms_live := filter (\<lambda>i. is_live rd (sk_replicas ks) now' i r) (ms_live s)\<rparr>"
  shows "stands_for rd ks now' r' s'"
proof -
  have m: "ms_count s' = ms_count s" "mine o' f s' = mine o' f s" for o' f by (simp_all add: assms(5) mine_def ms_count_def fun_eq_iff)
  have t: "ms_recent s' = ms_recent s" "ms_chain s' = ms_chain s" "ms_waiting s' = ms_waiting s" "ms_starving s' = ms_starving s"
      "ms_holds s' = ms_holds s"
    by (simp_all add: assms(5))
  have "is_live rd (sk_replicas ks) now' i r \<Longrightarrow> is_live rd (sk_replicas ks) now i r" for i
    using assms(4) by (auto simp: is_live_def split: option.splits)
  then have l: "is_live rd (sk_replicas ks) now' i r' \<longleftrightarrow> i \<in> set (ms_live s')" for i
    using assms(1) by (auto simp: assms(5) is_live_def assms(3) stands_for_def tables_agree_def)
  show ?thesis
    using assms(1,4) unfolding stands_for_def counts_agree_def holds_agree_def tables_agree_def l t m by (simp add: assms(2,3))
qed

end

end
