(* ===== verification/Redis_Runs.thy ===== *)
theory Redis_Runs
  imports Redis_Fleet
begin

text \<open>
  Whole runs of gateway replicas on the Redis slot backend: any calls by any replicas in any order, at any times
  of a clock that does not go back, with replies lost and calls that never arrive. Every such run is a run of the
  in-process backend with the same answers, so what holds of that backend's answers and counts holds of Redis.
\<close>

section \<open>Calls and answers\<close>

datatype slot_call =
    DoAcquire string slot_claim
  | DoRelease string slot_release
  | DoHold string slot_release slot_hold
  | DoReconcile string "pool_holdings list"
  | DoHeartbeat string duration
  | DoDeregister string

datatype slot_answer =
    Acquired "slot_error + acquire_outcome \<times> cluster_counts"
  | Released "slot_error + cluster_counts"
  | Held "slot_error + bool \<times> cluster_counts"
  | Reconciled "slot_error + reconcile_outcome"
  | Beaten "slot_error + nat"
  | Deregistered "slot_error + unit"

text \<open>\<open>impl SharedSlots for RedisSlots\<close>, with the heartbeat and the deregistration of the store.\<close>

fun redis_do :: "'r redis \<Rightarrow> slot_keys \<Rightarrow> delivery \<Rightarrow> slot_call \<Rightarrow> 'r \<Rightarrow> 'r \<times> slot_answer" where
  "redis_do rd ks d (DoAcquire i c) r = map_prod id Acquired (slot_acquire rd ks d i c r)"
| "redis_do rd ks d (DoRelease i sl) r = map_prod id (Released \<circ> map_sum id snd) (slot_release rd ks d i sl r)"
| "redis_do rd ks d (DoHold i sl h) r = map_prod id Held (slot_hold rd ks d i sl h r)"
| "redis_do rd ks d (DoReconcile i hs) r = map_prod id Reconciled (slot_reconcile rd ks d i hs r)"
| "redis_do rd ks d (DoHeartbeat i ttl) r = map_prod id Beaten (replica_heartbeat_in rd ks d i ttl r)"
| "redis_do rd ks d (DoDeregister i) r = map_prod id Deregistered (replica_deregister_in rd ks d i r)"

fun failed :: "slot_error \<Rightarrow> slot_call \<Rightarrow> slot_answer" where
  "failed e (DoAcquire _ _) = Acquired (Inl e)"
| "failed e (DoRelease _ _) = Released (Inl e)"
| "failed e (DoHold _ _ _) = Held (Inl e)"
| "failed e (DoReconcile _ _) = Reconciled (Inl e)"
| "failed e (DoHeartbeat _ _) = Beaten (Inl e)"
| "failed e (DoDeregister _) = Deregistered (Inl e)"

fun wf_call :: "nat \<Rightarrow> slot_call \<Rightarrow> bool" where
  "wf_call now (DoAcquire i c) \<longleftrightarrow> replica i \<and> wf_claim c"
| "wf_call now (DoRelease i sl) \<longleftrightarrow> replica i"
| "wf_call now (DoHold i sl h) \<longleftrightarrow> replica i \<and> sr_pool sl \<noteq> [] \<and> wf_hold now h"
| "wf_call now (DoReconcile i hs) \<longleftrightarrow> replica i \<and> distinct (map fst (holding_fields hs))"
| "wf_call now (DoHeartbeat i ttl) \<longleftrightarrow> replica i"
| "wf_call now (DoDeregister i) \<longleftrightarrow> replica i"

text \<open>A call on Redis: time passes, then the call is made.\<close>

inductive redis_step :: "'r redis \<Rightarrow> slot_keys \<Rightarrow> nat \<times> 'r \<Rightarrow> slot_call \<Rightarrow> slot_answer \<Rightarrow> nat \<times> 'r \<Rightarrow> bool"
  for rd ks where
  "HGET rd r1 = HGET rd r \<Longrightarrow> ZSCORE rd r1 = ZSCORE rd r \<Longrightarrow> published rd r1 = published rd r \<Longrightarrow>
   t \<le> now_ms rd r1 \<Longrightarrow> wf_call (now_ms rd r1) call \<Longrightarrow> redis_do rd ks d call r1 = (r2, a) \<Longrightarrow>
   redis_step rd ks (t, r) call a (now_ms rd r1, r2)"

text \<open>
  A call on the in-process backend. A heartbeat registers the replica, ends the holdings of replicas that are no
  longer live and frees the held slots that ran out, as \<open>kill\<close> and the purge of the other calls do.
\<close>

inductive backend_does :: "nat \<Rightarrow> mem_state \<Rightarrow> slot_call \<Rightarrow> slot_answer \<Rightarrow> mem_state \<Rightarrow> bool" where
  Acquire: "mem_acquire i now c s = (s', w, res) \<Longrightarrow> backend_does now s (DoAcquire i c) (Acquired res) s'"
| Release: "mem_release i sl s = (s', w, res) \<Longrightarrow> backend_does now s (DoRelease i sl) (Released res) s'"
| Hold: "mem_hold i now sl h s = (s', w, res) \<Longrightarrow> backend_does now s (DoHold i sl h) (Held res) s'"
| Reconcile: "mem_reconcile i hs s = (s', w, res) \<Longrightarrow> backend_does now s (DoReconcile i hs) (Reconciled res) s'"
| Heartbeat: "\<forall>j \<in> set ids. j \<notin> set (ms_live s) \<Longrightarrow>
    s' = fst (purge_holds now (fold (\<lambda>j s. fst (mem_kill j s)) ids (mem_revive i s))) \<Longrightarrow>
    backend_does now s (DoHeartbeat i ttl) (Beaten (Inr (card (set (ms_live s'))))) s'"
| Deregister: "mem_kill i s = (s', w) \<Longrightarrow> backend_does now s (DoDeregister i) (Deregistered (Inr ())) s'"

text \<open>
  With replicas that stop being live at any time, calls that never arrive and answers that are lost.
\<close>

inductive fleet_step :: "mem_state \<Rightarrow> slot_call \<Rightarrow> slot_answer \<Rightarrow> mem_state \<Rightarrow> bool" where
  Answered: "set live \<subseteq> set (ms_live s) \<Longrightarrow> backend_does now (s\<lparr>ms_live := live\<rparr>) call a s' \<Longrightarrow> fleet_step s call a s'"
| Lost: "set live \<subseteq> set (ms_live s) \<Longrightarrow> backend_does now (s\<lparr>ms_live := live\<rparr>) call a s' \<Longrightarrow> fleet_step s call (failed e call) s'"
| Refused: "set live \<subseteq> set (ms_live s) \<Longrightarrow> fleet_step s call (failed e call) (s\<lparr>ms_live := live\<rparr>)"

inductive trace :: "('s \<Rightarrow> 'c \<Rightarrow> 'a \<Rightarrow> 's \<Rightarrow> bool) \<Rightarrow> 's \<Rightarrow> ('c \<times> 'a) list \<Rightarrow> 's \<Rightarrow> bool"
  for step s0 where
  Start: "trace step s0 [] s0"
| Snoc: "trace step s0 tr s \<Longrightarrow> step s call a s' \<Longrightarrow> trace step s0 (tr @ [(call, a)]) s'"

inductive_cases backend_doesE:
  "backend_does now s (DoAcquire i c) a s'" "backend_does now s (DoRelease i sl) a s'" "backend_does now s (DoHold i sl h) a s'"
  "backend_does now s (DoReconcile i hs) a s'" "backend_does now s (DoHeartbeat i ttl) a s'" "backend_does now s (DoDeregister i) a s'"

section \<open>One step\<close>

text \<open>The state a database stands for, and that it stays in order.\<close>

definition implements :: "'r redis \<Rightarrow> slot_keys \<Rightarrow> nat \<times> 'r \<Rightarrow> mem_state \<Rightarrow> bool" where
  "implements rd ks x s \<longleftrightarrow> stands_for rd ks (fst x) (snd x) s \<and> ledger_inv s \<and> members_ok rd ks (snd x)"

lemma invoke_cases:
  assumes "invoke d script r = (r', res)"
  shows "(\<exists>y. invoke Delivered script r = (r', y) \<and> (res = y \<or> (\<exists>e. res = Inl e))) \<or> (\<exists>e. r' = r \<and> res = Inl e)"
  using assms by (cases d; cases "script r") (auto simp: invoke_def)

lemma redis_do_delivery:
  assumes "redis_do rd ks d call r = (r', a)"
  shows "(\<exists>y. redis_do rd ks Delivered call r = (r', y) \<and> (a = y \<or> (\<exists>e. a = failed e call))) \<or> (\<exists>e. r' = r \<and> a = failed e call)"
  using assms
  by (cases d; cases call)
    (auto simp: slot_acquire_def slot_release_def slot_hold_def slot_reconcile_def replica_heartbeat_in_def replica_deregister_in_def
      invoke_def map_prod_def split: prod.splits)

context slot_scripts
begin

lemma members_frame:
  "ZSCORE rd r' (sk_replicas ks) = ZSCORE rd r (sk_replicas ks) \<Longrightarrow> members_ok rd ks r \<Longrightarrow> members_ok rd ks r'"
  by (simp add: members_ok_def)

text \<open>Claims, releases, holds and reconciles leave the replica set alone.\<close>

lemma fold_zscore: "(\<And>x r. ZSCORE rd (f x r) = ZSCORE rd r) \<Longrightarrow> ZSCORE rd (fold f xs r) = ZSCORE rd r"
  by (induction xs arbitrary: r) auto

lemma zscore_frame [simp]:
  "is_hash k \<Longrightarrow> ZSCORE rd (adjust rd k f n r) = ZSCORE rd r"
  "ZSCORE rd (wake rd (sk_totals ks) p ch now r) = ZSCORE rd r"
  "is_hash k \<Longrightarrow> ZSCORE rd (lua_give_back rd (sk_totals ks) k f r) = ZSCORE rd r"
  "is_hash k \<Longrightarrow> is_hash k' \<Longrightarrow> ZSCORE rd (lua_hand_over rd k k' f r) = ZSCORE rd r"
  "is_hash k \<Longrightarrow> ZSCORE rd (take_entry rd (sk_totals ks) k e r) = ZSCORE rd r"
  "ZSCORE rd (replace_entry rd (sk_totals ks) t e r) = ZSCORE rd r" "ZSCORE rd (new_entry rd (sk_totals ks) t e r) = ZSCORE rd r"
  using wake_reads(4) [of now now]
  by (auto simp: adjust_reads lua_give_back_def lua_hand_over_def take_entry_def replace_entry_def new_entry_def Let_def split: prod.splits)

lemma decide_members:
  "ZSCORE rd (fst (lua_decide rd (sk_totals ks) (sk_held ks i) (sk_holds ks) p t k c1 c2 c3 c4 mark (sk_hold_prefix ks) h red now r))
     (sk_replicas ks) = ZSCORE rd r (sk_replicas ks)"
proof -
  have "ZSCORE rd (fold (take_entry rd (sk_totals ks) (sk_held ks i)) es r) = ZSCORE rd r" for es by (rule fold_zscore) simp
  then show ?thesis by (simp add: lua_decide_def Let_def lua_take_over_def)
qed

lemma release_members:
  "ZSCORE rd (fst (lua_release_fields rd (sk_totals ks) (sk_held ks i) p t k ch now r)) (sk_replicas ks) = ZSCORE rd r (sk_replicas ks)"
  by (simp add: lua_release_fields_def lua_fields_def Let_def)

lemma free_pool_members:
  "ZSCORE rd (lua_free_pool_holds rd (sk_totals ks) (sk_holds ks) (sk_hold_prefix ks) (sk_channel ks) now p h r) (sk_replicas ks) =
     ZSCORE rd r (sk_replicas ks)"
  by (simp add: lua_free_pool_holds_def Let_def reclaim_all_zscore)

lemma note_members:
  "ZSCORE rd (fst (lua_note_step rd (sk_recent ks) (sk_chain ks) now i a b c r)) (sk_replicas ks) = ZSCORE rd r (sk_replicas ks)"
  using drop_runs by (simp add: lua_note_step_def Let_def)

lemma acquire_members:
  assumes "slot_acquire rd ks Delivered i c r = (r', res)"
  shows "ZSCORE rd r' (sk_replicas ks) = ZSCORE rd r (sk_replicas ks)"
proof -
  have "r' = fst (slot_acquire rd ks Delivered i c r)" by (simp add: assms)
  then show ?thesis
    by (simp add: slot_acquire_def invoke_def slot_acquire_script_def Let_def decide_members free_pool_members purge_members [OF refl])
qed

lemma hold_members:
  assumes "slot_hold rd ks Delivered i sl h r = (r', res)"
  shows "ZSCORE rd r' (sk_replicas ks) = ZSCORE rd r (sk_replicas ks)"
proof -
  have h: "ZSCORE rd (fold (lua_hand_over rd (sk_held ks i) (sk_hold_prefix ks @ sh_id h)) fs q) = ZSCORE rd q" for fs q
    by (rule fold_zscore) simp
  have "r' = fst (slot_hold rd ks Delivered i sl h r)" by (simp add: assms)
  then show ?thesis
    by (simp add: slot_hold_def invoke_def slot_hold_script_def Let_def case_prod_beta' release_members note_members purge_members [OF refl] h)
qed

lemma reconcile_members:
  assumes "slot_reconcile rd ks Delivered i hs r = (r', res)"
  shows "ZSCORE rd r' (sk_replicas ks) = ZSCORE rd r (sk_replicas ks)"
proof -
  have "ZSCORE rd (fold (replace_entry rd (sk_totals ks) t) es q) = ZSCORE rd q" "ZSCORE rd (fold (new_entry rd (sk_totals ks) t) es q) = ZSCORE rd q"
    "ZSCORE rd (fold (\<lambda>e. HSET rd (sk_held ks i) (fst e) (snd e)) es q) = ZSCORE rd q"
    "ZSCORE rd (fold (\<lambda>p. wake rd (sk_totals ks) p ch now) ps q) = ZSCORE rd q" for t es q now ch ps
    by (rule fold_zscore, simp)+
  then show ?thesis
    using assms by (auto simp: slot_reconcile_def invoke_def slot_reconcile_script_def Let_def map_prod_def split: prod.splits if_splits)
qed

lemma call_refines:
  assumes "stands_for rd ks now r s" and "now = now_ms rd r" and "ledger_inv s" and "members_ok rd ks r" and "wf_call now call"
    and "redis_do rd ks Delivered call r = (r', a)"
  shows "\<exists>s'. backend_does now s call a s' \<and> stands_for rd ks now r' s' \<and> ledger_inv s' \<and> members_ok rd ks r' \<and>
    (\<exists>ps. published_for rd ks now r r' ps \<and> wakes s s' ps)"
proof (cases call)
  case (DoAcquire i c)
  obtain res where r: "slot_acquire rd ks Delivered i c r = (r', res)" "a = Acquired res" using assms(6) DoAcquire by (auto simp: map_prod_def split: prod.splits)
  obtain s' w res' where m: "mem_acquire i now c s = (s', w, res')" by (metis prod_cases3)
  have wf: "replica i" "wf_claim c" using assms(5) DoAcquire by simp_all
  note A = acquire_refines [OF assms(1-3) wf r(1) m]
  have "ledger_inv s'" using ledger_inv_acquire [OF assms(3) wf(1), of now c] m by simp
  then show ?thesis
    using A backend_does.Acquire [OF m] r(2) DoAcquire members_frame [OF acquire_members [OF r(1)] assms(4)] by blast
next
  case (DoRelease i sl)
  obtain res where r: "slot_release rd ks Delivered i sl r = (r', res)" "a = Released (map_sum id snd res)"
    using assms(6) DoRelease by (auto simp: map_prod_def split: prod.splits)
  obtain s' w res' where m: "mem_release i sl s = (s', w, res')" by (metis prod_cases3)
  have wf: "replica i" using assms(5) DoRelease by simp
  note A = release_call_refines [OF assms(1-3) wf r(1) m]
  have "r' = fst (slot_release rd ks Delivered i sl r)" by (simp add: r(1))
  then have "ZSCORE rd r' (sk_replicas ks) = ZSCORE rd r (sk_replicas ks)"
    by (simp add: slot_release_def invoke_def slot_release_script_def release_members)
  then have "members_ok rd ks r'" using members_frame assms(4) by blast
  moreover have "ledger_inv s'" using ledger_inv_release [OF assms(3) wf, of sl] m by simp
  ultimately show ?thesis using A backend_does.Release [OF m] r(2) DoRelease by blast
next
  case (DoHold i sl h)
  obtain res where r: "slot_hold rd ks Delivered i sl h r = (r', res)" "a = Held res" using assms(6) DoHold by (auto simp: map_prod_def split: prod.splits)
  obtain s' w res' where m: "mem_hold i now sl h s = (s', w, res')" by (metis prod_cases3)
  have wf: "replica i" "sr_pool sl \<noteq> []" "wf_hold now h" using assms(5) DoHold by simp_all
  note A = hold_refines [OF assms(1-3) wf r(1) m]
  have "ledger_inv s'" using ledger_inv_hold [OF assms(3) wf(1), of now sl h] m by simp
  then show ?thesis
    using A backend_does.Hold [OF m] r(2) DoHold members_frame [OF hold_members [OF r(1)] assms(4)] by blast
next
  case (DoReconcile i hs)
  obtain res where r: "slot_reconcile rd ks Delivered i hs r = (r', res)" "a = Reconciled res"
    using assms(6) DoReconcile by (auto simp: map_prod_def split: prod.splits)
  obtain s' w res' where m: "mem_reconcile i hs s = (s', w, res')" by (metis prod_cases3)
  have wf: "replica i" "distinct (map fst (holding_fields hs))" using assms(5) DoReconcile by simp_all
  note A = reconcile_refines [OF assms(1-3) wf r(1) m]
  have "ledger_inv s'" using ledger_inv_reconcile [OF assms(3) wf(1), of hs] m by simp
  then show ?thesis
    using A backend_does.Reconcile [OF m] r(2) DoReconcile members_frame [OF reconcile_members [OF r(1)] assms(4)] by blast
next
  case (DoHeartbeat i ttl)
  obtain res where r: "replica_heartbeat_in rd ks Delivered i ttl r = (r', res)" "a = Beaten res"
    using assms(6) DoHeartbeat by (auto simp: map_prod_def split: prod.splits)
  have wf: "replica i" using assms(5) DoHeartbeat by simp
  from heartbeat_refines [OF assms(1-3) wf assms(4) r(1)] show ?thesis
    using r(2) DoHeartbeat backend_does.Heartbeat by metis
next
  case (DoDeregister i)
  obtain res where r: "replica_deregister_in rd ks Delivered i r = (r', res)" "a = Deregistered res"
    using assms(6) DoDeregister by (auto simp: map_prod_def split: prod.splits)
  obtain s' w where m: "mem_kill i s = (s', w)" by fastforce
  have wf: "replica i" using assms(5) DoDeregister by simp
  from deregister_refines [OF assms(1-3) wf assms(4) r(1) m] show ?thesis
    using r(2) DoDeregister backend_does.Deregister [OF m] by blast
qed

text \<open>A step that made a call, whatever became of it, and what it published.\<close>

lemma step_refines:
  assumes "redis_step rd ks x call a x'" and "implements rd ks x s"
  shows "\<exists>s'. fleet_step s call a s' \<and> implements rd ks x' s' \<and>
    (\<exists>ps. published_for rd ks (fst x') (snd x) (snd x') ps \<and> wakes s s' ps)"
  using assms(1)
proof cases
  case (1 r1 r t d r2)
  let ?now = "now_ms rd r1"
  define s1 where "s1 = s\<lparr>ms_live := filter (\<lambda>i. is_live rd (sk_replicas ks) ?now i r) (ms_live s)\<rparr>"
  have i: "stands_for rd ks t r s" "ledger_inv s" "members_ok rd ks r" using assms(2) 1(1) by (simp_all add: implements_def)
  have sf: "stands_for rd ks ?now r1 s1" by (rule time_refines [OF i(1) 1(3,4,6) s1_def])
  have i1: "ledger_inv s1" using i(2) by (simp add: s1_def ledger_inv_tables)
  have m1: "members_ok rd ks r1" using i(3) 1(4) by (simp add: members_ok_def)
  have live: "set (filter (\<lambda>i. is_live rd (sk_replicas ks) ?now i r) (ms_live s)) \<subseteq> set (ms_live s)" by auto
  have pub: "published_for rd ks ?now r q ps" if "published_for rd ks ?now r1 q ps" for q ps
    using that 1(3,5) by (simp add: published_for_def waited_def)
  have wk: "wakes s q ps" if "wakes s1 q ps" for q ps using that by (simp add: wakes_def s1_def ms_count_def)
  from redis_do_delivery [OF 1(8)] consider (ran) y where "redis_do rd ks Delivered call r1 = (r2, y)" "a = y \<or> (\<exists>e. a = failed e call)"
    | (not_sent) e where "r2 = r1" "a = failed e call" by blast
  then show ?thesis
  proof cases
    case ran
    obtain s' ps where s': "backend_does ?now s1 call y s'" "stands_for rd ks ?now r2 s'" "ledger_inv s'" "members_ok rd ks r2"
        "published_for rd ks ?now r1 r2 ps" "wakes s1 s' ps"
      using call_refines [OF sf refl i1 m1 1(7) ran(1)] by blast
    have "fleet_step s call a s'"
      using ran(2) fleet_step.Answered [OF live s'(1) [unfolded s1_def]] fleet_step.Lost [OF live s'(1) [unfolded s1_def]] by blast
    moreover have "implements rd ks x' s'" using s' 1(2) by (simp add: implements_def)
    moreover have "published_for rd ks (fst x') (snd x) (snd x') ps" using pub [OF s'(5)] 1(1,2) by simp
    ultimately show ?thesis using wk [OF s'(6)] by blast
  next
    case not_sent
    have "fleet_step s call a s1" unfolding not_sent(2) s1_def by (rule fleet_step.Refused [OF live])
    then show ?thesis
      using sf i1 m1 not_sent(1) 1(1,2) pub [OF published_for_none [of rd r1 r1 ks ?now]] wk [of s1 "{}"] by (auto simp: implements_def wakes_def)
  qed
qed

lemma trace_refines:
  assumes "trace (redis_step rd ks) x tr x'" and "implements rd ks x s"
  shows "\<exists>s'. trace fleet_step s tr s' \<and> implements rd ks x' s'"
  using assms
proof (induction rule: trace.induct)
  case Start
  then show ?case using trace.Start [of fleet_step s] by blast
next
  case (Snoc tr y call a y')
  then obtain s1 where t: "trace fleet_step s tr s1" and i: "implements rd ks y s1" by blast
  obtain s2 where f: "fleet_step s1 call a s2" and i': "implements rd ks y' s2" using step_refines [OF Snoc.hyps(2) i] by blast
  from trace.Snoc [OF t f] show ?case using i' by blast
qed

end

end
