(* ===== verification/Redis_Props.thy ===== *)
theory Redis_Props
  imports Redis_Runs
begin

text \<open>
  What the refinement gives for a gateway on Redis: its answers are those of the in-process backend, the
  cluster-wide size of a pool holds, and whoever waits for a slot is told when one is freed. The scripts are
  interpreted on the reference server with the keys the gateway uses.
\<close>

section \<open>An empty database\<close>

definition empty_db :: "'r redis \<Rightarrow> 'r \<Rightarrow> bool" where
  "empty_db rd r \<longleftrightarrow> (\<forall>k f. HGET rd r k f = None) \<and> (\<forall>k i. ZSCORE rd r k i = None)"

lemma ledger_inv_default: "ledger_inv mem_state_default"
  using ms_ok_default by (simp add: ledger_inv_def mem_state_default_def mine_def contains_key_def)

lemma empty_implements: "empty_db rd r \<Longrightarrow> implements rd ks (t, r) mem_state_default"
  by (simp add: implements_def ledger_inv_default members_ok_def empty_db_def stands_for_def counts_agree_def holds_agree_def
      tables_agree_def is_live_def current_def)
    (simp add: mem_state_default_def ms_count_def mine_def)

section \<open>The gateway's keys\<close>

definition sorted_sets :: "slot_keys \<Rightarrow> string list" where
  "sorted_sets ks = [sk_replicas ks, sk_holds ks, sk_recent ks]"

lemma default_keys_apart: "keys_apart (\<lambda>k. k \<notin> set (sorted_sets slot_keys_default)) slot_keys_default"
  by (simp add: keys_apart_def sorted_sets_def slot_keys_default_def sk_held_def sk_view_def)

lemma prefixed_keys_apart: "keys_apart (\<lambda>k. k \<notin> set (sorted_sets (slot_keys_with_prefix p))) (slot_keys_with_prefix p)"
  by (simp add: keys_apart_def sorted_sets_def slot_keys_with_prefix_def sk_held_def sk_view_def)

interpretation gateway_keys: slot_scripts reference_redis "\<lambda>k. k \<notin> set (sorted_sets slot_keys_default)" slot_keys_default
  by unfold_locales (rule default_keys_apart)

section \<open>Cluster-wide sizes\<close>

fun claim_sizes :: "string \<Rightarrow> nat \<Rightarrow> slot_call \<Rightarrow> bool" where
  "claim_sizes pool n (DoAcquire i c) \<longleftrightarrow> (sc_pool c = pool \<longrightarrow> sc_pool_cap c \<le> n)"
| "claim_sizes pool n (DoReconcile i hs) \<longleftrightarrow> False"
| "claim_sizes pool n _ \<longleftrightarrow> True"

lemma kill_all_count:
  "ms_ok s \<Longrightarrow> ms_ok (fold (\<lambda>i s. fst (mem_kill i s)) ids s) \<and> ms_count (fold (\<lambda>i s. fst (mem_kill i s)) ids s) f \<le> ms_count s f"
proof (induction ids arbitrary: s)
  case (Cons i ids)
  note k = kill_count [OF Cons.prems, of i f]
  show ?case using Cons.IH [OF conjunct1 [OF k]] conjunct2 [OF k] by simp
qed simp

lemma call_pool_bounded:
  assumes "ms_ok s" and "replica (caller call)" and "call_sizes pool n call" and "ms_count s (pool_field pool) \<le> n"
  shows "ms_count (mem_call call s) (pool_field pool) \<le> n"
  using mem_backend.call_step_pool [OF assms] by (simp add: mem_call_step)

lemma backend_does_bounded:
  assumes "backend_does now s call a s'" and "ms_ok s" and "wf_call t call" and "claim_sizes pool n call"
    and "ms_count s (pool_field pool) \<le> n"
  shows "ms_count s' (pool_field pool) \<le> n"
  using assms
proof (cases rule: backend_does.cases)
  case (Acquire i c w res)
  then show ?thesis using assms(3,4) call_pool_bounded [OF assms(2) _ _ assms(5), of "CallAcquire i now c"]
    by (simp add: caller_def call_sizes_def)
next
  case (Release i sl w res)
  then show ?thesis using assms(3) call_pool_bounded [OF assms(2) _ _ assms(5), of "CallRelease i sl"]
    by (simp add: caller_def call_sizes_def)
next
  case (Hold i sl h w res)
  then show ?thesis using assms(3) call_pool_bounded [OF assms(2) _ _ assms(5), of "CallHold i now sl h"]
    by (simp add: caller_def call_sizes_def)
next
  case (Heartbeat ids i ttl)
  let ?k = "fold (\<lambda>j s. fst (mem_kill j s)) ids (mem_revive i s)"
  have "ms_ok (mem_revive i s)" "ms_count (mem_revive i s) = ms_count s" using assms(2) by (simp_all add: mem_revive_def live_frame)
  then have k: "ms_ok ?k" "ms_count ?k (pool_field pool) \<le> n"
    using kill_all_count [of "mem_revive i s" ids "pool_field pool"] assms(5) by simp_all
  obtain s1 w where p: "purge_holds now ?k = (s1, w)" by fastforce
  show ?thesis using purge_holds_correct(2) [OF k(1) p, of "pool_field pool"] k(2) Heartbeat p by simp
next
  case (Deregister i w)
  then show ?thesis using kill_count [OF assms(2), of i "pool_field pool"] assms(5) by simp
qed simp

lemma fleet_step_bounded:
  assumes "fleet_step s call a s'" and "ms_ok s" and "wf_call t call" and "claim_sizes pool n call"
    and "ms_count s (pool_field pool) \<le> n"
  shows "ms_count s' (pool_field pool) \<le> n"
  using assms by (cases rule: fleet_step.cases) (auto simp: live_frame dest: backend_does_bounded)

lemma redis_step_wf: "redis_step rd ks x call a x' \<Longrightarrow> wf_call (fst x') call"
  by (auto elim: redis_step.cases)

context slot_scripts
begin

lemma trace_bounded:
  assumes "trace (redis_step rd ks) (t, r) tr x" and "empty_db rd r" and "\<forall>(call, a) \<in> set tr. claim_sizes pool n call"
  shows "\<exists>s. implements rd ks x s \<and> ms_count s (pool_field pool) \<le> n"
  using assms
proof (induction rule: trace.induct)
  case Start
  then show ?case using empty_implements [of rd r ks t] by (intro exI [of _ mem_state_default]) (simp add: mem_state_default_def ms_count_def)
next
  case (Snoc tr y call a y')
  then obtain s where s: "implements rd ks y s" "ms_count s (pool_field pool) \<le> n" by auto
  obtain s' where f: "fleet_step s call a s'" and i: "implements rd ks y' s'" using step_refines [OF Snoc.hyps(2) s(1)] by blast
  have "ms_ok s" using s(1) ledger_invD(1) by (simp add: implements_def)
  from fleet_step_bounded [OF f this redis_step_wf [OF Snoc.hyps(2)] _ s(2)] show ?case using i Snoc.prems by auto
qed

lemma pool_count: "implements rd ks x s \<Longrightarrow> num (HGET rd (snd x) (sk_totals ks) (pool_field p)) = int (ms_count s (pool_field p))"
  by (simp add: implements_def stands_for_def counts_agree_def)

lemma step_publishes:
  assumes "implements rd ks x s" and "redis_step rd ks x call a x'"
    and "num (HGET rd (snd x') (sk_totals ks) (pool_field pool)) < num (HGET rd (snd x) (sk_totals ks) (pool_field pool))"
  shows "\<exists>l. published rd (snd x') = published rd (snd x) @ map (Pair (sk_channel ks)) l \<and>
    (pool \<in> set l \<longleftrightarrow> waited rd ks (fst x') (snd x) pool)"
proof -
  obtain s' ps where s': "implements rd ks x' s'" "published_for rd ks (fst x') (snd x) (snd x') ps" "wakes s s' ps"
    using step_refines [OF assms(2,1)] by blast
  have "pool \<in> ps" using assms(3) s'(3) by (simp add: pool_count [OF assms(1)] pool_count [OF s'(1)] wakes_def)
  then show ?thesis using s'(2) by (auto simp: published_for_def)
qed

end

section \<open>A sample run\<close>

text \<open>Replica \<open>a\<close> registers and claims the only slot of a pool, \<open>b\<close> registers and is refused, \<open>a\<close> gives the slot back.\<close>

definition sample_keys :: slot_keys where
  "sample_keys = slot_keys_with_prefix []"

definition sample_counts :: "(string, int) hmap" where
  "sample_counts = [(''g'', 1), (''p|m'', 1), (''t|m|t'', 1), (''k|m|k'', 1)]"

definition db_registered :: ref_db where
  "db_registered = empty_redis\<lparr>db_zsets := [('':replicas'', [(''a'', 5000)])]\<rparr>"

definition db_taken :: ref_db where
  "db_taken = db_registered\<lparr>db_hashes := [('':slots'', sample_counts), ('':held:a'', sample_counts)]\<rparr>"

definition db_joined :: ref_db where
  "db_joined = db_taken\<lparr>db_zsets := [('':replicas'', [(''a'', 5000), (''b'', 5000)])]\<rparr>"

definition db_waiting :: ref_db where
  "db_waiting = db_joined\<lparr>db_hashes := [('':slots'', sample_counts @ [(''w|m'', 1000)]), ('':held:a'', sample_counts)]\<rparr>"

definition db_freed :: ref_db where
  "db_freed = db_joined\<lparr>db_hashes := [('':slots'', [(''w|m'', 1000)]), ('':held:a'', [])], db_log := [('':released'', ''m'')]\<rparr>"

definition sample_slot :: slot_release where
  "sample_slot = \<lparr>sr_pool = ''m'', sr_tenant = ''t'', sr_key = ''k''\<rparr>"

definition sample_trace :: "(slot_call \<times> slot_answer) list" where
  "sample_trace =
     [(DoHeartbeat ''a'' 5000, Beaten (Inr 1)),
      (DoAcquire ''a'' (sample_claim 1), Acquired (Inr (Granted, \<lparr>cc_pool = 1, cc_global = 1\<rparr>))),
      (DoHeartbeat ''b'' 5000, Beaten (Inr 2)),
      (DoAcquire ''b'' (sample_claim 1), Acquired (Inr (Denied DenyPool, \<lparr>cc_pool = 1, cc_global = 1\<rparr>)))]"

lemma sample_run_steps:
  "redis_do reference_redis sample_keys Delivered (DoHeartbeat ''a'' 5000) empty_redis = (db_registered, Beaten (Inr 1))"
  "redis_do reference_redis sample_keys Delivered (DoAcquire ''a'' (sample_claim 1)) db_registered =
     (db_taken, Acquired (Inr (Granted, \<lparr>cc_pool = 1, cc_global = 1\<rparr>)))"
  "redis_do reference_redis sample_keys Delivered (DoHeartbeat ''b'' 5000) db_taken = (db_joined, Beaten (Inr 2))"
  "redis_do reference_redis sample_keys Delivered (DoAcquire ''b'' (sample_claim 1)) db_joined =
     (db_waiting, Acquired (Inr (Denied DenyPool, \<lparr>cc_pool = 1, cc_global = 1\<rparr>)))"
  "redis_do reference_redis sample_keys Delivered (DoRelease ''a'' sample_slot) db_waiting =
     (db_freed, Released (Inr \<lparr>cc_pool = 0, cc_global = 0\<rparr>))"
  by code_simp+

lemma sample_clock: "now_ms reference_redis r = 0" if "db_time r = (0, 0)"
  using that by (simp add: now_ms_def reference_redis_def)

lemma sample_times: "db_time empty_redis = (0, 0)" "db_time db_registered = (0, 0)" "db_time db_taken = (0, 0)"
  "db_time db_joined = (0, 0)" "db_time db_waiting = (0, 0)"
  by (simp_all add: empty_redis_def db_registered_def db_taken_def db_joined_def db_waiting_def)

lemma sample_redis_step:
  "redis_do reference_redis ks Delivered call r = (r', a) \<Longrightarrow> wf_call 0 call \<Longrightarrow> db_time r = (0, 0) \<Longrightarrow>
   redis_step reference_redis ks (0, r) call a (0, r')"
  using redis_step.intros [of reference_redis r r 0 call ks Delivered r' a] sample_clock [of r] by simp

lemma sample_wf: "replica ''a''" "replica ''b''" "wf_claim (sample_claim 1)"
  by (simp_all add: replica_def starts_with_def wf_claim_def sample_claim_def)

lemma sample_trace_runs: "trace (redis_step reference_redis sample_keys) (0, empty_redis) sample_trace (0, db_waiting)"
proof -
  note step = sample_redis_step [OF _ _ sample_times(1)] sample_redis_step [OF _ _ sample_times(2)]
    sample_redis_step [OF _ _ sample_times(3)] sample_redis_step [OF _ _ sample_times(4)]
  note snoc = trace.Snoc [where step = "redis_step reference_redis sample_keys"]
  note t1 = snoc [OF trace.Start step(1) [OF sample_run_steps(1)]]
  note t2 = snoc [OF t1 step(2) [OF sample_run_steps(2)]]
  note t3 = snoc [OF t2 step(3) [OF sample_run_steps(3)]]
  from snoc [OF t3 step(4) [OF sample_run_steps(4)]] show ?thesis using sample_wf by (simp add: sample_trace_def)
qed

lemma sample_release_runs:
  "redis_step reference_redis sample_keys (0, db_waiting) (DoRelease ''a'' sample_slot) (Released (Inr \<lparr>cc_pool = 0, cc_global = 0\<rparr>)) (0, db_freed)"
  by (rule sample_redis_step [OF sample_run_steps(5) _ sample_times(5)]) (simp add: sample_wf)

lemma sample_empty: "empty_db reference_redis empty_redis"
  by (simp add: empty_db_def reference_redis_def empty_redis_def ref_hash_def ref_zset_def)

lemma sample_keys_apart: "keys_apart (\<lambda>k. k \<notin> set (sorted_sets sample_keys)) sample_keys"
  unfolding sample_keys_def by (rule prefixed_keys_apart)

lemmas sample_server = reference.redis_server_axioms [of "\<lambda>k. k \<notin> set (sorted_sets sample_keys)"] sample_keys_apart sample_empty sample_trace_runs

section \<open>Properties\<close>

text \<open>
  C4: Redis implements the backend. Starting from an empty database, on any server that does what the commands
  are documented to do, whatever the replicas call, in any order, at any times, with lost replies and calls
  that never arrive, there is a run of the in-process backend with the same calls and the same answers, and
  the database holds that backend's counts, held slots, sessions, marks and live replicas.
\<close>

theorem redis_refines_backend:
  assumes "redis_server rd is_hash" and "keys_apart is_hash ks" and "empty_db rd r0"
    and "trace (redis_step rd ks) (t0, r0) tr (t, r)"
  shows "\<exists>s. trace fleet_step mem_state_default tr s \<and> stands_for rd ks t r s"
  using slot_scripts.trace_refines [OF slot_scripts.intro [OF assms(1)] assms(4) empty_implements [OF assms(3)]] assms(2)
  by (auto simp: slot_scripts_axioms_def implements_def)

theorem redis_refines_backend_witness:
  "\<exists>s. trace fleet_step mem_state_default sample_trace s \<and> stands_for reference_redis sample_keys 0 db_waiting s"
  by (rule redis_refines_backend [OF sample_server])

text \<open>
  C5: The cluster-wide pool size holds on Redis. When every claim for a pool carries a size of at most \<open>n\<close> and
  no replica reconciles, the pool's total in the database never exceeds \<open>n\<close>, whatever calls are lost and
  whichever replicas expire.
\<close>

theorem redis_cap_never_exceeded:
  assumes "redis_server rd is_hash" and "keys_apart is_hash ks" and "empty_db rd r0"
    and "trace (redis_step rd ks) (t0, r0) tr (t, r)" and "\<forall>(call, a) \<in> set tr. claim_sizes pool n call"
  shows "num (HGET rd r (sk_totals ks) (pool_field pool)) \<le> int n"
proof -
  have s: "slot_scripts rd is_hash ks" using assms(1,2) by (simp add: slot_scripts.intro slot_scripts_axioms_def)
  obtain st where "implements rd ks (t, r) st" "ms_count st (pool_field pool) \<le> n"
    using slot_scripts.trace_bounded [OF s assms(4,3,5)] by blast
  then show ?thesis using slot_scripts.pool_count [OF s, of "(t, r)" st pool] by simp
qed

theorem redis_cap_never_exceeded_witness:
  "num (HGET reference_redis db_waiting (sk_totals sample_keys) (pool_field ''m'')) \<le> 1"
proof -
  have "\<forall>(call, a) \<in> set sample_trace. claim_sizes ''m'' 1 call" by (simp add: sample_trace_def sample_claim_def)
  from redis_cap_never_exceeded [OF sample_server this] show ?thesis by simp
qed

text \<open>
  C12: Waiters are told. In every state reached from an empty database, a step that lowers a pool's total
  publishes the pool on the release channel exactly when a claim on it, or on the whole cluster, was denied so
  recently that its wait mark still stands; the step only adds to what was published, on that channel alone.
\<close>

theorem redis_release_is_published:
  assumes "redis_server rd is_hash" and "keys_apart is_hash ks" and "empty_db rd r0"
    and "trace (redis_step rd ks) (t0, r0) tr (t, r)" and "redis_step rd ks (t, r) call a (t', r')"
    and "num (HGET rd r' (sk_totals ks) (pool_field pool)) < num (HGET rd r (sk_totals ks) (pool_field pool))"
  shows "\<exists>l. published rd r' = published rd r @ map (Pair (sk_channel ks)) l \<and> (pool \<in> set l \<longleftrightarrow> waited rd ks t' r pool)"
proof -
  have s: "slot_scripts rd is_hash ks" using assms(1,2) by (simp add: slot_scripts.intro slot_scripts_axioms_def)
  obtain st where "implements rd ks (t, r) st"
    using slot_scripts.trace_refines [OF s assms(4) empty_implements [OF assms(3)]] by blast
  from slot_scripts.step_publishes [OF s this assms(5)] show ?thesis using assms(6) by simp
qed

theorem redis_release_is_published_witness:
  "\<exists>l. published reference_redis db_freed = published reference_redis db_waiting @ map (Pair '':released'') l \<and>
     (''m'' \<in> set l \<longleftrightarrow> waited reference_redis sample_keys 0 db_waiting ''m'')"
proof -
  have "num (HGET reference_redis db_freed (sk_totals sample_keys) (pool_field ''m'')) <
      num (HGET reference_redis db_waiting (sk_totals sample_keys) (pool_field ''m''))" by code_simp
  from redis_release_is_published [OF sample_server sample_release_runs this] show ?thesis
    by (simp add: sample_keys_def slot_keys_with_prefix_def)
qed

text \<open>
  C21: What the database may hold. In every state reached from an empty database each stored total and each
  stored holding is a positive integer under a field that names a count, only sessions with a held slot have a
  hash of their own, and no replica is recorded with more than the total.
\<close>

theorem redis_database_well_typed:
  assumes "redis_server rd is_hash" and "keys_apart is_hash ks" and "empty_db rd r0"
    and "trace (redis_step rd ks) (t0, r0) tr (t, r)"
  shows "(\<forall>f v. count_field f \<and> HGET rd r (sk_totals ks) f = Some v \<longrightarrow> 0 < v) \<and>
    (\<forall>i f v. replica i \<and> HGET rd r (sk_held ks i) f = Some v \<longrightarrow>
       0 < v \<and> count_field f \<and> v \<le> num (HGET rd r (sk_totals ks) f)) \<and>
    (\<forall>i. ZSCORE rd r (sk_holds ks) i \<noteq> None \<longleftrightarrow> HGET rd r (sk_hold_prefix ks @ i) \<noteq> Map.empty)"
proof -
  have sc: "slot_scripts rd is_hash ks" using assms(1,2) by (simp add: slot_scripts.intro slot_scripts_axioms_def)
  obtain s where s: "stands_for rd ks t r s" "ledger_inv s"
    using slot_scripts.trace_refines [OF sc assms(4) empty_implements [OF assms(3)]] by (auto simp: implements_def)
  note inv = ledger_invD [OF s(2)]
  have tot: "HGET rd r (sk_totals ks) f = cnt (ms_count s f)" if "count_field f" for f
    using s(1) that by (simp add: stands_for_def counts_agree_def)
  have own: "HGET rd r (owner_key ks o') f = cnt (mine o' f s)" for o' f using s(1) by (simp add: stands_for_def counts_agree_def)
  show ?thesis
  proof (intro conjI allI impI)
    show "0 < v" if "count_field f \<and> HGET rd r (sk_totals ks) f = Some v" for f v
      using that tot [of f] by (metis cnt_Some)
    fix i f v assume a: "replica i \<and> HGET rd r (sk_held ks i) f = Some v"
    then have m: "cnt (mine i f s) = Some v" using own [of i f] by (simp add: owner_key_simps)
    then show "0 < v" by (simp add: cnt_Some)
    have c: "count_field f" using m inv(6) [of i f] by (auto simp: cnt_Some)
    then show "count_field f" .
    show "v \<le> num (HGET rd r (sk_totals ks) f)" using m mine_le_count [OF inv(1), of i f] tot [OF c] by (auto simp: cnt_Some)
  next
    fix i
    have "ZSCORE rd r (sk_holds ks) i \<noteq> None \<longleftrightarrow> contains_key (ms_holds s) i"
      using s(1) by (simp add: stands_for_def holds_agree_def contains_key_def)
    also have "\<dots> \<longleftrightarrow> (\<exists>f. 0 < mine (hold_owner i) f s)" by (rule inv(7))
    also have "\<dots> \<longleftrightarrow> HGET rd r (sk_hold_prefix ks @ i) \<noteq> Map.empty"
      using own [of "hold_owner i"] by (simp add: owner_key_simps fun_eq_iff)
    finally show "ZSCORE rd r (sk_holds ks) i \<noteq> None \<longleftrightarrow> HGET rd r (sk_hold_prefix ks @ i) \<noteq> Map.empty" .
  qed
qed

theorem redis_database_well_typed_witness:
  "HGET reference_redis db_waiting (sk_held sample_keys ''a'') ''p|m'' = Some 1 \<and>
   (1::int) \<le> num (HGET reference_redis db_waiting (sk_totals sample_keys) ''p|m'')"
proof -
  have "HGET reference_redis db_waiting (sk_held sample_keys ''a'') ''p|m'' = Some 1" by code_simp
  then show ?thesis using redis_database_well_typed [OF sample_server] sample_wf(1) by blast
qed

end
