(* ===== verification/Routing.thy ===== *)
theory Routing
  imports Text F64 Json "HOL-Library.Product_Lexorder" "HOL-Library.List_Lexorder" "HOL-Library.Char_ord"
begin

text \<open>
  The choice of a model for \<open>auto\<close> requests (\<open>obleth-config/src/routing/mod.rs\<close>, \<open>route_explain.rs\<close>): the
  levels of the candidates, the hard filters, the difficulty floor, the scores, the pick and its
  explanation. Of a \<open>ResolvedModel\<close> only the fields the router reads are kept.

  Finite \<open>f64\<close> values are rationals rounded by \<open>fl\<close> after every operation; names are compared byte by byte,
  as Rust compares \<open>str\<close>. The clock, the platform's \<open>exp\<close> (whose precision Rust leaves open) and the
  uniform draw are part of the input.
\<close>

section \<open>Models\<close>

datatype model_status = Staged | Active | Deprecated | Retired

record model_lifecycle =
  lc_status :: model_status
  lc_replacement :: string
  lc_retire_at :: "int option"
  lc_changed_at :: "int option"
  lc_note :: string
  lc_redirect :: bool

definition status_at :: "int \<Rightarrow> model_lifecycle \<Rightarrow> model_status" where
  "status_at now l =
     (case lc_status l of
        Deprecated \<Rightarrow> (case lc_retire_at l of Some d \<Rightarrow> if d \<le> now then Retired else Deprecated | None \<Rightarrow> Deprecated)
      | st \<Rightarrow> st)"

record resolved_model =
  rm_model_name :: string
  rm_lifecycle :: model_lifecycle
  rm_model_type :: string
  rm_max_in_flight :: "nat option"
  rm_enabled :: bool
  rm_input_cost_per_token :: f64
  rm_output_cost_per_token :: f64
  rm_context_window :: int
  rm_supports_function_calling :: bool
  rm_supports_response_schema :: bool
  rm_supports_tool_choice :: bool
  rm_supports_vision :: bool
  rm_tags :: "string list"
  rm_declared_levels :: "(string \<times> nat) list"
  rm_boons :: "string list"
  rm_route_bias :: f64
  rm_auto_eligible :: bool

definition DEFAULT_MODEL_TYPE :: string where "DEFAULT_MODEL_TYPE = ''chat''"

definition MAX_TIER_LEVEL :: nat where "MAX_TIER_LEVEL = 3"

definition AUTO_MODEL_NAME :: string where "AUTO_MODEL_NAME = ''auto''"

definition GENERAL_DOMAIN :: string where "GENERAL_DOMAIN = ''*''"

record candidate =
  c_model :: resolved_model
  c_healthy :: bool
  c_levels :: "(string \<times> nat) list"

abbreviation c_name :: "candidate \<Rightarrow> string" where
  "c_name c \<equiv> rm_model_name (c_model c)"

definition strength :: "string list \<Rightarrow> candidate \<Rightarrow> nat" where
  "strength domains c = fold max (List.map_filter (\<lambda>d. map_of (c_levels c) d) domains) 0"

section \<open>Levels\<close>

datatype tier_source = Hybrid | Derived | Declared

definition chat :: "candidate \<Rightarrow> bool" where
  "chat c \<longleftrightarrow> rm_model_type (c_model c) = DEFAULT_MODEL_TYPE"

definition level_domains :: "candidate list \<Rightarrow> string list" where
  "level_domains cs = fold set_insert (concat (map (rm_tags \<circ> c_model) (filter chat cs))) [GENERAL_DOMAIN]"

definition unit_cost :: "candidate \<Rightarrow> f64" where
  "unit_cost c = fl (rm_input_cost_per_token (c_model c) + rm_output_cost_per_token (c_model c))"

definition level_members :: "candidate list \<Rightarrow> string \<Rightarrow> nat list" where
  "level_members cs domain =
     sort_key (\<lambda>i. (unit_cost (cs ! i), c_name (cs ! i)))
       (filter (\<lambda>i. domain = GENERAL_DOMAIN \<or> domain \<in> set (rm_tags (c_model (cs ! i))))
          (filter (\<lambda>i. chat (cs ! i)) [0..<length cs]))"

definition derived_level :: "nat \<Rightarrow> nat \<Rightarrow> nat" where
  "derived_level n rank =
     (if MAX_TIER_LEVEL \<le> n then min (rank * MAX_TIER_LEVEL div n + 1) MAX_TIER_LEVEL else rank + 1)"

definition level_of :: "tier_source \<Rightarrow> string \<Rightarrow> nat \<Rightarrow> candidate \<Rightarrow> nat" where
  "level_of source domain derived c =
     (let declared = map_of (rm_declared_levels (c_model c)) domain
      in case source of
           Derived \<Rightarrow> derived
         | Declared \<Rightarrow> (case declared of None \<Rightarrow> 1 | Some l \<Rightarrow> l)
         | Hybrid \<Rightarrow> (case declared of None \<Rightarrow> derived | Some l \<Rightarrow> l))"

definition assign_domain ::
  "tier_source \<Rightarrow> candidate list \<Rightarrow> string \<Rightarrow> (string \<times> nat) list list \<Rightarrow> (string \<times> nat) list list" where
  "assign_domain source cs domain assigned =
     (let members = level_members cs domain; n = length members
      in fold (\<lambda>(rank, i) a. a[i := a ! i @ [(domain, level_of source domain (derived_level n rank) (cs ! i))]])
           (enumerate 0 members) assigned)"

definition derive_levels :: "tier_source \<Rightarrow> candidate list \<Rightarrow> candidate list" where
  "derive_levels source cs =
     (let assigned = fold (assign_domain source cs) (level_domains cs) (replicate (length cs) [])
      in map (\<lambda>(c, ls). c\<lparr>c_levels := ls\<rparr>) (zip cs assigned))"

section \<open>Requests\<close>

record request_features =
  rf_est_input_tokens :: nat
  rf_max_tokens :: nat
  rf_needs_function_calling :: bool
  rf_needs_tool_choice :: bool
  rf_needs_response_schema :: bool
  rf_needs_vision :: bool

definition nonempty_array :: "string \<Rightarrow> json \<Rightarrow> bool" where
  "nonempty_array k v = (case jget k v of None \<Rightarrow> False | Some w \<Rightarrow> (case as_array w of None \<Rightarrow> False | Some a \<Rightarrow> a \<noteq> []))"

definition part_type :: "json \<Rightarrow> string option" where
  "part_type part = Option.bind (jget ''type'' part) as_str"

definition has_image_part :: "json \<Rightarrow> bool" where
  "has_image_part msg =
     (case Option.bind (jget ''content'' msg) as_array of
        None \<Rightarrow> False
      | Some parts \<Rightarrow> (\<exists>part \<in> set parts. part_type part \<in> {Some ''image_url'', Some ''input_image''}))"

definition features_from_request :: "json \<Rightarrow> nat \<Rightarrow> nat \<Rightarrow> request_features" where
  "features_from_request body est_input_tokens max_tokens =
     \<lparr>rf_est_input_tokens = est_input_tokens, rf_max_tokens = max_tokens,
      rf_needs_function_calling = (nonempty_array ''tools'' body \<or> nonempty_array ''functions'' body),
      rf_needs_tool_choice =
        (case jget ''tool_choice'' body of
           Some (JString s) \<Rightarrow> s \<noteq> ''none'' \<and> s \<noteq> ''auto''
         | Some (JObject _) \<Rightarrow> True
         | _ \<Rightarrow> (case jget ''function_call'' body of
                   None \<Rightarrow> False
                 | Some v \<Rightarrow> \<not> is_null v \<and> as_str v \<noteq> Some ''none'')),
      rf_needs_response_schema =
        (case Option.bind (jget2 ''response_format'' ''type'' body) as_str of
           None \<Rightarrow> False
         | Some t \<Rightarrow> t = ''json_schema'' \<or> t = ''json_object''),
      rf_needs_vision =
        (case Option.bind (jget ''messages'' body) as_array of
           None \<Rightarrow> False
         | Some messages \<Rightarrow> (\<exists>msg \<in> set messages. has_image_part msg))\<rparr>"

record boon_grants =
  bg_structured_active :: bool
  bg_vision_active :: bool

record router_weights =
  rw_capacity :: f64
  rw_cost :: f64
  rw_tag :: f64
  rw_soft_cap :: f64
  rw_temperature :: f64
  rw_difficulty_enabled :: bool

record auto_router_settings =
  ar_classifier_enabled :: bool
  ar_classifier_model :: "string option"
  ar_capacity_weight :: f64
  ar_cost_weight :: f64
  ar_tag_weight :: f64
  ar_default_soft_cap :: nat
  ar_temperature :: f64
  ar_difficulty_enabled :: bool
  ar_tier_source :: tier_source
  ar_sticky_enabled :: bool

definition weights_from_settings :: "auto_router_settings \<Rightarrow> router_weights" where
  "weights_from_settings s =
     \<lparr>rw_capacity = ar_capacity_weight s, rw_cost = ar_cost_weight s, rw_tag = ar_tag_weight s,
      rw_soft_cap = (if 0 < ar_default_soft_cap s then fl (of_nat (ar_default_soft_cap s)) else 8),
      rw_temperature = max (ar_temperature s) 0, rw_difficulty_enabled = ar_difficulty_enabled s\<rparr>"

definition F64_EPSILON :: f64 where "F64_EPSILON = 2 powi (- 52)"

definition samples :: "router_weights \<Rightarrow> bool" where
  "samples w \<longleftrightarrow> F64_EPSILON < rw_temperature w"

section \<open>Observed answer lengths\<close>

record windowed_output =
  wo_mean :: f64
  wo_answers :: nat

record output_stats =
  os_live :: "(string, f64) hmap"
  os_windowed :: "(string, windowed_output) hmap"

definition DEFAULT_EXPECTED_OUTPUT_TOKENS :: f64 where "DEFAULT_EXPECTED_OUTPUT_TOKENS = 500"

definition WINDOWED_OUTPUT_MIN_ANSWERS :: nat where "WINDOWED_OUTPUT_MIN_ANSWERS = 200"

definition OUTPUT_ALPHA :: f64 where "OUTPUT_ALPHA = fl (2 / 10)"

definition os_observe :: "string \<Rightarrow> nat \<Rightarrow> output_stats \<Rightarrow> output_stats" where
  "os_observe model output_tokens st =
     (let sample = fl (of_nat output_tokens)
      in st\<lparr>os_live := AList.update model
              (case map_of (os_live st) model of
                 Some avg \<Rightarrow> fl (avg + fl (OUTPUT_ALPHA * fl (sample - avg)))
               | None \<Rightarrow> sample) (os_live st)\<rparr>)"

definition os_set_windowed :: "(string, windowed_output) hmap \<Rightarrow> output_stats \<Rightarrow> output_stats" where
  "os_set_windowed figures st =
     st\<lparr>os_windowed := filter (\<lambda>(_, w). WINDOWED_OUTPUT_MIN_ANSWERS \<le> wo_answers w) figures\<rparr>"

definition os_snapshot :: "output_stats \<Rightarrow> (string, f64) hmap" where
  "os_snapshot st = fold (\<lambda>(model, w). AList.update model (wo_mean w)) (os_windowed st) (os_live st)"

section \<open>Input and result of a decision\<close>

record route_input =
  ri_features :: request_features
  ri_busyness :: "(string, nat) hmap"
  ri_expected_output :: "(string, f64) hmap"
  ri_allowed_models :: "string list option"
  ri_desired_tags :: "string list"
  ri_grants :: boon_grants
  ri_weights :: router_weights
  ri_uniform :: f64
  ri_now :: int
  ri_exp :: "f64 \<Rightarrow> f64"

record scored_ref =
  sr_cand :: candidate
  sr_level :: nat
  sr_spare :: f64
  sr_cost_score :: f64
  sr_est_cost :: f64
  sr_tag_score :: f64
  sr_bias :: f64
  sr_score :: f64

record rejection =
  rj_reason :: string
  rj_models :: "string list"

record evaluation =
  ev_ordered :: "scored_ref list"
  ev_chosen :: "nat option"
  ev_rejected :: "rejection list"
  ev_tier_domains :: "string list"
  ev_tier_floor :: nat
  ev_tier_floor_clamped :: bool

section \<open>Hard filters\<close>

definition REJECTION_REASONS :: "string list" where
  "REJECTION_REASONS =
     [''disabled'', ''staged'', ''retiring'', ''auto_excluded'', ''unhealthy'', ''model_type'', ''context_window'',
      ''function_calling'', ''tool_choice'', ''response_schema'', ''vision'', ''tenant_allowlist'', ''below_tier_floor'']"

definition required_context :: "request_features \<Rightarrow> nat" where
  "required_context f = min (rf_est_input_tokens f + rf_max_tokens f) (2 ^ 64 - 1)"

definition via_boon :: "bool \<Rightarrow> string \<Rightarrow> candidate \<Rightarrow> bool" where
  "via_boon active boon c \<longleftrightarrow> active \<and> boon \<in> set (rm_boons (c_model c))"

definition hard_reject :: "route_input \<Rightarrow> candidate \<Rightarrow> string option" where
  "hard_reject ri c =
     (let m = c_model c; f = ri_features ri
      in if \<not> rm_enabled m then Some ''disabled''
         else if status_at (ri_now ri) (rm_lifecycle m) = Staged then Some ''staged''
         else if status_at (ri_now ri) (rm_lifecycle m) \<noteq> Active then Some ''retiring''
         else if \<not> rm_auto_eligible m then Some ''auto_excluded''
         else if \<not> c_healthy c then Some ''unhealthy''
         else if rm_model_type m \<noteq> DEFAULT_MODEL_TYPE then Some ''model_type''
         else if 0 < rm_context_window m \<and> nat (rm_context_window m) < required_context f then Some ''context_window''
         else if rf_needs_function_calling f \<and> \<not> rm_supports_function_calling m then Some ''function_calling''
         else if rf_needs_tool_choice f \<and> \<not> rm_supports_tool_choice m then Some ''tool_choice''
         else if rf_needs_response_schema f \<and> \<not> rm_supports_response_schema m
             \<and> \<not> via_boon (bg_structured_active (ri_grants ri)) ''structured_output'' c then Some ''response_schema''
         else if rf_needs_vision f \<and> \<not> rm_supports_vision m
             \<and> \<not> via_boon (bg_vision_active (ri_grants ri)) ''vision'' c then Some ''vision''
         else (case ri_allowed_models ri of
                 Some allowed \<Rightarrow> if rm_model_name m \<notin> set allowed then Some ''tenant_allowlist'' else None
               | None \<Rightarrow> None))"

definition reject :: "bool \<Rightarrow> string \<Rightarrow> string \<Rightarrow> string list list \<Rightarrow> string list list" where
  "reject narrating reason name buckets =
     (if \<not> narrating then buckets
      else case position (\<lambda>r. r = reason) REJECTION_REASONS of
             Some slot \<Rightarrow> buckets[slot := buckets ! slot @ [name]]
           | None \<Rightarrow> buckets)"

text \<open>A reason that is not declared would panic; every reason used is (lemma \<open>hard_reject_declared\<close>).\<close>

definition finish :: "string list list \<Rightarrow> rejection list" where
  "finish buckets =
     map (\<lambda>(reason, models). \<lparr>rj_reason = reason, rj_models = models\<rparr>)
       (filter (\<lambda>(_, models). models \<noteq> []) (zip REJECTION_REASONS buckets))"

definition hard_filter ::
  "route_input \<Rightarrow> bool \<Rightarrow> candidate list \<Rightarrow> string list list \<Rightarrow> candidate list \<times> string list list" where
  "hard_filter ri narrating candidates buckets =
     fold (\<lambda>c (eligible, buckets).
        case hard_reject ri c of
          Some reason \<Rightarrow> (eligible, reject narrating reason (c_name c) buckets)
        | None \<Rightarrow> (eligible @ [c], buckets)) candidates ([], buckets)"

section \<open>Difficulty floor\<close>

definition tier_domains :: "route_input \<Rightarrow> bool \<Rightarrow> string list" where
  "tier_domains ri narrating =
     (if rw_difficulty_enabled (ri_weights ri) \<or> narrating
      then if ri_desired_tags ri = [] then [GENERAL_DOMAIN] else ri_desired_tags ri
      else [])"

definition requested_level :: "nat \<Rightarrow> nat" where
  "requested_level difficulty = max 1 (min difficulty MAX_TIER_LEVEL)"

definition best_strength :: "string list \<Rightarrow> candidate list \<Rightarrow> nat" where
  "best_strength domains eligible = fold max (map (strength domains) eligible) 0"

definition tier_filter ::
  "route_input \<Rightarrow> bool \<Rightarrow> nat \<Rightarrow> candidate list \<Rightarrow> string list list \<Rightarrow> candidate list \<times> nat \<times> bool \<times> string list list" where
  "tier_filter ri narrating difficulty eligible buckets =
     (if rw_difficulty_enabled (ri_weights ri) then
        (let domains = tier_domains ri narrating;
             available = best_strength domains eligible;
             requested = requested_level difficulty;
             tier_floor = min requested available;
             (kept, dropped) = partition (\<lambda>c. tier_floor \<le> strength domains c) eligible
         in if kept = [] then (eligible, tier_floor, available < requested, buckets)
            else (kept, tier_floor, available < requested,
                  fold (\<lambda>c. reject narrating ''below_tier_floor'' (c_name c)) dropped buckets))
      else (eligible, 0, False, buckets))"

section \<open>Scores\<close>

definition f64_clamp :: "f64 \<Rightarrow> f64 \<Rightarrow> f64 \<Rightarrow> f64" where
  "f64_clamp lo hi x = (if x < lo then lo else if hi < x then hi else x)"

definition est_cost :: "route_input \<Rightarrow> candidate \<Rightarrow> f64" where
  "est_cost ri c =
     (let expected_out = get_or DEFAULT_EXPECTED_OUTPUT_TOKENS (ri_expected_output ri) (c_name c);
          est_in = fl (of_nat (rf_est_input_tokens (ri_features ri)))
      in fl (fl (rm_input_cost_per_token (c_model c) * est_in) + fl (rm_output_cost_per_token (c_model c) * expected_out)))"

definition spare :: "route_input \<Rightarrow> candidate \<Rightarrow> f64" where
  "spare ri c =
     (let in_flight = fl (of_nat (get_or 0 (ri_busyness ri) (c_name c)));
          cap = (case rm_max_in_flight (c_model c) of
                   Some cap \<Rightarrow> if 0 < cap then fl (of_nat cap) else rw_soft_cap (ri_weights ri)
                 | None \<Rightarrow> rw_soft_cap (ri_weights ri))
      in f64_clamp 0 1 (fl (1 - fl (in_flight / cap))))"

definition cost_score :: "f64 \<Rightarrow> f64 \<Rightarrow> f64 \<Rightarrow> f64" where
  "cost_score min_cost max_cost cost =
     (let cost_span = fl (max_cost - min_cost)
      in if F64_EPSILON < cost_span then fl (1 - fl (fl (cost - min_cost) / cost_span)) else 1)"

definition tag_score :: "route_input \<Rightarrow> candidate \<Rightarrow> f64" where
  "tag_score ri c =
     (let tags = ri_desired_tags ri
      in if tags = [] then 0
         else min (fl (fl (of_nat (length (filter (\<lambda>t. t \<in> set (rm_tags (c_model c))) tags))) / fl (of_nat (length tags)))) 1)"

definition route_bias :: "candidate \<Rightarrow> f64" where
  "route_bias c = f64_clamp (fl (1 / 10)) 3 (rm_route_bias (c_model c))"

definition score_candidate :: "route_input \<Rightarrow> bool \<Rightarrow> f64 \<Rightarrow> f64 \<Rightarrow> candidate \<Rightarrow> scored_ref" where
  "score_candidate ri narrating min_cost max_cost c =
     (let w = ri_weights ri; cost = est_cost ri c;
          cs = cost_score min_cost max_cost cost;
          base = fl (fl (rw_capacity w * spare ri c) + fl (rw_cost w * cs));
          score = (if ri_desired_tags ri = [] then base
                   else fl (fl (rw_tag w * tag_score ri c) + fl (fl (1 - rw_tag w) * base)))
      in \<lparr>sr_cand = c, sr_level = (if narrating then strength (tier_domains ri narrating) c else 0),
          sr_spare = spare ri c, sr_cost_score = cs, sr_est_cost = cost, sr_tag_score = tag_score ri c,
          sr_bias = route_bias c, sr_score = fl (score * route_bias c)\<rparr>)"

text \<open>The start values \<open>f64::INFINITY\<close> and \<open>f64::NEG_INFINITY\<close> of the extrema give way to the first cost; there is one.\<close>

definition score_all :: "route_input \<Rightarrow> bool \<Rightarrow> candidate list \<Rightarrow> scored_ref list" where
  "score_all ri narrating eligible =
     (let costs = map (est_cost ri) eligible;
          min_cost = fold min (tl costs) (hd costs);
          max_cost = fold max (tl costs) (hd costs)
      in map (score_candidate ri narrating min_cost max_cost) eligible)"

definition order_scored :: "scored_ref list \<Rightarrow> scored_ref list" where
  "order_scored = sort_key (\<lambda>s. (- sr_score s, c_name (sr_cand s)))"

section \<open>The pick\<close>

fun pick_from :: "f64 \<Rightarrow> f64 \<Rightarrow> nat \<Rightarrow> f64 list \<Rightarrow> nat option" where
  "pick_from target acc i [] = None"
| "pick_from target acc i (x # xs) =
     (let acc = fl (acc + x) in if target \<le> acc then Some i else pick_from target acc (i + 1) xs)"

definition pick_index :: "route_input \<Rightarrow> scored_ref list \<Rightarrow> nat option" where
  "pick_index ri scored =
     (if scored = [] then None
      else if \<not> samples (ri_weights ri) then Some 0
      else
        (let mx = sr_score (hd scored);
             exps = map (\<lambda>s. ri_exp ri (fl (fl (sr_score s - mx) / rw_temperature (ri_weights ri)))) scored;
             total = fold (\<lambda>x acc. fl (acc + x)) exps 0
         in if total \<le> 0 then Some 0
            else
              (let target = fl (f64_clamp 0 1 (ri_uniform ri) * total)
               in case pick_from target 0 0 exps of Some i \<Rightarrow> Some i | None \<Rightarrow> Some (length scored - 1))))"

definition evaluate :: "route_input \<Rightarrow> nat \<Rightarrow> bool \<Rightarrow> candidate list \<Rightarrow> evaluation" where
  "evaluate ri difficulty narrating candidates =
     (let domains = tier_domains ri narrating;
          (eligible, buckets) = hard_filter ri narrating candidates (replicate (length REJECTION_REASONS) [])
      in if eligible = [] then
           \<lparr>ev_ordered = [], ev_chosen = None, ev_rejected = finish buckets, ev_tier_domains = domains,
            ev_tier_floor = 0, ev_tier_floor_clamped = False\<rparr>
         else
           (let (eligible, tier_floor, clamped, buckets) = tier_filter ri narrating difficulty eligible buckets;
                scored = order_scored (score_all ri narrating eligible)
            in \<lparr>ev_ordered = scored, ev_chosen = pick_index ri scored, ev_rejected = finish buckets,
                ev_tier_domains = domains, ev_tier_floor = tier_floor, ev_tier_floor_clamped = clamped\<rparr>))"

definition picked :: "evaluation \<Rightarrow> resolved_model option" where
  "picked ev = map_option (\<lambda>i. c_model (sr_cand (ev_ordered ev ! i))) (ev_chosen ev)"

definition select_model :: "route_input \<Rightarrow> nat \<Rightarrow> candidate list \<Rightarrow> resolved_model option" where
  "select_model ri difficulty candidates = picked (evaluate ri difficulty False candidates)"

section \<open>Explanations\<close>

datatype intent_source = Classifier | Heuristic | Header | DefaultSource

record intent =
  it_tags :: "string list"
  it_difficulty :: nat
  it_source :: intent_source

record scored_candidate =
  sd_model :: string
  sd_level :: nat
  sd_spare :: f64
  sd_cost_score :: f64
  sd_est_cost :: f64
  sd_tag_score :: f64
  sd_bias :: f64
  sd_score :: f64
  sd_chosen :: bool

record weights_view =
  wv_capacity :: f64
  wv_cost :: f64
  wv_tag :: f64
  wv_soft_cap :: f64
  wv_difficulty_enabled :: bool

record route_explain =
  re_chosen :: "string option"
  re_difficulty :: nat
  re_difficulty_source :: intent_source
  re_tags :: "string list"
  re_tag_source :: intent_source
  re_classifier_ms :: nat
  re_tier_domains :: "string list"
  re_tier_floor :: nat
  re_tier_floor_clamped :: bool
  re_weights :: weights_view
  re_temperature :: f64
  re_uniform :: f64
  re_sampled :: bool
  re_scored :: "scored_candidate list"
  re_rejected :: "rejection list"

definition narrate :: "route_input \<Rightarrow> intent \<Rightarrow> evaluation \<Rightarrow> route_explain" where
  "narrate ri it ev =
     (let w = ri_weights ri
      in \<lparr>re_chosen = map_option (\<lambda>i. c_name (sr_cand (ev_ordered ev ! i))) (ev_chosen ev),
          re_difficulty = it_difficulty it, re_difficulty_source = it_source it,
          re_tags = ri_desired_tags ri, re_tag_source = it_source it, re_classifier_ms = 0,
          re_tier_domains = ev_tier_domains ev, re_tier_floor = ev_tier_floor ev,
          re_tier_floor_clamped = ev_tier_floor_clamped ev,
          re_weights = \<lparr>wv_capacity = rw_capacity w, wv_cost = rw_cost w, wv_tag = rw_tag w,
            wv_soft_cap = rw_soft_cap w, wv_difficulty_enabled = rw_difficulty_enabled w\<rparr>,
          re_temperature = rw_temperature w, re_uniform = ri_uniform ri,
          re_sampled = (case ev_chosen ev of None \<Rightarrow> False | Some i \<Rightarrow> i \<noteq> 0),
          re_scored = map (\<lambda>(i, s).
            \<lparr>sd_model = c_name (sr_cand s), sd_level = sr_level s, sd_spare = sr_spare s, sd_cost_score = sr_cost_score s,
             sd_est_cost = sr_est_cost s, sd_tag_score = sr_tag_score s, sd_bias = sr_bias s, sd_score = sr_score s,
             sd_chosen = (ev_chosen ev = Some i)\<rparr>) (enumerate 0 (ev_ordered ev)),
          re_rejected = ev_rejected ev\<rparr>)"

definition route :: "route_input \<Rightarrow> intent \<Rightarrow> candidate list \<Rightarrow> resolved_model option \<times> route_explain" where
  "route ri it candidates =
     (let ev = evaluate ri (it_difficulty it) True candidates in (picked ev, narrate ri it ev))"

definition explain_selection :: "route_input \<Rightarrow> intent \<Rightarrow> candidate list \<Rightarrow> route_explain" where
  "explain_selection ri it candidates = narrate ri it (evaluate ri (it_difficulty it) True candidates)"

end
