(* ===== verification/Routing_Props.thy ===== *)
theory Routing_Props
  imports Routing
begin

text \<open>
  Correctness of the \<open>auto\<close> router: what the filters keep, that the difficulty floor never leaves nothing, that
  the explanation is of the decision taken and accounts for every candidate, the best candidate at
  temperature zero, and the levels.
\<close>

section \<open>The filters\<close>

definition eligible :: "route_input \<Rightarrow> candidate list \<Rightarrow> candidate list" where
  "eligible ri cs = filter (\<lambda>c. hard_reject ri c = None) cs"

definition hard_rejections :: "route_input \<Rightarrow> candidate list \<Rightarrow> (string \<times> string) list" where
  "hard_rejections ri cs = List.map_filter (\<lambda>c. map_option (\<lambda>r. (r, c_name c)) (hard_reject ri c)) cs"

definition reject_all :: "bool \<Rightarrow> (string \<times> string) list \<Rightarrow> string list list \<Rightarrow> string list list" where
  "reject_all narrating rs = fold (\<lambda>(r, name). reject narrating r name) rs"

lemma hard_filter_eq: "hard_filter ri n cs b = (eligible ri cs, reject_all n (hard_rejections ri cs) b)"
proof -
  have "fold (\<lambda>c (eligible, buckets).
        case hard_reject ri c of Some reason \<Rightarrow> (eligible, reject n reason (c_name c) buckets)
        | None \<Rightarrow> (eligible @ [c], buckets)) cs (e, b) = (e @ eligible ri cs, reject_all n (hard_rejections ri cs) b)" for e
    by (induction cs arbitrary: e b)
      (auto simp: eligible_def hard_rejections_def reject_all_def map_filter_simps split: option.splits)
  from this [of "[]"] show ?thesis by (simp add: hard_filter_def)
qed

lemma fold_max_ge: "x \<in> set xs \<Longrightarrow> x \<le> fold max xs (a :: nat)"
proof -
  have m: "a \<le> fold max xs a" for xs and a :: nat
  proof (induction xs arbitrary: a)
    case (Cons y xs)
    show ?case using Cons [of "max y a"] by (simp add: max.bounded_iff)
  qed simp
  show "x \<in> set xs \<Longrightarrow> x \<le> fold max xs a"
  proof (induction xs arbitrary: a)
    case (Cons y xs)
    then show ?case using m [of "max y a" xs] by (auto simp: max.bounded_iff)
  qed simp
qed

lemma fold_max_mem: "xs \<noteq> [] \<Longrightarrow> fold max xs (0 :: nat) \<in> set xs"
proof -
  have "fold max xs a \<in> insert a (set xs)" for a :: nat by (induction xs arbitrary: a) (auto simp: max_def)
  then show "xs \<noteq> [] \<Longrightarrow> fold max xs 0 \<in> set xs" using fold_max_ge [of _ xs 0] by (cases xs) (auto simp: max_def, metis)
qed

text \<open>What the difficulty floor keeps.\<close>

definition tier_kept :: "route_input \<Rightarrow> nat \<Rightarrow> candidate list \<Rightarrow> candidate list" where
  "tier_kept ri difficulty es =
     (if rw_difficulty_enabled (ri_weights ri) then
        filter (\<lambda>c. min (requested_level difficulty) (best_strength (tier_domains ri True) es) \<le> strength (tier_domains ri True) c) es
      else es)"

definition tier_dropped :: "route_input \<Rightarrow> nat \<Rightarrow> candidate list \<Rightarrow> (string \<times> string) list" where
  "tier_dropped ri difficulty es =
     (if rw_difficulty_enabled (ri_weights ri) then
        map (\<lambda>c. (''below_tier_floor'', c_name c))
          (filter (\<lambda>c. \<not> min (requested_level difficulty) (best_strength (tier_domains ri True) es) \<le> strength (tier_domains ri True) c) es)
      else [])"

lemma tier_kept_nonempty: "es \<noteq> [] \<Longrightarrow> tier_kept ri d es \<noteq> []"
proof -
  assume "es \<noteq> []"
  then have "best_strength (tier_domains ri True) es \<in> strength (tier_domains ri True) ` set es"
    using fold_max_mem [of "map (strength (tier_domains ri True)) es"] by (simp add: best_strength_def)
  then obtain c where "c \<in> set es" "strength (tier_domains ri True) c = best_strength (tier_domains ri True) es" by auto
  then have "c \<in> set (tier_kept ri d es)" by (simp add: tier_kept_def)
  then show ?thesis by force
qed

lemma tier_domains_on: "rw_difficulty_enabled (ri_weights ri) \<Longrightarrow> tier_domains ri n = tier_domains ri True"
  by (simp add: tier_domains_def)

lemma tier_filter_eq:
  assumes "es \<noteq> []"
  shows "\<exists>fl cl. tier_filter ri n d es b = (tier_kept ri d es, fl, cl, reject_all n (tier_dropped ri d es) b) \<and>
    (rw_difficulty_enabled (ri_weights ri) \<longrightarrow> fl = min (requested_level d) (best_strength (tier_domains ri True) es))"
proof (cases "rw_difficulty_enabled (ri_weights ri)")
  case True
  note k = tier_kept_nonempty [OF assms, of ri d]
  have f: "fold (\<lambda>c. reject n ''below_tier_floor'' (c_name c)) xs b = reject_all n (map (\<lambda>c. (''below_tier_floor'', c_name c)) xs) b" for xs
    by (induction xs arbitrary: b) (auto simp: reject_all_def)
  show ?thesis using k True by (simp add: tier_filter_def tier_kept_def tier_dropped_def Let_def f comp_def tier_domains_on [OF True, of n])
next
  case False
  then show ?thesis by (intro exI [of _ 0] exI [of _ False]) (simp add: tier_filter_def tier_kept_def tier_dropped_def reject_all_def)
qed

definition kept :: "route_input \<Rightarrow> nat \<Rightarrow> candidate list \<Rightarrow> candidate list" where
  "kept ri d cs = tier_kept ri d (eligible ri cs)"

definition all_rejections :: "route_input \<Rightarrow> nat \<Rightarrow> candidate list \<Rightarrow> (string \<times> string) list" where
  "all_rejections ri d cs = hard_rejections ri cs @ tier_dropped ri d (eligible ri cs)"

lemma score_all_Nil [simp]: "score_all ri n [] = []" "order_scored [] = []"
  by (simp_all add: score_all_def order_scored_def)

lemma kept_empty: "kept ri d cs = [] \<longleftrightarrow> eligible ri cs = []"
proof (cases "eligible ri cs = []")
  case False
  then show ?thesis using tier_kept_nonempty [OF False, of ri d] by (simp add: kept_def)
qed (simp add: kept_def tier_kept_def)

lemma evaluate_eq:
  "ev_ordered (evaluate ri d n cs) = order_scored (score_all ri n (kept ri d cs))"
  "ev_chosen (evaluate ri d n cs) = pick_index ri (order_scored (score_all ri n (kept ri d cs)))"
  "ev_rejected (evaluate ri d n cs) = finish (reject_all n (all_rejections ri d cs) (replicate (length REJECTION_REASONS) []))"
proof -
  let ?b = "reject_all n (hard_rejections ri cs) (replicate (length REJECTION_REASONS) [])"
  have "ev_ordered (evaluate ri d n cs) = order_scored (score_all ri n (kept ri d cs)) \<and>
    ev_chosen (evaluate ri d n cs) = pick_index ri (order_scored (score_all ri n (kept ri d cs))) \<and>
    ev_rejected (evaluate ri d n cs) = finish (reject_all n (all_rejections ri d cs) (replicate (length REJECTION_REASONS) []))"
  proof (cases "eligible ri cs = []")
    case True
    then have "kept ri d cs = []" "tier_dropped ri d (eligible ri cs) = []" by (simp_all add: kept_empty tier_dropped_def)
    then show ?thesis using True by (simp add: evaluate_def hard_filter_eq Let_def pick_index_def all_rejections_def)
  next
    case False
    obtain f cl where t: "tier_filter ri n d (eligible ri cs) ?b = (kept ri d cs, f, cl, reject_all n (tier_dropped ri d (eligible ri cs)) ?b)"
      using tier_filter_eq [OF False, of ri n d ?b] by (auto simp: kept_def)
    show ?thesis using False t by (simp add: evaluate_def hard_filter_eq Let_def all_rejections_def reject_all_def)
  qed
  then show "ev_ordered (evaluate ri d n cs) = order_scored (score_all ri n (kept ri d cs))"
    "ev_chosen (evaluate ri d n cs) = pick_index ri (order_scored (score_all ri n (kept ri d cs)))"
    "ev_rejected (evaluate ri d n cs) = finish (reject_all n (all_rejections ri d cs) (replicate (length REJECTION_REASONS) []))" by blast+
qed

section \<open>The pick\<close>

lemma pick_from_range: "pick_from t acc i xs = Some j \<Longrightarrow> i \<le> j \<and> j < i + length xs"
  by (induction xs arbitrary: acc i) (fastforce simp: Let_def split: if_splits)+

lemma pick_index_range: "scored \<noteq> [] \<Longrightarrow> \<exists>i < length scored. pick_index ri scored = Some i"
  using pick_from_range [of _ 0 0] by (fastforce simp: pick_index_def Let_def split: option.splits)

lemma pick_index_None: "pick_index ri scored = None \<longleftrightarrow> scored = []"
  using pick_index_range [of scored ri] by (auto simp: pick_index_def)

lemma insort_key_map: "insort_key f (g x) (map g xs) = map g (insort_key (\<lambda>y. f (g y)) x xs)"
  by (induction xs) auto

lemma sort_key_map: "sort_key f (map g xs) = map g (sort_key (\<lambda>y. f (g y)) xs)"
  by (induction xs) (simp_all add: insort_key_map)

definition no_level :: "scored_ref \<Rightarrow> scored_ref" where
  "no_level s = s\<lparr>sr_level := 0\<rparr>"

lemma no_level_simps [simp]: "sr_score (no_level s) = sr_score s" "sr_cand (no_level s) = sr_cand s"
  by (simp_all add: no_level_def)

lemma order_no_level: "order_scored (map no_level xs) = map no_level (order_scored xs)"
  by (simp add: order_scored_def sort_key_map comp_def)

lemma pick_no_level: "pick_index ri (map no_level xs) = pick_index ri xs"
  by (cases "xs = []") (simp_all add: pick_index_def Let_def comp_def hd_map cong: option.case_cong)

lemma score_all_no_level: "score_all ri False es = map no_level (score_all ri True es)"
  by (simp add: score_all_def Let_def score_candidate_def no_level_def)

lemma silent_evaluation:
  "ev_ordered (evaluate ri d False cs) = map no_level (ev_ordered (evaluate ri d True cs))"
  "ev_chosen (evaluate ri d False cs) = ev_chosen (evaluate ri d True cs)"
  by (simp_all add: evaluate_eq score_all_no_level order_no_level pick_no_level)

lemma picked_silent: "picked (evaluate ri d True cs) = picked (evaluate ri d False cs)"
proof (cases "ev_chosen (evaluate ri d True cs)")
  case None
  then show ?thesis by (simp add: picked_def silent_evaluation)
next
  case (Some i)
  then have "i < length (ev_ordered (evaluate ri d True cs))"
    using pick_index_range [of "ev_ordered (evaluate ri d True cs)" ri] pick_index_None [of ri "ev_ordered (evaluate ri d True cs)"]
    by (auto simp: evaluate_eq)
  then show ?thesis using Some by (simp add: picked_def silent_evaluation)
qed


lemma chosen_range:
  assumes "ev_chosen (evaluate ri d n cs) = Some i"
  shows "i < length (ev_ordered (evaluate ri d n cs))"
  using assms pick_index_range [of "ev_ordered (evaluate ri d n cs)" ri] pick_index_None [of ri "ev_ordered (evaluate ri d n cs)"]
  by (auto simp: evaluate_eq)

lemma ordered_cands: "mset (map sr_cand (ev_ordered (evaluate ri d n cs))) = mset (kept ri d cs)"
proof -
  have "sr_cand (score_candidate ri n a b c) = c" for a b c by (simp add: score_candidate_def Let_def)
  then show ?thesis by (simp add: evaluate_eq order_scored_def score_all_def Let_def image_mset.compositionality comp_def)
qed

lemma select_None: "select_model ri d cs = None \<longleftrightarrow> eligible ri cs = []"
proof -
  have "select_model ri d cs = None \<longleftrightarrow> order_scored (score_all ri False (kept ri d cs)) = []"
    by (simp add: select_model_def picked_def evaluate_eq pick_index_None)
  also have "\<dots> \<longleftrightarrow> kept ri d cs = []"
    using arg_cong [OF ordered_cands [of ri d False cs], of size] by (simp add: evaluate_eq flip: length_0_conv)
  finally show ?thesis by (simp add: kept_empty)
qed

lemma select_Some:
  assumes "select_model ri d cs = Some m"
  shows "\<exists>c \<in> set (kept ri d cs). c_model c = m"
proof -
  let ?ev = "evaluate ri d False cs"
  obtain i where i: "ev_chosen ?ev = Some i" "m = c_model (sr_cand (ev_ordered ?ev ! i))"
    using assms by (auto simp: select_model_def picked_def)
  have "sr_cand (ev_ordered ?ev ! i) \<in> set (map sr_cand (ev_ordered ?ev))" using chosen_range [OF i(1)] by simp
  then show ?thesis using i(2) mset_eq_setD [OF ordered_cands [of ri d False cs]] by auto
qed

section \<open>Rejections\<close>

lemma hard_reject_declared: "hard_reject ri c = Some r \<Longrightarrow> r \<in> set REJECTION_REASONS"
  by (auto simp: hard_reject_def REJECTION_REASONS_def Let_def split: if_splits option.splits)

lemma all_rejections_declared: "(r, name) \<in> set (all_rejections ri d cs) \<Longrightarrow> r \<in> set REJECTION_REASONS"
proof -
  have "''below_tier_floor'' \<in> set REJECTION_REASONS" by (simp add: REJECTION_REASONS_def)
  then show "(r, name) \<in> set (all_rejections ri d cs) \<Longrightarrow> r \<in> set REJECTION_REASONS"
    by (auto simp: all_rejections_def hard_rejections_def tier_dropped_def map_filter_def dest: hard_reject_declared split: if_splits)
qed

lemma all_rejections_from:
  assumes "(r, name) \<in> set (all_rejections ri d cs)"
  shows "\<exists>c \<in> set cs. c_name c = name \<and> (hard_reject ri c = Some r \<or> hard_reject ri c = None \<and> r = ''below_tier_floor'')"
proof -
  from assms consider "(r, name) \<in> set (hard_rejections ri cs)" | "(r, name) \<in> set (tier_dropped ri d (eligible ri cs))"
    by (auto simp: all_rejections_def)
  then show ?thesis
  proof cases
    case 1
    then obtain c where "c \<in> set cs" "hard_reject ri c = Some r" "name = c_name c" by (auto simp: hard_rejections_def map_filter_def)
    then show ?thesis by blast
  next
    case 2
    then obtain c where "c \<in> set (eligible ri cs)" "r = ''below_tier_floor''" "name = c_name c"
      by (auto simp: tier_dropped_def split: if_splits)
    then show ?thesis by (auto simp: eligible_def)
  qed
qed

lemma position_nth: "distinct xs \<Longrightarrow> i < length xs \<Longrightarrow> position (\<lambda>y. y = xs ! i) xs = Some i"
proof (induction xs arbitrary: i)
  case (Cons x xs)
  then show ?case by (cases i) (auto simp: nth_eq_iff_index_eq)
qed simp

lemma reasons_distinct: "distinct REJECTION_REASONS"
  by (simp add: REJECTION_REASONS_def)

lemma reject_all_bucket:
  assumes "\<forall>(r, name) \<in> set rs. r \<in> set REJECTION_REASONS" and "length b = length REJECTION_REASONS"
  shows "length (reject_all True rs b) = length REJECTION_REASONS \<and>
    (\<forall>i < length REJECTION_REASONS. reject_all True rs b ! i = b ! i @ map snd (filter (\<lambda>(r, _). r = REJECTION_REASONS ! i) rs))"
  using assms
proof (induction rs arbitrary: b)
  case (Cons e rs)
  obtain r name where e: "e = (r, name)" by (cases e)
  obtain j where j: "j < length REJECTION_REASONS" "r = REJECTION_REASONS ! j" using Cons.prems(1) by (auto simp: e in_set_conv_nth)
  let ?b = "b[j := b ! j @ [name]]"
  have b: "reject True r name b = ?b" by (simp add: reject_def j(2) position_nth [OF reasons_distinct j(1)])
  have "REJECTION_REASONS ! i = r \<longleftrightarrow> i = j" if "i < length REJECTION_REASONS" for i
    using that j nth_eq_iff_index_eq [OF reasons_distinct] by auto
  then show ?case using Cons.IH [of ?b] Cons.prems b j(1) by (auto simp: e reject_all_def nth_list_update)
qed (simp add: reject_all_def)

lemma explained_rejections:
  "ev_rejected (evaluate ri d True cs) =
     filter (\<lambda>j. rj_models j \<noteq> [])
       (map (\<lambda>r. \<lparr>rj_reason = r, rj_models = map snd (filter (\<lambda>(r', _). r' = r) (all_rejections ri d cs))\<rparr>) REJECTION_REASONS)"
proof -
  let ?b = "reject_all True (all_rejections ri d cs) (replicate (length REJECTION_REASONS) [])"
  have declared: "\<forall>(r, name) \<in> set (all_rejections ri d cs). r \<in> set REJECTION_REASONS" using all_rejections_declared by blast
  have b: "length ?b = length REJECTION_REASONS" "\<forall>i < length REJECTION_REASONS. ?b ! i = map snd (filter (\<lambda>(r, _). r = REJECTION_REASONS ! i) (all_rejections ri d cs))"
    using reject_all_bucket [of "all_rejections ri d cs" "replicate (length REJECTION_REASONS) []", OF declared] by auto
  then have "?b = map (\<lambda>r. map snd (filter (\<lambda>(r', _). r' = r) (all_rejections ri d cs))) REJECTION_REASONS"
    by (intro nth_equalityI) auto
  then show ?thesis by (simp add: evaluate_eq finish_def zip_map2 zip_same_conv_map filter_map comp_def)
qed

lemma sum_over_reasons:
  assumes "\<forall>(r, name) \<in> set rs. r \<in> set R" and "distinct R"
  shows "mset (concat (map (\<lambda>r. map snd (filter (\<lambda>(r', _). r' = r) rs)) R)) = mset (map snd rs)"
  using assms(1)
proof (induction rs)
  case (Cons e rs)
  obtain r name where e: "e = (r, name)" by (cases e)
  have g: "mset (concat (map (\<lambda>x. (if r = x then [name] else []) @ h x) S)) =
      (if r \<in> set S then {#name#} else {#}) + mset (concat (map h S))" if "distinct S" for h S
    using that by (induction S) auto
  have "(\<lambda>x. map snd (filter (\<lambda>(r', _). r' = x) (e # rs))) =
      (\<lambda>x. (if r = x then [name] else []) @ map snd (filter (\<lambda>(r', _). r' = x) rs))"
    by (auto simp: e fun_eq_iff)
  then have "mset (concat (map (\<lambda>x. map snd (filter (\<lambda>(r', _). r' = x) (e # rs))) R)) =
      {#name#} + mset (concat (map (\<lambda>x. map snd (filter (\<lambda>(r', _). r' = x) rs)) R))"
    using g [OF assms(2)] Cons.prems by (simp add: e)
  then show ?case using Cons by (simp add: e)
qed simp

lemma accounted: "mset (map c_name cs) = mset (map c_name (kept ri d cs)) + mset (map snd (all_rejections ri d cs))"
proof -
  have h: "mset (map c_name cs) = mset (map c_name (eligible ri cs)) + mset (map snd (hard_rejections ri cs))"
    by (induction cs) (auto simp: eligible_def hard_rejections_def map_filter_simps split: option.splits)
  have "mset (map c_name es) = mset (map c_name (tier_kept ri d es)) + mset (map snd (tier_dropped ri d es))" for es
  proof (cases "rw_difficulty_enabled (ri_weights ri)")
    case True
    have "mset (map c_name xs) = mset (map c_name (filter P xs)) + mset (map c_name (filter (\<lambda>c. \<not> P c) xs))" for xs :: "candidate list" and P
      by (induction xs) auto
    from this [of es "\<lambda>c. min (requested_level d) (best_strength (tier_domains ri True) es) \<le> strength (tier_domains ri True) c"]
    show ?thesis using True by (simp add: tier_kept_def tier_dropped_def comp_def del: not_le)
  qed (simp add: tier_kept_def tier_dropped_def)
  from this [of "eligible ri cs"] show ?thesis using h by (simp add: kept_def all_rejections_def)
qed


section \<open>Levels\<close>

lemma fold_set_insert: "set (fold set_insert xs ys) = set xs \<union> set ys" "distinct ys \<Longrightarrow> distinct (fold set_insert xs ys)"
  by (induction xs arbitrary: ys) (auto simp: set_insert_def)

definition in_domain :: "candidate \<Rightarrow> string \<Rightarrow> bool" where
  "in_domain c d \<longleftrightarrow> chat c \<and> (d = GENERAL_DOMAIN \<or> d \<in> set (rm_tags (c_model c)))"

lemma level_members_set:
  "set (level_members cs d) = {i. i < length cs \<and> in_domain (cs ! i) d}" "distinct (level_members cs d)"
  by (auto simp: level_members_def in_domain_def)

lemma domains_cover: "c \<in> set cs \<Longrightarrow> in_domain c d \<Longrightarrow> d \<in> set (level_domains cs)"
  by (auto simp: level_domains_def fold_set_insert in_domain_def)

lemma derived_bounds: "rank < n \<Longrightarrow> 1 \<le> derived_level n rank \<and> derived_level n rank \<le> MAX_TIER_LEVEL"
  by (simp add: derived_level_def MAX_TIER_LEVEL_def)

definition levels_declared_ok :: "candidate \<Rightarrow> bool" where
  "levels_declared_ok c \<longleftrightarrow> (\<forall>(d, l) \<in> set (rm_declared_levels (c_model c)). 1 \<le> l \<and> l \<le> MAX_TIER_LEVEL)"

lemma level_of_bounds:
  "rank < n \<Longrightarrow> levels_declared_ok c \<Longrightarrow> 1 \<le> level_of src d (derived_level n rank) c \<and> level_of src d (derived_level n rank) c \<le> MAX_TIER_LEVEL"
  using derived_bounds [of rank n]
  by (auto simp: level_of_def Let_def levels_declared_ok_def MAX_TIER_LEVEL_def dest!: map_of_SomeD split: tier_source.splits option.splits)

lemma distinct_only:
  assumes "distinct xs" and "x \<in> set xs" and "\<And>y. y \<in> set xs \<Longrightarrow> y = x"
  shows "xs = [x]"
proof (cases xs)
  case (Cons y ys)
  then have "ys = []" using assms(1,3) by (cases ys) auto
  then show ?thesis using assms(2) Cons by simp
qed (use assms(2) in simp)

lemma assign_members:
  assumes "distinct (map snd ms)" and "\<forall>(r, j) \<in> set ms. j < length a"
  shows "length (fold (\<lambda>(rank, i) a. a[i := a ! i @ [(d, g rank i)]]) ms a) = length a \<and>
    (\<forall>i < length a. fold (\<lambda>(rank, i) a. a[i := a ! i @ [(d, g rank i)]]) ms a ! i =
      a ! i @ map (\<lambda>(rank, j). (d, g rank j)) (filter (\<lambda>(_, j). j = i) ms))"
  using assms
proof (induction ms arbitrary: a)
  case (Cons e ms)
  obtain r j where e: "e = (r, j)" by (cases e)
  have n: "filter (\<lambda>(_, j'). j' = j) ms = []" using Cons.prems(1) by (force simp: e filter_empty_conv)
  show ?case using Cons.IH [of "a[j := a ! j @ [(d, g r j)]]"] Cons.prems n by (auto simp: e nth_list_update)
qed simp

lemma assign_domain_reads:
  assumes "length a = length cs"
  shows "length (assign_domain src cs d a) = length cs" and
    "i < length cs \<Longrightarrow> \<exists>l. assign_domain src cs d a ! i = a ! i @ (if in_domain (cs ! i) d then [(d, l)] else []) \<and>
      (levels_declared_ok (cs ! i) \<longrightarrow> in_domain (cs ! i) d \<longrightarrow> 1 \<le> l \<and> l \<le> MAX_TIER_LEVEL)"
proof -
  let ?ms = "level_members cs d"
  let ?g = "\<lambda>rank i. level_of src d (derived_level (length ?ms) rank) (cs ! i)"
  have e: "assign_domain src cs d a = fold (\<lambda>(rank, i) a. a[i := a ! i @ [(d, ?g rank i)]]) (enumerate 0 ?ms) a"
    by (simp add: assign_domain_def Let_def)
  have mem: "(r, j) \<in> set (enumerate 0 ?ms) \<longleftrightarrow> r < length ?ms \<and> ?ms ! r = j" for r j by (simp add: in_set_enumerate_eq)
  have "distinct (map snd (enumerate 0 ?ms))" by (simp add: level_members_set(2))
  moreover have "j < length a" if "(r, j) \<in> set (enumerate 0 ?ms)" for r j
    using that nth_mem [of r ?ms] level_members_set(1) [of cs d] assms unfolding mem by simp
  ultimately have "distinct (map snd (enumerate 0 ?ms))" "\<forall>(r, j) \<in> set (enumerate 0 ?ms). j < length a" by blast+
  note A = assign_members [OF this, of d ?g, folded e]
  show "length (assign_domain src cs d a) = length cs" using conjunct1 [OF A] unfolding assms .
  assume i: "i < length cs"
  show "\<exists>l. assign_domain src cs d a ! i = a ! i @ (if in_domain (cs ! i) d then [(d, l)] else []) \<and>
      (levels_declared_ok (cs ! i) \<longrightarrow> in_domain (cs ! i) d \<longrightarrow> 1 \<le> l \<and> l \<le> MAX_TIER_LEVEL)"
  proof (cases "in_domain (cs ! i) d")
    case True
    then obtain k where k: "k < length ?ms" "?ms ! k = i" using level_members_set(1) [of cs d] i by (metis (mono_tags, lifting) in_set_conv_nth mem_Collect_eq)
    have "filter (\<lambda>(_, j). j = i) (enumerate 0 ?ms) = [(k, i)]"
    proof -
      have m: "(k, i) \<in> set (filter (\<lambda>(_, j). j = i) (enumerate 0 ?ms))" using k by (simp add: mem)
      have u: "x = (k, i)" if "x \<in> set (filter (\<lambda>(_, j). j = i) (enumerate 0 ?ms))" for x
      proof -
        obtain r j where x: "x = (r, j)" by (cases x)
        then have "j = i" "r < length ?ms" "?ms ! r = i" using that mem [of r j] unfolding set_filter by auto
        then show ?thesis using x k nth_eq_iff_index_eq [OF level_members_set(2) [of cs d]] by metis
      qed
      have "distinct (filter (\<lambda>(_, j). j = i) (enumerate 0 ?ms))" by simp
      then show ?thesis using m u by (rule distinct_only)
    qed
    then show ?thesis using A i assms True level_of_bounds [OF k(1)] by auto
  next
    case False
    then have "filter (\<lambda>(_, j). j = i) (enumerate 0 ?ms) = []"
      using level_members_set(1) [of cs d] nth_mem [of _ ?ms] by (auto simp: filter_empty_conv mem simp del: nth_mem)
    then show ?thesis using A i assms False by auto
  qed
qed


lemma assign_all:
  assumes "length a = length cs" and "distinct ds" and "i < length cs" and "\<forall>(d, l) \<in> set (a ! i). d \<notin> set ds"
    and "distinct (map fst (a ! i))"
  shows "length (fold (assign_domain src cs) ds a) = length cs \<and>
    distinct (map fst (fold (assign_domain src cs) ds a ! i)) \<and>
    fst ` set (fold (assign_domain src cs) ds a ! i) = fst ` set (a ! i) \<union> {d \<in> set ds. in_domain (cs ! i) d} \<and>
    (levels_declared_ok (cs ! i) \<longrightarrow> (\<forall>(d, l) \<in> set (a ! i). 1 \<le> l \<and> l \<le> MAX_TIER_LEVEL) \<longrightarrow>
      (\<forall>(d, l) \<in> set (fold (assign_domain src cs) ds a ! i). 1 \<le> l \<and> l \<le> MAX_TIER_LEVEL))"
  using assms
proof (induction ds arbitrary: a)
  case (Cons d ds)
  let ?a = "assign_domain src cs d a"
  note R = assign_domain_reads [OF Cons.prems(1), where src = src and d = d]
  obtain l where l: "?a ! i = a ! i @ (if in_domain (cs ! i) d then [(d, l)] else [])"
    "levels_declared_ok (cs ! i) \<longrightarrow> in_domain (cs ! i) d \<longrightarrow> 1 \<le> l \<and> l \<le> MAX_TIER_LEVEL" using R(2) [OF Cons.prems(3)] by blast
  have p: "\<forall>(d', l') \<in> set (?a ! i). d' \<notin> set ds" "distinct (map fst (?a ! i))" using Cons.prems(2,4,5) by (auto simp: l(1))
  have "distinct ds" using Cons.prems(2) by simp
  note IH = Cons.IH [OF R(1) this Cons.prems(3) p]
  have up: "(\<forall>(d', l') \<in> set (a ! i). 1 \<le> l' \<and> l' \<le> MAX_TIER_LEVEL) \<Longrightarrow> levels_declared_ok (cs ! i) \<Longrightarrow>
      \<forall>(d', l') \<in> set (?a ! i). 1 \<le> l' \<and> l' \<le> MAX_TIER_LEVEL" using l by auto
  have ds: "fst ` set (?a ! i) \<union> {d' \<in> set ds. in_domain (cs ! i) d'} = fst ` set (a ! i) \<union> {d' \<in> set (d # ds). in_domain (cs ! i) d'}"
    by (auto simp: l(1))
  have e: "fold (assign_domain src cs) (d # ds) a = fold (assign_domain src cs) ds ?a" by simp
  show ?case unfolding e ds [symmetric]
  proof (intro conjI impI)
    note IH4 = mp [OF mp [OF conjunct2 [OF conjunct2 [OF conjunct2 [OF IH]]]]]
    assume "levels_declared_ok (cs ! i)" and "\<forall>(d, l) \<in> set (a ! i). 1 \<le> l \<and> l \<le> MAX_TIER_LEVEL"
    then show "\<forall>(d, l) \<in> set (fold (assign_domain src cs) ds ?a ! i). 1 \<le> l \<and> l \<le> MAX_TIER_LEVEL" using up IH4 by blast
  qed (rule conjunct1 [OF IH] conjunct1 [OF conjunct2 [OF IH]] conjunct1 [OF conjunct2 [OF conjunct2 [OF IH]]])+
qed simp

lemma derive_levels_reads:
  assumes "i < length cs"
  shows "length (derive_levels src cs) = length cs" and
    "distinct (map fst (c_levels (derive_levels src cs ! i)))" and
    "fst ` set (c_levels (derive_levels src cs ! i)) = {d. in_domain (cs ! i) d}" and
    "levels_declared_ok (cs ! i) \<Longrightarrow> \<forall>(d, l) \<in> set (c_levels (derive_levels src cs ! i)). 1 \<le> l \<and> l \<le> MAX_TIER_LEVEL" and
    "c_model (derive_levels src cs ! i) = c_model (cs ! i)" and "c_healthy (derive_levels src cs ! i) = c_healthy (cs ! i)"
proof -
  let ?as = "fold (assign_domain src cs) (level_domains cs) (replicate (length cs) [])"
  have "distinct (level_domains cs)" by (simp add: level_domains_def fold_set_insert)
  then have A: "length ?as = length cs \<and> distinct (map fst (?as ! i)) \<and> fst ` set (?as ! i) = {d \<in> set (level_domains cs). in_domain (cs ! i) d} \<and>
      (levels_declared_ok (cs ! i) \<longrightarrow> (\<forall>(d, l) \<in> set (?as ! i). 1 \<le> l \<and> l \<le> MAX_TIER_LEVEL))"
    using assign_all [of "replicate (length cs) []" cs "level_domains cs" i src] assms by simp
  then have d: "length (derive_levels src cs) = length cs" "derive_levels src cs ! i = (cs ! i)\<lparr>c_levels := ?as ! i\<rparr>"
    using assms by (simp_all add: derive_levels_def Let_def)
  have "{d \<in> set (level_domains cs). in_domain (cs ! i) d} = {d. in_domain (cs ! i) d}" using domains_cover [of "cs ! i" cs] assms by auto
  then show "fst ` set (c_levels (derive_levels src cs ! i)) = {d. in_domain (cs ! i) d}" using A d by simp
  show "length (derive_levels src cs) = length cs" "distinct (map fst (c_levels (derive_levels src cs ! i)))"
    "levels_declared_ok (cs ! i) \<Longrightarrow> \<forall>(d, l) \<in> set (c_levels (derive_levels src cs ! i)). 1 \<le> l \<and> l \<le> MAX_TIER_LEVEL"
    "c_model (derive_levels src cs ! i) = c_model (cs ! i)" "c_healthy (derive_levels src cs ! i) = c_healthy (cs ! i)"
    using A d by simp_all
qed

lemma strength_bound:
  assumes "\<forall>(d, l) \<in> set (c_levels c). l \<le> n"
  shows "strength ds c \<le> n"
proof -
  let ?xs = "List.map_filter (\<lambda>d. map_of (c_levels c) d) ds"
  have b: "\<forall>x \<in> set ?xs. x \<le> n" using assms by (force simp: map_filter_def dest: map_of_SomeD)
  have "fold max xs a \<le> n" if "a \<le> n" "\<forall>x \<in> set xs. x \<le> n" for a xs using that by (induction xs arbitrary: a) auto
  from this [OF _ b, of 0] show ?thesis by (simp add: strength_def)
qed


section \<open>Sample requests\<close>

definition sample_model :: "string \<Rightarrow> f64 \<Rightarrow> resolved_model" where
  "sample_model name cost =
     \<lparr>rm_model_name = name,
      rm_lifecycle = \<lparr>lc_status = Active, lc_replacement = [], lc_retire_at = None, lc_changed_at = None, lc_note = [], lc_redirect = False\<rparr>,
      rm_model_type = ''chat'', rm_max_in_flight = Some 4, rm_enabled = True, rm_input_cost_per_token = cost,
      rm_output_cost_per_token = cost, rm_context_window = 1000, rm_supports_function_calling = False,
      rm_supports_response_schema = False, rm_supports_tool_choice = False, rm_supports_vision = False,
      rm_tags = [''code''], rm_declared_levels = [], rm_boons = [], rm_route_bias = 1, rm_auto_eligible = True\<rparr>"

definition sample_cands :: "candidate list" where
  "sample_cands = map (\<lambda>(n, cost, l). \<lparr>c_model = sample_model n cost, c_healthy = True, c_levels = [(''*'', l)]\<rparr>)
     [(''a'', 1, 1), (''b'', 2, 2)]"

definition sample_input :: route_input where
  "sample_input =
     \<lparr>ri_features = \<lparr>rf_est_input_tokens = 8, rf_max_tokens = 8, rf_needs_function_calling = False, rf_needs_tool_choice = False,
        rf_needs_response_schema = False, rf_needs_vision = False\<rparr>,
      ri_busyness = [], ri_expected_output = [], ri_allowed_models = Some [''a'', ''b''], ri_desired_tags = [],
      ri_grants = \<lparr>bg_structured_active = False, bg_vision_active = False\<rparr>,
      ri_weights = \<lparr>rw_capacity = 1, rw_cost = 1, rw_tag = 1, rw_soft_cap = 8, rw_temperature = 0, rw_difficulty_enabled = True\<rparr>,
      ri_uniform = 0, ri_now = 0, ri_exp = (\<lambda>x. 1)\<rparr>"

lemma select_only: "kept ri d cs = [c] \<Longrightarrow> select_model ri d cs = Some (c_model c)"
  using select_None [of ri d cs] select_Some [of ri d cs] kept_empty [of ri d cs] by (cases "select_model ri d cs") auto

lemma ordered_length: "length (ev_ordered (evaluate ri d n cs)) = length (kept ri d cs)"
  using arg_cong [OF ordered_cands [of ri d n cs], of size] by simp

lemmas sample_simps = sample_cands_def sample_model_def sample_input_def DEFAULT_MODEL_TYPE_def GENERAL_DOMAIN_def MAX_TIER_LEVEL_def

lemma sample_eligible: "c \<in> set sample_cands \<Longrightarrow> hard_reject sample_input c = None"
  by (auto simp: sample_simps hard_reject_def status_at_def required_context_def)

lemma sample_strength: "tier_domains sample_input n = [''*'']" "map (strength [''*'']) sample_cands = [1, 2]"
  by (simp_all add: sample_simps tier_domains_def strength_def map_filter_simps)

lemma sample_kept: "kept sample_input 1 sample_cands = sample_cands" "kept sample_input 2 sample_cands = [last sample_cands]"
proof -
  have e: "eligible sample_input sample_cands = sample_cands" by (simp add: eligible_def sample_eligible filter_id_conv)
  have b: "best_strength [''*''] sample_cands = 2" by (simp add: best_strength_def sample_strength)
  have w: "rw_difficulty_enabled (ri_weights sample_input)" by (simp add: sample_input_def)
  show "kept sample_input 1 sample_cands = sample_cands" "kept sample_input 2 sample_cands = [last sample_cands]"
    unfolding kept_def e tier_kept_def using w b sample_strength
    by (simp_all add: requested_level_def MAX_TIER_LEVEL_def) (simp_all add: sample_cands_def)
qed

lemma sample_picks: "select_model sample_input 2 sample_cands = Some (sample_model ''b'' 2)"
  using select_only [OF sample_kept(2)] by (simp add: sample_cands_def)

section \<open>Properties\<close>

text \<open>
  C6: \<open>auto\<close> picks a model that can serve. The model picked is one of the candidates, enabled, active, open to
  \<open>auto\<close>, healthy, a chat model, allowed to the tenant, with room for the request's context and every
  capability it needs, natively or by a boon that is on; and there is a pick whenever some candidate passes
  every filter.
\<close>

theorem auto_picks_a_fit_model:
  "(select_model ri d cs = None \<longleftrightarrow> (\<forall>c \<in> set cs. hard_reject ri c \<noteq> None)) \<and>
   (\<forall>m. select_model ri d cs = Some m \<longrightarrow>
      (\<exists>c \<in> set cs. c_model c = m \<and> rm_enabled m \<and> status_at (ri_now ri) (rm_lifecycle m) = Active \<and> rm_auto_eligible m \<and>
        c_healthy c \<and> rm_model_type m = DEFAULT_MODEL_TYPE \<and>
        (0 < rm_context_window m \<longrightarrow> required_context (ri_features ri) \<le> nat (rm_context_window m)) \<and>
        (rf_needs_function_calling (ri_features ri) \<longrightarrow> rm_supports_function_calling m) \<and>
        (rf_needs_tool_choice (ri_features ri) \<longrightarrow> rm_supports_tool_choice m) \<and>
        (rf_needs_response_schema (ri_features ri) \<longrightarrow>
           rm_supports_response_schema m \<or> via_boon (bg_structured_active (ri_grants ri)) ''structured_output'' c) \<and>
        (rf_needs_vision (ri_features ri) \<longrightarrow> rm_supports_vision m \<or> via_boon (bg_vision_active (ri_grants ri)) ''vision'' c) \<and>
        (\<forall>allowed. ri_allowed_models ri = Some allowed \<longrightarrow> rm_model_name m \<in> set allowed)))"
proof (intro conjI allI impI)
  show "select_model ri d cs = None \<longleftrightarrow> (\<forall>c \<in> set cs. hard_reject ri c \<noteq> None)"
    by (auto simp: select_None eligible_def filter_empty_conv)
  fix m assume "select_model ri d cs = Some m"
  then obtain c where c: "c \<in> set (kept ri d cs)" "c_model c = m" using select_Some by blast
  then have "c \<in> set cs" "hard_reject ri c = None" by (auto simp: kept_def tier_kept_def eligible_def split: if_splits)
  then show "\<exists>c \<in> set cs. c_model c = m \<and> rm_enabled m \<and> status_at (ri_now ri) (rm_lifecycle m) = Active \<and> rm_auto_eligible m \<and>
        c_healthy c \<and> rm_model_type m = DEFAULT_MODEL_TYPE \<and>
        (0 < rm_context_window m \<longrightarrow> required_context (ri_features ri) \<le> nat (rm_context_window m)) \<and>
        (rf_needs_function_calling (ri_features ri) \<longrightarrow> rm_supports_function_calling m) \<and>
        (rf_needs_tool_choice (ri_features ri) \<longrightarrow> rm_supports_tool_choice m) \<and>
        (rf_needs_response_schema (ri_features ri) \<longrightarrow>
           rm_supports_response_schema m \<or> via_boon (bg_structured_active (ri_grants ri)) ''structured_output'' c) \<and>
        (rf_needs_vision (ri_features ri) \<longrightarrow> rm_supports_vision m \<or> via_boon (bg_vision_active (ri_grants ri)) ''vision'' c) \<and>
        (\<forall>allowed. ri_allowed_models ri = Some allowed \<longrightarrow> rm_model_name m \<in> set allowed)"
    using c(2) by (intro bexI [of _ c]) (auto simp: hard_reject_def Let_def split: if_splits option.splits)
qed

theorem auto_picks_a_fit_model_witness:
  "\<exists>c \<in> set sample_cands. c_model c = sample_model ''b'' 2 \<and> c_healthy c \<and> rm_model_name (sample_model ''b'' 2) \<in> set [''a'', ''b'']"
proof -
  from auto_picks_a_fit_model [of sample_input 2 sample_cands] sample_picks obtain c where
    "c \<in> set sample_cands" "c_model c = sample_model ''b'' 2" "c_healthy c"
    "\<forall>allowed. ri_allowed_models sample_input = Some allowed \<longrightarrow> rm_model_name (sample_model ''b'' 2) \<in> set allowed" by blast
  then show ?thesis by (auto simp: sample_input_def)
qed

text \<open>
  C28: The difficulty floor. With tiering on, the model picked holds on the request's domains at least the lesser
  of the level the request asks for and the best level held by any candidate that passes the filters, so a hard
  request never falls to a weaker model than it must.
\<close>

theorem difficulty_floor_respected:
  assumes "select_model ri d cs = Some m" and "rw_difficulty_enabled (ri_weights ri)" and "c' \<in> set cs" and "hard_reject ri c' = None"
  shows "\<exists>c \<in> set cs. c_model c = m \<and>
    min (requested_level d) (strength (tier_domains ri False) c') \<le> strength (tier_domains ri False) c"
proof -
  obtain c where c: "c \<in> set (kept ri d cs)" "c_model c = m" using select_Some [OF assms(1)] by blast
  let ?D = "tier_domains ri False"
  have D: "tier_domains ri True = ?D" using tier_domains_on [OF assms(2), of False] by simp
  have "strength ?D c' \<le> best_strength ?D (eligible ri cs)"
    using assms(3,4) fold_max_ge [of "strength ?D c'" "map (strength ?D) (eligible ri cs)" 0] by (simp add: best_strength_def eligible_def)
  moreover have "min (requested_level d) (best_strength ?D (eligible ri cs)) \<le> strength ?D c" "c \<in> set cs"
    using c(1) assms(2) by (auto simp: kept_def tier_kept_def eligible_def D)
  ultimately show ?thesis using c(2) by (intro bexI [of _ c]) auto
qed

theorem difficulty_floor_respected_witness:
  "\<exists>c \<in> set sample_cands. c_model c = sample_model ''b'' 2 \<and> 2 \<le> strength [''*''] c"
proof -
  have m: "last sample_cands \<in> set sample_cands" "strength [''*''] (last sample_cands) = 2"
    by (simp_all add: sample_cands_def strength_def map_filter_simps)
  have "rw_difficulty_enabled (ri_weights sample_input)" by (simp add: sample_input_def)
  from difficulty_floor_respected [OF sample_picks this m(1) sample_eligible [OF m(1)]] show ?thesis
    by (simp add: sample_strength m(2) requested_level_def MAX_TIER_LEVEL_def numeral_2_eq_2)
qed

text \<open>
  The best score wins. At temperature zero the pick is the candidate with the highest score among those
  scored, the first by name among equals.
\<close>

theorem auto_picks_the_best:
  assumes "\<not> samples (ri_weights ri)" and "i < length (ev_ordered (evaluate ri d n cs))"
  shows "ev_chosen (evaluate ri d n cs) = Some 0 \<and>
    sr_score (ev_ordered (evaluate ri d n cs) ! i) \<le> sr_score (ev_ordered (evaluate ri d n cs) ! 0) \<and>
    (sr_score (ev_ordered (evaluate ri d n cs) ! i) = sr_score (ev_ordered (evaluate ri d n cs) ! 0) \<longrightarrow>
       c_name (sr_cand (ev_ordered (evaluate ri d n cs) ! 0)) \<le> c_name (sr_cand (ev_ordered (evaluate ri d n cs) ! i)))"
proof -
  let ?o = "ev_ordered (evaluate ri d n cs)" and ?f = "\<lambda>s. (- sr_score s, c_name (sr_cand s))"
  have "sorted (map ?f ?o)" by (simp add: evaluate_eq order_scored_def)
  then have "map ?f ?o ! 0 \<le> map ?f ?o ! i" using assms(2) by (intro sorted_nth_mono) auto
  moreover have "0 < length ?o" using assms(2) by linarith
  ultimately have "?f (?o ! 0) \<le> ?f (?o ! i)" using assms(2) by (simp only: nth_map)
  moreover have "ev_chosen (evaluate ri d n cs) = Some 0" using assms by (auto simp: evaluate_eq pick_index_def)
  ultimately show ?thesis by (auto simp: less_eq_prod_def)
qed

theorem auto_picks_the_best_witness:
  "ev_chosen (evaluate sample_input 1 False sample_cands) = Some 0 \<and>
   sr_score (ev_ordered (evaluate sample_input 1 False sample_cands) ! 1) \<le> sr_score (ev_ordered (evaluate sample_input 1 False sample_cands) ! 0)"
proof -
  have "\<not> samples (ri_weights sample_input)" "1 < length (ev_ordered (evaluate sample_input 1 False sample_cands))"
    unfolding ordered_length sample_kept(1) by (simp_all add: sample_input_def samples_def F64_EPSILON_def sample_cands_def)
  from auto_picks_the_best [OF this] show ?thesis by blast
qed

text \<open>
  C16: The explanation is of the decision taken. Serving with and without an explanation picks the same model, the
  explanation alone names it too, and marks exactly its row.
\<close>

theorem narration_cannot_move_the_verdict:
  "fst (route ri it cs) = select_model ri (it_difficulty it) cs \<and>
   snd (route ri it cs) = explain_selection ri it cs \<and>
   re_chosen (explain_selection ri it cs) = map_option rm_model_name (select_model ri (it_difficulty it) cs) \<and>
   map sd_model (filter sd_chosen (re_scored (explain_selection ri it cs))) =
     (case select_model ri (it_difficulty it) cs of None \<Rightarrow> [] | Some m \<Rightarrow> [rm_model_name m])"
proof -
  let ?ev = "evaluate ri (it_difficulty it) True cs"
  have s: "select_model ri (it_difficulty it) cs = picked ?ev" by (simp add: select_model_def picked_silent)
  have m: "filter (\<lambda>(i, s). ev_chosen ?ev = Some i) (enumerate 0 (ev_ordered ?ev)) =
      (case ev_chosen ?ev of None \<Rightarrow> [] | Some i \<Rightarrow> [(i, ev_ordered ?ev ! i)])"
  proof (cases "ev_chosen ?ev")
    case (Some i)
    have "filter (\<lambda>(j, s). ev_chosen ?ev = Some j) (enumerate 0 (ev_ordered ?ev)) = [(i, ev_ordered ?ev ! i)]"
      by (rule distinct_only) (use chosen_range [OF Some] Some in \<open>auto simp: in_set_enumerate_eq\<close>)
    then show ?thesis by (simp add: Some)
  qed simp
  have "map sd_model (filter sd_chosen (re_scored (narrate ri it ?ev))) =
      map (\<lambda>(i, s). c_name (sr_cand s)) (filter (\<lambda>(i, s). ev_chosen ?ev = Some i) (enumerate 0 (ev_ordered ?ev)))"
    by (simp add: narrate_def Let_def filter_map comp_def case_prod_beta')
  then show ?thesis
    unfolding m s by (auto simp: route_def explain_selection_def Let_def picked_def narrate_def split: option.splits)
qed

text \<open>
  C30: Every candidate is accounted for. In an explanation the models with a score and the models rejected are
  together the candidates, each as often as it is a candidate; a reason is listed at most once, in the order
  the filters apply, and a model is listed under the first filter it fails.
\<close>

theorem explanation_accounts_for_all:
  "mset (map c_name cs) =
     mset (map sd_model (re_scored (explain_selection ri it cs))) + mset (concat (map rj_models (re_rejected (explain_selection ri it cs)))) \<and>
   subseq (map rj_reason (re_rejected (explain_selection ri it cs))) REJECTION_REASONS \<and>
   (\<forall>j \<in> set (re_rejected (explain_selection ri it cs)). \<forall>name \<in> set (rj_models j).
      \<exists>c \<in> set cs. c_name c = name \<and>
        (hard_reject ri c = Some (rj_reason j) \<or> hard_reject ri c = None \<and> rj_reason j = ''below_tier_floor''))"
proof (intro conjI)
  let ?d = "it_difficulty it" let ?ev = "evaluate ri ?d True cs"
  let ?rj = "\<lambda>r. \<lparr>rj_reason = r, rj_models = map snd (filter (\<lambda>(r', _). r' = r) (all_rejections ri ?d cs))\<rparr>"
  have r: "re_rejected (explain_selection ri it cs) = filter (\<lambda>j. rj_models j \<noteq> []) (map ?rj REJECTION_REASONS)"
    by (simp add: explain_selection_def narrate_def Let_def explained_rejections)
  have numbered: "map (\<lambda>x. g (snd x)) (enumerate n xs) = map g xs" for g :: "scored_ref \<Rightarrow> string" and n xs
    by (induction xs arbitrary: n) auto
  have "map sd_model (re_scored (explain_selection ri it cs)) = map (c_name \<circ> sr_cand) (ev_ordered ?ev)"
    using numbered [of "\<lambda>s. c_name (sr_cand s)"] by (simp add: explain_selection_def narrate_def Let_def comp_def case_prod_beta')
  then have k: "mset (map sd_model (re_scored (explain_selection ri it cs))) = mset (map c_name (kept ri ?d cs))"
    using arg_cong [OF ordered_cands [of ri ?d True cs], of "image_mset c_name"] by (simp add: image_mset.compositionality)
  have S: "mset (concat (map (\<lambda>r. map snd (filter (\<lambda>(r', _). r' = r) (all_rejections ri ?d cs))) REJECTION_REASONS)) =
      mset (map snd (all_rejections ri ?d cs))"
    by (rule sum_over_reasons) (use all_rejections_declared in blast, rule reasons_distinct)
  have "concat (map rj_models (filter (\<lambda>j. rj_models j \<noteq> []) js)) = concat (map rj_models js)" for js :: "rejection list"
    by (induction js) auto
  then have c: "concat (map rj_models (re_rejected (explain_selection ri it cs))) =
      concat (map (\<lambda>r. map snd (filter (\<lambda>(r', _). r' = r) (all_rejections ri ?d cs))) REJECTION_REASONS)"
    unfolding r by (simp add: comp_def)
  show "mset (map c_name cs) =
     mset (map sd_model (re_scored (explain_selection ri it cs))) + mset (concat (map rj_models (re_rejected (explain_selection ri it cs))))"
    unfolding c S k by (rule accounted)
  have "map rj_reason (map ?rj REJECTION_REASONS) = REJECTION_REASONS" by (simp add: comp_def)
  then show "subseq (map rj_reason (re_rejected (explain_selection ri it cs))) REJECTION_REASONS"
    using subseq_map [OF subseq_filter_left [of "\<lambda>j. rj_models j \<noteq> []" "map ?rj REJECTION_REASONS"], of rj_reason] unfolding r by simp
  show "\<forall>j \<in> set (re_rejected (explain_selection ri it cs)). \<forall>name \<in> set (rj_models j).
      \<exists>c \<in> set cs. c_name c = name \<and>
        (hard_reject ri c = Some (rj_reason j) \<or> hard_reject ri c = None \<and> rj_reason j = ''below_tier_floor'')"
  proof (intro ballI)
    fix j name assume "j \<in> set (re_rejected (explain_selection ri it cs))" and n: "name \<in> set (rj_models j)"
    then obtain r where "j = ?rj r" unfolding r by auto
    then have "(rj_reason j, name) \<in> set (all_rejections ri ?d cs)" using n by auto
    from all_rejections_from [OF this] show "\<exists>c \<in> set cs. c_name c = name \<and>
        (hard_reject ri c = Some (rj_reason j) \<or> hard_reject ri c = None \<and> rj_reason j = ''below_tier_floor'')" .
  qed
qed

theorem explanation_accounts_for_all_witness:
  "mset [''a'', ''b''] =
     mset (map sd_model (re_scored (explain_selection sample_input \<lparr>it_tags = [], it_difficulty = 2, it_source = Heuristic\<rparr> sample_cands))) +
     mset (concat (map rj_models (re_rejected (explain_selection sample_input \<lparr>it_tags = [], it_difficulty = 2, it_source = Heuristic\<rparr> sample_cands))))"
  using explanation_accounts_for_all [of sample_cands sample_input "\<lparr>it_tags = [], it_difficulty = 2, it_source = Heuristic\<rparr>"]
  by (simp add: sample_cands_def sample_model_def)

text \<open>
  C31: Levels. After a refresh every chat candidate holds exactly one level on the general domain and on each of
  its tags, every other candidate none; where the declared levels are in range, so is every level, and no
  strength exceeds the top level. Models and health are untouched.
\<close>

theorem levels_cover_domains:
  assumes "i < length cs"
  shows "distinct (map fst (c_levels (derive_levels src cs ! i))) \<and>
    fst ` set (c_levels (derive_levels src cs ! i)) =
      (if chat (cs ! i) then insert GENERAL_DOMAIN (set (rm_tags (c_model (cs ! i)))) else {}) \<and>
    (levels_declared_ok (cs ! i) \<longrightarrow>
       (\<forall>(d, l) \<in> set (c_levels (derive_levels src cs ! i)). 1 \<le> l \<and> l \<le> MAX_TIER_LEVEL) \<and>
       (\<forall>ds. strength ds (derive_levels src cs ! i) \<le> MAX_TIER_LEVEL)) \<and>
    c_model (derive_levels src cs ! i) = c_model (cs ! i) \<and> c_healthy (derive_levels src cs ! i) = c_healthy (cs ! i)"
proof -
  note R = derive_levels_reads [OF assms, of src]
  have "{d. in_domain (cs ! i) d} = (if chat (cs ! i) then insert GENERAL_DOMAIN (set (rm_tags (c_model (cs ! i)))) else {})"
    by (auto simp: in_domain_def)
  moreover have "strength ds (derive_levels src cs ! i) \<le> MAX_TIER_LEVEL" if "levels_declared_ok (cs ! i)" for ds
    using R(4) [OF that] by (intro strength_bound) auto
  ultimately show ?thesis using R(2-6) by simp
qed

theorem levels_cover_domains_witness:
  "fst ` set (c_levels (derive_levels Hybrid sample_cands ! 0)) = {''*'', ''code''}"
proof -
  have "0 < length sample_cands" by code_simp
  from levels_cover_domains [OF this, of Hybrid] show ?thesis
    by (simp add: chat_def sample_cands_def sample_model_def DEFAULT_MODEL_TYPE_def GENERAL_DOMAIN_def)
qed

end
