(* ===== verification/Intents.thy ===== *)
theory Intents
  imports Routing
begin

text \<open>
  What an \<open>auto\<close> request asks for (\<open>obleth-config/src/routing/mod.rs\<close>): the effort header, the heuristics over
  the message text, and the prompts of the classifier, newest user turn first. A \<open>String\<close> is the list of its
  UTF-8 bytes; a character boundary is a byte that does not continue a character.
\<close>

section \<open>Header and heuristics\<close>

definition intent_default :: intent where
  "intent_default = \<lparr>it_tags = [], it_difficulty = 1, it_source = DefaultSource\<rparr>"

definition difficulty_from_header :: "string option \<Rightarrow> nat option" where
  "difficulty_from_header raw =
     (case raw of
        None \<Rightarrow> None
      | Some h \<Rightarrow>
          (let v = to_ascii_lowercase (trim h)
           in if v = ''low'' then Some 1 else if v = ''medium'' then Some 2 else if v = ''high'' then Some 3 else None))"

text \<open>The text of a message, with whether it has an image, added to what was read before.\<close>

definition scan_part :: "json \<Rightarrow> string \<times> bool \<Rightarrow> string \<times> bool" where
  "scan_part part x =
     (case x of (txt, img) \<Rightarrow>
        if part_type part = Some ''image_url'' then (txt, True)
        else (case Option.bind (jget ''text'' part) as_str of
                Some t \<Rightarrow> (txt @ t @ [CHR 0x0A], img)
              | None \<Rightarrow> (txt, img)))"

definition scan_message :: "json \<Rightarrow> string \<times> bool \<Rightarrow> string \<times> bool" where
  "scan_message msg x =
     (case jget ''content'' msg of
        Some (JString s) \<Rightarrow> (fst x @ s @ [CHR 0x0A], snd x)
      | Some (JArray parts) \<Rightarrow> fold scan_part parts x
      | _ \<Rightarrow> x)"

definition scan_messages :: "json \<Rightarrow> string \<times> bool" where
  "scan_messages body =
     (case Option.bind (jget ''messages'' body) as_array of None \<Rightarrow> ([], False) | Some ms \<Rightarrow> fold scan_message ms ([], False))"

definition contains_any :: "string list \<Rightarrow> string \<Rightarrow> bool" where
  "contains_any ks s \<longleftrightarrow> (\<exists>k \<in> set ks. contains_text k s)"

definition code_signal :: "string \<Rightarrow> string \<Rightarrow> bool" where
  "code_signal txt lower \<longleftrightarrow>
     contains_text [CHR 0x60, CHR 0x60, CHR 0x60] txt \<or>
     contains_any [''function '', ''def '', ''class '', ''import '', ''select '', ''public '', ''const '', ''=> ''] lower \<or>
     contains_any [''code'', ''compile'', ''stack trace'', ''bug'', ''python'', ''javascript'', ''typescript'', ''rust'', ''java'',
       ''sql'', ''regex''] lower"

definition writing_signal :: "string \<Rightarrow> bool" where
  "writing_signal lower \<longleftrightarrow>
     contains_any [''short story'', ''poem'', ''sonnet'', ''essay'', ''cover letter'', ''personal statement'', ''an email'',
       ''email to'', ''a letter'', ''blog post'', ''newsletter'', ''press release'', ''linkedin post'', ''rewrite'', ''rephrase'',
       ''reword'', ''proofread'', ''tighten this'', ''polish this'', ''edit this'', ''fix the grammar'', ''more diplomatic'',
       ''more professional''] lower"

text \<open>The operators looked for beside an equals sign: \<open>+ - * / ^\<close> and the integral, root and sum signs.\<close>

definition math_signal :: "string \<Rightarrow> bool" where
  "math_signal lower \<longleftrightarrow>
     contains_any [''solve'', ''equation'', ''integral'', ''derivative'', ''theorem'', ''calculate'', ''probability'', ''algebra'',
       ''calculus'', ''matrix''] lower \<or>
     contains_text ''='' lower \<and>
     contains_any [''+'', ''-'', ''*'', ''/'', ''^'', [CHR 0xE2, CHR 0x88, CHR 0xAB], [CHR 0xE2, CHR 0x88, CHR 0x9A],
       [CHR 0xE2, CHR 0x88, CHR 0x91]] lower"

definition heuristic_tags :: "string \<Rightarrow> bool \<Rightarrow> nat \<Rightarrow> string list" where
  "heuristic_tags txt has_image est_input_tokens =
     (let lower = to_ascii_lowercase txt;
          code = code_signal txt lower
      in (if has_image then [''vision''] else []) @
         (if code then [''coding''] else []) @
         (if \<not> code \<and> writing_signal lower then [''writing''] else []) @
         (if math_signal lower then [''math''] else []) @
         (if 32000 < est_input_tokens then [''long-context''] else []))"

definition heuristic_difficulty :: "string \<Rightarrow> nat \<Rightarrow> nat" where
  "heuristic_difficulty txt est_input_tokens =
     (let lower = to_ascii_lowercase txt;
          d = (if contains_any [''stack backtrace'', ''traceback (most recent call last)'', ''panicked at'', ''segmentation fault''] lower
               then 3 else 1);
          d = (if contains_any [''why does'', ''race condition'', ''deadlock'', ''optimize'', ''refactor'', ''prove'', ''derive'',
                 ''explain why'', ''trade-off'', ''root cause''] lower then max d 2 else d);
          d = (if 32000 < est_input_tokens then max d 2 else d)
      in if 8000 < length txt then max d 2 else d)"

definition heuristic_intent :: "json \<Rightarrow> nat \<Rightarrow> intent" where
  "heuristic_intent body est_input_tokens =
     (let (txt, has_image) = scan_messages body
      in \<lparr>it_tags = heuristic_tags txt has_image est_input_tokens,
          it_difficulty = heuristic_difficulty txt est_input_tokens, it_source = Heuristic\<rparr>)"

section \<open>Classifier prompts\<close>

definition CLASSIFIER_PROMPT_MAX_BYTES :: nat where "CLASSIFIER_PROMPT_MAX_BYTES = 2000"

definition CLASSIFIER_LOOKBACK_TURNS :: nat where "CLASSIFIER_LOOKBACK_TURNS = 3"

definition GENERAL_TAG :: string where "GENERAL_TAG = ''general''"

definition is_char_boundary :: "string \<Rightarrow> nat \<Rightarrow> bool" where
  "is_char_boundary s i \<longleftrightarrow>
     i = 0 \<or> i = length s \<or> i < length s \<and> \<not> (0x80 \<le> (of_char (s ! i) :: nat) \<and> (of_char (s ! i) :: nat) < 0xC0)"

fun boundary_before :: "string \<Rightarrow> nat \<Rightarrow> nat" where
  "boundary_before s 0 = 0"
| "boundary_before s (Suc e) = (if is_char_boundary s (Suc e) then Suc e else boundary_before s e)"

definition head_bytes :: "string \<Rightarrow> nat \<Rightarrow> string" where
  "head_bytes s mx = (if length s \<le> mx then s else take (boundary_before s mx) s)"

definition classifier_message_text :: "json option \<Rightarrow> string" where
  "classifier_message_text content =
     (case content of
        Some (JString s) \<Rightarrow> s
      | Some (JArray parts) \<Rightarrow> join [CHR 0x0A] (List.map_filter (\<lambda>p. Option.bind (jget ''text'' p) as_str) parts)
      | _ \<Rightarrow> [])"

definition role :: "json \<Rightarrow> string" where
  "role msg = (case Option.bind (jget ''role'' msg) as_str of None \<Rightarrow> [] | Some r \<Rightarrow> r)"

fun leading_system :: "json list \<Rightarrow> string list" where
  "leading_system [] = []"
| "leading_system (msg # msgs) =
     (if role msg = ''user'' then []
      else if role msg = ''system'' then
        (let t = classifier_message_text (jget ''content'' msg)
         in (if trim t \<noteq> [] then [t] else []) @ leading_system msgs)
      else leading_system msgs)"

definition classifier_prompt :: "string \<Rightarrow> string \<Rightarrow> string" where
  "classifier_prompt system t =
     (let user = head_bytes (trim t) CLASSIFIER_PROMPT_MAX_BYTES;
          room = CLASSIFIER_PROMPT_MAX_BYTES - (length user + 1);
          sys = trim_end (head_bytes system room)
      in if sys = [] then user else sys @ [CHR 0x0A] @ user)"

definition classifier_prompts :: "json \<Rightarrow> string list" where
  "classifier_prompts body =
     (case Option.bind (jget ''messages'' body) as_array of
        None \<Rightarrow> []
      | Some messages \<Rightarrow>
          (let system = trim (join [CHR 0x0A] (leading_system messages));
               texts = map (\<lambda>msg. classifier_message_text (jget ''content'' msg)) (filter (\<lambda>msg. role msg = ''user'') (rev messages))
           in map (classifier_prompt system) (take CLASSIFIER_LOOKBACK_TURNS (filter (\<lambda>t. trim t \<noteq> []) texts))))"

text \<open>\<open>classify\<close> is the answer of the classifier to the call with a number.\<close>

fun classify_from :: "(nat \<Rightarrow> string \<Rightarrow> intent) \<Rightarrow> nat \<Rightarrow> intent option \<Rightarrow> string list \<Rightarrow> intent option" where
  "classify_from classify n newest [] = newest"
| "classify_from classify n newest (prompt # prompts) =
     (let it = classify n prompt
      in if it_tags it = [] then newest
         else if \<exists>t \<in> set (it_tags it). t \<noteq> GENERAL_TAG then Some it
         else classify_from classify (n + 1) (case newest of None \<Rightarrow> Some it | Some x \<Rightarrow> Some x) prompts)"

definition classify_turns :: "(nat \<Rightarrow> string \<Rightarrow> intent) \<Rightarrow> string list \<Rightarrow> intent option" where
  "classify_turns classify prompts = classify_from classify 0 None prompts"

section \<open>The intent of a request\<close>

definition union_candidate_tags :: "string list option \<Rightarrow> candidate list \<Rightarrow> string list" where
  "union_candidate_tags allowed cs =
     fold set_insert
       (concat (map (rm_tags \<circ> c_model)
          (filter (\<lambda>c. case allowed of None \<Rightarrow> True | Some names \<Rightarrow> c_name c \<in> set names) cs))) []"

definition classifier_active :: "auto_router_settings \<Rightarrow> bool" where
  "classifier_active st \<longleftrightarrow> ar_classifier_enabled st \<and> (case ar_classifier_model st of None \<Rightarrow> False | Some m \<Rightarrow> trim m \<noteq> [])"

definition force_difficulty :: "nat option \<Rightarrow> intent \<Rightarrow> intent" where
  "force_difficulty forced it =
     (case forced of None \<Rightarrow> it | Some d \<Rightarrow> it\<lparr>it_difficulty := d, it_source := Header\<rparr>)"

text \<open>
  \<open>resolve\<close> looks a registered model up by name, \<open>classify\<close> is the classifier's answer for a model, the number of
  the call, a prompt and the tags on offer.
\<close>

definition derive_intent ::
  "(string \<Rightarrow> 'b option) \<Rightarrow> ('b \<Rightarrow> string list \<Rightarrow> nat \<Rightarrow> string \<Rightarrow> intent) \<Rightarrow> json \<Rightarrow> nat \<Rightarrow> string list \<Rightarrow>
     auto_router_settings \<Rightarrow> string option \<Rightarrow> bool \<Rightarrow> intent" where
  "derive_intent resolve classify body est_input_tokens available_tags st effort_header skip_classifier =
     (let forced = difficulty_from_header effort_header;
          classified =
            (if \<not> skip_classifier \<and> classifier_active st \<and> available_tags \<noteq> [] then
               (case ar_classifier_model st of
                  None \<Rightarrow> None
                | Some name \<Rightarrow>
                    if name \<noteq> AUTO_MODEL_NAME then
                      (case resolve name of
                         None \<Rightarrow> None
                       | Some brain \<Rightarrow> classify_turns (classify brain available_tags) (classifier_prompts body))
                    else None)
             else None)
      in force_difficulty forced (case classified of Some it \<Rightarrow> it | None \<Rightarrow> heuristic_intent body est_input_tokens))"

end
