(* ===== verification/Sticky.thy ===== *)
theory Sticky
  imports Intents
begin

text \<open>
  Conversations that stay with a model (\<open>obleth-config/src/routing/sticky.rs\<close>, \<open>obleth-proxy/src/sticky.rs\<close> and the
  \<open>auto\<close> branch of \<open>proxy.rs\<close>): the evidence a request shows, the decision, the narrowed pool, the record of a
  served turn, and how the next request finds it. SHA-256 and \<open>serde_json\<close> are the fields of \<open>sticky_env\<close>;
  \<open>u8\<close> counters are natural numbers with their saturation written out.
\<close>

record sticky_env =
  se_sha256_hex :: "string \<Rightarrow> string"
  se_parse :: "string \<Rightarrow> json option"
  se_print :: "json \<Rightarrow> string"

section \<open>Records\<close>

record turn_record =
  tr_model :: string
  tr_domains :: "string list"
  tr_rung :: nat
  tr_strikes :: nat
  tr_bad_output :: bool

record standing =
  st_domain :: string
  st_model :: string
  st_rung :: nat

record session_record =
  ss_last :: "turn_record option"
  ss_topics :: "standing list"

definition session_record_default :: session_record where
  "session_record_default = \<lparr>ss_last = None, ss_topics = []\<rparr>"

definition MAX_TOPICS :: nat where "MAX_TOPICS = 16"

definition STRIKES_TO_ESCALATE :: nat where "STRIKES_TO_ESCALATE = 2"

definition TOOL_LOOP_REPEATS :: nat where "TOOL_LOOP_REPEATS = 3"

definition FINGERPRINT_MAX_BYTES :: nat where "FINGERPRINT_MAX_BYTES = 4096"

definition standing_for :: "string list \<Rightarrow> session_record \<Rightarrow> standing option" where
  "standing_for domains s =
     find (\<lambda>x. st_domain x \<noteq> GENERAL_DOMAIN \<and> st_domain x \<noteq> GENERAL_TAG \<and> st_domain x \<in> set domains) (rev (ss_topics s))"

definition remember_domain :: "turn_record \<Rightarrow> string \<Rightarrow> standing list \<Rightarrow> standing list" where
  "remember_domain r domain topics =
     filter (\<lambda>x. st_domain x \<noteq> domain) topics @ [\<lparr>st_domain = domain, st_model = tr_model r, st_rung = tr_rung r\<rparr>]"

definition remember :: "turn_record \<Rightarrow> session_record \<Rightarrow> session_record" where
  "remember r s =
     (let topics = fold (remember_domain r) (tr_domains r) (ss_topics s)
      in s\<lparr>ss_topics := drop (length topics - MAX_TOPICS) topics, ss_last := Some r\<rparr>)"

definition session_key :: "sticky_env \<Rightarrow> string \<Rightarrow> string" where
  "session_key se session_id = ''s:'' @ se_sha256_hex se session_id"

section \<open>Decisions\<close>

datatype signal = Regenerate | Complaint | BadOutput | ToolLoop | ToolErrors

record observed =
  ob_regenerate :: bool
  ob_complaint :: bool
  ob_tool_loop :: bool
  ob_tool_turn :: bool
  ob_tool_errors :: bool

datatype decision = DKeep | DEscalate signal | DHarder | DTopic

record sticky_plan =
  sp_decision :: decision
  sp_floor :: nat
  sp_domains :: "string list"
  sp_strikes :: nat

datatype reason = Fresh | Kept | Escalated signal | Harder | Topic | Returned | Forced

definition reason_as_str :: "reason \<Rightarrow> string" where
  "reason_as_str r =
     (case r of
        Fresh \<Rightarrow> ''fresh'' | Kept \<Rightarrow> ''kept'' | Escalated Regenerate \<Rightarrow> ''escalated:regenerate''
      | Escalated Complaint \<Rightarrow> ''escalated:complaint'' | Escalated BadOutput \<Rightarrow> ''escalated:bad_output''
      | Escalated ToolLoop \<Rightarrow> ''escalated:tool_loop'' | Escalated ToolErrors \<Rightarrow> ''escalated:tool_errors''
      | Harder \<Rightarrow> ''harder'' | Topic \<Rightarrow> ''topic'' | Returned \<Rightarrow> ''returned'' | Forced \<Rightarrow> ''forced'')"

definition domains_of :: "string list \<Rightarrow> string list" where
  "domains_of tags = (if tags = [] then [GENERAL_DOMAIN] else tags)"

definition topic_changed :: "turn_record \<Rightarrow> intent \<Rightarrow> observed \<Rightarrow> bool" where
  "topic_changed r it ob \<longleftrightarrow>
     (let specific = filter (\<lambda>t. t \<noteq> GENERAL_TAG) (it_tags it)
      in \<not> ob_tool_turn ob \<and> specific \<noteq> [] \<and> \<not> (\<exists>t \<in> set specific. t \<in> set (tr_domains r)))"

definition next_strikes :: "turn_record \<Rightarrow> observed \<Rightarrow> nat" where
  "next_strikes r ob = (if ob_tool_errors ob then min (tr_strikes r + 1) 255 else 0)"

definition signal_of :: "turn_record \<Rightarrow> observed \<Rightarrow> signal option" where
  "signal_of r ob =
     (if ob_regenerate ob then Some Regenerate
      else if ob_complaint ob then Some Complaint
      else if tr_bad_output r then Some BadOutput
      else if ob_tool_loop ob then Some ToolLoop
      else if STRIKES_TO_ESCALATE \<le> next_strikes r ob then Some ToolErrors
      else None)"

definition decide :: "turn_record \<Rightarrow> intent \<Rightarrow> observed \<Rightarrow> sticky_plan" where
  "decide r it ob =
     (let domains = (if topic_changed r it ob then domains_of (it_tags it) else tr_domains r);
          strikes = next_strikes r ob
      in case signal_of r ob of
           Some s \<Rightarrow> \<lparr>sp_decision = DEscalate s, sp_floor = min (min (tr_rung r + 1) 255) MAX_TIER_LEVEL, sp_domains = domains, sp_strikes = 0\<rparr>
         | None \<Rightarrow>
             if topic_changed r it ob then
               \<lparr>sp_decision = DTopic, sp_floor = min (max (tr_rung r) (it_difficulty it)) MAX_TIER_LEVEL, sp_domains = domains, sp_strikes = strikes\<rparr>
             else if tr_rung r < it_difficulty it then
               \<lparr>sp_decision = DHarder, sp_floor = min (it_difficulty it) MAX_TIER_LEVEL, sp_domains = domains, sp_strikes = strikes\<rparr>
             else \<lparr>sp_decision = DKeep, sp_floor = tr_rung r, sp_domains = domains, sp_strikes = strikes\<rparr>)"

definition floor_pool :: "string list \<Rightarrow> nat \<Rightarrow> string option \<Rightarrow> candidate list \<Rightarrow> candidate list" where
  "floor_pool domains level exclude cs =
     filter (\<lambda>c. level \<le> strength domains c) (filter (\<lambda>c. Some (c_name c) \<noteq> exclude) cs)"

section \<open>Reading the request\<close>

definition messages :: "json \<Rightarrow> json list" where
  "messages body = (case Option.bind (jget ''messages'' body) as_array of None \<Rightarrow> [] | Some ms \<Rightarrow> ms)"

fun last_assistant :: "json list \<Rightarrow> nat option" where
  "last_assistant [] = None"
| "last_assistant (m # ms) =
     (case last_assistant ms of Some i \<Rightarrow> Some (i + 1) | None \<Rightarrow> if role m = ''assistant'' then Some 0 else None)"

definition message_text :: "json \<Rightarrow> string" where
  "message_text m = classifier_message_text (jget ''content'' m)"

definition user_before :: "json list \<Rightarrow> nat \<Rightarrow> string" where
  "user_before ms e = (case find (\<lambda>m. role m = ''user'') (rev (take e ms)) of None \<Rightarrow> [] | Some m \<Rightarrow> message_text m)"

definition newest_user_text :: "json \<Rightarrow> string" where
  "newest_user_text body = (case find (\<lambda>m. role m = ''user'') (rev (messages body)) of None \<Rightarrow> [] | Some m \<Rightarrow> message_text m)"

definition user_spoke_last :: "json \<Rightarrow> bool" where
  "user_spoke_last body =
     (case find (\<lambda>m. role m \<in> {''user'', ''assistant'', ''tool''}) (rev (messages body)) of None \<Rightarrow> False | Some m \<Rightarrow> role m = ''user'')"

definition tool_calls :: "json \<Rightarrow> json list" where
  "tool_calls m = (case Option.bind (jget ''tool_calls'' m) as_array of None \<Rightarrow> [] | Some cs \<Rightarrow> cs)"

definition str_or_empty :: "json option \<Rightarrow> string" where
  "str_or_empty v = (case Option.bind v as_str of None \<Rightarrow> [] | Some s \<Rightarrow> s)"

definition call_signature :: "sticky_env \<Rightarrow> json \<Rightarrow> string" where
  "call_signature se call =
     (let args = str_or_empty (jget2 ''function'' ''arguments'' call)
      in str_or_empty (jget2 ''function'' ''name'' call) @ [CHR 0x00] @
         (case se_parse se args of Some v \<Rightarrow> se_print se v | None \<Rightarrow> trim args))"

definition tool_loop :: "sticky_env \<Rightarrow> json list \<Rightarrow> bool" where
  "tool_loop se ms =
     (let recent = map (\<lambda>m. sort (map (call_signature se) (tool_calls m)))
                     (take TOOL_LOOP_REPEATS (filter (\<lambda>m. role m = ''assistant'') (rev ms)))
      in length recent = TOOL_LOOP_REPEATS \<and> recent ! 0 \<noteq> [] \<and> (\<forall>calls \<in> set recent. calls = recent ! 0))"

text \<open>The text after each occurrence of a pattern, occurrences taken from the left without overlap.\<close>

function rests_after :: "string \<Rightarrow> string \<Rightarrow> string list" where
  "rests_after pat s =
     (if pat = [] \<or> s = [] then []
      else if prefix pat s then drop (length pat) s # rests_after pat (drop (length pat) s)
      else rests_after pat (tl s))"
  by pat_completeness auto
termination
  by (relation "measure (\<lambda>(pat, s). length s)") auto

declare rests_after.simps [simp del]

definition nonzero_after :: "string \<Rightarrow> string \<Rightarrow> bool" where
  "nonzero_after txt pat \<longleftrightarrow>
     (\<exists>rest \<in> set (rests_after pat txt).
        let digits = takeWhile (\<lambda>c. digit_value c \<noteq> None) (dropWhile (\<lambda>c. c \<in> {CHR '' '', CHR '':'', CHR ''=''}) rest)
        in digits \<noteq> [] \<and> (\<exists>c \<in> set digits. c \<noteq> CHR ''0''))"

definition tool_error :: "string \<Rightarrow> bool" where
  "tool_error result \<longleftrightarrow>
     contains_any [''Traceback (most recent call last)'', ''panicked at'', ''command not found'', ''npm ERR!'', ''error[E'',
       ''SyntaxError:'', ''TypeError:'', ''NameError:'', ''ModuleNotFoundError:'', ''ImportError:'', ''Segmentation fault'',
       ''FAILED'', ''Test failed'', ''tests failed'', ''BUILD FAILURE''] result \<or>
     (\<exists>p \<in> set [''exit code'', ''exit status'', ''exited with code'', ''exitcode'']. nonzero_after (to_ascii_lowercase result) p)"

definition observe_request :: "sticky_env \<Rightarrow> json \<Rightarrow> bool \<Rightarrow> observed" where
  "observe_request se body seen =
     (let ms = messages body;
          tail = (case last_assistant ms of Some i \<Rightarrow> drop (i + 1) ms | None \<Rightarrow> ms);
          results = map message_text (filter (\<lambda>m. role m = ''tool'') tail)
      in \<lparr>ob_regenerate = seen, ob_complaint = False, ob_tool_loop = tool_loop se ms, ob_tool_turn = (results \<noteq> []),
          ob_tool_errors = (\<exists>r \<in> set results. tool_error r)\<rparr>)"

section \<open>Fingerprints\<close>

fun find_text :: "string \<Rightarrow> string \<Rightarrow> nat option" where
  "find_text pat [] = (if pat = [] then Some 0 else None)"
| "find_text pat (c # s) = (if prefix pat (c # s) then Some 0 else map_option Suc (find_text pat s))"

lemma find_text_Some: "find_text pat s = Some i \<Longrightarrow> i + length pat \<le> length s \<and> prefix pat (drop i s)"
proof (induction s arbitrary: i)
  case (Cons c s)
  then show ?case by (auto simp: prefix_length_le split: if_splits dest: prefix_length_le)
qed (auto split: if_splits)

lemma find_text_less: "find_text pat s = Some i \<Longrightarrow> pat \<noteq> [] \<Longrightarrow> i < length s"
  using find_text_Some [of pat s i] by (cases pat) auto

function strip_blocks :: "string \<Rightarrow> string \<Rightarrow> string \<Rightarrow> string" where
  "strip_blocks op cl s =
     (if op = [] \<or> length cl \<le> 1 then s
      else case find_text op s of
             None \<Rightarrow> s
           | Some start \<Rightarrow>
               (case find_text cl (drop start s) of
                  Some n \<Rightarrow> strip_blocks op cl (take start s @ '' '' @ drop (start + n + length cl) s)
                | None \<Rightarrow> strip_blocks op cl (take start s)))"
  by pat_completeness auto
termination
  by (relation "measure (\<lambda>(op, cl, s). length s)") (auto dest: find_text_less dest!: find_text_Some [of "_" "drop _ _"])

declare strip_blocks.simps [simp del]

function split_ws :: "string \<Rightarrow> string \<Rightarrow> string list" where
  "split_ws acc s =
     (case s of
        [] \<Rightarrow> (if acc = [] then [] else [acc])
      | c # t \<Rightarrow>
          (case find (\<lambda>w. w \<noteq> [] \<and> prefix w s) white_space of
             Some w \<Rightarrow> (if acc = [] then [] else [acc]) @ split_ws [] (drop (length w) s)
           | None \<Rightarrow> split_ws (acc @ [c]) t))"
  by pat_completeness auto
termination
  by (relation "measure (\<lambda>(acc, s). length s)") (auto simp: find_Some_iff)

declare split_ws.simps [simp del]

definition normalize :: "string \<Rightarrow> string" where
  "normalize txt =
     (let txt = strip_blocks ''<think>'' ''</think>'' txt;
          txt = strip_blocks ''<details'' ''</details>'' txt
      in head_bytes (join '' '' (split_ws [] txt)) FINGERPRINT_MAX_BYTES)"

definition turn_key :: "sticky_env \<Rightarrow> string \<Rightarrow> json \<Rightarrow> string" where
  "turn_key se user assistant =
     se_sha256_hex se
       (normalize user @ [CHR 0x00] @ normalize (message_text assistant) @
        concat (map (\<lambda>call. [CHR 0x00] @
          (case Option.bind (jget ''id'' call) as_str of
             Some i \<Rightarrow> if i \<noteq> [] then i else call_signature se call
           | None \<Rightarrow> call_signature se call)) (tool_calls assistant)))"

definition incumbent_key :: "sticky_env \<Rightarrow> json \<Rightarrow> string option" where
  "incumbent_key se body =
     (let ms = messages body
      in map_option (\<lambda>i. turn_key se (user_before ms i) (ms ! i)) (last_assistant ms))"

definition answer_key :: "sticky_env \<Rightarrow> json \<Rightarrow> json \<Rightarrow> string" where
  "answer_key se body answer = (let ms = messages body in turn_key se (user_before ms (length ms)) answer)"

definition retry_key :: "sticky_env \<Rightarrow> json \<Rightarrow> string option" where
  "retry_key se body =
     (let ms = messages body
      in map_option (\<lambda>i.
           se_sha256_hex se
             (turn_key se (user_before ms i) (ms ! i) @
              concat (map (\<lambda>m. [CHR 0x00] @ role m @ [CHR 0x00] @ normalize (message_text m) @
                str_or_empty (jget ''tool_call_id'' m)) (drop (i + 1) ms)))) (last_assistant ms))"

definition first_choice_message :: "json \<Rightarrow> json option" where
  "first_choice_message completion =
     Option.bind
       (case jget ''choices'' completion of
          Some (JArray (c # _)) \<Rightarrow> Some c
        | Some (JObject m) \<Rightarrow> map_of m ''0''
        | _ \<Rightarrow> None) (jget ''message'')"

definition bad_output :: "sticky_env \<Rightarrow> json \<Rightarrow> bool" where
  "bad_output se completion =
     (case first_choice_message completion of
        None \<Rightarrow> False
      | Some m \<Rightarrow>
          if tool_calls m = [] then normalize (message_text m) = []
          else (\<exists>c \<in> set (tool_calls m).
                  let args = str_or_empty (jget2 ''function'' ''arguments'' c)
                  in trim args \<noteq> [] \<and> se_parse se args = None))"

section \<open>Choosing the pool of a turn\<close>

record choice =
  ch_pool :: "candidate list option"
  ch_reason :: reason
  ch_floor :: nat
  ch_domains :: "string list"
  ch_strikes :: nat

definition plan_choice :: "sticky_plan \<Rightarrow> candidate list option \<Rightarrow> reason \<Rightarrow> choice" where
  "plan_choice p pool r =
     \<lparr>ch_pool = pool, ch_reason = r, ch_floor = sp_floor p, ch_domains = sp_domains p, ch_strikes = sp_strikes p\<rparr>"

text \<open>The model a conversation used for the topic it returns to, when it is still strong enough for the turn.\<close>

definition returning :: "candidate list \<Rightarrow> session_record option \<Rightarrow> intent \<Rightarrow> sticky_plan \<Rightarrow> (candidate \<times> nat) option" where
  "returning cs session it p =
     (case Option.bind session (standing_for (sp_domains p)) of
        None \<Rightarrow> None
      | Some s \<Rightarrow>
          (case find (\<lambda>c. c_name c = st_model s) cs of
             None \<Rightarrow> None
           | Some c \<Rightarrow> if it_difficulty it \<le> strength (sp_domains p) c then Some (c, st_rung s) else None))"

definition keepable :: "candidate list \<Rightarrow> candidate option \<Rightarrow> intent \<Rightarrow> (candidate list \<Rightarrow> bool) \<Rightarrow> sticky_plan \<Rightarrow> bool" where
  "keepable cs incumbent it serves p =
     (case sp_decision p of
        DKeep \<Rightarrow> True
      | DHarder \<Rightarrow> (case incumbent of None \<Rightarrow> False | Some c \<Rightarrow> sp_floor p \<le> strength (sp_domains p) c)
      | DTopic \<Rightarrow>
          (case incumbent of
             None \<Rightarrow> False
           | Some c \<Rightarrow>
               (let held = strength (sp_domains p) c
                in max (it_difficulty it) 1 \<le> held \<and> \<not> (\<exists>o' \<in> set cs. held < strength (sp_domains p) o' \<and> serves [o'])))
      | DEscalate _ \<Rightarrow> False)"

definition move_reason :: "decision \<Rightarrow> reason" where
  "move_reason d = (case d of DKeep \<Rightarrow> Forced | DEscalate s \<Rightarrow> Escalated s | DHarder \<Rightarrow> Harder | DTopic \<Rightarrow> Topic)"

definition levels_down :: "nat \<Rightarrow> nat list" where
  "levels_down n = rev [0..<n + 1]"

definition move_on :: "candidate list \<Rightarrow> turn_record \<Rightarrow> (candidate list \<Rightarrow> bool) \<Rightarrow> sticky_plan \<Rightarrow> choice" where
  "move_on cs r serves p =
     (let exclude = (case sp_decision p of DEscalate _ \<Rightarrow> Some (tr_model r) | DTopic \<Rightarrow> Some (tr_model r) | _ \<Rightarrow> None);
          pool = (\<lambda>level. floor_pool (sp_domains p) level exclude cs)
      in case find (\<lambda>level. pool level \<noteq> [] \<and> serves (pool level)) (levels_down (sp_floor p)) of
           Some level \<Rightarrow> plan_choice p (Some (pool level)) (move_reason (sp_decision p))
         | None \<Rightarrow> plan_choice p None (move_reason (sp_decision p)))"

definition keep_or_move :: "candidate list \<Rightarrow> turn_record \<Rightarrow> intent \<Rightarrow> (candidate list \<Rightarrow> bool) \<Rightarrow> sticky_plan \<Rightarrow> choice" where
  "keep_or_move cs r it serves p =
     (let incumbent = find (\<lambda>c. c_name c = tr_model r) cs
      in case incumbent of
           Some c \<Rightarrow> if keepable cs incumbent it serves p \<and> serves [c] then plan_choice p (Some [c]) Kept else move_on cs r serves p
         | None \<Rightarrow> move_on cs r serves p)"

definition choose_pool ::
  "candidate list \<Rightarrow> turn_record option \<Rightarrow> session_record option \<Rightarrow> intent \<Rightarrow> observed \<Rightarrow> (candidate list \<Rightarrow> bool) \<Rightarrow> choice" where
  "choose_pool cs rec session it ob serves =
     (case rec of
        None \<Rightarrow> \<lparr>ch_pool = None, ch_reason = Fresh, ch_floor = 0, ch_domains = domains_of (it_tags it), ch_strikes = 0\<rparr>
      | Some r \<Rightarrow>
          (let p = decide r it ob
           in if sp_decision p = DTopic then
                (case returning cs session it p of
                   Some (c, rung) \<Rightarrow>
                     if serves [c] then
                       \<lparr>ch_pool = Some [c], ch_reason = Returned, ch_floor = min (max rung (it_difficulty it)) MAX_TIER_LEVEL,
                        ch_domains = sp_domains p, ch_strikes = 0\<rparr>
                     else keep_or_move cs r it serves p
                 | None \<Rightarrow> keep_or_move cs r it serves p)
              else keep_or_move cs r it serves p))"

section \<open>A turn of a conversation\<close>

definition client_signal :: "string option \<Rightarrow> observed \<Rightarrow> observed" where
  "client_signal v ob =
     (case map_option trim v of
        None \<Rightarrow> ob
      | Some s \<Rightarrow> if s = ''tool_loop'' then ob\<lparr>ob_tool_loop := True\<rparr>
                  else if s = ''complaint'' then ob\<lparr>ob_complaint := True\<rparr> else ob)"

record conversation =
  cv_record :: "turn_record option"
  cv_session :: "session_record option"
  cv_observed :: observed
  cv_retry_key :: "string option"
  cv_session_key :: "string option"
  cv_user :: string

text \<open>
  \<open>lookup\<close>: \<open>get\<close> reads the tenant's store (an error reads as nothing), \<open>read_session\<close> and \<open>read_turn\<close> are the
  typed reads of a stored value.
\<close>

definition lookup ::
  "sticky_env \<Rightarrow> (string \<Rightarrow> string option) \<Rightarrow> (string \<Rightarrow> session_record option) \<Rightarrow> (string \<Rightarrow> turn_record option) \<Rightarrow>
     json \<Rightarrow> string option \<Rightarrow> conversation" where
  "lookup se get read_session read_turn body session_id =
     (let skey = map_option (session_key se) session_id;
          rkey = map_option (\<lambda>k. case skey of Some s \<Rightarrow> s @ '':'' @ k | None \<Rightarrow> k) (retry_key se body);
          session = Option.bind (Option.bind skey get) read_session;
          by_answer = Option.bind (incumbent_key se body) get;
          seen = Option.bind rkey get;
          rec = (case Option.bind session ss_last of
                   Some r \<Rightarrow> Some r
                 | None \<Rightarrow> Option.bind by_answer read_turn)
      in \<lparr>cv_record = rec,
          cv_session = map_option (\<lambda>_. case session of None \<Rightarrow> session_record_default | Some s \<Rightarrow> s) skey,
          cv_observed = observe_request se body (seen \<noteq> None \<and> rec \<noteq> None),
          cv_retry_key = rkey, cv_session_key = skey, cv_user = newest_user_text body\<rparr>)"

definition COMPLAINT_THRESHOLD :: f64 where "COMPLAINT_THRESHOLD = fl (7 / 10)"

text \<open>
  Whether the newest user message says the last answer was wrong: \<open>resolve\<close> looks the classifier's model up, \<open>ask\<close>
  is the probability the classifier gives, if it answers.
\<close>

definition complaint ::
  "(string \<Rightarrow> 'b option) \<Rightarrow> ('b \<Rightarrow> string \<Rightarrow> f64 option) \<Rightarrow> auto_router_settings \<Rightarrow> conversation option \<Rightarrow> json \<Rightarrow> bool \<Rightarrow> bool" where
  "complaint resolve ask st conv body skip_classifier =
     (case conv of
        None \<Rightarrow> False
      | Some cv \<Rightarrow>
          if cv_record cv = None \<or> skip_classifier \<or> \<not> classifier_active st \<or> \<not> user_spoke_last body then False
          else
            (case ar_classifier_model st of
               None \<Rightarrow> False
             | Some name \<Rightarrow>
                 if name = AUTO_MODEL_NAME then False
                 else
                   (case resolve name of
                      None \<Rightarrow> False
                    | Some brain \<Rightarrow>
                        if trim (cv_user cv) = [] then False
                        else (case ask brain (trim (cv_user cv)) of None \<Rightarrow> False | Some p \<Rightarrow> COMPLAINT_THRESHOLD \<le> p))))"

record sticky_turn =
  tn_user :: string
  tn_retry_key :: "string option"
  tn_session :: "(string \<times> session_record) option"
  tn_record :: turn_record

definition turn_new :: "conversation \<Rightarrow> choice \<Rightarrow> candidate \<Rightarrow> sticky_turn" where
  "turn_new cv ch chosen =
     \<lparr>tn_user = cv_user cv, tn_retry_key = cv_retry_key cv,
      tn_session = (case (cv_session_key cv, cv_session cv) of (Some k, Some s) \<Rightarrow> Some (k, s) | _ \<Rightarrow> None),
      tn_record = \<lparr>tr_model = c_name chosen, tr_domains = ch_domains ch, tr_rung = max (strength (ch_domains ch) chosen) (ch_floor ch),
                   tr_strikes = ch_strikes ch, tr_bad_output = False\<rparr>\<rparr>"

datatype stored = StoredTurn turn_record | StoredSession session_record | StoredAnswered

text \<open>What \<open>Turn::record\<close> writes to the store once the turn is answered, in order.\<close>

definition record_turn :: "sticky_env \<Rightarrow> sticky_turn \<Rightarrow> json \<Rightarrow> (string \<times> stored) list" where
  "record_turn se tn completion =
     (case first_choice_message completion of
        None \<Rightarrow> []
      | Some answer \<Rightarrow>
          (let r = (tn_record tn)\<lparr>tr_bad_output := bad_output se completion\<rparr>
           in (case tn_session tn of None \<Rightarrow> [] | Some (k, s) \<Rightarrow> [(k, StoredSession (remember r s))]) @
              [(turn_key se (tn_user tn) answer, StoredTurn r)] @
              (case tn_retry_key tn of None \<Rightarrow> [] | Some k \<Rightarrow> [(k, StoredAnswered)])))"

text \<open>The \<open>auto\<close> branch of the proxy from the intent on: the pool, the pick, and the turn to store.\<close>

record auto_outcome =
  ao_picked :: "resolved_model option"
  ao_choice :: "choice option"
  ao_turn :: "sticky_turn option"

definition auto_route ::
  "route_input \<Rightarrow> candidate list \<Rightarrow> conversation option \<Rightarrow> intent \<Rightarrow> bool \<Rightarrow> string option \<Rightarrow> auto_outcome" where
  "auto_route ri cs conv it complaint_seen escalate_header =
     (let ri = ri\<lparr>ri_desired_tags := it_tags it\<rparr>;
          serves = (\<lambda>pool. select_model ri (it_difficulty it) pool \<noteq> None);
          ch = map_option (\<lambda>cv. choose_pool cs (cv_record cv) (cv_session cv) it
                 (client_signal escalate_header ((cv_observed cv)\<lparr>ob_complaint := complaint_seen\<rparr>)) serves) conv;
          pool = (case Option.bind ch ch_pool of Some pool \<Rightarrow> pool | None \<Rightarrow> cs);
          picked = select_model ri (it_difficulty it) pool
      in \<lparr>ao_picked = picked, ao_choice = ch,
          ao_turn =
            (case (picked, conv, ch) of
               (Some m, Some cv, Some ch) \<Rightarrow>
                 map_option (turn_new cv ch) (find (\<lambda>c. c_name c = rm_model_name m) pool)
             | _ \<Rightarrow> None)\<rparr>)"

end
