(* ===== verification/Sticky_Props.thy ===== *)
theory Sticky_Props
  imports Sticky Routing_Props
begin

text \<open>
  Correctness of conversation stickiness over the router: narrowing the candidates never loses a pick, a quiet
  conversation stays with its model, evidence against the model moves it away, its level only rises while it
  stays on its topics, and the next request finds the turn that was stored.
\<close>

section \<open>The narrowed pool\<close>

lemma find_mem: "find P xs = Some x \<Longrightarrow> x \<in> set xs \<and> P x"
  by (auto simp: find_Some_iff)

lemma floor_pool_subset: "set (floor_pool ds l ex cs) \<subseteq> set cs"
  by (auto simp: floor_pool_def)

lemma move_on_pool:
  assumes "ch_pool (move_on cs r serves p) = Some pool"
  shows "serves pool \<and> set pool \<subseteq> set cs"
  using assms by (auto simp: move_on_def Let_def plan_choice_def floor_pool_def split: option.splits dest!: find_mem)

lemma keep_or_move_pool:
  assumes "ch_pool (keep_or_move cs r it serves p) = Some pool"
  shows "serves pool \<and> set pool \<subseteq> set cs"
  using assms move_on_pool [of cs r serves p pool]
  by (auto simp: keep_or_move_def Let_def plan_choice_def split: option.splits if_splits dest!: find_mem)

lemma choose_pool_serves:
  assumes "ch_pool (choose_pool cs rec session it ob serves) = Some pool"
  shows "serves pool \<and> set pool \<subseteq> set cs"
proof (cases rec)
  case (Some r)
  have "c \<in> set cs" if "returning cs session it p = Some (c, rung)" for c rung p
    using that by (auto simp: returning_def split: option.splits if_splits dest!: find_mem)
  then show ?thesis
    using assms Some keep_or_move_pool [of cs r it serves "decide r it ob" pool]
    by (auto simp: choose_pool_def Let_def split: if_splits option.splits)
qed (use assms in \<open>simp add: choose_pool_def\<close>)

lemma hard_reject_tags [simp]: "hard_reject (ri\<lparr>ri_desired_tags := ts\<rparr>) c = hard_reject ri c"
  by (simp add: hard_reject_def Let_def)

abbreviation auto_observed :: "conversation \<Rightarrow> bool \<Rightarrow> string option \<Rightarrow> observed" where
  "auto_observed cv complains header \<equiv> client_signal header ((cv_observed cv)\<lparr>ob_complaint := complains\<rparr>)"

abbreviation auto_serves :: "route_input \<Rightarrow> intent \<Rightarrow> candidate list \<Rightarrow> bool" where
  "auto_serves ri it \<equiv> (\<lambda>pool. select_model (ri\<lparr>ri_desired_tags := it_tags it\<rparr>) (it_difficulty it) pool \<noteq> None)"

lemma auto_serves_iff: "auto_serves ri it pool \<longleftrightarrow> (\<exists>c \<in> set pool. hard_reject ri c = None)"
  by (auto simp: select_None eligible_def filter_empty_conv)

lemma auto_route_choice:
  "ao_choice (auto_route ri cs (Some cv) it complains header) =
     Some (choose_pool cs (cv_record cv) (cv_session cv) it (auto_observed cv complains header) (auto_serves ri it))"
  by (simp add: auto_route_def Let_def)

lemma auto_route_picked:
  "ao_picked (auto_route ri cs conv it complains header) =
     select_model (ri\<lparr>ri_desired_tags := it_tags it\<rparr>) (it_difficulty it)
       (case Option.bind (ao_choice (auto_route ri cs conv it complains header)) ch_pool of Some pool \<Rightarrow> pool | None \<Rightarrow> cs)"
  by (simp add: auto_route_def Let_def)

lemma pool_of_choice:
  assumes "Option.bind (ao_choice (auto_route ri cs conv it complains header)) ch_pool = Some pool"
  shows "auto_serves ri it pool \<and> set pool \<subseteq> set cs"
proof -
  obtain cv where cv: "conv = Some cv" using assms by (cases conv) (auto simp: auto_route_def Let_def)
  then show ?thesis using assms choose_pool_serves [of cs "cv_record cv" "cv_session cv" it _ "auto_serves ri it" pool]
    by (auto simp: auto_route_choice)
qed

lemma select_model_mem: "select_model ri d pool = Some m \<Longrightarrow> \<exists>c \<in> set pool. c_model c = m \<and> hard_reject ri c = None"
  using select_Some [of ri d pool m] by (auto simp: kept_def tier_kept_def eligible_def split: if_splits)

lemma select_model_single:
  assumes "hard_reject ri c = None"
  shows "select_model ri d [c] = Some (c_model c)"
proof (cases "select_model ri d [c]")
  case None
  then show ?thesis using assms by (simp add: select_None eligible_def)
next
  case (Some m)
  then show ?thesis using select_model_mem [OF Some] by auto
qed

lemma sticky_pick: "c \<in> set cs \<Longrightarrow> hard_reject ri c = None \<Longrightarrow> ao_picked (auto_route ri cs conv it complains header) \<noteq> None"
  using pool_of_choice [of ri cs conv it complains header] auto_serves_iff [where ri = ri and it = it and pool = cs]
  unfolding auto_route_picked by (cases "Option.bind (ao_choice (auto_route ri cs conv it complains header)) ch_pool") auto

section \<open>Levels of a conversation\<close>

lemma decide_floor: "tr_rung r \<le> MAX_TIER_LEVEL \<Longrightarrow> tr_rung r \<le> sp_floor (decide r it ob)"
  by (auto simp: decide_def Let_def MAX_TIER_LEVEL_def split: option.splits)

lemma move_on_floor: "ch_floor (move_on cs r serves p) = sp_floor p" "ch_reason (move_on cs r serves p) = move_reason (sp_decision p)"
  by (auto simp: move_on_def Let_def plan_choice_def split: option.splits)

lemma keep_or_move_floor: "ch_floor (keep_or_move cs r it serves p) = sp_floor p"
  by (auto simp: keep_or_move_def Let_def move_on_floor plan_choice_def split: option.splits)

lemma choose_pool_floor:
  assumes "ch_reason (choose_pool cs (Some r) session it ob serves) \<noteq> Returned"
  shows "ch_floor (choose_pool cs (Some r) session it ob serves) = sp_floor (decide r it ob)"
  using assms by (auto simp: choose_pool_def Let_def keep_or_move_floor split: option.splits if_splits)

lemma auto_turn:
  assumes "ao_turn (auto_route ri cs (Some cv) it complains header) = Some tn"
  shows "\<exists>ch c. ao_choice (auto_route ri cs (Some cv) it complains header) = Some ch \<and> c \<in> set cs \<and> tn = turn_new cv ch c \<and>
    ao_picked (auto_route ri cs (Some cv) it complains header) \<noteq> None"
proof -
  let ?o = "auto_route ri cs (Some cv) it complains header"
  let ?pool = "case Option.bind (ao_choice ?o) ch_pool of Some pool \<Rightarrow> pool | None \<Rightarrow> cs"
  have "ao_turn ?o = (case (ao_picked ?o, Some cv, ao_choice ?o) of
      (Some m, Some cv, Some ch) \<Rightarrow> map_option (turn_new cv ch) (find (\<lambda>c. c_name c = rm_model_name m) ?pool) | _ \<Rightarrow> None)"
    by (simp add: auto_route_def Let_def split: option.split)
  moreover have "set ?pool \<subseteq> set cs" using pool_of_choice [of ri cs "Some cv" it complains header] by (auto split: option.splits)
  ultimately show ?thesis using assms by (auto split: option.splits dest!: find_mem simp: eq_commute [of "Some tn"] map_option_eq_Some)
qed

lemma no_session_no_return: "ch_reason (choose_pool cs rec None it ob serves) \<noteq> Returned"
  by (auto simp: choose_pool_def Let_def keep_or_move_def move_on_def plan_choice_def returning_def move_reason_def
      split: option.splits decision.splits)

section \<open>Moving away\<close>

lemma decide_escalates: "signal_of r ob = Some sig \<Longrightarrow> sp_decision (decide r it ob) = DEscalate sig"
  by (simp add: decide_def Let_def)

lemma levels_down_0: "0 \<in> set (levels_down n)"
  by (auto simp: levels_down_def)

text \<open>
  What stickiness relies on of the router: a pool can serve the request exactly when one of its candidates fits.
\<close>

locale pool_server =
  fixes serves :: "candidate list \<Rightarrow> bool" and fits :: "candidate \<Rightarrow> bool"
  assumes serves_iff: "serves pool \<longleftrightarrow> (\<exists>c \<in> set pool. fits c)"
begin

lemma serves_mono: "serves pool \<Longrightarrow> set pool \<subseteq> set cs \<Longrightarrow> serves cs"
  unfolding serves_iff by blast

lemma escalated_pool:
  assumes "signal_of r ob = Some sig" and "c' \<in> set cs" and "c_name c' \<noteq> tr_model r" and "fits c'"
  shows "\<exists>pool. ch_pool (choose_pool cs (Some r) session it ob serves) = Some pool \<and> (\<forall>c \<in> set pool. c_name c \<noteq> tr_model r)"
proof -
  let ?p = "decide r it ob" let ?pool = "\<lambda>level. floor_pool (sp_domains ?p) level (Some (tr_model r)) cs"
  have d: "sp_decision ?p = DEscalate sig" by (rule decide_escalates [OF assms(1)])
  then have "choose_pool cs (Some r) session it ob serves = move_on cs r serves ?p"
    by (auto simp: choose_pool_def Let_def keep_or_move_def keepable_def split: option.splits)
  moreover have "c' \<in> set (?pool 0)" using assms(2,3) by (simp add: floor_pool_def)
  then have "?pool 0 \<noteq> [] \<and> serves (?pool 0)" using assms(4) by (auto simp: serves_iff)
  then have "find (\<lambda>level. ?pool level \<noteq> [] \<and> serves (?pool level)) (levels_down (sp_floor ?p)) \<noteq> None"
    using levels_down_0 [of "sp_floor ?p"] unfolding find_None_iff by blast
  ultimately show ?thesis using d by (auto simp: move_on_def Let_def plan_choice_def floor_pool_def split: option.splits)
qed

end

interpretation router: pool_server "auto_serves ri it" "\<lambda>c. hard_reject ri c = None" for ri it
  by unfold_locales (rule auto_serves_iff)

section \<open>Memory of a conversation\<close>

lemma remember_domains:
  "distinct (map st_domain ts) \<Longrightarrow> distinct (map st_domain (fold (remember_domain r) ds ts))"
proof (induction ds arbitrary: ts)
  case (Cons d ds)
  have "distinct (map st_domain (remember_domain r d ts))" using Cons.prems by (auto simp: remember_domain_def distinct_map_filter)
  then show ?case using Cons.IH by simp
qed simp

lemma remembered_tail:
  "\<exists>old. fold (remember_domain r) ds ts = old @ map (\<lambda>d. \<lparr>st_domain = d, st_model = tr_model r, st_rung = tr_rung r\<rparr>) (remdups ds) \<and>
    (\<forall>x \<in> set old. st_domain x \<notin> set ds) \<and> length old \<le> length ts"
proof (induction ds rule: rev_induct)
  case Nil
  then show ?case by simp
next
  case (snoc d ds)
  let ?st = "\<lambda>d. \<lparr>st_domain = d, st_model = tr_model r, st_rung = tr_rung r\<rparr>"
  obtain old where old: "fold (remember_domain r) ds ts = old @ map ?st (remdups ds)" "\<forall>x \<in> set old. st_domain x \<notin> set ds"
    "length old \<le> length ts"
    using snoc by blast
  have f: "filter (\<lambda>x. st_domain x \<noteq> d) (map ?st xs) = map ?st (filter (\<lambda>x. x \<noteq> d) xs)" for xs by (simp add: filter_map comp_def)
  have "remdups (xs @ [d]) = filter (\<lambda>x. x \<noteq> d) (remdups xs) @ [d]" for xs by (induction xs) auto
  moreover have "length (filter (\<lambda>x. st_domain x \<noteq> d) old) \<le> length ts" using old(3) length_filter_le [of _ old] le_trans by blast
  ultimately show ?case using old by (intro exI [of _ "filter (\<lambda>x. st_domain x \<noteq> d) old"]) (auto simp: remember_domain_def [of r d] f)
qed

lemma remembered_length: "length (fold (remember_domain r) ds ts) \<le> length ts + length (remdups ds)"
  using remembered_tail [of r ds ts] by auto

lemma remember_topics:
  assumes "length (remdups (tr_domains r)) \<le> MAX_TOPICS"
  shows "\<exists>old. ss_topics (remember r s) =
      old @ map (\<lambda>d. \<lparr>st_domain = d, st_model = tr_model r, st_rung = tr_rung r\<rparr>) (remdups (tr_domains r)) \<and>
    (\<forall>x \<in> set old. st_domain x \<notin> set (tr_domains r))"
proof -
  let ?new = "map (\<lambda>d. \<lparr>st_domain = d, st_model = tr_model r, st_rung = tr_rung r\<rparr>) (remdups (tr_domains r))"
  obtain old where old: "fold (remember_domain r) (tr_domains r) (ss_topics s) = old @ ?new" "\<forall>x \<in> set old. st_domain x \<notin> set (tr_domains r)"
    using remembered_tail by blast
  have "ss_topics (remember r s) = drop (length old + length ?new - MAX_TOPICS) (old @ ?new)" by (simp add: remember_def Let_def old(1))
  then have "ss_topics (remember r s) = drop (length old + length ?new - MAX_TOPICS) old @ ?new" using assms by simp
  moreover have "\<forall>x \<in> set (drop n old). st_domain x \<notin> set (tr_domains r)" for n using old(2) by (meson in_set_dropD)
  ultimately show ?thesis by blast
qed

lemma find_before: "x \<in> set xs \<Longrightarrow> P x \<Longrightarrow> \<exists>y \<in> set xs. P y \<and> find P (xs @ ys) = Some y"
  by (induction xs) auto

lemma find_append_none: "(\<And>x. x \<in> set xs \<Longrightarrow> \<not> P x) \<Longrightarrow> find P (xs @ ys) = find P ys"
  by (induction xs) auto

lemma find_filter: "(\<And>x. P x \<Longrightarrow> Q x) \<Longrightarrow> find P (filter Q xs) = find P xs"
  by (induction xs) auto

lemma standing_remembered:
  assumes "length (remdups (tr_domains r)) \<le> MAX_TOPICS" and "d \<in> set (tr_domains r)" and "d \<noteq> GENERAL_DOMAIN" and "d \<noteq> GENERAL_TAG"
  shows "standing_for [d] (remember r s) = Some \<lparr>st_domain = d, st_model = tr_model r, st_rung = tr_rung r\<rparr>"
proof -
  let ?st = "\<lambda>d. \<lparr>st_domain = d, st_model = tr_model r, st_rung = tr_rung r\<rparr>"
  let ?P = "\<lambda>x. st_domain x \<noteq> GENERAL_DOMAIN \<and> st_domain x \<noteq> GENERAL_TAG \<and> st_domain x \<in> set [d]"
  obtain old where "ss_topics (remember r s) = old @ map ?st (remdups (tr_domains r))" using remember_topics [OF assms(1)] by blast
  then have "standing_for [d] (remember r s) = find ?P (rev (map ?st (remdups (tr_domains r))) @ rev old)" by (simp add: standing_for_def)
  moreover have "?st d \<in> set (rev (map ?st (remdups (tr_domains r))))" "?P (?st d)" using assms(2-4) by auto
  then obtain y where "y \<in> set (rev (map ?st (remdups (tr_domains r))))" "?P y"
      "find ?P (rev (map ?st (remdups (tr_domains r))) @ rev old) = Some y"
    using find_before [of "?st d" "rev (map ?st (remdups (tr_domains r)))" ?P "rev old"] by blast
  ultimately show ?thesis by auto
qed

lemma standing_kept:
  assumes "length (ss_topics s) + length (remdups (tr_domains r)) \<le> MAX_TOPICS" and "d \<notin> set (tr_domains r)"
  shows "standing_for [d] (remember r s) = standing_for [d] s"
proof -
  let ?P = "\<lambda>x. st_domain x \<noteq> GENERAL_DOMAIN \<and> st_domain x \<noteq> GENERAL_TAG \<and> st_domain x \<in> set [d]"
  have one: "find ?P (rev (remember_domain r d' ts)) = find ?P (rev ts)" if "d' \<noteq> d" for d' ts
    using that find_filter [of ?P "\<lambda>x. st_domain x \<noteq> d'" "rev ts"] by (auto simp: remember_domain_def rev_filter)
  have f: "find ?P (rev (fold (remember_domain r) ds ts)) = find ?P (rev ts)" if "d \<notin> set ds" for ds ts
    using that
  proof (induction ds arbitrary: ts)
    case (Cons d' ds)
    then have "d' \<noteq> d" "d \<notin> set ds" by auto
    then show ?case using Cons.IH [of "remember_domain r d' ts"] one [of d' ts] by (simp only: fold.simps comp_apply simp_thms)
  qed simp
  have "length (fold (remember_domain r) (tr_domains r) (ss_topics s)) \<le> MAX_TOPICS" using assms(1) remembered_length [of r "tr_domains r" "ss_topics s"] by linarith
  then show ?thesis using f [OF assms(2)] by (simp add: standing_for_def remember_def Let_def)
qed

section \<open>Finding the turn again\<close>

lemma last_assistant_append:
  assumes "role a = ''assistant''" and "\<forall>m \<in> set tail. role m \<noteq> ''assistant''"
  shows "last_assistant (ms @ a # tail) = Some (length ms)"
proof -
  have "last_assistant tail = None" using assms(2) by (induction tail) auto
  then have "last_assistant (a # tail) = Some 0" using assms(1) by simp
  then show ?thesis by (induction ms) auto
qed

lemma incumbent_found:
  assumes "messages body' = messages body @ answer # tail" and "role answer = ''assistant''" and "\<forall>m \<in> set tail. role m \<noteq> ''assistant''"
  shows "incumbent_key se body' = Some (turn_key se (newest_user_text body) answer)"
  using last_assistant_append [OF assms(2,3), of "messages body"] assms(1)
  by (simp add: incumbent_key_def Let_def user_before_def newest_user_text_def)

text \<open>What a store that took the writes of a turn reads back.\<close>

definition keeps ::
  "(string \<Rightarrow> string option) \<Rightarrow> (string \<Rightarrow> session_record option) \<Rightarrow> (string \<Rightarrow> turn_record option) \<Rightarrow> (string \<times> stored) list \<Rightarrow> bool" where
  "keeps get read_session read_turn ws \<longleftrightarrow>
     (\<forall>(k, w) \<in> set ws.
        case get k of
          None \<Rightarrow> False
        | Some v \<Rightarrow> (case w of StoredTurn r \<Rightarrow> read_turn v = Some r | StoredSession s \<Rightarrow> read_session v = Some s | StoredAnswered \<Rightarrow> True))"

lemma keeps_reads:
  assumes "keeps get read_session read_turn ws"
  shows "(k, StoredTurn r) \<in> set ws \<Longrightarrow> Option.bind (get k) read_turn = Some r"
    and "(k, StoredSession s) \<in> set ws \<Longrightarrow> Option.bind (get k) read_session = Some s"
    and "(k, StoredAnswered) \<in> set ws \<Longrightarrow> get k \<noteq> None"
  using assms by (fastforce simp: keeps_def split: option.splits)+

lemma remember_last [simp]: "ss_last (remember r s) = Some r"
  by (simp add: remember_def Let_def)

lemma lookup_fields:
  "cv_user (lookup se get rs rt body sid) = newest_user_text body"
  "cv_session_key (lookup se get rs rt body sid) = map_option (session_key se) sid"
  "cv_session (lookup se get rs rt body sid) = None \<longleftrightarrow> sid = None"
  by (simp_all add: lookup_def Let_def)

lemma lookup_by_session:
  "Option.bind (get (session_key se sid)) rs = Some s \<Longrightarrow> ss_last s = Some r \<Longrightarrow> cv_record (lookup se get rs rt body (Some sid)) = Some r"
  by (auto simp: lookup_def Let_def bind_eq_Some_conv)

lemma lookup_by_answer:
  "incumbent_key se body = Some k \<Longrightarrow> Option.bind (get k) rt = Some r \<Longrightarrow> cv_record (lookup se get rs rt body None) = Some r"
  by (simp add: lookup_def Let_def)

lemma record_turn_session:
  assumes "first_choice_message completion = Some answer" and "r = (tn_record tn)\<lparr>tr_bad_output := bad_output se completion\<rparr>"
    and "tn = turn_new (lookup se get rs rt body (Some sid)) ch c"
  shows "\<exists>s. (session_key se sid, StoredSession (remember r s)) \<in> set (record_turn se tn completion)"
proof -
  obtain s where "cv_session (lookup se get rs rt body (Some sid)) = Some s" using lookup_fields(3) [of se get rs rt body "Some sid"] by auto
  then have "tn_session tn = Some (session_key se sid, s)" by (simp add: assms(3) turn_new_def lookup_fields)
  then show ?thesis using assms(1,2) by (auto simp: record_turn_def Let_def)
qed

lemma record_turn_answer:
  assumes "first_choice_message completion = Some answer" and "r = (tn_record tn)\<lparr>tr_bad_output := bad_output se completion\<rparr>"
    and "tn = turn_new (lookup se get rs rt body sid) ch c"
  shows "(turn_key se (newest_user_text body) answer, StoredTurn r) \<in> set (record_turn se tn completion)"
  using assms by (simp add: record_turn_def Let_def turn_new_def lookup_fields)

lemma regenerate_seen:
  "ob_regenerate (cv_observed (lookup se get rs rt body sid)) \<longleftrightarrow>
     Option.bind (cv_retry_key (lookup se get rs rt body sid)) get \<noteq> None \<and> cv_record (lookup se get rs rt body sid) \<noteq> None"
  by (simp add: lookup_def Let_def observe_request_def)

lemma lookup_retry_key:
  "cv_retry_key (lookup se get rs rt body sid) = cv_retry_key (lookup se get' rs rt body sid)"
  "cv_retry_key (lookup se get rs rt body sid) = None \<longleftrightarrow> last_assistant (messages body) = None"
  by (auto simp: lookup_def Let_def retry_key_def split: option.splits)

lemma repeat_seen:
  assumes "\<And>k. (k, StoredAnswered) \<in> set (record_turn se tn completion) \<Longrightarrow> get' k \<noteq> None"
    and "first_choice_message completion = Some answer" and "tn = turn_new (lookup se get rs rt body sid) ch c"
  shows "ob_regenerate (cv_observed (lookup se get' rs rt body sid)) \<longleftrightarrow>
    last_assistant (messages body) \<noteq> None \<and> cv_record (lookup se get' rs rt body sid) \<noteq> None"
proof (cases "cv_retry_key (lookup se get rs rt body sid)")
  case None
  then show ?thesis using lookup_retry_key(1) [of se get rs rt body sid get'] lookup_retry_key(2) [of se get rs rt body sid] by (simp add: regenerate_seen)
next
  case (Some k)
  then have "(k, StoredAnswered) \<in> set (record_turn se tn completion)" using assms(2,3) by (simp add: record_turn_def Let_def turn_new_def)
  then have "get' k \<noteq> None" by (rule assms(1))
  then show ?thesis using Some lookup_retry_key(1) [of se get rs rt body sid get'] lookup_retry_key(2) [of se get rs rt body sid] by (simp add: regenerate_seen)
qed

lemma auto_turn_exists:
  assumes "ao_picked (auto_route ri cs (Some cv) it complains header) \<noteq> None"
  shows "\<exists>tn. ao_turn (auto_route ri cs (Some cv) it complains header) = Some tn"
proof -
  let ?o = "auto_route ri cs (Some cv) it complains header"
  let ?pool = "case Option.bind (ao_choice ?o) ch_pool of Some pool \<Rightarrow> pool | None \<Rightarrow> cs"
  obtain m where m: "ao_picked ?o = Some m" using assms by blast
  then have "\<exists>c \<in> set ?pool. c_model c = m" using select_model_mem unfolding auto_route_picked by fastforce
  then have "find (\<lambda>c. c_name c = rm_model_name m) ?pool \<noteq> None" by (auto simp: find_None_iff)
  moreover have "ao_turn ?o = (case (ao_picked ?o, Some cv, ao_choice ?o) of
      (Some m, Some cv, Some ch) \<Rightarrow> map_option (turn_new cv ch) (find (\<lambda>c. c_name c = rm_model_name m) ?pool) | _ \<Rightarrow> None)"
    by (simp add: auto_route_def Let_def split: option.split)
  ultimately show ?thesis using m by (auto simp: auto_route_choice)
qed

section \<open>Classifier prompts\<close>

lemma boundary_le: "boundary_before s e \<le> e"
  by (induction s e rule: boundary_before.induct) auto

lemma head_bytes_length: "length (head_bytes s n) \<le> n"
  using boundary_le [of s n] by (simp add: head_bytes_def)

lemma trim_end_length: "length (trim_end s) \<le> length s"
  using suffix_length_le [OF strip_suffix, of "map rev white_space" "rev s"] by (simp add: trim_end_def)

lemma classifier_prompt_length: "length (classifier_prompt system t) \<le> CLASSIFIER_PROMPT_MAX_BYTES"
proof -
  let ?user = "head_bytes (trim t) CLASSIFIER_PROMPT_MAX_BYTES"
  let ?sys = "trim_end (head_bytes system (CLASSIFIER_PROMPT_MAX_BYTES - (length ?user + 1)))"
  have "length ?user \<le> CLASSIFIER_PROMPT_MAX_BYTES" by (rule head_bytes_length)
  moreover have "length ?sys \<le> CLASSIFIER_PROMPT_MAX_BYTES - (length ?user + 1)" using trim_end_length head_bytes_length le_trans by blast
  moreover have "classifier_prompt system t = (if ?sys = [] then ?user else ?sys @ [CHR 0x0A] @ ?user)"
    by (simp only: classifier_prompt_def Let_def)
  ultimately show ?thesis by (cases "?sys = []") (auto simp flip: length_greater_0_conv)
qed

section \<open>Sample conversations\<close>

definition sample_turn :: turn_record where
  "sample_turn = \<lparr>tr_model = ''a'', tr_domains = [''*''], tr_rung = 1, tr_strikes = 0, tr_bad_output = False\<rparr>"

definition sample_observed :: observed where
  "sample_observed = \<lparr>ob_regenerate = False, ob_complaint = False, ob_tool_loop = False, ob_tool_turn = False, ob_tool_errors = False\<rparr>"

definition sample_conversation :: conversation where
  "sample_conversation =
     \<lparr>cv_record = Some sample_turn, cv_session = None, cv_observed = sample_observed, cv_retry_key = None, cv_session_key = None, cv_user = ''hi''\<rparr>"

lemma sample_signals:
  "signal_of sample_turn (auto_observed sample_conversation False None) = None"
  "signal_of sample_turn (auto_observed sample_conversation True None) = Some Complaint"
  "\<not> topic_changed sample_turn intent_default (auto_observed sample_conversation False None)"
  by (simp_all add: sample_turn_def sample_conversation_def sample_observed_def signal_of_def next_strikes_def STRIKES_TO_ESCALATE_def
      client_signal_def topic_changed_def intent_default_def)

definition sample_env :: sticky_env where
  "sample_env = \<lparr>se_sha256_hex = (\<lambda>s. s), se_parse = (\<lambda>s. None), se_print = (\<lambda>v. [])\<rparr>"

definition sample_message :: "string \<Rightarrow> string \<Rightarrow> json" where
  "sample_message who t = JObject [(''role'', JString who), (''content'', JString t)]"

definition sample_body :: "json list \<Rightarrow> json" where
  "sample_body ms = JObject [(''messages'', JArray ms)]"

definition sample_completion :: json where
  "sample_completion = JObject [(''choices'', JArray [JObject [(''message'', sample_message ''assistant'' ''yo'')]])]"

lemmas sample_json = sample_message_def sample_body_def sample_completion_def jget_def as_array_def as_str_def first_choice_message_def

definition sample_second :: turn_record where
  "sample_second = \<lparr>tr_model = ''b'', tr_domains = [''*''], tr_rung = 2, tr_strikes = 0, tr_bad_output = False\<rparr>"

lemma sample_output_good: "bad_output sample_env sample_completion = False"
  by code_simp

lemma sample_auto_turn:
  "\<exists>tn. ao_turn (auto_route sample_input sample_cands
      (Some (lookup sample_env (\<lambda>k. None) rs rt (sample_body [sample_message ''user'' ''hi'']) None))
      (intent_default\<lparr>it_difficulty := 2\<rparr>) False None) = Some tn \<and>
    tn_record tn = sample_second \<and> tn_user tn = ''hi'' \<and> tn_session tn = None \<and> tn_retry_key tn = None"
proof -
  let ?cv = "lookup sample_env (\<lambda>k. None) rs rt (sample_body [sample_message ''user'' ''hi'']) None"
  have cv: "cv_record ?cv = None" "cv_user ?cv = ''hi''" "cv_session ?cv = None" "cv_retry_key ?cv = None"
    by (simp_all add: lookup_def Let_def retry_key_def newest_user_text_def messages_def message_text_def classifier_message_text_def role_def sample_json)
  have i: "sample_input\<lparr>ri_desired_tags := []\<rparr> = sample_input" by (simp add: sample_input_def)
  have f: "find (\<lambda>c. c_name c = ''b'') sample_cands = Some (last sample_cands)" by (simp add: sample_cands_def sample_model_def)
  have s: "strength [''*''] (last sample_cands) = 2" "c_name (last sample_cands) = ''b''"
    by (simp_all add: sample_cands_def strength_def map_filter_simps sample_model_def)
  have n: "rm_model_name (sample_model ''b'' 2) = ''b''" by (simp add: sample_model_def)
  show ?thesis
    by (simp add: auto_route_def Let_def cv choose_pool_def intent_default_def i sample_picks n f turn_new_def s domains_of_def
        GENERAL_DOMAIN_def sample_second_def split: option.split)
qed

section \<open>Properties\<close>

text \<open>
  C15: Stickiness never costs a pick. With or without a conversation, whatever it remembers and shows, \<open>auto\<close>
  finds a model exactly when some candidate passes every filter for the request.
\<close>

theorem sticky_never_loses_a_pick:
  "ao_picked (auto_route ri cs conv it complains header) = None \<longleftrightarrow> (\<forall>c \<in> set cs. hard_reject ri c \<noteq> None)"
proof (cases "Option.bind (ao_choice (auto_route ri cs conv it complains header)) ch_pool")
  case None
  then show ?thesis unfolding auto_route_picked using auto_serves_iff [where ri = ri and it = it and pool = cs] by auto
next
  case (Some pool)
  have p: "auto_serves ri it pool" "set pool \<subseteq> set cs" using pool_of_choice [OF Some] by blast+
  then have "\<exists>c \<in> set cs. hard_reject ri c = None" using auto_serves_iff [where ri = ri and it = it and pool = pool] by blast
  then show ?thesis unfolding auto_route_picked using p(1) Some by auto
qed

theorem sticky_never_loses_a_pick_witness:
  "ao_picked (auto_route sample_input sample_cands (Some sample_conversation) intent_default True None) \<noteq> None"
proof -
  have "hd sample_cands \<in> set sample_cands" by (simp add: sample_cands_def)
  then have "\<not> (\<forall>c \<in> set sample_cands. hard_reject sample_input c \<noteq> None)" using sample_eligible by blast
  then show ?thesis using sticky_never_loses_a_pick [of sample_input sample_cands "Some sample_conversation" intent_default True None] by blast
qed

text \<open>
  C29: A conversation stays with its model. When nothing speaks against the model that answered last, the turn
  keeps to its topics and asks for no higher level, and the model passes the filters, it answers again.
\<close>

theorem conversation_stays:
  assumes "cv_record cv = Some r" and "ob = auto_observed cv complains header" and "signal_of r ob = None"
    and "\<not> topic_changed r it ob" and "it_difficulty it \<le> tr_rung r"
    and "find (\<lambda>c. c_name c = tr_model r) cs = Some c" and "hard_reject ri c = None"
  shows "ao_picked (auto_route ri cs (Some cv) it complains header) = Some (c_model c) \<and>
    map_option ch_reason (ao_choice (auto_route ri cs (Some cv) it complains header)) = Some Kept"
proof -
  let ?o = "auto_route ri cs (Some cv) it complains header"
  have d: "sp_decision (decide r it ob) = DKeep" using assms(3-5) by (simp add: decide_def Let_def)
  have "auto_serves ri it [c]" using assms(7) auto_serves_iff [where ri = ri and it = it and pool = "[c]"] by simp
  then have "choose_pool cs (Some r) (cv_session cv) it ob (auto_serves ri it) = plan_choice (decide r it ob) (Some [c]) Kept"
    using d assms(6) by (simp add: choose_pool_def Let_def keep_or_move_def keepable_def)
  then have "ao_choice ?o = Some (plan_choice (decide r it ob) (Some [c]) Kept)" using assms(1,2) by (simp add: auto_route_choice)
  then show ?thesis unfolding auto_route_picked using select_model_single [of _ c] assms(7) by (simp add: plan_choice_def)
qed

theorem conversation_stays_witness:
  "ao_picked (auto_route sample_input sample_cands (Some sample_conversation) intent_default False None) = Some (c_model (hd sample_cands))"
proof -
  have f: "find (\<lambda>c. c_name c = tr_model sample_turn) sample_cands = Some (hd sample_cands)" "hd sample_cands \<in> set sample_cands"
    by (simp_all add: sample_cands_def sample_model_def sample_turn_def)
  have "cv_record sample_conversation = Some sample_turn" "it_difficulty intent_default \<le> tr_rung sample_turn"
    by (simp_all add: sample_conversation_def intent_default_def sample_turn_def)
  from conversation_stays [OF this(1) refl sample_signals(1,3) this(2) f(1) sample_eligible [OF f(2)]] show ?thesis by blast
qed

text \<open>
  C8: Evidence moves a conversation. When the request shows the last answer was no good (asked again, a
  complaint, broken output, a tool loop, repeated tool errors) and some other model can take it, \<open>auto\<close> serves
  another model than the one that answered.
\<close>

theorem evidence_moves_the_conversation:
  assumes "cv_record cv = Some r" and "signal_of r (auto_observed cv complains header) = Some sig"
    and "c' \<in> set cs" and "c_name c' \<noteq> tr_model r" and "hard_reject ri c' = None"
  shows "\<exists>m. ao_picked (auto_route ri cs (Some cv) it complains header) = Some m \<and> rm_model_name m \<noteq> tr_model r"
proof -
  let ?o = "auto_route ri cs (Some cv) it complains header"
  obtain pool where pool: "Option.bind (ao_choice ?o) ch_pool = Some pool" "\<forall>c \<in> set pool. c_name c \<noteq> tr_model r"
    using router.escalated_pool [where session = "cv_session cv" and it = it, OF assms(2-4), of ri] assms(5) assms(1) by (auto simp: auto_route_choice)
  have "ao_picked ?o \<noteq> None" using sticky_pick [OF assms(3,5)] .
  then obtain m where m: "ao_picked ?o = Some m" by blast
  then have "\<exists>c \<in> set pool. c_model c = m" using pool(1) select_model_mem unfolding auto_route_picked by fastforce
  then show ?thesis using m pool(2) by auto
qed

theorem evidence_moves_the_conversation_witness:
  "\<exists>m. ao_picked (auto_route sample_input sample_cands (Some sample_conversation) intent_default True None) = Some m \<and> rm_model_name m \<noteq> ''a''"
proof -
  have l: "last sample_cands \<in> set sample_cands" "c_name (last sample_cands) \<noteq> tr_model sample_turn"
    by (simp_all add: sample_cands_def sample_model_def sample_turn_def)
  have "cv_record sample_conversation = Some sample_turn" by (simp add: sample_conversation_def)
  from evidence_moves_the_conversation [OF this sample_signals(2) l sample_eligible [OF l(1)]] show ?thesis by (simp add: sample_turn_def)
qed

text \<open>
  C17: The level of a conversation. Unless the turn returns to an earlier topic, the level stored with a served
  turn is at least the level before it and at least the level the decision asked for; evidence against the
  model raises it by one, up to the top.
\<close>

theorem conversation_level_rises:
  assumes "cv_record cv = Some r" and "tr_rung r \<le> MAX_TIER_LEVEL" and "ob = auto_observed cv complains header"
    and "ao_turn (auto_route ri cs (Some cv) it complains header) = Some tn"
    and "map_option ch_reason (ao_choice (auto_route ri cs (Some cv) it complains header)) \<noteq> Some Returned"
  shows "tr_rung r \<le> tr_rung (tn_record tn) \<and> sp_floor (decide r it ob) \<le> tr_rung (tn_record tn) \<and>
    (signal_of r ob \<noteq> None \<longrightarrow> min (tr_rung r + 1) MAX_TIER_LEVEL \<le> tr_rung (tn_record tn))"
proof -
  obtain ch c where t: "ao_choice (auto_route ri cs (Some cv) it complains header) = Some ch" "tn = turn_new cv ch c"
    using auto_turn [OF assms(4)] by blast
  have "ch = choose_pool cs (Some r) (cv_session cv) it ob (auto_serves ri it)" using t(1) assms(1,3) by (simp add: auto_route_choice)
  then have "ch_floor ch = sp_floor (decide r it ob)"
    using choose_pool_floor [of cs r "cv_session cv" it ob "auto_serves ri it"] assms(5) t(1) by simp
  then have f: "sp_floor (decide r it ob) \<le> tr_rung (tn_record tn)" by (simp add: t(2) turn_new_def)
  moreover have "min (tr_rung r + 1) MAX_TIER_LEVEL \<le> sp_floor (decide r it ob)" if "signal_of r ob \<noteq> None"
    using that by (auto simp: decide_def Let_def MAX_TIER_LEVEL_def)
  ultimately show ?thesis using decide_floor [OF assms(2), of it ob] by auto
qed

theorem conversation_level_rises_witness:
  "\<exists>tn. ao_turn (auto_route sample_input sample_cands (Some sample_conversation) intent_default True None) = Some tn \<and> 2 \<le> tr_rung (tn_record tn)"
proof -
  let ?o = "auto_route sample_input sample_cands (Some sample_conversation) intent_default True None"
  have "hd sample_cands \<in> set sample_cands" by (simp add: sample_cands_def)
  from sticky_pick [OF this sample_eligible [OF this]] have "ao_picked ?o \<noteq> None" .
  then obtain tn where tn: "ao_turn ?o = Some tn" using auto_turn_exists by blast
  have r: "cv_record sample_conversation = Some sample_turn" "tr_rung sample_turn \<le> MAX_TIER_LEVEL"
    by (simp_all add: sample_conversation_def sample_turn_def MAX_TIER_LEVEL_def)
  have "map_option ch_reason (ao_choice ?o) \<noteq> Some Returned"
    using no_session_no_return by (simp add: auto_route_choice sample_conversation_def)
  from conversation_level_rises [OF r refl tn this] show ?thesis
    using tn sample_signals(2) by (auto simp: sample_turn_def MAX_TIER_LEVEL_def)
qed

text \<open>
  C7: The next request finds the turn. Once the turn \<open>auto\<close> served is answered and the store has taken its
  writes, a request that carries the conversation on, with the answer in its history, by the session or, with
  no session, by the answer alone, reads the turn's record back. The request sent again unchanged is seen to be
  a repeat exactly when its history has an earlier answer and the conversation is still remembered, which with
  a session it is; a first request sent again is not.
\<close>

theorem next_request_finds_the_turn:
  assumes turn: "ao_turn (auto_route ri cs (Some (lookup se get rs rt body sid)) it complains header) = Some tn"
    and answered: "first_choice_message completion = Some answer" "role answer = ''assistant''"
    and store: "keeps get' rs rt (record_turn se tn completion)"
    and history: "messages body' = messages body @ answer # tail" "\<forall>m \<in> set tail. role m \<noteq> ''assistant''"
  shows "cv_record (lookup se get' rs rt body' sid) = Some ((tn_record tn)\<lparr>tr_bad_output := bad_output se completion\<rparr>) \<and>
    (ob_regenerate (cv_observed (lookup se get' rs rt body sid)) \<longleftrightarrow>
       last_assistant (messages body) \<noteq> None \<and> cv_record (lookup se get' rs rt body sid) \<noteq> None) \<and>
    (sid \<noteq> None \<longrightarrow> cv_record (lookup se get' rs rt body sid) \<noteq> None)"
proof -
  obtain ch c where tn: "tn = turn_new (lookup se get rs rt body sid) ch c" using auto_turn [OF turn] by blast
  let ?r = "(tn_record tn)\<lparr>tr_bad_output := bad_output se completion\<rparr>"
  have repeat: "ob_regenerate (cv_observed (lookup se get' rs rt body sid)) \<longleftrightarrow>
      last_assistant (messages body) \<noteq> None \<and> cv_record (lookup se get' rs rt body sid) \<noteq> None"
    by (rule repeat_seen [OF _ answered(1) tn]) (rule keeps_reads(3) [OF store])
  show ?thesis
  proof (cases sid)
    case None
    have "Option.bind (get' (turn_key se (newest_user_text body) answer)) rt = Some ?r"
      using keeps_reads(1) [OF store] record_turn_answer [OF answered(1) refl tn] by blast
    then have "cv_record (lookup se get' rs rt body' sid) = Some ?r"
      using lookup_by_answer incumbent_found [OF history(1) answered(2) history(2)] None by blast
    then show ?thesis using repeat None by blast
  next
    case (Some i)
    obtain s where "(session_key se i, StoredSession (remember ?r s)) \<in> set (record_turn se tn completion)"
      using record_turn_session [OF answered(1) refl tn [unfolded Some]] by blast
    then have "Option.bind (get' (session_key se i)) rs = Some (remember ?r s)" using keeps_reads(2) [OF store] by blast
    then have "cv_record (lookup se get' rs rt b sid) = Some ?r" for b using lookup_by_session Some by simp
    then show ?thesis using repeat by blast
  qed
qed

theorem next_request_finds_the_turn_witness:
  "cv_record (lookup sample_env (\<lambda>k. if k = turn_key sample_env ''hi'' (sample_message ''assistant'' ''yo'') then Some ''t'' else None)
     (\<lambda>v. None) (\<lambda>v. if v = ''t'' then Some sample_second else None)
     (sample_body [sample_message ''user'' ''hi'', sample_message ''assistant'' ''yo'', sample_message ''user'' ''and?'']) None) = Some sample_second"
proof -
  let ?body = "sample_body [sample_message ''user'' ''hi'']" and ?answer = "sample_message ''assistant'' ''yo''"
  let ?rt = "\<lambda>v. if v = ''t'' then Some sample_second else None"
  let ?get = "\<lambda>k. if k = turn_key sample_env ''hi'' (sample_message ''assistant'' ''yo'') then Some ''t'' else None"
  obtain tn where tn: "ao_turn (auto_route sample_input sample_cands (Some (lookup sample_env (\<lambda>k. None) (\<lambda>v. None) ?rt ?body None))
      (intent_default\<lparr>it_difficulty := 2\<rparr>) False None) = Some tn" "tn_record tn = sample_second" "tn_user tn = ''hi''" "tn_session tn = None" "tn_retry_key tn = None"
    using sample_auto_turn [of "\<lambda>v. None" ?rt] by blast
  have a: "first_choice_message sample_completion = Some ?answer" "role ?answer = ''assistant''"
    by (simp_all add: sample_json role_def)
  have r: "(tn_record tn)\<lparr>tr_bad_output := bad_output sample_env sample_completion\<rparr> = sample_second"
    using tn(2) sample_output_good by (simp add: sample_second_def)
  have "keeps ?get (\<lambda>v. None) ?rt (record_turn sample_env tn sample_completion)"
    using tn(3-5) r a(1) by (simp add: keeps_def record_turn_def Let_def)
  from next_request_finds_the_turn [OF tn(1) a this, of "sample_body [sample_message ''user'' ''hi'', ?answer, sample_message ''user'' ''and?'']"
      "[sample_message ''user'' ''and?'']"]
  show ?thesis unfolding r by (simp add: sample_json messages_def role_def)
qed

text \<open>
  C37: What a session remembers. Its topics are distinct and at most sixteen; after a turn each of the turn's
  own topics stands with the turn's model and level, and while there is room the other topics stand as before.
\<close>

theorem session_remembers_topics:
  assumes "distinct (map st_domain (ss_topics s))"
  shows "distinct (map st_domain (ss_topics (remember r s))) \<and> length (ss_topics (remember r s)) \<le> MAX_TOPICS \<and>
    ss_last (remember r s) = Some r \<and>
    (length (remdups (tr_domains r)) \<le> MAX_TOPICS \<longrightarrow>
      (\<forall>d \<in> set (tr_domains r). d \<noteq> GENERAL_DOMAIN \<longrightarrow> d \<noteq> GENERAL_TAG \<longrightarrow>
        standing_for [d] (remember r s) = Some \<lparr>st_domain = d, st_model = tr_model r, st_rung = tr_rung r\<rparr>)) \<and>
    (length (ss_topics s) + length (remdups (tr_domains r)) \<le> MAX_TOPICS \<longrightarrow>
      (\<forall>d. d \<notin> set (tr_domains r) \<longrightarrow> standing_for [d] (remember r s) = standing_for [d] s))"
proof (intro conjI impI ballI allI)
  show "distinct (map st_domain (ss_topics (remember r s)))"
    using remember_domains [OF assms, of r "tr_domains r"] by (simp add: remember_def Let_def distinct_drop flip: drop_map)
  show "length (ss_topics (remember r s)) \<le> MAX_TOPICS" by (simp add: remember_def Let_def)
qed (simp_all add: standing_remembered standing_kept)

theorem session_remembers_topics_witness:
  "standing_for [''code''] (remember \<lparr>tr_model = ''m'', tr_domains = [''code''], tr_rung = 2, tr_strikes = 0, tr_bad_output = False\<rparr> session_record_default) =
     Some \<lparr>st_domain = ''code'', st_model = ''m'', st_rung = 2\<rparr>"
  using session_remembers_topics [of session_record_default "\<lparr>tr_model = ''m'', tr_domains = [''code''], tr_rung = 2, tr_strikes = 0, tr_bad_output = False\<rparr>"]
  by (simp add: session_record_default_def GENERAL_DOMAIN_def GENERAL_TAG_def MAX_TOPICS_def)

text \<open>
  Classifier prompts. A request makes at most three classifier prompts, none over 2000 bytes, whatever its
  messages hold.
\<close>

theorem classifier_prompts_bounded:
  "length (classifier_prompts body) \<le> CLASSIFIER_LOOKBACK_TURNS \<and> list_all (\<lambda>p. length p \<le> CLASSIFIER_PROMPT_MAX_BYTES) (classifier_prompts body)"
  by (auto simp: classifier_prompts_def Let_def list_all_iff classifier_prompt_length split: option.split dest!: in_set_takeD)

text \<open>A return to an earlier topic takes the level of that topic, which may be lower than the last turn's.\<close>

lemma level_falls_on_return:
  "\<exists>r s cs it ob cv. \<exists>c \<in> set cs.
     let ch = choose_pool cs (Some r) (Some s) it ob (\<lambda>pool. True)
     in ch_pool ch = Some [c] \<and> ch_reason ch = Returned \<and> tr_rung (tn_record (turn_new cv ch c)) < tr_rung r"
proof -
  let ?c = "\<lparr>c_model = sample_model ''a'' 1, c_healthy = True, c_levels = [(''code'', 1)]\<rparr>"
  let ?r = "\<lparr>tr_model = ''b'', tr_domains = [''math''], tr_rung = 3, tr_strikes = 0, tr_bad_output = False\<rparr>"
  let ?s = "\<lparr>ss_last = Some ?r, ss_topics = [\<lparr>st_domain = ''code'', st_model = ''a'', st_rung = 1\<rparr>]\<rparr>"
  let ?it = "\<lparr>it_tags = [''code''], it_difficulty = 1, it_source = Heuristic\<rparr>"
  let ?ch = "choose_pool [?c] (Some ?r) (Some ?s) ?it sample_observed (\<lambda>pool. True)"
  have "ch_pool ?ch = Some [?c] \<and> ch_reason ?ch = Returned \<and> tr_rung (tn_record (turn_new sample_conversation ?ch ?c)) < tr_rung ?r"
    by (simp add: choose_pool_def decide_def Let_def signal_of_def sample_observed_def next_strikes_def STRIKES_TO_ESCALATE_def
        topic_changed_def GENERAL_TAG_def GENERAL_DOMAIN_def domains_of_def returning_def standing_for_def sample_model_def strength_def
        map_filter_simps turn_new_def MAX_TIER_LEVEL_def)
  then show ?thesis unfolding Let_def by (intro exI bexI) (assumption, simp)
qed

end
