(* ===== verification/Spec2Isabelle.thy ===== *)
theory Spec2Isabelle
  imports Replicas Caps Affinity Admit Tenant_Queue Pool Pool_Inv View History Pool_View
    Slots Slot_Ledger Fair_Scheduler Pool_Frame Sched_Inv Sched_Props Pool_Callers Sched_Calm Sched_Steady Sched_Runs
    Text Ip_Text Planner Planner_Props Slurm Slurm_Props Provisioner Provisioner_Props Provisioner_Runs
    Slot_Holds Redis Redis_Slots Redis_Refine Redis_Calls Redis_Fleet Redis_Runs Redis_Props
    Json Routing Routing_Props Intents Sticky Sticky_Props
begin

text \<open>
  A verification library for the subsystems of obleth-gateway that carry its own logic: the fair-share
  scheduler of the data plane (crate \<open>obleth-fairshare\<close>), the slots several gateways share in Redis (crate
  \<open>obleth-redis\<close>), the router that chooses a model for \<open>auto\<close> requests and keeps conversations with it (crates
  \<open>obleth-config\<close> and \<open>obleth-proxy\<close>), and the provisioner that keeps Slurm-backed model replicas at their
  target (crate \<open>obleth-provisioner\<close>). All paths below are under \<open>src/obleth/crates\<close>.

  \<^bold>\<open>The scheduler.\<close> A request for a model is admitted by one scheduler actor per gateway process. The
  actor keeps a pool per model: slots in use, one queue per tenant and key, the fair-share state of two
  algorithms, sessions whose slot is held open for the next step, and the limits of tenants and keys.
  With several gateway processes a pool's slots are either split evenly or claimed one by one from a
  shared backend; claims are asynchronous and may be denied, fail, or be answered after the mode has
  changed.

    \<^item> \<open>Prelude\<close>: Rust maps, iterators and wrapping sums; the shared rewriting rules. \<open>F64\<close>: rounding of
      \<open>f64\<close> (locale \<open>rounding\<close>, interpreted by \<open>fl\<close>).
    \<^item> \<open>Replicas\<close> (\<open>replicas.rs\<close>): the split of a cluster limit and the replica count from heartbeats.
    \<^item> \<open>Caps\<close> (\<open>algorithm.rs\<close>): \<open>weighted_caps\<close>, \<open>group_slot_caps\<close> and the shares of a pool.
    \<^item> \<open>Affinity\<close> (\<open>affinity.rs\<close>): warm sessions and held slots; what takes a held slot back is the
      locale \<open>handback\<close>, with one interpretation per operation that does.
    \<^item> \<open>Admit\<close>, \<open>Tenant_Queue\<close>, \<open>Pool\<close> (\<open>lib.rs\<close>): the values at the boundary, the queues, and every
      operation of \<open>Pool\<close>. \<open>Pool_Inv\<close>, \<open>Pool_Frame\<close> and \<open>Pool_Callers\<close>: the invariant \<open>pool_inv\<close> (counters
      are the slots and queues they count), what each operation leaves alone, and that no operation drops
      a caller who is still there.
    \<^item> \<open>View\<close>, \<open>History\<close>, \<open>Pool_View\<close> (\<open>view.rs\<close>, \<open>history.rs\<close>, \<open>lib.rs\<close>): bounded reports, merging the
      views of several processes, the ring of samples.
    \<^item> \<open>Slots\<close>, \<open>Slot_Ledger\<close> (\<open>shared.rs\<close>): the in-process slot backend and its contract, the locale
      \<open>slot_backend\<close> (claims within caps, releases that free only what is held, exact reconciles),
      interpreted by \<open>mem_backend\<close>; the step relation of several processes calling it in any order. A pool
      keeps to its size in \<open>sized_run\<close>, where no reconcile sends more slots than are recorded: a process that
      expired and reports slots it still uses can take a pool over its size.
    \<^item> \<open>Fair_Scheduler\<close> (\<open>Scheduler\<close> and \<open>SharedCtl\<close> in \<open>lib.rs\<close>): one definition per message, timer and
      helper, composed into \<open>turn\<close>. \<open>Sched_Inv\<close>: every message and timer keeps the invariant.
      \<open>Sched_Props\<close>: the step relation, its reachable states, accounts, ceiling, work conservation.
      \<open>Sched_Calm\<close>, \<open>Sched_Steady\<close>, \<open>Sched_Runs\<close>: with a shared backend no caller is lost, a recorded denial
      is always retried, and mode, divisor and pool sizes follow the replica count and the backend.

  \<^bold>\<open>The slots in Redis.\<close> In a deployment the shared backend is a set of Lua scripts run by Redis (crate
  \<open>obleth-redis\<close>).

    \<^item> \<open>Redis\<close>: the commands the scripts use, as the record \<open>redis\<close> that every script takes; what they are
      documented to do is the locale \<open>redis_server\<close>, interpreted by a server on association lists.
    \<^item> \<open>Redis_Slots\<close> (\<open>scripts.rs\<close>, \<open>slots.rs\<close>, \<open>lib.rs\<close>): one definition per script and helper function, and
      the calls that prepare their arguments and read their replies. A call can be lost on the way there
      or on the way back (\<open>delivery\<close>).
    \<^item> \<open>Slot_Holds\<close>: what can be read of the in-process backend, and its invariant \<open>ledger_inv\<close>.
    \<^item> \<open>Redis_Refine\<close>, \<open>Redis_Calls\<close>, \<open>Redis_Fleet\<close>: the relation \<open>stands_for\<close> between a database and a state of
      the in-process backend, and that each script keeps it and answers alike (locale \<open>slot_scripts\<close>).
    \<^item> \<open>Redis_Runs\<close>, \<open>Redis_Props\<close>: any calls of any replicas at any times; every run on Redis is a run of the
      in-process backend. Cluster-wide sizes, the publishing of freed slots and the shape of the
      database follow. \<open>slot_scripts\<close> is interpreted on the keys the gateway uses.

  The Redis clock does not go back, its counts do not reach the 64-bit range, and calls satisfy \<open>wf_call\<close>
  (caps and times of at least 1, replica ids that are not ids of held slots).

  The environment of a turn is the record \<open>env\<close>: the clock, which callers have gone, the global
  capacity and a random number for jitter. Messages to callers and spawned requests are appended to
  \<open>s_out\<close>. The tokio runtime is the order in which events reach \<open>turn\<close>; the step relation allows every
  order, and a step that reorders the maps, whose iteration order Rust leaves open.

  \<^bold>\<open>The provisioner.\<close> Once per interval a tick reads the managed models and their replica rows, looks
  their Slurm jobs up, probes running replicas, plans, and applies the plan.

    \<^item> \<open>Text\<close>, \<open>Ip_Text\<close>: UTF-8 text, decimal numbers, address literals.
    \<^item> \<open>Planner\<close>, \<open>Planner_Props\<close> (\<open>plan.rs\<close>, \<open>domain.rs\<close>): \<open>plan\<close>, port windows, self-heal counters; the
      plan reaches the target, every action is justified, nothing is torn down twice, excess replicas go
      in order, counters measure sustained failure, a port window is new on its grid.
    \<^item> \<open>Slurm\<close>, \<open>Slurm_Props\<close> (\<open>slurm.rs\<close>): scripts, submit requests, memory and time notations, answers.
    \<^item> \<open>Provisioner\<close>, \<open>Provisioner_Props\<close>, \<open>Provisioner_Runs\<close> (\<open>main.rs\<close>, \<open>executor.rs\<close>, \<open>resolve.rs\<close>): a tick in
      the state monad over the record \<open>services\<close>, which answers every call to the outside from the calls
      made before it. The statements are about the calls of a tick, for any services.

  \<^bold>\<open>The \<open>auto\<close> router.\<close> A request for the model \<open>auto\<close> is read for what it asks (tags and a difficulty), the
  registered models are filtered, those too weak for the difficulty dropped, the rest scored, and one is
  picked. With stickiness on, the pool is first narrowed by what the gateway remembers of the conversation:
  it stays with the model that answered last until there is evidence against it, a harder question or
  another topic; the turn served is stored under fingerprints by which the next request finds it.

    \<^item> \<open>Json\<close>: JSON values and the accessors of \<open>serde_json\<close> used.
    \<^item> \<open>Routing\<close>, \<open>Routing_Props\<close> (\<open>routing/mod.rs\<close>, \<open>route_explain.rs\<close>): levels, filters, floor, scores, pick and
      explanation. The pick is fit for the request and as strong as it must be, the best at temperature
      zero; the explanation is of the decision taken and lists every candidate once.
    \<^item> \<open>Intents\<close> (\<open>routing/mod.rs\<close>, \<open>derive_intent\<close> of \<open>proxy.rs\<close>): the effort header, the heuristics and the
      classifier's prompts.
    \<^item> \<open>Sticky\<close>, \<open>Sticky_Props\<close> (both \<open>sticky.rs\<close>, the \<open>auto\<close> branch of \<open>proxy.rs\<close>): \<open>observe_request\<close>, \<open>decide\<close>,
      \<open>choose_pool\<close>, \<open>lookup\<close>, \<open>record_turn\<close>, \<open>auto_route\<close>. Stickiness costs no pick, evidence moves a conversation,
      its level does not fall while it keeps to its topics, the next request reads the stored turn, and a repeat is
      seen in a conversation that has an earlier answer. What
      it relies on of the router is the locale \<open>pool_server\<close>, interpreted on \<open>select_model\<close>.

  The platform's \<open>exp\<close>, the uniform draw, SHA-256, parsing and printing of JSON text, the classifier and the
  store of turns are parameters. One reading of the clock stands for those made in the course of a request.

  \<^bold>\<open>Bounds.\<close> No definition uses fuel: loops are structural recursions or have a termination proof.
  Counts (\<open>usize\<close>) and instants are natural numbers, saturating subtraction is natural subtraction;
  \<open>i64\<close> sums that can overflow wrap (\<open>i64\<close>); \<open>unrecorded\<close> is a 64-bit word and ports of probed replicas
  are 16-bit words. Finite \<open>f64\<close> values are rationals rounded by \<open>fl\<close> after every operation.

  \<^bold>\<open>Not modelled.\<close> HTTP serving and streaming (\<open>obleth-proxy\<close> apart from the \<open>auto\<close> branch), SQL (\<open>obleth-store\<close>), the management API's
  handlers (\<open>obleth-admin\<close>), the key caches, token buckets and dashboard views in Redis (\<open>obleth-redis\<close>),
  telemetry output and tokenizers are input and output around the logic above. Infinite and undefined \<open>f64\<close>
  values do not occur in the router's model. The provisioner's outer loop, signal handling and logging, and the decoding of JSON bytes, are outside the model of a tick.
\<close>

end
